(* ===== verification/Embers_Prelude.thy ===== *)
theory Embers_Prelude
  imports Main
begin

text \<open>
  Shared vocabulary of the development: the outcome of a Rust call (\<open>Ok\<close>, \<open>Err\<close>, a panic, or
  no return at all), procedures on a mutable state (\<open>&mut self\<close> methods, which keep the writes
  made before an error), their weakest preconditions, loops over vectors, the vector operations
  of the standard library, saturating arithmetic on unsigned integers and strings as lists of
  Unicode scalar values.
\<close>

section \<open>Outcomes\<close>

text \<open>
  \<open>Ok\<close> and \<open>Err\<close> are Rust's \<open>Result\<close>. \<open>Panic\<close> is an index out of bounds or another panic,
  \<open>Diverge\<close> a loop or a recursion that never returns (here: that ran out of fuel). Neither of the
  last two can be caught by the code.
\<close>

datatype ('e, 'a) outcome = Ok 'a | Err 'e | Panic | Diverge

primrec rbind :: "('e, 'a) outcome \<Rightarrow> ('a \<Rightarrow> ('e, 'b) outcome) \<Rightarrow> ('e, 'b) outcome" where
  "rbind (Ok x) f = f x"
| "rbind (Err e) f = Err e"
| "rbind Panic f = Panic"
| "rbind Diverge f = Diverge"

primrec ok_or :: "'e \<Rightarrow> 'a option \<Rightarrow> ('e, 'a) outcome" where
  "ok_or e None = Err e"
| "ok_or e (Some x) = Ok x"

text \<open>\<open>result.ok()\<close>, \<open>result.is_ok()\<close>: an error becomes a value, the rest stays.\<close>

primrec result_ok :: "('e, 'a) outcome \<Rightarrow> ('e, 'a option) outcome" where
  "result_ok (Ok x) = Ok (Some x)"
| "result_ok (Err e) = Ok None"
| "result_ok Panic = Panic"
| "result_ok Diverge = Diverge"

section \<open>Procedures\<close>

text \<open>A \<open>&mut self\<close> method: the state after the call is there for errors too.\<close>

type_synonym ('s, 'e, 'a) proc = "'s \<Rightarrow> ('e, 'a) outcome \<times> 's"

definition ret :: "'a \<Rightarrow> ('s, 'e, 'a) proc" where
  "ret x = (\<lambda>s. (Ok x, s))"

definition raise :: "'e \<Rightarrow> ('s, 'e, 'a) proc" where
  "raise e = (\<lambda>s. (Err e, s))"

definition panic :: "('s, 'e, 'a) proc" where
  "panic = (\<lambda>s. (Panic, s))"

definition diverge :: "('s, 'e, 'a) proc" where
  "diverge = (\<lambda>s. (Diverge, s))"

definition reads :: "('s \<Rightarrow> ('e, 'a) outcome) \<Rightarrow> ('s, 'e, 'a) proc" where
  "reads f = (\<lambda>s. (f s, s))"

definition gets :: "('s \<Rightarrow> 'a) \<Rightarrow> ('s, 'e, 'a) proc" where
  "gets f = (\<lambda>s. (Ok (f s), s))"

definition modify :: "('s \<Rightarrow> 's) \<Rightarrow> ('s, 'e, unit) proc" where
  "modify f = (\<lambda>s. (Ok (), f s))"

definition pbind :: "('s, 'e, 'a) proc \<Rightarrow> ('a \<Rightarrow> ('s, 'e, 'b) proc) \<Rightarrow> ('s, 'e, 'b) proc" where
  "pbind m f = (\<lambda>s. case m s of
      (Ok x, t) \<Rightarrow> f x t
    | (Err e, t) \<Rightarrow> (Err e, t)
    | (Panic, t) \<Rightarrow> (Panic, t)
    | (Diverge, t) \<Rightarrow> (Diverge, t))"

text \<open>
  \<open>match m { Ok(x) => f(x), Err(e) => h(e) }\<close>: both branches go on from the state \<open>m\<close> left.
\<close>

definition match_result ::
  "('s, 'e, 'a) proc \<Rightarrow> ('a \<Rightarrow> ('s, 'e, 'b) proc) \<Rightarrow> ('e \<Rightarrow> ('s, 'e, 'b) proc) \<Rightarrow> ('s, 'e, 'b) proc"
  where
  "match_result m f h = (\<lambda>s. case m s of
      (Ok x, t) \<Rightarrow> f x t
    | (Err e, t) \<Rightarrow> h e t
    | (Panic, t) \<Rightarrow> (Panic, t)
    | (Diverge, t) \<Rightarrow> (Diverge, t))"

text \<open>A loop over a vector whose body may return early with \<open>?\<close>.\<close>

primrec for_each :: "'a list \<Rightarrow> ('a \<Rightarrow> ('s, 'e, unit) proc) \<Rightarrow> ('s, 'e, unit) proc" where
  "for_each [] f = ret ()"
| "for_each (x # xs) f = pbind (f x) (\<lambda>_. for_each xs f)"

primrec fold_proc :: "('a \<Rightarrow> 'b \<Rightarrow> ('s, 'e, 'b) proc) \<Rightarrow> 'a list \<Rightarrow> 'b \<Rightarrow> ('s, 'e, 'b) proc" where
  "fold_proc f [] acc = ret acc"
| "fold_proc f (x # xs) acc = pbind (f x acc) (fold_proc f xs)"

text \<open>
  The read-only loops: a check of every element, the first element for which the body yields a
  value, whether the body holds of some element, a fold and a collection.
\<close>

primrec all_ok :: "('a \<Rightarrow> ('e, unit) outcome) \<Rightarrow> 'a list \<Rightarrow> ('e, unit) outcome" where
  "all_ok f [] = Ok ()"
| "all_ok f (x # xs) = rbind (f x) (\<lambda>_. all_ok f xs)"

primrec first_some :: "('a \<Rightarrow> ('e, 'b option) outcome) \<Rightarrow> 'a list \<Rightarrow> ('e, 'b option) outcome" where
  "first_some f [] = Ok None"
| "first_some f (x # xs) =
     rbind (f x) (\<lambda>r. case r of Some y \<Rightarrow> Ok (Some y) | None \<Rightarrow> first_some f xs)"

primrec any_ok :: "('a \<Rightarrow> ('e, bool) outcome) \<Rightarrow> 'a list \<Rightarrow> ('e, bool) outcome" where
  "any_ok f [] = Ok False"
| "any_ok f (x # xs) = rbind (f x) (\<lambda>b. if b then Ok True else any_ok f xs)"

primrec fold_ok :: "('a \<Rightarrow> 'b \<Rightarrow> ('e, 'b) outcome) \<Rightarrow> 'a list \<Rightarrow> 'b \<Rightarrow> ('e, 'b) outcome" where
  "fold_ok f [] acc = Ok acc"
| "fold_ok f (x # xs) acc = rbind (f x acc) (fold_ok f xs)"

primrec map_ok :: "('a \<Rightarrow> ('e, 'b) outcome) \<Rightarrow> 'a list \<Rightarrow> ('e, 'b list) outcome" where
  "map_ok f [] = Ok []"
| "map_ok f (x # xs) = rbind (f x) (\<lambda>y. rbind (map_ok f xs) (\<lambda>ys. Ok (y # ys)))"

section \<open>Weakest preconditions\<close>

text \<open>
  \<open>wp m Q E s\<close>: from \<open>s\<close>, \<open>m\<close> returns; on success \<open>Q\<close> holds of the value and the new state, on an
  error \<open>E\<close> holds of it and the new state. A panic or a divergence satisfies nothing.
\<close>

definition wp ::
  "('s, 'e, 'a) proc \<Rightarrow> ('a \<Rightarrow> 's \<Rightarrow> bool) \<Rightarrow> ('e \<Rightarrow> 's \<Rightarrow> bool) \<Rightarrow> 's \<Rightarrow> bool" where
  "wp m Q E s = (case m s of
      (Ok x, t) \<Rightarrow> Q x t
    | (Err e, t) \<Rightarrow> E e t
    | (Panic, t) \<Rightarrow> False
    | (Diverge, t) \<Rightarrow> False)"

definition rwp :: "('e, 'a) outcome \<Rightarrow> ('a \<Rightarrow> bool) \<Rightarrow> ('e \<Rightarrow> bool) \<Rightarrow> bool" where
  "rwp r Q E = (case r of Ok x \<Rightarrow> Q x | Err e \<Rightarrow> E e | Panic \<Rightarrow> False | Diverge \<Rightarrow> False)"

named_theorems wp_simps \<open>weakest-precondition equations\<close>

lemma rwp_simps [simp]:
  "rwp (Ok x) Q E = Q x" "rwp (Err e) Q E = E e" "\<not> rwp Panic Q E" "\<not> rwp Diverge Q E"
  by (simp_all add: rwp_def)

lemma wp_ret [wp_simps, simp]: "wp (ret x) Q E s = Q x s"
  by (simp add: wp_def ret_def)

lemma wp_raise [wp_simps, simp]: "wp (raise e) Q E s = E e s"
  by (simp add: wp_def raise_def)

lemma wp_panic [wp_simps, simp]: "wp panic Q E s = False"
  by (simp add: wp_def panic_def)

lemma wp_diverge [wp_simps, simp]: "wp diverge Q E s = False"
  by (simp add: wp_def diverge_def)

lemma wp_reads [wp_simps]: "wp (reads f) Q E s = rwp (f s) (\<lambda>x. Q x s) (\<lambda>e. E e s)"
  by (simp add: wp_def reads_def rwp_def)

lemma wp_gets [wp_simps, simp]: "wp (gets f) Q E s = Q (f s) s"
  by (simp add: wp_def gets_def)

lemma wp_modify [wp_simps, simp]: "wp (modify f) Q E s = Q () (f s)"
  by (simp add: wp_def modify_def)

lemma wp_pbind [wp_simps]: "wp (pbind m f) Q E s = wp m (\<lambda>x. wp (f x) Q E) E s"
  by (auto simp: wp_def pbind_def split: prod.splits outcome.splits)

lemma wp_match_result [wp_simps]:
  "wp (match_result m f h) Q E s = wp m (\<lambda>x. wp (f x) Q E) (\<lambda>e. wp (h e) Q E) s"
  by (auto simp: wp_def match_result_def split: prod.splits outcome.splits)

lemma rwp_rbind [wp_simps]: "rwp (rbind r f) Q E = rwp r (\<lambda>x. rwp (f x) Q E) E"
  by (cases r) simp_all

lemma rwp_ok_or [wp_simps]:
  "rwp (ok_or e x) Q E = (case x of None \<Rightarrow> E e | Some y \<Rightarrow> Q y)"
  by (cases x) simp_all

lemma rwp_result_ok [wp_simps]: "rwp (result_ok r) Q E = rwp r (\<lambda>x. Q (Some x)) (\<lambda>_. Q None)"
  by (cases r) simp_all

lemma wp_mono:
  assumes "wp m Q E s"
    and "\<And>x t. Q x t \<Longrightarrow> Q' x t" and "\<And>e t. E e t \<Longrightarrow> E' e t"
  shows "wp m Q' E' s"
  using assms by (auto simp: wp_def split: prod.splits outcome.splits)

lemma rwp_mono:
  assumes "rwp r Q E" and "\<And>x. Q x \<Longrightarrow> Q' x" and "\<And>e. E e \<Longrightarrow> E' e"
  shows "rwp r Q' E'"
  using assms by (cases r) auto

lemma wp_conj:
  "wp m Q E s \<Longrightarrow> wp m Q' E' s \<Longrightarrow> wp m (\<lambda>x t. Q x t \<and> Q' x t) (\<lambda>e t. E e t \<and> E' e t) s"
  by (auto simp: wp_def split: prod.splits outcome.splits)

lemma wp_OkD: "wp m Q E s \<Longrightarrow> m s = (Ok x, t) \<Longrightarrow> Q x t"
  by (simp add: wp_def)

lemma wp_ErrD: "wp m Q E s \<Longrightarrow> m s = (Err e, t) \<Longrightarrow> E e t"
  by (simp add: wp_def)

lemma wp_OkI: "m s = (Ok x, t) \<Longrightarrow> Q x t \<Longrightarrow> wp m Q E s"
  by (simp add: wp_def)

lemma wp_total: "wp m Q E s \<Longrightarrow> fst (m s) \<noteq> Panic \<and> fst (m s) \<noteq> Diverge"
  by (auto simp: wp_def split: prod.splits outcome.splits)

lemma wp_cases:
  assumes "wp m Q E s"
  obtains x t where "m s = (Ok x, t)" "Q x t" | e t where "m s = (Err e, t)" "E e t"
  using assms by (auto simp: wp_def split: prod.splits outcome.splits)

lemma rwp_Ok_iff: "rwp r Q (\<lambda>_. False) \<longleftrightarrow> (\<exists>x. r = Ok x \<and> Q x)"
  by (cases r) simp_all

text \<open>A loop keeps what its body keeps.\<close>

lemma wp_for_each:
  assumes "I s" and "\<And>x t. x \<in> set xs \<Longrightarrow> I t \<Longrightarrow> wp (f x) (\<lambda>_. I) E t"
  shows "wp (for_each xs f) (\<lambda>_. I) E s"
  using assms
proof (induction xs arbitrary: s)
  case Nil
  then show ?case by simp
next
  case (Cons x xs)
  have "wp (f x) (\<lambda>_. I) E s" using Cons.prems by simp
  then show ?case
    unfolding for_each.simps wp_pbind
    by (rule wp_mono) (auto intro!: Cons.IH Cons.prems(2))
qed

lemma wp_fold_proc:
  assumes "I s" and "\<And>x acc t. x \<in> set xs \<Longrightarrow> I t \<Longrightarrow> wp (f x acc) (\<lambda>_. I) E t"
  shows "wp (fold_proc f xs acc) (\<lambda>_. I) E s"
  using assms
proof (induction xs arbitrary: s acc)
  case Nil
  then show ?case by simp
next
  case (Cons x xs)
  have "wp (f x acc) (\<lambda>_. I) E s" using Cons.prems by simp
  then show ?case
    unfolding fold_proc.simps wp_pbind
    by (rule wp_mono) (auto intro!: Cons.IH Cons.prems(2))
qed

lemma all_ok_Ok_iff: "all_ok f xs = Ok () \<longleftrightarrow> (\<forall>x \<in> set xs. f x = Ok ())"
proof (induction xs)
  case (Cons x xs)
  then show ?case by (cases "f x") auto
qed simp

section \<open>Vectors\<close>

text \<open>\<open>iter().position(p)\<close>: the index of the first element that satisfies \<open>p\<close>.\<close>

primrec position :: "('a \<Rightarrow> bool) \<Rightarrow> 'a list \<Rightarrow> nat option" where
  "position p [] = None"
| "position p (x # xs) = (if p x then Some 0 else map_option Suc (position p xs))"

text \<open>
  \<open>get(i)\<close>, \<open>remove(i)\<close>, \<open>insert(i, x)\<close> and \<open>swap(i, j)\<close>. The last three panic out of range; the
  callers below test the index or handle the panic as \<open>Panic\<close>.
\<close>

definition vec_get :: "'a list \<Rightarrow> nat \<Rightarrow> 'a option" where
  "vec_get xs i = (if i < length xs then Some (xs ! i) else None)"

definition vec_remove :: "nat \<Rightarrow> 'a list \<Rightarrow> 'a list" where
  "vec_remove i xs = take i xs @ drop (Suc i) xs"

definition vec_insert :: "nat \<Rightarrow> 'a \<Rightarrow> 'a list \<Rightarrow> 'a list" where
  "vec_insert i x xs = take i xs @ x # drop i xs"

definition vec_swap :: "nat \<Rightarrow> nat \<Rightarrow> 'a list \<Rightarrow> 'a list" where
  "vec_swap i j xs = xs[i := xs ! j, j := xs ! i]"

lemma position_SomeD:
  "position p xs = Some i \<Longrightarrow> i < length xs \<and> p (xs ! i) \<and> (\<forall>j < i. \<not> p (xs ! j))"
proof (induction xs arbitrary: i)
  case (Cons x xs)
  show ?case
  proof (cases "p x")
    case True
    with Cons.prems show ?thesis by auto
  next
    case False
    with Cons.prems obtain j where j: "position p xs = Some j" "i = Suc j" by auto
    have "j < length xs \<and> p (xs ! j) \<and> (\<forall>k < j. \<not> p (xs ! k))" using Cons.IH [OF j(1)] .
    with j(2) False show ?thesis by (auto simp: less_Suc_eq_0_disj)
  qed
qed simp

lemma position_None_iff: "position p xs = None \<longleftrightarrow> (\<forall>x \<in> set xs. \<not> p x)"
  by (induction xs) auto

lemma position_eq_nth:
  "distinct xs \<Longrightarrow> i < length xs \<Longrightarrow> position (\<lambda>x. x = xs ! i) xs = Some i"
proof (induction xs arbitrary: i)
  case (Cons x xs)
  then show ?case by (cases i) auto
qed simp

lemma position_map: "position p (map f xs) = position (\<lambda>x. p (f x)) xs"
  by (induction xs) auto

lemma length_vec_remove [simp]: "i < length xs \<Longrightarrow> length (vec_remove i xs) = length xs - 1"
  by (simp add: vec_remove_def)

lemma length_vec_insert [simp]: "i \<le> length xs \<Longrightarrow> length (vec_insert i x xs) = Suc (length xs)"
  by (simp add: vec_insert_def)

lemma length_vec_swap [simp]: "length (vec_swap i j xs) = length xs"
  by (simp add: vec_swap_def)

lemma set_vec_insert [simp]: "set (vec_insert i x xs) = insert x (set xs)"
  unfolding vec_insert_def
  using set_append [of "take i xs" "drop i xs"] by (simp del: set_append) auto

lemma map_vec_remove: "map f (vec_remove i xs) = vec_remove i (map f xs)"
  by (simp add: vec_remove_def take_map drop_map)

lemma map_vec_insert: "map f (vec_insert i x xs) = vec_insert i (f x) (map f xs)"
  by (simp add: vec_insert_def take_map drop_map)

lemma map_vec_swap:
  "i < length xs \<Longrightarrow> j < length xs \<Longrightarrow> map f (vec_swap i j xs) = vec_swap i j (map f xs)"
  by (simp add: vec_swap_def map_update)

lemma distinct_vec_insert [simp]:
  "distinct (vec_insert i x xs) \<longleftrightarrow> x \<notin> set xs \<and> distinct xs"
proof -
  have "distinct (vec_insert i x xs) \<longleftrightarrow> distinct (x # take i xs @ drop i xs)"
    unfolding vec_insert_def by (auto simp del: append_take_drop_id)
  then show ?thesis by simp
qed

lemma vec_remove_nth_split:
  assumes "i < length xs"
  shows "xs = take i xs @ xs ! i # drop (Suc i) xs"
  using assms by (simp add: id_take_nth_drop)

lemma distinct_vec_remove [simp]: "distinct xs \<Longrightarrow> distinct (vec_remove i xs)"
proof (cases "i < length xs")
  case True
  assume "distinct xs"
  then have "distinct (take i xs @ xs ! i # drop (Suc i) xs)"
    using vec_remove_nth_split [OF True] by simp
  then show ?thesis by (simp add: vec_remove_def)
qed (simp add: vec_remove_def)

lemma set_vec_remove_distinct:
  assumes "distinct xs" and "i < length xs"
  shows "set (vec_remove i xs) = set xs - {xs ! i}"
proof -
  have *: "xs = take i xs @ xs ! i # drop (Suc i) xs"
    using vec_remove_nth_split [OF assms(2)] .
  then have "distinct (take i xs @ xs ! i # drop (Suc i) xs)" using assms(1) by simp
  moreover have "set xs = set (take i xs) \<union> {xs ! i} \<union> set (drop (Suc i) xs)"
    by (subst *) auto
  ultimately show ?thesis by (auto simp: vec_remove_def)
qed

lemma set_vec_swap [simp]:
  "i < length xs \<Longrightarrow> j < length xs \<Longrightarrow> set (vec_swap i j xs) = set xs"
  by (auto simp: vec_swap_def set_swap)

lemma distinct_vec_swap [simp]:
  "i < length xs \<Longrightarrow> j < length xs \<Longrightarrow> distinct (vec_swap i j xs) = distinct xs"
  by (simp add: vec_swap_def distinct_swap)

section \<open>Unsigned integers\<close>

text \<open>
  An unsigned integer of the source is a natural number; where an operation of the source can
  leave the width, the model says what it does there: saturating operations stop at the bounds.
\<close>

definition u16_max :: nat where "u16_max = 65535"
definition u64_max :: nat where "u64_max = 18446744073709551615"

definition sat_add :: "nat \<Rightarrow> nat \<Rightarrow> nat \<Rightarrow> nat" where
  "sat_add m a b = min (a + b) m"

definition sat_mul :: "nat \<Rightarrow> nat \<Rightarrow> nat \<Rightarrow> nat" where
  "sat_mul m a b = min (a * b) m"

text \<open>\<open>saturating_sub\<close> is truncated subtraction: \<open>a - b\<close> on \<open>nat\<close>.\<close>

lemma sat_add_le [simp]: "sat_add m a b \<le> m"
  by (simp add: sat_add_def)

lemma sat_mul_le [simp]: "sat_mul m a b \<le> m"
  by (simp add: sat_mul_def)

section \<open>Strings\<close>

text \<open>
  A Rust string is a sequence of Unicode scalar values. \<open>str_lit\<close> gives the scalar values of an
  ASCII literal.
\<close>

type_synonym rstring = "nat list"

definition str_lit :: "string \<Rightarrow> rstring" where
  "str_lit cs = map of_char cs"

text \<open>\<open>char::is_whitespace\<close>, the Unicode property White\_Space, and \<open>str::trim\<close>.\<close>

definition is_whitespace :: "nat \<Rightarrow> bool" where
  "is_whitespace c \<longleftrightarrow>
     9 \<le> c \<and> c \<le> 13 \<or> c = 32 \<or> c = 133 \<or> c = 160 \<or> c = 5760 \<or> 8192 \<le> c \<and> c \<le> 8202 \<or>
     c = 8232 \<or> c = 8233 \<or> c = 8239 \<or> c = 8287 \<or> c = 12288"

definition trim :: "rstring \<Rightarrow> rstring" where
  "trim cs = rev (dropWhile is_whitespace (rev (dropWhile is_whitespace cs)))"

definition to_ascii_lowercase :: "rstring \<Rightarrow> rstring" where
  "to_ascii_lowercase cs = map (\<lambda>c. if 65 \<le> c \<and> c \<le> 90 then c + 32 else c) cs"

lemma trim_Nil_iff: "trim cs = [] \<longleftrightarrow> (\<forall>c \<in> set cs. is_whitespace c)"
proof
  assume "trim cs = []"
  then have "\<forall>c \<in> set (dropWhile is_whitespace cs). is_whitespace c"
    by (simp add: trim_def)
  then have "dropWhile is_whitespace cs = []"
    by (metis hd_dropWhile hd_in_set)
  then show "\<forall>c \<in> set cs. is_whitespace c" by simp
next
  assume "\<forall>c \<in> set cs. is_whitespace c"
  then show "trim cs = []" by (auto simp: trim_def dest: set_dropWhileD)
qed


end
