(* ===== verification/Ordered_Map.thy ===== *)
theory Ordered_Map
  imports Embers_Prelude "HOL-Library.List_Lexorder"
begin

text \<open>
  Rust's \<open>BTreeMap\<close>: a finite map whose iteration follows the order of the keys. The type is the
  association lists with strictly increasing keys, so two maps with the same entries are equal.
  The interface the rest of the development relies on is the locale \<open>ordered_map\<close>.
\<close>

section \<open>The interface\<close>

locale ordered_map =
  fixes emp :: 'm
    and get :: "'m \<Rightarrow> 'k::linorder \<Rightarrow> 'v option"
    and ins :: "'k \<Rightarrow> 'v \<Rightarrow> 'm \<Rightarrow> 'm"
    and rem :: "'k \<Rightarrow> 'm \<Rightarrow> 'm"
    and ents :: "'m \<Rightarrow> ('k \<times> 'v) list"
  assumes get_emp: "get emp k = None"
    and get_ins: "get (ins k v m) k' = (if k' = k then Some v else get m k')"
    and get_rem: "get (rem k m) k' = (if k' = k then None else get m k')"
    and get_ents: "get m k = map_of (ents m) k"
    and ents_sorted: "sorted_wrt (<) (map fst (ents m))"
    and ents_inject: "ents m = ents m' \<Longrightarrow> m = m'"
begin

lemma ents_distinct: "distinct (map fst (ents m))"
  using ents_sorted [of m] strict_sorted_iff by blast

lemma in_ents_iff: "(k, v) \<in> set (ents m) \<longleftrightarrow> get m k = Some v"
  using ents_distinct [of m] by (simp add: get_ents map_of_eq_Some_iff)

lemma ents_set: "set (ents m) = {(k, v). get m k = Some v}"
  using in_ents_iff by auto

lemma in_keys_iff: "k \<in> set (map fst (ents m)) \<longleftrightarrow> get m k \<noteq> None"
  by (auto simp: get_ents map_of_eq_None_iff)

lemma in_values_iff: "v \<in> set (map snd (ents m)) \<longleftrightarrow> (\<exists>k. get m k = Some v)"
  using in_ents_iff [of _ v m] by (force simp: image_iff)

lemma finite_keys: "finite {k. get m k \<noteq> None}"
proof -
  have "{k. get m k \<noteq> None} = set (map fst (ents m))" using in_keys_iff by auto
  then show ?thesis by simp
qed

lemma length_ents: "length (ents m) = card {k. get m k \<noteq> None}"
proof -
  have "card {k. get m k \<noteq> None} = card (set (map fst (ents m)))"
    by (rule arg_cong [where f = card]) (use in_keys_iff in auto)
  also have "\<dots> = length (ents m)"
    using distinct_card [OF ents_distinct [of m]] by simp
  finally show ?thesis ..
qed

text \<open>The map is determined by its lookups.\<close>

lemma map_ext:
  assumes "\<And>k. get m k = get m' k"
  shows "m = m'"
proof -
  have "set (ents m) = set (ents m')" using assms by (simp add: ents_set)
  moreover have "sorted (map fst (ents m))" "sorted (map fst (ents m'))"
    using ents_sorted strict_sorted_iff by blast+
  moreover have "distinct (map fst (ents m))" "distinct (map fst (ents m'))"
    using ents_distinct by auto
  ultimately have "ents m = ents m'"
    by (metis map_sorted_distinct_set_unique distinct_map inj_on_Un sup.idem)
  then show ?thesis by (rule ents_inject)
qed

lemma ins_get_same: "get m k = Some v \<Longrightarrow> ins k v m = m"
  by (rule map_ext) (simp add: get_ins)

lemma ins_ins: "ins k v (ins k w m) = ins k v m"
  by (rule map_ext) (simp add: get_ins)

lemma rem_ins: "rem k (ins k v m) = rem k m"
  by (rule map_ext) (simp add: get_ins get_rem)

lemma rem_absent: "get m k = None \<Longrightarrow> rem k m = m"
  by (rule map_ext) (auto simp: get_rem)

end

section \<open>The implementation\<close>

fun insert_entry :: "'k::linorder \<Rightarrow> 'v \<Rightarrow> ('k \<times> 'v) list \<Rightarrow> ('k \<times> 'v) list" where
  "insert_entry k v [] = [(k, v)]"
| "insert_entry k v ((a, b) # es) =
     (if k < a then (k, v) # (a, b) # es
      else if k = a then (k, v) # es
      else (a, b) # insert_entry k v es)"

definition remove_entry :: "'k \<Rightarrow> ('k \<times> 'v) list \<Rightarrow> ('k \<times> 'v) list" where
  "remove_entry k es = filter (\<lambda>e. fst e \<noteq> k) es"

lemma set_keys_insert_entry:
  "set (map fst (insert_entry k v es)) = insert k (set (map fst es))"
  by (induction k v es rule: insert_entry.induct) auto

lemma sorted_insert_entry:
  "sorted_wrt (<) (map fst es) \<Longrightarrow> sorted_wrt (<) (map fst (insert_entry k v es))"
proof (induction k v es rule: insert_entry.induct)
  case (1 k v)
  then show ?case by simp
next
  case (2 k v a b es)
  show ?case
  proof (cases "k \<le> a")
    case True
    with "2.prems" show ?thesis by (cases "k = a") auto
  next
    case False
    have "sorted_wrt (<) (map fst (insert_entry k v es))" using "2.IH" "2.prems" False by auto
    moreover have "\<forall>c \<in> set (map fst (insert_entry k v es)). a < c"
      unfolding set_keys_insert_entry using "2.prems" False by auto
    ultimately show ?thesis using False by auto
  qed
qed

lemma map_of_insert_entry: "map_of (insert_entry k v es) = (map_of es)(k \<mapsto> v)"
  by (induction k v es rule: insert_entry.induct) (auto simp: fun_eq_iff)

lemma sorted_remove_entry:
  "sorted_wrt (<) (map fst es) \<Longrightarrow> sorted_wrt (<) (map fst (remove_entry k es))"
  by (induction es) (auto simp: remove_entry_def)

lemma map_of_remove_entry: "map_of (remove_entry k es) = (map_of es)(k := None)"
  by (induction es) (auto simp: remove_entry_def fun_eq_iff)

lemma sorted_map_entry_values:
  "sorted_wrt (<) (map fst es) \<Longrightarrow> sorted_wrt (<) (map fst (map (\<lambda>(k, v). (k, f v)) es))"
  by (simp add: case_prod_unfold comp_def)

typedef (overloaded) ('k::linorder, 'v) btree_map =
  "{es :: ('k \<times> 'v) list. sorted_wrt (<) (map fst es)}"
  morphisms bt_entries Abs_btree_map
  by (rule exI [of _ "[]"]) simp

setup_lifting type_definition_btree_map

lift_definition bt_empty :: "('k::linorder, 'v) btree_map" is "[]" by simp

lift_definition bt_insert :: "'k::linorder \<Rightarrow> 'v \<Rightarrow> ('k, 'v) btree_map \<Rightarrow> ('k, 'v) btree_map"
  is insert_entry by (rule sorted_insert_entry)

lift_definition bt_remove :: "'k::linorder \<Rightarrow> ('k, 'v) btree_map \<Rightarrow> ('k, 'v) btree_map"
  is remove_entry by (rule sorted_remove_entry)

lift_definition bt_get :: "('k::linorder, 'v) btree_map \<Rightarrow> 'k \<Rightarrow> 'v option" is map_of .

lift_definition bt_map_values :: "('v \<Rightarrow> 'w) \<Rightarrow> ('k::linorder, 'v) btree_map \<Rightarrow> ('k, 'w) btree_map"
  is "\<lambda>f. map (\<lambda>(k, v). (k, f v))" by (rule sorted_map_entry_values)

lift_definition bt_filter_keys :: "('k::linorder \<Rightarrow> bool) \<Rightarrow> ('k, 'v) btree_map \<Rightarrow> ('k, 'v) btree_map"
  is "\<lambda>p. filter (\<lambda>e. p (fst e))"
proof -
  fix p and es :: "('k \<times> 'v) list"
  assume "sorted_wrt (<) (map fst es)"
  then show "sorted_wrt (<) (map fst (filter (\<lambda>e. p (fst e)) es))"
    by (induction es) auto
qed

definition bt_keys :: "('k::linorder, 'v) btree_map \<Rightarrow> 'k list" where
  "bt_keys m = map fst (bt_entries m)"

definition bt_values :: "('k::linorder, 'v) btree_map \<Rightarrow> 'v list" where
  "bt_values m = map snd (bt_entries m)"

definition bt_len :: "('k::linorder, 'v) btree_map \<Rightarrow> nat" where
  "bt_len m = length (bt_entries m)"

definition bt_contains :: "('k::linorder, 'v) btree_map \<Rightarrow> 'k \<Rightarrow> bool" where
  "bt_contains m k = (bt_get m k \<noteq> None)"

text \<open>\<open>get_mut\<close> followed by a write through the reference; nothing happens for an absent key.\<close>

definition bt_update :: "'k::linorder \<Rightarrow> ('v \<Rightarrow> 'v) \<Rightarrow> ('k, 'v) btree_map \<Rightarrow> ('k, 'v) btree_map" where
  "bt_update k f m = (case bt_get m k of None \<Rightarrow> m | Some v \<Rightarrow> bt_insert k (f v) m)"

text \<open>Extending a map with the entries of another: later entries win.\<close>

definition bt_extend :: "('k::linorder, 'v) btree_map \<Rightarrow> ('k, 'v) btree_map \<Rightarrow> ('k, 'v) btree_map" where
  "bt_extend m m' = fold (\<lambda>(k, v). bt_insert k v) (bt_entries m') m"

instantiation btree_map :: (linorder, equal) equal
begin

definition equal_btree_map :: "('a, 'b) btree_map \<Rightarrow> ('a, 'b) btree_map \<Rightarrow> bool" where
  "equal_btree_map m m' = (bt_entries m = bt_entries m')"

instance
  by standard (simp add: equal_btree_map_def bt_entries_inject)

end

interpretation bt: ordered_map bt_empty bt_get bt_insert bt_remove bt_entries
proof unfold_locales
  fix k k' :: 'a and v :: 'b and m m' :: "('a, 'b) btree_map"
  show "bt_get bt_empty k = (None :: 'b option)" by transfer simp
  show "bt_get (bt_insert k v m) k' = (if k' = k then Some v else bt_get m k')"
    by transfer (simp add: map_of_insert_entry)
  show "bt_get (bt_remove k m) k' = (if k' = k then None else bt_get m k')"
    by transfer (simp add: map_of_remove_entry)
  show "bt_get m k = map_of (bt_entries m) k" by transfer simp
  show "sorted_wrt (<) (map fst (bt_entries m))" by transfer simp
  show "bt_entries m = bt_entries m' \<Longrightarrow> m = m'" by (simp add: bt_entries_inject)
qed

section \<open>Laws the components use\<close>

lemmas bt_simps [simp] = bt.get_emp bt.get_ins bt.get_rem bt.ins_ins bt.rem_ins

lemma bt_get_update [simp]:
  "bt_get (bt_update k f m) k' = (if k' = k then map_option f (bt_get m k) else bt_get m k')"
  by (simp add: bt_update_def split: option.split)

lemma map_of_map_values: "map_of (map (\<lambda>(k, v). (k, f v)) es) k = map_option f (map_of es k)"
  by (induction es) auto

lemma map_of_filter_keys:
  "map_of (filter (\<lambda>e. p (fst e)) es) k = (if p k then map_of es k else None)"
  by (induction es) auto

lemma bt_get_map_values [simp]: "bt_get (bt_map_values f m) k = map_option f (bt_get m k)"
  by transfer (rule map_of_map_values)

lemma bt_get_filter_keys [simp]:
  "bt_get (bt_filter_keys p m) k = (if p k then bt_get m k else None)"
  by transfer (rule map_of_filter_keys)

lemma bt_contains_iff [simp]: "bt_contains m k \<longleftrightarrow> (\<exists>v. bt_get m k = Some v)"
  by (auto simp: bt_contains_def)

lemma bt_keys_iff [simp]: "k \<in> set (bt_keys m) \<longleftrightarrow> (\<exists>v. bt_get m k = Some v)"
  unfolding bt_keys_def bt.in_keys_iff by auto

lemma bt_values_iff: "v \<in> set (bt_values m) \<longleftrightarrow> (\<exists>k. bt_get m k = Some v)"
  unfolding bt_values_def bt.in_values_iff ..

lemma bt_finite_dom [simp]: "finite (dom (bt_get m))"
  using bt.finite_keys [of m] by (simp add: dom_def)

lemma bt_len_card: "bt_len m = card (dom (bt_get m))"
  using bt.length_ents [of m] by (simp add: bt_len_def dom_def)

lemma bt_entries_empty [simp]: "bt_entries bt_empty = []"
  by transfer simp

lemma bt_entries_insert: "bt_entries (bt_insert k v m) = insert_entry k v (bt_entries m)"
  by transfer simp

lemma bt_entries_remove: "bt_entries (bt_remove k m) = remove_entry k (bt_entries m)"
  by transfer simp

lemma bt_keys_sorted: "sorted_wrt (<) (bt_keys m)"
  by (simp add: bt_keys_def bt.ents_sorted)

lemma bt_extend_fold:
  "distinct (map fst es) \<Longrightarrow>
   bt_get (fold (\<lambda>(k, v). bt_insert k v) es m) k =
     (case map_of es k of None \<Rightarrow> bt_get m k | Some v \<Rightarrow> Some v)"
proof (induction es arbitrary: m)
  case (Cons e es)
  obtain a b where e: "e = (a, b)" by (cases e)
  have "map_of es a = None" using Cons.prems e by (simp add: map_of_eq_None_iff)
  with Cons e show ?case by (auto split: option.split)
qed simp

text \<open>
  A map from strings to strings. Strings are ordered lexicographically by scalar value, which is
  the order of their UTF-8 bytes.
\<close>

type_synonym string_map = "(rstring, rstring) btree_map"

lemma bt_get_extend:
  "bt_get (bt_extend m m') k = (case bt_get m' k of None \<Rightarrow> bt_get m k | Some v \<Rightarrow> Some v)"
  unfolding bt_extend_def
  by (subst bt_extend_fold) (simp_all add: bt.ents_distinct bt.get_ents)

end
