(* ===== verification/Embers_Core.thy ===== *)
theory Embers_Core
  imports Ordered_Map
begin

text \<open>
  The shared vocabulary of \<open>crates/embers-core\<close>: identifiers and their allocator (\<open>ids.rs\<close>), sizes
  and geometry (\<open>geometry.rs\<close>), activity (\<open>metadata.rs\<close>) and errors (\<open>error.rs\<close>).
\<close>

section \<open>Identifiers\<close>

text \<open>Every id is a \<open>u64\<close>; the newtypes of the source are type synonyms here.\<close>

type_synonym session_id = nat
type_synonym buffer_id = nat
type_synonym node_id = nat
type_synonym floating_id = nat

text \<open>
  \<open>IdAllocator\<close> is one atomic counter; \<open>next\<close> is \<open>fetch_add(1)\<close>, which wraps at \<open>2 ^ 64\<close>.
\<close>

definition id_next :: "nat \<Rightarrow> nat \<times> nat" where
  "id_next n = (n, (n + 1) mod 2 ^ 64)"

text \<open>
  For evaluation: whether a number fits \<open>k\<close> bits, by halving it, without computing the power.
\<close>

primrec fits_bits :: "nat \<Rightarrow> nat \<Rightarrow> bool" where
  "fits_bits 0 n = (n = 0)"
| "fits_bits (Suc k) n = fits_bits k (n div 2)"

primrec id_take :: "nat \<Rightarrow> nat \<Rightarrow> nat list" where
  "id_take 0 n = []"
| "id_take (Suc k) n = fst (id_next n) # id_take k (snd (id_next n))"

locale id_source =
  fixes issue :: "'c \<Rightarrow> nat \<times> 'c"
    and position_of :: "'c \<Rightarrow> nat"
    and period :: nat
  assumes issued: "fst (issue c) = position_of c"
    and advances: "position_of (snd (issue c)) = (position_of c + 1) mod period"
begin

primrec take_ids :: "nat \<Rightarrow> 'c \<Rightarrow> nat list" where
  "take_ids 0 c = []"
| "take_ids (Suc k) c = fst (issue c) # take_ids k (snd (issue c))"

lemma take_ids_nth:
  "position_of c < period \<Longrightarrow> i < k \<Longrightarrow> take_ids k c ! i = (position_of c + i) mod period"
proof (induction k arbitrary: c i)
  case (Suc k)
  have p: "position_of (snd (issue c)) < period"
    using Suc.prems(1) by (simp add: advances)
  show ?case
  proof (cases i)
    case 0
    then show ?thesis using Suc.prems(1) by (simp add: issued)
  next
    case (Suc j)
    then have "take_ids k (snd (issue c)) ! j = (position_of (snd (issue c)) + j) mod period"
      using Suc.IH [OF p] Suc.prems(2) by simp
    then show ?thesis using Suc by (simp add: advances mod_simps)
  qed
qed simp

lemma length_take_ids: "length (take_ids k c) = k"
  by (induction k arbitrary: c) auto

lemma take_ids_distinct:
  assumes "position_of c < period" and "k \<le> period"
  shows "distinct (take_ids k c)"
proof (unfold distinct_conv_nth length_take_ids, intro allI impI notI)
  fix i j
  assume ij: "i < k" "j < k" "i \<noteq> j" "take_ids k c ! i = take_ids k c ! j"
  then have "(position_of c + i) mod period = (position_of c + j) mod period"
    using assms(1) by (simp add: take_ids_nth)
  then have "i mod period = j mod period"
    by (simp add: mod_add_left_eq nat_mod_eq_iff)
  then show False using ij assms(2) by simp
qed

end

interpretation ids: id_source id_next "\<lambda>n. n" "2 ^ 64"
  by unfold_locales (simp_all add: id_next_def)

lemma id_take_eq: "id_take k n = ids.take_ids k n"
  by (induction k arbitrary: n) simp_all

lemma fits_bits_iff: "fits_bits k n \<longleftrightarrow> n < 2 ^ k"
proof (induction k arbitrary: n)
  case (Suc k)
  have "n div 2 < 2 ^ k \<longleftrightarrow> n < 2 ^ k * 2" by (rule div_less_iff_less_mult) simp
  then show ?case using Suc.IH [of "n div 2"] by (simp add: mult.commute)
qed simp

lemma id_next_code [code]:
  "id_next n = (n, if fits_bits 64 (n + 1) then n + 1 else (n + 1) mod 2 ^ 64)"
  unfolding id_next_def fits_bits_iff by simp

lemma id_next_no_wrap: "n < u64_max \<Longrightarrow> id_next n = (n, n + 1)"
  by (simp add: id_next_def u64_max_def)

section \<open>Geometry\<close>

record pty_size =
  cols :: nat
  rows :: nat
  pixel_width :: nat
  pixel_height :: nat

definition pty_size_new :: "nat \<Rightarrow> nat \<Rightarrow> pty_size" where
  "pty_size_new c r = \<lparr>cols = c, rows = r, pixel_width = 0, pixel_height = 0\<rparr>"

record cell_size =
  cell_width :: nat
  cell_height :: nat

definition cell_size_default :: cell_size where
  "cell_size_default = \<lparr>cell_width = 0, cell_height = 0\<rparr>"

text \<open>\<open>checked_div\<close> is \<open>None\<close> for a zero divisor, which \<open>?\<close> returns.\<close>

definition checked_div :: "nat \<Rightarrow> nat \<Rightarrow> nat option" where
  "checked_div a b = (if b = 0 then None else Some (a div b))"

definition of_text_area :: "nat \<Rightarrow> nat \<Rightarrow> nat \<Rightarrow> nat \<Rightarrow> cell_size option" where
  "of_text_area c r pw ph =
     (case checked_div pw c of
        None \<Rightarrow> None
      | Some width \<Rightarrow>
          (case checked_div ph r of
             None \<Rightarrow> None
           | Some height \<Rightarrow>
               if width > 0 \<and> height > 0
               then Some \<lparr>cell_width = width, cell_height = height\<rparr> else None))"

definition cell_size_of :: "pty_size \<Rightarrow> cell_size option" where
  "cell_size_of p = of_text_area (cols p) (rows p) (pixel_width p) (pixel_height p)"

definition with_cell_size :: "pty_size \<Rightarrow> cell_size option \<Rightarrow> pty_size" where
  "with_cell_size p cell =
     (let c = (case cell of None \<Rightarrow> cell_size_default | Some c \<Rightarrow> c)
      in p\<lparr>pixel_width := sat_mul u16_max (cols p) (cell_width c),
           pixel_height := sat_mul u16_max (rows p) (cell_height c)\<rparr>)"

record size =
  width :: nat
  height :: nat

record float_geometry =
  fg_x :: nat
  fg_y :: nat
  fg_width :: nat
  fg_height :: nat

definition float_geometry_new :: "nat \<Rightarrow> nat \<Rightarrow> nat \<Rightarrow> nat \<Rightarrow> float_geometry" where
  "float_geometry_new x y w h = \<lparr>fg_x = x, fg_y = y, fg_width = w, fg_height = h\<rparr>"

datatype split_direction = Horizontal | Vertical

section \<open>Activity and time\<close>

datatype activity_state = Idle | Activity | Bell

text \<open>
  A \<open>Timestamp\<close> is a \<open>SystemTime\<close>: nanoseconds since the Unix epoch, possibly negative. The clock
  is an argument of the operations that read it.
\<close>

type_synonym timestamp = int

section \<open>Errors\<close>

text \<open>
  \<open>MuxError\<close> with the source's constructors. The messages of the errors the server state raises are
  values: one constructor per format string, applied to the arguments the string shows.
\<close>

datatype error_code =
    Unknown | InvalidRequest | ProtocolViolation | Transport_code | NotFound_code | Conflict_code
  | Unsupported_code | Timeout_code | Internal_code

datatype (plugins only: code) not_found_msg =
    UnknownSession session_id
  | UnknownBuffer buffer_id
  | UnknownNode node_id
  | UnknownFloating floating_id
  | TabIndexOutOfSession nat session_id
  | TabIndexOutOfRange nat node_id
  | TabInsertionOutOfRange nat node_id
  | NotChildOfParent node_id node_id
  | NotChildOfSplit node_id node_id
  | NotChildOfTabs node_id node_id
  | NotTabChildOf node_id node_id
  | NotInSplit node_id node_id
  | NotInTabs node_id node_id
  | FloatingNoFocusableLeaf floating_id
  | FloatingNotRegistered floating_id session_id
  | NoLastPane

datatype (plugins only: code) invalid_input_msg =
    SessionNameEmpty
  | NotTabsContainer
  | SplitNeedsTwoChildren
  | SplitReusesChild node_id node_id
  | SplitChildHasParent node_id
  | TabsReusesChild node_id node_id
  | TabsChildHasParent node_id
  | FloatingRootHasParent
  | SessionRootAsFloatingRoot
  | AlreadyFloatingRoot
  | TabsContainsItself
  | NewTabChildHasParent
  | SplitSiblingSame
  | SplitSiblingHasParent
  | NotASplit
  | SplitSizesMismatch node_id nat nat
  | SplitSizeZero
  | ViewsCannotReplaceChild
  | ViewsCannotRemoveChild
  | ViewsCannotOwnChildren
  | ViewsDoNotOwnChildren
  | ViewsHaveNoSiblings
  | NodeNotBufferView node_id
  | NotBufferView
  | NoOwningContainer node_id
  | NoFocusableLeaf node_id
  | ReplacementHasParent
  | SiblingsMustDiffer
  | NodeHasNoParent node_id
  | LeafNotInLayout node_id session_id
  | LeafInHiddenFloating node_id floating_id
  | NodeNotVisible node_id session_id
  | InvalidEnvName rstring
  | EnvValueHasNul rstring

text \<open>The conflicts \<open>validate\<close> reports.\<close>

datatype (plugins only: code) validation_msg =
    RootHasParent session_id node_id
  | RootMustBeTabs session_id node_id
  | FloatingWrongSession floating_id
  | FloatingReusesRoot floating_id
  | FloatingRootParent floating_id node_id
  | FocusedNotView node_id
  | FocusedNotVisible node_id session_id
  | ZoomedMissing node_id session_id
  | ZoomedWrongSession node_id
  | ZoomedNotVisible node_id session_id
  | OrphanedNodes nat nat
  | AttachmentMismatch buffer_id node_id
  | ViewOfDetachedBuffer node_id buffer_id
  | NodeMustBelong node_id session_id
  | ParentMismatch node_id "node_id option" "node_id option"
  | MultipleOwners node_id
  | SplitTooSmall node_id
  | SplitWeightMismatch node_id
  | EmptyTabsActive node_id
  | TabsActiveOutOfRange node_id

datatype (plugins only: code) conflict_msg =
    RootNotTabs session_id node_id
  | BufferMustBeDetached buffer_id
  | BufferAlreadyExited buffer_id
  | BufferAlreadyAttached buffer_id node_id
  | SessionRootAsTabChild
  | FloatingRootAsTabChild
  | SessionRootAsSplitChild
  | FloatingRootAsSplitChild
  | SessionRootInSplit
  | MoveAcrossSessions
  | JoinAcrossSessions buffer_id session_id session_id
  | AlreadyContained buffer_id node_id node_id
  | LeafNotInsideWindow node_id node_id
  | SessionRootReplaced
  | SessionRootAsReplacement
  | FloatingRootAsReplacement
  | SessionRootBroken
  | SiblingsOnly
  | NodeInOtherSession node_id session_id session_id
  | NotRootedAt node_id node_id
  | NoReplaceableOwner node_id
  | SplitEmpty node_id
  | SnapshotMissingRoot session_id node_id
  | Validation validation_msg

datatype entity_kind = SessionEntity | BufferEntity | NodeEntity | FloatingEntity

datatype (plugins only: code) internal_msg =
    DuplicateId entity_kind
  | FloatingUnknownSession floating_id session_id
  | FloatingUnreferenced floating_id session_id
  | IdSpaceExhausted entity_kind
  | GeometryAnchorNotView node_id
  | TimestampOverflow nat
  | MultipleLegacyZoomed session_id "node_id list"
  | UnsupportedVersion nat
  | BreakRollbackFailed node_id mux_error mux_error
  | JoinRollbackFailed node_id buffer_id mux_error node_id mux_error
and mux_error =
    Wire error_code rstring
  | Io rstring
  | Protocol rstring
  | Transport rstring
  | InvalidInput invalid_input_msg
  | NotFound not_found_msg
  | Conflict conflict_msg
  | Unsupported rstring
  | Timeout rstring
  | Pty_error rstring
  | Internal internal_msg

abbreviation Invalid :: "validation_msg \<Rightarrow> mux_error" where
  "Invalid m \<equiv> Conflict (Validation m)"

type_synonym 'a res = "(mux_error, 'a) outcome"

fun is_not_found :: "mux_error \<Rightarrow> bool" where
  "is_not_found (NotFound _) = True"
| "is_not_found (Wire code _) = (code = NotFound_code)"
| "is_not_found _ = False"

fun is_conflict :: "mux_error \<Rightarrow> bool" where
  "is_conflict (Conflict _) = True"
| "is_conflict (Wire code _) = (code = Conflict_code)"
| "is_conflict _ = False"

section \<open>Properties\<close>

text \<open>
  An allocator that starts below the limit of \<open>u64\<close> never issues the same id twice in fewer than
  \<open>2 ^ 64\<close> requests, although its counter wraps around.
\<close>

theorem id_take_distinct:
  assumes "n < 2 ^ 64" and "k \<le> 2 ^ 64"
  shows "distinct (id_take k n) \<and> length (id_take k n) = k"
  unfolding id_take_eq using ids.take_ids_distinct [OF assms] ids.length_take_ids by simp

text \<open>
  Giving a terminal's cells a pixel size and reading the cell size back returns the cell size, as
  long as the text area is not empty and its pixel size fits \<open>u16\<close>.
\<close>

theorem cell_size_roundtrip:
  assumes "cols p > 0" and "rows p > 0" and "cell_width c > 0" and "cell_height c > 0"
    and "cols p * cell_width c \<le> u16_max" and "rows p * cell_height c \<le> u16_max"
  shows "cell_size_of (with_cell_size p (Some c)) = Some c"
  using assms
  by (simp add: cell_size_of_def with_cell_size_def of_text_area_def checked_div_def sat_mul_def)

end
