(* ===== verification/Server_Model.thy ===== *)
theory Server_Model
  imports Embers_Core
begin

text \<open>
  The data of the server (\<open>crates/embers-server/src/model.rs\<close>): sessions, buffers, the three kinds of
  layout node, floating windows, and the accessors on them. Field names carry a prefix for the
  struct they belong to, since the source uses the same names in several structs.
\<close>

section \<open>Sessions\<close>

record session =
  se_id :: session_id
  se_name :: rstring
  se_root_node :: node_id
  se_floating :: "floating_id list"
  se_focused_leaf :: "node_id option"
  se_focused_floating :: "floating_id option"
  se_zoomed_node :: "node_id option"
  se_viewport :: "size option"
  se_pane_titles :: bool
  se_base_index :: "nat option"
  se_focus_history :: "node_id list"
  se_created_at :: timestamp

section \<open>Buffers\<close>

datatype helper_buffer_scope = Full | Visible

record helper_buffer =
  hb_source_buffer_id :: buffer_id
  hb_scope :: helper_buffer_scope
  hb_lines :: "rstring list"

datatype buffer_kind = Pty | Helper helper_buffer

datatype buffer_pipe_stop_reason =
  Requested | PipeExited | WriteFailed | BufferExited | RuntimeInterrupted

datatype buffer_pipe_state =
    PipeRunning "nat option"
  | PipeStopped "int option" buffer_pipe_stop_reason

record buffer_pipe =
  bp_command :: "rstring list"
  bp_state :: buffer_pipe_state

text \<open>Where a buffer's program runs: the socket of its keeper, or a host and the id it has there.\<close>

datatype placement =
    Local "rstring option"
  | Remote rstring "buffer_id option"

datatype buffer_state =
    Created
  | Running "nat option"
  | Interrupted "nat option"
  | Exited "int option" timestamp

datatype buffer_attachment = Attached node_id | Detached

record buffer =
  bu_id :: buffer_id
  bu_title :: rstring
  bu_command :: "rstring list"
  bu_cwd :: "rstring option"
  bu_env :: string_map
  bu_user_options :: string_map
  bu_foreground_command :: "rstring list option"
  bu_placement :: placement
  bu_state :: buffer_state
  bu_attachment :: buffer_attachment
  bu_pty_size :: pty_size
  bu_activity :: activity_state
  bu_last_snapshot_seq :: nat
  bu_kind :: buffer_kind
  bu_pipe :: "buffer_pipe option"
  bu_created_at :: timestamp
  bu_ever_attached :: bool
  bu_runtime_bell_sequence :: nat
  bu_watched :: bool

datatype remain_on_exit = Off | On | Failed

definition remain_on_exit_parse :: "rstring \<Rightarrow> remain_on_exit" where
  "remain_on_exit_parse value =
     (let v = to_ascii_lowercase (trim value)
      in if v = str_lit ''on'' then On else if v = str_lit ''failed'' then Failed else Off)"

definition remain_on_exit_option :: rstring where
  "remain_on_exit_option = str_lit ''remain-on-exit''"

definition placement_default :: placement where
  "placement_default = Local None"

definition buffer_new ::
  "buffer_id \<Rightarrow> rstring \<Rightarrow> rstring list \<Rightarrow> rstring option \<Rightarrow> string_map \<Rightarrow> timestamp \<Rightarrow> buffer"
  where
  "buffer_new bid title command cwd env now =
     \<lparr>bu_id = bid, bu_title = title, bu_command = command, bu_cwd = cwd, bu_env = env,
      bu_user_options = bt_empty, bu_foreground_command = None, bu_placement = placement_default,
      bu_state = Created, bu_attachment = Detached, bu_pty_size = pty_size_new 80 24,
      bu_activity = Idle, bu_last_snapshot_seq = 0, bu_kind = Pty, bu_pipe = None,
      bu_created_at = now, bu_ever_attached = False, bu_runtime_bell_sequence = 0,
      bu_watched = False\<rparr>"

definition remains_on_exit :: "buffer \<Rightarrow> remain_on_exit \<Rightarrow> bool" where
  "remains_on_exit b dflt =
     (case (case bt_get (bu_user_options b) remain_on_exit_option of
              None \<Rightarrow> dflt
            | Some value \<Rightarrow> remain_on_exit_parse value) of
        On \<Rightarrow> True
      | Failed \<Rightarrow> (case bu_state b of Exited code _ \<Rightarrow> code \<noteq> Some 0 | _ \<Rightarrow> True)
      | Off \<Rightarrow> False)"

definition set_placement :: "placement \<Rightarrow> buffer \<Rightarrow> buffer" where
  "set_placement p b = b\<lparr>bu_placement := p\<rparr>"

fun placement_host :: "placement \<Rightarrow> rstring option" where
  "placement_host (Local _) = None"
| "placement_host (Remote host _) = Some host"

fun placement_socket_path :: "placement \<Rightarrow> rstring option" where
  "placement_socket_path (Local socket_path) = socket_path"
| "placement_socket_path (Remote _ _) = None"

fun same_place :: "placement \<Rightarrow> placement \<Rightarrow> bool" where
  "same_place (Local _) (Local _) = True"
| "same_place p q = (p = q)"

text \<open>\<open>PartialEq for Buffer\<close>: the fields that are not saved do not count.\<close>

definition buffer_eq :: "buffer \<Rightarrow> buffer \<Rightarrow> bool" where
  "buffer_eq a b \<longleftrightarrow>
     bu_id a = bu_id b \<and> bu_title a = bu_title b \<and> bu_command a = bu_command b \<and>
     bu_cwd a = bu_cwd b \<and> bu_env a = bu_env b \<and> bu_user_options a = bu_user_options b \<and>
     same_place (bu_placement a) (bu_placement b) \<and> bu_state a = bu_state b \<and>
     bu_attachment a = bu_attachment b \<and> bu_pty_size a = bu_pty_size b \<and>
     bu_activity a = bu_activity b \<and> bu_last_snapshot_seq a = bu_last_snapshot_seq b \<and>
     bu_kind a = bu_kind b \<and> bu_pipe a = bu_pipe b \<and> bu_created_at a = bu_created_at b"

section \<open>Layout nodes\<close>

record buffer_view_state =
  vs_focused :: bool
  vs_zoomed :: bool
  vs_follow_output :: bool
  vs_last_render_size :: pty_size

definition buffer_view_state_default :: buffer_view_state where
  "buffer_view_state_default =
     \<lparr>vs_focused = False, vs_zoomed = False, vs_follow_output = True,
      vs_last_render_size = pty_size_new 80 24\<rparr>"

record buffer_view_node =
  bv_id :: node_id
  bv_session_id :: session_id
  bv_parent :: "node_id option"
  bv_buffer_id :: buffer_id
  bv_view :: buffer_view_state

record split_node =
  sp_id :: node_id
  sp_session_id :: session_id
  sp_parent :: "node_id option"
  sp_direction :: split_direction
  sp_children :: "node_id list"
  sp_sizes :: "nat list"
  sp_last_focused_descendant :: "node_id option"

record tab_entry =
  te_title :: rstring
  te_child :: node_id
  te_synchronize_panes :: bool

definition tab_entry_new :: "rstring \<Rightarrow> node_id \<Rightarrow> tab_entry" where
  "tab_entry_new title child = \<lparr>te_title = title, te_child = child, te_synchronize_panes = False\<rparr>"

record tabs_node =
  tb_id :: node_id
  tb_session_id :: session_id
  tb_parent :: "node_id option"
  tb_tabs :: "tab_entry list"
  tb_active :: nat
  tb_last_focused_descendant :: "node_id option"

datatype node = BufferView buffer_view_node | Split split_node | Tabs tabs_node

fun node_id_of :: "node \<Rightarrow> node_id" where
  "node_id_of (BufferView v) = bv_id v"
| "node_id_of (Split sp) = sp_id sp"
| "node_id_of (Tabs tb) = tb_id tb"

fun node_session :: "node \<Rightarrow> session_id" where
  "node_session (BufferView v) = bv_session_id v"
| "node_session (Split sp) = sp_session_id sp"
| "node_session (Tabs tb) = tb_session_id tb"

fun node_par :: "node \<Rightarrow> node_id option" where
  "node_par (BufferView v) = bv_parent v"
| "node_par (Split sp) = sp_parent sp"
| "node_par (Tabs tb) = tb_parent tb"

fun node_set_parent :: "node_id option \<Rightarrow> node \<Rightarrow> node" where
  "node_set_parent p (BufferView v) = BufferView (v\<lparr>bv_parent := p\<rparr>)"
| "node_set_parent p (Split sp) = Split (sp\<lparr>sp_parent := p\<rparr>)"
| "node_set_parent p (Tabs tb) = Tabs (tb\<lparr>tb_parent := p\<rparr>)"

fun child_ids :: "node \<Rightarrow> node_id list" where
  "child_ids (BufferView v) = []"
| "child_ids (Split sp) = sp_children sp"
| "child_ids (Tabs tb) = map te_child (tb_tabs tb)"

fun last_focused_descendant :: "node \<Rightarrow> node_id option" where
  "last_focused_descendant (BufferView v) = (if vs_focused (bv_view v) then Some (bv_id v) else None)"
| "last_focused_descendant (Split sp) = sp_last_focused_descendant sp"
| "last_focused_descendant (Tabs tb) = tb_last_focused_descendant tb"

fun set_last_focused_descendant :: "node_id option \<Rightarrow> node \<Rightarrow> node" where
  "set_last_focused_descendant l (BufferView v) = BufferView v"
| "set_last_focused_descendant l (Split sp) = Split (sp\<lparr>sp_last_focused_descendant := l\<rparr>)"
| "set_last_focused_descendant l (Tabs tb) = Tabs (tb\<lparr>tb_last_focused_descendant := l\<rparr>)"

fun is_tabs :: "node \<Rightarrow> bool" where
  "is_tabs (Tabs _) = True"
| "is_tabs _ = False"

fun is_buffer_view :: "node \<Rightarrow> bool" where
  "is_buffer_view (BufferView _) = True"
| "is_buffer_view _ = False"

section \<open>Floating windows\<close>

record floating_window =
  fw_id :: floating_id
  fw_session_id :: session_id
  fw_root_node :: node_id
  fw_title :: "rstring option"
  fw_geometry :: float_geometry
  fw_focused :: bool
  fw_visible :: bool
  fw_close_on_empty :: bool
  fw_border :: bool
  fw_last_focused_leaf :: "node_id option"

section \<open>Lemmas\<close>

lemma node_set_parent_simps [simp]:
  "node_id_of (node_set_parent p nd) = node_id_of nd"
  "node_session (node_set_parent p nd) = node_session nd"
  "node_par (node_set_parent p nd) = p"
  "child_ids (node_set_parent p nd) = child_ids nd"
  "is_tabs (node_set_parent p nd) = is_tabs nd"
  "is_buffer_view (node_set_parent p nd) = is_buffer_view nd"
  by (cases nd; simp)+

lemma set_lfd_simps [simp]:
  "node_id_of (set_last_focused_descendant l nd) = node_id_of nd"
  "node_session (set_last_focused_descendant l nd) = node_session nd"
  "node_par (set_last_focused_descendant l nd) = node_par nd"
  "child_ids (set_last_focused_descendant l nd) = child_ids nd"
  "is_tabs (set_last_focused_descendant l nd) = is_tabs nd"
  "is_buffer_view (set_last_focused_descendant l nd) = is_buffer_view nd"
  by (cases nd; simp)+

lemma is_buffer_view_iff: "is_buffer_view nd \<longleftrightarrow> (\<exists>v. nd = BufferView v)"
  by (cases nd) simp_all

lemma is_tabs_iff: "is_tabs nd \<longleftrightarrow> (\<exists>tb. nd = Tabs tb)"
  by (cases nd) simp_all

end
