(* ===== verification/Environment.thy ===== *)
theory Environment
  imports Server_Model
begin

text \<open>
  Session and global environments (\<open>crates/embers-server/src/environment.rs\<close>): tmux's
  \<open>set-environment\<close>. A new buffer gets the global variables overlaid with its session's.
\<close>

record environment_store =
  env_global :: string_map
  env_sessions :: "(session_id, string_map) btree_map"

definition environment_default :: environment_store where
  "environment_default = \<lparr>env_global = bt_empty, env_sessions = bt_empty\<rparr>"

definition env_get :: "environment_store \<Rightarrow> session_id option \<Rightarrow> string_map" where
  "env_get st sid =
     (case sid of
        None \<Rightarrow> env_global st
      | Some i \<Rightarrow> (case bt_get (env_sessions st) i of None \<Rightarrow> bt_empty | Some m \<Rightarrow> m))"

text \<open>\<open>'='\<close> is scalar value 61, NUL is 0.\<close>

definition validate_name :: "rstring \<Rightarrow> unit res" where
  "validate_name name =
     (if name = [] \<or> 61 \<in> set name \<or> 0 \<in> set name
      then Err (InvalidInput (InvalidEnvName name)) else Ok ())"

definition set_var :: "rstring \<Rightarrow> rstring option \<Rightarrow> string_map \<Rightarrow> string_map" where
  "set_var name value env =
     (case value of Some v \<Rightarrow> bt_insert name v env | None \<Rightarrow> bt_remove name env)"

text \<open>
  \<open>EnvironmentStore::set\<close>: the entry of the session is created on demand and dropped again when it
  ends up empty.
\<close>

definition env_set ::
  "session_id option \<Rightarrow> rstring \<Rightarrow> rstring option \<Rightarrow> (environment_store, mux_error, unit) proc" where
  "env_set sid name value =
     pbind (reads (\<lambda>_. validate_name name)) (\<lambda>_.
     if (case value of None \<Rightarrow> False | Some v \<Rightarrow> 0 \<in> set v)
     then raise (InvalidInput (EnvValueHasNul name))
     else
       (case sid of
          None \<Rightarrow> modify (\<lambda>st. st\<lparr>env_global := set_var name value (env_global st)\<rparr>)
        | Some i \<Rightarrow>
            pbind (modify (\<lambda>st. st\<lparr>env_sessions :=
                     bt_insert i (set_var name value (env_get st (Some i))) (env_sessions st)\<rparr>)) (\<lambda>_.
            modify (\<lambda>st. if bt_entries (env_get st (Some i)) = []
                         then st\<lparr>env_sessions := bt_remove i (env_sessions st)\<rparr> else st))))"

definition for_new_buffer :: "environment_store \<Rightarrow> session_id option \<Rightarrow> string_map" where
  "for_new_buffer st sid =
     (case (case sid of None \<Rightarrow> None | Some i \<Rightarrow> bt_get (env_sessions st) i) of
        None \<Rightarrow> env_global st
      | Some m \<Rightarrow> bt_extend (env_global st) m)"

definition retain_sessions :: "(session_id \<Rightarrow> bool) \<Rightarrow> environment_store \<Rightarrow> environment_store" where
  "retain_sessions is_live st = st\<lparr>env_sessions := bt_filter_keys is_live (env_sessions st)\<rparr>"

section \<open>Lemmas\<close>

definition env_ok :: "environment_store \<Rightarrow> bool" where
  "env_ok st \<longleftrightarrow> (\<forall>i. bt_get (env_sessions st) i \<noteq> Some bt_empty)"

lemma bt_entries_Nil_iff: "bt_entries m = [] \<longleftrightarrow> m = bt_empty"
  by (metis bt_entries_empty bt_entries_inject)

lemma get_for_new_buffer:
  "bt_get (for_new_buffer st sid) k =
     (case sid of
        None \<Rightarrow> bt_get (env_global st) k
      | Some i \<Rightarrow> (case bt_get (env_get st (Some i)) k of
                   None \<Rightarrow> bt_get (env_global st) k
                 | Some v \<Rightarrow> Some v))"
  by (auto simp: for_new_buffer_def env_get_def bt_get_extend split: option.splits)

lemma get_set_var: "bt_get (set_var name value m) k = (if k = name then value else bt_get m k)"
  by (simp add: set_var_def split: option.split)

lemma env_set_Ok:
  assumes "validate_name name = Ok ()" and "\<And>v. value = Some v \<Longrightarrow> 0 \<notin> set v"
  shows "\<exists>st'. env_set sid name value st = (Ok (), st') \<and>
           (\<forall>i. env_get st' i = (if i = sid then set_var name value (env_get st i) else env_get st i)) \<and>
           (env_ok st \<longrightarrow> env_ok st')"
proof (cases sid)
  case None
  then show ?thesis
    using assms
    by (auto simp: env_set_def pbind_def reads_def modify_def raise_def env_get_def env_ok_def
        split: option.splits)
next
  case (Some i)
  then show ?thesis
    using assms
    by (auto simp: env_set_def pbind_def reads_def modify_def raise_def env_get_def env_ok_def
        bt_entries_Nil_iff split: option.splits)
qed

section \<open>Properties\<close>

text \<open>
  C21. Setting or unsetting a variable, globally or for a session, changes exactly that variable of exactly
  that environment: every environment is given, and every variable of a buffer created afterwards, for a
  session or for none, is the session's own value if there is one and the global value otherwise. The store
  keeps no empty entry for a session, also when its last variable is unset.
\<close>

theorem env_set_new_buffer:
  assumes "validate_name name = Ok ()" and "\<And>v. new = Some v \<Longrightarrow> 0 \<notin> set v" and "env_ok st"
  shows "\<exists>st'. env_set sid name new st = (Ok (), st') \<and> env_ok st' \<and>
           (\<forall>j k. bt_get (env_get st' j) k = (if j = sid \<and> k = name then new else bt_get (env_get st j) k)) \<and>
           (\<forall>j k. bt_get (for_new_buffer st' j) k =
              (case if j = sid \<and> k = name then new else bt_get (env_get st j) k of
                 Some v \<Rightarrow> Some v
               | None \<Rightarrow> if sid = None \<and> k = name then new else bt_get (env_global st) k))"
proof -
  obtain st' where st': "env_set sid name new st = (Ok (), st')"
    and get: "\<And>j. env_get st' j = (if j = sid then set_var name new (env_get st j) else env_get st j)"
    and ok: "env_ok st \<longrightarrow> env_ok st'"
    using env_set_Ok [of name new sid st] assms(1,2) by auto
  have own: "bt_get (env_get st' j) k = (if j = sid \<and> k = name then new else bt_get (env_get st j) k)" for j k
    by (simp add: get get_set_var)
  have glob: "bt_get (env_global st') k = (if sid = None \<and> k = name then new else bt_get (env_global st) k)" for k
    using own [of None k] by (auto simp: env_get_def)
  have "bt_get (for_new_buffer st' j) k =
      (case bt_get (env_get st' j) k of Some v \<Rightarrow> Some v | None \<Rightarrow> bt_get (env_global st') k)" for j k
    by (cases j) (simp_all add: get_for_new_buffer env_get_def split: option.split)
  then have "bt_get (for_new_buffer st' j) k =
      (case if j = sid \<and> k = name then new else bt_get (env_get st j) k of
         Some v \<Rightarrow> Some v
       | None \<Rightarrow> if sid = None \<and> k = name then new else bt_get (env_global st) k)" for j k
    unfolding own glob .
  then show ?thesis using st' ok assms(3) own by blast
qed

theorem env_set_new_buffer_witness:
  "\<exists>st'. env_set (Some 1) (str_lit ''A'') None
       (environment_default\<lparr>env_sessions := bt_insert 1 (bt_insert (str_lit ''A'') (str_lit ''x'') bt_empty) bt_empty\<rparr>) = (Ok (), st') \<and>
     bt_get (for_new_buffer st' (Some 1)) (str_lit ''A'') = None \<and> bt_get (env_sessions st') 1 = None"
proof -
  let ?m = "bt_insert (str_lit ''A'') (str_lit ''x'') bt_empty :: string_map"
  let ?st = "environment_default\<lparr>env_sessions := bt_insert 1 ?m bt_empty\<rparr>"
  have "bt_get ?m (str_lit ''A'') \<noteq> bt_get bt_empty (str_lit ''A'')" by simp
  then have "?m \<noteq> bt_empty" by metis
  then have ok: "env_ok ?st" by (simp add: env_ok_def environment_default_def)
  have n: "validate_name (str_lit ''A'') = Ok ()" by (simp add: validate_name_def str_lit_def)
  obtain st' where st': "env_set (Some 1) (str_lit ''A'') None ?st = (Ok (), st')" "env_ok st'"
    "\<And>k. bt_get (env_get st' (Some 1)) k = (if k = str_lit ''A'' then None else bt_get (env_get ?st (Some 1)) k)"
    "\<And>k. bt_get (for_new_buffer st' (Some 1)) k =
      (case if k = str_lit ''A'' then None else bt_get (env_get ?st (Some 1)) k of
         Some v \<Rightarrow> Some v | None \<Rightarrow> bt_get (env_global ?st) k)"
    using env_set_new_buffer [OF n _ ok, of None "Some 1"] by auto
  have "bt_get (env_get st' (Some 1)) k = bt_get bt_empty k" for k unfolding st'(3) by (simp add: env_get_def)
  then have "env_get st' (Some 1) = bt_empty" by (rule bt.map_ext)
  then have "bt_get (env_sessions st') 1 = None"
    using st'(2) by (cases "bt_get (env_sessions st') 1") (auto simp: env_ok_def env_get_def)
  moreover have "bt_get (for_new_buffer st' (Some 1)) (str_lit ''A'') = None"
    unfolding st'(4) by (simp add: environment_default_def)
  ultimately show ?thesis using st'(1) by blast
qed

end
