(* ===== verification/Server_State.thy ===== *)
theory Server_State
  imports Environment
begin

text \<open>
  The server state (\<open>ServerState\<close> of \<open>crates/embers-server/src/state.rs\<close>) and the methods that only
  read it: lookups, walks up the parent links, recursive walks down the layout, and visibility.

  Nodes refer to each other by id, so a walk follows links of a map and need not end on a corrupt
  state. Every walk takes fuel, one more than the number of nodes; running out is \<open>Diverge\<close>.
\<close>

section \<open>The state\<close>

record server_state =
  sessions :: "(session_id, session) btree_map"
  buffers :: "(buffer_id, buffer) btree_map"
  nodes :: "(node_id, node) btree_map"
  floating :: "(floating_id, floating_window) btree_map"
  environment :: environment_store
  last_viewport :: "size option"
  last_pane_titles :: bool
  last_base_index :: "nat option"
  default_remain_on_exit :: remain_on_exit
  session_ids :: nat
  buffer_ids :: nat
  node_ids :: nat
  floating_ids :: nat

type_synonym 'a op = "(server_state, mux_error, 'a) proc"

definition state_new :: server_state where
  "state_new =
     \<lparr>sessions = bt_empty, buffers = bt_empty, nodes = bt_empty, floating = bt_empty,
      environment = environment_default, last_viewport = None, last_pane_titles = False,
      last_base_index = None, default_remain_on_exit = Off,
      session_ids = 1, buffer_ids = 1, node_ids = 1, floating_ids = 1\<rparr>"

definition fuel :: "server_state \<Rightarrow> nat" where
  "fuel s = Suc (bt_len (nodes s))"

section \<open>Lookups\<close>

definition state_session :: "server_state \<Rightarrow> session_id \<Rightarrow> session res" where
  "state_session s sid = ok_or (NotFound (UnknownSession sid)) (bt_get (sessions s) sid)"

definition state_buffer :: "server_state \<Rightarrow> buffer_id \<Rightarrow> buffer res" where
  "state_buffer s bid = ok_or (NotFound (UnknownBuffer bid)) (bt_get (buffers s) bid)"

definition state_node :: "server_state \<Rightarrow> node_id \<Rightarrow> node res" where
  "state_node s nid = ok_or (NotFound (UnknownNode nid)) (bt_get (nodes s) nid)"

definition state_floating :: "server_state \<Rightarrow> floating_id \<Rightarrow> floating_window res" where
  "state_floating s fid = ok_or (NotFound (UnknownFloating fid)) (bt_get (floating s) fid)"

definition root_node :: "server_state \<Rightarrow> session_id \<Rightarrow> node_id res" where
  "root_node s sid = rbind (state_session s sid) (\<lambda>se. Ok (se_root_node se))"

definition root_tabs :: "server_state \<Rightarrow> session_id \<Rightarrow> node_id res" where
  "root_tabs s sid =
     rbind (root_node s sid) (\<lambda>root.
     rbind (state_node s root) (\<lambda>nd.
     if is_tabs nd then Ok root else Err (Conflict (RootNotTabs sid root))))"

definition node_parent :: "server_state \<Rightarrow> node_id \<Rightarrow> node_id option res" where
  "node_parent s nid = rbind (state_node s nid) (\<lambda>nd. Ok (node_par nd))"

definition node_session_id :: "server_state \<Rightarrow> node_id \<Rightarrow> session_id res" where
  "node_session_id s nid = rbind (state_node s nid) (\<lambda>nd. Ok (node_session nd))"

definition find_last_focused_descendant :: "server_state \<Rightarrow> node_id \<Rightarrow> node_id option res" where
  "find_last_focused_descendant s nid =
     rbind (state_node s nid) (\<lambda>nd. Ok (last_focused_descendant nd))"

definition buffer_view_buffer_id :: "server_state \<Rightarrow> node_id \<Rightarrow> buffer_id res" where
  "buffer_view_buffer_id s nid =
     rbind (state_node s nid) (\<lambda>nd.
     case nd of BufferView v \<Rightarrow> Ok (bv_buffer_id v)
     | _ \<Rightarrow> Err (InvalidInput (NodeNotBufferView nid)))"

definition ensure_session_exists :: "server_state \<Rightarrow> session_id \<Rightarrow> unit res" where
  "ensure_session_exists s sid = rbind (state_session s sid) (\<lambda>_. Ok ())"

definition ensure_node_belongs_to :: "server_state \<Rightarrow> node_id \<Rightarrow> session_id \<Rightarrow> unit res" where
  "ensure_node_belongs_to s nid sid =
     rbind (state_node s nid) (\<lambda>nd.
     if node_session nd \<noteq> sid then Err (Conflict (NodeInOtherSession nid (node_session nd) sid))
     else Ok ())"

definition ensure_leaf :: "server_state \<Rightarrow> node_id \<Rightarrow> unit res" where
  "ensure_leaf s nid =
     rbind (state_node s nid) (\<lambda>nd.
     if is_buffer_view nd then Ok () else Err (InvalidInput (NodeNotBufferView nid)))"

definition ensure_leaf_belongs_to :: "server_state \<Rightarrow> node_id \<Rightarrow> session_id \<Rightarrow> unit res" where
  "ensure_leaf_belongs_to s nid sid =
     rbind (ensure_node_belongs_to s nid sid) (\<lambda>_. ensure_leaf s nid)"

definition is_session_root :: "server_state \<Rightarrow> node_id \<Rightarrow> bool" where
  "is_session_root s nid = list_ex (\<lambda>se. se_root_node se = nid) (bt_values (sessions s))"

definition floating_id_by_root :: "server_state \<Rightarrow> node_id \<Rightarrow> floating_id option" where
  "floating_id_by_root s root =
     map_option fw_id (find (\<lambda>f. fw_root_node f = root) (bt_values (floating s)))"

definition shared_parent :: "server_state \<Rightarrow> node_id \<Rightarrow> node_id \<Rightarrow> node_id res" where
  "shared_parent s a b =
     (if a = b then Err (InvalidInput SiblingsMustDiffer)
      else
        rbind (node_parent s a) (\<lambda>pa.
        rbind (ok_or (InvalidInput (NodeHasNoParent a)) pa) (\<lambda>first_parent.
        rbind (node_parent s b) (\<lambda>pb.
        rbind (ok_or (InvalidInput (NodeHasNoParent b)) pb) (\<lambda>second_parent.
        if first_parent \<noteq> second_parent then Err (Conflict SiblingsOnly) else Ok first_parent)))))"

text \<open>
  \<open>tabs.get(active).or_else(first)\<close> and \<open>tabs.get(active)\<close>: the child a tabs node shows.
\<close>

definition active_or_first_child :: "tabs_node \<Rightarrow> node_id option" where
  "active_or_first_child tb =
     map_option te_child
       (case vec_get (tb_tabs tb) (tb_active tb) of
          Some t \<Rightarrow> Some t
        | None \<Rightarrow> vec_get (tb_tabs tb) 0)"

definition active_child :: "tabs_node \<Rightarrow> node_id option" where
  "active_child tb = map_option te_child (vec_get (tb_tabs tb) (tb_active tb))"

section \<open>Mutable access\<close>

text \<open>
  \<open>session_mut\<close>, \<open>buffer_mut\<close>, \<open>node_mut\<close> and \<open>floating_mut\<close>, each with the write made through the
  reference it returns.
\<close>

definition session_mut :: "session_id \<Rightarrow> (session \<Rightarrow> session) \<Rightarrow> unit op" where
  "session_mut sid f =
     pbind (reads (\<lambda>s. state_session s sid)) (\<lambda>se.
     modify (\<lambda>s. s\<lparr>sessions := bt_insert sid (f se) (sessions s)\<rparr>))"

definition buffer_mut :: "buffer_id \<Rightarrow> (buffer \<Rightarrow> buffer) \<Rightarrow> unit op" where
  "buffer_mut bid f =
     pbind (reads (\<lambda>s. state_buffer s bid)) (\<lambda>b.
     modify (\<lambda>s. s\<lparr>buffers := bt_insert bid (f b) (buffers s)\<rparr>))"

definition node_mut :: "node_id \<Rightarrow> (node \<Rightarrow> node) \<Rightarrow> unit op" where
  "node_mut nid f =
     pbind (reads (\<lambda>s. state_node s nid)) (\<lambda>nd.
     modify (\<lambda>s. s\<lparr>nodes := bt_insert nid (f nd) (nodes s)\<rparr>))"

definition floating_mut :: "floating_id \<Rightarrow> (floating_window \<Rightarrow> floating_window) \<Rightarrow> unit op" where
  "floating_mut fid f =
     pbind (reads (\<lambda>s. state_floating s fid)) (\<lambda>w.
     modify (\<lambda>s. s\<lparr>floating := bt_insert fid (f w) (floating s)\<rparr>))"

text \<open>\<open>nodes.insert\<close> and \<open>nodes.remove\<close>, and the id a counter issues.\<close>

definition put_node :: "node_id \<Rightarrow> node \<Rightarrow> unit op" where
  "put_node nid nd = modify (\<lambda>s. s\<lparr>nodes := bt_insert nid nd (nodes s)\<rparr>)"

definition drop_node :: "node_id \<Rightarrow> unit op" where
  "drop_node nid = modify (\<lambda>s. s\<lparr>nodes := bt_remove nid (nodes s)\<rparr>)"

definition next_session_id :: "session_id op" where
  "next_session_id = (\<lambda>s. (Ok (fst (id_next (session_ids s))), s\<lparr>session_ids := snd (id_next (session_ids s))\<rparr>))"

definition next_buffer_id :: "buffer_id op" where
  "next_buffer_id = (\<lambda>s. (Ok (fst (id_next (buffer_ids s))), s\<lparr>buffer_ids := snd (id_next (buffer_ids s))\<rparr>))"

definition next_node_id :: "node_id op" where
  "next_node_id = (\<lambda>s. (Ok (fst (id_next (node_ids s))), s\<lparr>node_ids := snd (id_next (node_ids s))\<rparr>))"

definition next_floating_id :: "floating_id op" where
  "next_floating_id = (\<lambda>s. (Ok (fst (id_next (floating_ids s))), s\<lparr>floating_ids := snd (id_next (floating_ids s))\<rparr>))"

text \<open>A loop of a mutating method gets its fuel from the state it starts in.\<close>

definition with_fuel :: "(nat \<Rightarrow> 'a op) \<Rightarrow> 'a op" where
  "with_fuel m = (\<lambda>s. m (fuel s) s)"

section \<open>Walks up\<close>

primrec top_root_from :: "nat \<Rightarrow> server_state \<Rightarrow> node_id \<Rightarrow> node_id res" where
  "top_root_from 0 s n = Diverge"
| "top_root_from (Suc k) s n =
     rbind (node_parent s n) (\<lambda>p.
     case p of None \<Rightarrow> Ok n | Some q \<Rightarrow> top_root_from k s q)"

definition top_root_for_node :: "server_state \<Rightarrow> node_id \<Rightarrow> node_id res" where
  "top_root_for_node s n = top_root_from (fuel s) s n"

definition floating_id_for_node :: "server_state \<Rightarrow> node_id \<Rightarrow> floating_id option res" where
  "floating_id_for_node s n = rbind (top_root_for_node s n) (\<lambda>root. Ok (floating_id_by_root s root))"

primrec descendant_from :: "nat \<Rightarrow> server_state \<Rightarrow> node_id \<Rightarrow> node_id option \<Rightarrow> bool res" where
  "descendant_from 0 s ancestor cur = Diverge"
| "descendant_from (Suc k) s ancestor cur =
     (case cur of
        None \<Rightarrow> Ok False
      | Some candidate \<Rightarrow>
          if candidate = ancestor then Ok True
          else rbind (node_parent s candidate) (descendant_from k s ancestor))"

definition node_is_descendant_of :: "server_state \<Rightarrow> node_id \<Rightarrow> node_id \<Rightarrow> bool res" where
  "node_is_descendant_of s n ancestor = descendant_from (Suc (fuel s)) s ancestor (Some n)"

primrec window_from :: "nat \<Rightarrow> server_state \<Rightarrow> node_id \<Rightarrow> node_id \<Rightarrow> node_id option res" where
  "window_from 0 s root cur = Diverge"
| "window_from (Suc k) s root cur =
     rbind (node_parent s cur) (\<lambda>p.
     case p of
       Some parent \<Rightarrow> if parent = root then Ok (Some cur) else window_from k s root parent
     | None \<Rightarrow> Ok None)"

definition window_of_leaf :: "server_state \<Rightarrow> session_id \<Rightarrow> node_id \<Rightarrow> node_id option res" where
  "window_of_leaf s sid leaf =
     rbind (state_session s sid) (\<lambda>se. window_from (fuel s) s (se_root_node se) leaf)"

primrec tabs_ancestor_from :: "nat \<Rightarrow> server_state \<Rightarrow> node_id option \<Rightarrow> node_id option res" where
  "tabs_ancestor_from 0 s cur = Diverge"
| "tabs_ancestor_from (Suc k) s cur =
     (case cur of
        None \<Rightarrow> Ok None
      | Some c \<Rightarrow>
          rbind (state_node s c) (\<lambda>nd.
          if is_tabs nd then Ok (Some c)
          else rbind (node_parent s c) (tabs_ancestor_from k s)))"

definition nearest_tabs_ancestor :: "server_state \<Rightarrow> node_id option \<Rightarrow> node_id option res" where
  "nearest_tabs_ancestor s cur = tabs_ancestor_from (Suc (fuel s)) s cur"

section \<open>Walks down\<close>

primrec subtree_contains_from :: "nat \<Rightarrow> server_state \<Rightarrow> node_id \<Rightarrow> node_id \<Rightarrow> bool res" where
  "subtree_contains_from 0 s needle root = Diverge"
| "subtree_contains_from (Suc k) s needle root =
     (if root = needle then Ok True
      else rbind (state_node s root) (\<lambda>nd.
           any_ok (subtree_contains_from k s needle) (child_ids nd)))"

definition subtree_contains :: "server_state \<Rightarrow> node_id \<Rightarrow> node_id \<Rightarrow> bool res" where
  "subtree_contains s root needle = subtree_contains_from (fuel s) s needle root"

primrec first_leaf_from :: "nat \<Rightarrow> server_state \<Rightarrow> node_id \<Rightarrow> node_id option res" where
  "first_leaf_from 0 s n = Diverge"
| "first_leaf_from (Suc k) s n =
     rbind (state_node s n) (\<lambda>nd.
     case nd of
       BufferView v \<Rightarrow> Ok (Some n)
     | Split sp \<Rightarrow> first_some (first_leaf_from k s) (sp_children sp)
     | Tabs tb \<Rightarrow> first_some (first_leaf_from k s) (map te_child (tb_tabs tb)))"

definition resolve_first_leaf :: "server_state \<Rightarrow> node_id \<Rightarrow> node_id option res" where
  "resolve_first_leaf s n = first_leaf_from (fuel s) s n"

primrec visible_leaf_from :: "nat \<Rightarrow> server_state \<Rightarrow> node_id \<Rightarrow> node_id option res" where
  "visible_leaf_from 0 s n = Diverge"
| "visible_leaf_from (Suc k) s n =
     rbind (state_node s n) (\<lambda>nd.
     case nd of
       BufferView v \<Rightarrow> Ok (Some n)
     | Split sp \<Rightarrow> first_some (visible_leaf_from k s) (sp_children sp)
     | Tabs tb \<Rightarrow>
         (case active_or_first_child tb of
            Some child \<Rightarrow> visible_leaf_from k s child
          | None \<Rightarrow> Ok None))"

definition resolve_visible_leaf :: "server_state \<Rightarrow> node_id \<Rightarrow> node_id option res" where
  "resolve_visible_leaf s n = visible_leaf_from (fuel s) s n"

text \<open>The vector the source fills is threaded through as \<open>leaves\<close>.\<close>

primrec collect_visible_from ::
  "nat \<Rightarrow> server_state \<Rightarrow> node_id \<Rightarrow> node_id list \<Rightarrow> node_id list res" where
  "collect_visible_from 0 s n leaves = Diverge"
| "collect_visible_from (Suc k) s n leaves =
     rbind (state_node s n) (\<lambda>nd.
     case nd of
       BufferView v \<Rightarrow> Ok (leaves @ [n])
     | Split sp \<Rightarrow> fold_ok (collect_visible_from k s) (sp_children sp) leaves
     | Tabs tb \<Rightarrow>
         (case active_or_first_child tb of
            Some child \<Rightarrow> collect_visible_from k s child leaves
          | None \<Rightarrow> Ok leaves))"

definition collect_visible_leaf_ids :: "server_state \<Rightarrow> node_id \<Rightarrow> node_id list \<Rightarrow> node_id list res" where
  "collect_visible_leaf_ids s n leaves = collect_visible_from (fuel s) s n leaves"

definition visible_leaf_ids :: "server_state \<Rightarrow> node_id \<Rightarrow> node_id list res" where
  "visible_leaf_ids s n = collect_visible_leaf_ids s n []"

definition visible_session_leaves :: "server_state \<Rightarrow> session_id \<Rightarrow> node_id list res" where
  "visible_session_leaves s sid = rbind (root_node s sid) (visible_leaf_ids s)"

text \<open>A \<open>BTreeSet\<close> of ids is an ordered map to \<open>unit\<close>.\<close>

type_synonym node_set = "(node_id, unit) btree_map"

primrec collect_subtree_from :: "nat \<Rightarrow> server_state \<Rightarrow> node_id \<Rightarrow> node_set \<Rightarrow> node_set res" where
  "collect_subtree_from 0 s root seen = Diverge"
| "collect_subtree_from (Suc k) s root seen =
     (if bt_contains seen root then Ok seen
      else rbind (state_node s root) (\<lambda>nd.
           fold_ok (collect_subtree_from k s) (child_ids nd) (bt_insert root () seen)))"

definition collect_subtree_nodes :: "server_state \<Rightarrow> node_id \<Rightarrow> node_set \<Rightarrow> node_set res" where
  "collect_subtree_nodes s root seen = collect_subtree_from (Suc (fuel s)) s root seen"

definition session_node_ids :: "server_state \<Rightarrow> session_id \<Rightarrow> node_id list res" where
  "session_node_ids s sid =
     rbind (state_session s sid) (\<lambda>se.
     rbind (collect_subtree_nodes s (se_root_node se) bt_empty) (\<lambda>seen.
     rbind (fold_ok (\<lambda>fid seen.
              rbind (state_floating s fid) (\<lambda>f. collect_subtree_nodes s (fw_root_node f) seen))
              (se_floating se) seen) (\<lambda>seen.
     Ok (bt_keys seen))))"

definition session_has_panes :: "server_state \<Rightarrow> session_id \<Rightarrow> bool res" where
  "session_has_panes s sid =
     rbind (result_ok (session_node_ids s sid)) (\<lambda>ids.
     Ok (case ids of
           None \<Rightarrow> False
         | Some ns \<Rightarrow> list_ex (\<lambda>n. case bt_get (nodes s) n of
                                    Some nd \<Rightarrow> is_buffer_view nd | None \<Rightarrow> False) ns))"

definition sessions_with_panes :: "server_state \<Rightarrow> session_id list res" where
  "sessions_with_panes s =
     fold_ok (\<lambda>sid acc. rbind (session_has_panes s sid) (\<lambda>b. Ok (if b then acc @ [sid] else acc)))
       (bt_keys (sessions s)) []"

definition session_buffer_ids :: "server_state \<Rightarrow> session_id \<Rightarrow> buffer_id list res" where
  "session_buffer_ids s sid =
     rbind (session_node_ids s sid) (\<lambda>ns.
     rbind (fold_ok (\<lambda>n acc.
              rbind (state_node s n) (\<lambda>nd.
              Ok (case nd of BufferView v \<Rightarrow> bt_insert (bv_buffer_id v) () acc | _ \<Rightarrow> acc)))
              ns (bt_empty :: (buffer_id, unit) btree_map)) (\<lambda>acc.
     Ok (bt_keys acc)))"

section \<open>Visibility and focus candidates\<close>

text \<open>The loop of \<open>is_node_visible_from\<close>, from the node up to the root.\<close>

primrec visible_up_from :: "nat \<Rightarrow> server_state \<Rightarrow> node_id \<Rightarrow> node_id \<Rightarrow> node_id \<Rightarrow> bool res" where
  "visible_up_from 0 s root nid cur = Diverge"
| "visible_up_from (Suc k) s root nid cur =
     (if cur = root then Ok True
      else
        rbind (node_parent s cur) (\<lambda>p.
        rbind (ok_or (Conflict (NotRootedAt nid root)) p) (\<lambda>parent.
        rbind (state_node s parent) (\<lambda>pd.
        case pd of
          Tabs tb \<Rightarrow>
            if active_child tb \<noteq> Some cur then Ok False else visible_up_from k s root nid parent
        | _ \<Rightarrow> visible_up_from k s root nid parent))))"

definition is_node_visible_from :: "server_state \<Rightarrow> node_id \<Rightarrow> node_id \<Rightarrow> bool res" where
  "is_node_visible_from s root nid =
     rbind (subtree_contains s root nid) (\<lambda>c.
     if \<not> c then Ok False else visible_up_from (fuel s) s root nid nid)"

definition is_node_visible_in_session :: "server_state \<Rightarrow> session_id \<Rightarrow> node_id \<Rightarrow> bool res" where
  "is_node_visible_in_session s sid nid =
     rbind (ensure_node_belongs_to s nid sid) (\<lambda>_.
     rbind (top_root_for_node s nid) (\<lambda>root.
     rbind (state_session s sid) (\<lambda>se.
     if root = se_root_node se then is_node_visible_from s root nid
     else
       (case floating_id_by_root s root of
          Some fid \<Rightarrow>
            rbind (state_floating s fid) (\<lambda>f.
            if fw_visible f then is_node_visible_from s root nid else Ok False)
        | None \<Rightarrow> Ok False))))"

definition ensure_node_visible_in_session :: "server_state \<Rightarrow> session_id \<Rightarrow> node_id \<Rightarrow> unit res" where
  "ensure_node_visible_in_session s sid nid =
     rbind (is_node_visible_in_session s sid nid) (\<lambda>v.
     if v then Ok () else Err (InvalidInput (NodeNotVisible nid sid)))"

definition ensure_leaf_is_focusable :: "server_state \<Rightarrow> session_id \<Rightarrow> node_id \<Rightarrow> unit res" where
  "ensure_leaf_is_focusable s sid leaf =
     rbind (top_root_for_node s leaf) (\<lambda>root.
     rbind (state_session s sid) (\<lambda>se.
     if root = se_root_node se then Ok ()
     else
       (case floating_id_by_root s root of
          None \<Rightarrow> Err (InvalidInput (LeafNotInLayout leaf sid))
        | Some fid \<Rightarrow>
            rbind (state_floating s fid) (\<lambda>f.
            if \<not> fw_visible f then Err (InvalidInput (LeafInHiddenFloating leaf fid)) else Ok ()))))"

text \<open>
  \<open>last_focused_descendant\<close>, when it is still there and visible (the \<open>&&\<close> chain short-circuits).
\<close>

definition visible_last_leaf :: "server_state \<Rightarrow> node_id \<Rightarrow> node_id option \<Rightarrow> node_id option res" where
  "visible_last_leaf s root last_leaf =
     (case last_leaf of
        None \<Rightarrow> Ok None
      | Some leaf \<Rightarrow>
          if bt_contains (nodes s) leaf
          then rbind (is_node_visible_from s root leaf) (\<lambda>v. Ok (if v then Some leaf else None))
          else Ok None)"

primrec focus_candidate_from :: "nat \<Rightarrow> server_state \<Rightarrow> node_id \<Rightarrow> node_id option res" where
  "focus_candidate_from 0 s n = Diverge"
| "focus_candidate_from (Suc k) s n =
     rbind (state_node s n) (\<lambda>nd.
     case nd of
       BufferView v \<Rightarrow> Ok (Some n)
     | Split sp \<Rightarrow>
         rbind (visible_last_leaf s n (sp_last_focused_descendant sp)) (\<lambda>l.
         case l of
           Some leaf \<Rightarrow> Ok (Some leaf)
         | None \<Rightarrow> first_some (focus_candidate_from k s) (sp_children sp))
     | Tabs tb \<Rightarrow>
         (case active_or_first_child tb of
            Some child \<Rightarrow> focus_candidate_from k s child
          | None \<Rightarrow> Ok None))"

definition resolve_focus_candidate :: "server_state \<Rightarrow> node_id \<Rightarrow> node_id option res" where
  "resolve_focus_candidate s n = focus_candidate_from (fuel s) s n"

definition resolve_floating_focus :: "server_state \<Rightarrow> floating_id \<Rightarrow> node_id option res" where
  "resolve_floating_focus s fid =
     rbind (state_floating s fid) (\<lambda>f.
     if \<not> fw_visible f then Ok None
     else
       rbind (case fw_last_focused_leaf f of
                None \<Rightarrow> Ok None
              | Some leaf \<Rightarrow>
                  if bt_contains (nodes s) leaf
                  then rbind (top_root_for_node s leaf) (\<lambda>root.
                       if root = fw_root_node f
                       then rbind (is_node_visible_from s (fw_root_node f) leaf) (\<lambda>v.
                            Ok (if v then Some leaf else None))
                       else Ok None)
                  else Ok None) (\<lambda>l.
       case l of
         Some leaf \<Rightarrow> Ok (Some leaf)
       | None \<Rightarrow> resolve_focus_candidate s (fw_root_node f)))"

definition default_tab_title :: "server_state \<Rightarrow> node_id \<Rightarrow> rstring res" where
  "default_tab_title s n =
     rbind (resolve_focus_candidate s n) (\<lambda>l.
     case l of
       Some leaf \<Rightarrow>
         rbind (buffer_view_buffer_id s leaf) (\<lambda>bid.
         rbind (state_buffer s bid) (\<lambda>b. Ok (bu_title b)))
     | None \<Rightarrow> Ok (str_lit ''window''))"

text \<open>Errors of \<open>node_session_id\<close> and of the visibility test count as \<open>None\<close> (\<open>.ok()?\<close>).\<close>

definition session_showing_buffer :: "server_state \<Rightarrow> buffer_id \<Rightarrow> session_id option res" where
  "session_showing_buffer s bid =
     rbind (result_ok (state_buffer s bid)) (\<lambda>b.
     case map_option bu_attachment b of
       Some (Attached n) \<Rightarrow>
         rbind (result_ok (node_session_id s n)) (\<lambda>sid.
         case sid of
           None \<Rightarrow> Ok None
         | Some sid \<Rightarrow>
             rbind (result_ok (is_node_visible_in_session s sid n)) (\<lambda>v.
             Ok (if v = Some True then Some sid else None)))
     | _ \<Rightarrow> Ok None)"

definition last_pane :: "server_state \<Rightarrow> session_id \<Rightarrow> node_id option res" where
  "last_pane s sid =
     rbind (state_session s sid) (\<lambda>se.
     case se_focused_leaf se of
       None \<Rightarrow> Ok None
     | Some focused \<Rightarrow>
         rbind (window_of_leaf s sid focused) (\<lambda>w.
         case w of
           None \<Rightarrow> Ok None
         | Some window \<Rightarrow>
             first_some (\<lambda>candidate.
               if candidate = focused \<or>
                  \<not> (case bt_get (nodes s) candidate of Some nd \<Rightarrow> is_buffer_view nd | None \<Rightarrow> False)
               then Ok None
               else rbind (window_of_leaf s sid candidate) (\<lambda>cw.
                    Ok (if cw = Some window then Some candidate else None)))
               (rev (se_focus_history se))))"

section \<open>Sizes\<close>

definition default_floating_dimension :: "nat \<Rightarrow> nat \<Rightarrow> nat \<Rightarrow> nat \<Rightarrow> nat" where
  "default_floating_dimension tot padding mn mx =
     (let available = max (tot - padding) 1
      in max (min available mx) (min mn (max tot 1)))"

definition max_or_zero :: "nat list \<Rightarrow> nat" where
  "max_or_zero xs = foldr max xs 0"

definition sat_sum16 :: "nat list \<Rightarrow> nat" where
  "sat_sum16 xs = foldl (sat_add u16_max) 0 xs"

primrec visible_size_from :: "nat \<Rightarrow> server_state \<Rightarrow> node_id \<Rightarrow> pty_size option res" where
  "visible_size_from 0 s n = Diverge"
| "visible_size_from (Suc k) s n =
     rbind (state_node s n) (\<lambda>nd.
     case nd of
       BufferView v \<Rightarrow> Ok (Some (vs_last_render_size (bv_view v)))
     | Split sp \<Rightarrow>
         rbind (map_ok (visible_size_from k s) (sp_children sp)) (\<lambda>sizes.
         let child_sizes = List.map_filter (\<lambda>x. x) sizes in
         if child_sizes = [] then Ok None
         else
           let divider_count = min (length child_sizes - 1) u16_max in
           Ok (Some
             (case sp_direction sp of
                Horizontal \<Rightarrow>
                  pty_size_new (max_or_zero (map cols child_sizes))
                    (sat_add u16_max (sat_sum16 (map rows child_sizes)) divider_count)
              | Vertical \<Rightarrow>
                  pty_size_new (sat_add u16_max (sat_sum16 (map cols child_sizes)) divider_count)
                    (max_or_zero (map rows child_sizes)))))
     | Tabs tb \<Rightarrow>
         (case active_child tb of
            None \<Rightarrow> Ok None
          | Some child \<Rightarrow> visible_size_from k s child))"

definition visible_node_size :: "server_state \<Rightarrow> node_id \<Rightarrow> pty_size option res" where
  "visible_node_size s n = visible_size_from (fuel s) s n"

text \<open>The arguments of \<open>Option::or\<close> are evaluated, and their errors raised, in any case.\<close>

definition default_floating_geometry :: "server_state \<Rightarrow> session_id \<Rightarrow> float_geometry res" where
  "default_floating_geometry s sid =
     rbind (state_session s sid) (\<lambda>se.
     rbind (resolve_visible_leaf s (se_root_node se)) (\<lambda>visible_leaf.
     rbind (resolve_first_leaf s (se_root_node se)) (\<lambda>first_leaf.
     let anchor_leaf =
       (case se_focused_leaf se of
          Some l \<Rightarrow> Some l
        | None \<Rightarrow> (case visible_leaf of Some l \<Rightarrow> Some l | None \<Rightarrow> first_leaf)) in
     rbind (visible_node_size s (se_root_node se)) (\<lambda>visible_size.
     rbind (case anchor_leaf of
              None \<Rightarrow> Ok None
            | Some leaf \<Rightarrow>
                rbind (state_node s leaf) (\<lambda>nd.
                case nd of
                  BufferView v \<Rightarrow> Ok (Some (vs_last_render_size (bv_view v)))
                | _ \<Rightarrow> Err (Internal (GeometryAnchorNotView leaf)))) (\<lambda>anchor_size.
     let sz = (case visible_size of
                 Some z \<Rightarrow> z
               | None \<Rightarrow> (case anchor_size of Some z \<Rightarrow> z | None \<Rightarrow> pty_size_new 80 24));
         w = default_floating_dimension (cols sz) 8 40 120;
         h = default_floating_dimension (rows sz) 4 10 40
     in Ok (float_geometry_new ((cols sz - w) div 2) ((rows sz - h) div 2) w h))))))"

end
