(* ===== verification/Server_Focus.thy ===== *)
theory Server_Focus
  imports Server_State
begin

text \<open>
  Focus, zoom and activity (\<open>crates/embers-server/src/state.rs\<close>): the methods that decide which pane
  a session focuses, which tab of a tabs node is active and which node is zoomed. None of them
  changes which nodes there are or how they are linked.
\<close>

section \<open>Activity\<close>

definition set_buffer_activity :: "buffer_id \<Rightarrow> activity_state \<Rightarrow> unit op" where
  "set_buffer_activity bid activity = buffer_mut bid (\<lambda>b. b\<lparr>bu_activity := activity\<rparr>)"

definition shown_leaves :: "server_state \<Rightarrow> session_id \<Rightarrow> node_id list res" where
  "shown_leaves s sid =
     rbind (state_session s sid) (\<lambda>se.
     rbind (collect_visible_leaf_ids s (se_root_node se) []) (\<lambda>leaves.
     fold_ok (\<lambda>fid leaves.
       case bt_get (floating s) fid of
         None \<Rightarrow> Ok leaves
       | Some f \<Rightarrow>
           if fw_visible f then collect_visible_leaf_ids s (fw_root_node f) leaves else Ok leaves)
       (se_floating se) leaves))"

definition acknowledge_leaf :: "node_id \<Rightarrow> bool \<Rightarrow> bool op" where
  "acknowledge_leaf leaf changed =
     pbind (reads (\<lambda>s. buffer_view_buffer_id s leaf)) (\<lambda>bid.
     pbind (reads (\<lambda>s. state_buffer s bid)) (\<lambda>b.
     if bu_activity b \<noteq> Idle
     then pbind (buffer_mut bid (\<lambda>b. b\<lparr>bu_activity := Idle\<rparr>)) (\<lambda>_. ret True)
     else ret changed))"

definition acknowledge_shown_activity :: "session_id \<Rightarrow> bool op" where
  "acknowledge_shown_activity sid =
     pbind (reads (\<lambda>s. shown_leaves s sid)) (\<lambda>leaves.
     fold_proc acknowledge_leaf leaves False)"

section \<open>Focus\<close>

definition set_leaf_focus :: "node_id \<Rightarrow> bool \<Rightarrow> unit op" where
  "set_leaf_focus leaf focused =
     pbind (reads (\<lambda>s. state_node s leaf)) (\<lambda>nd.
     case nd of
       BufferView v \<Rightarrow>
         put_node leaf (BufferView (v\<lparr>bv_view := (bv_view v)\<lparr>vs_focused := focused\<rparr>\<rparr>))
     | _ \<Rightarrow> raise (InvalidInput (NodeNotBufferView leaf)))"

definition clear_session_focus :: "session_id \<Rightarrow> unit op" where
  "clear_session_focus sid =
     pbind (reads (\<lambda>s. state_session s sid)) (\<lambda>se.
     pbind (case se_focused_leaf se of
              Some previous_leaf \<Rightarrow>
                match_result (set_leaf_focus previous_leaf False) (\<lambda>_. ret ()) (\<lambda>_. ret ())
            | None \<Rightarrow> ret ()) (\<lambda>_.
     pbind (reads (\<lambda>s. state_session s sid)) (\<lambda>se.
     pbind (for_each (se_floating se) (\<lambda>fid.
              modify (\<lambda>s. s\<lparr>floating := bt_update fid (\<lambda>f. f\<lparr>fw_focused := False\<rparr>) (floating s)\<rparr>))) (\<lambda>_.
     session_mut sid (\<lambda>se. se\<lparr>se_focused_leaf := None, se_focused_floating := None\<rparr>)))))"

definition focus_history_limit :: nat where
  "focus_history_limit = 64"

definition remembered :: "server_state \<Rightarrow> node_id \<Rightarrow> node_id list \<Rightarrow> node_id list" where
  "remembered s leaf history =
     (let kept = filter (\<lambda>entry. entry \<noteq> leaf \<and> bt_contains (nodes s) entry) history @ [leaf]
      in if length kept > focus_history_limit
         then drop (length kept - focus_history_limit) kept else kept)"

text \<open>The history is taken out of the session (left empty), edited and put back.\<close>

definition remember_focus :: "session_id \<Rightarrow> node_id \<Rightarrow> unit op" where
  "remember_focus sid leaf =
     pbind (reads (\<lambda>s. state_session s sid)) (\<lambda>se.
     pbind (session_mut sid (\<lambda>se. se\<lparr>se_focus_history := []\<rparr>)) (\<lambda>_.
     pbind (gets (\<lambda>s. remembered s leaf (se_focus_history se))) (\<lambda>history.
     session_mut sid (\<lambda>se. se\<lparr>se_focus_history := history\<rparr>))))"

text \<open>
  What the walk from a leaf up does at an ancestor \<open>nd\<close> whose child \<open>child\<close> it came from: remember the
  leaf, and in a tabs node make that child the active one.
\<close>

fun focus_through :: "node_id \<Rightarrow> node_id \<Rightarrow> node \<Rightarrow> node" where
  "focus_through leaf child (Split sp) = Split (sp\<lparr>sp_last_focused_descendant := Some leaf\<rparr>)"
| "focus_through leaf child (Tabs tb) =
     Tabs (case position (\<lambda>t. te_child t = child) (tb_tabs tb) of
             Some index \<Rightarrow> tb\<lparr>tb_last_focused_descendant := Some leaf, tb_active := index\<rparr>
           | None \<Rightarrow> tb\<lparr>tb_last_focused_descendant := Some leaf\<rparr>)"
| "focus_through leaf child (BufferView v) = BufferView v"

primrec focus_ancestors_from :: "nat \<Rightarrow> node_id \<Rightarrow> node_id \<Rightarrow> unit op" where
  "focus_ancestors_from 0 leaf child = diverge"
| "focus_ancestors_from (Suc k) leaf child =
     pbind (reads (\<lambda>s. node_parent s child)) (\<lambda>p.
     case p of
       None \<Rightarrow> ret ()
     | Some parent \<Rightarrow>
         pbind (node_mut parent (focus_through leaf child)) (\<lambda>_.
         focus_ancestors_from k leaf parent))"

definition mark_floating_focus :: "node_id \<Rightarrow> floating_id option \<Rightarrow> floating_id \<Rightarrow> unit op" where
  "mark_floating_focus leaf floating_owner fid =
     modify (\<lambda>s. s\<lparr>floating := bt_update fid (\<lambda>f.
       if Some fid = floating_owner then f\<lparr>fw_focused := True, fw_last_focused_leaf := Some leaf\<rparr>
       else f\<lparr>fw_focused := False\<rparr>) (floating s)\<rparr>)"

definition focus_leaf :: "session_id \<Rightarrow> node_id \<Rightarrow> unit op" where
  "focus_leaf sid leaf =
     pbind (reads (\<lambda>s. ensure_leaf_belongs_to s leaf sid)) (\<lambda>_.
     pbind (reads (\<lambda>s. ensure_leaf_is_focusable s sid leaf)) (\<lambda>_.
     pbind (reads (\<lambda>s. buffer_view_buffer_id s leaf)) (\<lambda>bid.
     pbind (reads (\<lambda>s. state_session s sid)) (\<lambda>se.
     pbind (clear_session_focus sid) (\<lambda>_.
     pbind (set_leaf_focus leaf True) (\<lambda>_.
     pbind (case se_focused_leaf se of
              Some previous_leaf \<Rightarrow>
                if previous_leaf \<noteq> leaf then remember_focus sid previous_leaf else ret ()
            | None \<Rightarrow> ret ()) (\<lambda>_.
     pbind (reads (\<lambda>s. floating_id_for_node s leaf)) (\<lambda>floating_owner.
     pbind (session_mut sid (\<lambda>se.
              se\<lparr>se_focused_leaf := Some leaf, se_focused_floating := floating_owner\<rparr>)) (\<lambda>_.
     pbind (reads (\<lambda>s. state_session s sid)) (\<lambda>se.
     pbind (for_each (se_floating se) (mark_floating_focus leaf floating_owner)) (\<lambda>_.
     pbind (with_fuel (\<lambda>k. focus_ancestors_from k leaf leaf)) (\<lambda>_.
     pbind (set_buffer_activity bid Idle) (\<lambda>_.
     pbind (acknowledge_shown_activity sid) (\<lambda>_.
     ret ()))))))))))))))"

definition heal_focus_floating :: "session_id \<Rightarrow> floating_id list \<Rightarrow> unit op" where
  "heal_focus_floating sid fids =
     pbind (reads (\<lambda>s. first_some (resolve_floating_focus s) fids)) (\<lambda>l.
     case l of
       Some leaf \<Rightarrow> focus_leaf sid leaf
     | None \<Rightarrow> clear_session_focus sid)"

definition heal_focus_root :: "session_id \<Rightarrow> unit op" where
  "heal_focus_root sid =
     pbind (reads (\<lambda>s. root_node s sid)) (\<lambda>root.
     pbind (reads (\<lambda>s. resolve_focus_candidate s root)) (\<lambda>l.
     case l of
       Some leaf \<Rightarrow> focus_leaf sid leaf
     | None \<Rightarrow>
         pbind (reads (\<lambda>s. state_session s sid)) (\<lambda>se.
         heal_focus_floating sid (se_floating se))))"

definition heal_focus :: "session_id \<Rightarrow> unit op" where
  "heal_focus sid =
     pbind (reads (\<lambda>s. state_session s sid)) (\<lambda>se.
     pbind (gets (\<lambda>s. case se_focused_floating se of
                       Some fid \<Rightarrow> if bt_contains (floating s) fid then Some fid else None
                     | None \<Rightarrow> None)) (\<lambda>preferred.
     case preferred of
       Some fid \<Rightarrow>
         pbind (reads (\<lambda>s. resolve_floating_focus s fid)) (\<lambda>l.
         case l of Some leaf \<Rightarrow> focus_leaf sid leaf | None \<Rightarrow> heal_focus_root sid)
     | None \<Rightarrow> heal_focus_root sid))"

definition focus_candidate_or_heal :: "session_id \<Rightarrow> node_id \<Rightarrow> unit op" where
  "focus_candidate_or_heal sid n =
     pbind (reads (\<lambda>s. resolve_focus_candidate s n)) (\<lambda>l.
     case l of Some leaf \<Rightarrow> focus_leaf sid leaf | None \<Rightarrow> heal_focus sid)"

definition focus_floating :: "floating_id \<Rightarrow> unit op" where
  "focus_floating fid =
     pbind (reads (\<lambda>s. state_floating s fid)) (\<lambda>f.
     pbind (reads (\<lambda>s. resolve_floating_focus s fid)) (\<lambda>l.
     case l of
       Some leaf \<Rightarrow> focus_leaf (fw_session_id f) leaf
     | None \<Rightarrow> raise (NotFound (FloatingNoFocusableLeaf fid))))"

text \<open>The walk of \<open>select_pane\<close>: as in \<open>focus_leaf\<close>, but only up to the window.\<close>

primrec select_ancestors_from :: "nat \<Rightarrow> node_id \<Rightarrow> node_id \<Rightarrow> node_id \<Rightarrow> unit op" where
  "select_ancestors_from 0 leaf window child = diverge"
| "select_ancestors_from (Suc k) leaf window child =
     (if child = window then ret ()
      else
        pbind (reads (\<lambda>s. node_parent s child)) (\<lambda>p.
        pbind (reads (\<lambda>_. ok_or (Conflict (LeafNotInsideWindow leaf window)) p)) (\<lambda>parent.
        pbind (node_mut parent (focus_through leaf child)) (\<lambda>_.
        select_ancestors_from k leaf window parent))))"

definition select_pane :: "session_id \<Rightarrow> node_id \<Rightarrow> unit op" where
  "select_pane sid leaf =
     pbind (reads (\<lambda>s. ensure_leaf_belongs_to s leaf sid)) (\<lambda>_.
     pbind (reads (\<lambda>s. ensure_leaf_is_focusable s sid leaf)) (\<lambda>_.
     pbind (reads (\<lambda>s. state_session s sid)) (\<lambda>se.
     pbind (reads (\<lambda>s. window_of_leaf s sid leaf)) (\<lambda>w.
     case w of
       None \<Rightarrow> focus_leaf sid leaf
     | Some window \<Rightarrow>
         if window = se_root_node se then focus_leaf sid leaf
         else
           pbind (reads (\<lambda>s. is_node_visible_from s (se_root_node se) window)) (\<lambda>v.
           if v then focus_leaf sid leaf
           else with_fuel (\<lambda>k. select_ancestors_from k leaf window leaf))))))"

definition show_node :: "session_id \<Rightarrow> node_id \<Rightarrow> unit op" where
  "show_node sid n =
     pbind (reads (\<lambda>s. ensure_node_belongs_to s n sid)) (\<lambda>_.
     pbind (reads (\<lambda>s. rbind (resolve_focus_candidate s n) (ok_or (InvalidInput (NoFocusableLeaf n)))))
       (focus_leaf sid))"

definition focus_last_pane :: "session_id \<Rightarrow> unit op" where
  "focus_last_pane sid =
     pbind (reads (\<lambda>s. last_pane s sid)) (\<lambda>l.
     case l of
       None \<Rightarrow> raise (NotFound NoLastPane)
     | Some leaf \<Rightarrow> focus_leaf sid leaf)"

definition switch_tab :: "node_id \<Rightarrow> nat \<Rightarrow> unit op" where
  "switch_tab tabs_id index =
     pbind (reads (\<lambda>s. node_session_id s tabs_id)) (\<lambda>sid.
     pbind (reads (\<lambda>s. state_node s tabs_id)) (\<lambda>nd.
     case nd of
       Tabs tb \<Rightarrow>
         if index \<ge> length (tb_tabs tb)
         then raise (NotFound (TabIndexOutOfRange index tabs_id))
         else
           pbind (put_node tabs_id (Tabs (tb\<lparr>tb_active := index\<rparr>))) (\<lambda>_.
           pbind (reads (\<lambda>s. is_node_visible_in_session s sid tabs_id)) (\<lambda>v.
           if v then focus_candidate_or_heal sid (te_child (tb_tabs tb ! index)) else ret ()))
     | _ \<Rightarrow> raise (InvalidInput NotTabsContainer)))"

definition select_root_tab :: "session_id \<Rightarrow> nat \<Rightarrow> unit op" where
  "select_root_tab sid index =
     pbind (reads (\<lambda>s. root_tabs s sid)) (\<lambda>root. switch_tab root index)"

section \<open>Zoom\<close>

definition refocus_zoomed_subtree :: "session_id \<Rightarrow> node_id \<Rightarrow> unit op" where
  "refocus_zoomed_subtree sid n =
     pbind (reads (\<lambda>s. ensure_node_visible_in_session s sid n)) (\<lambda>_.
     pbind (reads (\<lambda>s. state_session s sid)) (\<lambda>se.
     pbind (reads (\<lambda>s. case se_focused_leaf se of
                        Some focused \<Rightarrow> node_is_descendant_of s focused n
                      | None \<Rightarrow> Ok False)) (\<lambda>inside.
     if inside then ret ()
     else
       pbind (reads (\<lambda>s. resolve_focus_candidate s n)) (\<lambda>l.
       case l of Some leaf \<Rightarrow> focus_leaf sid leaf | None \<Rightarrow> clear_session_focus sid))))"

definition zoom_visible :: "session_id \<Rightarrow> node_id \<Rightarrow> unit op" where
  "zoom_visible sid n =
     pbind (reads (\<lambda>s. ensure_node_visible_in_session s sid n)) (\<lambda>_.
     pbind (refocus_zoomed_subtree sid n) (\<lambda>_.
     session_mut sid (\<lambda>se. se\<lparr>se_zoomed_node := Some n\<rparr>)))"

definition zoom_node :: "node_id \<Rightarrow> unit op" where
  "zoom_node n = pbind (reads (\<lambda>s. node_session_id s n)) (\<lambda>sid. zoom_visible sid n)"

definition unzoom_session :: "session_id \<Rightarrow> unit op" where
  "unzoom_session sid = session_mut sid (\<lambda>se. se\<lparr>se_zoomed_node := None\<rparr>)"

definition toggle_zoom_node :: "node_id \<Rightarrow> unit op" where
  "toggle_zoom_node n =
     pbind (reads (\<lambda>s. node_session_id s n)) (\<lambda>sid.
     pbind (reads (\<lambda>s. state_session s sid)) (\<lambda>se.
     if se_zoomed_node se = Some n
     then session_mut sid (\<lambda>se. se\<lparr>se_zoomed_node := None\<rparr>)
     else zoom_visible sid n))"

definition normalize_zoomed_node :: "session_id \<Rightarrow> unit op" where
  "normalize_zoomed_node sid =
     pbind (reads (\<lambda>s. state_session s sid)) (\<lambda>se.
     pbind (reads (\<lambda>s.
       case se_zoomed_node se of
         None \<Rightarrow> Ok None
       | Some n \<Rightarrow>
           (case bt_get (nodes s) n of
              None \<Rightarrow> Ok None
            | Some nd \<Rightarrow>
                if node_session nd = sid
                then rbind (is_node_visible_in_session s sid n) (\<lambda>v. Ok (if v then Some n else None))
                else Ok None))) (\<lambda>keep.
     session_mut sid (\<lambda>se. se\<lparr>se_zoomed_node := keep\<rparr>)))"

end
