(* ===== verification/Server_Layout.thy ===== *)
theory Server_Layout
  imports Server_Focus
begin

text \<open>
  The layout (\<open>crates/embers-server/src/state.rs\<close>): links between nodes, removal of subtrees, the
  normalisation that collapses containers with one child, and the methods that close, create, wrap,
  replace and reorder windows, splits, tabs and floating windows.
\<close>

section \<open>Links\<close>

definition set_parent :: "node_id \<Rightarrow> node_id option \<Rightarrow> unit op" where
  "set_parent n p = node_mut n (node_set_parent p)"

text \<open>Index of the tab that shows \<open>child\<close>.\<close>

abbreviation tab_position :: "node_id \<Rightarrow> tab_entry list \<Rightarrow> nat option" where
  "tab_position child tabs \<equiv> position (\<lambda>t. te_child t = child) tabs"

abbreviation child_position :: "node_id \<Rightarrow> node_id list \<Rightarrow> nat option" where
  "child_position child children \<equiv> position (\<lambda>c. c = child) children"

definition replace_child :: "node_id \<Rightarrow> node_id \<Rightarrow> node_id \<Rightarrow> unit op" where
  "replace_child parent old_child new_child =
     pbind (reads (\<lambda>s. node_session_id s parent)) (\<lambda>sid.
     pbind (reads (\<lambda>s. ensure_node_belongs_to s old_child sid)) (\<lambda>_.
     pbind (reads (\<lambda>s. ensure_node_belongs_to s new_child sid)) (\<lambda>_.
     pbind (reads (\<lambda>s. state_node s parent)) (\<lambda>nd.
     pbind (case nd of
              Split sp \<Rightarrow>
                (case child_position old_child (sp_children sp) of
                   Some index \<Rightarrow>
                     put_node parent (Split (sp\<lparr>sp_children := (sp_children sp)[index := new_child]\<rparr>))
                 | None \<Rightarrow> raise (NotFound (NotChildOfParent old_child parent)))
            | Tabs tb \<Rightarrow>
                (case tab_position old_child (tb_tabs tb) of
                   Some index \<Rightarrow>
                     put_node parent (Tabs (tb\<lparr>tb_tabs :=
                       (tb_tabs tb)[index := (tb_tabs tb ! index)\<lparr>te_child := new_child\<rparr>]\<rparr>))
                 | None \<Rightarrow> raise (NotFound (NotChildOfParent old_child parent)))
            | BufferView v \<Rightarrow> raise (InvalidInput ViewsCannotReplaceChild)) (\<lambda>_.
     pbind (set_parent old_child None) (\<lambda>_.
     set_parent new_child (Some parent)))))))"

text \<open>The active index after the tab at \<open>index\<close> is removed, \<open>len\<close> tabs being left.\<close>

definition active_after_remove :: "nat \<Rightarrow> nat \<Rightarrow> nat \<Rightarrow> nat" where
  "active_after_remove active index len =
     (if len = 0 then 0
      else if active > index then active - 1
      else if active \<ge> len then len - 1
      else active)"

definition remove_child :: "node_id \<Rightarrow> node_id \<Rightarrow> unit op" where
  "remove_child parent child =
     pbind (reads (\<lambda>s. state_node s parent)) (\<lambda>nd.
     pbind (case nd of
              Split sp \<Rightarrow>
                (case child_position child (sp_children sp) of
                   Some index \<Rightarrow>
                     put_node parent (Split (sp\<lparr>sp_children := vec_remove index (sp_children sp),
                       sp_sizes := (if index < length (sp_sizes sp)
                                    then vec_remove index (sp_sizes sp) else sp_sizes sp)\<rparr>))
                 | None \<Rightarrow> raise (NotFound (NotChildOfParent child parent)))
            | Tabs tb \<Rightarrow>
                (case tab_position child (tb_tabs tb) of
                   Some index \<Rightarrow>
                     put_node parent (Tabs (tb\<lparr>tb_tabs := vec_remove index (tb_tabs tb),
                       tb_active := active_after_remove (tb_active tb) index
                                      (length (vec_remove index (tb_tabs tb)))\<rparr>))
                 | None \<Rightarrow> raise (NotFound (NotChildOfParent child parent)))
            | BufferView v \<Rightarrow> raise (InvalidInput ViewsCannotRemoveChild)) (\<lambda>_.
     set_parent child None))"

text \<open>Replace a node by another in whatever owns it: a parent, a session or a floating window.\<close>

definition repoint_owner_reference ::
  "session_id \<Rightarrow> node_id option \<Rightarrow> node_id \<Rightarrow> node_id \<Rightarrow> unit op" where
  "repoint_owner_reference sid owner old_node new_node =
     (case owner of
        Some parent \<Rightarrow>
          pbind (reads (\<lambda>s. state_node s parent)) (\<lambda>nd.
          pbind (case nd of
                   Split sp \<Rightarrow>
                     (case child_position old_node (sp_children sp) of
                        Some index \<Rightarrow>
                          put_node parent (Split (sp\<lparr>sp_children := (sp_children sp)[index := new_node]\<rparr>))
                      | None \<Rightarrow> raise (NotFound (NotChildOfSplit old_node parent)))
                 | Tabs tb \<Rightarrow>
                     (case tab_position old_node (tb_tabs tb) of
                        Some index \<Rightarrow>
                          put_node parent (Tabs (tb\<lparr>tb_tabs :=
                            (tb_tabs tb)[index := (tb_tabs tb ! index)\<lparr>te_child := new_node\<rparr>]\<rparr>))
                      | None \<Rightarrow> raise (NotFound (NotTabChildOf old_node parent)))
                 | BufferView v \<Rightarrow> raise (InvalidInput ViewsCannotOwnChildren)) (\<lambda>_.
          set_parent new_node (Some parent)))
      | None \<Rightarrow>
          pbind (gets (\<lambda>s. is_session_root s old_node)) (\<lambda>is_root.
          if is_root
          then pbind (session_mut sid (\<lambda>se. se\<lparr>se_root_node := new_node\<rparr>)) (\<lambda>_. set_parent new_node None)
          else
            pbind (gets (\<lambda>s. floating_id_by_root s old_node)) (\<lambda>fid.
            case fid of
              Some fid \<Rightarrow>
                pbind (floating_mut fid (\<lambda>f. f\<lparr>fw_root_node := new_node\<rparr>)) (\<lambda>_. set_parent new_node None)
            | None \<Rightarrow> raise (Conflict (NoReplaceableOwner old_node)))))"

definition replace_node_in_owner :: "node_id \<Rightarrow> node_id \<Rightarrow> unit op" where
  "replace_node_in_owner old_node new_node =
     pbind (reads (\<lambda>s. node_session_id s old_node)) (\<lambda>sid.
     pbind (reads (\<lambda>s. node_parent s old_node)) (\<lambda>owner.
     pbind (reads (\<lambda>s. resolve_focus_candidate s new_node)) (\<lambda>replacement_focus.
     case owner of
       Some parent \<Rightarrow>
         pbind (reads (\<lambda>s. rbind (state_node s parent) (\<lambda>pd.
                  case last_focused_descendant pd of
                    Some leaf \<Rightarrow>
                      if bt_contains (nodes s) leaf then subtree_contains s old_node leaf else Ok True
                  | None \<Rightarrow> Ok False))) (\<lambda>should_update_focus.
         pbind (replace_child parent old_node new_node) (\<lambda>_.
         if should_update_focus then node_mut parent (set_last_focused_descendant replacement_focus)
         else ret ()))
     | None \<Rightarrow>
         pbind (gets (\<lambda>s. is_session_root s old_node)) (\<lambda>is_root.
         if is_root
         then
           pbind (session_mut sid (\<lambda>se. se\<lparr>se_root_node := new_node\<rparr>)) (\<lambda>_.
           pbind (set_parent new_node None) (\<lambda>_. set_parent old_node None))
         else
           pbind (gets (\<lambda>s. floating_id_by_root s old_node)) (\<lambda>fid.
           case fid of
             Some fid \<Rightarrow>
               pbind (floating_mut fid (\<lambda>f. f\<lparr>fw_root_node := new_node\<rparr>)) (\<lambda>_.
               pbind (set_parent new_node None) (\<lambda>_. set_parent old_node None))
           | None \<Rightarrow> raise (Conflict (NoReplaceableOwner old_node)))))))"

section \<open>Removal\<close>

definition detach_buffer_raw :: "buffer_id \<Rightarrow> unit op" where
  "detach_buffer_raw bid = buffer_mut bid (\<lambda>b. b\<lparr>bu_attachment := Detached\<rparr>)"

definition detach_buffer_if_attached_to :: "buffer_id \<Rightarrow> node_id \<Rightarrow> unit op" where
  "detach_buffer_if_attached_to bid n =
     pbind (gets (\<lambda>s. bt_get (buffers s) bid)) (\<lambda>b.
     if map_option bu_attachment b = Some (Attached n) then detach_buffer_raw bid else ret ())"

primrec remove_subtree_from :: "nat \<Rightarrow> node_id \<Rightarrow> unit op" where
  "remove_subtree_from 0 n = diverge"
| "remove_subtree_from (Suc k) n =
     pbind (reads (\<lambda>s. state_node s n)) (\<lambda>nd.
     pbind (for_each (child_ids nd) (remove_subtree_from k)) (\<lambda>_.
     pbind (reads (\<lambda>s. state_node s n)) (\<lambda>nd.
     pbind (case nd of
              BufferView v \<Rightarrow> detach_buffer_if_attached_to (bv_buffer_id v) (bv_id v)
            | _ \<Rightarrow> ret ()) (\<lambda>_.
     drop_node n))))"

definition remove_subtree_nodes :: "node_id \<Rightarrow> unit op" where
  "remove_subtree_nodes n = with_fuel (\<lambda>k. remove_subtree_from k n)"

definition remove_floating_window :: "floating_id \<Rightarrow> floating_window op" where
  "remove_floating_window fid =
     pbind (reads (\<lambda>s. state_floating s fid)) (\<lambda>f.
     pbind (modify (\<lambda>s. s\<lparr>floating := bt_remove fid (floating s)\<rparr>)) (\<lambda>_.
     pbind (modify (\<lambda>s. s\<lparr>sessions := bt_update (fw_session_id f) (\<lambda>se.
              se\<lparr>se_floating := filter (\<lambda>c. c \<noteq> fid) (se_floating se),
                 se_focused_floating := (if se_focused_floating se = Some fid then None
                                         else se_focused_floating se)\<rparr>) (sessions s)\<rparr>)) (\<lambda>_.
     ret f)))"

section \<open>Normalisation\<close>

definition normalize_split_node :: "node_id \<Rightarrow> node_id option op" where
  "normalize_split_node n =
     pbind (reads (\<lambda>s. state_node s n)) (\<lambda>nd.
     case nd of
       Split sp \<Rightarrow>
         (case sp_children sp of
            [] \<Rightarrow> raise (Conflict (SplitEmpty n))
          | [child] \<Rightarrow>
              pbind (replace_node_in_owner n child) (\<lambda>_.
              pbind (drop_node n) (\<lambda>_. ret (Some child)))
          | _ \<Rightarrow>
              pbind (if length (sp_sizes sp) \<noteq> length (sp_children sp) \<or> 0 \<in> set (sp_sizes sp)
                     then put_node n (Split (sp\<lparr>sp_sizes := replicate (length (sp_children sp)) 1\<rparr>))
                     else ret ()) (\<lambda>_.
              ret (sp_parent sp)))
     | _ \<Rightarrow> reads (\<lambda>s. node_parent s n))"

definition normalize_tabs_node :: "node_id \<Rightarrow> node_id option op" where
  "normalize_tabs_node n =
     pbind (reads (\<lambda>s. state_node s n)) (\<lambda>nd.
     case nd of
       Tabs tb \<Rightarrow>
         pbind (gets (\<lambda>s. is_session_root s n)) (\<lambda>is_root.
         pbind (gets (\<lambda>s. floating_id_by_root s n)) (\<lambda>floating_owner.
         if length (tb_tabs tb) = 0
         then
           if is_root
           then
             pbind (put_node n (Tabs (tb\<lparr>tb_active := 0, tb_last_focused_descendant := None\<rparr>))) (\<lambda>_.
             ret (tb_parent tb))
           else
             (case floating_owner of
                Some fid \<Rightarrow>
                  pbind (remove_floating_window fid) (\<lambda>f.
                  pbind (drop_node (fw_root_node f)) (\<lambda>_. ret None))
              | None \<Rightarrow> pbind (drop_node n) (\<lambda>_. ret (tb_parent tb)))
         else if length (tb_tabs tb) = 1 \<and> floating_owner = None \<and> \<not> is_root
         then
           let child = te_child (tb_tabs tb ! 0) in
           pbind (replace_node_in_owner n child) (\<lambda>_.
           pbind (drop_node n) (\<lambda>_. ret (Some child)))
         else
           pbind (if tb_active tb \<ge> length (tb_tabs tb)
                  then put_node n (Tabs (tb\<lparr>tb_active := length (tb_tabs tb) - 1\<rparr>))
                  else ret ()) (\<lambda>_.
           ret (tb_parent tb))))
     | _ \<Rightarrow> reads (\<lambda>s. node_parent s n))"

primrec normalize_up_from :: "nat \<Rightarrow> node_id option \<Rightarrow> unit op" where
  "normalize_up_from 0 cur = diverge"
| "normalize_up_from (Suc k) cur =
     (case cur of
        None \<Rightarrow> ret ()
      | Some n \<Rightarrow>
          pbind (gets (\<lambda>s. bt_get (nodes s) n)) (\<lambda>found.
          case found of
            None \<Rightarrow> ret ()
          | Some nd \<Rightarrow>
              pbind (case nd of
                       BufferView v \<Rightarrow> reads (\<lambda>s. node_parent s n)
                     | Split sp \<Rightarrow> normalize_split_node n
                     | Tabs tb \<Rightarrow> normalize_tabs_node n)
                (normalize_up_from k)))"

text \<open>
  Each round collapses a node or moves up; the fuel \<open>k\<close> is one more than the number of nodes, and twice
  that is enough.
\<close>

definition normalize_upwards :: "node_id \<Rightarrow> unit op" where
  "normalize_upwards start = with_fuel (\<lambda>k. normalize_up_from (2 * k) (Some start))"

section \<open>Closing\<close>

definition empty_tabs :: "node_id \<Rightarrow> session_id \<Rightarrow> node" where
  "empty_tabs n sid =
     Tabs \<lparr>tb_id = n, tb_session_id = sid, tb_parent = None, tb_tabs = [], tb_active = 0,
           tb_last_focused_descendant = None\<rparr>"

definition clear_session_root :: "session_id \<Rightarrow> unit op" where
  "clear_session_root sid =
     pbind (reads (\<lambda>s. root_node s sid)) (\<lambda>old_root.
     pbind (remove_subtree_nodes old_root) (\<lambda>_.
     pbind next_node_id (\<lambda>new_root.
     pbind (put_node new_root (empty_tabs new_root sid)) (\<lambda>_.
     pbind (session_mut sid (\<lambda>se. se\<lparr>se_root_node := new_root\<rparr>)) (\<lambda>_.
     pbind (session_mut sid (\<lambda>se. se\<lparr>se_zoomed_node := None\<rparr>)) (\<lambda>_.
     heal_focus sid))))))"

definition close_node :: "node_id \<Rightarrow> unit op" where
  "close_node n =
     pbind (reads (\<lambda>s. node_session_id s n)) (\<lambda>sid.
     pbind (gets (\<lambda>s. is_session_root s n)) (\<lambda>is_root.
     if is_root then clear_session_root sid
     else
       pbind (reads (\<lambda>s. node_parent s n)) (\<lambda>p.
       pbind (case p of
                Some parent \<Rightarrow>
                  pbind (remove_child parent n) (\<lambda>_.
                  pbind (remove_subtree_nodes n) (\<lambda>_.
                  normalize_upwards parent))
              | None \<Rightarrow>
                  pbind (gets (\<lambda>s. floating_id_by_root s n)) (\<lambda>fid.
                  case fid of
                    Some fid \<Rightarrow>
                      pbind (remove_floating_window fid) (\<lambda>f. remove_subtree_nodes (fw_root_node f))
                  | None \<Rightarrow> raise (InvalidInput (NoOwningContainer n)))) (\<lambda>_.
       pbind (normalize_zoomed_node sid) (\<lambda>_.
       heal_focus sid)))))"

definition close_tab :: "node_id \<Rightarrow> nat \<Rightarrow> unit op" where
  "close_tab tabs_id index =
     pbind (reads (\<lambda>s. node_session_id s tabs_id)) (\<lambda>sid.
     pbind (reads (\<lambda>s. state_node s tabs_id)) (\<lambda>nd.
     case nd of
       Tabs tb \<Rightarrow>
         if index \<ge> length (tb_tabs tb)
         then raise (NotFound (TabIndexOutOfRange index tabs_id))
         else
           let child = te_child (tb_tabs tb ! index);
               rest = vec_remove index (tb_tabs tb) in
           pbind (put_node tabs_id (Tabs (tb\<lparr>tb_tabs := rest,
                    tb_active := active_after_remove (tb_active tb) index (length rest),
                    tb_last_focused_descendant := (if rest = [] then None
                                                   else tb_last_focused_descendant tb)\<rparr>))) (\<lambda>_.
           pbind (set_parent child None) (\<lambda>_.
           pbind (remove_subtree_nodes child) (\<lambda>_.
           pbind (normalize_upwards tabs_id) (\<lambda>_.
           pbind (normalize_zoomed_node sid) (\<lambda>_.
           heal_focus sid)))))
     | _ \<Rightarrow> raise (InvalidInput NotTabsContainer)))"

definition close_root_tab :: "session_id \<Rightarrow> nat \<Rightarrow> unit op" where
  "close_root_tab sid index =
     pbind (reads (\<lambda>s. root_tabs s sid)) (\<lambda>root. close_tab root index)"

definition close_floating :: "floating_id \<Rightarrow> unit op" where
  "close_floating fid =
     pbind (remove_floating_window fid) (\<lambda>f.
     pbind (remove_subtree_nodes (fw_root_node f)) (\<lambda>_.
     pbind (normalize_zoomed_node (fw_session_id f)) (\<lambda>_.
     heal_focus (fw_session_id f))))"

definition close_session :: "session_id \<Rightarrow> unit op" where
  "close_session sid =
     pbind (reads (\<lambda>s. state_session s sid)) (\<lambda>se.
     pbind (for_each (se_floating se) close_floating) (\<lambda>_.
     pbind (remove_subtree_nodes (se_root_node se)) (\<lambda>_.
     modify (\<lambda>s. s\<lparr>sessions := bt_remove sid (sessions s)\<rparr>))))"

definition discard_view_record :: "node_id \<Rightarrow> unit op" where
  "discard_view_record n =
     pbind (gets (\<lambda>s. bt_get (nodes s) n)) (\<lambda>found.
     pbind (case found of
              Some (BufferView v) \<Rightarrow>
                match_result (detach_buffer_if_attached_to (bv_buffer_id v) (bv_id v))
                  (\<lambda>_. ret ()) (\<lambda>_. ret ())
            | _ \<Rightarrow> ret ()) (\<lambda>_.
     drop_node n))"

definition discard_buffer_view :: "node_id \<Rightarrow> unit op" where
  "discard_buffer_view n =
     pbind (gets (\<lambda>s. bt_get (nodes s) n)) (\<lambda>found.
     if (case found of Some nd \<Rightarrow> node_par nd \<noteq> None | None \<Rightarrow> False)
     then match_result (close_node n) (\<lambda>_. ret ()) (\<lambda>_. discard_view_record n)
     else discard_view_record n)"

section \<open>Sessions\<close>

definition create_session :: "rstring \<Rightarrow> timestamp \<Rightarrow> session_id op" where
  "create_session name now =
     pbind next_session_id (\<lambda>sid.
     pbind next_node_id (\<lambda>root.
     pbind (put_node root (empty_tabs root sid)) (\<lambda>_.
     pbind (modify (\<lambda>s. s\<lparr>sessions := bt_insert sid
              \<lparr>se_id = sid, se_name = name, se_root_node = root, se_floating = [],
               se_focused_leaf = None, se_focused_floating = None, se_zoomed_node = None,
               se_viewport = last_viewport s, se_pane_titles = last_pane_titles s,
               se_base_index = last_base_index s, se_focus_history = [], se_created_at = now\<rparr>
              (sessions s)\<rparr>)) (\<lambda>_.
     ret sid))))"

definition rename_session :: "session_id \<Rightarrow> rstring \<Rightarrow> unit op" where
  "rename_session sid name =
     (let name = trim name in
      if name = [] then raise (InvalidInput SessionNameEmpty)
      else session_mut sid (\<lambda>se. se\<lparr>se_name := name\<rparr>))"

definition set_session_base_index :: "session_id \<Rightarrow> nat option \<Rightarrow> unit op" where
  "set_session_base_index sid base =
     pbind (session_mut sid (\<lambda>se. se\<lparr>se_base_index := base\<rparr>)) (\<lambda>_.
     modify (\<lambda>s. s\<lparr>last_base_index := base\<rparr>))"

definition set_session_viewport :: "session_id \<Rightarrow> size \<Rightarrow> bool \<Rightarrow> unit op" where
  "set_session_viewport sid viewport titles =
     pbind (session_mut sid (\<lambda>se. se\<lparr>se_viewport := Some viewport, se_pane_titles := titles\<rparr>)) (\<lambda>_.
     modify (\<lambda>s. s\<lparr>last_viewport := Some viewport, last_pane_titles := titles\<rparr>))"

section \<open>Views, splits and tabs\<close>

definition set_buffer_attached :: "buffer_id \<Rightarrow> node_id \<Rightarrow> unit op" where
  "set_buffer_attached bid view =
     buffer_mut bid (\<lambda>b. b\<lparr>bu_attachment := Attached view, bu_ever_attached := True\<rparr>)"

definition attach_buffer :: "buffer_id \<Rightarrow> node_id \<Rightarrow> unit op" where
  "attach_buffer bid n =
     pbind (reads (\<lambda>s. state_buffer s bid)) (\<lambda>b.
     if (case bu_attachment b of Attached existing \<Rightarrow> existing \<noteq> n | Detached \<Rightarrow> False)
     then raise (Conflict (BufferAlreadyAttached bid
            (case bu_attachment b of Attached existing \<Rightarrow> existing | Detached \<Rightarrow> n)))
     else
       pbind (reads (\<lambda>s. buffer_view_buffer_id s n)) (\<lambda>current_buffer.
       pbind (if current_buffer \<noteq> bid
              then
                pbind (modify (\<lambda>s. s\<lparr>buffers := bt_update current_buffer (\<lambda>p.
                         if bu_attachment p = Attached n then p\<lparr>bu_attachment := Detached\<rparr> else p)
                         (buffers s)\<rparr>)) (\<lambda>_.
                pbind (reads (\<lambda>s. state_node s n)) (\<lambda>nd.
                case nd of
                  BufferView v \<Rightarrow> put_node n (BufferView (v\<lparr>bv_buffer_id := bid\<rparr>))
                | _ \<Rightarrow> raise (InvalidInput NotBufferView)))
              else ret ()) (\<lambda>_.
       set_buffer_attached bid n)))"

definition create_unattached_buffer_view :: "session_id \<Rightarrow> buffer_id \<Rightarrow> node_id op" where
  "create_unattached_buffer_view sid bid =
     pbind (reads (\<lambda>s. ensure_session_exists s sid)) (\<lambda>_.
     pbind (reads (\<lambda>s. state_buffer s bid)) (\<lambda>b.
     pbind next_node_id (\<lambda>n.
     pbind (put_node n (BufferView
              \<lparr>bv_id = n, bv_session_id = sid, bv_parent = None, bv_buffer_id = bid,
               bv_view = buffer_view_state_default\<lparr>vs_last_render_size := bu_pty_size b\<rparr>\<rparr>)) (\<lambda>_.
     ret n))))"

definition create_buffer_view :: "session_id \<Rightarrow> buffer_id \<Rightarrow> node_id op" where
  "create_buffer_view sid bid =
     pbind (create_unattached_buffer_view sid bid) (\<lambda>n.
     match_result (attach_buffer bid n)
       (\<lambda>_. ret n)
       (\<lambda>e. pbind (drop_node n) (\<lambda>_. raise e)))"

text \<open>The checks on the children of a new container, with \<open>seen\<close> the children so far.\<close>

primrec check_new_children ::
  "server_state \<Rightarrow> session_id \<Rightarrow> (node_id \<Rightarrow> mux_error) \<Rightarrow> (node_id \<Rightarrow> mux_error) \<Rightarrow>
   node_id list \<Rightarrow> node_set \<Rightarrow> unit res" where
  "check_new_children s sid reused parented [] seen = Ok ()"
| "check_new_children s sid reused parented (c # cs) seen =
     rbind (ensure_node_belongs_to s c sid) (\<lambda>_.
     if bt_contains seen c then Err (reused c)
     else
       rbind (node_parent s c) (\<lambda>p.
       if p \<noteq> None then Err (parented c)
       else check_new_children s sid reused parented cs (bt_insert c () seen)))"

definition create_split_node :: "session_id \<Rightarrow> split_direction \<Rightarrow> node_id list \<Rightarrow> node_id op" where
  "create_split_node sid direction children =
     pbind (reads (\<lambda>s. ensure_session_exists s sid)) (\<lambda>_.
     if length children < 2 then raise (InvalidInput SplitNeedsTwoChildren)
     else
       pbind next_node_id (\<lambda>n.
       pbind (reads (\<lambda>s. check_new_children s sid
                (\<lambda>c. InvalidInput (SplitReusesChild n c)) (\<lambda>c. InvalidInput (SplitChildHasParent c))
                children bt_empty)) (\<lambda>_.
       pbind (for_each children (\<lambda>c. set_parent c (Some n))) (\<lambda>_.
       pbind (put_node n (Split
                \<lparr>sp_id = n, sp_session_id = sid, sp_parent = None, sp_direction = direction,
                 sp_children = children, sp_sizes = replicate (length children) 1,
                 sp_last_focused_descendant = None\<rparr>)) (\<lambda>_.
       ret n)))))"

definition create_tabs_node :: "session_id \<Rightarrow> tab_entry list \<Rightarrow> nat \<Rightarrow> node_id op" where
  "create_tabs_node sid tabs active =
     pbind (reads (\<lambda>s. ensure_session_exists s sid)) (\<lambda>_.
     pbind next_node_id (\<lambda>n.
     pbind (reads (\<lambda>s. check_new_children s sid
              (\<lambda>c. InvalidInput (TabsReusesChild n c)) (\<lambda>c. InvalidInput (TabsChildHasParent c))
              (map te_child tabs) bt_empty)) (\<lambda>_.
     pbind (for_each tabs (\<lambda>t. set_parent (te_child t) (Some n))) (\<lambda>_.
     pbind (put_node n (Tabs
              \<lparr>tb_id = n, tb_session_id = sid, tb_parent = None, tb_tabs = tabs,
               tb_active = (if tabs = [] then 0 else min active (length tabs - 1)),
               tb_last_focused_descendant = None\<rparr>)) (\<lambda>_.
     ret n)))))"

definition insert_tab :: "node_id \<Rightarrow> nat \<Rightarrow> rstring \<Rightarrow> node_id \<Rightarrow> unit op" where
  "insert_tab tabs_id index title child =
     pbind (reads (\<lambda>s. state_node s tabs_id)) (\<lambda>nd.
     case nd of
       Tabs tb \<Rightarrow>
         put_node tabs_id (Tabs (tb\<lparr>tb_tabs := vec_insert index (tab_entry_new title child) (tb_tabs tb),
                                    tb_active := index\<rparr>))
     | _ \<Rightarrow> raise (InvalidInput NotTabsContainer))"

definition tabs_len :: "server_state \<Rightarrow> node_id \<Rightarrow> nat res" where
  "tabs_len s tabs_id =
     rbind (state_node s tabs_id) (\<lambda>nd.
     case nd of Tabs tb \<Rightarrow> Ok (length (tb_tabs tb)) | _ \<Rightarrow> Err (InvalidInput NotTabsContainer))"

definition add_tab_sibling_at_with_focus ::
  "node_id \<Rightarrow> nat \<Rightarrow> rstring \<Rightarrow> node_id \<Rightarrow> bool \<Rightarrow> nat op" where
  "add_tab_sibling_at_with_focus tabs_id index title child do_focus =
     pbind (reads (\<lambda>s. node_session_id s tabs_id)) (\<lambda>sid.
     pbind (reads (\<lambda>s. ensure_node_belongs_to s child sid)) (\<lambda>_.
     if child = tabs_id then raise (InvalidInput TabsContainsItself)
     else
       pbind (reads (\<lambda>s. tabs_len s tabs_id)) (\<lambda>_.
       pbind (reads (\<lambda>s. node_parent s child)) (\<lambda>p.
       if p \<noteq> None then raise (InvalidInput NewTabChildHasParent)
       else
         pbind (gets (\<lambda>s. is_session_root s child)) (\<lambda>is_root.
         if is_root then raise (Conflict SessionRootAsTabChild)
         else
           pbind (gets (\<lambda>s. floating_id_by_root s child)) (\<lambda>fid.
           if fid \<noteq> None then raise (Conflict FloatingRootAsTabChild)
           else
             pbind (reads (\<lambda>s. tabs_len s tabs_id)) (\<lambda>len.
             if index > len then raise (NotFound (TabInsertionOutOfRange index tabs_id))
             else
               pbind (set_parent child (Some tabs_id)) (\<lambda>_.
               pbind (insert_tab tabs_id index title child) (\<lambda>_.
               pbind (if do_focus then focus_candidate_or_heal sid child else ret ()) (\<lambda>_.
               ret index))))))))))"

definition add_tab_sibling_at :: "node_id \<Rightarrow> nat \<Rightarrow> rstring \<Rightarrow> node_id \<Rightarrow> nat op" where
  "add_tab_sibling_at tabs_id index title child =
     add_tab_sibling_at_with_focus tabs_id index title child True"

definition add_tab_sibling :: "node_id \<Rightarrow> rstring \<Rightarrow> node_id \<Rightarrow> nat op" where
  "add_tab_sibling tabs_id title child =
     pbind (reads (\<lambda>s. tabs_len s tabs_id)) (\<lambda>append_index.
     add_tab_sibling_at_with_focus tabs_id append_index title child True)"

definition add_root_tab :: "session_id \<Rightarrow> rstring \<Rightarrow> node_id \<Rightarrow> nat op" where
  "add_root_tab sid title child =
     pbind (reads (\<lambda>s. root_tabs s sid)) (\<lambda>root. add_tab_sibling root title child)"

definition add_root_tab_from_subtree :: "session_id \<Rightarrow> rstring \<Rightarrow> node_id \<Rightarrow> nat op" where
  "add_root_tab_from_subtree sid title child =
     pbind (reads (\<lambda>s. root_tabs s sid)) (\<lambda>root. add_tab_sibling root title child)"

definition or_discard_view :: "node_id \<Rightarrow> 'a op \<Rightarrow> 'a op" where
  "or_discard_view child m =
     match_result m ret (\<lambda>e. pbind (discard_buffer_view child) (\<lambda>_. raise e))"

definition add_root_tab_from_buffer :: "session_id \<Rightarrow> rstring \<Rightarrow> buffer_id \<Rightarrow> nat op" where
  "add_root_tab_from_buffer sid title bid =
     pbind (reads (\<lambda>s. root_tabs s sid)) (\<lambda>root.
     pbind (create_buffer_view sid bid) (\<lambda>child.
     or_discard_view child (add_tab_sibling root title child)))"

definition add_tab_from_buffer_at :: "node_id \<Rightarrow> nat \<Rightarrow> rstring \<Rightarrow> buffer_id \<Rightarrow> nat op" where
  "add_tab_from_buffer_at tabs_id index title bid =
     pbind (reads (\<lambda>s. tabs_len s tabs_id)) (\<lambda>_.
     pbind (reads (\<lambda>s. node_session_id s tabs_id)) (\<lambda>sid.
     pbind (create_buffer_view sid bid) (\<lambda>child.
     or_discard_view child (add_tab_sibling_at tabs_id index title child))))"

definition add_tab_from_buffer :: "node_id \<Rightarrow> rstring \<Rightarrow> buffer_id \<Rightarrow> nat op" where
  "add_tab_from_buffer tabs_id title bid =
     pbind (reads (\<lambda>s. tabs_len s tabs_id)) (\<lambda>append_index.
     add_tab_from_buffer_at tabs_id append_index title bid)"

definition rename_tab :: "node_id \<Rightarrow> nat \<Rightarrow> rstring \<Rightarrow> unit op" where
  "rename_tab tabs_id index title =
     pbind (reads (\<lambda>s. state_node s tabs_id)) (\<lambda>nd.
     case nd of
       Tabs tb \<Rightarrow>
         if index \<ge> length (tb_tabs tb) then raise (NotFound (TabIndexOutOfRange index tabs_id))
         else put_node tabs_id (Tabs (tb\<lparr>tb_tabs :=
                (tb_tabs tb)[index := (tb_tabs tb ! index)\<lparr>te_title := title\<rparr>]\<rparr>))
     | _ \<Rightarrow> raise (InvalidInput NotTabsContainer))"

definition rename_root_tab :: "session_id \<Rightarrow> nat \<Rightarrow> rstring \<Rightarrow> unit op" where
  "rename_root_tab sid index title =
     pbind (reads (\<lambda>s. root_tabs s sid)) (\<lambda>root. rename_tab root index title)"

definition set_root_tab_synchronize_panes :: "session_id \<Rightarrow> nat \<Rightarrow> bool option \<Rightarrow> bool op" where
  "set_root_tab_synchronize_panes sid index enabled =
     pbind (reads (\<lambda>s. root_tabs s sid)) (\<lambda>root.
     pbind (reads (\<lambda>s. state_node s root)) (\<lambda>nd.
     case nd of
       Tabs tb \<Rightarrow>
         (case vec_get (tb_tabs tb) index of
            None \<Rightarrow> raise (NotFound (TabIndexOutOfSession index sid))
          | Some tab \<Rightarrow>
              let on = (case enabled of Some b \<Rightarrow> b | None \<Rightarrow> \<not> te_synchronize_panes tab) in
              pbind (put_node root (Tabs (tb\<lparr>tb_tabs :=
                       (tb_tabs tb)[index := tab\<lparr>te_synchronize_panes := on\<rparr>]\<rparr>))) (\<lambda>_.
              ret on))
     | _ \<Rightarrow> raise (InvalidInput NotTabsContainer)))"

definition wrap_node_in_tabs :: "node_id \<Rightarrow> rstring \<Rightarrow> node_id op" where
  "wrap_node_in_tabs n title =
     pbind (reads (\<lambda>s. node_session_id s n)) (\<lambda>sid.
     pbind (reads (\<lambda>s. node_parent s n)) (\<lambda>old_parent.
     pbind next_node_id (\<lambda>tabs_id.
     pbind (reads (\<lambda>s. state_node s n)) (\<lambda>nd.
     pbind (put_node tabs_id (Tabs
              \<lparr>tb_id = tabs_id, tb_session_id = sid, tb_parent = old_parent,
               tb_tabs = [tab_entry_new title n], tb_active = 0,
               tb_last_focused_descendant = last_focused_descendant nd\<rparr>)) (\<lambda>_.
     pbind (set_parent n (Some tabs_id)) (\<lambda>_.
     pbind (repoint_owner_reference sid old_parent n tabs_id) (\<lambda>_.
     ret tabs_id)))))))"

definition wrap_node_in_split_with_focus ::
  "node_id \<Rightarrow> split_direction \<Rightarrow> node_id \<Rightarrow> bool \<Rightarrow> bool \<Rightarrow> node_id op" where
  "wrap_node_in_split_with_focus n direction sibling insert_before do_focus =
     pbind (reads (\<lambda>s. node_session_id s n)) (\<lambda>sid.
     pbind (reads (\<lambda>s. ensure_node_belongs_to s sibling sid)) (\<lambda>_.
     if n = sibling then raise (InvalidInput SplitSiblingSame)
     else
       pbind (reads (\<lambda>s. node_parent s sibling)) (\<lambda>sp.
       if sp \<noteq> None then raise (InvalidInput SplitSiblingHasParent)
       else
         pbind (gets (\<lambda>s. is_session_root s sibling)) (\<lambda>sibling_root.
         if sibling_root then raise (Conflict SessionRootAsSplitChild)
         else
           pbind (gets (\<lambda>s. floating_id_by_root s sibling)) (\<lambda>sibling_floating.
           if sibling_floating \<noteq> None then raise (Conflict FloatingRootAsSplitChild)
           else
             pbind (gets (\<lambda>s. is_session_root s n)) (\<lambda>is_root.
             if is_root then raise (Conflict SessionRootInSplit)
             else
               pbind (reads (\<lambda>s. node_parent s n)) (\<lambda>old_parent.
               pbind next_node_id (\<lambda>split_id.
               pbind (reads (\<lambda>s. resolve_focus_candidate s sibling)) (\<lambda>sibling_focus.
               pbind (put_node split_id (Split
                        \<lparr>sp_id = split_id, sp_session_id = sid, sp_parent = old_parent,
                         sp_direction = direction,
                         sp_children = (if insert_before then [sibling, n] else [n, sibling]),
                         sp_sizes = [1, 1], sp_last_focused_descendant = sibling_focus\<rparr>)) (\<lambda>_.
               pbind (set_parent n (Some split_id)) (\<lambda>_.
               pbind (set_parent sibling (Some split_id)) (\<lambda>_.
               pbind (repoint_owner_reference sid old_parent n split_id) (\<lambda>_.
               pbind (if do_focus then focus_candidate_or_heal sid sibling else ret ()) (\<lambda>_.
               ret split_id))))))))))))))"

definition wrap_node_in_split :: "node_id \<Rightarrow> split_direction \<Rightarrow> node_id \<Rightarrow> bool \<Rightarrow> node_id op" where
  "wrap_node_in_split n direction sibling insert_before =
     wrap_node_in_split_with_focus n direction sibling insert_before True"

definition split_leaf_with_new_buffer :: "node_id \<Rightarrow> split_direction \<Rightarrow> buffer_id \<Rightarrow> node_id op" where
  "split_leaf_with_new_buffer leaf direction new_buffer =
     pbind (reads (\<lambda>s. ensure_leaf s leaf)) (\<lambda>_.
     pbind (reads (\<lambda>s. node_session_id s leaf)) (\<lambda>sid.
     pbind (reads (\<lambda>s. node_parent s leaf)) (\<lambda>old_parent.
     pbind (create_buffer_view sid new_buffer) (\<lambda>new_leaf.
     pbind next_node_id (\<lambda>split_id.
     pbind (put_node split_id (Split
              \<lparr>sp_id = split_id, sp_session_id = sid, sp_parent = old_parent, sp_direction = direction,
               sp_children = [leaf, new_leaf], sp_sizes = [1, 1],
               sp_last_focused_descendant = Some new_leaf\<rparr>)) (\<lambda>_.
     pbind (set_parent leaf (Some split_id)) (\<lambda>_.
     pbind (set_parent new_leaf (Some split_id)) (\<lambda>_.
     pbind (repoint_owner_reference sid old_parent leaf split_id) (\<lambda>_.
     pbind (focus_leaf sid new_leaf) (\<lambda>_.
     ret split_id))))))))))"

definition resize_split_children :: "node_id \<Rightarrow> nat list \<Rightarrow> unit op" where
  "resize_split_children split_id sizes =
     pbind (reads (\<lambda>s. state_node s split_id)) (\<lambda>nd.
     case nd of
       Split sp \<Rightarrow>
         if length sizes \<noteq> length (sp_children sp)
         then raise (InvalidInput (SplitSizesMismatch split_id (length (sp_children sp)) (length sizes)))
         else if 0 \<in> set sizes then raise (InvalidInput SplitSizeZero)
         else put_node split_id (Split (sp\<lparr>sp_sizes := sizes\<rparr>))
     | _ \<Rightarrow> raise (InvalidInput NotASplit))"

section \<open>Siblings\<close>

text \<open>\<open>swap\<close> on the sizes panics when they are fewer than the children.\<close>

definition swap_sibling_nodes :: "node_id \<Rightarrow> node_id \<Rightarrow> unit op" where
  "swap_sibling_nodes a b =
     (if a = b then ret ()
      else
        pbind (reads (\<lambda>s. shared_parent s a b)) (\<lambda>parent.
        pbind (reads (\<lambda>s. state_node s parent)) (\<lambda>nd.
        case nd of
          Split sp \<Rightarrow>
            (case child_position a (sp_children sp) of
               None \<Rightarrow> raise (NotFound (NotChildOfSplit a parent))
             | Some i \<Rightarrow>
                 (case child_position b (sp_children sp) of
                    None \<Rightarrow> raise (NotFound (NotChildOfSplit b parent))
                  | Some j \<Rightarrow>
                      if i < length (sp_sizes sp) \<and> j < length (sp_sizes sp)
                      then put_node parent (Split (sp\<lparr>sp_children := vec_swap i j (sp_children sp),
                                                       sp_sizes := vec_swap i j (sp_sizes sp)\<rparr>))
                      else panic))
        | Tabs tb \<Rightarrow>
            (case tab_position a (tb_tabs tb) of
               None \<Rightarrow> raise (NotFound (NotChildOfTabs a parent))
             | Some i \<Rightarrow>
                 (case tab_position b (tb_tabs tb) of
                    None \<Rightarrow> raise (NotFound (NotChildOfTabs b parent))
                  | Some j \<Rightarrow>
                      put_node parent (Tabs (tb\<lparr>tb_tabs := vec_swap i j (tb_tabs tb),
                        tb_active := (if tb_active tb = i then j
                                      else if tb_active tb = j then i else tb_active tb)\<rparr>))))
        | BufferView v \<Rightarrow> raise (InvalidInput ViewsHaveNoSiblings))))"

definition insert_position :: "nat \<Rightarrow> nat \<Rightarrow> bool \<Rightarrow> nat" where
  "insert_position from target in_front =
     (let at = (if from < target then target - 1 else target)
      in if in_front then at else at + 1)"

definition active_after_move :: "nat \<Rightarrow> nat \<Rightarrow> nat \<Rightarrow> nat" where
  "active_after_move active from at =
     (if active = from then at
      else if from < active \<and> at \<ge> active then active - 1
      else if from > active \<and> at \<le> active then active + 1
      else active)"

text \<open>\<open>sizes.remove(from)\<close> panics when there is no size there, \<open>sizes.insert(at)\<close> beyond the end.\<close>

definition reorder_sibling_node :: "node_id \<Rightarrow> node_id \<Rightarrow> bool \<Rightarrow> unit op" where
  "reorder_sibling_node n sibling in_front =
     (if n = sibling then ret ()
      else
        pbind (reads (\<lambda>s. shared_parent s n sibling)) (\<lambda>parent.
        pbind (reads (\<lambda>s. state_node s parent)) (\<lambda>nd.
        case nd of
          Split sp \<Rightarrow>
            (case child_position n (sp_children sp) of
               None \<Rightarrow> raise (NotFound (NotInSplit n parent))
             | Some from \<Rightarrow>
                 (case child_position sibling (sp_children sp) of
                    None \<Rightarrow> raise (NotFound (NotInSplit sibling parent))
                  | Some target \<Rightarrow>
                      let at = insert_position from target in_front in
                      if from < length (sp_sizes sp) \<and> at \<le> length (sp_sizes sp) - 1
                      then put_node parent (Split (sp\<lparr>
                             sp_children := vec_insert at (sp_children sp ! from)
                                              (vec_remove from (sp_children sp)),
                             sp_sizes := vec_insert at (sp_sizes sp ! from)
                                           (vec_remove from (sp_sizes sp))\<rparr>))
                      else panic))
        | Tabs tb \<Rightarrow>
            (case tab_position n (tb_tabs tb) of
               None \<Rightarrow> raise (NotFound (NotInTabs n parent))
             | Some from \<Rightarrow>
                 (case tab_position sibling (tb_tabs tb) of
                    None \<Rightarrow> raise (NotFound (NotInTabs sibling parent))
                  | Some target \<Rightarrow>
                      let at = insert_position from target in_front in
                      put_node parent (Tabs (tb\<lparr>
                        tb_tabs := vec_insert at (tb_tabs tb ! from) (vec_remove from (tb_tabs tb)),
                        tb_active := active_after_move (tb_active tb) from at\<rparr>))))
        | BufferView v \<Rightarrow> raise (InvalidInput ViewsHaveNoSiblings))))"

definition move_node_before :: "node_id \<Rightarrow> node_id \<Rightarrow> unit op" where
  "move_node_before n sibling = reorder_sibling_node n sibling True"

definition move_node_after :: "node_id \<Rightarrow> node_id \<Rightarrow> unit op" where
  "move_node_after n sibling = reorder_sibling_node n sibling False"

definition replace_node :: "node_id \<Rightarrow> node_id \<Rightarrow> unit op" where
  "replace_node n replacement =
     pbind (reads (\<lambda>s. node_session_id s n)) (\<lambda>sid.
     pbind (reads (\<lambda>s. ensure_node_belongs_to s replacement sid)) (\<lambda>_.
     if n = replacement then ret ()
     else
       pbind (gets (\<lambda>s. is_session_root s n)) (\<lambda>is_root.
       if is_root then raise (Conflict SessionRootReplaced)
       else
         pbind (reads (\<lambda>s. node_parent s replacement)) (\<lambda>rp.
         if rp \<noteq> None then raise (InvalidInput ReplacementHasParent)
         else
           pbind (gets (\<lambda>s. is_session_root s replacement)) (\<lambda>rroot.
           if rroot then raise (Conflict SessionRootAsReplacement)
           else
             pbind (gets (\<lambda>s. floating_id_by_root s replacement)) (\<lambda>rfloating.
             if rfloating \<noteq> None then raise (Conflict FloatingRootAsReplacement)
             else
               pbind (replace_node_in_owner n replacement) (\<lambda>_.
               pbind (remove_subtree_nodes n) (\<lambda>_.
               pbind (focus_candidate_or_heal sid replacement) (\<lambda>_.
               normalize_zoomed_node sid)))))))))"

section \<open>Floating windows\<close>

definition create_floating_window_with_options ::
  "session_id \<Rightarrow> node_id \<Rightarrow> float_geometry \<Rightarrow> rstring option \<Rightarrow> bool \<Rightarrow> bool \<Rightarrow> floating_id op" where
  "create_floating_window_with_options sid root geometry title focus close_on_empty =
     pbind (reads (\<lambda>s. ensure_session_exists s sid)) (\<lambda>_.
     pbind (reads (\<lambda>s. ensure_node_belongs_to s root sid)) (\<lambda>_.
     pbind (reads (\<lambda>s. node_parent s root)) (\<lambda>p.
     if p \<noteq> None then raise (InvalidInput FloatingRootHasParent)
     else
       pbind (gets (\<lambda>s. is_session_root s root)) (\<lambda>is_root.
       if is_root then raise (InvalidInput SessionRootAsFloatingRoot)
       else
         pbind (gets (\<lambda>s. floating_id_by_root s root)) (\<lambda>owner.
         if owner \<noteq> None then raise (InvalidInput AlreadyFloatingRoot)
         else
           pbind next_floating_id (\<lambda>fid.
           pbind (modify (\<lambda>s. s\<lparr>floating := bt_insert fid
                    \<lparr>fw_id = fid, fw_session_id = sid, fw_root_node = root, fw_title = title,
                     fw_geometry = geometry, fw_focused = False, fw_visible = True,
                     fw_close_on_empty = close_on_empty, fw_border = True,
                     fw_last_focused_leaf = None\<rparr> (floating s)\<rparr>)) (\<lambda>_.
           pbind (session_mut sid (\<lambda>se. se\<lparr>se_floating := se_floating se @ [fid]\<rparr>)) (\<lambda>_.
           if focus
           then
             match_result (focus_floating fid)
               (\<lambda>_. ret fid)
               (\<lambda>e.
                 pbind (modify (\<lambda>s. s\<lparr>floating := bt_remove fid (floating s),
                          sessions := bt_update sid (\<lambda>se.
                            se\<lparr>se_floating := filter (\<lambda>c. c \<noteq> fid) (se_floating se)\<rparr>) (sessions s)\<rparr>)) (\<lambda>_.
                 raise e))
           else ret fid))))))))"

definition create_floating_window ::
  "session_id \<Rightarrow> node_id \<Rightarrow> float_geometry \<Rightarrow> rstring option \<Rightarrow> floating_id op" where
  "create_floating_window sid root geometry title =
     create_floating_window_with_options sid root geometry title True True"

definition create_floating_from_buffer_with_options ::
  "session_id \<Rightarrow> buffer_id \<Rightarrow> float_geometry \<Rightarrow> rstring option \<Rightarrow> bool \<Rightarrow> bool \<Rightarrow> floating_id op" where
  "create_floating_from_buffer_with_options sid bid geometry title focus close_on_empty =
     pbind (create_buffer_view sid bid) (\<lambda>root.
     or_discard_view root
       (create_floating_window_with_options sid root geometry title focus close_on_empty))"

definition create_floating_from_buffer ::
  "session_id \<Rightarrow> buffer_id \<Rightarrow> float_geometry \<Rightarrow> rstring option \<Rightarrow> floating_id op" where
  "create_floating_from_buffer sid bid geometry title =
     create_floating_from_buffer_with_options sid bid geometry title True True"

definition move_floating :: "floating_id \<Rightarrow> float_geometry \<Rightarrow> unit op" where
  "move_floating fid geometry = floating_mut fid (\<lambda>f. f\<lparr>fw_geometry := geometry\<rparr>)"

definition set_floating_border :: "floating_id \<Rightarrow> bool \<Rightarrow> unit op" where
  "set_floating_border fid border = floating_mut fid (\<lambda>f. f\<lparr>fw_border := border\<rparr>)"

end
