(* ===== verification/Server_Buffers.thy ===== *)
theory Server_Buffers
  imports Server_Layout
begin

text \<open>
  Buffers (\<open>crates/embers-server/src/state.rs\<close>): creation, removal, the life cycle of a buffer's
  process, sizes and titles, moving a buffer between views, and the cleanup of exited buffers.
\<close>

section \<open>Creation and removal\<close>

definition put_buffer :: "buffer_id \<Rightarrow> buffer \<Rightarrow> unit op" where
  "put_buffer bid b = modify (\<lambda>s. s\<lparr>buffers := bt_insert bid b (buffers s)\<rparr>)"

definition create_buffer_with_env ::
  "rstring \<Rightarrow> rstring list \<Rightarrow> rstring option \<Rightarrow> string_map \<Rightarrow> timestamp \<Rightarrow> buffer_id op" where
  "create_buffer_with_env title command cwd env now =
     pbind next_buffer_id (\<lambda>bid.
     pbind (put_buffer bid (buffer_new bid title command cwd env now)) (\<lambda>_.
     ret bid))"

definition create_buffer ::
  "rstring \<Rightarrow> rstring list \<Rightarrow> rstring option \<Rightarrow> timestamp \<Rightarrow> buffer_id op" where
  "create_buffer title command cwd now = create_buffer_with_env title command cwd bt_empty now"

definition create_helper_buffer ::
  "rstring \<Rightarrow> buffer_id \<Rightarrow> helper_buffer_scope \<Rightarrow> rstring option \<Rightarrow> rstring list \<Rightarrow> timestamp \<Rightarrow> buffer_id op"
  where
  "create_helper_buffer title source scope cwd lines now =
     pbind (reads (\<lambda>s. state_buffer s source)) (\<lambda>src.
     pbind next_buffer_id (\<lambda>bid.
     pbind (put_buffer bid ((buffer_new bid title [] cwd bt_empty now)
              \<lparr>bu_pty_size := bu_pty_size src, bu_last_snapshot_seq := 1,
               bu_kind := Helper \<lparr>hb_source_buffer_id = source, hb_scope = scope, hb_lines = lines\<rparr>\<rparr>)) (\<lambda>_.
     ret bid)))"

definition remove_buffer :: "buffer_id \<Rightarrow> buffer op" where
  "remove_buffer bid =
     pbind (reads (\<lambda>s. state_buffer s bid)) (\<lambda>b.
     if bu_attachment b \<noteq> Detached then raise (Conflict (BufferMustBeDetached bid))
     else
       pbind (reads (\<lambda>s. state_buffer s bid)) (\<lambda>removed.
       pbind (modify (\<lambda>s. s\<lparr>buffers := bt_remove bid (buffers s)\<rparr>)) (\<lambda>_.
       ret removed)))"

section \<open>Life cycle\<close>

fun is_exited :: "buffer_state \<Rightarrow> bool" where
  "is_exited (Exited _ _) = True"
| "is_exited _ = False"

fun is_helper :: "buffer_kind \<Rightarrow> bool" where
  "is_helper (Helper _) = True"
| "is_helper Pty = False"

definition mark_buffer_running :: "buffer_id \<Rightarrow> nat option \<Rightarrow> unit op" where
  "mark_buffer_running bid pid =
     pbind (reads (\<lambda>s. state_buffer s bid)) (\<lambda>b.
     if is_exited (bu_state b) then raise (Conflict (BufferAlreadyExited bid))
     else buffer_mut bid (\<lambda>b. b\<lparr>bu_state := Running pid\<rparr>))"

definition set_buffer_placement :: "buffer_id \<Rightarrow> placement \<Rightarrow> unit op" where
  "set_buffer_placement bid p = buffer_mut bid (set_placement p)"

definition mark_buffer_interrupted :: "buffer_id \<Rightarrow> nat option \<Rightarrow> unit op" where
  "mark_buffer_interrupted bid pid =
     pbind (reads (\<lambda>s. state_buffer s bid)) (\<lambda>b.
     if is_exited (bu_state b) then ret ()
     else buffer_mut bid (\<lambda>b. b\<lparr>bu_state := Interrupted pid\<rparr>))"

definition mark_buffer_exited :: "buffer_id \<Rightarrow> int option \<Rightarrow> timestamp \<Rightarrow> unit op" where
  "mark_buffer_exited bid exit_code now = buffer_mut bid (\<lambda>b. b\<lparr>bu_state := Exited exit_code now\<rparr>)"

fun interrupted_state :: "buffer_state \<Rightarrow> buffer_state" where
  "interrupted_state (Exited code at) = Exited code at"
| "interrupted_state (Running pid) = Interrupted pid"
| "interrupted_state (Interrupted pid) = Interrupted pid"
| "interrupted_state Created = Interrupted None"

definition interrupt_unrecoverable_buffers :: "server_state \<Rightarrow> server_state" where
  "interrupt_unrecoverable_buffers s =
     s\<lparr>buffers := bt_map_values (\<lambda>b. b\<lparr>bu_state := interrupted_state (bu_state b)\<rparr>) (buffers s)\<rparr>"

definition set_buffer_size :: "buffer_id \<Rightarrow> pty_size \<Rightarrow> unit op" where
  "set_buffer_size bid sz = buffer_mut bid (\<lambda>b. b\<lparr>bu_pty_size := sz\<rparr>)"

definition sync_buffer_view_size :: "buffer_id \<Rightarrow> session_id option op" where
  "sync_buffer_view_size bid =
     pbind (reads (\<lambda>s. state_buffer s bid)) (\<lambda>b.
     case bu_attachment b of
       Detached \<Rightarrow> ret None
     | Attached n \<Rightarrow>
         pbind (reads (\<lambda>s. state_node s n)) (\<lambda>nd.
         case nd of
           BufferView v \<Rightarrow>
             if vs_last_render_size (bv_view v) \<noteq> bu_pty_size b
             then
               pbind (put_node n (BufferView (v\<lparr>bv_view :=
                        (bv_view v)\<lparr>vs_last_render_size := bu_pty_size b\<rparr>\<rparr>))) (\<lambda>_.
               ret (Some (bv_session_id v)))
             else ret None
         | _ \<Rightarrow> ret None))"

definition note_buffer_output :: "buffer_id \<Rightarrow> nat op" where
  "note_buffer_output bid =
     pbind (reads (\<lambda>s. state_buffer s bid)) (\<lambda>b.
     let seq = sat_add u64_max (bu_last_snapshot_seq b) 1 in
     pbind (put_buffer bid (b\<lparr>bu_last_snapshot_seq := seq, bu_activity := Activity\<rparr>)) (\<lambda>_.
     ret seq))"

definition set_buffer_title :: "buffer_id \<Rightarrow> rstring \<Rightarrow> unit op" where
  "set_buffer_title bid title = buffer_mut bid (\<lambda>b. b\<lparr>bu_title := title\<rparr>)"

section \<open>Moving and detaching\<close>

definition detach_buffer :: "buffer_id \<Rightarrow> unit op" where
  "detach_buffer bid =
     pbind (reads (\<lambda>s. state_buffer s bid)) (\<lambda>b.
     case bu_attachment b of Attached n \<Rightarrow> close_node n | Detached \<Rightarrow> ret ())"

definition move_buffer_to_leaf :: "buffer_id \<Rightarrow> node_id \<Rightarrow> unit op" where
  "move_buffer_to_leaf bid target =
     pbind (reads (\<lambda>s. ensure_leaf s target)) (\<lambda>_.
     pbind (reads (\<lambda>s. node_session_id s target)) (\<lambda>target_session.
     pbind (reads (\<lambda>s. state_buffer s bid)) (\<lambda>b.
     case bu_attachment b of
       Attached source_view \<Rightarrow>
         if source_view = target then focus_leaf target_session target
         else
           pbind (reads (\<lambda>s. node_session_id s source_view)) (\<lambda>source_session.
           if source_session \<noteq> target_session then raise (Conflict MoveAcrossSessions)
           else
             pbind (close_node source_view) (\<lambda>_.
             pbind (attach_buffer bid target) (\<lambda>_.
             focus_leaf target_session target)))
     | Detached \<Rightarrow>
         pbind (attach_buffer bid target) (\<lambda>_.
         focus_leaf target_session target))))"

section \<open>Cleanup of exited buffers\<close>

record disposed_buffers =
  removed_buffers :: "buffer_id list"
  changed_sessions :: "(session_id, unit) btree_map"

definition disposed_none :: disposed_buffers where
  "disposed_none = \<lparr>removed_buffers = [], changed_sessions = bt_empty\<rparr>"

definition disposed_is_empty :: "disposed_buffers \<Rightarrow> bool" where
  "disposed_is_empty d \<longleftrightarrow> removed_buffers d = [] \<and> bt_entries (changed_sessions d) = []"

definition dispose_record :: "buffer_id \<Rightarrow> disposed_buffers \<Rightarrow> disposed_buffers op" where
  "dispose_record bid d =
     match_result (remove_buffer bid)
       (\<lambda>_. ret (d\<lparr>removed_buffers := removed_buffers d @ [bid]\<rparr>))
       (\<lambda>_. ret d)"

definition closed_helpers :: "server_state \<Rightarrow> buffer_id list" where
  "closed_helpers s =
     map bu_id (filter (\<lambda>b. is_helper (bu_kind b) \<and> bu_attachment b = Detached) (bt_values (buffers s)))"

definition exited_buffers :: "server_state \<Rightarrow> (buffer_id \<times> buffer_attachment \<times> bool \<times> bool) list" where
  "exited_buffers s =
     map (\<lambda>b. (bu_id b, bu_attachment b, bu_ever_attached b \<and> \<not> bu_watched b,
               remains_on_exit b (default_remain_on_exit s)))
       (filter (\<lambda>b. bu_kind b = Pty \<and> is_exited (bu_state b)) (bt_values (buffers s)))"

definition dispose_exited ::
  "buffer_id \<times> buffer_attachment \<times> bool \<times> bool \<Rightarrow> disposed_buffers \<Rightarrow> disposed_buffers op" where
  "dispose_exited e d =
     (case e of (bid, attachment, done_with, remains) \<Rightarrow>
        (case attachment of
           Attached view \<Rightarrow>
             if remains then ret d
             else
               match_result (reads (\<lambda>s. node_session_id s view))
                 (\<lambda>sid.
                   match_result (close_node view)
                     (\<lambda>_. dispose_record bid
                            (d\<lparr>changed_sessions := bt_insert sid () (changed_sessions d)\<rparr>))
                     (\<lambda>_. ret d))
                 (\<lambda>_. ret d)
         | Detached \<Rightarrow> if \<not> done_with then ret d else dispose_record bid d))"

definition dispose_exited_buffers :: "disposed_buffers op" where
  "dispose_exited_buffers =
     pbind (gets closed_helpers) (\<lambda>helpers.
     pbind (fold_proc dispose_record helpers disposed_none) (\<lambda>d.
     pbind (gets exited_buffers) (\<lambda>exited.
     fold_proc dispose_exited exited d)))"

end
