(* ===== verification/Server_Restructure.thy ===== *)
theory Server_Restructure
  imports Server_Buffers
begin

text \<open>
  Breaking a pane out of its container and joining a buffer at a node
  (\<open>crates/embers-server/src/state.rs\<close>), with the snapshots the source takes to roll back.
\<close>

section \<open>Owner snapshots\<close>

datatype parent_slot_snapshot =
    SplitSlot nat nat "node_id option"
  | TabsSlot nat tab_entry nat "node_id option"

datatype node_owner_snapshot =
    ParentOwner node_id parent_slot_snapshot
  | FloatingOwner floating_window nat "floating_id option"

definition capture_node_owner_snapshot :: "server_state \<Rightarrow> node_id \<Rightarrow> node_owner_snapshot res" where
  "capture_node_owner_snapshot s n =
     rbind (node_parent s n) (\<lambda>p.
     case p of
       Some parent \<Rightarrow>
         rbind (state_node s parent) (\<lambda>nd.
         rbind (case nd of
                  Split sp \<Rightarrow>
                    rbind (ok_or (NotFound (NotChildOfParent n parent)) (child_position n (sp_children sp)))
                      (\<lambda>index. Ok (SplitSlot index
                         (case vec_get (sp_sizes sp) index of Some z \<Rightarrow> z | None \<Rightarrow> 1)
                         (sp_last_focused_descendant sp)))
                | Tabs tb \<Rightarrow>
                    rbind (ok_or (NotFound (NotChildOfParent n parent)) (tab_position n (tb_tabs tb)))
                      (\<lambda>index. Ok (TabsSlot index (tb_tabs tb ! index) (tb_active tb)
                         (tb_last_focused_descendant tb)))
                | BufferView v \<Rightarrow> Err (InvalidInput ViewsDoNotOwnChildren)) (\<lambda>slot.
         Ok (ParentOwner parent slot)))
     | None \<Rightarrow>
         (case floating_id_by_root s n of
            Some fid \<Rightarrow>
              rbind (state_floating s fid) (\<lambda>window.
              rbind (state_session s (fw_session_id window)) (\<lambda>se.
              rbind (ok_or (NotFound (FloatingNotRegistered fid (fw_session_id window)))
                       (position (\<lambda>c. c = fid) (se_floating se))) (\<lambda>index.
              Ok (FloatingOwner window index (se_focused_floating se)))))
          | None \<Rightarrow> Err (InvalidInput (NoOwningContainer n))))"

definition detach_node_from_owner :: "node_id \<Rightarrow> (node_id option \<times> floating_id option) op" where
  "detach_node_from_owner n =
     pbind (gets (\<lambda>s. is_session_root s n)) (\<lambda>is_root.
     if is_root then raise (Conflict SessionRootBroken)
     else
       pbind (reads (\<lambda>s. node_parent s n)) (\<lambda>p.
       case p of
         Some parent \<Rightarrow> pbind (remove_child parent n) (\<lambda>_. ret (Some parent, None))
       | None \<Rightarrow>
           pbind (gets (\<lambda>s. floating_id_by_root s n)) (\<lambda>fid.
           case fid of
             Some fid \<Rightarrow> pbind (remove_floating_window fid) (\<lambda>_. ret (None, Some fid))
           | None \<Rightarrow> raise (InvalidInput (NoOwningContainer n)))))"

definition restore_node_owner :: "node_id \<Rightarrow> node_owner_snapshot \<Rightarrow> unit op" where
  "restore_node_owner n owner =
     (case owner of
        ParentOwner parent slot \<Rightarrow>
          pbind (reads (\<lambda>s. state_node s parent)) (\<lambda>nd.
          pbind (case slot of
                   SplitSlot index z lfd \<Rightarrow>
                     (case nd of
                        Split sp \<Rightarrow>
                          let at = min index (length (sp_children sp)) in
                          put_node parent (Split (sp\<lparr>sp_children := vec_insert at n (sp_children sp),
                            sp_sizes := vec_insert (min at (length (sp_sizes sp))) z (sp_sizes sp),
                            sp_last_focused_descendant := lfd\<rparr>))
                      | _ \<Rightarrow> raise (InvalidInput NotASplit))
                 | TabsSlot index tab active lfd \<Rightarrow>
                     (case nd of
                        Tabs tb \<Rightarrow>
                          let tabs = vec_insert (min index (length (tb_tabs tb))) tab (tb_tabs tb) in
                          put_node parent (Tabs (tb\<lparr>tb_tabs := tabs,
                            tb_active := min active (length tabs - 1),
                            tb_last_focused_descendant := lfd\<rparr>))
                      | _ \<Rightarrow> raise (InvalidInput NotTabsContainer))) (\<lambda>_.
          set_parent n (Some parent)))
      | FloatingOwner window index focused \<Rightarrow>
          pbind (modify (\<lambda>s. s\<lparr>floating := bt_insert (fw_id window) window (floating s)\<rparr>)) (\<lambda>_.
          pbind (session_mut (fw_session_id window) (\<lambda>se.
                   se\<lparr>se_floating := vec_insert (min index (length (se_floating se))) (fw_id window)
                                      (se_floating se),
                      se_focused_floating := focused\<rparr>)) (\<lambda>_.
          set_parent n None)))"

definition rollback_detached_node :: "node_id \<Rightarrow> node_owner_snapshot \<Rightarrow> unit op" where
  "rollback_detached_node n owner =
     pbind (reads (\<lambda>s. node_parent s n)) (\<lambda>p.
     pbind (gets (\<lambda>s. floating_id_by_root s n)) (\<lambda>fid.
     pbind (if p \<noteq> None \<or> fid \<noteq> None
            then pbind (detach_node_from_owner n) (\<lambda>_. ret ()) else ret ()) (\<lambda>_.
     restore_node_owner n owner)))"

section \<open>Breaking a node out\<close>

text \<open>
  The middle of \<open>break_node\<close>. Errors of the reads (\<open>?\<close>) leave the method; errors of the two calls in
  \<open>result\<close> are rolled back. \<open>place_broken_node\<close> returns the placing call, still to be run.
\<close>

definition place_broken_node ::
  "node_id \<Rightarrow> bool \<Rightarrow> session_id \<Rightarrow> rstring \<Rightarrow> bool \<Rightarrow> node_id option \<Rightarrow> (unit op) op" where
  "place_broken_node n to_floating sid title do_focus old_parent =
     (if to_floating
      then
        pbind (reads (\<lambda>s. default_floating_geometry s sid)) (\<lambda>geometry.
        ret (pbind (create_floating_window_with_options sid n geometry (Some title) True True) (\<lambda>_. ret ())))
      else
        pbind (reads (\<lambda>s. rbind (nearest_tabs_ancestor s old_parent) (\<lambda>t.
                 case t of Some tabs_id \<Rightarrow> Ok tabs_id | None \<Rightarrow> root_tabs s sid))) (\<lambda>tabs_id.
        pbind (reads (\<lambda>s. tabs_len s tabs_id)) (\<lambda>insert_index.
        ret (pbind (add_tab_sibling_at_with_focus tabs_id insert_index title n do_focus) (\<lambda>_. ret ())))))"

definition break_out :: "node_id \<Rightarrow> bool \<Rightarrow> unit op" where
  "break_out n to_floating =
     pbind (reads (\<lambda>s. node_session_id s n)) (\<lambda>sid.
     pbind (reads (\<lambda>s. default_tab_title s n)) (\<lambda>title.
     pbind (reads (\<lambda>s. is_node_visible_in_session s sid n)) (\<lambda>do_focus.
     pbind (reads (\<lambda>s. capture_node_owner_snapshot s n)) (\<lambda>owner_snapshot.
     pbind (detach_node_from_owner n) (\<lambda>(old_parent, _).
     pbind (place_broken_node n to_floating sid title do_focus old_parent) (\<lambda>place.
     pbind (match_result place ret (\<lambda>e.
              match_result (rollback_detached_node n owner_snapshot)
                (\<lambda>_. raise e)
                (\<lambda>r. raise (Internal (BreakRollbackFailed n e r))))) (\<lambda>_.
     pbind (case old_parent of Some parent \<Rightarrow> normalize_upwards parent | None \<Rightarrow> ret ()) (\<lambda>_.
     normalize_zoomed_node sid))))))))"

definition break_node :: "node_id \<Rightarrow> bool \<Rightarrow> unit op" where
  "break_node n to_floating =
     pbind (reads (\<lambda>s. node_parent s n)) (\<lambda>p.
     pbind (gets (\<lambda>s. floating_id_by_root s n)) (\<lambda>fid.
     if to_floating \<and> p = None \<and> fid \<noteq> None then ret ()
     else
       pbind (reads (\<lambda>s.
         if to_floating then Ok False
         else (case p of
                 Some parent \<Rightarrow> rbind (state_node s parent) (\<lambda>pd. Ok (is_tabs pd))
               | None \<Rightarrow> Ok False))) (\<lambda>in_tabs.
       if in_tabs then ret () else break_out n to_floating)))"

section \<open>Joining a buffer\<close>

datatype node_join_placement = JoinLeft | JoinRight | JoinUp | JoinDown | TabBefore | TabAfter

definition join_source_view ::
  "server_state \<Rightarrow> node_id \<Rightarrow> buffer_id \<Rightarrow> session_id \<Rightarrow> node_id option res" where
  "join_source_view s n bid target_session =
     rbind (state_buffer s bid) (\<lambda>b.
     case bu_attachment b of
       Detached \<Rightarrow> Ok None
     | Attached source_view \<Rightarrow>
         rbind (node_session_id s source_view) (\<lambda>source_session.
         if source_session \<noteq> target_session
         then Err (Conflict (JoinAcrossSessions bid source_session target_session))
         else
           rbind (if source_view = n then Ok True else node_is_descendant_of s source_view n) (\<lambda>inside.
           if inside then Err (Conflict (AlreadyContained bid n source_view))
           else Ok (Some source_view))))"

text \<open>The tabs node a joined tab goes to: the node, its parent, or a new wrapper around the node.\<close>

definition join_tabs_target :: "node_id \<Rightarrow> (node_id \<times> node_id option) op" where
  "join_tabs_target n =
     pbind (reads (\<lambda>s. state_node s n)) (\<lambda>nd.
     if is_tabs nd then ret (n, None)
     else
       pbind (reads (\<lambda>s. rbind (node_parent s n) (\<lambda>p.
                case p of
                  None \<Rightarrow> Ok None
                | Some parent \<Rightarrow>
                    rbind (state_node s parent) (\<lambda>pd. Ok (if is_tabs pd then Some parent else None)))))
         (\<lambda>parent_tabs.
       case parent_tabs of
         Some parent \<Rightarrow> ret (parent, None)
       | None \<Rightarrow>
           pbind (reads (\<lambda>s. default_tab_title s n)) (\<lambda>title.
           pbind (wrap_node_in_tabs n title) (\<lambda>tabs_id.
           ret (tabs_id, Some tabs_id)))))"

definition join_insert_index :: "server_state \<Rightarrow> node_id \<Rightarrow> node_id \<Rightarrow> bool \<Rightarrow> nat res" where
  "join_insert_index s n tabs_id in_front =
     rbind (state_node s tabs_id) (\<lambda>nd.
     case nd of
       Tabs tb \<Rightarrow>
         let len = length (tb_tabs tb) in
         if tabs_id = n
         then let active = min (tb_active tb) len in Ok (if in_front then active else min (active + 1) len)
         else
           rbind (ok_or (NotFound (NotChildOfTabs n tabs_id)) (tab_position n (tb_tabs tb))) (\<lambda>current.
           Ok (if in_front then current else min (current + 1) len))
     | _ \<Rightarrow> Err (InvalidInput NotTabsContainer))"

text \<open>As in \<open>place_broken_node\<close>: the call whose error is rolled back, with the wrapper it made.\<close>

definition place_joined_view ::
  "node_id \<Rightarrow> buffer_id \<Rightarrow> node_join_placement \<Rightarrow> node_id \<Rightarrow> bool \<Rightarrow> (unit op \<times> node_id option) op" where
  "place_joined_view n bid placement new_view do_focus =
     (let split = (\<lambda>direction in_front.
            ret (pbind (wrap_node_in_split_with_focus n direction new_view in_front do_focus)
                   (\<lambda>_. ret ()), None));
          tab = (\<lambda>in_front.
            pbind (reads (\<lambda>s. state_buffer s bid)) (\<lambda>b.
            pbind (join_tabs_target n) (\<lambda>(tabs_id, wrapper).
            pbind (reads (\<lambda>s. join_insert_index s n tabs_id in_front)) (\<lambda>insert_index.
            ret (pbind (add_tab_sibling_at_with_focus tabs_id insert_index (bu_title b) new_view do_focus)
                   (\<lambda>_. ret ()), wrapper)))))
      in case placement of
           JoinLeft \<Rightarrow> split Vertical True
         | JoinRight \<Rightarrow> split Vertical False
         | JoinUp \<Rightarrow> split Horizontal True
         | JoinDown \<Rightarrow> split Horizontal False
         | TabBefore \<Rightarrow> tab True
         | TabAfter \<Rightarrow> tab False)"

definition undo_join :: "node_id \<Rightarrow> node_id option \<Rightarrow> unit op" where
  "undo_join new_view wrapper =
     pbind (discard_buffer_view new_view) (\<lambda>_.
     case wrapper of
       None \<Rightarrow> ret ()
     | Some tabs_id \<Rightarrow>
         pbind (gets (\<lambda>s. bt_contains (nodes s) tabs_id)) (\<lambda>present.
         if present then match_result (normalize_upwards tabs_id) (\<lambda>_. ret ()) (\<lambda>_. ret ())
         else ret ()))"

definition close_join_source :: "buffer_id \<Rightarrow> node_id \<Rightarrow> node_id \<Rightarrow> unit op" where
  "close_join_source bid source_view new_view =
     match_result (close_node source_view)
       (\<lambda>_. set_buffer_attached bid new_view)
       (\<lambda>e. match_result (close_node new_view)
              (\<lambda>_. raise e)
              (\<lambda>r. raise (Internal (JoinRollbackFailed source_view bid e new_view r))))"

definition join_buffer_at_node :: "node_id \<Rightarrow> buffer_id \<Rightarrow> node_join_placement \<Rightarrow> unit op" where
  "join_buffer_at_node n bid placement =
     pbind (reads (\<lambda>s. node_session_id s n)) (\<lambda>target_session.
     pbind (reads (\<lambda>s. is_node_visible_in_session s target_session n)) (\<lambda>do_focus.
     pbind (reads (\<lambda>s. join_source_view s n bid target_session)) (\<lambda>source_view.
     pbind (if source_view \<noteq> None then create_unattached_buffer_view target_session bid
            else create_buffer_view target_session bid) (\<lambda>new_view.
     pbind (place_joined_view n bid placement new_view do_focus) (\<lambda>(place, wrapper).
     pbind (match_result place ret (\<lambda>e. pbind (undo_join new_view wrapper) (\<lambda>_. raise e))) (\<lambda>_.
     pbind (case source_view of
              None \<Rightarrow> ret ()
            | Some view \<Rightarrow> close_join_source bid view new_view) (\<lambda>_.
     normalize_zoomed_node target_session)))))))"

end
