(* ===== verification/Server_Validate.thy ===== *)
theory Server_Validate
  imports Server_Restructure
begin

text \<open>
  \<open>ServerState::validate\<close> (\<open>crates/embers-server/src/state.rs\<close>): the consistency check a loaded
  workspace has to pass. It walks every session's layout and its floating windows with one set of
  the nodes seen so far.
\<close>

section \<open>One subtree\<close>

definition check_node ::
  "session_id \<Rightarrow> node_id \<Rightarrow> node_id option \<Rightarrow> node_set \<Rightarrow> node \<Rightarrow> node_set res" where
  "check_node sid n expected_parent seen nd =
     (if node_session nd \<noteq> sid then Err (Invalid (NodeMustBelong n sid))
      else if node_par nd \<noteq> expected_parent
      then Err (Invalid (ParentMismatch n (node_par nd) expected_parent))
      else if bt_contains seen n then Err (Invalid (MultipleOwners n))
      else Ok (bt_insert n () seen))"

fun check_shape :: "node_id \<Rightarrow> node \<Rightarrow> unit res" where
  "check_shape n (BufferView v) = Ok ()"
| "check_shape n (Split sp) =
     (if length (sp_children sp) < 2 then Err (Invalid (SplitTooSmall n))
      else if length (sp_sizes sp) \<noteq> length (sp_children sp)
      then Err (Invalid (SplitWeightMismatch n))
      else Ok ())"
| "check_shape n (Tabs tb) =
     (if tb_tabs tb = []
      then if tb_active tb \<noteq> 0 then Err (Invalid (EmptyTabsActive n)) else Ok ()
      else if tb_active tb \<ge> length (tb_tabs tb) then Err (Invalid (TabsActiveOutOfRange n))
      else Ok ())"

primrec validate_subtree_from ::
  "nat \<Rightarrow> server_state \<Rightarrow> session_id \<Rightarrow> node_id option \<Rightarrow> node_id \<Rightarrow> node_set \<Rightarrow> node_set res" where
  "validate_subtree_from 0 s sid expected_parent n seen = Diverge"
| "validate_subtree_from (Suc k) s sid expected_parent n seen =
     rbind (state_node s n) (\<lambda>nd.
     rbind (check_node sid n expected_parent seen nd) (\<lambda>seen.
     rbind (check_shape n nd) (\<lambda>_.
     fold_ok (validate_subtree_from k s sid (Some n)) (child_ids nd) seen)))"

definition validate_subtree ::
  "server_state \<Rightarrow> session_id \<Rightarrow> node_id \<Rightarrow> node_id option \<Rightarrow> node_set \<Rightarrow> node_set res" where
  "validate_subtree s sid n expected_parent seen =
     validate_subtree_from (Suc (fuel s)) s sid expected_parent n seen"

section \<open>One session\<close>

definition validate_floating :: "server_state \<Rightarrow> session \<Rightarrow> floating_id \<Rightarrow> node_set \<Rightarrow> node_set res" where
  "validate_floating s se fid seen =
     rbind (state_floating s fid) (\<lambda>f.
     if fw_session_id f \<noteq> se_id se then Err (Invalid (FloatingWrongSession fid))
     else if fw_root_node f = se_root_node se then Err (Invalid (FloatingReusesRoot fid))
     else
       rbind (node_parent s (fw_root_node f)) (\<lambda>p.
       if p \<noteq> None then Err (Invalid (FloatingRootParent fid (fw_root_node f)))
       else validate_subtree s (se_id se) (fw_root_node f) None seen))"

definition validate_focus :: "server_state \<Rightarrow> session \<Rightarrow> unit res" where
  "validate_focus s se =
     (case se_focused_leaf se of
        None \<Rightarrow> Ok ()
      | Some leaf \<Rightarrow>
          rbind (state_node s leaf) (\<lambda>nd.
          if \<not> is_buffer_view nd then Err (Invalid (FocusedNotView leaf))
          else
            rbind (is_node_visible_in_session s (se_id se) leaf) (\<lambda>v.
            if v then Ok () else Err (Invalid (FocusedNotVisible leaf (se_id se))))))"

definition validate_zoom :: "server_state \<Rightarrow> session \<Rightarrow> unit res" where
  "validate_zoom s se =
     (case se_zoomed_node se of
        None \<Rightarrow> Ok ()
      | Some n \<Rightarrow>
          if \<not> bt_contains (nodes s) n then Err (Invalid (ZoomedMissing n (se_id se)))
          else
            rbind (state_node s n) (\<lambda>nd.
            if node_session nd \<noteq> se_id se then Err (Invalid (ZoomedWrongSession n))
            else
              rbind (is_node_visible_in_session s (se_id se) n) (\<lambda>v.
              if v then Ok () else Err (Invalid (ZoomedNotVisible n (se_id se))))))"

definition validate_session :: "server_state \<Rightarrow> session \<Rightarrow> node_set \<Rightarrow> node_set res" where
  "validate_session s se seen =
     rbind (state_node s (se_root_node se)) (\<lambda>root.
     if node_par root \<noteq> None then Err (Invalid (RootHasParent (se_id se) (se_root_node se)))
     else if \<not> is_tabs root then Err (Invalid (RootMustBeTabs (se_id se) (se_root_node se)))
     else
       rbind (validate_subtree s (se_id se) (se_root_node se) None seen) (\<lambda>seen.
       rbind (fold_ok (validate_floating s se) (se_floating se) seen) (\<lambda>seen.
       rbind (validate_focus s se) (\<lambda>_.
       rbind (validate_zoom s se) (\<lambda>_.
       Ok seen)))))"

section \<open>The state\<close>

definition is_detached_empty_tabs_node :: "server_state \<Rightarrow> node_id \<Rightarrow> bool" where
  "is_detached_empty_tabs_node s n =
     (case bt_get (nodes s) n of
        Some (Tabs tb) \<Rightarrow>
          tb_parent tb = None \<and> tb_tabs tb = [] \<and> floating_id_by_root s n = None \<and>
          \<not> list_ex (\<lambda>se. se_root_node se = n) (bt_values (sessions s))
      | _ \<Rightarrow> False)"

definition validate_orphans :: "server_state \<Rightarrow> node_set \<Rightarrow> unit res" where
  "validate_orphans s seen =
     (case find (\<lambda>n. \<not> bt_contains seen n \<and> \<not> is_detached_empty_tabs_node s n) (bt_keys (nodes s)) of
        Some _ \<Rightarrow> Err (Invalid (OrphanedNodes (bt_len seen) (bt_len (nodes s))))
      | None \<Rightarrow> Ok ())"

definition validate_attachment :: "server_state \<Rightarrow> buffer_id \<times> buffer \<Rightarrow> unit res" where
  "validate_attachment s e =
     (case e of (bid, b) \<Rightarrow>
        (case bu_attachment b of
           Detached \<Rightarrow> Ok ()
         | Attached n \<Rightarrow>
             rbind (state_node s n) (\<lambda>nd.
             case nd of
               BufferView v \<Rightarrow>
                 if bv_buffer_id v = bid then Ok () else Err (Invalid (AttachmentMismatch bid n))
             | _ \<Rightarrow> Err (Invalid (AttachmentMismatch bid n)))))"

definition validate_view :: "server_state \<Rightarrow> node \<Rightarrow> unit res" where
  "validate_view s nd =
     (case nd of
        BufferView v \<Rightarrow>
          rbind (state_buffer s (bv_buffer_id v)) (\<lambda>b.
          if bu_attachment b = Attached (bv_id v) then Ok ()
          else Err (Invalid (ViewOfDetachedBuffer (bv_id v) (bv_buffer_id v))))
      | _ \<Rightarrow> Ok ())"

definition validate :: "server_state \<Rightarrow> unit res" where
  "validate s =
     rbind (fold_ok (validate_session s) (bt_values (sessions s)) bt_empty) (\<lambda>seen.
     rbind (validate_orphans s seen) (\<lambda>_.
     rbind (all_ok (validate_attachment s) (bt_entries (buffers s))) (\<lambda>_.
     all_ok (validate_view s) (bt_values (nodes s)))))"

end
