(* ===== verification/Server_Eval.thy ===== *)
theory Server_Eval
  imports Server_Validate
begin

text \<open>
  Evaluation of concrete runs of the server model by rewriting. Maps are kept as explicit lists of
  entries (\<open>bt_of_list\<close>) and a bind is rewritten only when the state it runs on is known: the
  congruence rules \<open>run_congs\<close> keep the simplifier out of continuations and loop bodies.
\<close>

section \<open>Explicit maps\<close>

definition bt_of_list :: "('k::linorder \<times> 'v) list \<Rightarrow> ('k, 'v) btree_map" where
  "bt_of_list es = foldr (\<lambda>(k, v). bt_insert k v) es bt_empty"

lemma bt_get_of_list: "bt_get (bt_of_list es) k = map_of es k"
  by (induction es) (auto simp: bt_of_list_def)

lemma bt_entries_of_list: "sorted_wrt (<) (map fst es) \<Longrightarrow> bt_entries (bt_of_list es) = es"
proof (induction es)
  case Nil
  then show ?case by (simp add: bt_of_list_def)
next
  case (Cons e es)
  obtain k v where e: "e = (k, v)" by (cases e)
  have "bt_entries (bt_of_list es) = es" using Cons by simp
  then have "bt_entries (bt_of_list (e # es)) = insert_entry k v es"
    by (simp add: e bt_of_list_def bt_entries_insert)
  then show ?case using Cons.prems e by (cases es) auto
qed

lemma bt_of_list_ops:
  "bt_empty = bt_of_list []"
  "bt_insert k v (bt_of_list es) = bt_of_list (insert_entry k v es)"
  "bt_remove k (bt_of_list es) = bt_of_list (remove_entry k es)"
  "bt_filter_keys p (bt_of_list es) = bt_of_list (filter (\<lambda>e. p (fst e)) es)"
  "bt_map_values h (bt_of_list es) = bt_of_list (map (\<lambda>(k, v). (k, h v)) es)"
  by (rule bt.map_ext, simp add: bt_get_of_list map_of_insert_entry map_of_remove_entry
        map_of_filter_keys map_of_map_values)+

lemma bt_len_of_list: "sorted_wrt (<) (map fst es) \<Longrightarrow> bt_len (bt_of_list es) = length es"
  by (simp add: bt_len_def bt_entries_of_list)

lemmas map_run =
  bt_of_list_ops bt_get_of_list bt_entries_of_list bt_len_of_list remove_entry_def bt_update_def
  bt_keys_def bt_values_def

section \<open>Strict binds\<close>

text \<open>A bind whose first procedure has run: the pair it produced and the continuation.\<close>

primrec resume ::
  "('e, 'a) outcome \<times> 's \<Rightarrow> ('a \<Rightarrow> ('s, 'e, 'b) proc) \<Rightarrow> ('e, 'b) outcome \<times> 's" where
  "resume (r, t) f =
     (case r of Ok x \<Rightarrow> f x t | Err e \<Rightarrow> (Err e, t) | Panic \<Rightarrow> (Panic, t) | Diverge \<Rightarrow> (Diverge, t))"

primrec resume_match ::
  "('e, 'a) outcome \<times> 's \<Rightarrow> ('a \<Rightarrow> ('s, 'e, 'b) proc) \<Rightarrow> ('e \<Rightarrow> ('s, 'e, 'b) proc) \<Rightarrow>
   ('e, 'b) outcome \<times> 's" where
  "resume_match (r, t) f h =
     (case r of Ok x \<Rightarrow> f x t | Err e \<Rightarrow> h e t | Panic \<Rightarrow> (Panic, t) | Diverge \<Rightarrow> (Diverge, t))"

lemma resume_run:
  "resume (Ok x, t) f = f x t" "resume (Err e, t) f = (Err e, t)"
  "resume (Panic, t) f = (Panic, t)" "resume (Diverge, t) f = (Diverge, t)"
  "resume_match (Ok x, t) f h = f x t" "resume_match (Err e, t) f h = h e t"
  "resume_match (Panic, t) f h = (Panic, t)" "resume_match (Diverge, t) f h = (Diverge, t)"
  by simp_all

declare resume.simps [simp del] resume_match.simps [simp del]

lemma bind_run:
  "pbind m f s = resume (m s) f"
  "match_result m f h s = resume_match (m s) f h"
  by (auto simp: pbind_def match_result_def resume.simps resume_match.simps
      split: prod.splits outcome.splits)

lemma step_run:
  "reads g s = (g s, s)" "gets v s = (Ok (v s), s)" "modify u s = (Ok (), u s)"
  "ret x s = (Ok x, s)" "raise e s = (Err e, s)" "panic s = (Panic, s)" "diverge s = (Diverge, s)"
  "with_fuel w s = w (fuel s) s"
  by (simp_all add: reads_def gets_def modify_def ret_def raise_def panic_def diverge_def
      with_fuel_def)

lemma loop_run:
  "for_each [] f s = (Ok (), s)"
  "for_each (x # xs) f s = resume (f x s) (\<lambda>_. for_each xs f)"
  "fold_proc g [] a s = (Ok a, s)"
  "fold_proc g (x # xs) a s = resume (g x a s) (fold_proc g xs)"
  by (simp_all add: ret_def bind_run)

lemma fuel_run: "fuel s = Suc (bt_len (nodes s))"
  by (rule fuel_def)

lemma double_run: "2 * 0 = (0 :: nat)" "2 * Suc k = Suc (Suc (2 * k))"
  by simp_all

lemma normalize_run:
  "normalize_up_from (numeral k) cur =
     (case cur of
        None \<Rightarrow> ret ()
      | Some n \<Rightarrow>
          pbind (gets (\<lambda>s. bt_get (nodes s) n)) (\<lambda>found.
          case found of
            None \<Rightarrow> ret ()
          | Some nd \<Rightarrow>
              pbind (case nd of
                       BufferView v \<Rightarrow> reads (\<lambda>s. node_parent s n)
                     | Split sp \<Rightarrow> normalize_split_node n
                     | Tabs tb \<Rightarrow> normalize_tabs_node n)
                (normalize_up_from (pred_numeral k))))"
  by (simp add: numeral_eq_Suc)

lemma id_run: "n < u64_max \<Longrightarrow> id_next n = (n, Suc n)"
  using id_next_no_wrap by simp

lemma run_congs:
  "pbind m f = pbind m f"
  "match_result m f h = match_result m f h"
  "reads g = reads g" "gets v = gets v" "modify u = modify u" "with_fuel w = with_fuel w"
  "r = r' \<Longrightarrow> resume r f = resume r' f"
  "r = r' \<Longrightarrow> resume_match r f h = resume_match r' f h"
  "o1 = o2 \<Longrightarrow> rbind o1 c = rbind o2 c"
  "xs = ys \<Longrightarrow> for_each xs b = for_each ys b"
  "xs = ys \<Longrightarrow> a = a' \<Longrightarrow> fold_proc p xs a = fold_proc p ys a'"
  "xs = ys \<Longrightarrow> a = a' \<Longrightarrow> fold_ok q xs a = fold_ok q ys a'"
  "xs = ys \<Longrightarrow> any_ok q1 xs = any_ok q1 ys"
  "xs = ys \<Longrightarrow> first_some q2 xs = first_some q2 ys"
  "xs = ys \<Longrightarrow> all_ok q3 xs = all_ok q3 ys"
  "xs = ys \<Longrightarrow> map_ok q4 xs = map_ok q4 ys"
  "pr = pr' \<Longrightarrow> case_prod q5 pr = case_prod q5 pr'"
  by simp_all

section \<open>The definitions of the model, as rewrite rules\<close>

lemmas state_run =
  state_session_def state_buffer_def state_node_def state_floating_def root_node_def
  root_tabs_def node_parent_def node_session_id_def find_last_focused_descendant_def
  buffer_view_buffer_id_def ensure_session_exists_def ensure_node_belongs_to_def ensure_leaf_def
  ensure_leaf_belongs_to_def is_session_root_def floating_id_by_root_def shared_parent_def
  active_or_first_child_def active_child_def session_mut_def buffer_mut_def node_mut_def
  floating_mut_def put_node_def drop_node_def next_session_id_def next_buffer_id_def
  next_node_id_def next_floating_id_def top_root_for_node_def floating_id_for_node_def
  node_is_descendant_of_def window_of_leaf_def nearest_tabs_ancestor_def subtree_contains_def
  resolve_first_leaf_def resolve_visible_leaf_def collect_visible_leaf_ids_def
  visible_leaf_ids_def visible_session_leaves_def collect_subtree_nodes_def session_node_ids_def
  session_has_panes_def sessions_with_panes_def session_buffer_ids_def is_node_visible_from_def
  is_node_visible_in_session_def ensure_node_visible_in_session_def ensure_leaf_is_focusable_def
  visible_last_leaf_def resolve_focus_candidate_def resolve_floating_focus_def
  default_tab_title_def session_showing_buffer_def last_pane_def default_floating_dimension_def
  max_or_zero_def sat_sum16_def visible_node_size_def default_floating_geometry_def

lemmas focus_run =
  set_buffer_activity_def shown_leaves_def acknowledge_leaf_def acknowledge_shown_activity_def
  set_leaf_focus_def clear_session_focus_def focus_history_limit_def remembered_def
  remember_focus_def mark_floating_focus_def focus_leaf_def heal_focus_floating_def
  heal_focus_root_def heal_focus_def focus_candidate_or_heal_def focus_floating_def
  select_pane_def show_node_def focus_last_pane_def switch_tab_def select_root_tab_def
  refocus_zoomed_subtree_def zoom_visible_def zoom_node_def unzoom_session_def
  toggle_zoom_node_def normalize_zoomed_node_def

lemmas layout_run =
  set_parent_def replace_child_def active_after_remove_def remove_child_def
  repoint_owner_reference_def replace_node_in_owner_def detach_buffer_raw_def
  detach_buffer_if_attached_to_def remove_subtree_nodes_def remove_floating_window_def
  normalize_split_node_def normalize_tabs_node_def normalize_upwards_def empty_tabs_def
  clear_session_root_def close_node_def close_tab_def close_root_tab_def close_floating_def
  close_session_def discard_view_record_def discard_buffer_view_def create_session_def
  rename_session_def set_session_base_index_def set_session_viewport_def set_buffer_attached_def
  attach_buffer_def create_unattached_buffer_view_def create_buffer_view_def
  create_split_node_def create_tabs_node_def insert_tab_def tabs_len_def
  add_tab_sibling_at_with_focus_def add_tab_sibling_at_def add_tab_sibling_def add_root_tab_def
  add_root_tab_from_subtree_def or_discard_view_def add_root_tab_from_buffer_def
  add_tab_from_buffer_at_def add_tab_from_buffer_def rename_tab_def rename_root_tab_def
  set_root_tab_synchronize_panes_def wrap_node_in_tabs_def wrap_node_in_split_with_focus_def
  wrap_node_in_split_def split_leaf_with_new_buffer_def resize_split_children_def
  swap_sibling_nodes_def insert_position_def active_after_move_def reorder_sibling_node_def
  move_node_before_def move_node_after_def replace_node_def
  create_floating_window_with_options_def create_floating_window_def
  create_floating_from_buffer_with_options_def create_floating_from_buffer_def move_floating_def
  set_floating_border_def

lemmas buffers_run =
  put_buffer_def create_buffer_with_env_def create_buffer_def create_helper_buffer_def
  remove_buffer_def mark_buffer_running_def set_buffer_placement_def mark_buffer_interrupted_def
  mark_buffer_exited_def interrupt_unrecoverable_buffers_def set_buffer_size_def
  sync_buffer_view_size_def note_buffer_output_def set_buffer_title_def detach_buffer_def
  move_buffer_to_leaf_def disposed_none_def disposed_is_empty_def dispose_record_def
  closed_helpers_def exited_buffers_def dispose_exited_def dispose_exited_buffers_def

lemmas restructure_run =
  capture_node_owner_snapshot_def detach_node_from_owner_def restore_node_owner_def
  rollback_detached_node_def place_broken_node_def break_out_def break_node_def
  join_source_view_def join_tabs_target_def join_insert_index_def place_joined_view_def
  undo_join_def close_join_source_def join_buffer_at_node_def

lemmas validate_run =
  check_node_def validate_subtree_def validate_floating_def validate_focus_def validate_zoom_def
  validate_session_def is_detached_empty_tabs_node_def validate_orphans_def
  validate_attachment_def validate_view_def validate_def

lemmas data_run =
  state_new_def buffer_new_def buffer_view_state_default_def pty_size_new_def tab_entry_new_def
  placement_default_def vec_get_def vec_remove_def vec_insert_def vec_swap_def u64_max_def

lemmas run_simps =
  bind_run step_run resume_run loop_run fuel_run double_run normalize_run id_run map_run data_run
  state_run focus_run layout_run buffers_run restructure_run validate_run

section \<open>A sample layout\<close>

text \<open>
  One session (1) with the root tabs node 1, three buffers, and one window: the split 4 of the panes
  2 (buffer 1) and 3 (buffer 2), the latter focused. Buffer 3 is detached.
\<close>

definition sample_layout :: "node_id op" where
  "sample_layout =
     pbind (create_session [] 0) (\<lambda>sid.
     pbind (create_buffer [] [] None 0) (\<lambda>b1.
     pbind (create_buffer [] [] None 0) (\<lambda>b2.
     pbind (create_buffer [] [] None 0) (\<lambda>b3.
     pbind (add_root_tab_from_buffer sid [] b1) (\<lambda>_.
     split_leaf_with_new_buffer 2 Horizontal b2)))))"

definition sample_state :: server_state where
  "sample_state = snd (sample_layout state_new)"

end
