(* ===== verification/Server_Runs.thy ===== *)
theory Server_Runs
  imports Server_Eval
begin

text \<open>
  Concrete runs of the server model that show where the code does not keep the consistency
  \<open>ServerState::validate\<close> asks for. Each run starts from the empty state; the node, buffer and
  session ids are those the counters issue.
\<close>

section \<open>A consistent layout\<close>

text \<open>The sample layout of \<open>Server_Eval\<close> is consistent.\<close>

lemma sample_valid: "validate sample_state = Ok ()"
  by (simp add: sample_state_def sample_layout_def run_simps validate_def cong: run_congs)

section \<open>A tabs node that loses its only tab\<close>

text \<open>
  \<open>wrap_node_in_tabs\<close> (a request of the protocol) puts the pane 2 of a split into a tabs node 5 of
  its own. Closing the pane empties the tabs node, and \<open>normalize_tabs_node\<close> removes its record but
  not its entry in the split: the request fails half way, and the state is inconsistent.
\<close>

definition wrap_then_close :: "unit op" where
  "wrap_then_close =
     pbind sample_layout (\<lambda>_. pbind (wrap_node_in_tabs 2 []) (\<lambda>_. close_node 2))"

lemma wrap_then_close_fails:
  "fst (wrap_then_close state_new) = Err (NotFound (UnknownNode 5))"
  by (simp add: wrap_then_close_def sample_layout_def run_simps cong: run_congs)

text \<open>
  After the pane 2 of the sample's split is wrapped in tabs and closed, the state of the server is inconsistent:
  the split still names the tabs node 5, which no longer exists, and \<open>validate\<close> rejects the state.
\<close>

lemma wrap_then_close_invalid:
  "validate (snd (wrap_then_close state_new)) = Err (NotFound (UnknownNode 5))"
  by (simp add: wrap_then_close_def sample_layout_def run_simps validate_def cong: run_congs)

section \<open>A cycle of detached tabs nodes\<close>

text \<open>
  Two tabs nodes 5 and 6 are created outside any layout, 6 around 5. Adding 6 as a tab of 5 passes
  every check of \<open>add_tab_sibling_at\<close>, and the search for the pane to focus never returns.
\<close>

definition tabs_cycle :: "nat op" where
  "tabs_cycle =
     pbind sample_layout (\<lambda>_.
     pbind (create_tabs_node 1 [] 0) (\<lambda>a.
     pbind (create_tabs_node 1 [tab_entry_new [] a] 0) (\<lambda>b.
     add_tab_sibling_at a 0 [] b)))"

text \<open>
  Adding the second tabs node as a tab of the first, its own descendant, never returns: every
  search along the links runs in the cycle.
\<close>

lemma tabs_cycle_diverges: "fst (tabs_cycle state_new) = Diverge"
  by (simp add: tabs_cycle_def sample_layout_def run_simps cong: run_congs)

section \<open>A session root below another node\<close>

text \<open>\<open>create_tabs_node\<close> accepts the root of a session as a child.\<close>

definition root_as_child :: "node_id op" where
  "root_as_child = pbind sample_layout (\<lambda>_. create_tabs_node 1 [tab_entry_new [] 1] 0)"

lemma root_as_child_accepted: "fst (root_as_child state_new) = Ok 5"
  by (simp add: root_as_child_def sample_layout_def run_simps cong: run_congs)

text \<open>
  After \<open>create_tabs_node\<close> accepted the root of session 1 as a child, the state is inconsistent.
\<close>

lemma root_as_child_invalid:
  "validate (snd (root_as_child state_new)) = Err (Invalid (RootHasParent 1 1))"
  by (simp add: root_as_child_def sample_layout_def run_simps validate_def cong: run_congs)

section \<open>A zoomed pane in a window that is not shown\<close>

text \<open>
  With two windows, the pane 2 of the first one zoomed, selecting the second window keeps the zoom.
  The state does not pass \<open>validate\<close>, which a saved workspace has to pass when it is loaded.
\<close>

definition zoom_then_switch :: "unit op" where
  "zoom_then_switch =
     pbind sample_layout (\<lambda>_.
     pbind (add_root_tab_from_buffer 1 [] 3) (\<lambda>_.
     pbind (select_root_tab 1 0) (\<lambda>_.
     pbind (zoom_node 2) (\<lambda>_.
     select_root_tab 1 1))))"

text \<open>
  Zooming a pane and selecting another window succeeds, and leaves a state that \<open>validate\<close> rejects
  because the zoomed pane is not visible.
\<close>

lemma zoom_then_switch_invalid:
  "fst (zoom_then_switch state_new) = Ok () \<and>
   validate (snd (zoom_then_switch state_new)) = Err (Invalid (ZoomedNotVisible 2 1))"
  by (simp add: zoom_then_switch_def sample_layout_def run_simps validate_def cong: run_congs)

section \<open>A focused pane in a window that is not shown\<close>

text \<open>
  \<open>break_node\<close> and \<open>join_buffer_at_node\<close> insert a tab without moving the focus when their node is
  not visible; the insertion makes the new tab the active one all the same, so the focused pane of
  the session is no longer shown.
\<close>

definition break_hidden :: "unit op" where
  "break_hidden =
     pbind sample_layout (\<lambda>_.
     pbind (add_root_tab_from_buffer 1 [] 3) (\<lambda>_.
     break_node 2 False))"

text \<open>
  Breaking a pane out of a split of a window that is not shown succeeds, and leaves the focused
  pane of the session invisible.
\<close>

lemma break_hidden_invalid:
  "fst (break_hidden state_new) = Ok () \<and>
   validate (snd (break_hidden state_new)) = Err (Invalid (FocusedNotVisible 5 1))"
  by (simp add: break_hidden_def sample_layout_def run_simps validate_def cong: run_congs)

definition join_hidden :: "unit op" where
  "join_hidden =
     pbind sample_layout (\<lambda>_.
     pbind (create_buffer [] [] None 0) (\<lambda>b.
     pbind (add_root_tab_from_buffer 1 [] 3) (\<lambda>_.
     join_buffer_at_node 4 b TabBefore)))"

text \<open>
  Joining a buffer as a tab at a window that is not shown succeeds, and leaves the focused pane of
  the session invisible.
\<close>

lemma join_hidden_invalid:
  "fst (join_hidden state_new) = Ok () \<and>
   validate (snd (join_hidden state_new)) = Err (Invalid (FocusedNotVisible 5 1))"
  by (simp add: join_hidden_def sample_layout_def run_simps validate_def cong: run_congs)

end
