(* ===== verification/Server_Forest.thy ===== *)
theory Server_Forest
  imports Server_Eval
begin

text \<open>
  The shape of the layout. \<open>layout s\<close> forgets everything about a node but its id, session, parent,
  children and kind; \<open>forest\<close> says that the parent and child links of a layout agree and have no
  cycle. In a forest every walk of \<open>Server_State\<close> returns, and computes what its name says.
\<close>

section \<open>The layout of a state\<close>

datatype cell_kind = KView buffer_id | KSplit nat | KTabs

record cell =
  ce_id :: node_id
  ce_session :: session_id
  ce_parent :: "node_id option"
  ce_kids :: "node_id list"
  ce_kind :: cell_kind

fun kind_of :: "node \<Rightarrow> cell_kind" where
  "kind_of (BufferView v) = KView (bv_buffer_id v)"
| "kind_of (Split sp) = KSplit (length (sp_sizes sp))"
| "kind_of (Tabs tb) = KTabs"

definition cell_of :: "node \<Rightarrow> cell" where
  "cell_of nd = \<lparr>ce_id = node_id_of nd, ce_session = node_session nd, ce_parent = node_par nd,
                 ce_kids = child_ids nd, ce_kind = kind_of nd\<rparr>"

type_synonym layout = "node_id \<Rightarrow> cell option"

definition layout :: "server_state \<Rightarrow> layout" where
  "layout s n = map_option cell_of (bt_get (nodes s) n)"

lemma cell_of_simps [simp]:
  "ce_id (cell_of nd) = node_id_of nd" "ce_session (cell_of nd) = node_session nd"
  "ce_parent (cell_of nd) = node_par nd" "ce_kids (cell_of nd) = child_ids nd"
  "ce_kind (cell_of nd) = kind_of nd"
  by (simp_all add: cell_of_def)

lemma layout_Some: "layout s n = Some c \<longleftrightarrow> (\<exists>nd. bt_get (nodes s) n = Some nd \<and> c = cell_of nd)"
  by (auto simp: layout_def)

lemma dom_layout: "dom (layout s) = dom (bt_get (nodes s))"
  by (auto simp: layout_def)

lemma finite_layout [simp]: "finite (dom (layout s))"
  by (simp add: dom_layout)

lemma fuel_layout: "fuel s = Suc (card (dom (layout s)))"
  by (simp add: fuel_def bt_len_card dom_layout)

section \<open>Links\<close>

text \<open>The child-to-parent links, the nodes above a node and the nodes below it, itself included.\<close>

definition up :: "layout \<Rightarrow> (node_id \<times> node_id) set" where
  "up L = {(n, p). \<exists>c. L n = Some c \<and> ce_parent c = Some p}"

definition above :: "layout \<Rightarrow> node_id \<Rightarrow> node_id set" where
  "above L n = {m. (n, m) \<in> (up L)\<^sup>*}"

definition below :: "layout \<Rightarrow> node_id \<Rightarrow> node_id set" where
  "below L n = {m. (m, n) \<in> (up L)\<^sup>*}"

definition parentless :: "layout \<Rightarrow> node_id \<Rightarrow> bool" where
  "parentless L n \<longleftrightarrow> (\<exists>c. L n = Some c \<and> ce_parent c = None)"

definition forest :: "layout \<Rightarrow> bool" where
  "forest L \<longleftrightarrow>
     finite (dom L) \<and> acyclic (up L) \<and>
     (\<forall>n c. L n = Some c \<longrightarrow> ce_id c = n \<and> distinct (ce_kids c)) \<and>
     (\<forall>n c k. L n = Some c \<longrightarrow> k \<in> set (ce_kids c) \<longrightarrow>
        (\<exists>d. L k = Some d \<and> ce_parent d = Some n \<and> ce_session d = ce_session c)) \<and>
     (\<forall>n c p. L n = Some c \<longrightarrow> ce_parent c = Some p \<longrightarrow>
        (\<exists>d. L p = Some d \<and> n \<in> set (ce_kids d)))"

lemma upI: "L n = Some c \<Longrightarrow> ce_parent c = Some p \<Longrightarrow> (n, p) \<in> up L"
  by (auto simp: up_def)

lemma up_single_valued: "single_valued (up L)"
  by (auto simp: up_def single_valued_def)

lemma forest_finite: "forest L \<Longrightarrow> finite (dom L)"
  by (simp add: forest_def)

lemma forest_acyclic: "forest L \<Longrightarrow> acyclic (up L)"
  by (simp add: forest_def)

lemma forest_id: "forest L \<Longrightarrow> L n = Some c \<Longrightarrow> ce_id c = n"
  by (simp add: forest_def)

lemma forest_distinct: "forest L \<Longrightarrow> L n = Some c \<Longrightarrow> distinct (ce_kids c)"
  by (simp add: forest_def)

lemma forest_kid:
  assumes "forest L" and "L n = Some c" and "k \<in> set (ce_kids c)"
  obtains d where "L k = Some d" "ce_parent d = Some n" "ce_session d = ce_session c"
  using assms unfolding forest_def by metis

lemma forest_parent:
  assumes "forest L" and "L n = Some c" and "ce_parent c = Some p"
  obtains d where "L p = Some d" "n \<in> set (ce_kids d)" "ce_session d = ce_session c"
proof -
  obtain d where d: "L p = Some d" "n \<in> set (ce_kids d)"
    using assms unfolding forest_def by metis
  obtain c' where "L n = Some c'" "ce_session c' = ce_session d"
    using forest_kid [OF assms(1) d] by metis
  with assms(2) d that show thesis by simp
qed

lemma forest_kid_up: "forest L \<Longrightarrow> L n = Some c \<Longrightarrow> k \<in> set (ce_kids c) \<Longrightarrow> (k, n) \<in> up L"
  by (meson forest_kid upI)

lemma forest_up_kid:
  "forest L \<Longrightarrow> (k, n) \<in> up L \<Longrightarrow> \<exists>c. L n = Some c \<and> k \<in> set (ce_kids c)"
  unfolding up_def by (auto elim: forest_parent)

lemma up_dom: "forest L \<Longrightarrow> (n, p) \<in> up L \<Longrightarrow> n \<in> dom L \<and> p \<in> dom L"
  by (auto simp: up_def elim: forest_parent)

lemma up_star_dom:
  assumes "forest L" and "(n, m) \<in> (up L)\<^sup>*"
  shows "n \<in> dom L \<longleftrightarrow> m \<in> dom L"
  using assms(2) by (induction rule: rtrancl_induct) (auto dest: up_dom [OF assms(1)])

lemma up_star_session:
  assumes "forest L" and "(n, m) \<in> (up L)\<^sup>*" and "L n = Some c"
  shows "\<exists>d. L m = Some d \<and> ce_session d = ce_session c"
  using assms(2)
proof (induction rule: rtrancl_induct)
  case base
  then show ?case using assms(3) by simp
next
  case (step y z)
  then obtain d where d: "L y = Some d" "ce_session d = ce_session c" by auto
  with step(2) have "ce_parent d = Some z" by (auto simp: up_def)
  from forest_parent [OF assms(1) d(1) this] d(2) show ?case by metis
qed

lemma in_below_self [simp]: "n \<in> below L n"
  by (simp add: below_def)

lemma in_above_self [simp]: "n \<in> above L n"
  by (simp add: above_def)

lemma below_above: "m \<in> below L n \<longleftrightarrow> n \<in> above L m"
  by (simp add: below_def above_def)

lemma below_trans: "m \<in> below L n \<Longrightarrow> n \<in> below L r \<Longrightarrow> m \<in> below L r"
  by (auto simp: below_def)

lemma below_dom: "forest L \<Longrightarrow> n \<in> dom L \<Longrightarrow> below L n \<subseteq> dom L"
  unfolding below_def using up_star_dom by blast

lemma above_dom: "forest L \<Longrightarrow> n \<in> dom L \<Longrightarrow> above L n \<subseteq> dom L"
  unfolding above_def using up_star_dom by blast

lemma finite_below: "forest L \<Longrightarrow> n \<in> dom L \<Longrightarrow> finite (below L n)"
  by (meson below_dom finite_subset forest_finite)

lemma finite_above: "forest L \<Longrightarrow> n \<in> dom L \<Longrightarrow> finite (above L n)"
  by (meson above_dom finite_subset forest_finite)

lemma card_below: "forest L \<Longrightarrow> n \<in> dom L \<Longrightarrow> card (below L n) \<le> card (dom L)"
  by (meson below_dom card_mono forest_finite)

lemma card_above: "forest L \<Longrightarrow> n \<in> dom L \<Longrightarrow> card (above L n) \<le> card (dom L)"
  by (meson above_dom card_mono forest_finite)

lemma no_up_cycle: "forest L \<Longrightarrow> (n, p) \<in> up L \<Longrightarrow> (p, n) \<notin> (up L)\<^sup>*"
  using forest_acyclic [of L] unfolding acyclic_def by (meson rtrancl_into_trancl2)

lemma card_above_less:
  assumes "forest L" and "(n, p) \<in> up L"
  shows "card (above L p) < card (above L n)"
proof (rule psubset_card_mono)
  show "finite (above L n)" using finite_above up_dom assms by blast
  have "n \<notin> above L p" using no_up_cycle [OF assms] by (simp add: above_def)
  moreover have "above L p \<subseteq> above L n"
    using assms(2) by (auto simp: above_def intro: converse_rtrancl_into_rtrancl)
  ultimately show "above L p \<subset> above L n" by auto
qed

lemma card_below_less:
  assumes "forest L" and "(n, p) \<in> up L"
  shows "card (below L n) < card (below L p)"
proof (rule psubset_card_mono)
  show "finite (below L p)" using finite_below up_dom assms by blast
  have "p \<notin> below L n" using no_up_cycle [OF assms] by (simp add: below_def)
  moreover have "below L n \<subseteq> below L p"
    using assms(2) by (auto simp: below_def intro: rtrancl_into_rtrancl)
  ultimately show "below L n \<subset> below L p" by auto
qed

lemma card_above_pos: "forest L \<Longrightarrow> n \<in> dom L \<Longrightarrow> 0 < card (above L n)"
  using finite_above by (auto simp: card_gt_0_iff intro: in_above_self)

lemma card_below_pos: "forest L \<Longrightarrow> n \<in> dom L \<Longrightarrow> 0 < card (below L n)"
  using finite_below by (auto simp: card_gt_0_iff intro: in_below_self)

lemma below_kids:
  assumes "forest L" and "L n = Some c"
  shows "below L n = insert n (\<Union>k \<in> set (ce_kids c). below L k)"
proof
  show "below L n \<subseteq> insert n (\<Union>k \<in> set (ce_kids c). below L k)"
  proof
    fix m
    assume "m \<in> below L n"
    then have "(m, n) \<in> (up L)\<^sup>*" by (simp add: below_def)
    then show "m \<in> insert n (\<Union>k \<in> set (ce_kids c). below L k)"
    proof (cases rule: rtranclE)
      case base
      then show ?thesis by simp
    next
      case (step y)
      then have "y \<in> set (ce_kids c)" using forest_up_kid [OF assms(1)] assms(2) by fastforce
      with step show ?thesis by (auto simp: below_def)
    qed
  qed
  show "insert n (\<Union>k \<in> set (ce_kids c). below L k) \<subseteq> below L n"
    using forest_kid_up [OF assms] by (auto simp: below_def intro: rtrancl_into_rtrancl)
qed

text \<open>Two nodes above the same node are comparable, so the subtrees of siblings are disjoint.\<close>

lemma above_comparable:
  "m \<in> below L a \<Longrightarrow> m \<in> below L b \<Longrightarrow> a \<in> below L b \<or> b \<in> below L a"
  unfolding below_def using single_valued_confluent [OF up_single_valued] by blast

lemma siblings_disjoint:
  assumes "forest L" and "(a, n) \<in> up L" and "(b, n) \<in> up L" and "a \<noteq> b"
  shows "below L a \<inter> below L b = {}"
proof (rule ccontr)
  assume "below L a \<inter> below L b \<noteq> {}"
  then have "(a, b) \<in> (up L)\<^sup>* \<or> (b, a) \<in> (up L)\<^sup>*"
    using above_comparable by (fastforce simp: below_def)
  moreover have False if h: "(x, y) \<in> (up L)\<^sup>*" "(x, n) \<in> up L" "(y, n) \<in> up L" "x \<noteq> y" for x y
  proof -
    obtain z where "(x, z) \<in> up L" "(z, y) \<in> (up L)\<^sup>*"
      using h(1,4) by (meson converse_rtranclE)
    then have "(n, y) \<in> (up L)\<^sup>*"
      using h(2) up_single_valued by (metis single_valuedD)
    then show False using no_up_cycle [OF assms(1) h(3)] by simp
  qed
  ultimately show False using assms by blast
qed

lemma below_step:
  assumes "(n, p) \<in> up L" and "n \<noteq> r"
  shows "n \<in> below L r \<longleftrightarrow> p \<in> below L r"
proof
  assume "n \<in> below L r"
  then obtain q where q: "(n, q) \<in> up L" "(q, r) \<in> (up L)\<^sup>*"
    using assms(2) by (auto simp: below_def elim: converse_rtranclE)
  moreover have "q = p" using q(1) assms(1) up_single_valued [of L] by (auto dest: single_valuedD)
  ultimately show "p \<in> below L r" by (simp add: below_def)
qed (use assms(1) in \<open>auto simp: below_def intro: converse_rtrancl_into_rtrancl\<close>)

lemma self_not_below_kid:
  "forest L \<Longrightarrow> (k, n) \<in> up L \<Longrightarrow> n \<notin> below L k"
  by (auto simp: below_def dest: no_up_cycle)

text \<open>Links that lead every node to a parentless one have no cycle.\<close>

lemma on_cycle_step:
  assumes "(x, x) \<in> (up L)\<^sup>+" and "(x, y) \<in> up L"
  shows "(y, y) \<in> (up L)\<^sup>+"
proof -
  obtain z where "(x, z) \<in> up L" "(z, x) \<in> (up L)\<^sup>*" using assms(1) by (meson tranclD)
  moreover from this(1) have "z = y" using assms(2) up_single_valued by (metis single_valuedD)
  ultimately show ?thesis using assms(2) by (meson rtrancl_into_trancl1)
qed

lemma acyclic_rooted:
  assumes "\<And>n. n \<in> dom L \<Longrightarrow> \<exists>r. (n, r) \<in> (up L)\<^sup>* \<and> r \<notin> Domain (up L)"
  shows "acyclic (up L)"
proof (rule acyclicI, safe)
  fix x
  assume x: "(x, x) \<in> (up L)\<^sup>+"
  then obtain y where "(x, y) \<in> up L" by (meson tranclD)
  then have "x \<in> dom L" by (auto simp: up_def)
  then obtain r where r: "(x, r) \<in> (up L)\<^sup>*" "r \<notin> Domain (up L)" using assms by blast
  from r(1) have "(r, r) \<in> (up L)\<^sup>+"
    by (induction rule: rtrancl_induct) (auto intro: x on_cycle_step)
  then show False using r(2) by (meson DomainI converse_tranclE)
qed

lemma forest_root:
  assumes "forest L" and "n \<in> dom L"
  shows "\<exists>r. (n, r) \<in> (up L)\<^sup>* \<and> parentless L r"
  using assms(2)
proof (induction "card (above L n)" arbitrary: n rule: less_induct)
  case less
  then obtain c where c: "L n = Some c" by auto
  show ?case
  proof (cases "ce_parent c")
    case None
    with c show ?thesis by (auto simp: parentless_def)
  next
    case (Some p)
    then have up: "(n, p) \<in> up L" using c by (rule upI [rotated])
    then obtain r where "(p, r) \<in> (up L)\<^sup>*" "parentless L r"
      using less.hyps card_above_less [OF assms(1)] up_dom [OF assms(1)] by blast
    with up show ?thesis by (meson converse_rtrancl_into_rtrancl)
  qed
qed

lemma parentless_no_up: "parentless L r \<Longrightarrow> r \<notin> Domain (up L)"
  by (auto simp: parentless_def up_def)

lemma root_unique:
  assumes "(n, r) \<in> (up L)\<^sup>*" "parentless L r" "(n, r') \<in> (up L)\<^sup>*" "parentless L r'"
  shows "r = r'"
proof -
  have "(r, r') \<in> (up L)\<^sup>* \<or> (r', r) \<in> (up L)\<^sup>*"
    using single_valued_confluent [OF up_single_valued assms(1,3)] .
  then show ?thesis
    using parentless_no_up assms(2,4) by (metis Domain.DomainI converse_rtranclE)
qed

end
