(* ===== verification/Server_Walks.thy ===== *)
theory Server_Walks
  imports Server_Forest
begin

text \<open>
  What the walks of \<open>Server_State\<close> compute on a forest. In particular the fuel, one more than the
  number of nodes, is enough: no walk runs out of it.
\<close>

section \<open>Walks up\<close>

lemma node_parent_layout:
  "node_parent s n =
     (case layout s n of None \<Rightarrow> Err (NotFound (UnknownNode n)) | Some c \<Rightarrow> Ok (ce_parent c))"
  by (simp add: node_parent_def state_node_def layout_def split: option.split)

lemma node_session_layout:
  "node_session_id s n =
     (case layout s n of None \<Rightarrow> Err (NotFound (UnknownNode n)) | Some c \<Rightarrow> Ok (ce_session c))"
  by (simp add: node_session_id_def state_node_def layout_def split: option.split)

lemma ensure_node_layout:
  "ensure_node_belongs_to s n sid =
     (case layout s n of
        None \<Rightarrow> Err (NotFound (UnknownNode n))
      | Some c \<Rightarrow> if ce_session c \<noteq> sid then Err (Conflict (NodeInOtherSession n (ce_session c) sid))
                  else Ok ())"
  by (simp add: ensure_node_belongs_to_def state_node_def layout_def split: option.split)

lemma top_root_from_Ok:
  assumes "forest (layout s)" and "n \<in> dom (layout s)" and "card (above (layout s) n) \<le> k"
  shows "\<exists>r. top_root_from k s n = Ok r \<and> (n, r) \<in> (up (layout s))\<^sup>* \<and> parentless (layout s) r"
  using assms(2,3)
proof (induction k arbitrary: n)
  case 0
  then show ?case using card_above_pos [OF assms(1)] by fastforce
next
  case (Suc k)
  then obtain c where c: "layout s n = Some c" by auto
  show ?case
  proof (cases "ce_parent c")
    case None
    then have "top_root_from (Suc k) s n = Ok n" by (simp add: node_parent_layout c)
    with None c show ?thesis by (auto simp: parentless_def)
  next
    case (Some p)
    then have up: "(n, p) \<in> up (layout s)" using c by (rule upI [rotated])
    then have "p \<in> dom (layout s)" "card (above (layout s) p) \<le> k"
      using up_dom [OF assms(1)] card_above_less [OF assms(1)] Suc.prems(2) by fastforce+
    then obtain r where "top_root_from k s p = Ok r" "(p, r) \<in> (up (layout s))\<^sup>*"
      "parentless (layout s) r" using Suc.IH by blast
    with Some c up show ?thesis
      by (auto simp: node_parent_layout intro: converse_rtrancl_into_rtrancl)
  qed
qed

lemma top_root_iff:
  assumes "forest (layout s)" and "n \<in> dom (layout s)"
  shows "top_root_for_node s n = Ok r \<longleftrightarrow> (n, r) \<in> (up (layout s))\<^sup>* \<and> parentless (layout s) r"
proof -
  obtain r' where "top_root_for_node s n = Ok r'" "(n, r') \<in> (up (layout s))\<^sup>*"
    "parentless (layout s) r'"
    unfolding top_root_for_node_def fuel_layout
    using top_root_from_Ok [OF assms, of "Suc (card (dom (layout s)))"] card_above [OF assms] by auto
  then show ?thesis using root_unique by fastforce
qed

lemma top_root_Ok:
  assumes "forest (layout s)" and "n \<in> dom (layout s)"
  obtains r where "top_root_for_node s n = Ok r" "(n, r) \<in> (up (layout s))\<^sup>*"
    "parentless (layout s) r"
  using forest_root [OF assms] top_root_iff [OF assms] by blast

lemma descendant_from_Ok:
  assumes "forest (layout s)" and "n \<in> dom (layout s)" and "card (above (layout s) n) < k"
  shows "descendant_from k s a (Some n) = Ok (n \<in> below (layout s) a)"
  using assms(2,3)
proof (induction k arbitrary: n)
  case (Suc k)
  then obtain c where c: "layout s n = Some c" by auto
  show ?case
  proof (cases "n = a")
    case False
    show ?thesis
    proof (cases "ce_parent c")
      case None
      then have "n \<notin> below (layout s) a"
        using False c parentless_no_up [of "layout s" n]
        by (auto simp: below_def parentless_def elim: converse_rtranclE)
      moreover have "k \<noteq> 0"
        using Suc.prems card_above_pos [OF assms(1) Suc.prems(1)] by auto
      ultimately show ?thesis
        using False None c by (cases k) (simp_all add: node_parent_layout)
    next
      case (Some p)
      then have up: "(n, p) \<in> up (layout s)" using c by (rule upI [rotated])
      then have "p \<in> dom (layout s)" "card (above (layout s) p) < k"
        using up_dom [OF assms(1)] card_above_less [OF assms(1)] Suc.prems(2) by fastforce+
      then have "descendant_from k s a (Some p) = Ok (p \<in> below (layout s) a)" by (rule Suc.IH)
      moreover have "p \<in> below (layout s) a \<longleftrightarrow> n \<in> below (layout s) a"
        using below_step [OF up False] by simp
      ultimately show ?thesis using False Some c by (simp add: node_parent_layout)
    qed
  qed simp
qed simp

lemma node_is_descendant_of_Ok:
  assumes "forest (layout s)" and "n \<in> dom (layout s)"
  shows "node_is_descendant_of s n a = Ok (n \<in> below (layout s) a)"
  unfolding node_is_descendant_of_def fuel_layout
  by (rule descendant_from_Ok [OF assms]) (use card_above [OF assms] in simp)

section \<open>Walks down\<close>

lemma state_node_layout:
  "layout s n = Some c \<Longrightarrow> \<exists>nd. state_node s n = Ok nd \<and> cell_of nd = c"
  by (auto simp: layout_Some state_node_def)

lemma any_ok_Ok:
  "(\<And>x. x \<in> set xs \<Longrightarrow> f x = Ok (P x)) \<Longrightarrow> any_ok f xs = Ok (\<exists>x \<in> set xs. P x)"
  by (induction xs) auto

text \<open>The fuel left for a child is enough for its subtree.\<close>

lemma kid_fuel:
  assumes "forest L" and "L n = Some c" and "card (below L n) \<le> Suc k" and "x \<in> set (ce_kids c)"
  shows "x \<in> dom L" and "card (below L x) \<le> k"
proof -
  have up: "(x, n) \<in> up L" using forest_kid_up assms by blast
  show "x \<in> dom L" using up_dom [OF assms(1) up] by simp
  show "card (below L x) \<le> k" using card_below_less [OF assms(1) up] assms(3) by simp
qed

lemma subtree_contains_from_Ok:
  assumes "forest (layout s)" and "n \<in> dom (layout s)" and "card (below (layout s) n) \<le> k"
  shows "subtree_contains_from k s m n = Ok (m \<in> below (layout s) n)"
  using assms(2,3)
proof (induction k arbitrary: n)
  case 0
  then show ?case using card_below_pos [OF assms(1)] by fastforce
next
  case (Suc k)
  then obtain c where c: "layout s n = Some c" by auto
  obtain nd where nd: "state_node s n = Ok nd" "child_ids nd = ce_kids c"
    using state_node_layout [OF c] by auto
  have "any_ok (subtree_contains_from k s m) (ce_kids c) =
      Ok (\<exists>x \<in> set (ce_kids c). m \<in> below (layout s) x)"
    using Suc.IH kid_fuel [OF assms(1) c Suc.prems(2)] by (intro any_ok_Ok) auto
  then show ?case using nd below_kids [OF assms(1) c] by auto
qed

lemma subtree_contains_Ok:
  assumes "forest (layout s)" and "n \<in> dom (layout s)"
  shows "subtree_contains s n m = Ok (m \<in> below (layout s) n)"
  unfolding subtree_contains_def fuel_layout
  by (rule subtree_contains_from_Ok [OF assms]) (use card_below [OF assms] in simp)

section \<open>Visibility\<close>

text \<open>The links a tabs node shows: those of its active child. Other containers show all children.\<close>

definition showing :: "server_state \<Rightarrow> (node_id \<times> node_id) set" where
  "showing s = {(n, p) \<in> up (layout s).
     \<forall>tb. bt_get (nodes s) p = Some (Tabs tb) \<longrightarrow> active_child tb = Some n}"

lemma showing_up: "showing s \<subseteq> up (layout s)"
  by (auto simp: showing_def)

lemma showing_star_up: "(n, m) \<in> (showing s)\<^sup>* \<Longrightarrow> (n, m) \<in> (up (layout s))\<^sup>*"
  using rtrancl_mono [OF showing_up] by blast

lemma showing_star_step:
  assumes "(n, p) \<in> up (layout s)" and "n \<noteq> r"
  shows "(n, r) \<in> (showing s)\<^sup>* \<longleftrightarrow> (n, p) \<in> showing s \<and> (p, r) \<in> (showing s)\<^sup>*"
proof
  assume "(n, r) \<in> (showing s)\<^sup>*"
  then obtain q where q: "(n, q) \<in> showing s" "(q, r) \<in> (showing s)\<^sup>*"
    using assms(2) by (meson converse_rtranclE)
  moreover have "q = p"
    using q(1) showing_up assms(1) up_single_valued [of "layout s"] by (auto dest: single_valuedD)
  ultimately show "(n, p) \<in> showing s \<and> (p, r) \<in> (showing s)\<^sup>*" by simp
qed (auto intro: converse_rtrancl_into_rtrancl)

lemma visible_up_from_Ok:
  assumes "forest (layout s)" and "n \<in> below (layout s) r" and "n \<in> dom (layout s)"
    and "card (above (layout s) n) \<le> k"
  shows "visible_up_from k s r m n = Ok ((n, r) \<in> (showing s)\<^sup>*)"
  using assms(2-4)
proof (induction k arbitrary: n)
  case 0
  then show ?case using card_above_pos [OF assms(1)] by fastforce
next
  case (Suc k)
  show ?case
  proof (cases "n = r")
    case False
    obtain c where c: "layout s n = Some c" using Suc.prems(2) by auto
    obtain p where p: "(n, p) \<in> up (layout s)" "p \<in> below (layout s) r"
      using Suc.prems(1) False by (auto simp: below_def elim: converse_rtranclE)
    then have par: "ce_parent c = Some p" using c by (auto simp: up_def)
    have "p \<in> dom (layout s)" "card (above (layout s) p) \<le> k"
      using up_dom [OF assms(1) p(1)] card_above_less [OF assms(1) p(1)] Suc.prems(3) by auto
    then have IH: "visible_up_from k s r m p = Ok ((p, r) \<in> (showing s)\<^sup>*)"
      using Suc.IH p(2) by blast
    obtain pd where pd: "bt_get (nodes s) p = Some pd"
      using \<open>p \<in> dom (layout s)\<close> by (auto simp: dom_layout)
    have "(n, p) \<in> showing s \<longleftrightarrow> (\<forall>tb. pd = Tabs tb \<longrightarrow> active_child tb = Some n)"
      using p(1) pd by (simp add: showing_def)
    then show ?thesis
      using False IH par c pd showing_star_step [OF p(1) False]
      by (cases pd) (simp_all add: node_parent_layout state_node_def)
  qed simp
qed

lemma is_node_visible_from_Ok:
  assumes "forest (layout s)" and "r \<in> dom (layout s)"
  shows "is_node_visible_from s r n = Ok ((n, r) \<in> (showing s)\<^sup>*)"
proof (cases "n \<in> below (layout s) r")
  case True
  then have n: "n \<in> dom (layout s)" using below_dom [OF assms] by blast
  have "visible_up_from (fuel s) s r n n = Ok ((n, r) \<in> (showing s)\<^sup>*)"
    unfolding fuel_layout
    by (rule visible_up_from_Ok [OF assms(1) True n]) (use card_above [OF assms(1) n] in simp)
  then show ?thesis
    using True by (simp add: is_node_visible_from_def subtree_contains_Ok [OF assms])
next
  case False
  then have "(n, r) \<notin> (showing s)\<^sup>*" using showing_star_up by (auto simp: below_def)
  with False show ?thesis by (simp add: is_node_visible_from_def subtree_contains_Ok [OF assms])
qed

section \<open>Leaves\<close>

definition is_view :: "server_state \<Rightarrow> node_id \<Rightarrow> bool" where
  "is_view s n \<longleftrightarrow> (\<exists>v. bt_get (nodes s) n = Some (BufferView v))"

text \<open>The active index of every tabs node is that of a tab, or 0 when it has none.\<close>

fun active_ok :: "node \<Rightarrow> bool" where
  "active_ok (Tabs tb) =
     (if tb_tabs tb = [] then tb_active tb = 0 else tb_active tb < length (tb_tabs tb))"
| "active_ok _ = True"

definition tabs_ok :: "server_state \<Rightarrow> bool" where
  "tabs_ok s \<longleftrightarrow> (\<forall>n nd. bt_get (nodes s) n = Some nd \<longrightarrow> active_ok nd)"

text \<open>What a node or a floating window remembers as last focused is a pane, if it is still there.\<close>

fun memo :: "node \<Rightarrow> node_id option" where
  "memo (BufferView v) = None"
| "memo (Split sp) = sp_last_focused_descendant sp"
| "memo (Tabs tb) = tb_last_focused_descendant tb"

definition lfd_ok :: "server_state \<Rightarrow> bool" where
  "lfd_ok s \<longleftrightarrow>
     (\<forall>n nd l. bt_get (nodes s) n = Some nd \<longrightarrow> memo nd = Some l \<longrightarrow>
        l \<in> dom (layout s) \<longrightarrow> is_view s l) \<and>
     (\<forall>fid f l. bt_get (floating s) fid = Some f \<longrightarrow> fw_last_focused_leaf f = Some l \<longrightarrow>
        l \<in> dom (layout s) \<longrightarrow> is_view s l)"

lemma lfd_okD:
  "lfd_ok s \<Longrightarrow> bt_get (nodes s) n = Some nd \<Longrightarrow> memo nd = Some l \<Longrightarrow> l \<in> dom (layout s) \<Longrightarrow> is_view s l"
  "lfd_ok s \<Longrightarrow> bt_get (floating s) fid = Some f \<Longrightarrow> fw_last_focused_leaf f = Some l \<Longrightarrow>
   l \<in> dom (layout s) \<Longrightarrow> is_view s l"
  unfolding lfd_ok_def by blast+

text \<open>\<open>shown_leaf s n l\<close>: \<open>l\<close> is a pane that \<open>n\<close> shows.\<close>

definition shown_leaf :: "server_state \<Rightarrow> node_id \<Rightarrow> node_id \<Rightarrow> bool" where
  "shown_leaf s n l \<longleftrightarrow> is_view s l \<and> (l, n) \<in> (showing s)\<^sup>*"

definition leaf_result :: "server_state \<Rightarrow> node_id \<Rightarrow> node_id option \<Rightarrow> bool" where
  "leaf_result s n r \<longleftrightarrow>
     (case r of Some l \<Rightarrow> shown_leaf s n l | None \<Rightarrow> (\<forall>l. \<not> shown_leaf s n l))"

lemma is_view_layout: "is_view s n \<longleftrightarrow> (\<exists>c b. layout s n = Some c \<and> ce_kind c = KView b)"
proof -
  have "kind_of nd = KView b \<longleftrightarrow> (\<exists>v. nd = BufferView v \<and> bv_buffer_id v = b)" for nd b
    by (cases nd) auto
  then show ?thesis by (auto simp: is_view_def layout_Some)
qed

lemma tabs_okD:
  "tabs_ok s \<Longrightarrow> bt_get (nodes s) n = Some (Tabs tb) \<Longrightarrow> tb_tabs tb \<noteq> [] \<Longrightarrow>
   tb_active tb < length (tb_tabs tb)"
  unfolding tabs_ok_def by fastforce

lemma active_child_kid: "active_child tb = Some c \<Longrightarrow> c \<in> set (map te_child (tb_tabs tb))"
  by (auto simp: active_child_def vec_get_def split: if_splits)

lemma active_or_first_ok:
  assumes "tabs_ok s" and "bt_get (nodes s) n = Some (Tabs tb)"
  shows "active_or_first_child tb = active_child tb"
  using tabs_okD [OF assms]
  by (cases "tb_tabs tb = []") (auto simp: active_or_first_child_def active_child_def vec_get_def)

lemma active_child_None:
  assumes "tabs_ok s" and "bt_get (nodes s) n = Some (Tabs tb)"
  shows "active_child tb = None \<longleftrightarrow> tb_tabs tb = []"
  using tabs_okD [OF assms] by (auto simp: active_child_def vec_get_def)

lemma showing_kid:
  assumes "forest (layout s)" and "bt_get (nodes s) n = Some nd"
  shows "(k, n) \<in> showing s \<longleftrightarrow>
    k \<in> set (child_ids nd) \<and> (\<forall>tb. nd = Tabs tb \<longrightarrow> active_child tb = Some k)"
proof -
  have c: "layout s n = Some (cell_of nd)" using assms(2) by (simp add: layout_def)
  have "(k, n) \<in> up (layout s) \<longleftrightarrow> k \<in> set (child_ids nd)"
    using forest_kid_up [OF assms(1) c] forest_up_kid [OF assms(1)] c by fastforce
  then show ?thesis using assms(2) by (auto simp: showing_def)
qed

lemma showing_tabs:
  assumes "forest (layout s)" and "bt_get (nodes s) n = Some (Tabs tb)"
  shows "(k, n) \<in> showing s \<longleftrightarrow> active_child tb = Some k"
  using showing_kid [OF assms] active_child_kid [of tb k] by auto

lemma shown_leaf_step:
  assumes "forest (layout s)" and "bt_get (nodes s) n = Some nd" and "\<not> is_buffer_view nd"
  shows "shown_leaf s n l \<longleftrightarrow> (\<exists>k. (k, n) \<in> showing s \<and> shown_leaf s k l)"
proof
  assume l: "shown_leaf s n l"
  then have "l \<noteq> n" using assms(2,3) by (auto simp: shown_leaf_def is_view_def)
  with l show "\<exists>k. (k, n) \<in> showing s \<and> shown_leaf s k l"
    by (auto simp: shown_leaf_def elim: rtranclE)
qed (auto simp: shown_leaf_def)

lemma shown_leaf_view:
  assumes "forest (layout s)" and "bt_get (nodes s) n = Some (BufferView v)"
  shows "shown_leaf s n l \<longleftrightarrow> l = n"
proof
  assume "shown_leaf s n l"
  then have "(l, n) \<in> (showing s)\<^sup>*" by (simp add: shown_leaf_def)
  then show "l = n"
    by (cases rule: rtranclE) (use showing_kid [OF assms] in auto)
qed (use assms(2) in \<open>auto simp: shown_leaf_def is_view_def\<close>)

lemma first_some_spec:
  assumes "\<And>x. x \<in> set xs \<Longrightarrow> \<exists>r. f x = Ok r \<and> Q x r"
  shows "\<exists>r. first_some f xs = Ok r \<and>
    (case r of Some y \<Rightarrow> \<exists>x \<in> set xs. Q x (Some y) | None \<Rightarrow> \<forall>x \<in> set xs. Q x None)"
  using assms
proof (induction xs)
  case (Cons x xs)
  obtain r where r: "f x = Ok r" "Q x r" using Cons.prems by auto
  obtain r' where r': "first_some f xs = Ok r'"
    "case r' of Some y \<Rightarrow> \<exists>x \<in> set xs. Q x (Some y) | None \<Rightarrow> \<forall>x \<in> set xs. Q x None"
    using Cons by auto
  show ?case using r r' by (cases r; cases r') auto
qed simp

text \<open>
  A search that treats panes as found, looks into the shown child of a tabs node and into the
  children of a split in order, finds a shown leaf if there is one.
\<close>

lemma leaf_search_split:
  assumes "forest (layout s)" and "bt_get (nodes s) n = Some (Split sp)"
    and "\<And>x. x \<in> set (sp_children sp) \<Longrightarrow> \<exists>r. f x = Ok r \<and> leaf_result s x r"
  shows "\<exists>r. first_some f (sp_children sp) = Ok r \<and> leaf_result s n r"
proof -
  obtain r where r: "first_some f (sp_children sp) = Ok r"
    "case r of Some y \<Rightarrow> \<exists>x \<in> set (sp_children sp). leaf_result s x (Some y)
      | None \<Rightarrow> \<forall>x \<in> set (sp_children sp). leaf_result s x None"
    using first_some_spec [of "sp_children sp" f "leaf_result s"] assms(3) by auto
  have "leaf_result s n r"
    using r(2) shown_leaf_step [OF assms(1,2)] showing_kid [OF assms(1,2)]
    by (auto simp: leaf_result_def split: option.splits)
  with r(1) show ?thesis by blast
qed

lemma leaf_search_tabs:
  assumes "forest (layout s)" and "bt_get (nodes s) n = Some (Tabs tb)"
    and "\<And>x. active_child tb = Some x \<Longrightarrow> \<exists>r. f x = Ok r \<and> leaf_result s x r"
  shows "\<exists>r. (case active_child tb of Some child \<Rightarrow> f child | None \<Rightarrow> Ok None) = Ok r
    \<and> leaf_result s n r"
proof (cases "active_child tb")
  case None
  then have "leaf_result s n None"
    using shown_leaf_step [OF assms(1,2)] showing_kid [OF assms(1,2)]
    by (auto simp: leaf_result_def)
  with None show ?thesis by simp
next
  case (Some x)
  then obtain r where r: "f x = Ok r" "leaf_result s x r" using assms(3) by blast
  have "(k, n) \<in> showing s \<longleftrightarrow> k = x" for k
    using showing_kid [OF assms(1,2)] Some active_child_kid by auto
  then have "leaf_result s n r"
    using r(2) shown_leaf_step [OF assms(1,2)] by (auto simp: leaf_result_def split: option.splits)
  with Some r(1) show ?thesis by simp
qed

lemma visible_last_leaf_Ok:
  assumes "forest (layout s)" and "n \<in> dom (layout s)"
  shows "visible_last_leaf s n prev =
    Ok (case prev of None \<Rightarrow> None
        | Some l \<Rightarrow> if l \<in> dom (layout s) \<and> (l, n) \<in> (showing s)\<^sup>* then Some l else None)"
  using is_node_visible_from_Ok [OF assms]
  by (auto simp: visible_last_leaf_def dom_layout split: option.split)

lemma focus_candidate_from_Ok:
  assumes "forest (layout s)" and "tabs_ok s" and "lfd_ok s"
    and "n \<in> dom (layout s)" and "card (below (layout s) n) \<le> k"
  shows "\<exists>r. focus_candidate_from k s n = Ok r \<and> leaf_result s n r"
  using assms(4,5)
proof (induction k arbitrary: n)
  case 0
  then show ?case using card_below_pos [OF assms(1)] by fastforce
next
  case (Suc k)
  obtain nd where nd: "bt_get (nodes s) n = Some nd" using Suc.prems(1) by (auto simp: dom_layout)
  have L: "layout s n = Some (cell_of nd)" using nd by (simp add: layout_def)
  have kid: "\<exists>r. focus_candidate_from k s x = Ok r \<and> leaf_result s x r"
    if "x \<in> set (child_ids nd)" for x
    using Suc.IH [of x] kid_fuel [OF assms(1) L Suc.prems(2)] that by simp
  show ?case
  proof (cases nd)
    case (BufferView v)
    then have "leaf_result s n (Some n)"
      using shown_leaf_view [OF assms(1)] nd by (simp add: leaf_result_def)
    with BufferView nd show ?thesis by (auto simp: state_node_def)
  next
    case (Split sp)
    obtain r where r: "first_some (focus_candidate_from k s) (sp_children sp) = Ok r"
      "leaf_result s n r"
      using leaf_search_split [OF assms(1), of n sp] nd Split kid by auto
    have "shown_leaf s n l" if "sp_last_focused_descendant sp = Some l" "l \<in> dom (layout s)"
      "(l, n) \<in> (showing s)\<^sup>*" for l
      using that assms(3) nd Split by (fastforce simp: lfd_ok_def shown_leaf_def)
    then show ?thesis
      using r nd Split Suc.prems(1)
      by (auto simp: state_node_def visible_last_leaf_Ok [OF assms(1)] leaf_result_def
          split: option.split)
  next
    case (Tabs tb)
    then show ?thesis
      using leaf_search_tabs [OF assms(1), of n tb "focus_candidate_from k s"] nd kid
        active_or_first_ok [OF assms(2)] active_child_kid
      by (fastforce simp: state_node_def)
  qed
qed

lemma resolve_focus_candidate_Ok:
  assumes "forest (layout s)" and "tabs_ok s" and "lfd_ok s" and "n \<in> dom (layout s)"
  shows "\<exists>r. resolve_focus_candidate s n = Ok r \<and> leaf_result s n r"
  unfolding resolve_focus_candidate_def fuel_layout
  by (rule focus_candidate_from_Ok [OF assms]) (use card_below [OF assms(1,4)] in simp)

lemma visible_leaf_from_Ok:
  assumes "forest (layout s)" and "tabs_ok s"
    and "n \<in> dom (layout s)" and "card (below (layout s) n) \<le> k"
  shows "\<exists>r. visible_leaf_from k s n = Ok r \<and> leaf_result s n r"
  using assms(3,4)
proof (induction k arbitrary: n)
  case 0
  then show ?case using card_below_pos [OF assms(1)] by fastforce
next
  case (Suc k)
  obtain nd where nd: "bt_get (nodes s) n = Some nd" using Suc.prems(1) by (auto simp: dom_layout)
  have L: "layout s n = Some (cell_of nd)" using nd by (simp add: layout_def)
  have kid: "\<exists>r. visible_leaf_from k s x = Ok r \<and> leaf_result s x r"
    if "x \<in> set (child_ids nd)" for x
    using Suc.IH [of x] kid_fuel [OF assms(1) L Suc.prems(2)] that by simp
  show ?case
  proof (cases nd)
    case (BufferView v)
    then have "leaf_result s n (Some n)"
      using shown_leaf_view [OF assms(1)] nd by (simp add: leaf_result_def)
    with BufferView nd show ?thesis by (auto simp: state_node_def)
  next
    case (Split sp)
    then show ?thesis
      using leaf_search_split [OF assms(1), of n sp "visible_leaf_from k s"] nd kid
      by (auto simp: state_node_def)
  next
    case (Tabs tb)
    then show ?thesis
      using leaf_search_tabs [OF assms(1), of n tb "visible_leaf_from k s"] nd kid
        active_or_first_ok [OF assms(2)] active_child_kid
      by (fastforce simp: state_node_def)
  qed
qed

lemma resolve_visible_leaf_Ok:
  assumes "forest (layout s)" and "tabs_ok s" and "n \<in> dom (layout s)"
  shows "\<exists>r. resolve_visible_leaf s n = Ok r \<and> leaf_result s n r"
  unfolding resolve_visible_leaf_def fuel_layout
  by (rule visible_leaf_from_Ok [OF assms]) (use card_below [OF assms(1,3)] in simp)

end
