(* ===== verification/Server_Collect.thy ===== *)
theory Server_Collect
  imports Server_Walks
begin

text \<open>
  The walks that collect nodes: the leaves a node shows, the nodes of a subtree, the panes of a
  session; and the walks that look for an ancestor.
\<close>

section \<open>Collecting\<close>

lemma collect_visible_from_Ok:
  assumes "forest (layout s)" and "tabs_ok s"
    and "n \<in> dom (layout s)" and "card (below (layout s) n) \<le> k"
  shows "\<exists>xs. collect_visible_from k s n leaves = Ok (leaves @ xs) \<and> set xs = {l. shown_leaf s n l}"
  using assms(3,4)
proof (induction k arbitrary: n leaves)
  case 0
  then show ?case using card_below_pos [OF assms(1)] by fastforce
next
  case (Suc k)
  obtain nd where nd: "bt_get (nodes s) n = Some nd" using Suc.prems(1) by (auto simp: dom_layout)
  have L: "layout s n = Some (cell_of nd)" using nd by (simp add: layout_def)
  have kid: "\<exists>xs. collect_visible_from k s x ls = Ok (ls @ xs) \<and> set xs = {l. shown_leaf s x l}"
    if "x \<in> set (child_ids nd)" for x ls
    using Suc.IH [of x] kid_fuel [OF assms(1) L Suc.prems(2)] that by simp
  have fold: "\<exists>xs. fold_ok (collect_visible_from k s) ks ls = Ok (ls @ xs) \<and>
      set xs = {l. \<exists>x \<in> set ks. shown_leaf s x l}" if "set ks \<subseteq> set (child_ids nd)" for ks ls
    using that
  proof (induction ks arbitrary: ls)
    case (Cons x ks)
    obtain xs where xs: "collect_visible_from k s x ls = Ok (ls @ xs)" "set xs = {l. shown_leaf s x l}"
      using kid [of x ls] Cons.prems by auto
    obtain ys where ys: "fold_ok (collect_visible_from k s) ks (ls @ xs) = Ok ((ls @ xs) @ ys)"
      "set ys = {l. \<exists>x \<in> set ks. shown_leaf s x l}"
      using Cons.IH [of "ls @ xs"] Cons.prems by auto
    then show ?case using xs by (intro exI [of _ "xs @ ys"]) auto
  qed simp
  show ?case
  proof (cases nd)
    case (BufferView v)
    then show ?thesis
      using shown_leaf_view [OF assms(1)] nd by (auto simp: state_node_def)
  next
    case (Split sp)
    then have "shown_leaf s n l \<longleftrightarrow> (\<exists>x \<in> set (sp_children sp). shown_leaf s x l)" for l
      using shown_leaf_step [OF assms(1) nd] showing_kid [OF assms(1) nd] by auto
    then show ?thesis using fold [of "sp_children sp" leaves] Split nd by (simp add: state_node_def)
  next
    case (Tabs tb)
    have step: "shown_leaf s n l \<longleftrightarrow> (\<exists>x. active_child tb = Some x \<and> shown_leaf s x l)" for l
      using shown_leaf_step [OF assms(1) nd] showing_tabs [OF assms(1)] nd Tabs by simp
    have eq: "active_or_first_child tb = active_child tb"
      using active_or_first_ok [OF assms(2)] nd Tabs by simp
    show ?thesis
    proof (cases "active_child tb")
      case None
      then show ?thesis using nd Tabs eq step by (simp add: state_node_def)
    next
      case (Some x)
      then show ?thesis
        using kid [of x leaves] active_child_kid [OF Some] nd Tabs eq step by (simp add: state_node_def)
    qed
  qed
qed

lemma collect_visible_Ok:
  assumes "forest (layout s)" and "tabs_ok s" and "n \<in> dom (layout s)"
  shows "\<exists>xs. collect_visible_leaf_ids s n leaves = Ok (leaves @ xs) \<and> set xs = {l. shown_leaf s n l}"
  unfolding collect_visible_leaf_ids_def fuel_layout
  by (rule collect_visible_from_Ok [OF assms]) (use card_below [OF assms(1,3)] in simp)

lemma visible_leaf_ids_Ok:
  assumes "forest (layout s)" and "tabs_ok s" and "n \<in> dom (layout s)"
  shows "\<exists>xs. visible_leaf_ids s n = Ok xs \<and> set xs = {l. shown_leaf s n l}"
  unfolding visible_leaf_ids_def using collect_visible_Ok [OF assms, of "[]"] by simp

lemma collect_subtree_from_Ok:
  assumes "forest (layout s)" and "n \<in> dom (layout s)" and "card (below (layout s) n) \<le> k"
    and "dom (bt_get seen) \<inter> below (layout s) n = {}"
  shows "\<exists>seen'. collect_subtree_from k s n seen = Ok seen' \<and>
    dom (bt_get seen') = dom (bt_get seen) \<union> below (layout s) n"
  using assms(2-4)
proof (induction k arbitrary: n seen)
  case 0
  then show ?case using card_below_pos [OF assms(1)] by fastforce
next
  case (Suc k)
  let ?L = "layout s"
  obtain nd where nd: "bt_get (nodes s) n = Some nd" using Suc.prems(1) by (auto simp: dom_layout)
  have L: "?L n = Some (cell_of nd)" using nd by (simp add: layout_def)
  have fold: "\<exists>seen'. fold_ok (collect_subtree_from k s) ks seen = Ok seen' \<and>
      dom (bt_get seen') = dom (bt_get seen) \<union> (\<Union>x \<in> set ks. below ?L x)"
    if "set ks \<subseteq> set (child_ids nd)" "distinct ks"
      "\<forall>x \<in> set ks. dom (bt_get seen) \<inter> below ?L x = {}" for ks seen
    using that
  proof (induction ks arbitrary: seen)
    case (Cons x ks)
    have x: "x \<in> set (ce_kids (cell_of nd))" using Cons.prems by simp
    obtain m where m: "collect_subtree_from k s x seen = Ok m"
      "dom (bt_get m) = dom (bt_get seen) \<union> below ?L x"
      using Suc.IH [of x seen] kid_fuel [OF assms(1) L Suc.prems(2) x] Cons.prems(3) by auto
    have "below ?L x \<inter> below ?L y = {}" if "y \<in> set ks" for y
      using siblings_disjoint [OF assms(1), of x n y] forest_kid_up [OF assms(1) L] that Cons.prems
      by auto
    then have "\<forall>y \<in> set ks. dom (bt_get m) \<inter> below ?L y = {}"
      using m(2) Cons.prems(3) by (simp add: Int_Un_distrib2)
    then obtain m' where "fold_ok (collect_subtree_from k s) ks m = Ok m'"
      "dom (bt_get m') = dom (bt_get m) \<union> (\<Union>x \<in> set ks. below ?L x)"
      using Cons.IH [of m] Cons.prems(1,2) by auto
    then show ?case using m by auto
  qed simp
  have unseen: "n \<notin> dom (bt_get seen)" using Suc.prems(3) in_below_self by blast
  have "\<forall>x \<in> set (child_ids nd). dom (bt_get (bt_insert n () seen)) \<inter> below ?L x = {}"
  proof
    fix x
    assume x: "x \<in> set (child_ids nd)"
    then have "(x, n) \<in> up ?L" using forest_kid_up [OF assms(1) L] by simp
    then have "n \<notin> below ?L x" by (rule self_not_below_kid [OF assms(1)])
    moreover have "below ?L x \<subseteq> below ?L n" using below_kids [OF assms(1) L] x by auto
    ultimately show "dom (bt_get (bt_insert n () seen)) \<inter> below ?L x = {}"
      using Suc.prems(3) by (auto split: if_splits)
  qed
  then obtain m where "fold_ok (collect_subtree_from k s) (child_ids nd) (bt_insert n () seen) = Ok m"
    "dom (bt_get m) = dom (bt_get (bt_insert n () seen)) \<union> (\<Union>x \<in> set (child_ids nd). below ?L x)"
    using fold [of "child_ids nd" "bt_insert n () seen"] forest_distinct [OF assms(1) L] by auto
  moreover have "dom (bt_get (bt_insert n () seen)) = insert n (dom (bt_get seen))"
    by (auto split: if_splits)
  ultimately show ?case
    using nd below_kids [OF assms(1) L] unseen
    by (auto simp: state_node_def)
qed

lemma collect_subtree_Ok:
  assumes "forest (layout s)" and "n \<in> dom (layout s)"
    and "dom (bt_get seen) \<inter> below (layout s) n = {}"
  shows "\<exists>seen'. collect_subtree_nodes s n seen = Ok seen' \<and>
    dom (bt_get seen') = dom (bt_get seen) \<union> below (layout s) n"
  unfolding collect_subtree_nodes_def fuel_layout
  by (rule collect_subtree_from_Ok [OF assms(1,2) _ assms(3)]) (use card_below [OF assms(1,2)] in simp)

section \<open>Ancestors\<close>

lemma window_from_Ok:
  assumes "forest (layout s)" and "n \<in> dom (layout s)" and "card (above (layout s) n) \<le> k"
  shows "\<exists>r. window_from k s root n = Ok r \<and>
    (case r of
       Some w \<Rightarrow> n \<in> below (layout s) w \<and> (w, root) \<in> up (layout s)
     | None \<Rightarrow> n = root \<or> n \<notin> below (layout s) root)"
  using assms(2,3)
proof (induction k arbitrary: n)
  case 0
  then show ?case using card_above_pos [OF assms(1)] by fastforce
next
  case (Suc k)
  obtain c where c: "layout s n = Some c" using Suc.prems(1) by auto
  show ?case
  proof (cases "ce_parent c")
    case None
    then have "n = root \<or> n \<notin> below (layout s) root"
      using c by (auto simp: below_def up_def elim: converse_rtranclE)
    with None c show ?thesis by (simp add: node_parent_layout)
  next
    case (Some p)
    then have up: "(n, p) \<in> up (layout s)" using c by (rule upI [rotated])
    show ?thesis
    proof (cases "p = root")
      case True
      then show ?thesis using Some c up by (simp add: node_parent_layout)
    next
      case False
      have "p \<in> dom (layout s)" "card (above (layout s) p) \<le> k"
        using up_dom [OF assms(1) up] card_above_less [OF assms(1) up] Suc.prems(2) by auto
      then obtain r where r: "window_from k s root p = Ok r"
        "case r of Some w \<Rightarrow> p \<in> below (layout s) w \<and> (w, root) \<in> up (layout s)
          | None \<Rightarrow> p = root \<or> p \<notin> below (layout s) root"
        using Suc.IH by blast
      moreover have "n \<in> below (layout s) w" if "p \<in> below (layout s) w" for w
        using up that by (auto simp: below_def intro: converse_rtrancl_into_rtrancl)
      ultimately show ?thesis
        using False Some c below_step [OF up] by (auto simp: node_parent_layout split: option.splits)
    qed
  qed
qed

lemma window_of_leaf_Ok:
  assumes "forest (layout s)" and "n \<in> dom (layout s)" and "bt_get (sessions s) sid = Some se"
  shows "\<exists>r. window_of_leaf s sid n = Ok r \<and>
    (case r of
       Some w \<Rightarrow> n \<in> below (layout s) w \<and> (w, se_root_node se) \<in> up (layout s)
     | None \<Rightarrow> n = se_root_node se \<or> n \<notin> below (layout s) (se_root_node se))"
  using window_from_Ok [OF assms(1,2), of "fuel s" "se_root_node se"] card_above [OF assms(1,2)] assms(3)
  by (simp add: window_of_leaf_def state_session_def fuel_layout del: window_from.simps)

lemma tabs_ancestor_from_Ok:
  assumes "forest (layout s)" and "n \<in> dom (layout s)" and "card (above (layout s) n) < k"
  shows "\<exists>r. tabs_ancestor_from k s (Some n) = Ok r \<and>
    (case r of
       Some t \<Rightarrow> n \<in> below (layout s) t \<and> (\<exists>tb. bt_get (nodes s) t = Some (Tabs tb))
     | None \<Rightarrow> \<forall>t tb. n \<in> below (layout s) t \<longrightarrow> bt_get (nodes s) t \<noteq> Some (Tabs tb))"
  using assms(2,3)
proof (induction k arbitrary: n)
  case (Suc k)
  obtain nd where nd: "bt_get (nodes s) n = Some nd" using Suc.prems(1) by (auto simp: dom_layout)
  have c: "layout s n = Some (cell_of nd)" using nd by (simp add: layout_def)
  show ?case
  proof (cases "is_tabs nd")
    case True
    then show ?thesis using nd by (auto simp: state_node_def is_tabs_iff)
  next
    case False
    show ?thesis
    proof (cases "node_par nd")
      case None
      then have "n \<in> below (layout s) t \<Longrightarrow> t = n" for t
        using c by (auto simp: below_def up_def elim: converse_rtranclE)
      moreover have "k \<noteq> 0" using Suc.prems card_above_pos [OF assms(1) Suc.prems(1)] by auto
      ultimately show ?thesis
        using False None nd c
        by (cases k) (fastforce simp: state_node_def node_parent_layout is_tabs_iff)+
    next
      case (Some p)
      then have up: "(n, p) \<in> up (layout s)" using c by (auto intro: upI)
      have "p \<in> dom (layout s)" "card (above (layout s) p) < k"
        using up_dom [OF assms(1) up] card_above_less [OF assms(1) up] Suc.prems(2) by auto
      then obtain r where r: "tabs_ancestor_from k s (Some p) = Ok r"
        "case r of Some t \<Rightarrow> p \<in> below (layout s) t \<and> (\<exists>tb. bt_get (nodes s) t = Some (Tabs tb))
          | None \<Rightarrow> \<forall>t tb. p \<in> below (layout s) t \<longrightarrow> bt_get (nodes s) t \<noteq> Some (Tabs tb)"
        using Suc.IH by blast
      have "n \<in> below (layout s) t \<longleftrightarrow> t = n \<or> p \<in> below (layout s) t" for t
        using below_step [OF up, of t] up
        by (cases "t = n") (auto simp: below_def intro: converse_rtrancl_into_rtrancl)
      then show ?thesis
        using r False Some nd c
        by (auto simp: state_node_def node_parent_layout is_tabs_iff split: option.splits)
    qed
  qed
qed simp

end
