(* ===== verification/Server_Removal.thy ===== *)
theory Server_Removal
  imports Server_Collect
begin

text \<open>
  Removing a subtree: \<open>remove_subtree_nodes\<close> takes away exactly the nodes at and below a node, and
  detaches exactly the buffers they showed.
\<close>

section \<open>Pruning\<close>

text \<open>Every attached buffer is attached to a view of it.\<close>

definition attach_ok :: "server_state \<Rightarrow> bool" where
  "attach_ok s \<longleftrightarrow>
     (\<forall>bid b m. bt_get (buffers s) bid = Some b \<longrightarrow> bu_attachment b = Attached m \<longrightarrow>
        (\<exists>v. bt_get (nodes s) m = Some (BufferView v) \<and> bv_buffer_id v = bid))"

definition detach_from :: "node_id set \<Rightarrow> buffer \<Rightarrow> buffer" where
  "detach_from D b =
     (case bu_attachment b of
        Attached m \<Rightarrow> if m \<in> D then b\<lparr>bu_attachment := Detached\<rparr> else b
      | Detached \<Rightarrow> b)"

definition prune :: "node_id set \<Rightarrow> server_state \<Rightarrow> server_state" where
  "prune D s = s\<lparr>nodes := bt_filter_keys (\<lambda>m. m \<notin> D) (nodes s),
                  buffers := bt_map_values (detach_from D) (buffers s)\<rparr>"

lemma prune_simps [simp]:
  "sessions (prune D s) = sessions s" "floating (prune D s) = floating s"
  "environment (prune D s) = environment s" "session_ids (prune D s) = session_ids s"
  "buffer_ids (prune D s) = buffer_ids s" "node_ids (prune D s) = node_ids s"
  "floating_ids (prune D s) = floating_ids s"
  "bt_get (nodes (prune D s)) n = (if n \<in> D then None else bt_get (nodes s) n)"
  "bt_get (buffers (prune D s)) bid = map_option (detach_from D) (bt_get (buffers s) bid)"
  by (simp_all add: prune_def)

lemma layout_prune [simp]: "layout (prune D s) n = (if n \<in> D then None else layout s n)"
  by (simp add: layout_def)

lemma detach_from_empty [simp]: "detach_from {} b = b"
  by (simp add: detach_from_def split: buffer_attachment.split)

lemma prune_empty [simp]: "prune {} s = s"
proof -
  have "bt_filter_keys (\<lambda>m. m \<notin> {}) (nodes s) = nodes s"
    by (rule bt.map_ext) simp
  moreover have "bt_map_values (detach_from {}) (buffers s) = buffers s"
    by (rule bt.map_ext) (simp add: option.map_id0 [unfolded id_def] option.map_ident
        flip: map_option_cong)
  ultimately show ?thesis by (simp add: prune_def)
qed

lemma detach_from_Un: "detach_from E (detach_from D b) = detach_from (D \<union> E) b"
  by (auto simp: detach_from_def split: buffer_attachment.split)

lemma prune_prune: "prune E (prune D s) = prune (D \<union> E) s"
proof -
  have "nodes (prune E (prune D s)) = nodes (prune (D \<union> E) s)"
    by (rule bt.map_ext) auto
  moreover have "buffers (prune E (prune D s)) = buffers (prune (D \<union> E) s)"
    by (rule bt.map_ext) (auto simp: option.map_comp comp_def detach_from_Un)
  ultimately show ?thesis by (simp add: prune_def)
qed

text \<open>The last two steps of the removal of one node: detach its buffer, drop its record.\<close>

lemma detach_and_drop:
  assumes "attach_ok s" and "bt_get (nodes s) n = Some nd" and "node_id_of nd = n" and "n \<notin> D"
  shows "pbind (case nd of
            BufferView v \<Rightarrow> detach_buffer_if_attached_to (bv_buffer_id v) (bv_id v)
          | _ \<Rightarrow> ret ()) (\<lambda>_. drop_node n) (prune D s) = (Ok (), prune (insert n D) s)"
proof -
  have others: "detach_from (insert n D) b = detach_from D b"
    if "bt_get (buffers s) bid = Some b" and "bu_attachment b \<noteq> Attached n" for bid b
    using that by (auto simp: detach_from_def split: buffer_attachment.split)
  have nodes: "bt_remove n (nodes (prune D s)) = nodes (prune (insert n D) s)"
    by (rule bt.map_ext) auto
  show ?thesis
  proof (cases "\<exists>bid b. bt_get (buffers s) bid = Some b \<and> bu_attachment b = Attached n")
    case False
    then have "buffers (prune D s) = buffers (prune (insert n D) s)"
      by (intro bt.map_ext) (auto simp: others map_option_case split: option.split)
    moreover have "map_option bu_attachment (bt_get (buffers (prune D s)) bid) \<noteq> Some (Attached n)"
      for bid using False by (auto simp: detach_from_def split: buffer_attachment.splits if_splits)
    then have "(case nd of BufferView v \<Rightarrow> detach_buffer_if_attached_to (bv_buffer_id v) (bv_id v)
        | _ \<Rightarrow> ret ()) (prune D s) = (Ok (), prune D s)"
      using assms(3)
      by (cases nd) (simp_all add: bind_run step_run resume_run detach_buffer_if_attached_to_def
          del: prune_simps map_option_eq_Some)
    ultimately show ?thesis
      using nodes by (simp add: bind_run resume_run step_run drop_node_def prune_def)
  next
    case True
    then obtain bid b where b: "bt_get (buffers s) bid = Some b" "bu_attachment b = Attached n" by auto
    obtain v where v: "nd = BufferView v" "bv_buffer_id v = bid"
      using assms(1,2) b unfolding attach_ok_def by fastforce
    have "bu_attachment b' \<noteq> Attached n" if "bt_get (buffers s) bid' = Some b'" "bid' \<noteq> bid" for bid' b'
      using assms(1,2) that v unfolding attach_ok_def by fastforce
    then have "bt_insert bid (b\<lparr>bu_attachment := Detached\<rparr>) (buffers (prune D s)) =
        buffers (prune (insert n D) s)"
      using b by (intro bt.map_ext)
        (auto simp: detach_from_def map_option_case split: option.split buffer_attachment.split)
    moreover have "bt_get (buffers (prune D s)) bid = Some b"
      using b assms(4) by (simp add: detach_from_def)
    ultimately show ?thesis
      using nodes v b assms(3)
      by (simp add: bind_run step_run resume_run detach_buffer_if_attached_to_def drop_node_def
          detach_buffer_raw_def buffer_mut_def state_buffer_def prune_def)
  qed
qed

lemma remove_subtree_from_prune:
  assumes "forest (layout s)" and "attach_ok s"
    and "n \<in> dom (layout s)" and "card (below (layout s) n) \<le> k" and "D \<inter> below (layout s) n = {}"
  shows "remove_subtree_from k n (prune D s) = (Ok (), prune (D \<union> below (layout s) n) s)"
  using assms(3-5)
proof (induction k arbitrary: n D)
  case 0
  then show ?case using card_below_pos [OF assms(1)] by fastforce
next
  case (Suc k)
  let ?L = "layout s"
  obtain nd where nd: "bt_get (nodes s) n = Some nd" using Suc.prems(1) by (auto simp: dom_layout)
  have L: "?L n = Some (cell_of nd)" using nd by (simp add: layout_def)
  have nid: "node_id_of nd = n" using forest_id [OF assms(1) L] by simp
  let ?K = "\<Union>x \<in> set (child_ids nd). below ?L x"
  have kids: "below ?L n = insert n ?K" using below_kids [OF assms(1) L] by simp
  have fresh: "n \<notin> D" "n \<notin> ?K"
    using Suc.prems(3) self_not_below_kid [OF assms(1)] forest_kid_up [OF assms(1) L] kids by auto
  have loop: "for_each ks (remove_subtree_from k) (prune D s) =
      (Ok (), prune (D \<union> (\<Union>x \<in> set ks. below ?L x)) s)"
    if "set ks \<subseteq> set (child_ids nd)" "distinct ks" "\<forall>x \<in> set ks. D \<inter> below ?L x = {}" for ks D
    using that
  proof (induction ks arbitrary: D)
    case (Cons x ks)
    have x: "x \<in> set (ce_kids (cell_of nd))" using Cons.prems by simp
    have "remove_subtree_from k x (prune D s) = (Ok (), prune (D \<union> below ?L x) s)"
      using Suc.IH [of x D] kid_fuel [OF assms(1) L Suc.prems(2) x] Cons.prems(3) by simp
    moreover have "below ?L x \<inter> below ?L y = {}" if "y \<in> set ks" for y
      using siblings_disjoint [OF assms(1), of x n y] forest_kid_up [OF assms(1) L] that Cons.prems
      by auto
    then have "\<forall>y \<in> set ks. (D \<union> below ?L x) \<inter> below ?L y = {}"
      using Cons.prems(3) by (simp add: Int_Un_distrib2)
    ultimately show ?case
      using Cons.IH [of "D \<union> below ?L x"] Cons.prems(1,2)
      by (simp add: bind_run resume_run Un_assoc)
  qed (simp add: ret_def)
  have "\<forall>x \<in> set (child_ids nd). D \<inter> below ?L x = {}" using Suc.prems(3) kids by auto
  then have "for_each (child_ids nd) (remove_subtree_from k) (prune D s) = (Ok (), prune (D \<union> ?K) s)"
    using loop [of "child_ids nd" D] forest_distinct [OF assms(1) L] by simp
  moreover have "state_node (prune D s) n = Ok nd" "state_node (prune (D \<union> ?K) s) n = Ok nd"
    using nd fresh by (simp_all add: state_node_def)
  moreover have "insert n (D \<union> ?K) = D \<union> below ?L n" using kids by auto
  ultimately show ?case
    using detach_and_drop [OF assms(2) nd nid, of "D \<union> ?K"] fresh
    by (simp add: bind_run [of "reads _"] bind_run [of "for_each _ _"] step_run resume_run)
qed

lemma remove_subtree_prune:
  assumes "forest (layout s)" and "attach_ok s" and "n \<in> dom (layout s)"
  shows "remove_subtree_nodes n s = (Ok (), prune (below (layout s) n) s)"
  using remove_subtree_from_prune [OF assms, of "fuel s" "{}"] card_below [OF assms(1,3)]
  by (simp add: remove_subtree_nodes_def with_fuel_def fuel_layout del: remove_subtree_from.simps)

lemma detach_from_Attached:
  "bu_attachment (detach_from D b) = Attached m \<longleftrightarrow> bu_attachment b = Attached m \<and> m \<notin> D"
  by (auto simp: detach_from_def split: buffer_attachment.split)

lemma attach_ok_prune: "attach_ok s \<Longrightarrow> attach_ok (prune D s)"
  unfolding attach_ok_def by (auto simp: detach_from_Attached)

text \<open>A parentless tree can be cut off: what is left is still a forest.\<close>

lemma up_restrict:
  assumes "\<And>n. L' n = (if n \<in> D then None else L n)"
  shows "up L' = {(n, p) \<in> up L. n \<notin> D}"
  by (auto simp: up_def assms split: if_splits)

lemma forest_prune:
  assumes "forest L" and "parentless L r" and "\<And>n. L' n = (if n \<in> below L r then None else L n)"
  shows "forest L'"
proof -
  let ?D = "below L r"
  have up': "up L' = {(n, p) \<in> up L. n \<notin> ?D}" by (rule up_restrict) (rule assms(3))
  have out: "p \<notin> ?D" if "(n, p) \<in> up L" "n \<notin> ?D" for n p
    using that below_step [OF that(1), of r] by (cases "n = r") auto
  have "acyclic (up L')"
    using acyclic_subset [OF forest_acyclic [OF assms(1)], of "up L'"] up' by auto
  moreover have "finite (dom L')"
    by (rule finite_subset [OF _ forest_finite [OF assms(1)]]) (auto simp: assms(3) split: if_splits)
  moreover have "\<exists>d. L' k = Some d \<and> ce_parent d = Some n \<and> ce_session d = ce_session c"
    if "L' n = Some c" "k \<in> set (ce_kids c)" for n c k
  proof -
    have n: "L n = Some c" "n \<notin> ?D" using that(1) by (auto simp: assms(3) split: if_splits)
    then have up: "(k, n) \<in> up L" using forest_kid_up [OF assms(1)] that(2) by blast
    have "k \<noteq> r" using up assms(2) parentless_no_up by blast
    then have "k \<notin> ?D" using below_step [OF up] n(2) by auto
    then show ?thesis using forest_kid [OF assms(1) n(1) that(2)] by (metis assms(3))
  qed
  moreover have "\<exists>d. L' p = Some d \<and> n \<in> set (ce_kids d)"
    if "L' n = Some c" "ce_parent c = Some p" for n c p
  proof -
    have n: "L n = Some c" "n \<notin> ?D" using that(1) by (auto simp: assms(3) split: if_splits)
    then have "p \<notin> ?D" using out upI [of L n c p] n that(2) by blast
    then show ?thesis using forest_parent [OF assms(1) n(1) that(2)] by (metis assms(3))
  qed
  moreover have "ce_id c = n \<and> distinct (ce_kids c)" if "L' n = Some c" for n c
    using that assms(1) forest_id forest_distinct by (fastforce simp: assms(3) split: if_splits)
  ultimately show ?thesis unfolding forest_def by blast
qed

end
