(* ===== verification/Server_Frame.thy ===== *)
theory Server_Frame
  imports Server_Removal
begin

text \<open>
  What an operation leaves alone. \<open>keeps f m\<close> says that \<open>m\<close>, however it ends, does not change \<open>f\<close>
  of the state; the rules in \<open>frame\<close> derive it from the structure of a procedure. \<open>quiet\<close> erases
  what the focus methods are about (focused panes, active tabs, activity), so \<open>keeps quiet\<close> says
  that a method changes nothing else.
\<close>

section \<open>Frames\<close>

definition preserves :: "('s \<Rightarrow> bool) \<Rightarrow> ('s, 'e, 'a) proc \<Rightarrow> bool" where
  "preserves P m \<longleftrightarrow> (\<forall>s. P s \<longrightarrow> P (snd (m s)))"

definition keeps :: "('s \<Rightarrow> 'b) \<Rightarrow> ('s, 'e, 'a) proc \<Rightarrow> bool" where
  "keeps f m \<longleftrightarrow> (\<forall>s. f (snd (m s)) = f s)"

named_theorems frame \<open>rules for what a procedure keeps\<close>

lemma preservesD: "preserves P m \<Longrightarrow> P s \<Longrightarrow> m s = (r, t) \<Longrightarrow> P t"
  by (metis preserves_def snd_conv)

lemma keepsD: "keeps f m \<Longrightarrow> m s = (r, t) \<Longrightarrow> f t = f s"
  by (metis keeps_def snd_conv)

lemma keeps_preserves: "keeps f m \<longleftrightarrow> (\<forall>v. preserves (\<lambda>s. f s = v) m)"
  by (auto simp: keeps_def preserves_def)

lemma preserves_base [frame]:
  "preserves P (ret x)" "preserves P (raise e)" "preserves P panic" "preserves P diverge"
  "preserves P (reads g)" "preserves P (gets h)"
  by (simp_all add: preserves_def ret_def raise_def panic_def diverge_def reads_def gets_def)

lemma preserves_pbind [frame]:
  "preserves P m \<Longrightarrow> (\<And>x. preserves P (f x)) \<Longrightarrow> preserves P (pbind m f)"
  by (auto simp: preserves_def pbind_def split: prod.split outcome.split)

lemma preserves_match [frame]:
  "preserves P m \<Longrightarrow> (\<And>x. preserves P (f x)) \<Longrightarrow> (\<And>e. preserves P (h e)) \<Longrightarrow>
   preserves P (match_result m f h)"
  by (auto simp: preserves_def match_result_def split: prod.split outcome.split)

lemma preserves_modify: "(\<And>s. P s \<Longrightarrow> P (u s)) \<Longrightarrow> preserves P (modify u)"
  by (simp add: preserves_def modify_def)

lemma preserves_with_fuel [frame]: "(\<And>k. preserves P (w k)) \<Longrightarrow> preserves P (with_fuel w)"
  by (simp add: preserves_def with_fuel_def)

lemma preserves_for_each [frame]:
  "(\<And>x. preserves P (f x)) \<Longrightarrow> preserves P (for_each xs f)"
  by (induction xs) (auto intro!: frame)

lemma preserves_fold_proc [frame]:
  "(\<And>x a. preserves P (f x a)) \<Longrightarrow> preserves P (fold_proc f xs a)"
  by (induction xs arbitrary: a) (auto intro!: frame)

lemma preserves_case_option [frame]:
  "preserves P m \<Longrightarrow> (\<And>x. preserves P (f x)) \<Longrightarrow> preserves P (case z of None \<Rightarrow> m | Some x \<Rightarrow> f x)"
  by (cases z) simp_all

lemma preserves_if [frame]:
  "preserves P m \<Longrightarrow> preserves P m' \<Longrightarrow> preserves P (if c then m else m')"
  by simp

lemma preserves_case_node [frame]:
  "(\<And>v. preserves P (f v)) \<Longrightarrow> (\<And>sp. preserves P (g sp)) \<Longrightarrow> (\<And>tb. preserves P (h tb)) \<Longrightarrow>
   preserves P (case nd of BufferView v \<Rightarrow> f v | Split sp \<Rightarrow> g sp | Tabs tb \<Rightarrow> h tb)"
  by (cases nd) simp_all

lemma keeps_base [frame]:
  "keeps f (ret x)" "keeps f (raise e)" "keeps f panic" "keeps f diverge"
  "keeps f (reads g)" "keeps f (gets h)"
  by (simp_all add: keeps_preserves frame)

lemma keeps_pbind [frame]: "keeps f m \<Longrightarrow> (\<And>x. keeps f (g x)) \<Longrightarrow> keeps f (pbind m g)"
  by (simp add: keeps_preserves frame)

lemma keeps_match [frame]:
  "keeps f m \<Longrightarrow> (\<And>x. keeps f (g x)) \<Longrightarrow> (\<And>e. keeps f (h e)) \<Longrightarrow> keeps f (match_result m g h)"
  by (simp add: keeps_preserves frame)

lemma keeps_with_fuel [frame]: "(\<And>k. keeps f (w k)) \<Longrightarrow> keeps f (with_fuel w)"
  by (simp add: keeps_preserves frame)

lemma keeps_for_each [frame]: "(\<And>x. keeps f (g x)) \<Longrightarrow> keeps f (for_each xs g)"
  by (simp add: keeps_preserves frame)

lemma keeps_fold_proc [frame]: "(\<And>x a. keeps f (g x a)) \<Longrightarrow> keeps f (fold_proc g xs a)"
  by (simp add: keeps_preserves frame)

lemma keeps_case_option [frame]:
  "keeps f m \<Longrightarrow> (\<And>x. keeps f (g x)) \<Longrightarrow> keeps f (case z of None \<Rightarrow> m | Some x \<Rightarrow> g x)"
  by (cases z) simp_all

lemma keeps_if [frame]: "keeps f m \<Longrightarrow> keeps f m' \<Longrightarrow> keeps f (if c then m else m')"
  by simp

lemma keeps_case_node [frame]:
  "(\<And>v. keeps f (a v)) \<Longrightarrow> (\<And>sp. keeps f (g sp)) \<Longrightarrow> (\<And>tb. keeps f (h tb)) \<Longrightarrow>
   keeps f (case nd of BufferView v \<Rightarrow> a v | Split sp \<Rightarrow> g sp | Tabs tb \<Rightarrow> h tb)"
  by (cases nd) simp_all

lemma keeps_modify: "(\<And>s. f (u s) = f s) \<Longrightarrow> keeps f (modify u)"
  by (simp add: keeps_def modify_def)

section \<open>Writes through references\<close>

lemma resume_ok_or:
  "resume (ok_or e x, s) f = (case x of None \<Rightarrow> (Err e, s) | Some y \<Rightarrow> f y s)"
  by (cases x) (simp_all add: resume_run)

lemma session_mut_run:
  "session_mut sid f s = (case bt_get (sessions s) sid of
      None \<Rightarrow> (Err (NotFound (UnknownSession sid)), s)
    | Some se \<Rightarrow> (Ok (), s\<lparr>sessions := bt_insert sid (f se) (sessions s)\<rparr>))"
  by (simp add: session_mut_def state_session_def bind_run step_run resume_ok_or split: option.split)

lemma node_mut_run:
  "node_mut n g s = (case bt_get (nodes s) n of
      None \<Rightarrow> (Err (NotFound (UnknownNode n)), s)
    | Some nd \<Rightarrow> (Ok (), s\<lparr>nodes := bt_insert n (g nd) (nodes s)\<rparr>))"
  by (simp add: node_mut_def state_node_def bind_run step_run resume_ok_or split: option.split)

lemma buffer_mut_run:
  "buffer_mut bid g s = (case bt_get (buffers s) bid of
      None \<Rightarrow> (Err (NotFound (UnknownBuffer bid)), s)
    | Some b \<Rightarrow> (Ok (), s\<lparr>buffers := bt_insert bid (g b) (buffers s)\<rparr>))"
  by (simp add: buffer_mut_def state_buffer_def bind_run step_run resume_ok_or split: option.split)

lemma floating_mut_run:
  "floating_mut fid g s = (case bt_get (floating s) fid of
      None \<Rightarrow> (Err (NotFound (UnknownFloating fid)), s)
    | Some f \<Rightarrow> (Ok (), s\<lparr>floating := bt_insert fid (g f) (floating s)\<rparr>))"
  by (simp add: floating_mut_def state_floating_def bind_run step_run resume_ok_or split: option.split)

lemma put_node_run: "put_node n nd s = (Ok (), s\<lparr>nodes := bt_insert n nd (nodes s)\<rparr>)"
  by (simp add: put_node_def step_run)

lemma drop_node_run: "drop_node n s = (Ok (), s\<lparr>nodes := bt_remove n (nodes s)\<rparr>)"
  by (simp add: drop_node_def step_run)

lemmas mut_run =
  session_mut_run node_mut_run buffer_mut_run floating_mut_run put_node_run drop_node_run

text \<open>Which maps an elementary write keeps.\<close>

lemma keeps_session_mut [frame]:
  "keeps nodes (session_mut sid f)" "keeps buffers (session_mut sid f)"
  "keeps floating (session_mut sid f)"
  unfolding session_mut_def by (intro frame keeps_modify; simp)+

lemma keeps_node_mut [frame]:
  "keeps sessions (node_mut n g)" "keeps buffers (node_mut n g)" "keeps floating (node_mut n g)"
  unfolding node_mut_def by (intro frame keeps_modify; simp)+

lemma keeps_buffer_mut [frame]:
  "keeps sessions (buffer_mut bid g)" "keeps nodes (buffer_mut bid g)"
  "keeps floating (buffer_mut bid g)"
  unfolding buffer_mut_def by (intro frame keeps_modify; simp)+

lemma keeps_put_node [frame]:
  "keeps sessions (put_node n nd)" "keeps buffers (put_node n nd)" "keeps floating (put_node n nd)"
  unfolding put_node_def by (intro frame keeps_modify; simp)+

text \<open>A write that an erasing function does not see.\<close>

lemma map_values_insert_same:
  assumes "bt_get m k = Some v" and "g (f v) = g v"
  shows "bt_map_values g (bt_insert k (f v) m) = bt_map_values g m"
  by (rule bt.map_ext) (use assms in auto)

lemma map_values_update_same:
  assumes "\<And>v. g (f v) = g v"
  shows "bt_map_values g (bt_update k f m) = bt_map_values g m"
  by (rule bt.map_ext) (auto simp: option.map_comp comp_def assms)

section \<open>States up to focus\<close>

definition quiet_session :: "session \<Rightarrow> session" where
  "quiet_session se =
     se\<lparr>se_focused_leaf := None, se_focused_floating := None, se_focus_history := []\<rparr>"

fun quiet_node :: "node \<Rightarrow> node" where
  "quiet_node (BufferView v) = BufferView (v\<lparr>bv_view := (bv_view v)\<lparr>vs_focused := False\<rparr>\<rparr>)"
| "quiet_node (Split sp) = Split (sp\<lparr>sp_last_focused_descendant := None\<rparr>)"
| "quiet_node (Tabs tb) = Tabs (tb\<lparr>tb_last_focused_descendant := None, tb_active := 0\<rparr>)"

definition quiet_floating :: "floating_window \<Rightarrow> floating_window" where
  "quiet_floating f = f\<lparr>fw_focused := False, fw_last_focused_leaf := None\<rparr>"

definition quiet_buffer :: "buffer \<Rightarrow> buffer" where
  "quiet_buffer b = b\<lparr>bu_activity := Idle\<rparr>"

definition quiet :: "server_state \<Rightarrow> server_state" where
  "quiet s = s\<lparr>sessions := bt_map_values quiet_session (sessions s),
               nodes := bt_map_values quiet_node (nodes s),
               floating := bt_map_values quiet_floating (floating s),
               buffers := bt_map_values quiet_buffer (buffers s)\<rparr>"

lemma quiet_session_mut [frame]:
  assumes "\<And>se. quiet_session (f se) = quiet_session se"
  shows "keeps quiet (session_mut sid f)"
  using assms
  by (auto simp: keeps_def session_mut_run quiet_def map_values_insert_same split: option.split)

lemma quiet_node_mut [frame]:
  assumes "\<And>nd. quiet_node (g nd) = quiet_node nd"
  shows "keeps quiet (node_mut n g)"
  using assms
  by (auto simp: keeps_def node_mut_run quiet_def map_values_insert_same split: option.split)

lemma quiet_buffer_mut [frame]:
  assumes "\<And>b. quiet_buffer (g b) = quiet_buffer b"
  shows "keeps quiet (buffer_mut bid g)"
  using assms
  by (auto simp: keeps_def buffer_mut_run quiet_def map_values_insert_same split: option.split)

lemma quiet_put_node:
  assumes "bt_get (nodes s) n = Some nd" and "quiet_node nd' = quiet_node nd"
  shows "quiet (s\<lparr>nodes := bt_insert n nd' (nodes s)\<rparr>) = quiet s"
  using map_values_insert_same [of "nodes s" n nd quiet_node "\<lambda>_. nd'"] assms by (simp add: quiet_def)

lemma quiet_cell: "cell_of (quiet_node nd) = cell_of nd"
  by (cases nd) (simp_all add: cell_of_def)

lemma quiet_layout: "layout (quiet s) = layout s"
  by (auto simp: layout_def quiet_def option.map_comp comp_def quiet_cell)

lemma quiet_eqD:
  assumes "quiet t = quiet s"
  shows "layout t = layout s"
    and "map_option quiet_session (bt_get (sessions t) sid) = map_option quiet_session (bt_get (sessions s) sid)"
    and "map_option quiet_floating (bt_get (floating t) fid) = map_option quiet_floating (bt_get (floating s) fid)"
    and "map_option quiet_buffer (bt_get (buffers t) bid) = map_option quiet_buffer (bt_get (buffers s) bid)"
    and "map_option quiet_node (bt_get (nodes t) n) = map_option quiet_node (bt_get (nodes s) n)"
proof -
  show "layout t = layout s" by (metis quiet_layout assms)
  have "bt_map_values quiet_session (sessions t) = bt_map_values quiet_session (sessions s)"
    "bt_map_values quiet_floating (floating t) = bt_map_values quiet_floating (floating s)"
    "bt_map_values quiet_buffer (buffers t) = bt_map_values quiet_buffer (buffers s)"
    "bt_map_values quiet_node (nodes t) = bt_map_values quiet_node (nodes s)"
    using arg_cong [OF assms, of sessions] arg_cong [OF assms, of floating]
      arg_cong [OF assms, of buffers] arg_cong [OF assms, of nodes] by (simp_all add: quiet_def)
  then show
    "map_option quiet_session (bt_get (sessions t) sid) = map_option quiet_session (bt_get (sessions s) sid)"
    "map_option quiet_floating (bt_get (floating t) fid) = map_option quiet_floating (bt_get (floating s) fid)"
    "map_option quiet_buffer (bt_get (buffers t) bid) = map_option quiet_buffer (bt_get (buffers s) bid)"
    "map_option quiet_node (bt_get (nodes t) n) = map_option quiet_node (bt_get (nodes s) n)"
    by (metis bt_get_map_values)+
qed

section \<open>The focus methods change nothing but focus\<close>

lemma quiet_session_simps [simp]:
  "quiet_session (se\<lparr>se_focused_leaf := x\<rparr>) = quiet_session se"
  "quiet_session (se\<lparr>se_focused_floating := y\<rparr>) = quiet_session se"
  "quiet_session (se\<lparr>se_focus_history := z\<rparr>) = quiet_session se"
  by (simp_all add: quiet_session_def)

lemma quiet_focus_through [simp]: "quiet_node (focus_through leaf child nd) = quiet_node nd"
  by (cases nd) (simp_all split: option.split)

lemma quiet_set_leaf_focus [frame]: "keeps quiet (set_leaf_focus leaf b)"
  by (auto simp: keeps_def set_leaf_focus_def state_node_def put_node_run bind_run step_run resume_ok_or
      split: option.split node.split intro!: quiet_put_node)

lemma quiet_clear_floating [frame]:
  "keeps quiet (modify (\<lambda>s. s\<lparr>floating := bt_update fid (\<lambda>f. f\<lparr>fw_focused := False\<rparr>) (floating s)\<rparr>))"
  by (rule keeps_modify) (simp add: quiet_def map_values_update_same quiet_floating_def)

lemma quiet_mark_floating [frame]: "keeps quiet (mark_floating_focus leaf own fid)"
  unfolding mark_floating_focus_def
  by (rule keeps_modify) (simp add: quiet_def map_values_update_same quiet_floating_def)

lemma quiet_clear_session_focus [frame]: "keeps quiet (clear_session_focus sid)"
  unfolding clear_session_focus_def by (intro frame) simp

lemma quiet_remember_focus [frame]: "keeps quiet (remember_focus sid leaf)"
  unfolding remember_focus_def by (intro frame) simp_all

lemma quiet_acknowledge [frame]: "keeps quiet (acknowledge_shown_activity sid)"
  unfolding acknowledge_shown_activity_def acknowledge_leaf_def
  by (intro frame) (simp add: quiet_buffer_def)

lemma quiet_set_buffer_activity [frame]: "keeps quiet (set_buffer_activity bid a)"
  unfolding set_buffer_activity_def by (intro frame) (simp add: quiet_buffer_def)

lemma quiet_focus_ancestors [frame]: "keeps quiet (focus_ancestors_from k leaf child)"
  by (induction k arbitrary: child) (auto intro!: frame)

lemma quiet_focus_leaf [frame]: "keeps quiet (focus_leaf sid leaf)"
  unfolding focus_leaf_def by (intro frame) simp

lemma quiet_heal_focus [frame]: "keeps quiet (heal_focus sid)"
  unfolding heal_focus_def heal_focus_root_def heal_focus_floating_def by (intro frame)

lemma quiet_focus_candidate_or_heal [frame]: "keeps quiet (focus_candidate_or_heal sid n)"
  unfolding focus_candidate_or_heal_def by (intro frame)

lemma quiet_select_ancestors [frame]: "keeps quiet (select_ancestors_from k leaf window child)"
  by (induction k arbitrary: child) (auto intro!: frame)

lemma quiet_select_pane [frame]: "keeps quiet (select_pane sid leaf)"
  unfolding select_pane_def by (intro frame)

lemma quiet_switch_tab [frame]: "keeps quiet (switch_tab n i)"
proof -
  have "quiet (snd (switch_tab n i s)) = quiet s" for s
  proof (cases "\<exists>tb. bt_get (nodes s) n = Some (Tabs tb) \<and> i < length (tb_tabs tb)")
    case True
    then obtain tb where tb: "bt_get (nodes s) n = Some (Tabs tb)" "i < length (tb_tabs tb)" by blast
    let ?s = "s\<lparr>nodes := bt_insert n (Tabs (tb\<lparr>tb_active := i\<rparr>)) (nodes s)\<rparr>"
    let ?m = "\<lambda>sid. pbind (reads (\<lambda>s. is_node_visible_in_session s sid n)) (\<lambda>v.
      if v then focus_candidate_or_heal sid (te_child (tb_tabs tb ! i)) else ret ())"
    have "snd (switch_tab n i s) = snd (?m (tb_session_id tb) ?s)"
      using tb by (simp add: switch_tab_def node_session_id_def state_node_def put_node_run
          bind_run step_run resume_run cong: run_congs)
    moreover have "keeps quiet (?m (tb_session_id tb))" by (intro frame)
    moreover have "quiet ?s = quiet s" using quiet_put_node [OF tb(1)] by simp
    ultimately show ?thesis by (simp add: keeps_def)
  next
    case False
    then show ?thesis
      by (cases "bt_get (nodes s) n"; cases "the (bt_get (nodes s) n)")
        (auto simp: switch_tab_def node_session_id_def state_node_def bind_run step_run resume_run
          cong: run_congs)
  qed
  then show ?thesis by (simp add: keeps_def)
qed

lemma quiet_focus_wrappers [frame]:
  "keeps quiet (focus_floating fid)" "keeps quiet (show_node sid n)" "keeps quiet (focus_last_pane sid)"
  "keeps quiet (select_root_tab sid i)" "keeps quiet (refocus_zoomed_subtree sid n)"
  unfolding focus_floating_def show_node_def focus_last_pane_def select_root_tab_def
    refocus_zoomed_subtree_def
  by (intro frame)+

end
