(* ===== verification/Server_Invariant.thy ===== *)
theory Server_Invariant
  imports Server_Frame
begin

text \<open>
  The invariant of the server state, and that the focus methods keep it.
\<close>

section \<open>The invariant\<close>

text \<open>Every view shows a buffer that exists.\<close>

definition views_ok :: "server_state \<Rightarrow> bool" where
  "views_ok s \<longleftrightarrow>
     (\<forall>n c bid. layout s n = Some c \<longrightarrow> ce_kind c = KView bid \<longrightarrow> (\<exists>b. bt_get (buffers s) bid = Some b))"

text \<open>The root of a session is a parentless tabs node of it; its floating windows are its own.\<close>

definition sessions_ok :: "server_state \<Rightarrow> bool" where
  "sessions_ok s \<longleftrightarrow>
     (\<forall>sid se. bt_get (sessions s) sid = Some se \<longrightarrow>
        se_id se = sid \<and> distinct (se_floating se) \<and>
        (\<exists>c. layout s (se_root_node se) = Some c \<and> ce_kind c = KTabs \<and> ce_parent c = None \<and>
             ce_session c = sid) \<and>
        (\<forall>fid \<in> set (se_floating se). \<exists>f. bt_get (floating s) fid = Some f \<and> fw_session_id f = sid))"

text \<open>
  A floating window is listed by its session, and its root is a parentless node of that session,
  no session's root and no other floating window's root.
\<close>

definition floating_ok :: "server_state \<Rightarrow> bool" where
  "floating_ok s \<longleftrightarrow>
     (\<forall>fid f. bt_get (floating s) fid = Some f \<longrightarrow>
        fw_id f = fid \<and>
        (\<exists>c. layout s (fw_root_node f) = Some c \<and> ce_parent c = None \<and> ce_session c = fw_session_id f) \<and>
        (\<exists>se. bt_get (sessions s) (fw_session_id f) = Some se \<and> fid \<in> set (se_floating se) \<and>
              se_root_node se \<noteq> fw_root_node f)) \<and>
     (\<forall>fid f gid g. bt_get (floating s) fid = Some f \<longrightarrow> bt_get (floating s) gid = Some g \<longrightarrow>
        fw_root_node f = fw_root_node g \<longrightarrow> fid = gid)"

definition structure_ok :: "server_state \<Rightarrow> bool" where
  "structure_ok s \<longleftrightarrow>
     forest (layout s) \<and> attach_ok s \<and> views_ok s \<and> sessions_ok s \<and> floating_ok s"

text \<open>A floating window a session remembers as focused is its own, if it is still there.\<close>

definition ff_ok :: "server_state \<Rightarrow> bool" where
  "ff_ok s \<longleftrightarrow>
     (\<forall>sid se fid f. bt_get (sessions s) sid = Some se \<longrightarrow> se_focused_floating se = Some fid \<longrightarrow>
        bt_get (floating s) fid = Some f \<longrightarrow> fw_session_id f = sid)"

definition inv :: "server_state \<Rightarrow> bool" where
  "inv s \<longleftrightarrow> structure_ok s \<and> tabs_ok s \<and> lfd_ok s \<and> ff_ok s"

lemma sessions_okD:
  assumes "sessions_ok s" and "bt_get (sessions s) sid = Some se"
  shows "se_id se = sid" and "distinct (se_floating se)"
    and "\<exists>c. layout s (se_root_node se) = Some c \<and> ce_kind c = KTabs \<and> ce_parent c = None \<and>
           ce_session c = sid"
    and "fid \<in> set (se_floating se) \<Longrightarrow> \<exists>f. bt_get (floating s) fid = Some f \<and> fw_session_id f = sid"
  using assms unfolding sessions_ok_def by blast+

lemma floating_okD:
  assumes "floating_ok s" and "bt_get (floating s) fid = Some f"
  shows "fw_id f = fid"
    and "\<exists>c. layout s (fw_root_node f) = Some c \<and> ce_parent c = None \<and> ce_session c = fw_session_id f"
    and "\<exists>se. bt_get (sessions s) (fw_session_id f) = Some se \<and> fid \<in> set (se_floating se) \<and>
           se_root_node se \<noteq> fw_root_node f"
    and "bt_get (floating s) gid = Some g \<Longrightarrow> fw_root_node f = fw_root_node g \<Longrightarrow> fid = gid"
  using assms unfolding floating_ok_def by blast+

lemma kind_of_view: "kind_of nd = KView b \<longleftrightarrow> (\<exists>v. nd = BufferView v \<and> bv_buffer_id v = b)"
  by (cases nd) auto

lemma attach_ok_layout:
  "attach_ok s \<longleftrightarrow>
     (\<forall>bid b m. bt_get (buffers s) bid = Some b \<longrightarrow> bu_attachment b = Attached m \<longrightarrow>
        (\<exists>c. layout s m = Some c \<and> ce_kind c = KView bid))"
proof -
  have "(\<exists>v. bt_get (nodes s) m = Some (BufferView v) \<and> bv_buffer_id v = bid) \<longleftrightarrow>
      (\<exists>c. layout s m = Some c \<and> ce_kind c = KView bid)" for m bid
    by (auto simp: layout_Some kind_of_view)
  then show ?thesis unfolding attach_ok_def by simp
qed

lemma quiet_session_eqD:
  "quiet_session x = quiet_session y \<Longrightarrow>
   se_id x = se_id y \<and> se_root_node x = se_root_node y \<and> se_floating x = se_floating y"
  by (cases x; cases y) (simp add: quiet_session_def)

lemma quiet_floating_eqD:
  "quiet_floating x = quiet_floating y \<Longrightarrow>
   fw_id x = fw_id y \<and> fw_root_node x = fw_root_node y \<and> fw_session_id x = fw_session_id y \<and>
   fw_visible x = fw_visible y"
  by (cases x; cases y) (simp add: quiet_floating_def)

lemma quiet_buffer_eqD:
  "quiet_buffer x = quiet_buffer y \<Longrightarrow> bu_id x = bu_id y \<and> bu_attachment x = bu_attachment y"
  by (cases x; cases y) (simp add: quiet_buffer_def)

lemma map_option_eqD: "map_option q x = map_option q y \<Longrightarrow> x = Some a \<Longrightarrow> \<exists>b. y = Some b \<and> q a = q b"
  by (cases y) auto

lemma quiet_session_D:
  assumes "quiet t = quiet s" and "bt_get (sessions t) sid = Some se"
  shows "\<exists>se'. bt_get (sessions s) sid = Some se' \<and> se_id se = se_id se' \<and>
      se_root_node se = se_root_node se' \<and> se_floating se = se_floating se'"
  using map_option_eqD [OF quiet_eqD(2) [OF assms(1)] assms(2)] quiet_session_eqD by blast

lemma quiet_floating_D:
  assumes "quiet t = quiet s" and "bt_get (floating t) fid = Some f"
  shows "\<exists>f'. bt_get (floating s) fid = Some f' \<and> fw_id f = fw_id f' \<and>
      fw_root_node f = fw_root_node f' \<and> fw_session_id f = fw_session_id f' \<and>
      fw_visible f = fw_visible f'"
  using map_option_eqD [OF quiet_eqD(3) [OF assms(1)] assms(2)] quiet_floating_eqD by blast

lemma quiet_buffer_D:
  assumes "quiet t = quiet s" and "bt_get (buffers t) bid = Some b"
  shows "\<exists>b'. bt_get (buffers s) bid = Some b' \<and> bu_id b = bu_id b' \<and> bu_attachment b = bu_attachment b'"
  using map_option_eqD [OF quiet_eqD(4) [OF assms(1)] assms(2)] quiet_buffer_eqD by blast

lemma quiet_structure:
  assumes "quiet t = quiet s" and "structure_ok s"
  shows "structure_ok t"
proof -
  note eq = quiet_eqD(1) [OF assms(1)]
  note qs = assms(1) [symmetric]
  have ok: "forest (layout s)" "attach_ok s" "views_ok s" "sessions_ok s" "floating_ok s"
    using assms(2) by (auto simp: structure_ok_def)
  have "attach_ok t"
    unfolding attach_ok_layout eq
  proof (intro allI impI)
    fix bid b m
    assume "bt_get (buffers t) bid = Some b" "bu_attachment b = Attached m"
    with quiet_buffer_D [OF assms(1)] obtain b' where
      "bt_get (buffers s) bid = Some b'" "bu_attachment b' = Attached m" by metis
    with ok(2) show "\<exists>c. layout s m = Some c \<and> ce_kind c = KView bid"
      unfolding attach_ok_layout by blast
  qed
  moreover have "views_ok t"
    unfolding views_ok_def eq
  proof (intro allI impI)
    fix n c bid
    assume "layout s n = Some c" "ce_kind c = KView bid"
    with ok(3) obtain b where "bt_get (buffers s) bid = Some b" unfolding views_ok_def by blast
    then show "\<exists>b. bt_get (buffers t) bid = Some b" using quiet_buffer_D [OF qs] by blast
  qed
  moreover have "sessions_ok t"
    unfolding sessions_ok_def eq
  proof (intro allI impI)
    fix sid se
    assume "bt_get (sessions t) sid = Some se"
    from quiet_session_D [OF assms(1) this] obtain se' where se':
      "bt_get (sessions s) sid = Some se'" "se_id se = se_id se'"
      "se_root_node se = se_root_node se'" "se_floating se = se_floating se'" by blast
    have "\<exists>f. bt_get (floating t) fid = Some f \<and> fw_session_id f = sid" if "fid \<in> set (se_floating se')" for fid
      using sessions_okD(4) [OF ok(4) se'(1) that] quiet_floating_D [OF qs] by metis
    then show "se_id se = sid \<and> distinct (se_floating se) \<and>
        (\<exists>c. layout s (se_root_node se) = Some c \<and> ce_kind c = KTabs \<and> ce_parent c = None \<and>
          ce_session c = sid) \<and>
        (\<forall>fid \<in> set (se_floating se). \<exists>f. bt_get (floating t) fid = Some f \<and> fw_session_id f = sid)"
      using sessions_okD(1-3) [OF ok(4) se'(1)] se' by simp
  qed
  moreover have "floating_ok t"
    unfolding floating_ok_def eq
  proof (intro conjI allI impI)
    fix fid f
    assume "bt_get (floating t) fid = Some f"
    from quiet_floating_D [OF assms(1) this] obtain f' where f':
      "bt_get (floating s) fid = Some f'" "fw_id f = fw_id f'" "fw_root_node f = fw_root_node f'"
      "fw_session_id f = fw_session_id f'" by blast
    show "fw_id f = fid"
      "\<exists>c. layout s (fw_root_node f) = Some c \<and> ce_parent c = None \<and> ce_session c = fw_session_id f"
      using floating_okD(1,2) [OF ok(5) f'(1)] f' by simp_all
    obtain se where "bt_get (sessions s) (fw_session_id f') = Some se" "fid \<in> set (se_floating se)"
      "se_root_node se \<noteq> fw_root_node f'"
      using floating_okD(3) [OF ok(5) f'(1)] by blast
    moreover from quiet_session_D [OF qs this(1)] obtain se' where
      "bt_get (sessions t) (fw_session_id f') = Some se'" "se_root_node se = se_root_node se'"
      "se_floating se = se_floating se'" by blast
    ultimately show "\<exists>se. bt_get (sessions t) (fw_session_id f) = Some se \<and> fid \<in> set (se_floating se) \<and>
        se_root_node se \<noteq> fw_root_node f"
      using f' by auto
  next
    fix fid f gid g
    assume "bt_get (floating t) fid = Some f" "bt_get (floating t) gid = Some g"
      "fw_root_node f = fw_root_node g"
    then show "fid = gid"
      using floating_okD(4) [OF ok(5)] quiet_floating_D [OF assms(1)] by metis
  qed
  ultimately show ?thesis using ok(1) eq by (simp add: structure_ok_def)
qed

section \<open>Panes and focus\<close>

text \<open>What the focus methods may do to a node: nothing to its cell, an active tab in range, and only
  panes remembered.\<close>

definition focus_inv :: "node_id \<Rightarrow> server_state \<Rightarrow> bool" where
  "focus_inv leaf s \<longleftrightarrow> tabs_ok s \<and> lfd_ok s \<and> is_view s leaf"

lemma is_view_cong: "layout t = layout s \<Longrightarrow> is_view t n \<longleftrightarrow> is_view s n"
  by (simp add: is_view_layout)

lemma layout_insert_same:
  assumes "bt_get (nodes s) n = Some nd" and "cell_of nd' = cell_of nd"
  shows "layout (s\<lparr>nodes := bt_insert n nd' (nodes s)\<rparr>) = layout s"
  using assms by (auto simp: layout_def fun_eq_iff)

lemma focus_inv_insert:
  assumes "focus_inv leaf s" and "bt_get (nodes s) n = Some nd" and "cell_of nd' = cell_of nd"
    and "active_ok nd'" and "memo nd' = memo nd \<or> memo nd' = Some leaf \<or> memo nd' = None"
  shows "focus_inv leaf (s\<lparr>nodes := bt_insert n nd' (nodes s)\<rparr>)"
proof -
  let ?t = "s\<lparr>nodes := bt_insert n nd' (nodes s)\<rparr>"
  have L: "layout ?t = layout s" by (rule layout_insert_same [OF assms(2,3)])
  have "tabs_ok ?t" using assms(1,4) by (auto simp: focus_inv_def tabs_ok_def split: if_splits)
  moreover have "lfd_ok ?t"
    unfolding lfd_ok_def L is_view_cong [OF L]
  proof (intro conjI allI impI)
    fix m md l
    assume "bt_get (nodes ?t) m = Some md" "memo md = Some l" "l \<in> dom (layout s)"
    then show "is_view s l"
      using assms(1,2,5) lfd_okD(1) [of s] unfolding focus_inv_def
      by (cases "m = n") (simp, metis option.inject option.distinct(1), simp)
  next
    fix fid f l
    assume "bt_get (floating ?t) fid = Some f" "fw_last_focused_leaf f = Some l" "l \<in> dom (layout s)"
    then show "is_view s l" using assms(1) unfolding focus_inv_def lfd_ok_def by simp
  qed
  ultimately show ?thesis using assms(1) is_view_cong [OF L] by (simp add: focus_inv_def)
qed

lemma focus_inv_other:
  assumes "nodes t = nodes s"
    and "\<And>fid f. bt_get (floating t) fid = Some f \<Longrightarrow>
      fw_last_focused_leaf f = Some leaf \<or>
      (\<exists>g. bt_get (floating s) fid = Some g \<and> fw_last_focused_leaf f = fw_last_focused_leaf g)"
    and "focus_inv leaf s"
  shows "focus_inv leaf t"
proof -
  have L: "layout t = layout s" using assms(1) by (simp add: layout_def fun_eq_iff)
  have "lfd_ok t"
    unfolding lfd_ok_def L is_view_cong [OF L] assms(1)
  proof (intro conjI allI impI)
    fix m md l
    assume "bt_get (nodes s) m = Some md" "memo md = Some l" "l \<in> dom (layout s)"
    then show "is_view s l" using assms(3) unfolding focus_inv_def lfd_ok_def by blast
  next
    fix fid f l
    assume f: "bt_get (floating t) fid = Some f" "fw_last_focused_leaf f = Some l" "l \<in> dom (layout s)"
    then show "is_view s l"
      using assms(2) [OF f(1)] assms(3) lfd_okD(2) [of s fid] unfolding focus_inv_def
      by (metis option.inject)
  qed
  then show ?thesis using assms(1,3) is_view_cong [OF L] by (simp add: focus_inv_def tabs_ok_def)
qed

lemma focus_through_ok:
  "active_ok nd \<Longrightarrow> active_ok (focus_through leaf child nd)"
  "cell_of (focus_through leaf child nd) = cell_of nd"
  "memo (focus_through leaf child nd) = memo nd \<or> memo (focus_through leaf child nd) = Some leaf"
  by (cases nd; auto simp: cell_of_def split: option.split dest: position_SomeD)+

lemma focus_inv_node_mut:
  assumes "\<And>nd. active_ok nd \<Longrightarrow> active_ok (g nd)" and "\<And>nd. cell_of (g nd) = cell_of nd"
    and "\<And>nd. memo (g nd) = memo nd \<or> memo (g nd) = Some leaf \<or> memo (g nd) = None"
  shows "preserves (focus_inv leaf) (node_mut n g)"
  unfolding preserves_def
proof (intro allI impI)
  fix s
  assume s: "focus_inv leaf s"
  show "focus_inv leaf (snd (node_mut n g s))"
  proof (cases "bt_get (nodes s) n")
    case (Some nd)
    then have "active_ok nd" using s by (auto simp: focus_inv_def tabs_ok_def)
    then show ?thesis
      using focus_inv_insert [OF s Some assms(2) assms(1) assms(3)] Some by (simp add: node_mut_run)
  qed (simp add: node_mut_run s)
qed

lemma focus_inv_sessions [frame]:
  "preserves (focus_inv leaf) (session_mut sid f)"
  "preserves (focus_inv leaf) (buffer_mut bid h)"
  by (auto simp: preserves_def session_mut_run buffer_mut_run split: option.split
      elim!: focus_inv_other [rotated 2])

lemma focus_inv_floating [frame]:
  "preserves (focus_inv leaf)
     (modify (\<lambda>s. s\<lparr>floating := bt_update fid (\<lambda>f. f\<lparr>fw_focused := b\<rparr>) (floating s)\<rparr>))"
  "preserves (focus_inv leaf) (mark_floating_focus leaf own fid)"
  unfolding mark_floating_focus_def
  by (auto intro!: preserves_modify elim!: focus_inv_other [rotated 2] split: if_splits)

lemma focus_inv_set_leaf_focus [frame]: "preserves (focus_inv leaf) (set_leaf_focus n b)"
  by (auto simp: preserves_def set_leaf_focus_def state_node_def put_node_run bind_run step_run
      resume_ok_or cell_of_def split: option.split node.split intro!: focus_inv_insert)

lemma focus_inv_clear [frame]: "preserves (focus_inv leaf) (clear_session_focus sid)"
  unfolding clear_session_focus_def by (intro frame)

lemma focus_inv_remember [frame]: "preserves (focus_inv leaf) (remember_focus sid n)"
  unfolding remember_focus_def by (intro frame)

lemma focus_inv_acknowledge [frame]:
  "preserves (focus_inv leaf) (acknowledge_shown_activity sid)"
  "preserves (focus_inv leaf) (set_buffer_activity bid a)"
  unfolding acknowledge_shown_activity_def acknowledge_leaf_def set_buffer_activity_def
  by (intro frame)+

lemma focus_inv_focus_through [frame]:
  "preserves (focus_inv leaf) (node_mut n (focus_through leaf child))"
  by (rule focus_inv_node_mut) (use focus_through_ok in blast)+

lemma focus_inv_ancestors [frame]: "preserves (focus_inv leaf) (focus_ancestors_from k leaf child)"
  by (induction k arbitrary: child) (auto intro!: frame)

end
