(* ===== verification/Server_Focus_Correct.thy ===== *)
theory Server_Focus_Correct
  imports Server_Invariant
begin

text \<open>
  Correctness of focusing: \<open>focus_leaf\<close> succeeds on every pane of a session's layout or of one of
  its visible floating windows, focuses it and shows it; \<open>heal_focus\<close> always finds something to
  focus when the session shows a pane.
\<close>

section \<open>Totality of the small steps\<close>

lemma wp_keeps:
  "keeps f m \<Longrightarrow> wp m Q E s \<Longrightarrow> wp m (\<lambda>x t. Q x t \<and> f t = f s) (\<lambda>e t. E e t \<and> f t = f s) s"
  by (auto simp: wp_def dest: keepsD split: prod.splits outcome.splits)

lemma wp_preserves:
  "preserves P m \<Longrightarrow> P s \<Longrightarrow> wp m Q E s \<Longrightarrow> wp m (\<lambda>x t. Q x t \<and> P t) (\<lambda>e t. E e t \<and> P t) s"
  by (auto simp: wp_def preserves_def split: prod.splits outcome.splits)

lemma wp_never: "wp m Q (\<lambda>_ _. False) s \<Longrightarrow> \<exists>x t. m s = (Ok x, t) \<and> Q x t"
  by (auto simp: wp_def split: prod.splits outcome.splits)

lemma wp_never_unit: "wp m Q (\<lambda>_ _. False) s \<Longrightarrow> \<exists>t. m s = (Ok (), t) \<and> Q () t"
  using wp_never by fastforce

definition has_session :: "session_id \<Rightarrow> server_state \<Rightarrow> bool" where
  "has_session sid s \<longleftrightarrow> (\<exists>se. bt_get (sessions s) sid = Some se)"

lemma has_session_mut [frame]: "preserves (has_session sid) (session_mut sid' f)"
  by (auto simp: preserves_def has_session_def session_mut_run split: option.split)

lemma has_session_keeps: "keeps sessions m \<Longrightarrow> preserves (has_session sid) m"
  by (simp add: keeps_def preserves_def has_session_def)

lemma set_leaf_focus_frame [frame]:
  "keeps sessions (set_leaf_focus n b)" "keeps floating (set_leaf_focus n b)"
  "keeps buffers (set_leaf_focus n b)"
  unfolding set_leaf_focus_def by (intro frame)+

lemma focus_ancestors_frame [frame]:
  "keeps sessions (focus_ancestors_from k leaf child)" "keeps floating (focus_ancestors_from k leaf child)"
  "keeps buffers (focus_ancestors_from k leaf child)"
  by (induction k arbitrary: child; auto intro!: frame)+

lemma mark_floating_frame [frame]:
  "keeps sessions (mark_floating_focus leaf own fid)" "keeps nodes (mark_floating_focus leaf own fid)"
  "keeps buffers (mark_floating_focus leaf own fid)"
  unfolding mark_floating_focus_def by (rule keeps_modify; simp)+

lemma activity_frame [frame]:
  "keeps sessions (set_buffer_activity bid a)" "keeps nodes (set_buffer_activity bid a)"
  "keeps sessions (acknowledge_shown_activity sid)" "keeps nodes (acknowledge_shown_activity sid)"
  unfolding set_buffer_activity_def acknowledge_shown_activity_def acknowledge_leaf_def
  by (intro frame)+

lemma wp_session_mut:
  "has_session sid s \<Longrightarrow> (\<And>se. bt_get (sessions s) sid = Some se \<Longrightarrow>
     Q () (s\<lparr>sessions := bt_insert sid (f se) (sessions s)\<rparr>)) \<Longrightarrow> wp (session_mut sid f) Q E s"
  by (auto simp: wp_def session_mut_run has_session_def)

lemma wp_set_leaf_focus:
  "is_view s n \<Longrightarrow> (\<And>t. Q () t) \<Longrightarrow> wp (set_leaf_focus n b) Q E s"
  by (auto simp: is_view_def wp_def set_leaf_focus_def state_node_def put_node_run bind_run step_run
      resume_run)

lemma wp_set_leaf_focus_any: "(\<And>x t. Q x t) \<Longrightarrow> (\<And>e t. E e t) \<Longrightarrow> wp (set_leaf_focus n b) Q E s"
  by (cases "bt_get (nodes s) n"; cases "the (bt_get (nodes s) n)")
    (auto simp: wp_def set_leaf_focus_def state_node_def put_node_run bind_run step_run resume_run)

lemma clear_session_focus_Ok:
  assumes "has_session sid s"
  shows "\<exists>t. clear_session_focus sid s = (Ok (), t) \<and> has_session sid t"
proof -
  obtain se where se: "bt_get (sessions s) sid = Some se" using assms by (auto simp: has_session_def)
  let ?m1 = "case se_focused_leaf se of
      Some previous_leaf \<Rightarrow>
        match_result (set_leaf_focus previous_leaf False) (\<lambda>_. ret ()) (\<lambda>_. ret ())
    | None \<Rightarrow> (ret () :: unit op)"
  have k1: "keeps sessions ?m1" by (intro frame)
  have w1: "wp ?m1 (\<lambda>_ _. True) (\<lambda>_ _. False) s"
  proof (cases "se_focused_leaf se")
    case (Some l)
    have "wp (set_leaf_focus l False) (\<lambda>_ _. True) (\<lambda>_ _. True) s"
      by (rule wp_set_leaf_focus_any) simp_all
    then show ?thesis unfolding Some option.case wp_match_result by (rule wp_mono) simp_all
  qed simp
  from wp_never_unit [OF w1] obtain s1 where s1: "?m1 s = (Ok (), s1)" by blast
  have S1: "bt_get (sessions s1) sid = Some se" using keepsD [OF k1 s1] se by simp
  let ?m2 = "for_each (se_floating se) (\<lambda>fid.
      modify (\<lambda>s. s\<lparr>floating := bt_update fid (\<lambda>f. f\<lparr>fw_focused := False\<rparr>) (floating s)\<rparr>)) :: unit op"
  have k2: "keeps sessions ?m2" by (intro frame keeps_modify) simp
  have w2: "wp ?m2 (\<lambda>_ _. True) (\<lambda>_ _. False) s1"
    by (rule wp_for_each [where I = "\<lambda>_. True", simplified]) simp
  from wp_never_unit [OF w2] obtain s2 where s2: "?m2 s1 = (Ok (), s2)" by blast
  have S2: "bt_get (sessions s2) sid = Some se" using keepsD [OF k2 s2] S1 by simp
  show ?thesis
    using se S1 S2 s1 s2
    by (simp add: clear_session_focus_def bind_run step_run resume_run state_session_def
        session_mut_run has_session_def)
qed

lemma remember_focus_Ok:
  assumes "has_session sid s"
  shows "\<exists>t. remember_focus sid leaf s = (Ok (), t) \<and> has_session sid t"
  using assms
  by (auto simp: remember_focus_def has_session_def bind_run step_run resume_run state_session_def
      session_mut_run)

section \<open>The walk to the root\<close>

text \<open>After the walk the child is shown by every node above it.\<close>

lemma position_child:
  "c \<in> set (map te_child ts) \<Longrightarrow> \<exists>i. position (\<lambda>t. te_child t = c) ts = Some i"
  using position_None_iff [of "\<lambda>t. te_child t = c" ts] by (cases "position (\<lambda>t. te_child t = c) ts") auto

lemma focus_through_shows:
  assumes "c \<in> set (child_ids nd)" and "focus_through leaf c nd = Tabs tb"
  shows "active_child tb = Some c"
proof (cases nd)
  case (Tabs tb')
  then obtain i where i: "position (\<lambda>t. te_child t = c) (tb_tabs tb') = Some i"
    using assms(1) position_child by fastforce
  then have "i < length (tb_tabs tb')" "te_child (tb_tabs tb' ! i) = c"
    using position_SomeD [OF i] by auto
  then show ?thesis using assms(2) Tabs i by (auto simp: active_child_def vec_get_def)
qed (use assms in auto)

lemma focus_ancestors_Ok:
  assumes "forest (layout s)" and "child \<in> dom (layout s)" and "card (above (layout s) child) \<le> k"
    and "(child, r) \<in> (up (layout s))\<^sup>*" and "parentless (layout s) r"
  shows "\<exists>t. focus_ancestors_from k leaf child s = (Ok (), t) \<and> (child, r) \<in> (showing t)\<^sup>* \<and>
    (\<forall>m. m = child \<or> m \<notin> above (layout s) child \<longrightarrow> bt_get (nodes t) m = bt_get (nodes s) m)"
  using assms
proof (induction k arbitrary: child s)
  case 0
  then show ?case using card_above_pos [of "layout s" child] by fastforce
next
  case (Suc k)
  let ?L = "layout s"
  obtain c where c: "?L child = Some c" using Suc.prems(2) by auto
  show ?case
  proof (cases "ce_parent c")
    case None
    then have "child = r"
      using Suc.prems(4) c parentless_no_up [of ?L child]
      by (auto simp: parentless_def elim: converse_rtranclE)
    then show ?thesis using None c by (simp add: bind_run step_run resume_run node_parent_layout)
  next
    case (Some p)
    have up: "(child, p) \<in> up ?L" using upI c Some by blast
    obtain pd where pd: "bt_get (nodes s) p = Some pd"
      using up_dom [OF Suc.prems(1) up] by (auto simp: dom_layout)
    let ?pd = "focus_through leaf child pd"
    let ?s = "s\<lparr>nodes := bt_insert p ?pd (nodes s)\<rparr>"
    have L: "layout ?s = ?L" by (rule layout_insert_same [OF pd]) (rule focus_through_ok(2))
    have "child \<noteq> r" using up Suc.prems(5) parentless_no_up by blast
    then have "(p, r) \<in> (up ?L)\<^sup>*" using below_step [OF up, of r] Suc.prems(4) by (simp add: below_def)
    moreover have "p \<in> dom ?L" "card (above ?L p) \<le> k"
      using up_dom [OF Suc.prems(1) up] card_above_less [OF Suc.prems(1) up] Suc.prems(3) by auto
    ultimately obtain t where t: "focus_ancestors_from k leaf p ?s = (Ok (), t)" "(p, r) \<in> (showing t)\<^sup>*"
      "\<And>m. m = p \<or> m \<notin> above ?L p \<Longrightarrow> bt_get (nodes t) m = bt_get (nodes ?s) m"
      using Suc.IH [of ?s p, unfolded L] Suc.prems(1,5) by blast
    have LT: "layout t = ?L"
      using keepsD [OF quiet_focus_ancestors t(1)] quiet_eqD(1) [of t ?s] L by simp
    have "child \<in> set (child_ids pd)"
      using forest_up_kid [OF Suc.prems(1) up] pd by (auto simp: layout_def)
    then have "(child, p) \<in> showing t"
      using t(3) [of p] up LT focus_through_shows by (auto simp: showing_def)
    then have "(child, r) \<in> (showing t)\<^sup>*" using t(2) by (rule converse_rtrancl_into_rtrancl)
    moreover have "bt_get (nodes t) m = bt_get (nodes s) m" if "m = child \<or> m \<notin> above ?L child" for m
    proof -
      have "above ?L p \<subseteq> above ?L child"
        using up by (auto simp: above_def intro: converse_rtrancl_into_rtrancl)
      moreover have "child \<notin> above ?L p"
        using no_up_cycle [OF Suc.prems(1) up] by (simp add: above_def)
      ultimately have "m \<notin> above ?L p" using that by auto
      then show ?thesis using t(3) [of m] by auto
    qed
    ultimately show ?thesis
      using Some c pd t(1) by (simp add: bind_run step_run resume_run node_parent_layout node_mut_run)
  qed
qed


section \<open>Focusing a pane\<close>

lemma floating_id_by_root_Some:
  assumes "floating_ok s"
  shows "floating_id_by_root s r = Some fid \<longleftrightarrow>
    (\<exists>f. bt_get (floating s) fid = Some f \<and> fw_root_node f = r)"
proof
  assume "floating_id_by_root s r = Some fid"
  then obtain f where f: "find (\<lambda>f. fw_root_node f = r) (bt_values (floating s)) = Some f" "fw_id f = fid"
    by (auto simp: floating_id_by_root_def)
  then have "f \<in> set (bt_values (floating s))" "fw_root_node f = r"
    by (auto simp: find_Some_iff)
  then show "\<exists>f. bt_get (floating s) fid = Some f \<and> fw_root_node f = r"
    using floating_okD(1) [OF assms] f(2) by (auto simp: bt_values_iff)
next
  assume "\<exists>f. bt_get (floating s) fid = Some f \<and> fw_root_node f = r"
  then obtain f where f: "bt_get (floating s) fid = Some f" "fw_root_node f = r" by blast
  then have "find (\<lambda>f. fw_root_node f = r) (bt_values (floating s)) \<noteq> None"
    by (auto simp: find_None_iff bt_values_iff)
  then obtain g where g: "find (\<lambda>f. fw_root_node f = r) (bt_values (floating s)) = Some g" by auto
  then have "g \<in> set (bt_values (floating s))" "fw_root_node g = r"
    by (auto simp: find_Some_iff)
  then have "fw_root_node g = r" "\<exists>gid. bt_get (floating s) gid = Some g"
    by (simp_all add: bt_values_iff)
  then obtain gid where gid: "bt_get (floating s) gid = Some g" "fw_root_node g = r" by blast
  have "fw_id g = fid"
    using floating_okD(1) [OF assms gid(1)] floating_okD(4) [OF assms f(1) gid(1)] f(2) gid(2) by simp
  with g show "floating_id_by_root s r = Some fid" by (simp add: floating_id_by_root_def)
qed

lemma floating_id_by_root_None:
  "floating_id_by_root s r = None \<longleftrightarrow> (\<forall>fid f. bt_get (floating s) fid = Some f \<longrightarrow> fw_root_node f \<noteq> r)"
  by (auto simp: floating_id_by_root_def find_None_iff bt_values_iff)

text \<open>A pane of session \<open>sid\<close>, in the layout of the session or in a visible floating window.\<close>

definition pane_root :: "server_state \<Rightarrow> session_id \<Rightarrow> node_id \<Rightarrow> bool" where
  "pane_root s sid r \<longleftrightarrow>
     (\<exists>se. bt_get (sessions s) sid = Some se \<and> se_root_node se = r) \<or>
     (\<exists>fid f. bt_get (floating s) fid = Some f \<and> fw_root_node f = r \<and> fw_visible f)"

definition focusable :: "server_state \<Rightarrow> session_id \<Rightarrow> node_id \<Rightarrow> node_id \<Rightarrow> bool" where
  "focusable s sid r leaf \<longleftrightarrow>
     has_session sid s \<and> is_view s leaf \<and> (\<exists>c. layout s leaf = Some c \<and> ce_session c = sid) \<and>
     (leaf, r) \<in> (up (layout s))\<^sup>* \<and> parentless (layout s) r \<and> pane_root s sid r"

lemma ensure_leaf_belongs_Ok: "focusable s sid r leaf \<Longrightarrow> ensure_leaf_belongs_to s leaf sid = Ok ()"
  by (auto simp: focusable_def ensure_leaf_belongs_to_def ensure_node_layout ensure_leaf_def
      state_node_def is_view_def)

lemma ensure_leaf_focusable_Ok:
  assumes "structure_ok s" and "focusable s sid r leaf"
  shows "ensure_leaf_is_focusable s sid leaf = Ok ()"
proof -
  have ok: "forest (layout s)" "floating_ok s" using assms(1) by (auto simp: structure_ok_def)
  obtain se where se: "bt_get (sessions s) sid = Some se"
    using assms(2) by (auto simp: focusable_def has_session_def)
  have "leaf \<in> dom (layout s)" using assms(2) by (auto simp: focusable_def)
  then have r: "top_root_for_node s leaf = Ok r"
    using top_root_iff [OF ok(1)] assms(2) by (auto simp: focusable_def)
  show ?thesis
  proof (cases "r = se_root_node se")
    case True
    then show ?thesis using r se by (simp add: ensure_leaf_is_focusable_def state_session_def)
  next
    case False
    then obtain fid f where f: "bt_get (floating s) fid = Some f" "fw_root_node f = r" "fw_visible f"
      using assms(2) se by (auto simp: focusable_def pane_root_def)
    then have "floating_id_by_root s r = Some fid"
      using floating_id_by_root_Some [OF ok(2)] by blast
    then show ?thesis
      using r se f False by (simp add: ensure_leaf_is_focusable_def state_session_def state_floating_def)
  qed
qed

text \<open>The panes a session shows can be collected, and their activity acknowledged.\<close>

lemma fold_ok_Ok:
  assumes "P a" and "\<And>x a. x \<in> set xs \<Longrightarrow> P a \<Longrightarrow> \<exists>b. f x a = Ok b \<and> P b"
  shows "\<exists>b. fold_ok f xs a = Ok b \<and> P b"
  using assms
proof (induction xs arbitrary: a)
  case (Cons x xs)
  obtain b where b: "f x a = Ok b" "P b" using Cons.prems(2) [of x a] Cons.prems(1) by auto
  have "\<exists>b'. fold_ok f xs b = Ok b' \<and> P b'"
    by (rule Cons.IH [OF b(2)]) (auto intro: Cons.prems(2))
  with b(1) show ?case by simp
qed simp

lemma shown_leaves_Ok:
  assumes "structure_ok s" and "tabs_ok s" and "has_session sid s"
  shows "\<exists>ls. shown_leaves s sid = Ok ls \<and> (\<forall>l \<in> set ls. is_view s l)"
proof -
  have ok: "forest (layout s)" "sessions_ok s" "floating_ok s"
    using assms(1) by (auto simp: structure_ok_def)
  obtain se where se: "bt_get (sessions s) sid = Some se" using assms(3) by (auto simp: has_session_def)
  have "se_root_node se \<in> dom (layout s)" using sessions_okD(3) [OF ok(2) se] by auto
  then obtain xs where xs: "collect_visible_leaf_ids s (se_root_node se) [] = Ok xs"
    "\<forall>l \<in> set xs. is_view s l"
    using collect_visible_Ok [OF ok(1) assms(2), of _ "[]"] by (fastforce simp: shown_leaf_def)
  let ?f = "\<lambda>fid leaves.
       case bt_get (floating s) fid of
         None \<Rightarrow> Ok leaves
       | Some f \<Rightarrow>
           if fw_visible f then collect_visible_leaf_ids s (fw_root_node f) leaves else Ok leaves"
  have "\<exists>ls. fold_ok ?f (se_floating se) xs = Ok ls \<and> (\<forall>l \<in> set ls. is_view s l)"
  proof (rule fold_ok_Ok [where P = "\<lambda>a. \<forall>l \<in> set a. is_view s l"], rule xs(2))
    fix fid a
    assume a: "\<forall>l \<in> set a. is_view s l"
    show "\<exists>b. ?f fid a = Ok b \<and> (\<forall>l \<in> set b. is_view s l)"
    proof (cases "bt_get (floating s) fid")
      case (Some f)
      have "fw_root_node f \<in> dom (layout s)" using floating_okD(2) [OF ok(3) Some] by auto
      then obtain ys where "collect_visible_leaf_ids s (fw_root_node f) a = Ok (a @ ys)"
        "set ys = {l. shown_leaf s (fw_root_node f) l}"
        using collect_visible_Ok [OF ok(1) assms(2)] by blast
      then show ?thesis using Some a by (auto simp: shown_leaf_def)
    qed (use a in simp)
  qed
  then show ?thesis using se xs by (simp add: shown_leaves_def state_session_def)
qed

lemma view_buffer:
  assumes "structure_ok s" and "is_view s l"
  obtains bid b where "buffer_view_buffer_id s l = Ok bid" "bt_get (buffers s) bid = Some b"
proof -
  obtain v where v: "bt_get (nodes s) l = Some (BufferView v)" using assms(2) by (auto simp: is_view_def)
  then have "\<exists>b. bt_get (buffers s) (bv_buffer_id v) = Some b"
    using assms(1) unfolding structure_ok_def views_ok_def by (force simp: layout_def)
  with v that show thesis by (auto simp: buffer_view_buffer_id_def state_node_def)
qed

lemma acknowledge_Ok:
  assumes "structure_ok s" and "tabs_ok s" and "has_session sid s"
  shows "\<exists>b t. acknowledge_shown_activity sid s = (Ok b, t)"
proof -
  obtain ls where ls: "shown_leaves s sid = Ok ls" "\<forall>l \<in> set ls. is_view s l"
    using shown_leaves_Ok [OF assms] by blast
  let ?I = "\<lambda>t. quiet t = quiet s"
  have "wp (fold_proc acknowledge_leaf ls False) (\<lambda>_. ?I) (\<lambda>_ _. False) s"
  proof (rule wp_fold_proc)
    fix l acc t
    assume l: "l \<in> set ls" and t: "quiet t = quiet s"
    have st: "structure_ok t" by (rule quiet_structure [OF t assms(1)])
    have v: "is_view t l" using is_view_cong [OF quiet_eqD(1) [OF t]] ls(2) l by simp
    obtain bid b where b: "buffer_view_buffer_id t l = Ok bid" "bt_get (buffers t) bid = Some b"
      by (rule view_buffer [OF st v])
    have k: "keeps quiet (acknowledge_leaf l acc)"
      unfolding acknowledge_leaf_def by (intro frame) (simp add: quiet_buffer_def)
    have "\<exists>x t'. acknowledge_leaf l acc t = (Ok x, t')"
      using b by (auto simp: acknowledge_leaf_def bind_run step_run resume_run state_buffer_def
          buffer_mut_run)
    then show "wp (acknowledge_leaf l acc) (\<lambda>_. ?I) (\<lambda>_ _. False) t"
      using keepsD [OF k] t by (auto simp: wp_def)
  qed simp
  from wp_never [OF this] show ?thesis
    using ls(1) by (auto simp: acknowledge_shown_activity_def bind_run step_run resume_run)
qed

text \<open>Nothing happens to the other sessions.\<close>

lemma other_session_frame [frame]:
  "sid' \<noteq> sid \<Longrightarrow> keeps (\<lambda>s. bt_get (sessions s) sid') (session_mut sid f)"
  by (simp add: keeps_def session_mut_run split: option.split)

lemma keeps_sessions_at: "keeps sessions m \<Longrightarrow> keeps (\<lambda>s. bt_get (sessions s) sid') m"
  by (simp add: keeps_def)

lemma other_session_leaf: "keeps (\<lambda>s. bt_get (sessions s) sid') (set_leaf_focus l b)"
  by (rule keeps_sessions_at) (rule frame)

lemma other_session_clear [frame]:
  assumes "sid' \<noteq> sid"
  shows "keeps (\<lambda>s. bt_get (sessions s) sid') (clear_session_focus sid)"
    and "keeps (\<lambda>s. bt_get (sessions s) sid') (remember_focus sid l)"
  unfolding clear_session_focus_def remember_focus_def
  using assms by (auto intro!: frame keeps_modify other_session_leaf)

lemma keeps_focus_tail:
  "keeps quiet m \<Longrightarrow> preserves (focus_inv leaf) m \<Longrightarrow> m s = (r, t) \<Longrightarrow>
   quiet s = quiet s0 \<Longrightarrow> focus_inv leaf s \<Longrightarrow> quiet t = quiet s0 \<and> focus_inv leaf t"
  using keepsD preservesD by fastforce

text \<open>The first half of \<open>focus_leaf\<close>: clear the old focus, mark the leaf, remember the old one.\<close>

lemma focus_prefix:
  fixes prev :: "node_id option" and leaf :: node_id and sid :: session_id
  defines "m3 \<equiv> case prev of
      Some previous_leaf \<Rightarrow> if previous_leaf \<noteq> leaf then remember_focus sid previous_leaf else ret ()
    | None \<Rightarrow> (ret () :: unit op)"
  assumes i0: "focus_inv leaf s" and h0: "has_session sid s"
  shows "\<exists>s1 s2 s3. clear_session_focus sid s = (Ok (), s1) \<and> set_leaf_focus leaf True s1 = (Ok (), s2) \<and>
    m3 s2 = (Ok (), s3) \<and> quiet s3 = quiet s \<and> focus_inv leaf s3 \<and> has_session sid s3 \<and>
    (\<forall>sid'. sid' \<noteq> sid \<longrightarrow> bt_get (sessions s3) sid' = bt_get (sessions s) sid')"
proof -
  obtain s1 where s1: "clear_session_focus sid s = (Ok (), s1)" "has_session sid s1"
    using clear_session_focus_Ok [OF h0] by blast
  have q1: "quiet s1 = quiet s \<and> focus_inv leaf s1"
    by (rule keeps_focus_tail [where m = "clear_session_focus sid" and s = s, OF _ _ s1(1)])
      (use i0 in \<open>auto intro!: frame\<close>)
  have w2: "wp (set_leaf_focus leaf True) (\<lambda>_ _. True) (\<lambda>_ _. False) s1"
    by (rule wp_set_leaf_focus) (use q1 in \<open>simp_all add: focus_inv_def\<close>)
  from wp_never_unit [OF w2] obtain s2 where s2: "set_leaf_focus leaf True s1 = (Ok (), s2)" by blast
  have q2: "quiet s2 = quiet s \<and> focus_inv leaf s2"
    by (rule keeps_focus_tail [where m = "set_leaf_focus leaf True" and s = s1, OF _ _ s2])
      (use q1 in \<open>auto intro!: frame\<close>)
  have h2: "has_session sid s2"
    using keepsD [OF set_leaf_focus_frame(1) s2] s1(2) by (simp add: has_session_def)
  have "\<exists>s3. m3 s2 = (Ok (), s3) \<and> has_session sid s3"
    using remember_focus_Ok [OF h2] h2 by (simp add: m3_def ret_def split: option.split)
  then obtain s3 where s3: "m3 s2 = (Ok (), s3)" "has_session sid s3" by blast
  have k3: "keeps quiet m3" "preserves (focus_inv leaf) m3" unfolding m3_def by (intro frame)+
  have "quiet s3 = quiet s \<and> focus_inv leaf s3"
    by (rule keeps_focus_tail [where m = m3 and s = s2, OF k3 s3(1)]) (use q2 in simp_all)
  moreover have "bt_get (sessions s3) sid' = bt_get (sessions s) sid'" if "sid' \<noteq> sid" for sid'
  proof -
    have k: "keeps (\<lambda>s. bt_get (sessions s) sid') m3" unfolding m3_def using that by (intro frame)
    show ?thesis
      using keepsD [OF k s3(1)] keepsD [OF set_leaf_focus_frame(1) s2] keepsD [OF other_session_clear(1) [OF that] s1(1)] by simp
  qed
  ultimately show ?thesis using s1(1) s2 s3 by blast
qed

text \<open>
  The second half: mark the floating window, make every tabs node above the leaf show it,
  acknowledge the activity of what is shown now.
\<close>

lemma focus_suffix:
  assumes ok: "structure_ok s" and i0: "focus_inv leaf s" and h0: "has_session sid s"
    and b: "bt_get (buffers s) bid = Some b"
    and r: "(leaf, r) \<in> (up (layout s))\<^sup>*" "parentless (layout s) r"
  shows "\<exists>s5 s6 s7 x t. for_each fids (mark_floating_focus leaf own) s = (Ok (), s5) \<and>
    focus_ancestors_from (fuel s5) leaf leaf s5 = (Ok (), s6) \<and>
    set_buffer_activity bid Idle s6 = (Ok (), s7) \<and> acknowledge_shown_activity sid s7 = (Ok x, t) \<and>
    quiet t = quiet s \<and> focus_inv leaf t \<and> sessions t = sessions s \<and> (leaf, r) \<in> (showing t)\<^sup>*"
proof -
  have F: "forest (layout s)" using ok by (simp add: structure_ok_def)
  have leaf: "leaf \<in> dom (layout s)" using i0 by (auto simp: focus_inv_def is_view_layout)
  let ?m5 = "for_each fids (mark_floating_focus leaf own)"
  have w5: "wp ?m5 (\<lambda>_ _. True) (\<lambda>_ _. False) s"
    by (rule wp_for_each [where I = "\<lambda>_. True", simplified]) (simp add: mark_floating_focus_def)
  from wp_never_unit [OF w5] obtain s5 where s5: "?m5 s = (Ok (), s5)" by blast
  have q5: "quiet s5 = quiet s \<and> focus_inv leaf s5"
    by (rule keeps_focus_tail [where m = ?m5 and s = s, OF _ _ s5]) (use i0 in \<open>auto intro!: frame\<close>)
  have L5: "layout s5 = layout s" using q5 quiet_eqD(1) by blast
  have "card (above (layout s5) leaf) \<le> fuel s5"
    using card_above [OF F leaf] L5 by (simp add: fuel_layout)
  then obtain s6 where s6: "focus_ancestors_from (fuel s5) leaf leaf s5 = (Ok (), s6)"
    "(leaf, r) \<in> (showing s6)\<^sup>*"
    using focus_ancestors_Ok [of s5 leaf _ r leaf] F L5 leaf r by auto
  have q6: "quiet s6 = quiet s \<and> focus_inv leaf s6"
    by (rule keeps_focus_tail [where m = "focus_ancestors_from (fuel s5) leaf leaf" and s = s5, OF _ _ s6(1)])
      (use q5 in \<open>auto intro!: frame\<close>)
  obtain b6 where "bt_get (buffers s6) bid = Some b6" using quiet_buffer_D [of s s6] q6 b by metis
  then obtain s7 where s7: "set_buffer_activity bid Idle s6 = (Ok (), s7)"
    by (simp add: set_buffer_activity_def buffer_mut_run)
  have q7: "quiet s7 = quiet s \<and> focus_inv leaf s7"
    by (rule keeps_focus_tail [where m = "set_buffer_activity bid Idle" and s = s6, OF _ _ s7])
      (use q6 in \<open>auto intro!: frame\<close>)
  have S7: "sessions s7 = sessions s"
    using keepsD [OF keeps_for_each [OF mark_floating_frame(1)] s5]
      keepsD [OF focus_ancestors_frame(1) s6(1)] keepsD [OF activity_frame(1) s7] by simp
  have "structure_ok s7" "tabs_ok s7" "has_session sid s7"
    using quiet_structure [OF _ ok] q7 h0 S7 by (auto simp: focus_inv_def has_session_def)
  from acknowledge_Ok [OF this] obtain x t where
    t: "acknowledge_shown_activity sid s7 = (Ok x, t)" by blast
  have qt: "quiet t = quiet s \<and> focus_inv leaf t"
    by (rule keeps_focus_tail [where m = "acknowledge_shown_activity sid" and s = s7, OF _ _ t])
      (use q7 in \<open>auto intro!: frame\<close>)
  have "nodes t = nodes s6" "sessions t = sessions s"
    using keepsD [OF activity_frame(2) s7] keepsD [OF activity_frame(4) t]
      keepsD [OF activity_frame(3) t] S7 by simp_all
  moreover from this(1) have "showing t = showing s6" by (simp add: showing_def layout_def up_def)
  ultimately show ?thesis using s5 s6 s7 t qt by auto
qed

lemma option_ext: "(\<And>x. a = Some x \<longleftrightarrow> b = Some x) \<Longrightarrow> a = b"
  by (cases a) (metis option.exhaust)+

lemma floating_owner_Ok:
  assumes "structure_ok t" and "quiet t = quiet s"
    and "(leaf, r) \<in> (up (layout s))\<^sup>*" and "parentless (layout s) r"
  shows "floating_id_for_node t leaf = Ok (floating_id_by_root s r)"
proof -
  have F: "forest (layout t)" "floating_ok t" "floating_ok s"
    using assms(1) quiet_structure [OF assms(2) [symmetric]] by (auto simp: structure_ok_def)
  have L: "layout t = layout s" using quiet_eqD(1) [OF assms(2)] .
  have "leaf \<in> dom (layout t)"
    using assms(3,4) up_star_dom [OF F(1)] L by (auto simp: parentless_def)
  then have "top_root_for_node t leaf = Ok r"
    using top_root_iff [OF F(1)] assms(3,4) L by simp
  moreover have "(\<exists>f. bt_get (floating t) fid = Some f \<and> fw_root_node f = r) \<longleftrightarrow>
      (\<exists>f. bt_get (floating s) fid = Some f \<and> fw_root_node f = r)" for fid
    using quiet_floating_D [OF assms(2), of fid] quiet_floating_D [OF assms(2) [symmetric], of fid]
    by metis
  then have "floating_id_by_root t r = Some fid \<longleftrightarrow> floating_id_by_root s r = Some fid" for fid
    unfolding floating_id_by_root_Some [OF F(2)] floating_id_by_root_Some [OF F(3)] .
  then have "floating_id_by_root t r = floating_id_by_root s r" by (rule option_ext)
  ultimately show ?thesis by (simp add: floating_id_for_node_def)
qed

lemma ff_ok_focused:
  assumes "structure_ok s" and "ff_ok s" and "focusable s sid r leaf" and "quiet t = quiet s"
    and "\<forall>sid'. sid' \<noteq> sid \<longrightarrow> bt_get (sessions t) sid' = bt_get (sessions s) sid'"
    and "\<exists>se. bt_get (sessions t) sid = Some se \<and> se_focused_floating se = floating_id_by_root s r"
  shows "ff_ok t"
  unfolding ff_ok_def
proof (intro allI impI)
  fix sid' se fid f
  assume se: "bt_get (sessions t) sid' = Some se" "se_focused_floating se = Some fid"
    and f: "bt_get (floating t) fid = Some f"
  obtain f' where f': "bt_get (floating s) fid = Some f'" "fw_session_id f = fw_session_id f'"
    "fw_root_node f = fw_root_node f'" using quiet_floating_D [OF assms(4) f] by blast
  show "fw_session_id f = sid'"
  proof (cases "sid' = sid")
    case True
    have ok: "forest (layout s)" "floating_ok s" using assms(1) by (auto simp: structure_ok_def)
    have "floating_id_by_root s r = Some fid" using assms(6) se True by auto
    then have "fw_root_node f' = r" using floating_id_by_root_Some [OF ok(2)] f'(1) by auto
    moreover obtain c where "layout s leaf = Some c" "ce_session c = sid" "(leaf, r) \<in> (up (layout s))\<^sup>*"
      using assms(3) by (auto simp: focusable_def)
    ultimately show ?thesis
      using up_star_session [OF ok(1)] floating_okD(2) [OF ok(2) f'(1)] f'(2) True by fastforce
  next
    case False
    then have "bt_get (sessions s) sid' = Some se" using assms(5) se(1) by auto
    then show ?thesis using assms(2) se(2) f' unfolding ff_ok_def by metis
  qed
qed

lemma focus_leaf_Ok:
  assumes "inv s" and "focusable s sid r leaf"
  shows "\<exists>t. focus_leaf sid leaf s = (Ok (), t) \<and> quiet t = quiet s \<and> inv t \<and>
    (\<exists>se. bt_get (sessions t) sid = Some se \<and> se_focused_leaf se = Some leaf) \<and>
    (leaf, r) \<in> (showing t)\<^sup>*"
proof -
  have ok: "structure_ok s" and i0: "focus_inv leaf s" and h0: "has_session sid s"
    using assms by (auto simp: inv_def focus_inv_def focusable_def)
  have r: "(leaf, r) \<in> (up (layout s))\<^sup>*" "parentless (layout s) r"
    using assms(2) by (auto simp: focusable_def)
  obtain se where se: "bt_get (sessions s) sid = Some se" using h0 by (auto simp: has_session_def)
  obtain bid b where b: "buffer_view_buffer_id s leaf = Ok bid" "bt_get (buffers s) bid = Some b"
    using view_buffer [OF ok] i0 by (auto simp: focus_inv_def)
  obtain s1 s2 s3 where pre: "clear_session_focus sid s = (Ok (), s1)"
    "set_leaf_focus leaf True s1 = (Ok (), s2)"
    "(case se_focused_leaf se of
        Some previous_leaf \<Rightarrow> if previous_leaf \<noteq> leaf then remember_focus sid previous_leaf else ret ()
      | None \<Rightarrow> ret ()) s2 = (Ok (), s3)"
    and q3: "quiet s3 = quiet s" "focus_inv leaf s3" "has_session sid s3"
    and others: "\<forall>sid'. sid' \<noteq> sid \<longrightarrow> bt_get (sessions s3) sid' = bt_get (sessions s) sid'"
    using focus_prefix [OF i0 h0, of "se_focused_leaf se"]
    by (elim exE conjE) (rule that; assumption)
  have st3: "structure_ok s3" by (rule quiet_structure [OF q3(1) ok])
  define own where "own = floating_id_by_root s r"
  have own: "floating_id_for_node s3 leaf = Ok own"
    unfolding own_def by (rule floating_owner_Ok [OF st3 q3(1)]) (use assms(2) in \<open>auto simp: focusable_def\<close>)
  obtain se3 where se3: "bt_get (sessions s3) sid = Some se3" using q3(3) by (auto simp: has_session_def)
  let ?u = "\<lambda>se. se\<lparr>se_focused_leaf := Some leaf, se_focused_floating := own\<rparr>"
  let ?s4 = "s3\<lparr>sessions := bt_insert sid (?u se3) (sessions s3)\<rparr>"
  have s4: "session_mut sid ?u s3 = (Ok (), ?s4)" using se3 by (simp add: session_mut_run)
  have q4: "quiet ?s4 = quiet s \<and> focus_inv leaf ?s4"
    by (rule keeps_focus_tail [where m = "session_mut sid ?u" and s = s3, OF _ _ s4])
      (use q3 in \<open>simp_all add: frame\<close>)
  have st4: "structure_ok ?s4" using quiet_structure [OF _ ok] q4 by blast
  have h4: "has_session sid ?s4" by (simp add: has_session_def)
  obtain b4 where b4: "bt_get (buffers ?s4) bid = Some b4"
    using quiet_buffer_D [of s ?s4] q4 b(2) by metis
  have L4: "layout ?s4 = layout s" using q4 quiet_eqD(1) by blast
  obtain s5 s6 s7 x t where suf: "for_each (se_floating se3) (mark_floating_focus leaf own) ?s4 = (Ok (), s5)"
    "focus_ancestors_from (fuel s5) leaf leaf s5 = (Ok (), s6)"
    "set_buffer_activity bid Idle s6 = (Ok (), s7)" "acknowledge_shown_activity sid s7 = (Ok x, t)"
    and t: "quiet t = quiet ?s4" "focus_inv leaf t" "sessions t = sessions ?s4" "(leaf, r) \<in> (showing t)\<^sup>*"
    using focus_suffix [OF st4 conjunct2 [OF q4] h4 b4, unfolded L4, OF r, of "se_floating se3" own]
    by (elim exE conjE) (rule that; assumption)
  have "focus_leaf sid leaf s = (Ok (), t)"
    unfolding focus_leaf_def
    using ensure_leaf_belongs_Ok [OF assms(2)] ensure_leaf_focusable_Ok [OF ok assms(2)] b(1) se
      pre own s4 suf
    by (simp add: bind_run step_run resume_run state_session_def cong: run_congs)
  moreover have "ff_ok t"
    by (rule ff_ok_focused [where s = s and sid = sid and r = r and leaf = leaf])
      (use assms t q4 others own_def in \<open>simp_all add: inv_def\<close>)
  then have "inv t" using t q4 quiet_structure [OF _ ok] by (auto simp: inv_def focus_inv_def)
  ultimately show ?thesis using t q4 by auto
qed

end
