(* ===== verification/Server_Consistent.thy ===== *)
theory Server_Consistent
  imports Server_Focus_Correct
begin

text \<open>
  What \<open>ServerState::validate\<close> accepts: a declarative notion of a consistent state, and the proof that
  the check passes exactly on the consistent states.
\<close>

section \<open>Consistent states\<close>

text \<open>
  The records of the maps carry their keys, and every floating window is registered with the session
  it names. Loading a workspace builds its maps so.
\<close>

definition keyed :: "server_state \<Rightarrow> bool" where
  "keyed s \<longleftrightarrow>
     (\<forall>n nd. bt_get (nodes s) n = Some nd \<longrightarrow> node_id_of nd = n) \<and>
     (\<forall>sid se. bt_get (sessions s) sid = Some se \<longrightarrow> se_id se = sid) \<and>
     (\<forall>fid f. bt_get (floating s) fid = Some f \<longrightarrow> fw_id f = fid \<and>
        (\<exists>se. bt_get (sessions s) (fw_session_id f) = Some se \<and> fid \<in> set (se_floating se)))"

fun well_shaped :: "node \<Rightarrow> bool" where
  "well_shaped (BufferView v) = True"
| "well_shaped (Split sp) =
     (2 \<le> length (sp_children sp) \<and> length (sp_sizes sp) = length (sp_children sp))"
| "well_shaped (Tabs tb) = active_ok (Tabs tb)"

text \<open>The roots of a layout: those of the sessions and of the floating windows.\<close>

definition owner_root :: "server_state \<Rightarrow> node_id \<Rightarrow> bool" where
  "owner_root s r \<longleftrightarrow>
     (\<exists>sid se. bt_get (sessions s) sid = Some se \<and> se_root_node se = r) \<or>
     (\<exists>fid f. bt_get (floating s) fid = Some f \<and> fw_root_node f = r)"

definition owned :: "server_state \<Rightarrow> node_id \<Rightarrow> bool" where
  "owned s n \<longleftrightarrow> (\<exists>r. (n, r) \<in> (up (layout s))\<^sup>* \<and> owner_root s r)"

definition shapes_ok :: "server_state \<Rightarrow> bool" where
  "shapes_ok s \<longleftrightarrow> (\<forall>n nd. bt_get (nodes s) n = Some nd \<longrightarrow> owned s n \<longrightarrow> well_shaped nd)"

text \<open>Outside the layouts there are only empty tabs nodes.\<close>

definition strays_ok :: "server_state \<Rightarrow> bool" where
  "strays_ok s \<longleftrightarrow>
     (\<forall>n nd. bt_get (nodes s) n = Some nd \<longrightarrow> node_par nd = None \<longrightarrow> \<not> owner_root s n \<longrightarrow>
        (\<exists>tb. nd = Tabs tb \<and> tb_tabs tb = []))"

text \<open>Every view shows a buffer that is attached to it.\<close>

definition shown_buffers_ok :: "server_state \<Rightarrow> bool" where
  "shown_buffers_ok s \<longleftrightarrow>
     (\<forall>n v. bt_get (nodes s) n = Some (BufferView v) \<longrightarrow>
        (\<exists>b. bt_get (buffers s) (bv_buffer_id v) = Some b \<and> bu_attachment b = Attached n))"

definition visible_in :: "server_state \<Rightarrow> session_id \<Rightarrow> node_id \<Rightarrow> bool" where
  "visible_in s sid n \<longleftrightarrow>
     (\<exists>c. layout s n = Some c \<and> ce_session c = sid) \<and>
     (\<exists>r. (n, r) \<in> (showing s)\<^sup>* \<and> pane_root s sid r)"

definition attention_ok :: "server_state \<Rightarrow> bool" where
  "attention_ok s \<longleftrightarrow>
     (\<forall>sid se. bt_get (sessions s) sid = Some se \<longrightarrow>
        (\<forall>leaf. se_focused_leaf se = Some leaf \<longrightarrow> is_view s leaf \<and> visible_in s sid leaf) \<and>
        (\<forall>n. se_zoomed_node se = Some n \<longrightarrow> visible_in s sid n))"

definition consistent :: "server_state \<Rightarrow> bool" where
  "consistent s \<longleftrightarrow>
     structure_ok s \<and> shapes_ok s \<and> strays_ok s \<and> shown_buffers_ok s \<and> attention_ok s"

section \<open>Folds that collect disjoint sets\<close>

lemma fold_seen_complete:
  assumes "\<And>x seen. x \<in> set xs \<Longrightarrow> dom (bt_get seen) \<inter> D x = {} \<Longrightarrow>
      \<exists>seen'. f x seen = Ok seen' \<and> dom (bt_get seen') = dom (bt_get seen) \<union> D x"
    and "distinct xs" and "\<And>x y. x \<in> set xs \<Longrightarrow> y \<in> set xs \<Longrightarrow> x \<noteq> y \<Longrightarrow> D x \<inter> D y = {}"
    and "\<And>x. x \<in> set xs \<Longrightarrow> dom (bt_get seen) \<inter> D x = {}"
  shows "\<exists>seen'. fold_ok f xs seen = Ok seen' \<and>
    dom (bt_get seen') = dom (bt_get seen) \<union> (\<Union>x \<in> set xs. D x)"
  using assms
proof (induction xs arbitrary: seen)
  case (Cons x xs)
  obtain m where m: "f x seen = Ok m" "dom (bt_get m) = dom (bt_get seen) \<union> D x"
    using Cons.prems(1) [of x seen] Cons.prems(4) [of x] by auto
  have "\<exists>seen'. fold_ok f xs m = Ok seen' \<and>
      dom (bt_get seen') = dom (bt_get m) \<union> (\<Union>x \<in> set xs. D x)"
  proof (rule Cons.IH)
    fix y
    assume y: "y \<in> set xs"
    then have "D x \<inter> D y = {}" using Cons.prems(2) Cons.prems(3) [of x y] by auto
    then show "dom (bt_get m) \<inter> D y = {}" using m(2) Cons.prems(4) [of y] y by auto
  qed (use Cons.prems in auto)
  then show ?case using m by auto
qed simp

lemma fold_seen_sound:
  assumes "fold_ok f xs seen = Ok seen'"
    and "\<And>x seen seen'. x \<in> set xs \<Longrightarrow> f x seen = Ok seen' \<Longrightarrow>
      \<exists>E. Q x E \<and> E \<inter> dom (bt_get seen) = {} \<and> dom (bt_get seen') = dom (bt_get seen) \<union> E"
    and "\<And>x E. x \<in> set xs \<Longrightarrow> Q x E \<Longrightarrow> a x \<in> E"
  shows "\<exists>D. (\<forall>x \<in> set xs. Q x (D x)) \<and> distinct xs \<and>
    (\<forall>x \<in> set xs. \<forall>y \<in> set xs. x \<noteq> y \<longrightarrow> D x \<inter> D y = {}) \<and>
    (\<Union>x \<in> set xs. D x) \<inter> dom (bt_get seen) = {} \<and>
    dom (bt_get seen') = dom (bt_get seen) \<union> (\<Union>x \<in> set xs. D x)"
  using assms
proof (induction xs arbitrary: seen)
  case (Cons x xs)
  obtain m where m: "f x seen = Ok m" "fold_ok f xs m = Ok seen'"
    using Cons.prems(1) by (cases "f x seen") auto
  obtain E where E: "Q x E" "E \<inter> dom (bt_get seen) = {}" "dom (bt_get m) = dom (bt_get seen) \<union> E"
    using Cons.prems(2) [of x seen m] m(1) by auto
  obtain D where D: "\<forall>y \<in> set xs. Q y (D y)" "distinct xs"
    "\<forall>y \<in> set xs. \<forall>z \<in> set xs. y \<noteq> z \<longrightarrow> D y \<inter> D z = {}"
    "(\<Union>y \<in> set xs. D y) \<inter> dom (bt_get m) = {}"
    "dom (bt_get seen') = dom (bt_get m) \<union> (\<Union>y \<in> set xs. D y)"
    using Cons.IH [OF m(2)] Cons.prems(2,3) by auto
  have fresh: "D y \<inter> E = {}" if "y \<in> set xs" for y
    using D(4) E(3) that by auto
  have x: "x \<notin> set xs"
  proof
    assume "x \<in> set xs"
    then have "a x \<in> D x" "a x \<in> E" using D(1) E(1) Cons.prems(3) by auto
    then show False using fresh \<open>x \<in> set xs\<close> by blast
  qed
  obtain D' where D': "D' x = E" "\<And>y. y \<in> set xs \<Longrightarrow> D' y = D y"
    by (rule that [of "D(x := E)"]) (use x in auto)
  have "(\<Union>y \<in> set xs. D' y) = (\<Union>y \<in> set xs. D y)" by (rule SUP_cong) (simp_all add: D'(2))
  then have "(\<Union>y \<in> set (x # xs). D' y) = E \<union> (\<Union>y \<in> set xs. D y)" by (simp add: D'(1))
  moreover have "\<forall>y \<in> set (x # xs). Q y (D' y)" using D(1) E(1) D' by auto
  moreover have "\<forall>y \<in> set (x # xs). \<forall>z \<in> set (x # xs). y \<noteq> z \<longrightarrow> D' y \<inter> D' z = {}"
    using D(3) fresh by (auto simp: D' Int_commute)
  moreover have "distinct (x # xs)" using x D(2) by simp
  moreover have "(E \<union> (\<Union>y \<in> set xs. D y)) \<inter> dom (bt_get seen) = {}" using E(2,3) D(4) by auto
  moreover have "dom (bt_get seen') = dom (bt_get seen) \<union> (E \<union> (\<Union>y \<in> set xs. D y))"
    using D(5) E(3) by auto
  ultimately show ?case by metis
qed simp

section \<open>One subtree\<close>

lemma check_shape_Ok: "check_shape n nd = Ok () \<longleftrightarrow> well_shaped nd"
  by (cases nd) auto

definition grown ::
  "server_state \<Rightarrow> session_id \<Rightarrow> node_id option \<Rightarrow> node_id \<Rightarrow> node_id set \<Rightarrow> bool" where
  "grown s sid ep n D \<longleftrightarrow>
     n \<in> D \<and> (\<exists>nd. bt_get (nodes s) n = Some nd \<and> node_par nd = ep) \<and>
     (\<forall>m \<in> D. \<exists>nd. bt_get (nodes s) m = Some nd \<and> node_session nd = sid \<and> well_shaped nd \<and>
        distinct (child_ids nd) \<and>
        (\<forall>k \<in> set (child_ids nd). k \<in> D \<and> (\<exists>kd. bt_get (nodes s) k = Some kd \<and> node_par kd = Some m))) \<and>
     (\<forall>m \<in> D. (m, n) \<in> (up (layout s))\<^sup>*) \<and>
     (\<forall>m \<in> D. m \<noteq> n \<longrightarrow> (\<exists>p pd md. p \<in> D \<and> bt_get (nodes s) p = Some pd \<and>
        bt_get (nodes s) m = Some md \<and> node_par md = Some p \<and> m \<in> set (child_ids pd)))"

lemma grown_root: "grown s sid ep n D \<Longrightarrow> n \<in> D"
  by (simp add: grown_def)

lemma grown_node:
  assumes "bt_get (nodes s) n = Some nd" and "node_session nd = sid" and "node_par nd = ep"
    and "well_shaped nd" and "distinct (child_ids nd)"
    and "\<And>k. k \<in> set (child_ids nd) \<Longrightarrow> grown s sid (Some n) k (D k)"
  shows "grown s sid ep n (insert n (\<Union>k \<in> set (child_ids nd). D k))" (is "grown s sid ep n ?D")
proof -
  have kid_up: "(k, n) \<in> up (layout s)" if "k \<in> set (child_ids nd)" for k
    using assms(6) [OF that] by (auto simp: grown_def layout_def intro!: upI)
  have nodes: "\<exists>nd. bt_get (nodes s) m = Some nd \<and> node_session nd = sid \<and> well_shaped nd \<and>
        distinct (child_ids nd) \<and>
        (\<forall>k \<in> set (child_ids nd). k \<in> ?D \<and> (\<exists>kd. bt_get (nodes s) k = Some kd \<and> node_par kd = Some m))"
    if m: "m \<in> ?D" for m
  proof (cases "m = n")
    case True
    then show ?thesis using assms(1-5) assms(6) by (auto simp: grown_def) blast
  next
    case False
    then obtain k where k: "k \<in> set (child_ids nd)" "m \<in> D k" using m by auto
    from assms(6) [OF k(1)] k(2) obtain md where md: "bt_get (nodes s) m = Some md"
      "node_session md = sid" "well_shaped md" "distinct (child_ids md)"
      "\<forall>j \<in> set (child_ids md). j \<in> D k \<and> (\<exists>kd. bt_get (nodes s) j = Some kd \<and> node_par kd = Some m)"
      unfolding grown_def by blast
    then show ?thesis using k(1) by blast
  qed
  have root: "(m, n) \<in> (up (layout s))\<^sup>*" if m: "m \<in> ?D" for m
  proof (cases "m = n")
    case False
    then obtain k where k: "k \<in> set (child_ids nd)" "m \<in> D k" using m by auto
    then have "(m, k) \<in> (up (layout s))\<^sup>*" using assms(6) by (auto simp: grown_def)
    then show ?thesis using kid_up [OF k(1)] by (rule rtrancl_into_rtrancl)
  qed simp
  have linked: "\<exists>p pd md. p \<in> ?D \<and> bt_get (nodes s) p = Some pd \<and>
        bt_get (nodes s) m = Some md \<and> node_par md = Some p \<and> m \<in> set (child_ids pd)"
    if m: "m \<in> ?D" "m \<noteq> n" for m
  proof -
    obtain k where k: "k \<in> set (child_ids nd)" "m \<in> D k" using m by auto
    show ?thesis
    proof (cases "m = k")
      case True
      then show ?thesis using assms(1) assms(6) [OF k(1)] k(1) by (auto simp: grown_def)
    next
      case False
      then obtain p pd md where "p \<in> D k" "bt_get (nodes s) p = Some pd"
        "bt_get (nodes s) m = Some md" "node_par md = Some p" "m \<in> set (child_ids pd)"
        using assms(6) [OF k(1)] k(2) unfolding grown_def by blast
      then show ?thesis using k(1) by blast
    qed
  qed
  show ?thesis
    unfolding grown_def
    by (intro conjI ballI impI) (simp, use assms(1,3) in blast, erule nodes, erule root, erule (1) linked)
qed

lemma check_node_Ok:
  "check_node sid n ep seen nd = Ok seen' \<longleftrightarrow>
     node_session nd = sid \<and> node_par nd = ep \<and> n \<notin> dom (bt_get seen) \<and> seen' = bt_insert n () seen"
  by (auto simp: check_node_def)

lemma dom_insert_unit: "dom (bt_get (bt_insert n () seen)) = insert n (dom (bt_get seen))"
  by (auto split: if_splits)

lemma validate_subtree_from_sound:
  assumes "validate_subtree_from k s sid ep n seen = Ok seen'"
  shows "\<exists>D. grown s sid ep n D \<and> D \<inter> dom (bt_get seen) = {} \<and>
    dom (bt_get seen') = dom (bt_get seen) \<union> D"
  using assms
proof (induction k arbitrary: ep n seen seen')
  case (Suc k)
  obtain nd where nd: "bt_get (nodes s) n = Some nd"
    using Suc.prems by (cases "bt_get (nodes s) n") (auto simp: state_node_def)
  obtain m where m: "check_node sid n ep seen nd = Ok m"
    using Suc.prems nd by (cases "check_node sid n ep seen nd") (auto simp: state_node_def)
  have shape: "check_shape n nd = Ok ()"
    using Suc.prems nd m by (cases "check_shape n nd") (auto simp: state_node_def)
  have fold: "fold_ok (validate_subtree_from k s sid (Some n)) (child_ids nd) m = Ok seen'"
    using Suc.prems nd m shape by (simp add: state_node_def)
  obtain D where D: "\<forall>x \<in> set (child_ids nd). grown s sid (Some n) x (D x)" "distinct (child_ids nd)"
    "(\<Union>x \<in> set (child_ids nd). D x) \<inter> dom (bt_get m) = {}"
    "dom (bt_get seen') = dom (bt_get m) \<union> (\<Union>x \<in> set (child_ids nd). D x)"
    using fold_seen_sound [OF fold, where Q = "grown s sid (Some n)" and a = "\<lambda>x. x"]
      Suc.IH grown_root by (smt (verit, best))
  have c: "node_session nd = sid" "node_par nd = ep" "n \<notin> dom (bt_get seen)"
    "m = bt_insert n () seen" using m by (auto simp: check_node_Ok)
  have "grown s sid ep n (insert n (\<Union>k \<in> set (child_ids nd). D k))"
    by (rule grown_node [OF nd c(1,2)]) (use shape D in \<open>auto simp: check_shape_Ok\<close>)
  moreover have "insert n (\<Union>k \<in> set (child_ids nd). D k) \<inter> dom (bt_get seen) = {}"
    using c(3) D(3) unfolding c(4) dom_insert_unit by auto
  moreover have "dom (bt_get seen') = dom (bt_get seen) \<union> insert n (\<Union>k \<in> set (child_ids nd). D k)"
    using D(4) unfolding c(4) dom_insert_unit by auto
  ultimately show ?case by blast
qed simp

lemma validate_subtree_from_complete:
  assumes "forest (layout s)" and "\<And>m md. m \<in> below (layout s) n \<Longrightarrow>
      bt_get (nodes s) m = Some md \<Longrightarrow> well_shaped md \<and> node_session md = sid"
    and "layout s n = Some c" and "ce_parent c = ep"
    and "card (below (layout s) n) \<le> k" and "dom (bt_get seen) \<inter> below (layout s) n = {}"
  shows "\<exists>seen'. validate_subtree_from k s sid ep n seen = Ok seen' \<and>
    dom (bt_get seen') = dom (bt_get seen) \<union> below (layout s) n"
  using assms(2-6)
proof (induction k arbitrary: n ep c seen)
  case 0
  then show ?case using card_below_pos [OF assms(1)] by fastforce
next
  case (Suc k)
  let ?L = "layout s"
  obtain nd where nd: "bt_get (nodes s) n = Some nd" "c = cell_of nd"
    using Suc.prems(2) by (auto simp: layout_Some)
  have ok: "well_shaped nd" "node_session nd = sid" using Suc.prems(1) [of n nd] nd by auto
  have unseen: "n \<notin> dom (bt_get seen)" using Suc.prems(5) in_below_self by blast
  have below_kid: "below ?L x \<subseteq> below ?L n - {n}" if "x \<in> set (child_ids nd)" for x
    using that below_kids [OF assms(1) Suc.prems(2)] nd(2)
      self_not_below_kid [OF assms(1) forest_kid_up [OF assms(1) Suc.prems(2)]] by auto
  have "\<exists>seen'. fold_ok (validate_subtree_from k s sid (Some n)) (child_ids nd) (bt_insert n () seen) = Ok seen' \<and>
      dom (bt_get seen') = dom (bt_get (bt_insert n () seen)) \<union> (\<Union>x \<in> set (child_ids nd). below ?L x)"
  proof (rule fold_seen_complete)
    fix x and seen :: node_set
    assume x: "x \<in> set (child_ids nd)" and d: "dom (bt_get seen) \<inter> below ?L x = {}"
    obtain d where d': "?L x = Some d" "ce_parent d = Some n"
      using forest_kid [OF assms(1) Suc.prems(2), of x] x nd(2) by auto
    show "\<exists>seen'. validate_subtree_from k s sid (Some n) x seen = Ok seen' \<and>
        dom (bt_get seen') = dom (bt_get seen) \<union> below ?L x"
      by (rule Suc.IH [OF _ d' _ d])
        (use Suc.prems(1) below_kid [OF x] kid_fuel [OF assms(1) Suc.prems(2,4)] x nd(2) in auto)
  next
    show "distinct (child_ids nd)" using forest_distinct [OF assms(1) Suc.prems(2)] nd(2) by simp
  next
    fix x y
    assume "x \<in> set (child_ids nd)" "y \<in> set (child_ids nd)" "x \<noteq> y"
    then show "below ?L x \<inter> below ?L y = {}"
      using siblings_disjoint [OF assms(1), of x n y] forest_kid_up [OF assms(1) Suc.prems(2)] nd(2)
      by auto
  next
    fix x
    assume "x \<in> set (child_ids nd)"
    then show "dom (bt_get (bt_insert n () seen)) \<inter> below ?L x = {}"
      using below_kid [of x] Suc.prems(5) unfolding dom_insert_unit by auto
  qed
  then show ?case
    using nd ok unseen Suc.prems(3) below_kids [OF assms(1) Suc.prems(2)]
      check_node_Ok [of sid n ep seen nd "bt_insert n () seen"] check_shape_Ok [of n nd]
    unfolding dom_insert_unit by (auto simp: state_node_def)
qed

section \<open>Visibility\<close>

lemma showing_root: "(n, r) \<in> (showing s)\<^sup>* \<Longrightarrow> (n, r) \<in> (up (layout s))\<^sup>*"
  by (rule showing_star_up)

lemma pane_root_parentless:
  assumes "structure_ok s" and "pane_root s sid r"
  shows "parentless (layout s) r"
  using assms sessions_okD(3) floating_okD(2)
  unfolding structure_ok_def pane_root_def parentless_def by metis

lemma is_node_visible_in_session_Ok:
  assumes "structure_ok s" and "bt_get (sessions s) sid = Some se" and "layout s n = Some c"
  shows "is_node_visible_in_session s sid n =
    (if ce_session c \<noteq> sid then Err (Conflict (NodeInOtherSession n (ce_session c) sid))
     else Ok (visible_in s sid n))"
proof (cases "ce_session c = sid")
  case True
  have ok: "forest (layout s)" "floating_ok s" using assms(1) by (auto simp: structure_ok_def)
  obtain r where r: "top_root_for_node s n = Ok r" "(n, r) \<in> (up (layout s))\<^sup>*"
    "parentless (layout s) r"
    using top_root_Ok [OF ok(1)] assms(3) by blast
  have dom: "r \<in> dom (layout s)" using r(3) by (auto simp: parentless_def)
  have vis: "visible_in s sid n \<longleftrightarrow> (n, r) \<in> (showing s)\<^sup>* \<and> pane_root s sid r"
    using True assms(3) root_unique [OF r(2,3)] pane_root_parentless [OF assms(1)] showing_root
    unfolding visible_in_def by blast
  show ?thesis
  proof (cases "r = se_root_node se")
    case True': True
    then have "pane_root s sid r" using assms(2) by (auto simp: pane_root_def)
    then show ?thesis
      using True True' r assms vis is_node_visible_from_Ok [OF ok(1) dom]
      by (simp add: is_node_visible_in_session_def ensure_node_layout state_session_def)
  next
    case False
    then have pane: "pane_root s sid r \<longleftrightarrow> (\<exists>fid f. bt_get (floating s) fid = Some f \<and> fw_root_node f = r \<and> fw_visible f)"
      using assms(2) by (auto simp: pane_root_def)
    show ?thesis
    proof (cases "floating_id_by_root s r")
      case None
      then have "\<not> pane_root s sid r" using pane by (auto simp: floating_id_by_root_None)
      then show ?thesis
        using None True False r assms vis
        by (simp add: is_node_visible_in_session_def ensure_node_layout state_session_def)
    next
      case (Some fid)
      then obtain f where f: "bt_get (floating s) fid = Some f" "fw_root_node f = r"
        using floating_id_by_root_Some [OF ok(2)] by blast
      then have "pane_root s sid r \<longleftrightarrow> fw_visible f"
        using pane floating_okD(4) [OF ok(2)] by (metis option.inject)
      then show ?thesis
        using Some True False r f assms vis is_node_visible_from_Ok [OF ok(1) dom]
        by (simp add: is_node_visible_in_session_def ensure_node_layout state_session_def
            state_floating_def)
    qed
  qed
next
  case False
  then show ?thesis using assms(3) by (simp add: is_node_visible_in_session_def ensure_node_layout)
qed

lemma visible_in_layout: "visible_in s sid n \<Longrightarrow> \<exists>c. layout s n = Some c \<and> ce_session c = sid"
  by (simp add: visible_in_def)

lemma validate_focus_iff:
  assumes "structure_ok s" and "bt_get (sessions s) sid = Some se"
  shows "validate_focus s se = Ok () \<longleftrightarrow>
    (\<forall>leaf. se_focused_leaf se = Some leaf \<longrightarrow> is_view s leaf \<and> visible_in s sid leaf)"
proof (cases "se_focused_leaf se")
  case (Some leaf)
  have sid: "se_id se = sid" using sessions_okD(1) assms by (auto simp: structure_ok_def)
  show ?thesis
  proof (cases "bt_get (nodes s) leaf")
    case None
    then show ?thesis using Some by (simp add: validate_focus_def state_node_def is_view_def)
  next
    case (Some nd)
    have L: "layout s leaf = Some (cell_of nd)" using Some by (simp add: layout_def)
    show ?thesis
      using \<open>se_focused_leaf se = Some leaf\<close> Some is_node_visible_in_session_Ok [OF assms L] sid
        visible_in_layout [of s sid leaf] L
      by (cases nd) (auto simp: validate_focus_def state_node_def is_view_def)
  qed
qed (simp add: validate_focus_def)

lemma validate_zoom_iff:
  assumes "structure_ok s" and "bt_get (sessions s) sid = Some se"
  shows "validate_zoom s se = Ok () \<longleftrightarrow>
    (\<forall>n. se_zoomed_node se = Some n \<longrightarrow> visible_in s sid n)"
proof (cases "se_zoomed_node se")
  case (Some n)
  have sid: "se_id se = sid" using sessions_okD(1) assms by (auto simp: structure_ok_def)
  show ?thesis
  proof (cases "bt_get (nodes s) n")
    case None
    then have "\<not> visible_in s sid n" by (auto simp: visible_in_def layout_def)
    then show ?thesis using Some None by (simp add: validate_zoom_def state_node_def)
  next
    case (Some nd)
    have L: "layout s n = Some (cell_of nd)" using Some by (simp add: layout_def)
    show ?thesis
      using \<open>se_zoomed_node se = Some n\<close> Some is_node_visible_in_session_Ok [OF assms L] sid
        visible_in_layout [of s sid n] L
      by (auto simp: validate_zoom_def state_node_def)
  qed
qed (simp add: validate_zoom_def)

section \<open>Sessions\<close>

definition grown_floating :: "server_state \<Rightarrow> session \<Rightarrow> floating_id \<Rightarrow> node_id set \<Rightarrow> bool" where
  "grown_floating s se fid E \<longleftrightarrow>
     (\<exists>f. bt_get (floating s) fid = Some f \<and> fw_session_id f = se_id se \<and>
          fw_root_node f \<noteq> se_root_node se \<and> grown s (se_id se) None (fw_root_node f) E)"

definition grown_session :: "server_state \<Rightarrow> session \<Rightarrow> node_id set \<Rightarrow> bool" where
  "grown_session s se E \<longleftrightarrow>
     distinct (se_floating se) \<and>
     (\<exists>tb. bt_get (nodes s) (se_root_node se) = Some (Tabs tb)) \<and>
     validate_focus s se = Ok () \<and> validate_zoom s se = Ok () \<and>
     (\<exists>R F. grown s (se_id se) None (se_root_node se) R \<and>
        (\<forall>fid \<in> set (se_floating se). grown_floating s se fid (F fid)) \<and>
        (\<forall>x \<in> set (se_floating se). \<forall>y \<in> set (se_floating se). x \<noteq> y \<longrightarrow> F x \<inter> F y = {}) \<and>
        E = R \<union> (\<Union>fid \<in> set (se_floating se). F fid))"

lemma validate_floating_sound:
  assumes "validate_floating s se fid seen = Ok seen'"
  shows "\<exists>E. grown_floating s se fid E \<and> E \<inter> dom (bt_get seen) = {} \<and>
    dom (bt_get seen') = dom (bt_get seen) \<union> E"
proof -
  obtain f where f: "bt_get (floating s) fid = Some f"
    using assms by (cases "bt_get (floating s) fid") (auto simp: validate_floating_def state_floating_def)
  have c: "fw_session_id f = se_id se" "fw_root_node f \<noteq> se_root_node se"
    using assms f by (auto simp: validate_floating_def state_floating_def split: if_splits)
  obtain p where p: "node_parent s (fw_root_node f) = Ok p"
    using assms f c by (cases "node_parent s (fw_root_node f)") (auto simp: validate_floating_def state_floating_def)
  have "validate_subtree s (se_id se) (fw_root_node f) None seen = Ok seen'"
    using assms f c p by (simp add: validate_floating_def state_floating_def split: if_splits)
  from validate_subtree_from_sound [OF this [unfolded validate_subtree_def]] show ?thesis
    using f c by (auto simp: grown_floating_def)
qed

lemma validate_session_sound:
  assumes "validate_session s se seen = Ok seen'"
  shows "\<exists>E. grown_session s se E \<and> E \<inter> dom (bt_get seen) = {} \<and>
    dom (bt_get seen') = dom (bt_get seen) \<union> E"
proof -
  let ?root = "se_root_node se"
  obtain nd where nd: "bt_get (nodes s) ?root = Some nd"
    using assms by (cases "bt_get (nodes s) ?root") (auto simp: validate_session_def state_node_def)
  have c: "node_par nd = None" "is_tabs nd"
    using assms nd by (auto simp: validate_session_def state_node_def split: if_splits)
  obtain m where m: "validate_subtree s (se_id se) ?root None seen = Ok m"
    using assms nd c
    by (cases "validate_subtree s (se_id se) ?root None seen") (auto simp: validate_session_def state_node_def)
  obtain m' where m': "fold_ok (validate_floating s se) (se_floating se) m = Ok m'"
    using assms nd c m
    by (cases "fold_ok (validate_floating s se) (se_floating se) m") (auto simp: validate_session_def state_node_def)
  have v: "validate_focus s se = Ok ()"
    using assms nd c m m' by (cases "validate_focus s se") (auto simp: validate_session_def state_node_def)
  have z: "validate_zoom s se = Ok ()" "seen' = m'"
    using assms nd c m m' v by (cases "validate_zoom s se"; auto simp: validate_session_def state_node_def)+
  obtain R where R: "grown s (se_id se) None ?root R" "R \<inter> dom (bt_get seen) = {}"
    "dom (bt_get m) = dom (bt_get seen) \<union> R"
    using validate_subtree_from_sound [OF m [unfolded validate_subtree_def]] by blast
  obtain F where F: "\<forall>x \<in> set (se_floating se). grown_floating s se x (F x)" "distinct (se_floating se)"
    "\<forall>x \<in> set (se_floating se). \<forall>y \<in> set (se_floating se). x \<noteq> y \<longrightarrow> F x \<inter> F y = {}"
    "(\<Union>x \<in> set (se_floating se). F x) \<inter> dom (bt_get m) = {}"
    "dom (bt_get m') = dom (bt_get m) \<union> (\<Union>x \<in> set (se_floating se). F x)"
    using fold_seen_sound [OF m', where Q = "grown_floating s se"
        and a = "\<lambda>fid. fw_root_node (the (bt_get (floating s) fid))"]
      validate_floating_sound grown_root unfolding grown_floating_def by (smt (verit) option.sel)
  have "grown_session s se (R \<union> (\<Union>x \<in> set (se_floating se). F x))"
    unfolding grown_session_def using F(1-3) R(1) c(2) nd v z(1) by (auto simp: is_tabs_iff)
  moreover have "(R \<union> (\<Union>x \<in> set (se_floating se). F x)) \<inter> dom (bt_get seen) = {}"
    using R(2,3) F(4) by auto
  moreover have "dom (bt_get seen') = dom (bt_get seen) \<union> (R \<union> (\<Union>x \<in> set (se_floating se). F x))"
    using R(3) F(5) z(2) by auto
  ultimately show ?thesis by blast
qed

section \<open>Soundness of the check\<close>

lemma keyedD:
  "keyed s \<Longrightarrow> bt_get (nodes s) n = Some nd \<Longrightarrow> node_id_of nd = n"
  "keyed s \<Longrightarrow> bt_get (sessions s) sid = Some se \<Longrightarrow> se_id se = sid"
  "keyed s \<Longrightarrow> bt_get (floating s) fid = Some f \<Longrightarrow> fw_id f = fid"
  "keyed s \<Longrightarrow> bt_get (floating s) fid = Some f \<Longrightarrow>
   \<exists>se. bt_get (sessions s) (fw_session_id f) = Some se \<and> fid \<in> set (se_floating se)"
  by (auto simp: keyed_def)

lemma dom_bt_empty: "dom (bt_get bt_empty) = {}"
  by auto

text \<open>Every node is in the tree of an owner, or an empty tabs node without parent.\<close>

definition covered :: "server_state \<Rightarrow> bool" where
  "covered s \<longleftrightarrow>
     (\<forall>n nd. bt_get (nodes s) n = Some nd \<longrightarrow>
        (\<exists>sid r G. grown s sid None r G \<and> owner_root s r \<and> n \<in> G) \<or>
        (\<exists>tb. nd = Tabs tb \<and> tb_parent tb = None \<and> tb_tabs tb = [] \<and> \<not> owner_root s n))"

lemma coveredE:
  assumes "covered s" and "bt_get (nodes s) n = Some nd"
  obtains (tree) sid r G where "grown s sid None r G" "owner_root s r" "n \<in> G"
  | (stray) tb where "nd = Tabs tb" "tb_parent tb = None" "tb_tabs tb = []" "\<not> owner_root s n"
  using assms unfolding covered_def by blast

lemma grownD:
  assumes "grown s sid None r G" and "n \<in> G" and "bt_get (nodes s) n = Some nd"
  shows "node_session nd = sid" and "well_shaped nd" and "distinct (child_ids nd)"
    and "(n, r) \<in> (up (layout s))\<^sup>*"
    and "k \<in> set (child_ids nd) \<Longrightarrow> k \<in> G \<and> (\<exists>kd. bt_get (nodes s) k = Some kd \<and> node_par kd = Some n)"
    and "node_par nd = Some p \<Longrightarrow> \<exists>pd. bt_get (nodes s) p = Some pd \<and> n \<in> set (child_ids pd)"
proof -
  obtain nd' where nd': "bt_get (nodes s) n = Some nd'" "node_session nd' = sid" "well_shaped nd'"
    "distinct (child_ids nd')"
    "\<forall>k \<in> set (child_ids nd'). k \<in> G \<and> (\<exists>kd. bt_get (nodes s) k = Some kd \<and> node_par kd = Some n)"
    using assms(1,2) unfolding grown_def by blast
  then show "node_session nd = sid" "well_shaped nd" "distinct (child_ids nd)"
    "k \<in> set (child_ids nd) \<Longrightarrow> k \<in> G \<and> (\<exists>kd. bt_get (nodes s) k = Some kd \<and> node_par kd = Some n)"
    using assms(3) by auto
  show "(n, r) \<in> (up (layout s))\<^sup>*" using assms(1,2) by (simp add: grown_def)
  show "\<exists>pd. bt_get (nodes s) p = Some pd \<and> n \<in> set (child_ids pd)" if p: "node_par nd = Some p"
  proof -
    have "n \<noteq> r" using assms p by (auto simp: grown_def)
    then obtain q qd md where "bt_get (nodes s) q = Some qd" "bt_get (nodes s) n = Some md"
      "node_par md = Some q" "n \<in> set (child_ids qd)"
      using assms(1,2) unfolding grown_def by blast
    then show ?thesis using p assms(3) by auto
  qed
qed

lemma grown_top: "grown s sid None r G \<Longrightarrow> r \<notin> Domain (up (layout s))"
  by (auto simp: grown_def up_def layout_Some)

lemma covered_forest:
  assumes "covered s" and "keyed s"
  shows "forest (layout s)"
proof -
  have "acyclic (up (layout s))"
  proof (rule acyclic_rooted)
    fix n
    assume "n \<in> dom (layout s)"
    then obtain nd where nd: "bt_get (nodes s) n = Some nd" by (auto simp: dom_layout)
    from assms(1) nd show "\<exists>r. (n, r) \<in> (up (layout s))\<^sup>* \<and> r \<notin> Domain (up (layout s))"
    proof (cases rule: coveredE)
      case (tree sid r G)
      then show ?thesis using grownD(4) [OF tree(1,3) nd] grown_top by blast
    next
      case (stray tb)
      then have "n \<notin> Domain (up (layout s))" using nd by (auto simp: up_def layout_Some)
      then show ?thesis by blast
    qed
  qed
  moreover have "node_id_of nd = n \<and> distinct (child_ids nd)"
    if nd: "bt_get (nodes s) n = Some nd" for n nd
    using assms(1) nd
  proof (cases rule: coveredE)
    case (tree sid r G)
    then show ?thesis using grownD(3) [OF tree(1,3) nd] keyedD(1) [OF assms(2) nd] by simp
  qed (use keyedD(1) [OF assms(2) nd] in auto)
  moreover have "\<exists>kd. bt_get (nodes s) k = Some kd \<and> node_par kd = Some n \<and> node_session kd = node_session nd"
    if nd: "bt_get (nodes s) n = Some nd" and k: "k \<in> set (child_ids nd)" for n nd k
    using assms(1) nd
  proof (cases rule: coveredE)
    case (tree sid r G)
    then show ?thesis
      using grownD(5) [OF tree(1,3) nd k] grownD(1) [OF tree(1,3) nd] grownD(1) [OF tree(1)] by metis
  qed (use k in auto)
  moreover have "\<exists>pd. bt_get (nodes s) p = Some pd \<and> n \<in> set (child_ids pd)"
    if nd: "bt_get (nodes s) n = Some nd" and p: "node_par nd = Some p" for n nd p
    using assms(1) nd
  proof (cases rule: coveredE)
    case (tree sid r G)
    then show ?thesis using grownD(6) [OF tree(1,3) nd p] by blast
  qed (use p in auto)
  ultimately show ?thesis
    unfolding forest_def layout_Some by (simp, fastforce)
qed

lemma validate_extract:
  assumes "validate s = Ok ()"
  obtains D seen where
    "\<And>se. se \<in> set (bt_values (sessions s)) \<Longrightarrow> grown_session s se (D se)"
    "dom (bt_get seen) = (\<Union>se \<in> set (bt_values (sessions s)). D se)"
    "validate_orphans s seen = Ok ()"
    "\<And>bid b. bt_get (buffers s) bid = Some b \<Longrightarrow> validate_attachment s (bid, b) = Ok ()"
    "\<And>n nd. bt_get (nodes s) n = Some nd \<Longrightarrow> validate_view s nd = Ok ()"
proof -
  obtain seen where f: "fold_ok (validate_session s) (bt_values (sessions s)) bt_empty = Ok seen"
    using assms by (cases "fold_ok (validate_session s) (bt_values (sessions s)) bt_empty")
      (auto simp: validate_def)
  have o: "validate_orphans s seen = Ok ()"
    using assms f by (cases "validate_orphans s seen") (auto simp: validate_def)
  have a: "all_ok (validate_attachment s) (bt_entries (buffers s)) = Ok ()"
    using assms f o by (cases "all_ok (validate_attachment s) (bt_entries (buffers s))") (auto simp: validate_def)
  have v: "all_ok (validate_view s) (bt_values (nodes s)) = Ok ()"
    using assms f o a by (simp add: validate_def)
  have root: "se_root_node se \<in> E" if "grown_session s se E" for se E
    using that grown_root by (auto simp: grown_session_def)
  obtain D where D: "\<forall>se \<in> set (bt_values (sessions s)). grown_session s se (D se)"
    "dom (bt_get seen) = dom (bt_get (bt_empty :: node_set)) \<union> (\<Union>se \<in> set (bt_values (sessions s)). D se)"
    using fold_seen_sound [OF f, where Q = "grown_session s" and a = se_root_node]
      validate_session_sound root by (smt (verit))
  show thesis
  proof (rule that [OF _ _ o])
    show "dom (bt_get seen) = (\<Union>se \<in> set (bt_values (sessions s)). D se)" using D(2) by (simp add: dom_bt_empty)
    show "validate_attachment s (bid, b) = Ok ()" if "bt_get (buffers s) bid = Some b" for bid b
      using a bt.in_ents_iff [of bid b "buffers s"] that by (auto simp: all_ok_Ok_iff)
    show "validate_view s nd = Ok ()" if "bt_get (nodes s) n = Some nd" for n nd
      using v that bt_values_iff [of nd "nodes s"] by (auto simp: all_ok_Ok_iff)
  qed (use D(1) in blast)
qed

lemma grown_session_trees:
  assumes "grown_session s se E" and "n \<in> E" and "bt_get (sessions s) sid = Some se"
  shows "\<exists>r G. grown s (se_id se) None r G \<and> owner_root s r \<and> n \<in> G"
proof -
  obtain R F where g: "grown s (se_id se) None (se_root_node se) R"
    "\<forall>fid \<in> set (se_floating se). grown_floating s se fid (F fid)"
    "E = R \<union> (\<Union>fid \<in> set (se_floating se). F fid)"
    using assms(1) unfolding grown_session_def by blast
  show ?thesis
  proof (cases "n \<in> R")
    case True
    then show ?thesis using g(1) assms(3) by (auto simp: owner_root_def)
  next
    case False
    then obtain fid where "fid \<in> set (se_floating se)" "n \<in> F fid" using assms(2) g(3) by auto
    then show ?thesis using g(2) unfolding grown_floating_def owner_root_def by blast
  qed
qed

lemma orphan_iff:
  "is_detached_empty_tabs_node s n \<longleftrightarrow>
     (\<exists>tb. bt_get (nodes s) n = Some (Tabs tb) \<and> tb_parent tb = None \<and> tb_tabs tb = [] \<and>
           \<not> owner_root s n)"
proof -
  have "list_ex (\<lambda>se. se_root_node se = n) (bt_values (sessions s)) \<longleftrightarrow>
      (\<exists>sid se. bt_get (sessions s) sid = Some se \<and> se_root_node se = n)"
    by (simp add: list_ex_iff Bex_def bt_values_iff) blast
  then show ?thesis
    by (auto simp: is_detached_empty_tabs_node_def owner_root_def floating_id_by_root_None
        split: option.splits node.splits)
qed

lemma validate_orphans_iff:
  "validate_orphans s seen = Ok () \<longleftrightarrow>
     (\<forall>n nd. bt_get (nodes s) n = Some nd \<longrightarrow> n \<in> dom (bt_get seen) \<or> is_detached_empty_tabs_node s n)"
proof -
  let ?P = "\<lambda>n. \<not> bt_contains seen n \<and> \<not> is_detached_empty_tabs_node s n"
  have "validate_orphans s seen = Ok () \<longleftrightarrow> find ?P (bt_keys (nodes s)) = None"
    by (simp add: validate_orphans_def del: bt_contains_iff split: option.split)
  then show ?thesis unfolding find_None_iff by (simp add: dom_def) (metis not_None_eq)
qed

lemma validate_covered:
  assumes "validate s = Ok ()"
  shows "covered s"
proof -
  from assms obtain D seen where v:
    "\<And>se. se \<in> set (bt_values (sessions s)) \<Longrightarrow> grown_session s se (D se)"
    "dom (bt_get seen) = (\<Union>se \<in> set (bt_values (sessions s)). D se)"
    "validate_orphans s seen = Ok ()"
    by (rule validate_extract) (rule that)
  show ?thesis
    unfolding covered_def
  proof (intro allI impI)
    fix n nd
    assume nd: "bt_get (nodes s) n = Some nd"
    show "(\<exists>sid r G. grown s sid None r G \<and> owner_root s r \<and> n \<in> G) \<or>
        (\<exists>tb. nd = Tabs tb \<and> tb_parent tb = None \<and> tb_tabs tb = [] \<and> \<not> owner_root s n)"
    proof (cases "n \<in> dom (bt_get seen)")
      case True
      then obtain se where se: "se \<in> set (bt_values (sessions s))" "n \<in> D se" using v(2) by auto
      then obtain sid where "bt_get (sessions s) sid = Some se" by (auto simp: bt_values_iff)
      then show ?thesis using grown_session_trees [OF v(1) [OF se(1)] se(2)] by blast
    next
      case False
      then show ?thesis using v(3) nd by (auto simp: validate_orphans_iff orphan_iff)
    qed
  qed
qed

lemma validate_sessions:
  assumes "validate s = Ok ()" and "keyed s"
  shows "\<And>sid se. bt_get (sessions s) sid = Some se \<Longrightarrow> \<exists>E. grown_session s se E \<and> se_id se = sid"
proof -
  fix sid se
  assume se: "bt_get (sessions s) sid = Some se"
  from assms(1) obtain D where "\<And>se. se \<in> set (bt_values (sessions s)) \<Longrightarrow> grown_session s se (D se)"
    by (rule validate_extract) (rule that)
  then show "\<exists>E. grown_session s se E \<and> se_id se = sid"
    using se keyedD(2) [OF assms(2) se] by (auto simp: bt_values_iff)
qed

lemma grown_layout:
  assumes "grown s sid ep r G"
  shows "\<exists>c. layout s r = Some c \<and> ce_parent c = ep \<and> ce_session c = sid"
proof -
  obtain nd where "bt_get (nodes s) r = Some nd" "node_par nd = ep" "node_session nd = sid"
    using assms unfolding grown_def by (metis option.inject)
  then show ?thesis by (simp add: layout_def)
qed

lemma validate_sessions_ok:
  assumes "validate s = Ok ()" and "keyed s"
  shows "sessions_ok s"
  unfolding sessions_ok_def
proof (intro allI impI)
  fix sid se
  assume se: "bt_get (sessions s) sid = Some se"
  obtain E where E: "grown_session s se E" "se_id se = sid" using validate_sessions [OF assms se] by blast
  obtain R F where g: "grown s (se_id se) None (se_root_node se) R"
    "\<forall>fid \<in> set (se_floating se). grown_floating s se fid (F fid)"
    using E(1) unfolding grown_session_def by blast
  have "\<exists>c. layout s (se_root_node se) = Some c \<and> ce_kind c = KTabs \<and> ce_parent c = None \<and> ce_session c = sid"
    using E grown_layout [OF g(1)] by (auto simp: grown_session_def layout_def)
  moreover have "\<forall>fid \<in> set (se_floating se). \<exists>f. bt_get (floating s) fid = Some f \<and> fw_session_id f = sid"
    using g(2) E(2) by (auto simp: grown_floating_def)
  ultimately show "se_id se = sid \<and> distinct (se_floating se) \<and>
      (\<exists>c. layout s (se_root_node se) = Some c \<and> ce_kind c = KTabs \<and> ce_parent c = None \<and> ce_session c = sid) \<and>
      (\<forall>fid \<in> set (se_floating se). \<exists>f. bt_get (floating s) fid = Some f \<and> fw_session_id f = sid)"
    using E by (simp add: grown_session_def)
qed

lemma validate_floating_ok:
  assumes "validate s = Ok ()" and "keyed s"
  shows "floating_ok s"
proof -
  have one: "\<exists>se F. bt_get (sessions s) (fw_session_id f) = Some se \<and> fid \<in> set (se_floating se) \<and>
      (\<forall>x \<in> set (se_floating se). grown_floating s se x (F x)) \<and>
      (\<forall>x \<in> set (se_floating se). \<forall>y \<in> set (se_floating se). x \<noteq> y \<longrightarrow> F x \<inter> F y = {})"
    if f: "bt_get (floating s) fid = Some f" for fid f
  proof -
    obtain se where se: "bt_get (sessions s) (fw_session_id f) = Some se" "fid \<in> set (se_floating se)"
      using keyedD(4) [OF assms(2) f] by blast
    then show ?thesis using validate_sessions [OF assms se(1)] unfolding grown_session_def by blast
  qed
  have root: "fw_root_node f \<noteq> se_root_node se \<and>
      (\<exists>c. layout s (fw_root_node f) = Some c \<and> ce_parent c = None \<and> ce_session c = fw_session_id f) \<and>
      fw_root_node f \<in> E"
    if "bt_get (floating s) fid = Some f" "grown_floating s se fid E" for fid f se E
    using that grown_layout grown_root unfolding grown_floating_def by fastforce
  have "fid = gid" if fg: "bt_get (floating s) fid = Some f" "bt_get (floating s) gid = Some g"
    "fw_root_node f = fw_root_node g" for fid f gid g
  proof -
    obtain se F where F: "bt_get (sessions s) (fw_session_id f) = Some se" "fid \<in> set (se_floating se)"
      "\<forall>x \<in> set (se_floating se). grown_floating s se x (F x)"
      "\<forall>x \<in> set (se_floating se). \<forall>y \<in> set (se_floating se). x \<noteq> y \<longrightarrow> F x \<inter> F y = {}"
      using one [OF fg(1)] by blast
    obtain se' F' where F': "bt_get (sessions s) (fw_session_id g) = Some se'" "gid \<in> set (se_floating se')"
      "\<forall>x \<in> set (se_floating se'). grown_floating s se' x (F' x)"
      using one [OF fg(2)] by blast
    have "fw_session_id f = fw_session_id g"
      using root [OF fg(1)] F(2,3) root [OF fg(2)] F'(2,3) fg(3) by fastforce
    then have "gid \<in> set (se_floating se)" using F(1) F'(1,2) by auto
    then have "fw_root_node g \<in> F gid \<and> fw_root_node g \<in> F fid"
      using root [OF fg(1)] root [OF fg(2)] F(2,3) fg(3) by auto
    then show ?thesis using F(2,4) \<open>gid \<in> set (se_floating se)\<close> by blast
  qed
  moreover have "fw_id f = fid \<and>
        (\<exists>c. layout s (fw_root_node f) = Some c \<and> ce_parent c = None \<and> ce_session c = fw_session_id f) \<and>
        (\<exists>se. bt_get (sessions s) (fw_session_id f) = Some se \<and> fid \<in> set (se_floating se) \<and>
              se_root_node se \<noteq> fw_root_node f)" if f: "bt_get (floating s) fid = Some f" for fid f
  proof -
    obtain se F where F: "bt_get (sessions s) (fw_session_id f) = Some se" "fid \<in> set (se_floating se)"
      "\<forall>x \<in> set (se_floating se). grown_floating s se x (F x)"
      using one [OF f] by blast
    then have "grown_floating s se fid (F fid)" by blast
    from root [OF f this] show ?thesis using F(1,2) keyedD(3) [OF assms(2) f] by auto
  qed
  ultimately show ?thesis unfolding floating_ok_def by blast
qed

lemma validate_buffers_iff:
  assumes "keyed s"
  shows "(\<forall>bid b. bt_get (buffers s) bid = Some b \<longrightarrow> validate_attachment s (bid, b) = Ok ()) \<longleftrightarrow> attach_ok s"
    and "(\<forall>n nd. bt_get (nodes s) n = Some nd \<longrightarrow> validate_view s nd = Ok ()) \<longleftrightarrow> shown_buffers_ok s"
proof -
  have "validate_attachment s (bid, b) = Ok () \<longleftrightarrow>
      (\<forall>m. bu_attachment b = Attached m \<longrightarrow> (\<exists>v. bt_get (nodes s) m = Some (BufferView v) \<and> bv_buffer_id v = bid))"
    for bid b
  proof (cases "bu_attachment b")
    case (Attached m)
    then show ?thesis
      by (cases "bt_get (nodes s) m"; cases "the (bt_get (nodes s) m)")
        (auto simp: validate_attachment_def state_node_def)
  qed (simp add: validate_attachment_def)
  then show "(\<forall>bid b. bt_get (buffers s) bid = Some b \<longrightarrow> validate_attachment s (bid, b) = Ok ()) \<longleftrightarrow> attach_ok s"
    unfolding attach_ok_def by blast
  have view: "validate_view s (BufferView v) = Ok () \<longleftrightarrow>
      (\<exists>b. bt_get (buffers s) (bv_buffer_id v) = Some b \<and> bu_attachment b = Attached n)"
    if "bt_get (nodes s) n = Some (BufferView v)" for n v
    using keyedD(1) [OF assms that]
    by (cases "bt_get (buffers s) (bv_buffer_id v)") (auto simp: validate_view_def state_buffer_def)
  have other: "validate_view s nd = Ok ()" if "\<not> is_buffer_view nd" for nd
    using that by (cases nd) (simp_all add: validate_view_def)
  show "(\<forall>n nd. bt_get (nodes s) n = Some nd \<longrightarrow> validate_view s nd = Ok ()) \<longleftrightarrow> shown_buffers_ok s"
    unfolding shown_buffers_ok_def using view other is_buffer_view_iff by metis
qed

lemma grown_owned:
  assumes "covered s" and "keyed s" and "bt_get (nodes s) n = Some nd" and "owned s n"
  shows "well_shaped nd"
  using assms(1,3)
proof (cases rule: coveredE)
  case (tree sid r G)
  then show ?thesis using grownD(2) assms(3) by blast
next
  case (stray tb)
  then have "n \<notin> Domain (up (layout s))" using assms(3) by (auto simp: up_def layout_Some)
  then have "\<not> owned s n" using stray(4) unfolding owned_def by (metis Domain.DomainI converse_rtranclE)
  then show ?thesis using assms(4) by simp
qed

lemma validate_sound:
  assumes "validate s = Ok ()" and "keyed s"
  shows "consistent s"
proof -
  note cov = validate_covered [OF assms(1)]
  from assms(1) obtain bufs: "\<And>bid b. bt_get (buffers s) bid = Some b \<Longrightarrow> validate_attachment s (bid, b) = Ok ()"
    and views: "\<And>n nd. bt_get (nodes s) n = Some nd \<Longrightarrow> validate_view s nd = Ok ()"
    by (rule validate_extract) (rule that)
  have b: "attach_ok s" "shown_buffers_ok s" using validate_buffers_iff [OF assms(2)] bufs views by blast+
  have "views_ok s" unfolding views_ok_def
    using b(2) by (auto simp: shown_buffers_ok_def layout_Some kind_of_view) blast
  then have st: "structure_ok s"
    unfolding structure_ok_def
    using covered_forest [OF cov assms(2)] b(1) validate_sessions_ok [OF assms] validate_floating_ok [OF assms]
    by blast
  have "attention_ok s"
    unfolding attention_ok_def
    using validate_sessions [OF assms] validate_focus_iff [OF st] validate_zoom_iff [OF st]
    unfolding grown_session_def by blast
  moreover have "shapes_ok s"
    unfolding shapes_ok_def using grown_owned [OF cov assms(2)] by blast
  moreover have "strays_ok s"
    unfolding strays_ok_def
  proof (intro allI impI)
    fix n nd
    assume h: "bt_get (nodes s) n = Some nd" "node_par nd = None" "\<not> owner_root s n"
    from cov h(1) show "\<exists>tb. nd = Tabs tb \<and> tb_tabs tb = []"
    proof (cases rule: coveredE)
      case (tree sid r G)
      then have "(n, r) \<in> (up (layout s))\<^sup>*" using grownD(4) h(1) by blast
      moreover have "n \<notin> Domain (up (layout s))" using h(1,2) by (auto simp: up_def layout_Some)
      ultimately have "n = r" by (metis Domain.DomainI converse_rtranclE)
      then show ?thesis using h(3) tree(2) by simp
    qed blast
  qed
  ultimately show ?thesis using st b(2) by (simp add: consistent_def)
qed

section \<open>Completeness of the check\<close>

lemma kind_of_tabs: "kind_of nd = KTabs \<longleftrightarrow> (\<exists>tb. nd = Tabs tb)"
  by (cases nd) simp_all

lemma owned_below: "owner_root s r \<Longrightarrow> m \<in> below (layout s) r \<Longrightarrow> owned s m"
  by (auto simp: owned_def below_def)

lemma validate_subtree_complete:
  assumes "consistent s" and "layout s r = Some c" and "ce_parent c = None" and "ce_session c = sid"
    and "owner_root s r" and "dom (bt_get seen) \<inter> below (layout s) r = {}"
  shows "\<exists>seen'. validate_subtree s sid r None seen = Ok seen' \<and>
    dom (bt_get seen') = dom (bt_get seen) \<union> below (layout s) r"
  unfolding validate_subtree_def fuel_layout
proof (rule validate_subtree_from_complete [OF _ _ assms(2,3) _ assms(6)])
  show f: "forest (layout s)" using assms(1) by (simp add: consistent_def structure_ok_def)
  show "card (below (layout s) r) \<le> Suc (Suc (card (dom (layout s))))"
    using card_below [OF f, of r] assms(2) by (simp add: domI)
  fix m md
  assume m: "m \<in> below (layout s) r" "bt_get (nodes s) m = Some md"
  then have "layout s m = Some (cell_of md)" by (simp add: layout_def)
  then have "node_session md = sid"
    using up_star_session [OF f, of m r] m(1) assms(2,4) by (auto simp: below_def)
  then show "well_shaped md \<and> node_session md = sid"
    using assms(1) owned_below [OF assms(5) m(1)] m(2) by (auto simp: consistent_def shapes_ok_def)
qed

lemma roots_disjoint:
  assumes "parentless L a" and "parentless L b" and "a \<noteq> b"
  shows "below L a \<inter> below L b = {}"
  using root_unique assms by (auto simp: below_def)

text \<open>The nodes of a session: those of its root and of its floating windows.\<close>

definition session_trees :: "server_state \<Rightarrow> session \<Rightarrow> node_id set" where
  "session_trees s se =
     below (layout s) (se_root_node se) \<union>
     (\<Union>fid \<in> set (se_floating se). below (layout s) (fw_root_node (the (bt_get (floating s) fid))))"

lemma validate_session_complete:
  assumes "consistent s" and "bt_get (sessions s) sid = Some se"
    and "dom (bt_get seen) \<inter> session_trees s se = {}"
  shows "\<exists>seen'. validate_session s se seen = Ok seen' \<and>
    dom (bt_get seen') = dom (bt_get seen) \<union> session_trees s se"
proof -
  let ?L = "layout s" and ?root = "se_root_node se"
  have st: "structure_ok s" and fl: "floating_ok s" and ses: "sessions_ok s"
    using assms(1) by (simp_all add: consistent_def structure_ok_def)
  have sid: "se_id se = sid" using sessions_okD(1) [OF ses assms(2)] .
  obtain c where c: "?L ?root = Some c" "ce_kind c = KTabs" "ce_parent c = None" "ce_session c = sid"
    using sessions_okD(3) [OF ses assms(2)] by blast
  obtain tb where tb: "bt_get (nodes s) ?root = Some (Tabs tb)" "tb_parent tb = None"
    using c by (auto simp: layout_Some kind_of_tabs)
  have own: "owner_root s ?root" using assms(2) by (auto simp: owner_root_def)
  obtain m where m: "validate_subtree s sid ?root None seen = Ok m"
    "dom (bt_get m) = dom (bt_get seen) \<union> below ?L ?root"
    using validate_subtree_complete [OF assms(1) c(1,3,4) own, of seen] assms(3)
    unfolding session_trees_def by blast
  define D where "D fid = below ?L (fw_root_node (the (bt_get (floating s) fid)))" for fid
  have float: "\<exists>f c'. bt_get (floating s) fid = Some f \<and> fw_session_id f = sid \<and>
      fw_root_node f \<noteq> ?root \<and> ?L (fw_root_node f) = Some c' \<and> ce_parent c' = None \<and>
      ce_session c' = sid \<and> D fid = below ?L (fw_root_node f)"
    if fid: "fid \<in> set (se_floating se)" for fid
  proof -
    obtain f where f: "bt_get (floating s) fid = Some f" "fw_session_id f = sid"
      using sessions_okD(4) [OF ses assms(2) fid] by blast
    then show ?thesis
      using floating_okD(2,3) [OF fl f(1)] assms(2) unfolding D_def by auto
  qed
  have "\<exists>m'. fold_ok (validate_floating s se) (se_floating se) m = Ok m' \<and>
      dom (bt_get m') = dom (bt_get m) \<union> (\<Union>fid \<in> set (se_floating se). D fid)"
  proof (rule fold_seen_complete)
    fix fid and seen :: node_set
    assume fid: "fid \<in> set (se_floating se)" and d: "dom (bt_get seen) \<inter> D fid = {}"
    obtain f c' where f: "bt_get (floating s) fid = Some f" "fw_session_id f = sid"
      "fw_root_node f \<noteq> ?root" "?L (fw_root_node f) = Some c'" "ce_parent c' = None" "ce_session c' = sid"
      "D fid = below ?L (fw_root_node f)"
      using float [OF fid] by blast
    have "owner_root s (fw_root_node f)" using f(1) by (auto simp: owner_root_def)
    from validate_subtree_complete [OF assms(1) f(4,5,6) this, of seen] d f
    show "\<exists>seen'. validate_floating s se fid seen = Ok seen' \<and>
        dom (bt_get seen') = dom (bt_get seen) \<union> D fid"
      using sid by (simp add: validate_floating_def state_floating_def node_parent_layout)
  next
    show "distinct (se_floating se)" using sessions_okD(2) [OF ses assms(2)] .
  next
    fix x y
    assume xy: "x \<in> set (se_floating se)" "y \<in> set (se_floating se)" "x \<noteq> y"
    obtain f g c' d' where "bt_get (floating s) x = Some f" "bt_get (floating s) y = Some g"
      "D x = below ?L (fw_root_node f)" "D y = below ?L (fw_root_node g)"
      "?L (fw_root_node f) = Some c'" "ce_parent c' = None" "?L (fw_root_node g) = Some d'" "ce_parent d' = None"
      using float [OF xy(1)] float [OF xy(2)] by blast
    then show "D x \<inter> D y = {}"
      using roots_disjoint [of ?L] floating_okD(4) [OF fl] xy(3) unfolding parentless_def by metis
  next
    fix fid
    assume fid: "fid \<in> set (se_floating se)"
    then have "dom (bt_get seen) \<inter> D fid = {}" using assms(3) unfolding session_trees_def D_def by blast
    moreover have "below ?L ?root \<inter> D fid = {}"
      using float [OF fid] roots_disjoint [of ?L ?root] c unfolding parentless_def by metis
    ultimately show "dom (bt_get m) \<inter> D fid = {}" unfolding m(2) by blast
  qed
  then obtain m' where m': "fold_ok (validate_floating s se) (se_floating se) m = Ok m'"
    "dom (bt_get m') = dom (bt_get m) \<union> (\<Union>fid \<in> set (se_floating se). D fid)" by blast
  have "validate_focus s se = Ok ()" "validate_zoom s se = Ok ()"
    using assms(1,2) validate_focus_iff [OF st assms(2)] validate_zoom_iff [OF st assms(2)]
    by (simp_all add: consistent_def attention_ok_def)
  then show ?thesis
    using tb m m' sid
    by (auto simp: validate_session_def state_node_def session_trees_def D_def)
qed

lemma session_trees_disjoint:
  assumes "structure_ok s" and "bt_get (sessions s) a = Some se" and "bt_get (sessions s) b = Some se'"
    and "a \<noteq> b"
  shows "session_trees s se \<inter> session_trees s se' = {}"
proof -
  let ?L = "layout s"
  have f: "forest ?L" and ses: "sessions_ok s" and fl: "floating_ok s"
    using assms(1) by (auto simp: structure_ok_def)
  have in_session: "\<exists>c. ?L n = Some c \<and> ce_session c = sid"
    if h: "n \<in> session_trees s x" "bt_get (sessions s) sid = Some x" for n x sid
  proof -
    obtain r c where rc: "(n, r) \<in> (up ?L)\<^sup>*" "?L r = Some c" "ce_session c = sid"
    proof (cases "n \<in> below ?L (se_root_node x)")
      case True
      then show thesis using that sessions_okD(3) [OF ses h(2)] by (auto simp: below_def)
    next
      case False
      then obtain fid where fid: "fid \<in> set (se_floating x)"
        "n \<in> below ?L (fw_root_node (the (bt_get (floating s) fid)))"
        using h(1) by (auto simp: session_trees_def)
      then obtain g where g: "bt_get (floating s) fid = Some g" "fw_session_id g = sid"
        using sessions_okD(4) [OF ses h(2)] by blast
      then show thesis using that floating_okD(2) [OF fl g(1)] fid(2) by (auto simp: below_def)
    qed
    have "n \<in> dom ?L" using up_star_dom [OF f rc(1)] rc(2) by blast
    then show ?thesis using up_star_session [OF f rc(1)] rc(2,3) by fastforce
  qed
  have False if "n \<in> session_trees s se" "n \<in> session_trees s se'" for n
    using in_session [OF that(1) assms(2)] in_session [OF that(2) assms(3)] assms(4) by auto
  then show ?thesis by blast
qed

lemma rooted_in_trees:
  assumes "structure_ok s" and "owner_root s r" and "m \<in> below (layout s) r"
  shows "\<exists>se \<in> set (bt_values (sessions s)). m \<in> session_trees s se"
proof -
  consider (session) sid se where "bt_get (sessions s) sid = Some se" "se_root_node se = r"
    | (float) fid f where "bt_get (floating s) fid = Some f" "fw_root_node f = r"
    using assms(2) unfolding owner_root_def by blast
  then show ?thesis
  proof cases
    case session
    then have "m \<in> session_trees s se" using assms(3) by (simp add: session_trees_def)
    then show ?thesis using session(1) bt_values_iff by metis
  next
    case float
    then obtain se where "bt_get (sessions s) (fw_session_id f) = Some se" "fid \<in> set (se_floating se)"
      using floating_okD(3) assms(1) by (metis structure_ok_def)
    moreover have "m \<in> below (layout s) (fw_root_node (the (bt_get (floating s) fid)))"
      using assms(3) float by simp
    ultimately have "m \<in> session_trees s se" "se \<in> set (bt_values (sessions s))"
      by (auto simp: session_trees_def bt_values_iff)
    then show ?thesis by blast
  qed
qed

lemma distinct_session_values: "keyed s \<Longrightarrow> distinct (bt_values (sessions s))"
proof -
  assume k: "keyed s"
  have "map se_id (bt_values (sessions s)) = bt_keys (sessions s)"
    unfolding bt_values_def bt_keys_def
    using bt.in_ents_iff [of _ _ "sessions s"] keyedD(2) [OF k] by auto
  then have "distinct (map se_id (bt_values (sessions s)))"
    using bt.ents_distinct [of "sessions s"] by (simp add: bt_keys_def)
  then show ?thesis by (simp add: distinct_map)
qed

lemma validate_complete:
  assumes "consistent s" and "keyed s"
  shows "validate s = Ok ()"
proof -
  let ?L = "layout s"
  have st: "structure_ok s" and f: "forest ?L"
    using assms(1) by (simp_all add: consistent_def structure_ok_def)
  have "\<exists>seen'. fold_ok (validate_session s) (bt_values (sessions s)) bt_empty = Ok seen' \<and>
      dom (bt_get seen') = dom (bt_get (bt_empty :: node_set)) \<union>
        (\<Union>se \<in> set (bt_values (sessions s)). session_trees s se)"
  proof (rule fold_seen_complete)
    show "distinct (bt_values (sessions s))" by (rule distinct_session_values [OF assms(2)])
    show "session_trees s x \<inter> session_trees s y = {}"
      if xy: "x \<in> set (bt_values (sessions s))" "y \<in> set (bt_values (sessions s))" "x \<noteq> y" for x y
    proof -
      obtain a b where "bt_get (sessions s) a = Some x" "bt_get (sessions s) b = Some y"
        using xy(1,2) by (auto simp: bt_values_iff)
      moreover from this have "a \<noteq> b" using xy(3) by auto
      ultimately show ?thesis by (rule session_trees_disjoint [OF st])
    qed
  qed (use validate_session_complete [OF assms(1)] in \<open>auto simp: bt_values_iff dom_bt_empty\<close>)
  then obtain seen where seen: "fold_ok (validate_session s) (bt_values (sessions s)) bt_empty = Ok seen"
    "dom (bt_get seen) = (\<Union>se \<in> set (bt_values (sessions s)). session_trees s se)"
    by (auto simp: dom_bt_empty)
  have "n \<in> dom (bt_get seen) \<or> is_detached_empty_tabs_node s n" if nd: "bt_get (nodes s) n = Some nd" for n nd
  proof -
    have "n \<in> dom ?L" using nd by (simp add: dom_layout domI)
    then obtain r where r: "(n, r) \<in> (up ?L)\<^sup>*" "parentless ?L r" using forest_root [OF f] by blast
    show ?thesis
    proof (cases "owner_root s r")
      case True
      then show ?thesis using rooted_in_trees [OF st True, of n] r(1) seen(2) by (auto simp: below_def)
    next
      case False
      then obtain tb where tb: "bt_get (nodes s) r = Some (Tabs tb)" "tb_tabs tb = []" "tb_parent tb = None"
        using r(2) assms(1) by (fastforce simp: consistent_def strays_ok_def parentless_def layout_Some)
      then have "below ?L r = {r}" using below_kids [OF f, of r] by (simp add: layout_def)
      then have "n = r" using r(1) by (auto simp: below_def)
      then show ?thesis using tb False by (simp add: orphan_iff)
    qed
  qed
  then have "validate_orphans s seen = Ok ()" by (simp add: validate_orphans_iff)
  moreover have "all_ok (validate_attachment s) (bt_entries (buffers s)) = Ok ()"
    using validate_buffers_iff(1) [OF assms(2)] assms(1) bt.in_ents_iff [of _ _ "buffers s"]
    by (auto simp: all_ok_Ok_iff consistent_def structure_ok_def)
  moreover have "all_ok (validate_view s) (bt_values (nodes s)) = Ok ()"
    using validate_buffers_iff(2) [OF assms(2)] assms(1)
    by (auto simp: all_ok_Ok_iff consistent_def bt_values_iff)
  ultimately show ?thesis using seen(1) by (simp add: validate_def)
qed

lemma validate_iff: "keyed s \<Longrightarrow> validate s = Ok () \<longleftrightarrow> consistent s"
  using validate_sound validate_complete by blast

section \<open>Checks on concrete states\<close>

lemma bt_all_entries: "(\<forall>k v. bt_get m k = Some v \<longrightarrow> P k v) \<longleftrightarrow> (\<forall>(k, v) \<in> set (bt_entries m). P k v)"
  by (simp add: Ball_def split_paired_All bt.in_ents_iff)

lemma bt_all_values: "(\<forall>k v. bt_get m k = Some v \<longrightarrow> P v) \<longleftrightarrow> list_all P (bt_values m)"
  by (simp add: list_all_iff Ball_def bt_values_iff) blast

lemma keyed_check:
  "keyed s \<longleftrightarrow>
     list_all (\<lambda>(n, nd). node_id_of nd = n) (bt_entries (nodes s)) \<and>
     list_all (\<lambda>(sid, se). se_id se = sid) (bt_entries (sessions s)) \<and>
     list_all (\<lambda>(fid, f). fw_id f = fid \<and>
       (case bt_get (sessions s) (fw_session_id f) of
          Some se \<Rightarrow> fid \<in> set (se_floating se) | None \<Rightarrow> False)) (bt_entries (floating s))"
  unfolding keyed_def bt_all_entries list_all_iff
  by (auto split: option.splits)

lemma tabs_ok_check: "tabs_ok s \<longleftrightarrow> list_all active_ok (bt_values (nodes s))"
  unfolding tabs_ok_def by (rule bt_all_values)

definition remembered_ok :: "server_state \<Rightarrow> node_id option \<Rightarrow> bool" where
  "remembered_ok s l =
     (case l of
        None \<Rightarrow> True
      | Some l \<Rightarrow> (case bt_get (nodes s) l of None \<Rightarrow> True | Some nd \<Rightarrow> is_buffer_view nd))"

lemma remembered_ok_iff:
  "remembered_ok s x \<longleftrightarrow> (\<forall>l. x = Some l \<longrightarrow> l \<in> dom (layout s) \<longrightarrow> is_view s l)"
proof (cases x)
  case (Some l)
  then show ?thesis
    by (cases "bt_get (nodes s) l") (auto simp: remembered_ok_def dom_layout is_view_def is_buffer_view_iff)
qed (simp add: remembered_ok_def)

lemma lfd_ok_check:
  "lfd_ok s \<longleftrightarrow>
     list_all (\<lambda>nd. remembered_ok s (memo nd)) (bt_values (nodes s)) \<and>
     list_all (\<lambda>f. remembered_ok s (fw_last_focused_leaf f)) (bt_values (floating s))"
  unfolding bt_all_values [symmetric] lfd_ok_def remembered_ok_iff by blast

lemma ff_ok_check:
  "ff_ok s \<longleftrightarrow>
     list_all (\<lambda>(sid, se).
       case se_focused_floating se of
         None \<Rightarrow> True
       | Some fid \<Rightarrow> (case bt_get (floating s) fid of None \<Rightarrow> True | Some f \<Rightarrow> fw_session_id f = sid))
       (bt_entries (sessions s))"
proof -
  have "ff_ok s \<longleftrightarrow> (\<forall>sid se. bt_get (sessions s) sid = Some se \<longrightarrow>
      (\<forall>fid f. se_focused_floating se = Some fid \<longrightarrow> bt_get (floating s) fid = Some f \<longrightarrow> fw_session_id f = sid))"
    unfolding ff_ok_def by blast
  then show ?thesis
    unfolding bt_all_entries list_all_iff by (auto split: option.splits)
qed

lemma inv_check:
  assumes "validate s = Ok ()" and "keyed s" and "tabs_ok s" and "lfd_ok s" and "ff_ok s"
  shows "inv s"
  using validate_sound [OF assms(1,2)] assms(3-5) by (simp add: consistent_def inv_def)

lemmas check_simps = keyed_check tabs_ok_check remembered_ok_def lfd_ok_check ff_ok_check

text \<open>The sample layout satisfies the invariant.\<close>

lemma sample_keyed: "keyed sample_state"
  by (simp add: sample_state_def sample_layout_def check_simps run_simps cong: run_congs)

lemma sample_inv: "inv sample_state"
proof (rule inv_check [OF _ sample_keyed])
  show "validate sample_state = Ok ()"
    by (simp add: sample_state_def sample_layout_def run_simps cong: run_congs)
  show "tabs_ok sample_state" "lfd_ok sample_state" "ff_ok sample_state"
    by (simp_all add: sample_state_def sample_layout_def check_simps run_simps cong: run_congs)
qed

lemma sample_consistent: "consistent sample_state"
proof (rule validate_sound [OF _ sample_keyed])
  show "validate sample_state = Ok ()"
    by (simp add: sample_state_def sample_layout_def run_simps cong: run_congs)
qed

end
