(* ===== verification/Server_Heal.thy ===== *)
theory Server_Heal
  imports Server_Consistent
begin

text \<open>
  Repairing the focus: \<open>heal_focus\<close> never fails on a session of a well-formed state. It focuses a pane
  the session shows, in its layout or in one of its visible floating windows; only when no pane is
  shown at all it leaves the session without a focus. The methods that select a tab or a pane end in
  the same way.
\<close>

section \<open>Clearing the focus\<close>

text \<open>What clearing the focus leaves alone: the nodes up to the focus flag of the views, and what the
  floating windows remember.\<close>

fun calm_node :: "node \<Rightarrow> node" where
  "calm_node (BufferView v) = BufferView (v\<lparr>bv_view := (bv_view v)\<lparr>vs_focused := False\<rparr>\<rparr>)"
| "calm_node nd = nd"

definition calm :: "server_state \<Rightarrow> (node_id, node) btree_map \<times> (floating_id, node_id option) btree_map" where
  "calm s = (bt_map_values calm_node (nodes s), bt_map_values fw_last_focused_leaf (floating s))"

lemma calm_frame [frame]:
  "keeps calm (session_mut sid f)"
  "keeps calm (modify (\<lambda>s. s\<lparr>floating := bt_update fid (\<lambda>f. f\<lparr>fw_focused := b\<rparr>) (floating s)\<rparr>))"
  by (auto simp: keeps_def calm_def session_mut_run step_run map_values_update_same split: option.split)

lemma calm_set_leaf_focus [frame]: "keeps calm (set_leaf_focus leaf b)"
  by (auto simp: keeps_def calm_def set_leaf_focus_def state_node_def put_node_run bind_run step_run
      resume_ok_or map_values_insert_same [where f = "\<lambda>_. w" for w] split: option.split node.split)

lemma calm_clear [frame]: "keeps calm (clear_session_focus sid)"
  unfolding clear_session_focus_def by (intro frame)

lemma bt_map_values_eqD:
  "bt_map_values f m = bt_map_values f m' \<Longrightarrow> map_option f (bt_get m k) = map_option f (bt_get m' k)"
  by (metis bt_get_map_values)

lemma calm_node_simps [simp]:
  "cell_of (calm_node x) = cell_of x" "active_ok (calm_node x) = active_ok x"
  "memo (calm_node x) = memo x" "calm_node x = Tabs tb \<longleftrightarrow> x = Tabs tb"
  by (cases x; simp add: cell_of_def)+

lemma calm_eqD:
  assumes "calm t = calm s"
  shows "map_option calm_node (bt_get (nodes t) n) = map_option calm_node (bt_get (nodes s) n)"
    and "map_option fw_last_focused_leaf (bt_get (floating t) fid) =
      map_option fw_last_focused_leaf (bt_get (floating s) fid)"
  using assms by (auto simp: calm_def intro: bt_map_values_eqD)

lemma calm_node_at:
  assumes "calm t = calm s" and "bt_get (nodes t) n = Some nd"
  shows "\<exists>nd'. bt_get (nodes s) n = Some nd' \<and> calm_node nd' = calm_node nd"
  using calm_eqD(1) [OF assms(1), of n] assms(2) by (cases "bt_get (nodes s) n") auto

lemma calm_layout: "calm t = calm s \<Longrightarrow> layout t = layout s"
proof
  fix n
  assume c: "calm t = calm s"
  have "layout u n = map_option cell_of (map_option calm_node (bt_get (nodes u) n))" for u
    by (simp add: layout_def option.map_comp comp_def)
  then show "layout t n = layout s n" using calm_eqD(1) [OF c, of n] by simp
qed

lemma calm_tabs:
  assumes "calm t = calm s"
  shows "bt_get (nodes t) n = Some (Tabs tb) \<longleftrightarrow> bt_get (nodes s) n = Some (Tabs tb)"
proof -
  have "bt_get (nodes b) n = Some (Tabs tb)" if "calm a = calm b" "bt_get (nodes a) n = Some (Tabs tb)" for a b
    using calm_node_at [OF that] by auto
  then show ?thesis using assms by metis
qed

lemma calm_showing:
  assumes "calm t = calm s"
  shows "showing t = showing s"
  unfolding showing_def calm_layout [OF assms] calm_tabs [OF assms] ..

lemma calm_is_view: "calm t = calm s \<Longrightarrow> is_view t n = is_view s n"
  using is_view_cong calm_layout by blast

lemma calm_tabs_ok: "calm t = calm s \<Longrightarrow> tabs_ok s \<Longrightarrow> tabs_ok t"
  unfolding tabs_ok_def by (metis calm_node_at calm_node_simps(2))

lemma calm_lfd_ok:
  assumes c: "calm t = calm s" and l: "lfd_ok s"
  shows "lfd_ok t"
proof -
  have "is_view s l" if "bt_get (nodes t) n = Some nd" "memo nd = Some l" "l \<in> dom (layout s)" for n nd l
    using calm_node_at [OF c that(1)] that(2,3) lfd_okD(1) [OF l] by (metis calm_node_simps(3))
  moreover have "is_view s l" if "bt_get (floating t) fid = Some f" "fw_last_focused_leaf f = Some l"
    "l \<in> dom (layout s)" for fid f l
    using calm_eqD(2) [OF c, of fid] that lfd_okD(2) [OF l] by (cases "bt_get (floating s) fid") auto
  ultimately show ?thesis
    unfolding lfd_ok_def calm_layout [OF c] using calm_is_view [OF c] by blast
qed

text \<open>Clearing succeeds; afterwards the session has no focus and shows what it showed.\<close>

lemma clear_session_focus_cleared:
  assumes "clear_session_focus sid s = (Ok (), t)"
  shows "\<exists>se. bt_get (sessions t) sid = Some se \<and> se_focused_leaf se = None \<and> se_focused_floating se = None"
proof -
  have "wp (clear_session_focus sid) (\<lambda>_ t. \<exists>se. bt_get (sessions t) sid = Some se \<and>
      se_focused_leaf se = None \<and> se_focused_floating se = None) (\<lambda>_ _. True) s
    \<or> fst (clear_session_focus sid s) = Panic \<or> fst (clear_session_focus sid s) = Diverge"
    using assms by (auto simp: wp_def clear_session_focus_def pbind_def session_mut_run
        split: prod.splits outcome.splits option.splits)
  then show ?thesis using assms by (simp add: wp_def)
qed

lemma clear_session_focus_inv:
  assumes "inv s" and "has_session sid s"
  shows "\<exists>t. clear_session_focus sid s = (Ok (), t) \<and> quiet t = quiet s \<and> inv t \<and> showing t = showing s \<and>
    (\<exists>se. bt_get (sessions t) sid = Some se \<and> se_focused_leaf se = None \<and> se_focused_floating se = None)"
proof -
  obtain t where t: "clear_session_focus sid s = (Ok (), t)"
    using clear_session_focus_Ok [OF assms(2)] by blast
  have q: "quiet t = quiet s" by (rule keepsD [OF quiet_clear_session_focus t])
  have c: "calm t = calm s" by (rule keepsD [OF calm_clear t])
  note cleared = clear_session_focus_cleared [OF t]
  have "ff_ok t"
    unfolding ff_ok_def
  proof (intro allI impI)
    fix sid' se fid f
    assume h: "bt_get (sessions t) sid' = Some se" "se_focused_floating se = Some fid"
      "bt_get (floating t) fid = Some f"
    then have n: "sid' \<noteq> sid" using cleared by auto
    then have "bt_get (sessions s) sid' = Some se"
      using keepsD [OF other_session_clear(1) [OF n] t] h(1) by simp
    moreover obtain f' where "bt_get (floating s) fid = Some f'" "fw_session_id f = fw_session_id f'"
      using quiet_floating_D [OF q h(3)] by blast
    ultimately show "fw_session_id f = sid'" using assms(1) h(2) unfolding inv_def ff_ok_def by auto
  qed
  then have "inv t"
    using assms(1) quiet_structure [OF q] calm_tabs_ok [OF c] calm_lfd_ok [OF c] by (simp add: inv_def)
  then show ?thesis using t q calm_showing [OF c] cleared by blast
qed

section \<open>Panes that can be focused\<close>

definition healed :: "session_id \<Rightarrow> server_state \<Rightarrow> bool" where
  "healed sid t \<longleftrightarrow>
     (\<exists>se. bt_get (sessions t) sid = Some se \<and>
        (case se_focused_leaf se of
           Some l \<Rightarrow> is_view t l \<and> visible_in t sid l
         | None \<Rightarrow> \<forall>l. is_view t l \<longrightarrow> \<not> visible_in t sid l))"

lemma pane_root_quiet:
  assumes "quiet t = quiet s"
  shows "pane_root t sid r \<longleftrightarrow> pane_root s sid r"
proof -
  have "pane_root b sid r" if q: "quiet a = quiet b" and p: "pane_root a sid r" for a b
  proof -
    consider (session) se where "bt_get (sessions a) sid = Some se" "se_root_node se = r"
      | (float) fid f where "bt_get (floating a) fid = Some f" "fw_root_node f = r" "fw_visible f"
      using p unfolding pane_root_def by blast
    then show ?thesis
    proof cases
      case session
      then show ?thesis using quiet_session_D [OF q session(1)] unfolding pane_root_def by metis
    next
      case float
      then show ?thesis using quiet_floating_D [OF q float(1)] unfolding pane_root_def by metis
    qed
  qed
  then show ?thesis using assms by metis
qed

lemma has_session_quiet: "quiet t = quiet s \<Longrightarrow> has_session sid t = has_session sid s"
  unfolding has_session_def by (metis quiet_session_D)

lemma shown_focusable:
  assumes "structure_ok s" and "has_session sid s" and "pane_root s sid r"
    and "layout s r = Some c" and "ce_session c = sid" and "is_view s l" and "(l, r) \<in> (up (layout s))\<^sup>*"
  shows "focusable s sid r l"
proof -
  have f: "forest (layout s)" using assms(1) by (simp add: structure_ok_def)
  obtain d where d: "layout s l = Some d" using assms(6) by (auto simp: is_view_layout)
  have "ce_session d = sid" using up_star_session [OF f assms(7) d] assms(4,5) by auto
  then show ?thesis
    using assms(2,3,6,7) d pane_root_parentless [OF assms(1,3)] by (simp add: focusable_def)
qed

lemma focus_leaf_healed:
  assumes "inv s" and "focusable s sid r leaf"
  shows "\<exists>t. focus_leaf sid leaf s = (Ok (), t) \<and> quiet t = quiet s \<and> inv t \<and> healed sid t \<and>
    (\<exists>se. bt_get (sessions t) sid = Some se \<and> se_focused_leaf se = Some leaf) \<and>
    (leaf, r) \<in> (showing t)\<^sup>*"
proof -
  obtain t where t: "focus_leaf sid leaf s = (Ok (), t)" "quiet t = quiet s" "inv t"
    "\<exists>se. bt_get (sessions t) sid = Some se \<and> se_focused_leaf se = Some leaf" "(leaf, r) \<in> (showing t)\<^sup>*"
    using focus_leaf_Ok [OF assms] by blast
  have L: "layout t = layout s" by (rule quiet_eqD(1) [OF t(2)])
  have "is_view t leaf" using assms(2) is_view_cong [OF L] by (simp add: focusable_def)
  moreover have "visible_in t sid leaf"
    using assms(2) t(5) pane_root_quiet [OF t(2)] unfolding visible_in_def L focusable_def by blast
  ultimately have "healed sid t" using t(4) by (auto simp: healed_def)
  then show ?thesis using t by blast
qed

lemma session_root_layout:
  assumes "structure_ok s" and "bt_get (sessions s) sid = Some se"
  obtains c where "layout s (se_root_node se) = Some c" "ce_session c = sid" "pane_root s sid (se_root_node se)"
  using assms sessions_okD(3) [of s sid se] unfolding structure_ok_def pane_root_def by blast

lemma floating_root_layout:
  assumes "structure_ok s" and "bt_get (floating s) fid = Some f" and "fw_session_id f = sid"
  obtains c where "layout s (fw_root_node f) = Some c" "ce_session c = sid"
  using assms floating_okD(2) [of s fid f] unfolding structure_ok_def by blast

lemma resolve_floating_focus_Ok:
  assumes "inv s" and "bt_get (floating s) fid = Some f"
  shows "\<exists>r. resolve_floating_focus s fid = Ok r \<and>
    (case r of
       Some l \<Rightarrow> fw_visible f \<and> shown_leaf s (fw_root_node f) l
     | None \<Rightarrow> fw_visible f \<longrightarrow> (\<forall>l. \<not> shown_leaf s (fw_root_node f) l))"
proof (cases "fw_visible f")
  case True
  have ok: "forest (layout s)" "tabs_ok s" "lfd_ok s" "structure_ok s"
    using assms(1) by (auto simp: inv_def structure_ok_def)
  obtain c where c: "layout s (fw_root_node f) = Some c" "ce_parent c = None"
    using floating_okD(2) [OF _ assms(2)] ok(4) by (auto simp: structure_ok_def)
  then have dom: "fw_root_node f \<in> dom (layout s)" by blast
  obtain r where r: "resolve_focus_candidate s (fw_root_node f) = Ok r" "leaf_result s (fw_root_node f) r"
    using resolve_focus_candidate_Ok [OF ok(1-3) dom] by blast
  let ?last = "case fw_last_focused_leaf f of
                None \<Rightarrow> Ok None
              | Some leaf \<Rightarrow>
                  if bt_contains (nodes s) leaf
                  then rbind (top_root_for_node s leaf) (\<lambda>root.
                       if root = fw_root_node f
                       then rbind (is_node_visible_from s (fw_root_node f) leaf) (\<lambda>v.
                            Ok (if v then Some leaf else None))
                       else Ok None)
                  else Ok None"
  have "\<exists>x. ?last = Ok x \<and> (\<forall>l. x = Some l \<longrightarrow> shown_leaf s (fw_root_node f) l)"
  proof (cases "fw_last_focused_leaf f")
    case (Some l)
    show ?thesis
    proof (cases "bt_contains (nodes s) l")
      case True
      then have l: "l \<in> dom (layout s)" by (auto simp: dom_layout)
      then have v: "is_view s l" using lfd_okD(2) [OF ok(3) assms(2) Some] by blast
      obtain q where "top_root_for_node s l = Ok q" using top_root_Ok [OF ok(1) l] by blast
      then show ?thesis
        using Some True v is_node_visible_from_Ok [OF ok(1) dom, of l] by (simp add: shown_leaf_def)
    qed (simp add: Some)
  qed simp
  then obtain x where x: "?last = Ok x" "\<forall>l. x = Some l \<longrightarrow> shown_leaf s (fw_root_node f) l" by blast
  have "resolve_floating_focus s fid = Ok (case x of Some l \<Rightarrow> Some l | None \<Rightarrow> r)"
    unfolding resolve_floating_focus_def state_floating_def
    using assms(2) True x(1) r(1) by (cases x) simp_all
  then show ?thesis
    using x(2) r(2) True by (cases x; cases r) (simp_all add: leaf_result_def)
qed (use assms(2) in \<open>simp add: resolve_floating_focus_def state_floating_def\<close>)

section \<open>The active tabs\<close>

text \<open>A node between a pane and a root is shown at the root when the pane is.\<close>

lemma showing_path:
  assumes "forest (layout s)" and "(l, r) \<in> (showing s)\<^sup>*"
    and "(l, n) \<in> (up (layout s))\<^sup>*" and "(n, r) \<in> (up (layout s))\<^sup>*"
  shows "(n, r) \<in> (showing s)\<^sup>*"
  using assms(2,3)
proof (induction rule: converse_rtrancl_induct)
  case base
  have "n = r"
  proof (rule ccontr)
    assume "n \<noteq> r"
    with base obtain y where "(r, y) \<in> up (layout s)" "(y, n) \<in> (up (layout s))\<^sup>*"
      by (metis converse_rtranclE)
    then show False using no_up_cycle [OF assms(1)] assms(4) by (meson rtrancl_trans)
  qed
  then show ?case by simp
next
  case (step y z)
  show ?case
  proof (cases "y = n")
    case True
    then show ?thesis using step.hyps by (meson converse_rtrancl_into_rtrancl)
  next
    case False
    then obtain z' where z': "(y, z') \<in> up (layout s)" "(z', n) \<in> (up (layout s))\<^sup>*"
      using step.prems by (meson converse_rtranclE)
    then have "z' = z" using step.hyps(1) showing_up up_single_valued by (meson single_valuedD subsetD)
    then show ?thesis using step.IH z'(2) by blast
  qed
qed

text \<open>Node \<open>n\<close> of the layout \<open>L\<close> is a tabs node with the tabs \<open>ts\<close>, of which number \<open>i\<close> is active.\<close>

definition tab_at :: "layout \<Rightarrow> node_id \<Rightarrow> tab_entry list \<Rightarrow> nat \<Rightarrow> server_state \<Rightarrow> bool" where
  "tab_at L n ts i s \<longleftrightarrow>
     layout s = L \<and> (\<exists>tb. bt_get (nodes s) n = Some (Tabs tb) \<and> tb_tabs tb = ts \<and> tb_active tb = i)"

lemma tab_at_keeps: "keeps nodes m \<Longrightarrow> preserves (tab_at L n ts i) m"
proof -
  assume k: "keeps nodes m"
  have "layout (snd (m s)) = layout s" for s
    by (rule ext) (use k in \<open>simp add: keeps_def layout_def\<close>)
  with k show ?thesis by (simp add: keeps_def preserves_def tab_at_def)
qed

lemma tab_at_set_leaf_focus: "preserves (tab_at L n ts i) (set_leaf_focus l b)"
proof -
  have "tab_at L n ts i (snd (set_leaf_focus l b s))" if h: "tab_at L n ts i s" for s
  proof (cases "\<exists>v. bt_get (nodes s) l = Some (BufferView v)")
    case True
    then obtain v where v: "bt_get (nodes s) l = Some (BufferView v)" by blast
    let ?v = "BufferView (v\<lparr>bv_view := (bv_view v)\<lparr>vs_focused := b\<rparr>\<rparr>)"
    have "layout (s\<lparr>nodes := bt_insert l ?v (nodes s)\<rparr>) = layout s"
      by (rule layout_insert_same [OF v]) (simp add: cell_of_def)
    moreover have "l \<noteq> n" using h v by (auto simp: tab_at_def)
    ultimately show ?thesis
      using h v by (simp add: tab_at_def set_leaf_focus_def state_node_def put_node_run bind_run step_run resume_run)
  next
    case False
    then have "snd (set_leaf_focus l b s) = s"
      by (auto simp: set_leaf_focus_def state_node_def bind_run step_run resume_ok_or split: option.split node.split)
    then show ?thesis using h by simp
  qed
  then show ?thesis by (simp add: preserves_def)
qed

text \<open>
  The walk from a pane to its root makes every tabs node on the way show the child it comes from. When the
  pane was shown already, no tabs node changes its active tab.
\<close>

lemma tab_at_ancestors:
  assumes "\<And>c. (child, c) \<in> (up L)\<^sup>* \<Longrightarrow> (c, n) \<in> up L \<Longrightarrow> position (\<lambda>t. te_child t = c) ts = Some i"
  shows "preserves (tab_at L n ts i) (focus_ancestors_from k leaf child)"
  using assms
proof (induction k arbitrary: child)
  case (Suc k)
  have "tab_at L n ts i (snd (focus_ancestors_from (Suc k) leaf child s))" if h: "tab_at L n ts i s" for s
  proof (cases "\<exists>c p pd. L child = Some c \<and> ce_parent c = Some p \<and> bt_get (nodes s) p = Some pd")
    case True
    then obtain c p pd where c: "L child = Some c" "ce_parent c = Some p" and pd: "bt_get (nodes s) p = Some pd" by blast
    let ?s = "s\<lparr>nodes := bt_insert p (focus_through leaf child pd) (nodes s)\<rparr>"
    have up: "(child, p) \<in> up L" using c by (auto simp: up_def)
    have "layout ?s = L" using layout_insert_same [OF pd focus_through_ok(2)] h by (simp add: tab_at_def)
    moreover have "\<exists>tb. bt_get (nodes ?s) n = Some (Tabs tb) \<and> tb_tabs tb = ts \<and> tb_active tb = i"
    proof (cases "p = n")
      case True
      then have "position (\<lambda>t. te_child t = child) ts = Some i" using Suc.prems [of child] up by simp
      then show ?thesis using True pd h by (auto simp: tab_at_def)
    qed (use h in \<open>auto simp: tab_at_def\<close>)
    ultimately have "tab_at L n ts i ?s" by (simp add: tab_at_def)
    moreover have "preserves (tab_at L n ts i) (focus_ancestors_from k leaf p)"
      by (rule Suc.IH) (use Suc.prems up in \<open>blast intro: converse_rtrancl_into_rtrancl\<close>)
    ultimately have "tab_at L n ts i (snd (focus_ancestors_from k leaf p ?s))" by (simp add: preserves_def)
    then show ?thesis
      using h c pd by (simp add: tab_at_def bind_run step_run resume_run node_parent_layout node_mut_run)
  next
    case False
    then have "snd (focus_ancestors_from (Suc k) leaf child s) = s"
      using h by (auto simp: tab_at_def bind_run step_run resume_run node_parent_layout node_mut_run
          split: option.split)
    then show ?thesis using h by simp
  qed
  then show ?case by (simp add: preserves_def)
qed (simp add: frame)

lemma tab_at_focus_leaf:
  assumes "\<And>c. (leaf, c) \<in> (up L)\<^sup>* \<Longrightarrow> (c, n) \<in> up L \<Longrightarrow> position (\<lambda>t. te_child t = c) ts = Some i"
  shows "preserves (tab_at L n ts i) (focus_leaf sid leaf)"
  unfolding focus_leaf_def clear_session_focus_def remember_focus_def mark_floating_focus_def
  by (intro frame tab_at_set_leaf_focus tab_at_ancestors assms; (assumption | rule tab_at_keeps; intro frame keeps_modify; simp)?)

definition tabs_kept :: "server_state \<Rightarrow> server_state \<Rightarrow> bool" where
  "tabs_kept s t \<longleftrightarrow>
     (\<forall>n tb. bt_get (nodes s) n = Some (Tabs tb) \<longrightarrow>
        (\<exists>tb'. bt_get (nodes t) n = Some (Tabs tb') \<and> tb_tabs tb' = tb_tabs tb \<and> tb_active tb' = tb_active tb))"

lemma position_distinct:
  "distinct (map te_child ts) \<Longrightarrow> i < length ts \<Longrightarrow> te_child (ts ! i) = c \<Longrightarrow> position (\<lambda>t. te_child t = c) ts = Some i"
  by (induction ts arbitrary: i) (auto simp: nth_Cons split: nat.splits)

lemma focus_shown_tabs_kept:
  assumes f: "forest (layout s)" and foc: "focusable s sid r leaf" and vis: "(leaf, r) \<in> (showing s)\<^sup>*"
    and run: "focus_leaf sid leaf s = (x, t)"
  shows "tabs_kept s t"
  unfolding tabs_kept_def
proof (intro allI impI)
  fix n tb
  assume tb: "bt_get (nodes s) n = Some (Tabs tb)"
  have "position (\<lambda>t. te_child t = c) (tb_tabs tb) = Some (tb_active tb)"
    if c: "(leaf, c) \<in> (up (layout s))\<^sup>*" "(c, n) \<in> up (layout s)" for c
  proof -
    have r: "(leaf, r) \<in> (up (layout s))\<^sup>*" "parentless (layout s) r" using foc by (auto simp: focusable_def)
    have cr: "c \<noteq> r" using c(2) r(2) parentless_no_up by blast
    have "(c, r) \<in> (up (layout s))\<^sup>*"
      using single_valued_confluent [OF up_single_valued c(1) r(1)] parentless_no_up [OF r(2)] cr
      by (auto elim: converse_rtranclE)
    then have "(c, r) \<in> (showing s)\<^sup>*" using showing_path [OF f vis c(1)] by blast
    then have "(c, n) \<in> showing s" using showing_star_step [OF c(2) cr] by blast
    then have "active_child tb = Some c" using tb by (auto simp: showing_def)
    then have "tb_active tb < length (tb_tabs tb)" "te_child (tb_tabs tb ! tb_active tb) = c"
      by (auto simp: active_child_def vec_get_def split: if_splits)
    moreover have "distinct (map te_child (tb_tabs tb))" using forest_distinct [OF f, of n] tb by (simp add: layout_def)
    ultimately show ?thesis using position_distinct by blast
  qed
  then have "preserves (tab_at (layout s) n (tb_tabs tb) (tb_active tb)) (focus_leaf sid leaf)" by (rule tab_at_focus_leaf)
  moreover have "tab_at (layout s) n (tb_tabs tb) (tb_active tb) s" using tb by (simp add: tab_at_def)
  ultimately have "tab_at (layout s) n (tb_tabs tb) (tb_active tb) t" using run unfolding preserves_def by (metis snd_conv)
  then show "\<exists>tb'. bt_get (nodes t) n = Some (Tabs tb') \<and> tb_tabs tb' = tb_tabs tb \<and> tb_active tb' = tb_active tb"
    by (auto simp: tab_at_def)
qed

section \<open>Healing\<close>

text \<open>The outcome of the focus methods that cannot fail. They focus what is shown: no tab is switched.\<close>

definition heals :: "session_id \<Rightarrow> unit op \<Rightarrow> server_state \<Rightarrow> bool" where
  "heals sid m s \<longleftrightarrow> (\<exists>t. m s = (Ok (), t) \<and> quiet t = quiet s \<and> inv t \<and> healed sid t \<and> tabs_kept s t)"

lemma heals_focus_leaf:
  assumes "inv s" and "focusable s sid r leaf" and "(leaf, r) \<in> (showing s)\<^sup>*"
  shows "heals sid (focus_leaf sid leaf) s"
proof -
  have f: "forest (layout s)" using assms(1) by (simp add: inv_def structure_ok_def)
  show ?thesis using focus_leaf_healed [OF assms(1,2)] focus_shown_tabs_kept [OF f assms(2,3)] unfolding heals_def by blast
qed

lemma heals_clear:
  assumes "inv s" and "has_session sid s" and "\<And>l. is_view s l \<Longrightarrow> \<not> visible_in s sid l"
  shows "heals sid (clear_session_focus sid) s"
proof -
  obtain t where t: "clear_session_focus sid s = (Ok (), t)" "quiet t = quiet s" "inv t"
    "showing t = showing s" "\<exists>se. bt_get (sessions t) sid = Some se \<and> se_focused_leaf se = None"
    using clear_session_focus_inv [OF assms(1,2)] by blast
  have L: "layout t = layout s" by (rule quiet_eqD(1) [OF t(2)])
  have "visible_in t sid l = visible_in s sid l" for l
    unfolding visible_in_def L t(4) pane_root_quiet [OF t(2)] ..
  moreover have "tabs_kept s t"
    using calm_tabs [OF keepsD [OF calm_clear t(1)]] by (auto simp: tabs_kept_def)
  ultimately show ?thesis using assms(3) t is_view_cong [OF L] by (auto simp: heals_def healed_def)
qed

lemma heals_floating:
  assumes "inv s" and "bt_get (sessions s) sid = Some se"
    and "\<And>l. \<not> shown_leaf s (se_root_node se) l"
  shows "heals sid (heal_focus_floating sid (se_floating se)) s"
proof -
  have st: "structure_ok s" and ses: "sessions_ok s" and fl: "floating_ok s" and h: "has_session sid s"
    using assms(1,2) by (auto simp: inv_def structure_ok_def has_session_def)
  let ?Q = "\<lambda>fid r. \<exists>f. bt_get (floating s) fid = Some f \<and> fw_session_id f = sid \<and>
      (case r of
         Some l \<Rightarrow> fw_visible f \<and> shown_leaf s (fw_root_node f) l
       | None \<Rightarrow> fw_visible f \<longrightarrow> (\<forall>l. \<not> shown_leaf s (fw_root_node f) l))"
  have "\<exists>r. resolve_floating_focus s fid = Ok r \<and> ?Q fid r" if fid: "fid \<in> set (se_floating se)" for fid
  proof -
    obtain f where f: "bt_get (floating s) fid = Some f" "fw_session_id f = sid"
      using sessions_okD(4) [OF ses assms(2) fid] by blast
    then show ?thesis using resolve_floating_focus_Ok [OF assms(1) f(1)] by blast
  qed
  from first_some_spec [where f = "resolve_floating_focus s" and Q = ?Q, OF this]
  obtain r where r: "first_some (resolve_floating_focus s) (se_floating se) = Ok r"
    "case r of Some y \<Rightarrow> \<exists>x \<in> set (se_floating se). ?Q x (Some y) | None \<Rightarrow> \<forall>x \<in> set (se_floating se). ?Q x None"
    by blast
  show ?thesis
  proof (cases r)
    case None
    have "\<not> visible_in s sid l" if l: "is_view s l" for l
    proof
      assume "visible_in s sid l"
      then obtain c root where v: "layout s l = Some c" "ce_session c = sid" "(l, root) \<in> (showing s)\<^sup>*"
        "pane_root s sid root" unfolding visible_in_def by blast
      then have "root \<noteq> se_root_node se" using assms(3) [of l] l by (auto simp: shown_leaf_def)
      then obtain fid f where f: "bt_get (floating s) fid = Some f" "fw_root_node f = root" "fw_visible f"
        using v(4) assms(2) by (auto simp: pane_root_def)
      have "fw_session_id f = sid"
        using floating_okD(2) [OF fl f(1)] up_star_session [OF _ showing_star_up [OF v(3)] v(1)] st v(2) f(2)
        by (auto simp: structure_ok_def)
      then have "fid \<in> set (se_floating se)" using floating_okD(3) [OF fl f(1)] assms(2) by auto
      then show False using r(2) None f v(3) l by (fastforce simp: shown_leaf_def)
    qed
    then have "heals sid (clear_session_focus sid) s" by (rule heals_clear [OF assms(1) h])
    then show ?thesis
      using r(1) None by (simp add: heals_def heal_focus_floating_def bind_run step_run resume_run)
  next
    case (Some l)
    then obtain fid f where f: "bt_get (floating s) fid = Some f" "fw_session_id f = sid" "fw_visible f"
      "shown_leaf s (fw_root_node f) l" using r(2) by auto
    obtain c where c: "layout s (fw_root_node f) = Some c" "ce_session c = sid"
      using floating_root_layout [OF st f(1,2)] by blast
    have "focusable s sid (fw_root_node f) l"
      by (rule shown_focusable [OF st h _ c])
        (use f showing_star_up in \<open>auto simp: pane_root_def shown_leaf_def\<close>)
    moreover have "(l, fw_root_node f) \<in> (showing s)\<^sup>*" using f(4) by (simp add: shown_leaf_def)
    ultimately have "heals sid (focus_leaf sid l) s" by (rule heals_focus_leaf [OF assms(1)])
    then show ?thesis
      using r(1) Some by (simp add: heals_def heal_focus_floating_def bind_run step_run resume_run)
  qed
qed

lemma heals_root:
  assumes "inv s" and "bt_get (sessions s) sid = Some se"
  shows "heals sid (heal_focus_root sid) s"
proof -
  have st: "structure_ok s" and f: "forest (layout s)" and h: "has_session sid s"
    using assms by (auto simp: inv_def structure_ok_def has_session_def)
  obtain c where c: "layout s (se_root_node se) = Some c" "ce_session c = sid"
    "pane_root s sid (se_root_node se)"
    using session_root_layout [OF st assms(2)] by blast
  obtain r where r: "resolve_focus_candidate s (se_root_node se) = Ok r" "leaf_result s (se_root_node se) r"
    using resolve_focus_candidate_Ok [OF f] assms(1) c(1) by (auto simp: inv_def)
  show ?thesis
  proof (cases r)
    case None
    then have "heals sid (heal_focus_floating sid (se_floating se)) s"
      using heals_floating [OF assms] r(2) by (simp add: leaf_result_def)
    then show ?thesis
      using r(1) None assms(2)
      by (simp add: heals_def heal_focus_root_def bind_run step_run resume_run root_node_def state_session_def)
  next
    case (Some l)
    have "focusable s sid (se_root_node se) l"
      by (rule shown_focusable [OF st h c(3,1,2)])
        (use r(2) Some showing_star_up in \<open>auto simp: leaf_result_def shown_leaf_def\<close>)
    moreover have "(l, se_root_node se) \<in> (showing s)\<^sup>*" using r(2) Some by (simp add: leaf_result_def shown_leaf_def)
    ultimately have "heals sid (focus_leaf sid l) s" by (rule heals_focus_leaf [OF assms(1)])
    then show ?thesis
      using r(1) Some assms(2)
      by (simp add: heals_def heal_focus_root_def bind_run step_run resume_run root_node_def state_session_def)
  qed
qed

lemma heals_heal_focus:
  assumes "inv s" and "has_session sid s"
  shows "heals sid (heal_focus sid) s"
proof -
  obtain se where se: "bt_get (sessions s) sid = Some se" using assms(2) by (auto simp: has_session_def)
  have st: "structure_ok s" and ff: "ff_ok s" using assms(1) by (auto simp: inv_def)
  note root = heals_root [OF assms(1) se]
  let ?pref = "case se_focused_floating se of
      Some fid \<Rightarrow> if bt_contains (floating s) fid then Some fid else None | None \<Rightarrow> None"
  have run: "heal_focus sid s =
      (case ?pref of
         Some fid \<Rightarrow> resume (resolve_floating_focus s fid, s) (\<lambda>l.
           case l of Some leaf \<Rightarrow> focus_leaf sid leaf | None \<Rightarrow> heal_focus_root sid)
       | None \<Rightarrow> heal_focus_root sid s)"
    using se
    by (simp add: heal_focus_def bind_run step_run resume_run state_session_def cong: run_congs split: option.split)
  show ?thesis
  proof (cases ?pref)
    case None
    then show ?thesis using root run by (simp add: heals_def)
  next
    case (Some fid)
    then obtain f where f: "se_focused_floating se = Some fid" "bt_get (floating s) fid = Some f"
      by (auto split: option.splits if_splits)
    then have sf: "fw_session_id f = sid" using ff se unfolding ff_ok_def by blast
    obtain r where r: "resolve_floating_focus s fid = Ok r"
      "case r of
         Some l \<Rightarrow> fw_visible f \<and> shown_leaf s (fw_root_node f) l
       | None \<Rightarrow> fw_visible f \<longrightarrow> (\<forall>l. \<not> shown_leaf s (fw_root_node f) l)"
      using resolve_floating_focus_Ok [OF assms(1) f(2)] by blast
    show ?thesis
    proof (cases r)
      case None
      then show ?thesis using root run Some r(1) by (simp add: heals_def resume_run)
    next
      case l: (Some l)
      obtain c where c: "layout s (fw_root_node f) = Some c" "ce_session c = sid"
        using floating_root_layout [OF st f(2) sf] by blast
      have "focusable s sid (fw_root_node f) l"
        by (rule shown_focusable [OF st assms(2) _ c])
          (use r(2) l f(2) showing_star_up in \<open>auto simp: pane_root_def shown_leaf_def\<close>)
      moreover have "(l, fw_root_node f) \<in> (showing s)\<^sup>*" using r(2) l by (simp add: shown_leaf_def)
      ultimately have "heals sid (focus_leaf sid l) s" by (rule heals_focus_leaf [OF assms(1)])
      then show ?thesis
        using run Some r(1) l by (simp add: heals_def resume_run)
    qed
  qed
qed

section \<open>Selecting a tab\<close>

lemma structure_ok_insert:
  assumes "structure_ok s" and "bt_get (nodes s) n = Some nd" and "cell_of nd' = cell_of nd"
  shows "structure_ok (s\<lparr>nodes := bt_insert n nd' (nodes s)\<rparr>)"
  using assms(1) layout_insert_same [OF assms(2,3)]
  by (simp add: structure_ok_def attach_ok_layout views_ok_def sessions_ok_def floating_ok_def)

lemma inv_insert:
  assumes "inv s" and "bt_get (nodes s) n = Some nd" and "cell_of nd' = cell_of nd"
    and "active_ok nd'" and "memo nd' = memo nd \<or> memo nd' = None"
  shows "inv (s\<lparr>nodes := bt_insert n nd' (nodes s)\<rparr>)" (is "inv ?t")
proof -
  have L: "layout ?t = layout s" by (rule layout_insert_same [OF assms(2,3)])
  have "tabs_ok ?t" using assms(1,4) by (auto simp: inv_def tabs_ok_def)
  moreover have "lfd_ok ?t"
  proof -
    have "is_view s l"
      if "bt_get (nodes ?t) m = Some md" "memo md = Some l" "l \<in> dom (layout s)" for m md l
    proof (cases "m = n")
      case True
      then have "memo nd = Some l" using that assms(5) by auto
      then show ?thesis using lfd_okD(1) assms(1,2) that(3) by (auto simp: inv_def)
    next
      case False
      then show ?thesis using lfd_okD(1) assms(1) that by (auto simp: inv_def)
    qed
    moreover have "is_view s l"
      if "bt_get (floating ?t) fid = Some f" "fw_last_focused_leaf f = Some l" "l \<in> dom (layout s)" for fid f l
      using lfd_okD(2) assms(1) that by (auto simp: inv_def)
    ultimately show ?thesis unfolding lfd_ok_def L is_view_cong [OF L] by blast
  qed
  moreover have "ff_ok ?t" using assms(1) by (simp add: inv_def ff_ok_def)
  ultimately show ?thesis using structure_ok_insert [OF _ assms(2,3)] assms(1) by (simp add: inv_def)
qed

lemma visible_in_root:
  assumes "structure_ok s" and "visible_in s sid n" and "is_view s l" and "l \<in> below (layout s) n"
    and "has_session sid s"
  shows "\<exists>r. focusable s sid r l \<and> (n, r) \<in> (showing s)\<^sup>*"
proof -
  obtain c r where v: "layout s n = Some c" "ce_session c = sid" "(n, r) \<in> (showing s)\<^sup>*" "pane_root s sid r"
    using assms(2) unfolding visible_in_def by blast
  have f: "forest (layout s)" using assms(1) by (simp add: structure_ok_def)
  have nr: "(n, r) \<in> (up (layout s))\<^sup>*" by (rule showing_star_up [OF v(3)])
  obtain d where d: "layout s r = Some d" "ce_session d = sid"
    using up_star_session [OF f nr v(1)] v(2) by auto
  have "(l, r) \<in> (up (layout s))\<^sup>*" using assms(4) nr by (auto simp: below_def intro: rtrancl_trans)
  then show ?thesis using shown_focusable [OF assms(1,5) v(4) d assms(3)] v(3) by blast
qed

lemma heals_candidate:
  assumes "inv s" and "has_session sid s" and "n \<in> dom (layout s)"
    and "\<And>l. is_view s l \<Longrightarrow> l \<in> below (layout s) n \<Longrightarrow> \<exists>r. focusable s sid r l \<and> (n, r) \<in> (showing s)\<^sup>*"
  shows "heals sid (focus_candidate_or_heal sid n) s"
    and "\<exists>l. shown_leaf s n l \<Longrightarrow> \<exists>l se. shown_leaf s n l \<and>
      bt_get (sessions (snd (focus_candidate_or_heal sid n s))) sid = Some se \<and> se_focused_leaf se = Some l"
proof -
  have ok: "forest (layout s)" "tabs_ok s" "lfd_ok s" using assms(1) by (auto simp: inv_def structure_ok_def)
  obtain x where x: "resolve_focus_candidate s n = Ok x" "leaf_result s n x"
    using resolve_focus_candidate_Ok [OF ok assms(3)] by blast
  have run: "focus_candidate_or_heal sid n s =
      (case x of Some leaf \<Rightarrow> focus_leaf sid leaf s | None \<Rightarrow> heal_focus sid s)"
    using x(1) by (cases x) (simp_all add: focus_candidate_or_heal_def bind_run step_run resume_run)
  have leaf: "\<exists>r. focusable s sid r l \<and> (l, r) \<in> (showing s)\<^sup>*" if "x = Some l" for l
  proof -
    have l: "is_view s l" "(l, n) \<in> (showing s)\<^sup>*" using x(2) that by (auto simp: leaf_result_def shown_leaf_def)
    then show ?thesis using assms(4) [of l] showing_star_up by (auto simp: below_def intro: rtrancl_trans)
  qed
  show "heals sid (focus_candidate_or_heal sid n) s"
  proof (cases x)
    case None
    then show ?thesis using heals_heal_focus [OF assms(1,2)] run by (simp add: heals_def)
  next
    case (Some l)
    then show ?thesis using leaf heals_focus_leaf [OF assms(1)] run by (fastforce simp: heals_def)
  qed
  assume "\<exists>l. shown_leaf s n l"
  then obtain l where l: "x = Some l" "shown_leaf s n l"
    using x(2) by (cases x) (auto simp: leaf_result_def)
  then show "\<exists>l se. shown_leaf s n l \<and>
      bt_get (sessions (snd (focus_candidate_or_heal sid n s))) sid = Some se \<and> se_focused_leaf se = Some l"
    using leaf focus_leaf_Ok [OF assms(1)] run by fastforce
qed

text \<open>
  Selecting a tab of a tabs node never fails for an index in range: that tab is active then, and no other
  tabs node switches. When the tabs node is visible, the session ends up focusing a pane of the selected
  tab, if that shows one.
\<close>

lemma switch_tab_Ok:
  assumes "inv s" and "bt_get (nodes s) n = Some (Tabs tb)" and "i < length (tb_tabs tb)"
    and "has_session (tb_session_id tb) s"
  shows "\<exists>t tb'. switch_tab n i s = (Ok (), t) \<and> quiet t = quiet s \<and> inv t \<and>
    bt_get (nodes t) n = Some (Tabs tb') \<and> tb_tabs tb' = tb_tabs tb \<and> tb_active tb' = i \<and>
    (\<forall>m tm. m \<noteq> n \<longrightarrow> bt_get (nodes s) m = Some (Tabs tm) \<longrightarrow>
       (\<exists>tm'. bt_get (nodes t) m = Some (Tabs tm') \<and> tb_active tm' = tb_active tm)) \<and>
    (visible_in s (tb_session_id tb) n \<longrightarrow> healed (tb_session_id tb) t)"
proof -
  let ?sid = "tb_session_id tb" and ?tb = "tb\<lparr>tb_active := i\<rparr>" and ?child = "te_child (tb_tabs tb ! i)"
  let ?s = "s\<lparr>nodes := bt_insert n (Tabs ?tb) (nodes s)\<rparr>"
  have cell: "cell_of (Tabs ?tb) = cell_of (Tabs tb)" by (simp add: cell_of_def)
  have i: "inv ?s" by (rule inv_insert [OF assms(1,2) cell]) (use assms(3) in auto)
  have L: "layout ?s = layout s" by (rule layout_insert_same [OF assms(2) cell])
  have q: "quiet ?s = quiet s" by (rule quiet_put_node [OF assms(2)]) simp
  have h: "has_session ?sid ?s" using assms(4) by (simp add: has_session_def)
  obtain se where se: "bt_get (sessions ?s) ?sid = Some se" using h by (auto simp: has_session_def)
  have Ln: "layout ?s n = Some (cell_of (Tabs tb))" using assms(2) by (simp add: L layout_def)
  have st: "structure_ok ?s" and f: "forest (layout ?s)" using i by (auto simp: inv_def structure_ok_def)
  have vis: "is_node_visible_in_session ?s ?sid n = Ok (visible_in ?s ?sid n)"
    using is_node_visible_in_session_Ok [OF st se Ln] by simp
  have same: "visible_in s ?sid n \<Longrightarrow> visible_in ?s ?sid n"
  proof -
    assume v: "visible_in s ?sid n"
    then obtain r where r: "(n, r) \<in> (showing s)\<^sup>*" "pane_root s ?sid r" by (auto simp: visible_in_def)
    have "(m, r) \<in> (showing ?s)\<^sup>*" if "(m, r) \<in> (showing s)\<^sup>*" "(n, m) \<in> (showing s)\<^sup>*" for m
      using that
    proof (induction rule: converse_rtrancl_induct)
      case (step y z)
      have fs: "forest (layout s)" using f L by simp
      have "z \<noteq> n"
        using no_up_cycle [OF fs, of y n] step.hyps(1) step.prems showing_star_up showing_up by blast
      then have "(y, z) \<in> showing ?s" using step.hyps(1) by (auto simp: showing_def L)
      then show ?case using step by (meson converse_rtrancl_into_rtrancl rtrancl_into_rtrancl)
    qed simp
    then show ?thesis using v r pane_root_quiet [OF q] by (auto simp: visible_in_def L)
  qed
  have run: "switch_tab n i s = (if visible_in ?s ?sid n then focus_candidate_or_heal ?sid ?child ?s else (Ok (), ?s))"
    using assms(2,3) vis
    by (simp add: switch_tab_def bind_run step_run resume_run node_session_id_def state_node_def put_node_run
        cong: run_congs)
  show ?thesis
  proof (cases "visible_in ?s ?sid n")
    case True
    have kid: "?child \<in> set (ce_kids (cell_of (Tabs tb)))" using assms(3) by simp
    have kup: "(?child, n) \<in> up (layout ?s)" by (rule forest_kid_up [OF f Ln kid])
    then have dom: "?child \<in> dom (layout ?s)" using up_dom [OF f] by blast
    have "heals ?sid (focus_candidate_or_heal ?sid ?child) ?s"
    proof (rule heals_candidate(1) [OF i h dom])
      fix l
      assume l: "is_view ?s l" "l \<in> below (layout ?s) ?child"
      have "(?child, n) \<in> showing ?s" using kup assms(3) by (simp add: showing_def active_child_def vec_get_def)
      moreover obtain r where "focusable ?s ?sid r l" "(n, r) \<in> (showing ?s)\<^sup>*"
        using visible_in_root [OF st True l(1) _ h] l(2) kup by (auto simp: below_def intro: rtrancl_into_rtrancl)
      ultimately show "\<exists>r. focusable ?s ?sid r l \<and> (?child, r) \<in> (showing ?s)\<^sup>*"
        by (meson converse_rtrancl_into_rtrancl)
    qed
    then obtain t where t: "focus_candidate_or_heal ?sid ?child ?s = (Ok (), t)" "quiet t = quiet s" "inv t" "healed ?sid t"
      and k: "tabs_kept ?s t" using q by (auto simp: heals_def)
    have "bt_get (nodes ?s) n = Some (Tabs ?tb)" by simp
    then obtain tb' where "bt_get (nodes t) n = Some (Tabs tb')" "tb_tabs tb' = tb_tabs tb" "tb_active tb' = i"
      using k unfolding tabs_kept_def by force
    moreover have "\<exists>tm'. bt_get (nodes t) m = Some (Tabs tm') \<and> tb_active tm' = tb_active tm"
      if "m \<noteq> n" "bt_get (nodes s) m = Some (Tabs tm)" for m tm
      using k that unfolding tabs_kept_def by force
    ultimately show ?thesis using run True t by auto
  next
    case False
    then show ?thesis using run q i same by auto
  qed
qed

section \<open>Zooming\<close>

lemma inv_session_insert:
  assumes "inv s" and "bt_get (sessions s) sid = Some se"
    and "se_id se' = se_id se" "se_root_node se' = se_root_node se" "se_floating se' = se_floating se"
    and "se_focused_floating se' = se_focused_floating se \<or> se_focused_floating se' = None"
  shows "inv (s\<lparr>sessions := bt_insert sid se' (sessions s)\<rparr>)" (is "inv ?t")
proof -
  have L: "layout ?t = layout s" by (auto simp: layout_def)
  have st: "forest (layout s)" "attach_ok s" "views_ok s" "sessions_ok s" "floating_ok s"
    using assms(1) by (auto simp: inv_def structure_ok_def)
  have bwd: "\<exists>y. bt_get (sessions s) a = Some y \<and> se_id x = se_id y \<and>
      se_root_node x = se_root_node y \<and> se_floating x = se_floating y"
    if "bt_get (sessions ?t) a = Some x" for a x
    using that assms(2-5) by (auto split: if_splits)
  have forth: "\<exists>x. bt_get (sessions ?t) a = Some x \<and> se_root_node x = se_root_node y \<and>
      se_floating x = se_floating y"
    if "bt_get (sessions s) a = Some y" for a y
    using that assms(2-5) by (cases "a = sid") auto
  have "sessions_ok ?t"
    unfolding sessions_ok_def
  proof (intro allI impI)
    fix a x
    assume "bt_get (sessions ?t) a = Some x"
    then obtain y where y: "bt_get (sessions s) a = Some y" "se_id x = se_id y"
      "se_root_node x = se_root_node y" "se_floating x = se_floating y" using bwd by blast
    then show "se_id x = a \<and> distinct (se_floating x) \<and>
        (\<exists>c. layout ?t (se_root_node x) = Some c \<and> ce_kind c = KTabs \<and> ce_parent c = None \<and> ce_session c = a) \<and>
        (\<forall>fid \<in> set (se_floating x). \<exists>f. bt_get (floating ?t) fid = Some f \<and> fw_session_id f = a)"
      using sessions_okD [OF st(4) y(1)] unfolding L by simp
  qed
  moreover have "floating_ok ?t"
  proof -
    have "\<exists>x. bt_get (sessions ?t) (fw_session_id f) = Some x \<and> fid \<in> set (se_floating x) \<and>
        se_root_node x \<noteq> fw_root_node f" if "bt_get (floating s) fid = Some f" for fid f
      using floating_okD(3) [OF st(5) that] forth by metis
    then show ?thesis
      using st(5) unfolding floating_ok_def L by (simp del: bt_simps)
  qed
  moreover have "ff_ok ?t"
    using assms(1,2,6) unfolding inv_def ff_ok_def by (auto split: if_splits)
  moreover have "attach_ok ?t" "views_ok ?t" "tabs_ok ?t"
    using st(2,3) assms(1) by (simp_all add: attach_ok_def views_ok_def inv_def tabs_ok_def L)
  moreover have "lfd_ok ?t"
    using assms(1) is_view_cong [OF L] by (simp add: inv_def lfd_ok_def L)
  ultimately show ?thesis using st(1) L by (simp add: inv_def structure_ok_def)
qed

lemma pane_root_session_insert:
  assumes "bt_get (sessions s) sid = Some se" and "se_root_node se' = se_root_node se"
  shows "pane_root (s\<lparr>sessions := bt_insert sid se' (sessions s)\<rparr>) sid' r \<longleftrightarrow> pane_root s sid' r"
  using assms by (auto simp: pane_root_def)

lemma visible_in_session_insert:
  assumes "bt_get (sessions s) sid = Some se" and "se_root_node se' = se_root_node se"
  shows "visible_in (s\<lparr>sessions := bt_insert sid se' (sessions s)\<rparr>) sid' n \<longleftrightarrow> visible_in s sid' n"
proof -
  let ?t = "s\<lparr>sessions := bt_insert sid se' (sessions s)\<rparr>"
  have L: "layout ?t = layout s" by (auto simp: layout_def)
  have "showing ?t = showing s" by (simp add: showing_def L)
  then show ?thesis unfolding visible_in_def L using pane_root_session_insert [OF assms] by simp
qed

text \<open>What the session focuses after a zoom: a pane of the zoomed node, or nothing when that shows none.\<close>

definition focus_inside :: "session_id \<Rightarrow> node_id \<Rightarrow> server_state \<Rightarrow> bool" where
  "focus_inside sid n t \<longleftrightarrow>
     (\<exists>se. bt_get (sessions t) sid = Some se \<and>
        (case se_focused_leaf se of
           Some l \<Rightarrow> is_view t l \<and> l \<in> below (layout t) n \<and> visible_in t sid l
         | None \<Rightarrow> \<forall>l. \<not> shown_leaf t n l))"

lemma refocus_zoomed_Ok:
  assumes "inv s" and "healed sid s" and "visible_in s sid n"
  shows "\<exists>t. refocus_zoomed_subtree sid n s = (Ok (), t) \<and> quiet t = quiet s \<and> inv t \<and>
    visible_in t sid n \<and> focus_inside sid n t"
proof -
  have st: "structure_ok s" and f: "forest (layout s)" and ok: "tabs_ok s" "lfd_ok s"
    using assms(1) by (auto simp: inv_def structure_ok_def)
  obtain se where se: "bt_get (sessions s) sid = Some se"
    "case se_focused_leaf se of Some l \<Rightarrow> is_view s l \<and> visible_in s sid l
     | None \<Rightarrow> \<forall>l. is_view s l \<longrightarrow> \<not> visible_in s sid l"
    using assms(2) by (auto simp: healed_def)
  have h: "has_session sid s" using se(1) by (auto simp: has_session_def)
  obtain c r where c: "layout s n = Some c" "ce_session c = sid" "(n, r) \<in> (showing s)\<^sup>*" "pane_root s sid r"
    using assms(3) unfolding visible_in_def by blast
  have dom: "n \<in> dom (layout s)" using c(1) by blast
  have ens: "ensure_node_visible_in_session s sid n = Ok ()"
    using is_node_visible_in_session_Ok [OF st se(1) c(1)] c(2) assms(3)
    by (simp add: ensure_node_visible_in_session_def)
  let ?in = "case se_focused_leaf se of Some l \<Rightarrow> l \<in> below (layout s) n | None \<Rightarrow> False"
  have inside: "(case se_focused_leaf se of
        Some focused \<Rightarrow> node_is_descendant_of s focused n | None \<Rightarrow> Ok False) = Ok ?in"
    using se(2) node_is_descendant_of_Ok [OF f]
    by (auto simp: is_view_layout split: option.splits)
  obtain x where x: "resolve_focus_candidate s n = Ok x" "leaf_result s n x"
    using resolve_focus_candidate_Ok [OF f ok dom] by blast
  have run: "refocus_zoomed_subtree sid n s =
      (if ?in then (Ok (), s)
       else case x of Some leaf \<Rightarrow> focus_leaf sid leaf s | None \<Rightarrow> clear_session_focus sid s)"
    using ens se(1) inside x(1)
    by (cases x) (simp_all add: refocus_zoomed_subtree_def bind_run step_run resume_run state_session_def
        cong: run_congs)
  show ?thesis
  proof (cases ?in)
    case True
    then have "focus_inside sid n s" using se by (auto simp: focus_inside_def split: option.splits)
    then show ?thesis using run True assms by auto
  next
    case out: False
    show ?thesis
    proof (cases x)
      case None
      obtain t where t: "clear_session_focus sid s = (Ok (), t)" "quiet t = quiet s" "inv t" "showing t = showing s"
        "\<exists>se. bt_get (sessions t) sid = Some se \<and> se_focused_leaf se = None"
        using clear_session_focus_inv [OF assms(1) h] by blast
      have L: "layout t = layout s" by (rule quiet_eqD(1) [OF t(2)])
      have "visible_in t sid n"
        using assms(3) unfolding visible_in_def L t(4) pane_root_quiet [OF t(2)] .
      moreover have "focus_inside sid n t"
        using t(4,5) x(2) None is_view_cong [OF L] by (auto simp: focus_inside_def leaf_result_def shown_leaf_def)
      ultimately show ?thesis using run out None t by auto
    next
      case (Some l)
      then have l: "is_view s l" "(l, n) \<in> (up (layout s))\<^sup>*"
        using x(2) showing_star_up by (auto simp: leaf_result_def shown_leaf_def)
      have lr: "(l, r) \<in> (up (layout s))\<^sup>*"
        using l(2) showing_star_up [OF c(3)] by (rule rtrancl_trans)
      obtain d where "layout s r = Some d" "ce_session d = sid"
        using up_star_session [OF f showing_star_up [OF c(3)] c(1)] c(2) by auto
      then have fo: "focusable s sid r l" using shown_focusable [OF st h c(4) _ _ l(1) lr] by blast
      obtain t where t: "focus_leaf sid l s = (Ok (), t)" "quiet t = quiet s" "inv t"
        "\<exists>se. bt_get (sessions t) sid = Some se \<and> se_focused_leaf se = Some l" "(l, r) \<in> (showing t)\<^sup>*"
        using focus_leaf_Ok [OF assms(1) fo] by blast
      have L: "layout t = layout s" by (rule quiet_eqD(1) [OF t(2)])
      have "(n, r) \<in> (showing t)\<^sup>*"
        using showing_path [OF _ t(5), of n] l(2) showing_star_up [OF c(3)] f by (simp add: L)
      then have "visible_in t sid n"
        using c pane_root_quiet [OF t(2)] unfolding visible_in_def L by blast
      moreover have "visible_in t sid l"
        using fo t(5) pane_root_quiet [OF t(2)] unfolding visible_in_def L focusable_def by blast
      then have "focus_inside sid n t"
        using t(4) l is_view_cong [OF L] by (auto simp: focus_inside_def L below_def)
      ultimately show ?thesis using run out Some t by auto
    qed
  qed
qed

lemma zoom_node_Ok:
  assumes "inv s" and "healed sid s" and "visible_in s sid n"
  shows "\<exists>t se. zoom_node n s = (Ok (), t) \<and> inv t \<and> visible_in t sid n \<and> focus_inside sid n t \<and>
    bt_get (sessions t) sid = Some se \<and> se_zoomed_node se = Some n"
proof -
  have st: "structure_ok s" using assms(1) by (simp add: inv_def)
  obtain se where se: "bt_get (sessions s) sid = Some se" using assms(2) by (auto simp: healed_def)
  obtain c where c: "layout s n = Some c" "ce_session c = sid" using assms(3) by (auto simp: visible_in_def)
  have ens: "ensure_node_visible_in_session s sid n = Ok ()"
    using is_node_visible_in_session_Ok [OF st se c(1)] c(2) assms(3)
    by (simp add: ensure_node_visible_in_session_def)
  obtain t where t: "refocus_zoomed_subtree sid n s = (Ok (), t)" "inv t" "visible_in t sid n" "focus_inside sid n t"
    using refocus_zoomed_Ok [OF assms] by blast
  obtain se' where se': "bt_get (sessions t) sid = Some se'" using t(4) by (auto simp: focus_inside_def)
  let ?z = "se'\<lparr>se_zoomed_node := Some n\<rparr>" and ?t = "t\<lparr>sessions := bt_insert sid (se'\<lparr>se_zoomed_node := Some n\<rparr>) (sessions t)\<rparr>"
  have "zoom_node n s = (Ok (), ?t)"
    using c ens t(1) se'
    by (simp add: zoom_node_def zoom_visible_def bind_run step_run resume_run node_session_layout session_mut_run
        cong: run_congs)
  moreover have "inv ?t" by (rule inv_session_insert [OF t(2) se']) simp_all
  moreover have vis: "visible_in ?t sid m \<longleftrightarrow> visible_in t sid m" for m
    by (rule visible_in_session_insert [OF se']) simp
  moreover have "focus_inside sid n ?t"
  proof -
    have L: "layout ?t = layout t" by (auto simp: layout_def)
    have "showing ?t = showing t" by (simp add: showing_def L)
    then have "shown_leaf ?t n l = shown_leaf t n l" for l
      by (simp add: shown_leaf_def is_view_cong [OF L])
    then show ?thesis
      using t(4) se' vis is_view_cong [OF L] by (auto simp: focus_inside_def L split: option.splits)
  qed
  ultimately show ?thesis using t(3) by auto
qed

end
