(* ===== verification/Server_Sample.thy ===== *)
theory Server_Sample
  imports Server_Heal
begin

text \<open>Facts about the sample layout of \<open>Server_Eval\<close>, for applying the theorems to it.\<close>

lemmas sample_eval = sample_state_def sample_layout_def run_simps

lemma sample_session:
  "\<exists>se. bt_get (sessions sample_state) 1 = Some se \<and> se_root_node se = 1 \<and> se_floating se = [] \<and>
        se_focused_leaf se = Some 3 \<and> se_zoomed_node se = None"
  by (simp add: sample_eval cong: run_congs)

lemma sample_has_session: "has_session 1 sample_state"
  using sample_session by (auto simp: has_session_def)

lemma sample_kids:
  "map_option child_ids (bt_get (nodes sample_state) 1) = Some [4]"
  "map_option child_ids (bt_get (nodes sample_state) 4) = Some [2, 3]"
  "map_option child_ids (bt_get (nodes sample_state) 2) = Some []"
  "map_option child_ids (bt_get (nodes sample_state) 3) = Some []"
  by (simp_all add: sample_eval cong: run_congs)

lemma sample_views: "is_view sample_state 2" "is_view sample_state 3"
  by (simp_all add: is_view_def sample_eval cong: run_congs)

lemma sample_root: "\<exists>tb. bt_get (nodes sample_state) 1 = Some (Tabs tb) \<and> tb_session_id tb = 1 \<and>
   length (tb_tabs tb) = 1 \<and> tb_active tb = 0 \<and> te_child (tb_tabs tb ! 0) = 4"
  by (simp add: sample_eval cong: run_congs)

lemma sample_up: "(2, 4) \<in> up (layout sample_state)" "(3, 4) \<in> up (layout sample_state)"
  "(4, 1) \<in> up (layout sample_state)"
  by (simp_all add: up_def layout_def sample_eval cong: run_congs)

lemma sample_sessions_of:
  "map_option node_session (bt_get (nodes sample_state) 1) = Some 1"
  "map_option node_session (bt_get (nodes sample_state) 2) = Some 1"
  "map_option node_session (bt_get (nodes sample_state) 3) = Some 1"
  "map_option node_session (bt_get (nodes sample_state) 4) = Some 1"
  by (simp_all add: sample_eval cong: run_congs)

lemma sample_structure: "structure_ok sample_state"
  using sample_inv by (simp add: inv_def)

lemma sample_pane_root: "pane_root sample_state 1 1"
  using sample_session by (auto simp: pane_root_def)

lemma sample_focusable: "focusable sample_state 1 1 2"
proof -
  obtain c where "layout sample_state 1 = Some c" "ce_session c = 1"
    using sample_sessions_of(1) by (auto simp: layout_def)
  moreover have "(2, 1) \<in> (up (layout sample_state))\<^sup>*" using sample_up by (meson r_into_rtrancl rtrancl_into_rtrancl)
  ultimately show ?thesis
    using shown_focusable [OF sample_structure sample_has_session sample_pane_root] sample_views(1) by blast
qed

lemma sample_visible: "visible_in sample_state 1 1" "visible_in sample_state 1 2"
proof -
  have f: "forest (layout sample_state)" using sample_structure by (simp add: structure_ok_def)
  have "is_node_visible_in_session sample_state 1 2 = Ok True" "is_node_visible_in_session sample_state 1 1 = Ok True"
    by (simp_all add: sample_eval cong: run_congs)
  moreover obtain se where se: "bt_get (sessions sample_state) 1 = Some se" using sample_session by blast
  moreover obtain c d where "layout sample_state 1 = Some c" "layout sample_state 2 = Some d"
    using sample_sessions_of by (auto simp: layout_def)
  ultimately show "visible_in sample_state 1 1" "visible_in sample_state 1 2"
    using is_node_visible_in_session_Ok [OF sample_structure se] by (auto split: if_splits)
qed

lemma sample_healed: "healed 1 sample_state"
  using sample_consistent sample_session unfolding healed_def consistent_def attention_ok_def by fastforce

end
