(* ===== verification/Server_Links.thy ===== *)
theory Server_Links
  imports Server_Removal
begin

text \<open>
  Edits of a layout that keep it a forest: adding an isolated node, linking a root under a node,
  unlinking a child, wrapping a node into a new container, collapsing a container into its only child,
  and removing a node without links. The methods of \<open>state.rs\<close> that change the layout compose these.
\<close>

section \<open>Ranks\<close>

lemma forest_rank:
  assumes "forest L"
  shows "(n, p) \<in> up L \<Longrightarrow> card (above L p) < card (above L n)"
  using card_above_less [OF assms] .

lemma forestI:
  assumes "finite (dom L)" and "\<And>n p. (n, p) \<in> up L \<Longrightarrow> f p < (f n :: nat)"
    and "\<And>n c. L n = Some c \<Longrightarrow> ce_id c = n \<and> distinct (ce_kids c)"
    and "\<And>n c k. L n = Some c \<Longrightarrow> k \<in> set (ce_kids c) \<Longrightarrow>
        \<exists>d. L k = Some d \<and> ce_parent d = Some n \<and> ce_session d = ce_session c"
    and "\<And>n c p. L n = Some c \<Longrightarrow> ce_parent c = Some p \<Longrightarrow> \<exists>d. L p = Some d \<and> n \<in> set (ce_kids d)"
  shows "forest L"
proof -
  have "acyclic (up L)" by (rule acyclicI_order [where f = f]) (use assms(2) in auto)
  then show ?thesis unfolding forest_def using assms(1,3,4,5) by blast
qed

lemma forest_kidD:
  "forest L \<Longrightarrow> L n = Some c \<Longrightarrow> k \<in> set (ce_kids c) \<Longrightarrow>
   \<exists>d. L k = Some d \<and> ce_parent d = Some n \<and> ce_session d = ce_session c"
  by (auto simp: forest_def)

lemma forest_parentD:
  "forest L \<Longrightarrow> L n = Some c \<Longrightarrow> ce_parent c = Some p \<Longrightarrow> \<exists>d. L p = Some d \<and> n \<in> set (ce_kids d)"
  by (auto simp: forest_def)

text \<open>A child has one parent.\<close>

lemma forest_kid_unique:
  assumes "forest L" and "L a = Some c" and "L b = Some d" and "k \<in> set (ce_kids c)" and "k \<in> set (ce_kids d)"
  shows "a = b"
  using forest_kidD [OF assms(1,2,4)] forest_kidD [OF assms(1,3,5)] by auto

section \<open>Edits\<close>

text \<open>
  An edit is given by the cells it writes; every other cell stays. The obligations of a forest are
  split by the node they are about.
\<close>

lemma forest_add:
  assumes "forest L" and "n \<notin> dom L" and "ce_id c = n" and "ce_parent c = None" and "ce_kids c = []"
    and "L' n = Some c" and "\<And>m. m \<noteq> n \<Longrightarrow> L' m = L m"
  shows "forest L'"
proof -
  have old: "L' m = Some x" if "L m = Some x" for m x
  proof -
    have "m \<noteq> n" using that assms(2) by auto
    then show ?thesis using that assms(7) by simp
  qed
  have new: "m = n \<and> x = c \<or> L m = Some x" if "L' m = Some x" for m x
    using that assms(6) assms(7) [of m] by (cases "m = n") auto
  show ?thesis
  proof (rule forestI [where f = "\<lambda>x. card (above L x)"])
    have "dom L' \<subseteq> insert n (dom L)" using new by blast
    then show "finite (dom L')" using forest_finite [OF assms(1)] finite_subset by blast
    show "card (above L p) < card (above L m)" if "(m, p) \<in> up L'" for m p
    proof -
      have "(m, p) \<in> up L" using that new assms(4) by (force simp: up_def)
      then show ?thesis by (rule card_above_less [OF assms(1)])
    qed
    show "ce_id x = m \<and> distinct (ce_kids x)" if "L' m = Some x" for m x
      using new [OF that] assms(3,5) forest_id [OF assms(1)] forest_distinct [OF assms(1)] by auto
    show "\<exists>d. L' k = Some d \<and> ce_parent d = Some m \<and> ce_session d = ce_session x"
      if "L' m = Some x" "k \<in> set (ce_kids x)" for m x k
      using new [OF that(1)] that(2) assms(5) forest_kidD [OF assms(1)] old by fastforce
    show "\<exists>d. L' p = Some d \<and> m \<in> set (ce_kids d)" if "L' m = Some x" "ce_parent x = Some p" for m x p
      using new [OF that(1)] that(2) assms(4) forest_parentD [OF assms(1)] old by fastforce
  qed
qed

text \<open>The cells of a parent and one of its children are rewritten.\<close>

lemma forest_relink:
  assumes "forest L" and "L p = Some c" and "L k = Some d" and "p \<noteq> k"
    and "ce_id c' = p" "ce_session c' = ce_session c" "ce_parent c' = ce_parent c"
    and "ce_id d' = k" "ce_session d' = ce_session c" "ce_kids d' = ce_kids d"
    and "ce_session d = ce_session c"
    and "distinct (ce_kids c')" and "set (ce_kids c') - {k} = set (ce_kids c) - {k}"
    and "ce_parent d' = (if k \<in> set (ce_kids c') then Some p else None)"
    and "ce_parent d = None \<or> ce_parent d = Some p"
    and "L' p = Some c'" and "L' k = Some d'" and "\<And>m. m \<noteq> p \<Longrightarrow> m \<noteq> k \<Longrightarrow> L' m = L m"
    and "acyclic (up L')"
  shows "forest L'"
proof -
  have other: "k \<notin> set (ce_kids x)" if "L m = Some x" "m \<noteq> p" for m x
    using forest_kidD [OF assms(1) that(1)] assms(3,15) that(2) by fastforce
  have same: "j \<in> set (ce_kids c') \<longleftrightarrow> j \<in> set (ce_kids c)" if "j \<noteq> k" for j
    using assms(13) that by blast
  have view: "\<exists>x'. L' m = Some x' \<and> (j \<noteq> k \<longrightarrow> (j \<in> set (ce_kids x') \<longleftrightarrow> j \<in> set (ce_kids x))) \<and>
      ce_session x' = ce_session x \<and> (m \<noteq> k \<longrightarrow> ce_parent x' = ce_parent x)"
    if "L m = Some x" for m x j
  proof -
    consider "m = p" | "m = k" | "m \<noteq> p" "m \<noteq> k" by blast
    then show ?thesis
    proof cases
      case 1
      then show ?thesis using that assms(2,6,7,13,16) assms(4) by auto
    next
      case 2
      then show ?thesis using that assms(3,9,10,11,17) by auto
    next
      case 3
      then show ?thesis using that assms(18) by auto
    qed
  qed
  have cases: "m = p \<and> x = c' \<or> m = k \<and> x = d' \<or> m \<noteq> p \<and> m \<noteq> k \<and> L m = Some x" if "L' m = Some x" for m x
    using that assms(16,17,18) by (cases "m = p"; cases "m = k") auto
  have kids: "\<exists>y. L' j = Some y \<and> ce_parent y = Some m \<and> ce_session y = ce_session x"
    if x: "L' m = Some x" "j \<in> set (ce_kids x)" for m x j
  proof (cases "j = k")
    case True
    have "m = p"
      using cases [OF x(1)] x(2) True other assms(3,10) assms(4) by metis
    then show ?thesis using x True assms(9,14,16,17) assms(6) by auto
  next
    case False
    obtain e where e: "L m = Some e" "j \<in> set (ce_kids e)" "ce_session e = ce_session x"
      using cases [OF x(1)] x(2) same [OF False] assms(2,3,6,9,10,11) by auto
    obtain y where y: "L j = Some y" "ce_parent y = Some m" "ce_session y = ce_session e"
      using forest_kidD [OF assms(1) e(1,2)] by blast
    then show ?thesis using view [OF y(1)] False e(3) by auto
  qed
  have parents: "\<exists>y. L' q = Some y \<and> m \<in> set (ce_kids y)"
    if x: "L' m = Some x" "ce_parent x = Some q" for m x q
  proof (cases "m = k")
    case True
    then show ?thesis using x assms(14,16,17) by (auto split: if_splits)
  next
    case False
    obtain e where e: "L m = Some e" "ce_parent e = Some q"
      using cases [OF x(1)] x(2) False assms(2,7) by auto
    obtain y where "L q = Some y" "m \<in> set (ce_kids y)" using forest_parentD [OF assms(1) e] by blast
    then show ?thesis using view [of q y m] False by auto
  qed
  have "ce_id x = m \<and> distinct (ce_kids x)" if "L' m = Some x" for m x
    using cases [OF that] assms(3,5,8,10,12) forest_id [OF assms(1)] forest_distinct [OF assms(1)] by auto
  moreover have "dom L' \<subseteq> insert p (insert k (dom L))" using cases by blast
  then have "finite (dom L')" using forest_finite [OF assms(1)] finite_subset by blast
  ultimately show ?thesis unfolding forest_def using assms(19) kids parents by blast
qed

lemma forest_link:
  assumes "forest L" and "L p = Some c" and "L k = Some d" and "ce_parent d = None"
    and "ce_session d = ce_session c" and "p \<notin> below L k"
    and "ce_id c' = p" "ce_session c' = ce_session c" "ce_parent c' = ce_parent c"
    and "distinct (ce_kids c')" and "set (ce_kids c') = insert k (set (ce_kids c))"
    and "L' p = Some c'" and "L' k = Some (d\<lparr>ce_parent := Some p\<rparr>)"
    and "\<And>m. m \<noteq> p \<Longrightarrow> m \<noteq> k \<Longrightarrow> L' m = L m"
  shows "forest L'"
proof -
  have pk: "p \<noteq> k" using assms(6) by auto
  have "up L' \<subseteq> insert (k, p) (up L)"
  proof
    fix e
    assume "e \<in> up L'"
    then obtain m q x where e: "e = (m, q)" "L' m = Some x" "ce_parent x = Some q" by (auto simp: up_def)
    consider "m = p" | "m = k" | "m \<noteq> p" "m \<noteq> k" by blast
    then show "e \<in> insert (k, p) (up L)"
    proof cases
      case 1
      then show ?thesis using e assms(2,9,12) by (auto simp: up_def)
    next
      case 2
      then show ?thesis using e assms(13) by auto
    next
      case 3
      then show ?thesis using e assms(14) by (auto simp: up_def)
    qed
  qed
  moreover have "acyclic (insert (k, p) (up L))"
    using forest_acyclic [OF assms(1)] assms(6) by (simp add: acyclic_insert below_def)
  ultimately have "acyclic (up L')" by (rule acyclic_subset [rotated])
  then show ?thesis
    by (rule forest_relink [OF assms(1-3) pk assms(7-9), rotated -1])
      (use assms(3-5,10-14) forest_id [OF assms(1,3)] in auto)
qed

lemma forest_unlink:
  assumes "forest L" and "L p = Some c" and "k \<in> set (ce_kids c)" and "L k = Some d"
    and "ce_id c' = p" "ce_session c' = ce_session c" "ce_parent c' = ce_parent c"
    and "distinct (ce_kids c')" and "set (ce_kids c') = set (ce_kids c) - {k}"
    and "L' p = Some c'" and "L' k = Some (d\<lparr>ce_parent := None\<rparr>)"
    and "\<And>m. m \<noteq> p \<Longrightarrow> m \<noteq> k \<Longrightarrow> L' m = L m"
  shows "forest L'"
proof -
  have kp: "(k, p) \<in> up L" by (rule forest_kid_up [OF assms(1-3)])
  have pk: "p \<noteq> k" using self_not_below_kid [OF assms(1) kp] by auto
  have d: "ce_parent d = Some p" "ce_session d = ce_session c"
    using forest_kidD [OF assms(1-3)] assms(4) by auto
  have "up L' \<subseteq> up L"
  proof
    fix e
    assume "e \<in> up L'"
    then obtain m q x where e: "e = (m, q)" "L' m = Some x" "ce_parent x = Some q" by (auto simp: up_def)
    consider "m = p" | "m = k" | "m \<noteq> p" "m \<noteq> k" by blast
    then show "e \<in> up L"
    proof cases
      case 1
      then show ?thesis using e assms(2,7,10) by (auto simp: up_def)
    next
      case 2
      then show ?thesis using e assms(11) by auto
    next
      case 3
      then show ?thesis using e assms(12) by (auto simp: up_def)
    qed
  qed
  then have "acyclic (up L')" using forest_acyclic [OF assms(1)] by (rule acyclic_subset [rotated])
  then show ?thesis
    by (rule forest_relink [OF assms(1,2,4) pk assms(5-7), rotated -1])
      (use d assms(4,8-12) forest_id [OF assms(1,4)] in auto)
qed

text \<open>
  A new container \<open>w\<close> takes the place of the node \<open>k\<close> and owns it.
\<close>

lemma forest_wrap:
  assumes "forest L" and "L k = Some d" and "w \<notin> dom L"
    and "L' w = Some cw" "ce_id cw = w" "ce_session cw = ce_session d" "ce_parent cw = ce_parent d" "ce_kids cw = [k]"
    and "L' k = Some (d\<lparr>ce_parent := Some w\<rparr>)"
    and "\<And>m x. L m = Some x \<Longrightarrow> m \<noteq> k \<Longrightarrow>
      \<exists>x'. L' m = Some x' \<and> ce_id x' = m \<and> ce_session x' = ce_session x \<and> ce_parent x' = ce_parent x \<and>
           distinct (ce_kids x') \<and>
           set (ce_kids x') = (if k \<in> set (ce_kids x) then insert w (set (ce_kids x) - {k}) else set (ce_kids x))"
    and "\<And>m x'. L' m = Some x' \<Longrightarrow> m = w \<or> m \<in> dom L"
  shows "forest L'"
proof -
  have wk: "w \<noteq> k" using assms(2,3) by auto
  have kk: "k \<notin> set (ce_kids d)"
    using self_not_below_kid [OF assms(1)] forest_kid_up [OF assms(1,2)] by fastforce
  have w_kid: "w \<notin> set (ce_kids x)" if "L m = Some x" for m x
    using forest_kidD [OF assms(1) that] assms(3) by blast
  text \<open>The three kinds of nodes of the new layout.\<close>
  have cases: "m = w \<and> x' = cw \<or> m = k \<and> x' = d\<lparr>ce_parent := Some w\<rparr> \<or>
      m \<noteq> w \<and> m \<noteq> k \<and> (\<exists>x. L m = Some x \<and> ce_id x' = m \<and> ce_session x' = ce_session x \<and>
        ce_parent x' = ce_parent x \<and> distinct (ce_kids x') \<and>
        set (ce_kids x') = (if k \<in> set (ce_kids x) then insert w (set (ce_kids x) - {k}) else set (ce_kids x)))"
    if h: "L' m = Some x'" for m x'
  proof -
    consider "m = w" | "m = k" | x where "m \<noteq> w" "m \<noteq> k" "L m = Some x" using assms(11) [OF h] by blast
    then show ?thesis
    proof cases
      case 3
      then show ?thesis using assms(10) [OF 3(3,2)] h by auto
    qed (use h assms(4,9) in auto)
  qed
  have keep: "\<exists>y'. L' m = Some y' \<and> ce_session y' = ce_session y \<and> (m \<noteq> k \<longrightarrow> ce_parent y' = ce_parent y)"
    if "L m = Some y" for m y
    using assms(2,9) assms(10) [OF that] that by (cases "m = k") auto
  let ?f = "\<lambda>x. if x = w then 2 * card (above L k) - 1 else 2 * card (above L x)"
  have pos: "0 < card (above L k)" using card_above_pos [OF assms(1)] assms(2) by blast
  show ?thesis
  proof (rule forestI [where f = ?f])
    have "dom L' \<subseteq> insert w (dom L)" using assms(11) by blast
    then show "finite (dom L')" using forest_finite [OF assms(1)] finite_subset by blast
    show "?f p < ?f m" if e: "(m, p) \<in> up L'" for m p
    proof -
      obtain x where x: "L' m = Some x" "ce_parent x = Some p" using e by (auto simp: up_def)
      have rank: "card (above L p) < card (above L q)" "p \<noteq> w" if "L q = Some y" "ce_parent y = Some p" for q y
        using card_above_less [OF assms(1) upI [where L = L, OF that]] forest_parentD [OF assms(1) that] assms(3) by auto
      from cases [OF x(1)] show ?thesis
      proof (elim disjE conjE)
        assume "m = w" "x = cw"
        then show ?thesis using rank [OF assms(2)] x(2) assms(7) pos by auto
      next
        assume "m = k" "x = d\<lparr>ce_parent := Some w\<rparr>"
        then show ?thesis using x(2) pos wk by auto
      next
        assume m: "m \<noteq> w" and "\<exists>y. L m = Some y \<and> ce_id x = m \<and> ce_session x = ce_session y \<and>
          ce_parent x = ce_parent y \<and> distinct (ce_kids x) \<and>
          set (ce_kids x) = (if k \<in> set (ce_kids y) then insert w (set (ce_kids y) - {k}) else set (ce_kids y))"
        then obtain y where "L m = Some y" "ce_parent x = ce_parent y" by blast
        then show ?thesis using rank [of m y] x(2) m by auto
      qed
    qed
    show "ce_id x = m \<and> distinct (ce_kids x)" if "L' m = Some x" for m x
      using cases [OF that] assms(2,5,8) forest_id [OF assms(1,2)] forest_distinct [OF assms(1,2)] by auto
    show "\<exists>y. L' j = Some y \<and> ce_parent y = Some m \<and> ce_session y = ce_session x"
      if x: "L' m = Some x" "j \<in> set (ce_kids x)" for m x j
      using cases [OF x(1)]
    proof (elim disjE conjE exE)
      assume "m = w" "x = cw"
      then show ?thesis using x(2) assms(6,8,9) by auto
    next
      assume m: "m = k" "x = d\<lparr>ce_parent := Some w\<rparr>"
      then obtain y where y: "L j = Some y" "ce_parent y = Some k" "ce_session y = ce_session d"
        using forest_kidD [OF assms(1,2)] x(2) by auto
      moreover have "j \<noteq> k" using kk m x(2) by auto
      ultimately show ?thesis using keep [OF y(1)] m by auto
    next
      fix e
      assume m: "m \<noteq> k" "L m = Some e" "ce_session x = ce_session e"
        "set (ce_kids x) = (if k \<in> set (ce_kids e) then insert w (set (ce_kids e) - {k}) else set (ce_kids e))"
      show ?thesis
      proof (cases "j = w")
        case True
        then have "k \<in> set (ce_kids e)" using x(2) m(4) w_kid [OF m(2)] by (auto split: if_splits)
        then have "ce_parent d = Some m" "ce_session d = ce_session e"
          using forest_kidD [OF assms(1) m(2), of k] assms(2) by auto
        then show ?thesis using True assms(4,6,7) m(3) by auto
      next
        case False
        then have j: "j \<in> set (ce_kids e)" "j \<noteq> k" using x(2) m(4) by (auto split: if_splits)
        obtain y where y: "L j = Some y" "ce_parent y = Some m" "ce_session y = ce_session e"
          using forest_kidD [OF assms(1) m(2) j(1)] by blast
        then show ?thesis using keep [OF y(1)] j(2) m(3) by auto
      qed
    qed
    show "\<exists>y. L' p = Some y \<and> m \<in> set (ce_kids y)"
      if x: "L' m = Some x" "ce_parent x = Some p" for m x p
    proof -
      have up: "\<exists>y'. L' p = Some y' \<and> (if q = k then w else q) \<in> set (ce_kids y')"
        if q: "L q = Some e" "ce_parent e = Some p" for q e
      proof -
        obtain y where y: "L p = Some y" "q \<in> set (ce_kids y)" using forest_parentD [OF assms(1) q] by blast
        show ?thesis
        proof (cases "p = k")
          case True
          then have "q \<noteq> k" using y kk assms(2) by auto
          then show ?thesis using True y assms(2,9) by auto
        next
          case False
          then show ?thesis using assms(10) [OF y(1) False] y(2) by auto
        qed
      qed
      show ?thesis
        using cases [OF x(1)]
      proof (elim disjE conjE exE)
        assume "m = w" "x = cw"
        then show ?thesis using up [OF assms(2)] x(2) assms(7) by auto
      next
        assume "m = k" "x = d\<lparr>ce_parent := Some w\<rparr>"
        then show ?thesis using x(2) assms(4,8) by auto
      next
        fix e
        assume "m \<noteq> k" "L m = Some e" "ce_parent x = ce_parent e"
        then show ?thesis using up [of m e] x(2) by auto
      qed
    qed
  qed
qed

text \<open>A container \<open>n\<close> with the only child \<open>k\<close> goes, and the child takes its place.\<close>

lemma forest_collapse:
  assumes "forest L" and "L n = Some c" and "ce_kids c = [k]" and "L k = Some d"
    and "L' n = None" and "L' k = Some (d\<lparr>ce_parent := ce_parent c\<rparr>)"
    and "\<And>m x. L m = Some x \<Longrightarrow> m \<noteq> k \<Longrightarrow> m \<noteq> n \<Longrightarrow>
      \<exists>x'. L' m = Some x' \<and> ce_id x' = m \<and> ce_session x' = ce_session x \<and> ce_parent x' = ce_parent x \<and>
           distinct (ce_kids x') \<and>
           set (ce_kids x') = (if n \<in> set (ce_kids x) then insert k (set (ce_kids x) - {n}) else set (ce_kids x))"
    and "\<And>m x'. L' m = Some x' \<Longrightarrow> m \<in> dom L"
  shows "forest L'"
proof -
  have kn: "ce_parent d = Some n" "ce_session d = ce_session c"
    using forest_kidD [OF assms(1,2), of k] assms(3,4) by auto
  have up_kn: "(k, n) \<in> up L" by (rule upI [where L = L, OF assms(4) kn(1)])
  have nk: "n \<noteq> k" using self_not_below_kid [OF assms(1) up_kn] by auto
  have n_kids: "n \<notin> set (ce_kids d)"
  proof
    assume "n \<in> set (ce_kids d)"
    then have "(n, k) \<in> up L" by (rule forest_kid_up [OF assms(1,4)])
    then show False using no_up_cycle [OF assms(1) up_kn] by blast
  qed
  have k_only: "m = n" if "L m = Some x" "k \<in> set (ce_kids x)" for m x
    using forest_kid_unique [OF assms(1) that(1) assms(2) that(2)] assms(3) by simp
  have cases: "m \<noteq> n \<and> (m = k \<and> x' = d\<lparr>ce_parent := ce_parent c\<rparr> \<or>
      m \<noteq> k \<and> (\<exists>x. L m = Some x \<and> ce_id x' = m \<and> ce_session x' = ce_session x \<and>
        ce_parent x' = ce_parent x \<and> distinct (ce_kids x') \<and>
        set (ce_kids x') = (if n \<in> set (ce_kids x) then insert k (set (ce_kids x) - {n}) else set (ce_kids x))))"
    if h: "L' m = Some x'" for m x'
  proof -
    have "m \<noteq> n" using h assms(5) by auto
    moreover consider "m = k" | x where "m \<noteq> k" "L m = Some x" using assms(8) [OF h] by blast
    then have "m = k \<and> x' = d\<lparr>ce_parent := ce_parent c\<rparr> \<or>
      m \<noteq> k \<and> (\<exists>x. L m = Some x \<and> ce_id x' = m \<and> ce_session x' = ce_session x \<and>
        ce_parent x' = ce_parent x \<and> distinct (ce_kids x') \<and>
        set (ce_kids x') = (if n \<in> set (ce_kids x) then insert k (set (ce_kids x) - {n}) else set (ce_kids x)))"
    proof cases
      case 2
      then show ?thesis using assms(7) [OF 2(2,1) calculation] h by auto
    qed (use h assms(6) in auto)
    ultimately show ?thesis by blast
  qed
  have keep: "\<exists>y'. L' m = Some y' \<and> ce_session y' = ce_session y \<and> (m \<noteq> k \<longrightarrow> ce_parent y' = ce_parent y)"
    if "L m = Some y" "m \<noteq> n" for m y
    using assms(4,6) assms(7) [OF that(1) _ that(2)] that by (cases "m = k") auto
  show ?thesis
  proof (rule forestI [where f = "\<lambda>x. card (above L x)"])
    have "dom L' \<subseteq> dom L" using assms(8) by blast
    then show "finite (dom L')" using forest_finite [OF assms(1)] finite_subset by blast
    show "card (above L p) < card (above L m)" if e: "(m, p) \<in> up L'" for m p
    proof -
      obtain x where x: "L' m = Some x" "ce_parent x = Some p" using e by (auto simp: up_def)
      show ?thesis
      proof (cases "m = k")
        case True
        then have "ce_parent c = Some p" using cases [OF x(1)] x(2) by auto
        then show ?thesis
          using card_above_less [OF assms(1) upI [where L = L, OF assms(2)]] card_above_less [OF assms(1) up_kn] True
          by fastforce
      next
        case False
        then obtain y where "L m = Some y" "ce_parent y = Some p" using cases [OF x(1)] x(2) by auto
        then show ?thesis using card_above_less [OF assms(1) upI [where L = L]] by blast
      qed
    qed
    show "ce_id x = m \<and> distinct (ce_kids x)" if "L' m = Some x" for m x
      using cases [OF that] forest_id [OF assms(1,4)] forest_distinct [OF assms(1,4)] by auto
    show "\<exists>y. L' j = Some y \<and> ce_parent y = Some m \<and> ce_session y = ce_session x"
      if x: "L' m = Some x" "j \<in> set (ce_kids x)" for m x j
    proof (cases "m = k")
      case True
      then have j: "j \<in> set (ce_kids d)" "x = d\<lparr>ce_parent := ce_parent c\<rparr>" using cases [OF x(1)] x(2) by auto
      then obtain y where y: "L j = Some y" "ce_parent y = Some k" "ce_session y = ce_session d"
        using forest_kidD [OF assms(1,4)] by blast
      have "j \<noteq> n" "j \<noteq> k" using j n_kids y(1,2) assms(4) kn(1) nk by auto
      then show ?thesis using keep [OF y(1)] y True j(2) by auto
    next
      case False
      then obtain e where e: "m \<noteq> n" "L m = Some e" "ce_session x = ce_session e"
        "set (ce_kids x) = (if n \<in> set (ce_kids e) then insert k (set (ce_kids e) - {n}) else set (ce_kids e))"
        using cases [OF x(1)] by blast
      show ?thesis
      proof (cases "j = k")
        case True
        then have "n \<in> set (ce_kids e)" using x(2) e(1,4) k_only [OF e(2)] by (auto split: if_splits)
        then have "ce_parent c = Some m" "ce_session c = ce_session e"
          using forest_kidD [OF assms(1) e(2), of n] assms(2) by auto
        then show ?thesis using True assms(6) kn(2) e(3) by auto
      next
        case jk: False
        then have j: "j \<in> set (ce_kids e)" "j \<noteq> n" using x(2) e(4) by (auto split: if_splits)
        obtain y where y: "L j = Some y" "ce_parent y = Some m" "ce_session y = ce_session e"
          using forest_kidD [OF assms(1) e(2) j(1)] by blast
        then show ?thesis using keep [OF y(1) j(2)] jk e(3) by auto
      qed
    qed
    show "\<exists>y. L' p = Some y \<and> m \<in> set (ce_kids y)"
      if x: "L' m = Some x" "ce_parent x = Some p" for m x p
    proof -
      have up: "\<exists>y'. L' p = Some y' \<and> (if q = n then k else q) \<in> set (ce_kids y')"
        if q: "L q = Some e" "ce_parent e = Some p" "q \<noteq> k" for q e
      proof -
        obtain y where y: "L p = Some y" "q \<in> set (ce_kids y)" using forest_parentD [OF assms(1) q(1,2)] by blast
        have pn: "p \<noteq> n" using y assms(2,3) q(3) by auto
        show ?thesis
        proof (cases "p = k")
          case True
          then show ?thesis using y assms(4,6) n_kids by auto
        next
          case False
          then show ?thesis using assms(7) [OF y(1) False pn] y(2) by auto
        qed
      qed
      show ?thesis
      proof (cases "m = k")
        case True
        then have "ce_parent c = Some p" using cases [OF x(1)] x(2) by auto
        then show ?thesis using up [OF assms(2)] nk True by auto
      next
        case False
        then obtain y where "m \<noteq> n" "L m = Some y" "ce_parent y = Some p" using cases [OF x(1)] x(2) by auto
        then show ?thesis using up [of m y] False by auto
      qed
    qed
  qed
qed

end
