(* ===== verification/Server_Good.thy ===== *)
theory Server_Good
  imports Server_Links Server_Heal
begin

text \<open>
  The invariant of the states the server reaches: the layout invariant of \<open>Server_Invariant\<close>, every view
  showing a buffer attached to it, no nested tabs node without tabs, and every id in use below its
  counter. Here: the invariant, how it carries over to a changed state, and the methods that change no
  link of the layout.
\<close>

section \<open>The invariant\<close>

text \<open>Every id in use, or remembered, was issued.\<close>

definition ids_ok :: "server_state \<Rightarrow> bool" where
  "ids_ok s \<longleftrightarrow>
     (\<forall>n nd. bt_get (nodes s) n = Some nd \<longrightarrow> n < node_ids s) \<and>
     (\<forall>n nd l. bt_get (nodes s) n = Some nd \<longrightarrow> memo nd = Some l \<longrightarrow> l < node_ids s) \<and>
     (\<forall>fid f l. bt_get (floating s) fid = Some f \<longrightarrow> fw_last_focused_leaf f = Some l \<longrightarrow> l < node_ids s) \<and>
     (\<forall>bid b. bt_get (buffers s) bid = Some b \<longrightarrow> bid < buffer_ids s) \<and>
     (\<forall>sid se. bt_get (sessions s) sid = Some se \<longrightarrow> sid < session_ids s) \<and>
     (\<forall>fid f. bt_get (floating s) fid = Some f \<longrightarrow> fid < floating_ids s) \<and>
     (\<forall>sid se fid. bt_get (sessions s) sid = Some se \<longrightarrow> se_focused_floating se = Some fid \<longrightarrow> fid < floating_ids s)"

text \<open>Nested tabs nodes have tabs.\<close>

definition no_hollow :: "server_state \<Rightarrow> bool" where
  "no_hollow s \<longleftrightarrow>
     (\<forall>n c. layout s n = Some c \<longrightarrow> ce_kind c = KTabs \<longrightarrow> ce_parent c \<noteq> None \<longrightarrow> ce_kids c \<noteq> [])"

definition good :: "server_state \<Rightarrow> bool" where
  "good s \<longleftrightarrow> inv s \<and> shown_buffers_ok s \<and> no_hollow s \<and> ids_ok s"

lemma goodD:
  assumes "good s"
  shows "inv s" "structure_ok s" "forest (layout s)" "attach_ok s" "views_ok s" "sessions_ok s" "floating_ok s"
    "tabs_ok s" "lfd_ok s" "ff_ok s" "shown_buffers_ok s" "no_hollow s" "ids_ok s"
  using assms by (simp_all add: good_def inv_def structure_ok_def)

lemma shown_buffers_layout:
  "shown_buffers_ok s \<longleftrightarrow>
     (\<forall>n c bid. layout s n = Some c \<longrightarrow> ce_kind c = KView bid \<longrightarrow>
        (\<exists>b. bt_get (buffers s) bid = Some b \<and> bu_attachment b = Attached n))"
  unfolding shown_buffers_ok_def layout_Some
  by (auto simp: kind_of_view)

lemma idsD:
  assumes "ids_ok s"
  shows "bt_get (nodes s) n = Some nd \<Longrightarrow> n < node_ids s"
    and "bt_get (nodes s) n = Some nd \<Longrightarrow> memo nd = Some l \<Longrightarrow> l < node_ids s"
    and "bt_get (floating s) fid = Some f \<Longrightarrow> fw_last_focused_leaf f = Some l \<Longrightarrow> l < node_ids s"
    and "bt_get (buffers s) bid = Some b \<Longrightarrow> bid < buffer_ids s"
    and "bt_get (sessions s) sid = Some se \<Longrightarrow> sid < session_ids s"
    and "bt_get (floating s) fid = Some f \<Longrightarrow> fid < floating_ids s"
    and "bt_get (sessions s) sid = Some se \<Longrightarrow> se_focused_floating se = Some fid \<Longrightarrow> fid < floating_ids s"
  using assms unfolding ids_ok_def by blast+

lemma ids_okI:
  assumes "\<And>n nd. bt_get (nodes s) n = Some nd \<Longrightarrow> n < node_ids s"
    and "\<And>n nd l. bt_get (nodes s) n = Some nd \<Longrightarrow> memo nd = Some l \<Longrightarrow> l < node_ids s"
    and "\<And>fid f l. bt_get (floating s) fid = Some f \<Longrightarrow> fw_last_focused_leaf f = Some l \<Longrightarrow> l < node_ids s"
    and "\<And>bid b. bt_get (buffers s) bid = Some b \<Longrightarrow> bid < buffer_ids s"
    and "\<And>sid se. bt_get (sessions s) sid = Some se \<Longrightarrow> sid < session_ids s"
    and "\<And>fid f. bt_get (floating s) fid = Some f \<Longrightarrow> fid < floating_ids s"
    and "\<And>sid se fid. bt_get (sessions s) sid = Some se \<Longrightarrow> se_focused_floating se = Some fid \<Longrightarrow> fid < floating_ids s"
  shows "ids_ok s"
  unfolding ids_ok_def
  by (intro conjI allI impI)
    (erule assms(1), erule (1) assms(2), erule (1) assms(3), erule assms(4), erule assms(5), erule assms(6),
     erule (1) assms(7))

section \<open>Focus\<close>

lemma preserves_at: "preserves P m \<Longrightarrow> P s \<Longrightarrow> P (snd (m s))"
  by (simp add: preserves_def)

lemma keeps_at: "keeps f m \<Longrightarrow> f (snd (m s)) = f s"
  by (simp add: keeps_def)

text \<open>The focus methods remember only panes there are.\<close>

definition bounded :: "node_id \<Rightarrow> server_state \<Rightarrow> bool" where
  "bounded leaf s \<longleftrightarrow>
     ids_ok s \<and> leaf < node_ids s \<and> (\<forall>fid f. bt_get (floating s) fid = Some f \<longrightarrow> fw_id f = fid)"

lemma bounded_node_mut:
  assumes "\<And>nd. memo (g nd) = memo nd \<or> memo (g nd) = Some leaf \<or> memo (g nd) = None"
  shows "preserves (bounded leaf) (node_mut n g)"
  unfolding preserves_def
proof (intro allI impI)
  fix s
  assume b: "bounded leaf s"
  show "bounded leaf (snd (node_mut n g s))"
  proof (cases "bt_get (nodes s) n")
    case None
    then show ?thesis using b by (simp add: node_mut_run)
  next
    case (Some nd)
    then show ?thesis
      using b assms [of nd] unfolding bounded_def ids_ok_def node_mut_run
      by (auto split: if_splits)
  qed
qed

lemma bounded_mark [frame]:
  "preserves (bounded leaf) (mark_floating_focus leaf own fid)"
  "preserves (bounded leaf)
     (modify (\<lambda>s. s\<lparr>floating := bt_update fid (\<lambda>f. f\<lparr>fw_focused := b\<rparr>) (floating s)\<rparr>))"
  unfolding mark_floating_focus_def
  by (rule preserves_modify; auto simp: bounded_def ids_ok_def split: if_splits; metis)+

lemma bounded_buffer_mut [frame]: "preserves (bounded leaf) (buffer_mut bid g)"
  by (auto simp: preserves_def bounded_def ids_ok_def buffer_mut_run split: option.split if_splits; blast)

lemma bounded_session_mut:
  assumes "\<And>se. se_focused_floating (g se) = se_focused_floating se \<or> se_focused_floating (g se) = None"
  shows "preserves (bounded leaf) (session_mut sid g)"
  unfolding preserves_def
proof (intro allI impI)
  fix s
  assume b: "bounded leaf s"
  show "bounded leaf (snd (session_mut sid g s))"
  proof (cases "bt_get (sessions s) sid")
    case None
    then show ?thesis using b by (simp add: session_mut_run)
  next
    case (Some se)
    then show ?thesis
      using b assms [of se] unfolding bounded_def ids_ok_def session_mut_run
      by (auto split: if_splits)
  qed
qed

lemma bounded_focus_steps [frame]:
  "preserves (bounded leaf) (set_leaf_focus n b)"
  "preserves (bounded leaf) (node_mut n (focus_through leaf child))"
  "preserves (bounded leaf) (set_buffer_activity bid a)"
  "preserves (bounded leaf) (acknowledge_shown_activity sid)"
proof -
  show "preserves (bounded leaf) (node_mut n (focus_through leaf child))"
    by (rule bounded_node_mut) (use focus_through_ok(3) in blast)
  show "preserves (bounded leaf) (set_leaf_focus n b)"
    unfolding preserves_def
  proof (intro allI impI)
    fix s
    assume b': "bounded leaf s"
    have "snd (set_leaf_focus n b s) = s \<or> snd (set_leaf_focus n b s) = snd (node_mut n (\<lambda>nd.
        case nd of BufferView v \<Rightarrow> BufferView (v\<lparr>bv_view := (bv_view v)\<lparr>vs_focused := b\<rparr>\<rparr>) | _ \<Rightarrow> nd) s)"
      by (auto simp: set_leaf_focus_def state_node_def put_node_run bind_run step_run resume_ok_or node_mut_run
          split: option.split node.split)
    moreover have "preserves (bounded leaf) (node_mut n (\<lambda>nd.
        case nd of BufferView v \<Rightarrow> BufferView (v\<lparr>bv_view := (bv_view v)\<lparr>vs_focused := b\<rparr>\<rparr>) | _ \<Rightarrow> nd))"
      by (rule bounded_node_mut) (simp split: node.split)
    ultimately show "bounded leaf (snd (set_leaf_focus n b s))" using b' by (auto simp: preserves_def)
  qed
  show "preserves (bounded leaf) (set_buffer_activity bid a)"
    "preserves (bounded leaf) (acknowledge_shown_activity sid)"
    unfolding set_buffer_activity_def acknowledge_shown_activity_def acknowledge_leaf_def by (intro frame)+
qed

lemma bounded_clear [frame]:
  "preserves (bounded leaf) (clear_session_focus sid)" "preserves (bounded leaf) (remember_focus sid l)"
  unfolding clear_session_focus_def remember_focus_def
  by (intro frame bounded_session_mut; simp)+

lemma bounded_ancestors [frame]: "preserves (bounded leaf) (focus_ancestors_from k leaf child)"
  "preserves (bounded leaf) (select_ancestors_from k leaf window child)"
  by (induction k arbitrary: child) (auto intro!: frame)

lemma floating_owner_bounded:
  assumes "bounded leaf s" and "floating_id_for_node s n = Ok (Some fid)"
  shows "fid < floating_ids s"
proof -
  obtain root where "floating_id_by_root s root = Some fid"
    using assms(2) by (cases "top_root_for_node s n") (auto simp: floating_id_for_node_def)
  then obtain f where f: "f \<in> set (bt_values (floating s))" "fw_id f = fid"
    by (auto simp: floating_id_by_root_def find_Some_iff dest: nth_mem)
  then obtain k where k: "bt_get (floating s) k = Some f" by (auto simp: bt_values_iff)
  then have "k = fid" using assms(1) f(2) by (auto simp: bounded_def)
  then show ?thesis using idsD(6) k assms(1) by (auto simp: bounded_def)
qed

lemma bounded_owner:
  assumes "\<And>own. preserves (bounded leaf) (K own)"
  shows "preserves (bounded leaf) (pbind (reads (\<lambda>s. floating_id_for_node s n)) (\<lambda>own.
    pbind (session_mut sid (\<lambda>se. se\<lparr>se_focused_leaf := Some leaf, se_focused_floating := own\<rparr>)) (\<lambda>_. K own)))"
  unfolding preserves_def
proof (intro allI impI)
  fix s
  let ?u = "\<lambda>own se. se\<lparr>se_focused_leaf := Some leaf, se_focused_floating := own\<rparr>"
  let ?m = "pbind (reads (\<lambda>s. floating_id_for_node s n)) (\<lambda>own. pbind (session_mut sid (?u own)) (\<lambda>_. K own))"
  assume b: "bounded leaf s"
  show "bounded leaf (snd (?m s))"
  proof (cases "floating_id_for_node s n")
    case (Ok own)
    have "bounded leaf (snd (session_mut sid (?u own) s))"
    proof (cases "bt_get (sessions s) sid")
      case (Some se)
      have "own = Some fid \<Longrightarrow> fid < floating_ids s" for fid
        using floating_owner_bounded [OF b] Ok by auto
      then show ?thesis
        using b Some unfolding bounded_def ids_ok_def session_mut_run by (auto split: if_splits)
    qed (use b in \<open>simp add: session_mut_run\<close>)
    have "bounded leaf (snd (resume (session_mut sid (?u own) s) (\<lambda>_. K own)))"
      using \<open>bounded leaf (snd (session_mut sid (?u own) s))\<close> assms [of own]
      by (cases "session_mut sid (?u own) s") (auto simp: resume.simps preserves_def split: outcome.split)
    then show ?thesis using Ok by (simp add: bind_run step_run resume_run)
  qed (use b in \<open>simp_all add: bind_run step_run resume_run\<close>)
qed

lemma bounded_focus_leaf: "preserves (bounded leaf) (focus_leaf sid leaf)"
  unfolding focus_leaf_def by (intro bounded_owner frame)

lemma ensured_focusable:
  assumes "structure_ok s" and "ensure_leaf_belongs_to s leaf sid = Ok ()"
    and "ensure_leaf_is_focusable s sid leaf = Ok ()"
  shows "\<exists>r. focusable s sid r leaf"
proof -
  have f: "forest (layout s)" and fl: "floating_ok s" using assms(1) by (auto simp: structure_ok_def)
  obtain c where c: "layout s leaf = Some c" "ce_session c = sid"
    using assms(2) by (cases "layout s leaf")
      (auto simp: ensure_leaf_belongs_to_def ensure_node_layout split: if_splits)
  obtain nd where nd: "bt_get (nodes s) leaf = Some nd" "c = cell_of nd" using c(1) by (auto simp: layout_Some)
  have view: "is_view s leaf"
    using assms(2) c nd by (cases nd) (auto simp: ensure_leaf_belongs_to_def ensure_node_layout ensure_leaf_def
        state_node_def is_view_def)
  obtain r where r: "top_root_for_node s leaf = Ok r" "(leaf, r) \<in> (up (layout s))\<^sup>*" "parentless (layout s) r"
    using top_root_Ok [OF f] c(1) by blast
  obtain se where se: "bt_get (sessions s) sid = Some se"
    using assms(3) r(1) by (cases "bt_get (sessions s) sid") (auto simp: ensure_leaf_is_focusable_def state_session_def)
  have "pane_root s sid r"
  proof (cases "r = se_root_node se")
    case True
    then show ?thesis using se by (auto simp: pane_root_def)
  next
    case False
    then obtain fid where fid: "floating_id_by_root s r = Some fid"
      using assms(3) r(1) se
      by (cases "floating_id_by_root s r") (auto simp: ensure_leaf_is_focusable_def state_session_def)
    then obtain g where g: "bt_get (floating s) fid = Some g" "fw_root_node g = r"
      using floating_id_by_root_Some [OF fl] by blast
    have "fw_visible g"
      using assms(3) r(1) se False fid g(1)
      by (auto simp: ensure_leaf_is_focusable_def state_session_def state_floating_def split: if_splits)
    then show ?thesis using g by (auto simp: pane_root_def)
  qed
  then show ?thesis using c view r se by (auto simp: focusable_def has_session_def)
qed

text \<open>Focusing a pane either fails and changes nothing, or succeeds.\<close>

lemma rwp_if [wp_simps]: "rwp (if c then r else r') Q E = (if c then rwp r Q E else rwp r' Q E)"
  by simp

lemma focus_leaf_cases:
  assumes "inv s"
  shows "(\<exists>e. focus_leaf sid leaf s = (Err e, s)) \<or> (\<exists>r. focusable s sid r leaf)"
proof -
  have st: "structure_ok s" and f: "forest (layout s)" using assms by (auto simp: inv_def structure_ok_def)
  have "rwp (ensure_leaf_belongs_to s leaf sid) (\<lambda>_. True) (\<lambda>_. True)"
    by (simp add: ensure_leaf_belongs_to_def ensure_node_belongs_to_def ensure_leaf_def state_node_def wp_simps
        split: option.split)
  then consider (bad) e where "ensure_leaf_belongs_to s leaf sid = Err e"
    | (fine) "ensure_leaf_belongs_to s leaf sid = Ok ()"
    by (cases "ensure_leaf_belongs_to s leaf sid") auto
  then show ?thesis
  proof cases
    case bad
    then show ?thesis by (simp add: focus_leaf_def bind_run step_run resume_run cong: run_congs)
  next
    case fine
    then have "leaf \<in> dom (layout s)"
      by (auto simp: ensure_leaf_belongs_to_def ensure_node_layout split: option.splits)
    then obtain r where "top_root_for_node s leaf = Ok r" using top_root_Ok [OF f] by blast
    then have "rwp (ensure_leaf_is_focusable s sid leaf) (\<lambda>_. True) (\<lambda>_. True)"
      by (simp add: ensure_leaf_is_focusable_def state_session_def state_floating_def wp_simps split: option.split)
    then consider (bad') e where "ensure_leaf_is_focusable s sid leaf = Err e"
      | (fine') "ensure_leaf_is_focusable s sid leaf = Ok ()"
      by (cases "ensure_leaf_is_focusable s sid leaf") auto
    then show ?thesis
    proof cases
      case bad'
      then show ?thesis using fine by (simp add: focus_leaf_def bind_run step_run resume_run cong: run_congs)
    next
      case fine'
      then show ?thesis using ensured_focusable [OF st fine] by blast
    qed
  qed
qed

lemma inv_focus_leaf [frame]: "preserves inv (focus_leaf sid leaf)"
  unfolding preserves_def using focus_leaf_cases focus_leaf_Ok by (metis snd_conv)

lemma quiet_shown_buffers: "quiet t = quiet s \<Longrightarrow> shown_buffers_ok s \<Longrightarrow> shown_buffers_ok t"
  unfolding shown_buffers_layout using quiet_eqD(1) quiet_buffer_D by metis

lemma quiet_good:
  assumes "quiet t = quiet s" and "good s" and "inv t" and "ids_ok t"
  shows "good t"
  using assms quiet_shown_buffers [OF assms(1)] quiet_eqD(1) [OF assms(1)]
  by (simp add: good_def no_hollow_def)

lemma good_focus_leaf [frame]: "preserves good (focus_leaf sid leaf)"
  unfolding preserves_def
proof (intro allI impI)
  fix s
  assume g: "good s"
  from focus_leaf_cases [OF goodD(1) [OF g], of sid leaf] show "good (snd (focus_leaf sid leaf s))"
  proof (elim disjE exE)
    fix r
    assume "focusable s sid r leaf"
    then have "leaf < node_ids s"
      using idsD(1) [OF goodD(13) [OF g]] by (auto simp: focusable_def is_view_def)
    then have "bounded leaf s"
      using goodD(13) [OF g] floating_okD(1) [OF goodD(7) [OF g]] by (simp add: bounded_def)
    then have "bounded leaf (snd (focus_leaf sid leaf s))" by (rule preserves_at [OF bounded_focus_leaf])
    then have "ids_ok (snd (focus_leaf sid leaf s))" by (simp add: bounded_def)
    moreover have "quiet (snd (focus_leaf sid leaf s)) = quiet s"
      by (rule keeps_at [OF quiet_focus_leaf])
    moreover have "inv (snd (focus_leaf sid leaf s))"
      by (rule preserves_at [OF inv_focus_leaf goodD(1) [OF g]])
    ultimately show ?thesis using quiet_good [OF _ g] by blast
  qed (use g in simp)
qed

section \<open>Writes that keep the links\<close>

lemma good_session_insert:
  assumes "good s" and "bt_get (sessions s) sid = Some se"
    and "se_id se' = se_id se" "se_root_node se' = se_root_node se" "se_floating se' = se_floating se"
    and "se_focused_floating se' = se_focused_floating se \<or> se_focused_floating se' = None"
  shows "good (s\<lparr>sessions := bt_insert sid se' (sessions s)\<rparr>)" (is "good ?t")
proof -
  have L: "layout ?t = layout s" by (auto simp: layout_def)
  have "ids_ok ?t"
    using goodD(13) [OF assms(1)] assms(2,6) unfolding ids_ok_def by (auto split: if_splits)
  moreover have "shown_buffers_ok ?t" "no_hollow ?t"
    using goodD(11,12) [OF assms(1)] by (simp_all add: shown_buffers_ok_def no_hollow_def L)
  ultimately show ?thesis
    using inv_session_insert [OF goodD(1) [OF assms(1)] assms(2-6)] by (simp add: good_def)
qed

lemma good_session_mut:
  assumes "\<And>se. se_id (g se) = se_id se" "\<And>se. se_root_node (g se) = se_root_node se"
    "\<And>se. se_floating (g se) = se_floating se"
    "\<And>se. se_focused_floating (g se) = se_focused_floating se \<or> se_focused_floating (g se) = None"
  shows "preserves good (session_mut sid g)"
  unfolding preserves_def
proof (intro allI impI)
  fix s
  assume g: "good s"
  show "good (snd (session_mut sid g s))"
  proof (cases "bt_get (sessions s) sid")
    case (Some se)
    then show ?thesis using good_session_insert [OF g Some, of "g se"] assms by (simp add: session_mut_run)
  qed (use g in \<open>simp add: session_mut_run\<close>)
qed

text \<open>Maps that agree on what the invariant reads.\<close>

lemma good_buffers:
  assumes "good s" and "sessions t = sessions s" "nodes t = nodes s" "floating t = floating s"
    "session_ids t = session_ids s" "node_ids t = node_ids s" "floating_ids t = floating_ids s"
    and "\<And>bid. map_option bu_attachment (bt_get (buffers t) bid) = map_option bu_attachment (bt_get (buffers s) bid)"
    and "buffer_ids t = buffer_ids s"
  shows "good t"
proof -
  have L: "layout t = layout s" by (rule ext) (simp add: layout_def assms(3))
  have v: "is_view t n = is_view s n" for n by (rule is_view_cong [OF L])
  have fwd: "\<exists>b'. bt_get (buffers t) bid = Some b' \<and> bu_attachment b' = bu_attachment b"
    if "bt_get (buffers s) bid = Some b" for bid b
    using assms(8) [of bid] that by (cases "bt_get (buffers t) bid") auto
  have bwd: "\<exists>b'. bt_get (buffers s) bid = Some b' \<and> bu_attachment b' = bu_attachment b"
    if "bt_get (buffers t) bid = Some b" for bid b
    using assms(8) [of bid] that by (cases "bt_get (buffers s) bid") auto
  have "attach_ok t" using goodD(4) [OF assms(1)] bwd unfolding attach_ok_def assms(3) by metis
  moreover have "views_ok t" using goodD(5) [OF assms(1)] fwd unfolding views_ok_def L by metis
  moreover have "shown_buffers_ok t"
    using goodD(11) [OF assms(1)] fwd unfolding shown_buffers_ok_def assms(3) by metis
  moreover have "ids_ok t"
  proof -
    have "bid < buffer_ids s" if "bt_get (buffers t) bid = Some b" for bid b
      using bwd [OF that] idsD(4) [OF goodD(13) [OF assms(1)]] by blast
    then show ?thesis using goodD(13) [OF assms(1)] by (simp add: ids_ok_def assms(2-7,9))
  qed
  ultimately show ?thesis
    using goodD [OF assms(1)] assms(2,4)
    by (simp add: good_def inv_def structure_ok_def sessions_ok_def floating_ok_def tabs_ok_def lfd_ok_def
        ff_ok_def no_hollow_def L v assms(3))
qed

lemma good_buffer_mut:
  assumes "\<And>b. bu_attachment (g b) = bu_attachment b"
  shows "preserves good (buffer_mut bid g)"
  unfolding preserves_def
proof (intro allI impI)
  fix s
  assume "good s"
  then show "good (snd (buffer_mut bid g s))"
    by (rule good_buffers) (use assms in \<open>auto simp: buffer_mut_run split: option.split\<close>)
qed

lemma good_floating:
  assumes "good s" and "bt_get (floating s) fid = Some f"
    and "fw_id f' = fw_id f" "fw_root_node f' = fw_root_node f" "fw_session_id f' = fw_session_id f"
    and "fw_last_focused_leaf f' = fw_last_focused_leaf f"
  shows "good (s\<lparr>floating := bt_insert fid f' (floating s)\<rparr>)" (is "good ?t")
proof -
  have L: "layout ?t = layout s" by (rule ext) (simp add: layout_def)
  have v: "is_view ?t n = is_view s n" for n by (rule is_view_cong [OF L])
  have bwd: "\<exists>h. bt_get (floating s) gid = Some h \<and> fw_id h = fw_id g \<and> fw_root_node h = fw_root_node g \<and>
      fw_session_id h = fw_session_id g \<and> fw_last_focused_leaf h = fw_last_focused_leaf g"
    if "bt_get (floating ?t) gid = Some g" for gid g
    using that assms(2-6) by (auto split: if_splits)
  have fwd: "\<exists>h. bt_get (floating ?t) gid = Some h \<and> fw_session_id h = fw_session_id g"
    if "bt_get (floating s) gid = Some g" for gid g
    using that assms(2-6) by (cases "gid = fid") auto
  have "sessions_ok ?t"
    unfolding sessions_ok_def L
  proof (intro allI impI)
    fix sid se
    assume "bt_get (sessions ?t) sid = Some se"
    then have se: "bt_get (sessions s) sid = Some se" by simp
    show "se_id se = sid \<and> distinct (se_floating se) \<and>
        (\<exists>c. layout s (se_root_node se) = Some c \<and> ce_kind c = KTabs \<and> ce_parent c = None \<and> ce_session c = sid) \<and>
        (\<forall>gid \<in> set (se_floating se). \<exists>g. bt_get (floating ?t) gid = Some g \<and> fw_session_id g = sid)"
      using sessions_okD [OF goodD(6) [OF assms(1)] se] fwd by metis
  qed
  moreover have "floating_ok ?t"
    unfolding floating_ok_def L
  proof (intro conjI allI impI)
    fix gid g
    assume "bt_get (floating ?t) gid = Some g"
    then obtain h where h: "bt_get (floating s) gid = Some h" "fw_id h = fw_id g" "fw_root_node h = fw_root_node g"
      "fw_session_id h = fw_session_id g" using bwd by blast
    show "fw_id g = gid"
      "\<exists>c. layout s (fw_root_node g) = Some c \<and> ce_parent c = None \<and> ce_session c = fw_session_id g"
      "\<exists>se. bt_get (sessions ?t) (fw_session_id g) = Some se \<and> gid \<in> set (se_floating se) \<and>
            se_root_node se \<noteq> fw_root_node g"
      using floating_okD(1-3) [OF goodD(7) [OF assms(1)] h(1)] h(2-4) by auto
  next
    fix gid g hid h
    assume "bt_get (floating ?t) gid = Some g" "bt_get (floating ?t) hid = Some h" "fw_root_node g = fw_root_node h"
    then show "gid = hid" using bwd floating_okD(4) [OF goodD(7) [OF assms(1)]] by metis
  qed
  moreover have "lfd_ok ?t"
  proof -
    have "is_view s l" if "bt_get (floating ?t) gid = Some g" "fw_last_focused_leaf g = Some l" "l \<in> dom (layout s)"
      for gid g l
      using bwd [OF that(1)] that(2,3) lfd_okD(2) [OF goodD(9) [OF assms(1)]] by metis
    then show ?thesis
      unfolding lfd_ok_def L v using goodD(9) [OF assms(1)] by (simp add: lfd_ok_def)
  qed
  moreover have "ff_ok ?t"
  proof -
    have "fw_session_id g = sid" if "bt_get (sessions s) sid = Some se" "se_focused_floating se = Some gid"
      "bt_get (floating ?t) gid = Some g" for sid se gid g
      using bwd [OF that(3)] that(1,2) goodD(10) [OF assms(1)] unfolding ff_ok_def by metis
    then show ?thesis by (simp add: ff_ok_def)
  qed
  moreover have "ids_ok ?t"
    using goodD(13) [OF assms(1)] assms(2,6) unfolding ids_ok_def by (auto split: if_splits)
  ultimately show ?thesis
    using goodD [OF assms(1)]
    by (simp add: good_def inv_def structure_ok_def attach_ok_def views_ok_def tabs_ok_def no_hollow_def
        shown_buffers_ok_def L)
qed

section \<open>Writes to one node\<close>

fun same_kind :: "node \<Rightarrow> node \<Rightarrow> bool" where
  "same_kind (BufferView v) (BufferView w) = (bv_buffer_id v = bv_buffer_id w)"
| "same_kind (Split _) (Split _) = True"
| "same_kind (Tabs _) (Tabs _) = True"
| "same_kind _ _ = False"

definition alike :: "node \<Rightarrow> node \<Rightarrow> bool" where
  "alike nd nd' \<longleftrightarrow>
     node_id_of nd' = node_id_of nd \<and> node_session nd' = node_session nd \<and> node_par nd' = node_par nd \<and>
     distinct (child_ids nd') \<and> set (child_ids nd') = set (child_ids nd) \<and> same_kind nd nd'"

lemma same_kind_iff: "same_kind nd nd' \<Longrightarrow> kind_of nd' = KView b \<longleftrightarrow> kind_of nd = KView b"
  "same_kind nd nd' \<Longrightarrow> kind_of nd' = KTabs \<longleftrightarrow> kind_of nd = KTabs"
  by (cases nd; cases nd'; simp)+

lemma forest_alike:
  assumes "forest L" and "\<And>m. L' m = None \<longleftrightarrow> L m = None"
    and "\<And>m x x'. L m = Some x \<Longrightarrow> L' m = Some x' \<Longrightarrow>
      ce_id x' = ce_id x \<and> ce_session x' = ce_session x \<and> ce_parent x' = ce_parent x \<and>
      distinct (ce_kids x') \<and> set (ce_kids x') = set (ce_kids x)"
  shows "forest L'"
proof -
  have bwd: "\<exists>x. L m = Some x \<and> ce_id x' = ce_id x \<and> ce_session x' = ce_session x \<and> ce_parent x' = ce_parent x \<and>
      distinct (ce_kids x') \<and> set (ce_kids x') = set (ce_kids x)" if "L' m = Some x'" for m x'
    using assms(2) [of m] assms(3) [of m _ x'] that by (cases "L m") auto
  have fwd: "\<exists>x'. L' m = Some x' \<and> ce_session x' = ce_session x \<and> ce_parent x' = ce_parent x \<and>
      set (ce_kids x') = set (ce_kids x)" if "L m = Some x" for m x
    using assms(2) [of m] assms(3) [of m x] that by (cases "L' m") auto
  show ?thesis
  proof (rule forestI [where f = "\<lambda>x. card (above L x)"])
    have "dom L' = dom L" by (simp add: dom_def assms(2))
    then show "finite (dom L')" using forest_finite [OF assms(1)] by simp
    show "card (above L p) < card (above L m)" if e: "(m, p) \<in> up L'" for m p
    proof -
      obtain x' where "L' m = Some x'" "ce_parent x' = Some p" using e by (auto simp: up_def)
      then obtain x where "L m = Some x" "ce_parent x = Some p" using bwd by metis
      then show ?thesis using card_above_less [OF assms(1) upI [where L = L]] by blast
    qed
    show "ce_id x = m \<and> distinct (ce_kids x)" if "L' m = Some x" for m x
      using bwd [OF that] forest_id [OF assms(1)] by auto
    show "\<exists>d. L' k = Some d \<and> ce_parent d = Some m \<and> ce_session d = ce_session x'"
      if x: "L' m = Some x'" "k \<in> set (ce_kids x')" for m x' k
    proof -
      obtain y where y: "L m = Some y" "ce_session x' = ce_session y" "k \<in> set (ce_kids y)" using bwd [OF x(1)] x(2) by auto
      obtain d where d: "L k = Some d" "ce_parent d = Some m" "ce_session d = ce_session y"
        using forest_kidD [OF assms(1) y(1,3)] by blast
      then show ?thesis using fwd [OF d(1)] y(2) by auto
    qed
    show "\<exists>d. L' p = Some d \<and> m \<in> set (ce_kids d)" if x: "L' m = Some x'" "ce_parent x' = Some p" for m x' p
    proof -
      obtain y where y: "L m = Some y" "ce_parent y = Some p" using bwd [OF x(1)] x(2) by auto
      obtain d where d: "L p = Some d" "m \<in> set (ce_kids d)" using forest_parentD [OF assms(1) y] by blast
      then show ?thesis using fwd [OF d(1)] by auto
    qed
  qed
qed

lemma good_node_insert:
  assumes "good s" and "bt_get (nodes s) n = Some nd" and "alike nd nd'" and "active_ok nd'"
    and "memo nd' = memo nd \<or> memo nd' = None \<or> (\<exists>l. memo nd' = Some l \<and> is_view s l)"
  shows "good (s\<lparr>nodes := bt_insert n nd' (nodes s)\<rparr>)" (is "good ?t")
proof -
  have Lt: "layout ?t m = (if m = n then Some (cell_of nd') else layout s m)" for m by (simp add: layout_def)
  have Ln: "layout s n = Some (cell_of nd)" using assms(2) by (simp add: layout_def)
  have a: "node_id_of nd' = node_id_of nd" "node_session nd' = node_session nd" "node_par nd' = node_par nd"
    "distinct (child_ids nd')" "set (child_ids nd') = set (child_ids nd)" "same_kind nd nd'"
    using assms(3) by (simp_all add: alike_def)
  have dom: "dom (layout ?t) = dom (layout s)" using Lt Ln by (auto split: if_splits)
  have view: "is_view ?t m \<longleftrightarrow> is_view s m" for m
    using a(6) assms(2) by (cases nd; cases nd') (auto simp: is_view_def)
  have f: "forest (layout ?t)"
    by (rule forest_alike [OF goodD(3) [OF assms(1)]])
      (use Lt Ln a forest_distinct [OF goodD(3) [OF assms(1)]] in \<open>auto split: if_splits\<close>)
  have cell: "\<exists>c. layout s m = Some c \<and> ce_session c' = ce_session c \<and> ce_parent c' = ce_parent c \<and>
      (\<forall>b. ce_kind c' = KView b \<longleftrightarrow> ce_kind c = KView b) \<and> (ce_kind c' = KTabs \<longleftrightarrow> ce_kind c = KTabs) \<and>
      (ce_kids c' = [] \<longleftrightarrow> ce_kids c = [])"
    if "layout ?t m = Some c'" for m c'
    using that Lt Ln a(2,3,5) same_kind_iff [OF a(6)] by (cases "m = n") auto
  have cell': "\<exists>c'. layout ?t m = Some c' \<and> ce_session c' = ce_session c \<and> ce_parent c' = ce_parent c \<and>
      (\<forall>b. ce_kind c' = KView b \<longleftrightarrow> ce_kind c = KView b) \<and> (ce_kind c' = KTabs \<longleftrightarrow> ce_kind c = KTabs)"
    if "layout s m = Some c" for m c
    using that Lt Ln a(2,3) same_kind_iff [OF a(6)] by (cases "m = n") auto
  have "attach_ok ?t" using goodD(4) [OF assms(1)] cell' unfolding attach_ok_layout by (simp, metis)
  moreover have "views_ok ?t" using goodD(5) [OF assms(1)] cell unfolding views_ok_def by (simp, metis)
  moreover have "shown_buffers_ok ?t"
    using goodD(11) [OF assms(1)] cell unfolding shown_buffers_layout by (simp, metis)
  moreover have "no_hollow ?t" using goodD(12) [OF assms(1)] cell unfolding no_hollow_def by metis
  moreover have "sessions_ok ?t"
    unfolding sessions_ok_def
  proof (intro allI impI)
    fix sid se
    assume "bt_get (sessions ?t) sid = Some se"
    then have se: "bt_get (sessions s) sid = Some se" by simp
    obtain c where "layout s (se_root_node se) = Some c" "ce_kind c = KTabs" "ce_parent c = None" "ce_session c = sid"
      using sessions_okD(3) [OF goodD(6) [OF assms(1)] se] by blast
    then have "\<exists>c. layout ?t (se_root_node se) = Some c \<and> ce_kind c = KTabs \<and> ce_parent c = None \<and> ce_session c = sid"
      using cell' by metis
    then show "se_id se = sid \<and> distinct (se_floating se) \<and>
        (\<exists>c. layout ?t (se_root_node se) = Some c \<and> ce_kind c = KTabs \<and> ce_parent c = None \<and> ce_session c = sid) \<and>
        (\<forall>fid \<in> set (se_floating se). \<exists>f. bt_get (floating ?t) fid = Some f \<and> fw_session_id f = sid)"
      using sessions_okD [OF goodD(6) [OF assms(1)] se] by simp
  qed
  moreover have "floating_ok ?t"
  proof -
    have "\<exists>c. layout ?t (fw_root_node g) = Some c \<and> ce_parent c = None \<and> ce_session c = fw_session_id g"
      if "bt_get (floating s) fid = Some g" for fid g
      using floating_okD(2) [OF goodD(7) [OF assms(1)] that] cell' by metis
    then show ?thesis using goodD(7) [OF assms(1)] by (simp add: floating_ok_def)
  qed
  moreover have "tabs_ok ?t" using goodD(8) [OF assms(1)] assms(4) by (auto simp: tabs_ok_def)
  moreover have memo: "memo md = Some l \<Longrightarrow> (l \<in> dom (layout s) \<longrightarrow> is_view s l) \<and> l < node_ids s"
    if "bt_get (nodes ?t) m = Some md" for m md l
  proof -
    assume l: "memo md = Some l"
    have old: "(l \<in> dom (layout s) \<longrightarrow> is_view s l) \<and> l < node_ids s" if "bt_get (nodes s) m = Some xd" "memo xd = Some l" for m xd
      using that lfd_okD(1) [OF goodD(9) [OF assms(1)]] idsD(2) [OF goodD(13) [OF assms(1)]] by blast
    show ?thesis
    proof (cases "m = n")
      case True
      then have "md = nd'" using that by simp
      with assms(5) l old [OF assms(2)] show ?thesis
        using idsD(1) [OF goodD(13) [OF assms(1)]] by (auto simp: is_view_def)
    next
      case False
      then show ?thesis using that old l by simp
    qed
  qed
  then have "lfd_ok ?t"
    unfolding lfd_ok_def dom view using goodD(9) [OF assms(1)] by (simp add: lfd_ok_def)
  moreover have "ids_ok ?t"
    using goodD(13) [OF assms(1)] memo assms(2) unfolding ids_ok_def by (auto split: if_splits)
  moreover have "ff_ok ?t" using goodD(10) [OF assms(1)] by (simp add: ff_ok_def)
  ultimately show ?thesis using f by (simp add: good_def inv_def structure_ok_def)
qed

section \<open>The focus methods\<close>

lemma alike_refl: "good s \<Longrightarrow> bt_get (nodes s) n = Some nd \<Longrightarrow> cell_of nd' = cell_of nd \<Longrightarrow> same_kind nd nd' \<Longrightarrow> alike nd nd'"
  using forest_distinct [OF goodD(3), of s n "cell_of nd"]
  by (auto simp: alike_def layout_def cell_of_def)

lemma good_clear [frame]: "preserves good (clear_session_focus sid)"
  unfolding preserves_def
proof (intro allI impI)
  fix s
  assume g: "good s"
  show "good (snd (clear_session_focus sid s))"
  proof (cases "has_session sid s")
    case True
    obtain t where t: "clear_session_focus sid s = (Ok (), t)" "quiet t = quiet s" "inv t"
      and cleared: "\<exists>se. bt_get (sessions t) sid = Some se \<and> se_focused_floating se = None"
      using clear_session_focus_inv [OF goodD(1) [OF g] True] by blast
    have c: "calm t = calm s" by (rule keepsD [OF calm_clear t(1)])
    note ids = idsD [OF goodD(13) [OF g]]
    have counters: "node_ids t = node_ids s" "buffer_ids t = buffer_ids s" "session_ids t = session_ids s"
      "floating_ids t = floating_ids s"
      using arg_cong [OF t(2), of node_ids] arg_cong [OF t(2), of buffer_ids]
        arg_cong [OF t(2), of session_ids] arg_cong [OF t(2), of floating_ids] by (simp_all add: quiet_def)
    have "memo nd = Some l \<Longrightarrow> l < node_ids s" if "bt_get (nodes t) n = Some nd" for n nd l
      using calm_node_at [OF c that] ids(2) by (metis calm_node_simps(3))
    moreover have "fw_last_focused_leaf f = Some l \<Longrightarrow> l < node_ids s" if "bt_get (floating t) fid = Some f" for fid f l
      using calm_eqD(2) [OF c, of fid] that ids(3) by (cases "bt_get (floating s) fid") auto
    moreover have "n < node_ids s" if "bt_get (nodes t) n = Some nd" for n nd
      using calm_node_at [OF c that] ids(1) by blast
    moreover have "bid < buffer_ids s" if "bt_get (buffers t) bid = Some b" for bid b
      using quiet_buffer_D [OF t(2) that] ids(4) by blast
    moreover have "a < session_ids s" if "bt_get (sessions t) a = Some se" for a se
      using quiet_session_D [OF t(2) that] ids(5) by blast
    moreover have "fid < floating_ids s" if "bt_get (floating t) fid = Some f" for fid f
      using quiet_floating_D [OF t(2) that] ids(6) by blast
    moreover have "fid < floating_ids s" if h: "bt_get (sessions t) a = Some se" "se_focused_floating se = Some fid" for a se fid
    proof -
      have n: "a \<noteq> sid" using h cleared by auto
      then show ?thesis using keepsD [OF other_session_clear(1) [OF n] t(1)] h ids(7) by metis
    qed
    ultimately have "ids_ok t" unfolding ids_ok_def counters by blast
    then show ?thesis using quiet_good [OF t(2) g t(3)] t(1) by simp
  next
    case False
    then have "clear_session_focus sid s = (Err (NotFound (UnknownSession sid)), s)"
      by (auto simp: clear_session_focus_def bind_run step_run resume_run state_session_def has_session_def
          split: option.splits)
    then show ?thesis using g by simp
  qed
qed

lemma good_heal [frame]:
  "preserves good (heal_focus sid)" "preserves good (focus_candidate_or_heal sid n)"
  "preserves good (focus_floating fid)" "preserves good (show_node sid n)" "preserves good (focus_last_pane sid)"
  unfolding heal_focus_def heal_focus_root_def heal_focus_floating_def focus_candidate_or_heal_def
    focus_floating_def show_node_def focus_last_pane_def
  by (intro frame)+

lemma resume_snd: "P t \<Longrightarrow> (\<And>x. P (snd (f x t))) \<Longrightarrow> P (snd (resume (r, t) f))"
  by (cases r) (simp_all add: resume_run)

lemma preserves_resume: "P t \<Longrightarrow> (\<And>x. preserves P (f x)) \<Longrightarrow> P (snd (resume (r, t) f))"
  by (rule resume_snd) (simp_all add: preserves_def)

text \<open>A method that reads a node and goes on with it: one obligation per node of the state.\<close>

lemma preserves_state_node:
  assumes "\<And>s nd. P s \<Longrightarrow> bt_get (nodes s) n = Some nd \<Longrightarrow> P (snd (f nd s))"
  shows "preserves P (pbind (reads (\<lambda>s. state_node s n)) f)"
  unfolding preserves_def
proof (intro allI impI)
  fix s
  assume "P s"
  then show "P (snd (pbind (reads (\<lambda>s. state_node s n)) f s))"
    using assms [of s] by (cases "bt_get (nodes s) n") (simp_all add: bind_run step_run state_node_def resume_run)
qed

lemma good_switch_tab [frame]: "preserves good (switch_tab n i)"
  unfolding switch_tab_def
proof (rule preserves_pbind, rule preserves_base(5), rule preserves_state_node)
  fix sid s nd
  assume g: "good s" and nd: "bt_get (nodes s) n = Some nd"
  let ?rest = "\<lambda>tb. pbind (reads (\<lambda>s. is_node_visible_in_session s sid n)) (\<lambda>v.
      if v then focus_candidate_or_heal sid (te_child (tb_tabs tb ! i)) else ret ())"
  let ?m = "case nd of
      BufferView v \<Rightarrow> raise (InvalidInput NotTabsContainer)
    | Split sp \<Rightarrow> raise (InvalidInput NotTabsContainer)
    | Tabs tb \<Rightarrow>
        if length (tb_tabs tb) \<le> i then raise (NotFound (TabIndexOutOfRange i n))
        else pbind (put_node n (Tabs (tb\<lparr>tb_active := i\<rparr>))) (\<lambda>_. ?rest tb)"
  show "good (snd (?m s))"
  proof (cases nd)
    case (Tabs tb)
    show ?thesis
    proof (cases "i < length (tb_tabs tb)")
      case True
      let ?t = "s\<lparr>nodes := bt_insert n (Tabs (tb\<lparr>tb_active := i\<rparr>)) (nodes s)\<rparr>"
      have "good ?t"
        by (rule good_node_insert [OF g nd])
          (use Tabs True alike_refl [OF g nd, of "Tabs (tb\<lparr>tb_active := i\<rparr>)"] in \<open>auto simp: cell_of_def\<close>)
      moreover have "preserves good (?rest tb)" by (intro frame)
      ultimately have "good (snd (?rest tb ?t))" by (rule preserves_at [rotated])
      then show ?thesis using Tabs True by (simp add: bind_run put_node_run resume_run)
    qed (use g Tabs in \<open>simp add: step_run\<close>)
  qed (use g in \<open>simp_all add: step_run\<close>)
qed

lemma good_select_root_tab [frame]: "preserves good (select_root_tab sid i)"
  unfolding select_root_tab_def by (intro frame)

lemma good_select_ancestors:
  "preserves (\<lambda>s. good s \<and> is_view s leaf) (select_ancestors_from k leaf window child)"
proof (induction k arbitrary: child)
  case (Suc k)
  have step: "preserves (\<lambda>s. good s \<and> is_view s leaf) (node_mut n (focus_through leaf child))" for n child
    unfolding preserves_def
  proof (intro allI impI)
    fix s
    assume g: "good s \<and> is_view s leaf"
    show "good (snd (node_mut n (focus_through leaf child) s)) \<and> is_view (snd (node_mut n (focus_through leaf child) s)) leaf"
    proof (cases "bt_get (nodes s) n")
      case (Some nd)
      let ?t = "s\<lparr>nodes := bt_insert n (focus_through leaf child nd) (nodes s)\<rparr>"
      have cell: "cell_of (focus_through leaf child nd) = cell_of nd" by (rule focus_through_ok(2))
      have kind: "same_kind nd (focus_through leaf child nd)" by (cases nd) simp_all
      have act: "active_ok nd" using goodD(8) g Some by (auto simp: tabs_ok_def)
      have "good ?t"
        by (rule good_node_insert [OF conjunct1 [OF g] Some])
          (use alike_refl [OF conjunct1 [OF g] Some cell kind] focus_through_ok(1) [OF act]
            focus_through_ok(3) [of leaf child nd] g in auto)
      moreover have "is_view ?t leaf"
        using is_view_cong [OF layout_insert_same [OF Some cell]] g by blast
      ultimately show ?thesis using Some by (simp add: node_mut_run)
    qed (use g in \<open>simp add: node_mut_run\<close>)
  qed
  show ?case unfolding select_ancestors_from.simps by (intro frame step Suc.IH)
qed (simp add: preserves_def diverge_def)

lemma good_select_pane [frame]: "preserves good (select_pane sid leaf)"
  unfolding preserves_def
proof (intro allI impI)
  fix s
  assume g: "good s"
  show "good (snd (select_pane sid leaf s))"
  proof (cases "is_view s leaf")
    case True
    have focus: "preserves (\<lambda>s. good s \<and> is_view s leaf) (focus_leaf sid leaf)"
      unfolding preserves_def
    proof (intro allI impI)
      fix s
      assume h: "good s \<and> is_view s leaf"
      have "layout (snd (focus_leaf sid leaf s)) = layout s"
        by (rule quiet_eqD(1)) (rule keeps_at [OF quiet_focus_leaf])
      then show "good (snd (focus_leaf sid leaf s)) \<and> is_view (snd (focus_leaf sid leaf s)) leaf"
        using preserves_at [OF good_focus_leaf] h is_view_cong by blast
    qed
    have "preserves (\<lambda>s. good s \<and> is_view s leaf) (select_pane sid leaf)"
      unfolding select_pane_def by (intro frame focus good_select_ancestors)
    then show ?thesis using g True by (simp add: preserves_def)
  next
    case False
    have "\<not> (\<exists>u. ensure_leaf_belongs_to s leaf sid = Ok u)"
      using False by (cases "bt_get (nodes s) leaf"; cases "the (bt_get (nodes s) leaf)")
        (auto simp: ensure_leaf_belongs_to_def ensure_node_belongs_to_def ensure_leaf_def state_node_def
          is_view_def split: if_splits)
    then have "snd (select_pane sid leaf s) = s"
      by (cases "ensure_leaf_belongs_to s leaf sid")
        (auto simp: select_pane_def bind_run step_run resume_run cong: run_congs)
    then show ?thesis using g by simp
  qed
qed

lemma good_zoom [frame]:
  "preserves good (zoom_node n)" "preserves good (unzoom_session sid)" "preserves good (toggle_zoom_node n)"
  "preserves good (normalize_zoomed_node sid)"
  unfolding zoom_node_def zoom_visible_def refocus_zoomed_subtree_def unzoom_session_def toggle_zoom_node_def
    normalize_zoomed_node_def
  by (intro frame good_session_mut; simp)+

end
