(* ===== verification/Server_Edits.thy ===== *)
theory Server_Edits
  imports Server_Good
begin

text \<open>
  How the invariant carries over when the links of the layout change: one lemma for an edited state,
  and the edits of the methods that link, unlink, wrap, collapse and remove nodes.
\<close>

section \<open>An edited state\<close>

lemma owner_root_cong:
  "sessions t = sessions s \<Longrightarrow> floating t = floating s \<Longrightarrow> owner_root t r \<longleftrightarrow> owner_root s r"
  by (simp add: owner_root_def)

lemma owner_rootI:
  "bt_get (sessions s) sid = Some se \<Longrightarrow> owner_root s (se_root_node se)"
  "bt_get (floating s) fid = Some f \<Longrightarrow> owner_root s (fw_root_node f)"
  by (auto simp: owner_root_def)

text \<open>What an edit does to a node that was there, or to a new container.\<close>

definition edited :: "server_state \<Rightarrow> node_id \<Rightarrow> node \<Rightarrow> bool" where
  "edited s m md' \<longleftrightarrow>
     (case bt_get (nodes s) m of
        Some md \<Rightarrow> same_kind md md' \<and> node_session md' = node_session md \<and>
          (memo md' = memo md \<or> memo md' = None \<or> (\<exists>l. memo md' = Some l \<and> is_view s l))
      | None \<Rightarrow> node_ids s \<le> m \<and> \<not> is_buffer_view md' \<and>
          (memo md' = None \<or> (\<exists>l. memo md' = Some l \<and> is_view s l))) \<and>
     active_ok md' \<and> (is_tabs md' \<longrightarrow> node_par md' \<noteq> None \<longrightarrow> child_ids md' \<noteq> [])"

lemma edited_same:
  assumes "good s" and "bt_get (nodes s) m = Some md"
  shows "edited s m md"
proof -
  have "active_ok md" using goodD(8) [OF assms(1)] assms(2) by (auto simp: tabs_ok_def)
  moreover have "layout s m = Some (cell_of md)" using assms(2) by (simp add: layout_def)
  then have "child_ids md \<noteq> []" if "is_tabs md" "node_par md \<noteq> None"
    using goodD(12) [OF assms(1), unfolded no_hollow_def, rule_format, of m "cell_of md"] that
    by (auto simp: is_tabs_iff)
  moreover have "same_kind md md" by (cases md) simp_all
  ultimately show ?thesis using assms(2) by (simp add: edited_def)
qed

lemma good_edit:
  assumes g: "good s" and f: "forest (layout t)"
    and b: "buffers t = buffers s" and se: "sessions t = sessions s"
    and c: "node_ids s \<le> node_ids t" "buffer_ids t = buffer_ids s" "session_ids t = session_ids s"
      "floating_ids t = floating_ids s"
    and nodes: "\<And>m md'. bt_get (nodes t) m = Some md' \<Longrightarrow> edited s m md' \<and> m < node_ids t"
    and kept: "\<And>m. is_view s m \<Longrightarrow> bt_get (nodes t) m \<noteq> None"
    and roots: "\<And>sid se. bt_get (sessions s) sid = Some se \<Longrightarrow> parentless (layout t) (se_root_node se)"
    and fl: "\<And>fid f'. bt_get (floating t) fid = Some f' \<Longrightarrow> \<exists>f. bt_get (floating s) fid = Some f \<and>
      fw_session_id f' = fw_session_id f \<and> fw_last_focused_leaf f' = fw_last_focused_leaf f"
    and fl': "\<And>fid f. bt_get (floating s) fid = Some f \<Longrightarrow> bt_get (floating t) fid \<noteq> None"
    and fok: "floating_ok t"
  shows "good t"
proof -
  note ids = idsD [OF goodD(13) [OF g]]
  have new: "bt_get (nodes s) m \<noteq> None \<or> node_ids s \<le> m" if "bt_get (nodes t) m = Some md'" for m md'
    using nodes [OF that] by (auto simp: edited_def split: option.splits)
  have view_back: "is_view s m" and view_buf: "\<exists>w. bt_get (nodes s) m = Some (BufferView w) \<and> bv_buffer_id w = bv_buffer_id v"
    if "bt_get (nodes t) m = Some (BufferView v)" for m v
  proof -
    from nodes [OF that] obtain md where md: "bt_get (nodes s) m = Some md" "same_kind md (BufferView v)"
      by (auto simp: edited_def split: option.splits)
    then show "\<exists>w. bt_get (nodes s) m = Some (BufferView w) \<and> bv_buffer_id w = bv_buffer_id v"
      by (cases md) auto
    then show "is_view s m" by (auto simp: is_view_def)
  qed
  have view_fwd: "\<exists>v'. bt_get (nodes t) m = Some (BufferView v') \<and> bv_buffer_id v' = bv_buffer_id v"
    if v: "bt_get (nodes s) m = Some (BufferView v)" for m v
  proof -
    have "is_view s m" using v by (auto simp: is_view_def)
    then obtain md' where md': "bt_get (nodes t) m = Some md'" using kept by blast
    then have "same_kind (BufferView v) md'" using nodes v by (fastforce simp: edited_def)
    then show ?thesis using md' by (cases md') auto
  qed
  have view: "is_view t m \<longleftrightarrow> is_view s m" for m
    using view_back view_fwd unfolding is_view_def by blast
  have dom_view: "is_view t l" if l: "l \<in> dom (layout t)" "l \<in> dom (layout s) \<longrightarrow> is_view s l" "l < node_ids s" for l
  proof -
    obtain md' where md': "bt_get (nodes t) l = Some md'" using l(1) by (auto simp: dom_layout)
    then have "l \<in> dom (layout s)" using new [OF md'] l(3) by (auto simp: dom_layout)
    then show ?thesis using l(2) view by blast
  qed
  have remembered: "(l \<in> dom (layout t) \<longrightarrow> is_view t l) \<and> l < node_ids t"
    if md': "bt_get (nodes t) m = Some md'" "memo md' = Some l" for m md' l
  proof -
    have "(\<exists>md. bt_get (nodes s) m = Some md \<and> memo md = Some l) \<or> is_view s l"
      using nodes [OF md'(1)] md'(2) by (auto simp: edited_def split: option.splits)
    moreover have "l < node_ids s" if "is_view s l" using that ids(1) by (auto simp: is_view_def)
    ultimately have "(l \<in> dom (layout s) \<longrightarrow> is_view s l) \<and> l < node_ids s"
      using lfd_okD(1) [OF goodD(9) [OF g]] ids(2) by blast
    then show ?thesis using dom_view c(1) by auto
  qed
  have remembered': "(l \<in> dom (layout t) \<longrightarrow> is_view t l) \<and> l < node_ids t"
    if f': "bt_get (floating t) fid = Some f'" "fw_last_focused_leaf f' = Some l" for fid f' l
  proof -
    obtain f where "bt_get (floating s) fid = Some f" "fw_last_focused_leaf f = Some l"
      using fl [OF f'(1)] f'(2) by auto
    then have "(l \<in> dom (layout s) \<longrightarrow> is_view s l) \<and> l < node_ids s"
      using lfd_okD(2) [OF goodD(9) [OF g]] ids(3) by blast
    then show ?thesis using dom_view c(1) by auto
  qed
  have "attach_ok t"
    using goodD(4) [OF g] view_fwd unfolding attach_ok_def b by metis
  moreover have "shown_buffers_ok t"
    using goodD(11) [OF g] view_buf unfolding shown_buffers_ok_def b by metis
  then have "views_ok t" "shown_buffers_ok t"
    unfolding shown_buffers_layout views_ok_def by blast+
  moreover have "sessions_ok t"
    unfolding sessions_ok_def se
  proof (intro allI impI)
    fix sid x
    assume x: "bt_get (sessions s) sid = Some x"
    obtain c0 where c0: "layout s (se_root_node x) = Some c0" "ce_kind c0 = KTabs" "ce_session c0 = sid"
      using sessions_okD(3) [OF goodD(6) [OF g] x] by blast
    obtain md where md: "bt_get (nodes s) (se_root_node x) = Some md" "c0 = cell_of md"
      using c0(1) by (auto simp: layout_Some)
    obtain md' where md': "bt_get (nodes t) (se_root_node x) = Some md'" "node_par md' = None"
      using roots [OF x] by (auto simp: parentless_def layout_Some)
    have "same_kind md md'" "node_session md' = node_session md"
      using nodes [OF md'(1)] md(1) by (auto simp: edited_def)
    then have "\<exists>c. layout t (se_root_node x) = Some c \<and> ce_kind c = KTabs \<and> ce_parent c = None \<and> ce_session c = sid"
      using md' c0 md same_kind_iff(2) by (simp add: layout_def)
    moreover have "\<exists>f. bt_get (floating t) fid = Some f \<and> fw_session_id f = sid" if fid: "fid \<in> set (se_floating x)" for fid
    proof -
      obtain f where "bt_get (floating s) fid = Some f" "fw_session_id f = sid"
        using sessions_okD(4) [OF goodD(6) [OF g] x fid] by blast
      then show ?thesis using fl' [of fid f] fl [of fid] by fastforce
    qed
    ultimately show "se_id x = sid \<and> distinct (se_floating x) \<and>
        (\<exists>c. layout t (se_root_node x) = Some c \<and> ce_kind c = KTabs \<and> ce_parent c = None \<and> ce_session c = sid) \<and>
        (\<forall>fid \<in> set (se_floating x). \<exists>f. bt_get (floating t) fid = Some f \<and> fw_session_id f = sid)"
      using sessions_okD(1,2) [OF goodD(6) [OF g] x] by blast
  qed
  moreover have "tabs_ok t" using nodes unfolding tabs_ok_def edited_def by blast
  moreover have "lfd_ok t" unfolding lfd_ok_def using remembered remembered' by blast
  moreover have "ff_ok t"
    using goodD(10) [OF g] fl unfolding ff_ok_def se by metis
  moreover have "no_hollow t"
    unfolding no_hollow_def layout_Some
  proof (intro allI impI, elim exE conjE)
    fix n c' md'
    assume h: "ce_kind c' = KTabs" "ce_parent c' \<noteq> None" "bt_get (nodes t) n = Some md'" "c' = cell_of md'"
    then have "is_tabs md' \<longrightarrow> node_par md' \<noteq> None \<longrightarrow> child_ids md' \<noteq> []"
      using nodes by (simp add: edited_def)
    then show "ce_kids c' \<noteq> []" using h by (auto simp: kind_of_tabs)
  qed
  moreover have "ids_ok t"
  proof (rule ids_okI)
    show "fid < floating_ids t" if "bt_get (floating t) fid = Some f" for fid f
      using fl [OF that] ids(6) c(4) by auto
  qed (use nodes remembered remembered' ids(4,5,7) b se c(2-4) in auto)
  ultimately show ?thesis using f fok by (simp add: good_def inv_def structure_ok_def)
qed

text \<open>The floating windows stay, and so do their roots.\<close>

lemma floating_ok_kept:
  assumes "floating_ok s" and "floating t = floating s" and "sessions t = sessions s"
    and "\<And>fid f. bt_get (floating s) fid = Some f \<Longrightarrow> \<exists>c. layout t (fw_root_node f) = Some c \<and>
      ce_parent c = None \<and> ce_session c = fw_session_id f"
  shows "floating_ok t"
  using assms(1,4) unfolding floating_ok_def assms(2,3) by blast

lemma good_edit_links:
  assumes g: "good s" and f: "forest (layout t)"
    and b: "buffers t = buffers s" "sessions t = sessions s" "floating t = floating s"
    and c: "node_ids s \<le> node_ids t" "buffer_ids t = buffer_ids s" "session_ids t = session_ids s"
      "floating_ids t = floating_ids s"
    and nodes: "\<And>m md'. bt_get (nodes t) m = Some md' \<Longrightarrow> edited s m md' \<and> m < node_ids t"
    and kept: "\<And>m. is_view s m \<Longrightarrow> bt_get (nodes t) m \<noteq> None"
    and roots: "\<And>r. owner_root s r \<Longrightarrow> parentless (layout t) r"
  shows "good t"
proof (rule good_edit [OF g f b(1,2) c nodes kept])
  show "parentless (layout t) (se_root_node se)" if "bt_get (sessions s) sid = Some se" for sid se
    by (rule roots [OF owner_rootI(1) [OF that]])
  show "floating_ok t"
  proof (rule floating_ok_kept [OF goodD(7) [OF g] b(3,2)])
    fix fid fw
    assume fw: "bt_get (floating s) fid = Some fw"
    obtain c0 where c0: "layout s (fw_root_node fw) = Some c0" "ce_session c0 = fw_session_id fw"
      using floating_okD(2) [OF goodD(7) [OF g] fw] by blast
    obtain md where md: "bt_get (nodes s) (fw_root_node fw) = Some md" "c0 = cell_of md"
      using c0(1) by (auto simp: layout_Some)
    have "parentless (layout t) (fw_root_node fw)" by (rule roots [OF owner_rootI(2) [OF fw]])
    then obtain md' where md': "bt_get (nodes t) (fw_root_node fw) = Some md'" "node_par md' = None"
      by (auto simp: parentless_def layout_Some)
    then have "node_session md' = node_session md" using nodes md(1) by (fastforce simp: edited_def)
    then show "\<exists>c. layout t (fw_root_node fw) = Some c \<and> ce_parent c = None \<and> ce_session c = fw_session_id fw"
      using md' md c0 by (simp add: layout_def)
  qed
qed (use b in auto)

lemma owner_root_parentless:
  assumes "good s" and "owner_root s r"
  shows "parentless (layout s) r"
  using assms(2) sessions_okD(3) [OF goodD(6) [OF assms(1)]] floating_okD(2) [OF goodD(7) [OF assms(1)]]
  unfolding owner_root_def parentless_def by blast

section \<open>Removing a detached subtree\<close>

lemma owner_root_not_below:
  assumes "good s" and "owner_root s q" and "parentless (layout s) r" and "q \<in> below (layout s) r"
  shows "q = r"
  using root_unique [of q q "layout s" r] owner_root_parentless [OF assms(1,2)] assms(3,4)
  by (auto simp: below_def)

lemma good_prune:
  assumes g: "good s" and r: "parentless (layout s) r" and own: "\<not> owner_root s r"
  shows "good (prune (below (layout s) r) s)" (is "good (prune ?D s)")
proof -
  let ?t = "prune ?D s"
  note ids = idsD [OF goodD(13) [OF g]]
  have f: "forest (layout ?t)" by (rule forest_prune [OF goodD(3) [OF g] r]) simp
  have root: "q \<notin> ?D" if "owner_root s q" for q
    using owner_root_not_below [OF g that r] that own by blast
  have view: "is_view ?t m \<longleftrightarrow> is_view s m \<and> m \<notin> ?D" for m by (simp add: is_view_def)
  have dom: "m \<in> dom (layout ?t) \<longleftrightarrow> m \<in> dom (layout s) \<and> m \<notin> ?D" for m by (auto simp: domIff)
  have shown: "shown_buffers_ok ?t"
    unfolding shown_buffers_ok_def
  proof (intro allI impI)
    fix n v
    assume "bt_get (nodes ?t) n = Some (BufferView v)"
    then have n: "n \<notin> ?D" "bt_get (nodes s) n = Some (BufferView v)" by (auto split: if_splits)
    then obtain b where b: "bt_get (buffers s) (bv_buffer_id v) = Some b" "bu_attachment b = Attached n"
      using goodD(11) [OF g] unfolding shown_buffers_ok_def by blast
    then show "\<exists>b. bt_get (buffers ?t) (bv_buffer_id v) = Some b \<and> bu_attachment b = Attached n"
      using n(1) detach_from_Attached by simp
  qed
  have "views_ok ?t" using shown unfolding shown_buffers_layout views_ok_def by blast
  moreover have "sessions_ok ?t"
    unfolding sessions_ok_def
  proof (intro allI impI)
    fix sid se
    assume "bt_get (sessions ?t) sid = Some se"
    then have se: "bt_get (sessions s) sid = Some se" by simp
    show "se_id se = sid \<and> distinct (se_floating se) \<and>
        (\<exists>c. layout ?t (se_root_node se) = Some c \<and> ce_kind c = KTabs \<and> ce_parent c = None \<and> ce_session c = sid) \<and>
        (\<forall>fid \<in> set (se_floating se). \<exists>f. bt_get (floating ?t) fid = Some f \<and> fw_session_id f = sid)"
      using sessions_okD [OF goodD(6) [OF g] se] root [OF owner_rootI(1) [OF se]] by simp
  qed
  moreover have "floating_ok ?t"
    by (rule floating_ok_kept [OF goodD(7) [OF g]])
      (use floating_okD(2) [OF goodD(7) [OF g]] root owner_rootI(2) in auto)
  moreover have "tabs_ok ?t" using goodD(8) [OF g] by (auto simp: tabs_ok_def split: if_splits)
  moreover have "lfd_ok ?t"
    unfolding lfd_ok_def
  proof (intro conjI allI impI)
    fix n nd l
    assume "bt_get (nodes ?t) n = Some nd" "memo nd = Some l" "l \<in> dom (layout ?t)"
    then show "is_view ?t l" using lfd_okD(1) [OF goodD(9) [OF g], of n nd l] unfolding dom view by (auto split: if_splits)
  next
    fix fid fw l
    assume "bt_get (floating ?t) fid = Some fw" "fw_last_focused_leaf fw = Some l" "l \<in> dom (layout ?t)"
    then show "is_view ?t l" using lfd_okD(2) [OF goodD(9) [OF g], of fid fw l] unfolding dom view by simp
  qed
  moreover have "ff_ok ?t" using goodD(10) [OF g] by (simp add: ff_ok_def)
  moreover have "no_hollow ?t" using goodD(12) [OF g] by (simp add: no_hollow_def)
  moreover have "ids_ok ?t"
    by (rule ids_okI) (use ids in \<open>auto split: if_splits\<close>)
  ultimately show ?thesis
    using f shown attach_ok_prune [OF goodD(4) [OF g]] by (simp add: good_def inv_def structure_ok_def)
qed

section \<open>Unlinking and linking\<close>

lemma same_kind_set_parent [simp]: "same_kind nd (node_set_parent p nd)"
  by (cases nd) simp_all

lemma set_parent_simps [simp]:
  "memo (node_set_parent p nd) = memo nd" "active_ok (node_set_parent p nd) = active_ok nd"
  "cell_of (node_set_parent p nd) = (cell_of nd)\<lparr>ce_parent := p\<rparr>"
  by (cases nd; simp add: cell_of_def)+

text \<open>A container with one child less, or with one more.\<close>

definition rekids :: "node \<Rightarrow> node_id set \<Rightarrow> node \<Rightarrow> bool" where
  "rekids pd K pd' \<longleftrightarrow>
     same_kind pd pd' \<and> node_id_of pd' = node_id_of pd \<and> node_session pd' = node_session pd \<and>
     node_par pd' = node_par pd \<and> distinct (child_ids pd') \<and> set (child_ids pd') = K \<and>
     active_ok pd' \<and> (memo pd' = memo pd \<or> memo pd' = None) \<and>
     (is_tabs pd' \<longrightarrow> node_par pd' \<noteq> None \<longrightarrow> child_ids pd' \<noteq> [])"

lemma rekids_edited:
  assumes "bt_get (nodes s) p = Some pd" and "rekids pd K pd'"
  shows "edited s p pd'"
  using assms by (auto simp: rekids_def edited_def)

lemma rekids_par: "rekids pd K pd' \<Longrightarrow> node_par pd' = node_par pd"
  by (simp add: rekids_def)

lemma parentless_cell: "parentless (layout s) r \<longleftrightarrow> (\<exists>nd. bt_get (nodes s) r = Some nd \<and> node_par nd = None)"
  by (auto simp: parentless_def layout_Some)

lemma good_unlink:
  assumes g: "good s" and pd: "bt_get (nodes s) p = Some pd" and kd: "bt_get (nodes s) k = Some kd"
    and kid: "k \<in> set (child_ids pd)" and pd': "rekids pd (set (child_ids pd) - {k}) pd'"
    and t: "t = s\<lparr>nodes := bt_insert k (node_set_parent None kd) (bt_insert p pd' (nodes s))\<rparr>"
  shows "good t" and "parentless (layout t) k" and "\<not> owner_root t k"
    and "below (layout t) k = below (layout s) k"
proof -
  have Lp: "layout s p = Some (cell_of pd)" and Lk: "layout s k = Some (cell_of kd)"
    using pd kd by (simp_all add: layout_def)
  have up: "(k, p) \<in> up (layout s)" using forest_kid_up [OF goodD(3) [OF g] Lp] kid by simp
  have pk: "p \<noteq> k" using self_not_below_kid [OF goodD(3) [OF g] up] by auto
  have Lt: "layout t m = (if m = k then Some ((cell_of kd)\<lparr>ce_parent := None\<rparr>) else if m = p then Some (cell_of pd') else layout s m)" for m
    by (simp add: t layout_def)
  have N: "bt_get (nodes t) m = (if m = k then Some (node_set_parent None kd) else if m = p then Some pd' else bt_get (nodes s) m)" for m
    by (simp add: t)
  have f: "forest (layout t)"
    by (rule forest_unlink [OF goodD(3) [OF g] Lp _ Lk, where c' = "cell_of pd'"])
      (use kid pd' pk Lt forest_id [OF goodD(3) [OF g] Lp] in \<open>auto simp: rekids_def\<close>)
  have par: "node_par kd = Some p"
    using forest_kidD [OF goodD(3) [OF g] Lp, of k] kid Lk by auto
  have nroot: "r \<noteq> k" if "owner_root s r" for r
    using owner_root_parentless [OF g that] par kd by (auto simp: parentless_cell)
  have ek: "edited s k (node_set_parent None kd)"
    using edited_same [OF g kd] kd by (auto simp: edited_def)
  show "good t"
  proof (rule good_edit_links [OF g f])
    show "parentless (layout t) r" if r: "owner_root s r" for r
    proof -
      obtain rd where rd: "bt_get (nodes s) r = Some rd" "node_par rd = None"
        using owner_root_parentless [OF g r] by (auto simp: parentless_cell)
      show ?thesis
        using nroot [OF r] rd pd rekids_par [OF pd'] by (cases "r = p") (simp_all add: parentless_cell N)
    qed
    show "edited s m md' \<and> m < node_ids t" if h: "bt_get (nodes t) m = Some md'" for m md'
    proof -
      have ids: "node_ids t = node_ids s" by (simp add: t)
      have "m = k \<and> md' = node_set_parent None kd \<or> m = p \<and> md' = pd' \<or> bt_get (nodes s) m = Some md'"
        using h by (simp add: N split: if_splits)
      then show ?thesis
        using ek rekids_edited [OF pd pd'] edited_same [OF g] idsD(1) [OF goodD(13) [OF g]] kd pd
        unfolding ids by metis
    qed
  qed (auto simp: t is_view_def)
  show "parentless (layout t) k" by (simp add: parentless_cell N)
  have "owner_root t k \<longleftrightarrow> owner_root s k" by (rule owner_root_cong) (simp_all add: t)
  then show "\<not> owner_root t k" using nroot [of k] by blast
  show "below (layout t) k = below (layout s) k"
  proof -
    have "up (layout t) = up (layout s) - {(k, p)}"
      using par pk rekids_par [OF pd'] by (auto simp: up_def Lt Lk Lp split: if_splits)
    have "(m, k) \<in> (up (layout t))\<^sup>*" if "(m, k) \<in> (up (layout s))\<^sup>*" for m
      using that
    proof (induction rule: converse_rtrancl_induct)
      case (step y z)
      have "y \<noteq> k" using no_up_cycle [OF goodD(3) [OF g] step.hyps(1)] step.hyps(2) by blast
      then have "(y, z) \<in> up (layout t)" using step.hyps(1) \<open>up (layout t) = up (layout s) - {(k, p)}\<close> by auto
      then show ?case using step.IH by (rule converse_rtrancl_into_rtrancl)
    qed simp
    moreover have "(up (layout t))\<^sup>* \<subseteq> (up (layout s))\<^sup>*"
      by (rule rtrancl_mono) (use \<open>up (layout t) = up (layout s) - {(k, p)}\<close> in blast)
    ultimately show ?thesis by (auto simp: below_def)
  qed
qed

lemma good_link:
  assumes g: "good s" and pd: "bt_get (nodes s) p = Some pd" and kd: "bt_get (nodes s) k = Some kd"
    and root: "node_par kd = None" "\<not> owner_root s k" "p \<notin> below (layout s) k"
    and ses: "node_session kd = node_session pd"
    and hollow: "is_tabs kd \<Longrightarrow> child_ids kd \<noteq> []"
    and pd': "rekids pd (insert k (set (child_ids pd))) pd'"
    and t: "t = s\<lparr>nodes := bt_insert p pd' (bt_insert k (node_set_parent (Some p) kd) (nodes s))\<rparr>"
  shows "good t"
proof -
  have Lp: "layout s p = Some (cell_of pd)" and Lk: "layout s k = Some (cell_of kd)"
    using pd kd by (simp_all add: layout_def)
  have pk: "p \<noteq> k" using root(3) by auto
  have Lt: "layout t m = (if m = p then Some (cell_of pd') else if m = k then Some ((cell_of kd)\<lparr>ce_parent := Some p\<rparr>) else layout s m)" for m
    by (simp add: t layout_def)
  have N: "bt_get (nodes t) m = (if m = p then Some pd' else if m = k then Some (node_set_parent (Some p) kd) else bt_get (nodes s) m)" for m
    by (simp add: t)
  have f: "forest (layout t)"
    by (rule forest_link [OF goodD(3) [OF g] Lp Lk _ _ root(3), where c' = "cell_of pd'"])
      (use root ses pd' pk Lt forest_id [OF goodD(3) [OF g] Lp] in \<open>auto simp: rekids_def\<close>)
  have ek: "edited s k (node_set_parent (Some p) kd)"
    using edited_same [OF g kd] kd hollow by (auto simp: edited_def)
  show "good t"
  proof (rule good_edit_links [OF g f])
    show "parentless (layout t) r" if r: "owner_root s r" for r
    proof -
      obtain rd where rd: "bt_get (nodes s) r = Some rd" "node_par rd = None"
        using owner_root_parentless [OF g r] by (auto simp: parentless_cell)
      have "r \<noteq> k" using r root(2) by auto
      then show ?thesis
        using rd pd rekids_par [OF pd'] by (cases "r = p") (simp_all add: parentless_cell N)
    qed
    show "edited s m md' \<and> m < node_ids t" if h: "bt_get (nodes t) m = Some md'" for m md'
    proof -
      have ids: "node_ids t = node_ids s" by (simp add: t)
      have "m = k \<and> md' = node_set_parent (Some p) kd \<or> m = p \<and> md' = pd' \<or> bt_get (nodes s) m = Some md'"
        using h by (simp add: N split: if_splits)
      then show ?thesis
        using ek rekids_edited [OF pd pd'] edited_same [OF g] idsD(1) [OF goodD(13) [OF g]] kd pd
        unfolding ids by metis
    qed
  qed (auto simp: t is_view_def)
qed

section \<open>Collapsing\<close>

lemma good_collapse:
  assumes g: "good s" and nd: "bt_get (nodes s) n = Some nd" "child_ids nd = [k]" "node_par nd = Some p"
    and kd: "bt_get (nodes s) k = Some kd" and pd: "bt_get (nodes s) p = Some pd"
    and pd': "edited s p pd'" "node_id_of pd' = node_id_of pd" "node_session pd' = node_session pd"
      "node_par pd' = node_par pd" "distinct (child_ids pd')"
      "set (child_ids pd') = insert k (set (child_ids pd) - {n})"
    and N: "\<And>m. bt_get (nodes t) m = (if m = n then None else if m = p then Some pd'
      else if m = k then Some (node_set_parent (Some p) kd) else bt_get (nodes s) m)"
    and rest: "buffers t = buffers s" "sessions t = sessions s" "floating t = floating s"
      "node_ids t = node_ids s" "buffer_ids t = buffer_ids s" "session_ids t = session_ids s"
      "floating_ids t = floating_ids s"
  shows "good t"
proof -
  have Ln: "layout s n = Some (cell_of nd)" and Lk: "layout s k = Some (cell_of kd)" and Lp: "layout s p = Some (cell_of pd)"
    using nd kd pd by (simp_all add: layout_def)
  note fs = goodD(3) [OF g]
  have kn: "(k, n) \<in> up (layout s)" using forest_kid_up [OF fs Ln, of k] nd(2) by simp
  have np: "(n, p) \<in> up (layout s)" by (rule upI [where L = "layout s", OF Ln]) (simp add: nd(3))
  have nep: "n \<noteq> p" "k \<noteq> n" "k \<noteq> p"
    using no_up_cycle [OF fs np] no_up_cycle [OF fs kn] kn np by auto
  have kpar: "node_par kd = Some n" using forest_kidD [OF fs Ln, of k] nd(2) Lk by simp
  have np_kid: "n \<in> set (child_ids pd)" using forest_parentD [OF fs Ln] nd(3) Lp by auto
  have Lt: "layout t m = (if m = n then None else if m = p then Some (cell_of pd')
      else if m = k then Some ((cell_of kd)\<lparr>ce_parent := Some p\<rparr>) else layout s m)" for m
    by (simp add: layout_def N)
  have only_p: "m = p" if "layout s m = Some x" "n \<in> set (ce_kids x)" for m x
    using forest_kid_unique [OF fs that(1) Lp that(2)] np_kid by simp
  have f: "forest (layout t)"
  proof (rule forest_collapse [OF fs Ln _ Lk])
    show "\<exists>x'. layout t m = Some x' \<and> ce_id x' = m \<and> ce_session x' = ce_session x \<and> ce_parent x' = ce_parent x \<and>
        distinct (ce_kids x') \<and>
        set (ce_kids x') = (if n \<in> set (ce_kids x) then insert k (set (ce_kids x) - {n}) else set (ce_kids x))"
      if x: "layout s m = Some x" "m \<noteq> k" "m \<noteq> n" for m x
    proof (cases "m = p")
      case True
      then have "x = cell_of pd" using x(1) Lp by simp
      then show ?thesis using True pd' np_kid nep forest_id [OF fs Lp] by (simp add: Lt)
    next
      case False
      then have "n \<notin> set (ce_kids x)" using only_p x(1) by blast
      then show ?thesis using x False forest_id [OF fs x(1)] forest_distinct [OF fs x(1)] by (simp add: Lt)
    qed
    show "m \<in> dom (layout s)" if "layout t m = Some x'" for m x'
      using that Lp Lk by (auto simp: Lt domIff split: if_splits)
  qed (use nd nep in \<open>simp_all add: Lt\<close>)
  have ek: "edited s k (node_set_parent (Some p) kd)"
    using edited_same [OF g kd] kd kpar by (auto simp: edited_def)
  have nroot: "r \<noteq> n" "r \<noteq> k" if "owner_root s r" for r
    using owner_root_parentless [OF g that] nd(1,3) kd kpar by (auto simp: parentless_cell)
  show ?thesis
  proof (rule good_edit_links [OF g f])
    show "parentless (layout t) r" if r: "owner_root s r" for r
    proof -
      obtain rd where rd: "bt_get (nodes s) r = Some rd" "node_par rd = None"
        using owner_root_parentless [OF g r] by (auto simp: parentless_cell)
      show ?thesis
        using nroot [OF r] rd pd pd'(4) by (cases "r = p") (simp_all add: parentless_cell N)
    qed
    show "edited s m md' \<and> m < node_ids t" if h: "bt_get (nodes t) m = Some md'" for m md'
    proof -
      have "m = k \<and> md' = node_set_parent (Some p) kd \<or> m = p \<and> md' = pd' \<or> bt_get (nodes s) m = Some md'"
        using h by (simp add: N split: if_splits)
      then show ?thesis
        using ek pd'(1) edited_same [OF g] idsD(1) [OF goodD(13) [OF g]] kd pd unfolding rest by metis
    qed
    show "bt_get (nodes t) m \<noteq> None" if "is_view s m" for m
      using that nd(1,2) by (cases "m = n") (auto simp: N is_view_def)
  qed (simp_all add: rest)
qed

lemma good_collapse_floating:
  assumes g: "good s" and nd: "bt_get (nodes s) n = Some nd" "child_ids nd = [k]" "node_par nd = None"
    and kd: "bt_get (nodes s) k = Some kd" and fw: "bt_get (floating s) fid = Some fw" "fw_root_node fw = n"
    and N: "\<And>m. bt_get (nodes t) m = (if m = n then None
      else if m = k then Some (node_set_parent None kd) else bt_get (nodes s) m)"
    and F: "floating t = bt_insert fid (fw\<lparr>fw_root_node := k\<rparr>) (floating s)"
    and rest: "buffers t = buffers s" "sessions t = sessions s"
      "node_ids t = node_ids s" "buffer_ids t = buffer_ids s" "session_ids t = session_ids s"
      "floating_ids t = floating_ids s"
  shows "good t"
proof -
  have Ln: "layout s n = Some (cell_of nd)" and Lk: "layout s k = Some (cell_of kd)"
    using nd kd by (simp_all add: layout_def)
  note fs = goodD(3) [OF g] and fok = goodD(7) [OF g]
  have kn: "(k, n) \<in> up (layout s)" using forest_kid_up [OF fs Ln, of k] nd(2) by simp
  have nek: "k \<noteq> n" using no_up_cycle [OF fs kn] by auto
  have kpar: "node_par kd = Some n" "node_session kd = node_session nd"
    using forest_kidD [OF fs Ln, of k] nd(2) Lk by simp_all
  have Lt: "layout t m = (if m = n then None
      else if m = k then Some ((cell_of kd)\<lparr>ce_parent := None\<rparr>) else layout s m)" for m
    by (simp add: layout_def N)
  have no_n: "n \<notin> set (ce_kids x)" if "layout s m = Some x" for m x
    using forest_kidD [OF fs that, of n] Ln nd(3) by auto
  have f: "forest (layout t)"
  proof (rule forest_collapse [OF fs Ln _ Lk])
    show "\<exists>x'. layout t m = Some x' \<and> ce_id x' = m \<and> ce_session x' = ce_session x \<and> ce_parent x' = ce_parent x \<and>
        distinct (ce_kids x') \<and>
        set (ce_kids x') = (if n \<in> set (ce_kids x) then insert k (set (ce_kids x) - {n}) else set (ce_kids x))"
      if x: "layout s m = Some x" "m \<noteq> k" "m \<noteq> n" for m x
      using x no_n [OF x(1)] forest_id [OF fs x(1)] forest_distinct [OF fs x(1)] by (simp add: Lt)
    show "m \<in> dom (layout s)" if "layout t m = Some x'" for m x'
      using that Lk by (auto simp: Lt domIff split: if_splits)
  qed (use nd nek in \<open>simp_all add: Lt\<close>)
  have ek: "edited s k (node_set_parent None kd)"
    using edited_same [OF g kd] kd by (auto simp: edited_def)
  have rootk: "r \<noteq> k" if "owner_root s r" for r
    using owner_root_parentless [OF g that] kd kpar by (auto simp: parentless_cell)
  obtain se where se: "bt_get (sessions s) (fw_session_id fw) = Some se" "se_root_node se \<noteq> n"
    "fid \<in> set (se_floating se)"
    using floating_okD(3) [OF fok fw(1)] fw(2) by blast
  have ses_n: "node_session nd = fw_session_id fw"
    using floating_okD(2) [OF fok fw(1)] fw(2) Ln by simp
  have rootn: "se_root_node x \<noteq> n" if x: "bt_get (sessions s) sid = Some x" for sid x
  proof
    assume n: "se_root_node x = n"
    have "node_session nd = sid" using sessions_okD(3) [OF goodD(6) [OF g] x] n Ln by auto
    then show False using x se ses_n n by auto
  qed
  show ?thesis
  proof (rule good_edit [OF g f])
    show "parentless (layout t) (se_root_node x)" if x: "bt_get (sessions s) sid = Some x" for sid x
    proof -
      obtain rd where "bt_get (nodes s) (se_root_node x) = Some rd" "node_par rd = None"
        using owner_root_parentless [OF g owner_rootI(1) [OF x]] by (auto simp: parentless_cell)
      then show ?thesis
        using rootn [OF x] rootk [OF owner_rootI(1) [OF x]] by (simp add: parentless_cell N)
    qed
    show "edited s m md' \<and> m < node_ids t" if h: "bt_get (nodes t) m = Some md'" for m md'
    proof -
      have "m = k \<and> md' = node_set_parent None kd \<or> bt_get (nodes s) m = Some md'"
        using h by (simp add: N split: if_splits)
      then show ?thesis
        using ek edited_same [OF g] idsD(1) [OF goodD(13) [OF g]] kd unfolding rest by metis
    qed
    show "bt_get (nodes t) m \<noteq> None" if "is_view s m" for m
      using that nd(1,2) by (cases "m = n") (auto simp: N is_view_def)
    show "\<exists>f. bt_get (floating s) gid = Some f \<and> fw_session_id f' = fw_session_id f \<and>
        fw_last_focused_leaf f' = fw_last_focused_leaf f" if "bt_get (floating t) gid = Some f'" for gid f'
      using that fw(1) by (auto simp: F split: if_splits)
    show "bt_get (floating t) gid \<noteq> None" if "bt_get (floating s) gid = Some f" for gid f
      using that by (simp add: F)
    show "floating_ok t"
      unfolding floating_ok_def
    proof (intro conjI allI impI)
      fix gid h
      assume "bt_get (floating t) gid = Some h"
      then have cases: "gid = fid \<and> h = fw\<lparr>fw_root_node := k\<rparr> \<or> gid \<noteq> fid \<and> bt_get (floating s) gid = Some h"
        by (simp add: F split: if_splits)
      then show "fw_id h = gid" using floating_okD(1) [OF fok] fw(1) by auto
      show "\<exists>se. bt_get (sessions t) (fw_session_id h) = Some se \<and> gid \<in> set (se_floating se) \<and>
            se_root_node se \<noteq> fw_root_node h"
        using cases se rootk [OF owner_rootI(1) [OF se(1)]] floating_okD(3) [OF fok] by (auto simp: rest)
      show "\<exists>c. layout t (fw_root_node h) = Some c \<and> ce_parent c = None \<and> ce_session c = fw_session_id h"
        using cases
      proof (elim disjE conjE)
        assume "h = fw\<lparr>fw_root_node := k\<rparr>"
        then show ?thesis using nek kpar(2) ses_n by (simp add: Lt)
      next
        assume h: "gid \<noteq> fid" "bt_get (floating s) gid = Some h"
        then have "fw_root_node h \<noteq> n" using floating_okD(4) [OF fok h(2) fw(1)] fw(2) by auto
        then show ?thesis
          using floating_okD(2) [OF fok h(2)] rootk [OF owner_rootI(2) [OF h(2)]] by (simp add: Lt)
      qed
    next
      fix gid h hid h'
      assume a: "bt_get (floating t) gid = Some h" "bt_get (floating t) hid = Some h'" "fw_root_node h = fw_root_node h'"
      have root: "fw_root_node x \<noteq> k" if "bt_get (floating s) i = Some x" for i x
        using rootk [OF owner_rootI(2) [OF that]] .
      show "gid = hid"
      proof (cases "gid = fid \<or> hid = fid")
        case True
        then show ?thesis using a root [of gid h] root [of hid h'] by (auto simp: F split: if_splits)
      next
        case False
        then show ?thesis using a floating_okD(4) [OF fok] by (simp add: F)
      qed
    qed
  qed (simp_all add: rest)
qed

end
