(* ===== verification/Server_Normalize.thy ===== *)
theory Server_Normalize
  imports Server_Edits
begin

text \<open>
  Unlinking: \<open>remove_child\<close>, the removal of floating windows and the normalisation that collapses
  containers with one child keep the invariant of the server, and normalisation ends within the fuel
  of the model: each round removes a node or moves up.
\<close>

section \<open>Removing a child\<close>

lemma position_in:
  assumes "x \<in> set xs"
  obtains i where "position (\<lambda>y. y = x) xs = Some i" "i < length xs" "xs ! i = x"
proof -
  have "position (\<lambda>y. y = x) xs \<noteq> None" using assms by (simp add: position_None_iff)
  then obtain i where "position (\<lambda>y. y = x) xs = Some i" by blast
  then show thesis using that position_SomeD [of "\<lambda>y. y = x" xs i] by blast
qed

lemma tab_position_in:
  assumes "x \<in> set (map te_child ts)"
  obtains i where "tab_position x ts = Some i" "i < length ts" "te_child (ts ! i) = x"
proof -
  have "tab_position x ts \<noteq> None" using assms by (auto simp: position_None_iff)
  then obtain i where "tab_position x ts = Some i" by blast
  then show thesis using that position_SomeD [of "\<lambda>t. te_child t = x" ts i] by blast
qed

lemma active_after_remove_ok:
  assumes "a < Suc len" and "i < Suc len"
  shows "if len = 0 then active_after_remove a i len = 0 else active_after_remove a i len < len"
  using assms by (auto simp: active_after_remove_def)

lemma good_kids:
  assumes "good s" and "bt_get (nodes s) p = Some pd" and "n \<in> set (child_ids pd)"
  shows "distinct (child_ids pd)" and "\<exists>nd. bt_get (nodes s) n = Some nd \<and> node_par nd = Some p \<and> node_session nd = node_session pd"
    and "n \<noteq> p" and "active_ok pd"
proof -
  have L: "layout s p = Some (cell_of pd)" using assms(2) by (simp add: layout_def)
  note f = goodD(3) [OF assms(1)]
  show "distinct (child_ids pd)" using forest_distinct [OF f L] by simp
  show "\<exists>nd. bt_get (nodes s) n = Some nd \<and> node_par nd = Some p \<and> node_session nd = node_session pd"
    using forest_kidD [OF f L, of n] assms(3) by (auto simp: layout_Some)
  show "n \<noteq> p" using self_not_below_kid [OF f forest_kid_up [OF f L, of n]] assms(3) by (auto simp: below_def)
  show "active_ok pd" using goodD(8) [OF assms(1)] assms(2) by (auto simp: tabs_ok_def)
qed

text \<open>Taking a tab out of a list of tabs.\<close>

lemma tabs_remove:
  assumes "distinct (map te_child ts)" and "i < length ts" and "te_child (ts ! i) = n"
  shows "distinct (map te_child (vec_remove i ts))"
    and "set (map te_child (vec_remove i ts)) = set (map te_child ts) - {n}"
    and "length (vec_remove i ts) = length ts - 1"
proof -
  have m: "map te_child (vec_remove i ts) = vec_remove i (map te_child ts)" by (rule map_vec_remove)
  show "distinct (map te_child (vec_remove i ts))" unfolding m by (rule distinct_vec_remove [OF assms(1)])
  show "set (map te_child (vec_remove i ts)) = set (map te_child ts) - {n}"
    unfolding m using set_vec_remove_distinct [OF assms(1), of i] assms(2,3) by simp
  show "length (vec_remove i ts) = length ts - 1" using assms(2) by simp
qed

definition nested_single :: "node \<Rightarrow> bool" where
  "nested_single pd \<longleftrightarrow> is_tabs pd \<and> node_par pd \<noteq> None \<and> length (child_ids pd) = 1"

lemma rekids_tabs_remove:
  assumes "distinct (map te_child (tb_tabs tb))" and "i < length (tb_tabs tb)"
    and "te_child (tb_tabs tb ! i) = n" and "active_ok (Tabs tb)" and "\<not> nested_single (Tabs tb)"
    and "l = tb_last_focused_descendant tb \<or> l = None"
  shows "rekids (Tabs tb) (set (child_ids (Tabs tb)) - {n})
    (Tabs (tb\<lparr>tb_tabs := vec_remove i (tb_tabs tb),
              tb_active := active_after_remove (tb_active tb) i (length (vec_remove i (tb_tabs tb))),
              tb_last_focused_descendant := l\<rparr>))" (is "rekids _ _ (Tabs ?tb)")
proof -
  have len: "length (vec_remove i (tb_tabs tb)) = length (tb_tabs tb) - 1" using assms(2) by simp
  have empty: "vec_remove i (tb_tabs tb) = [] \<longleftrightarrow> length (tb_tabs tb) - 1 = 0"
    using len by (metis length_0_conv)
  have "active_ok (Tabs ?tb)"
    using empty active_after_remove_ok [of "tb_active tb" "length (tb_tabs tb) - 1" i] assms(2,4) len
    by (auto split: if_splits)
  moreover have "child_ids (Tabs ?tb) \<noteq> []" if "node_par (Tabs ?tb) \<noteq> None"
    using assms(2,5) that empty by (auto simp: nested_single_def)
  ultimately show ?thesis
    using tabs_remove(1,2) [OF assms(1-3)] assms(6) by (auto simp: rekids_def)
qed

lemma remove_child_run:
  assumes g: "good s" and pd: "bt_get (nodes s) p = Some pd" and n: "n \<in> set (child_ids pd)"
    and nd: "bt_get (nodes s) n = Some nd" and single: "\<not> nested_single pd"
  shows "\<exists>pd'. rekids pd (set (child_ids pd) - {n}) pd' \<and>
    remove_child p n s = (Ok (), s\<lparr>nodes := bt_insert n (node_set_parent None nd) (bt_insert p pd' (nodes s))\<rparr>)"
proof -
  note kids = good_kids [OF g pd n]
  show ?thesis
  proof (cases pd)
    case (Split sp)
    obtain i where i: "child_position n (sp_children sp) = Some i" "i < length (sp_children sp)"
      "sp_children sp ! i = n"
      using position_in [of n "sp_children sp"] n Split by auto
    let ?sp = "sp\<lparr>sp_children := vec_remove i (sp_children sp),
       sp_sizes := (if i < length (sp_sizes sp) then vec_remove i (sp_sizes sp) else sp_sizes sp)\<rparr>"
    have "rekids pd (set (child_ids pd) - {n}) (Split ?sp)"
      using Split kids(1) i set_vec_remove_distinct [of "sp_children sp" i] by (simp add: rekids_def)
    moreover have "remove_child p n s =
        (Ok (), s\<lparr>nodes := bt_insert n (node_set_parent None nd) (bt_insert p (Split ?sp) (nodes s))\<rparr>)"
      using pd nd Split i kids(3)
      by (simp add: remove_child_def bind_run step_run resume_run state_node_def put_node_run set_parent_def
          node_mut_run cong: run_congs)
    ultimately show ?thesis by blast
  next
    case (Tabs tb)
    obtain i where i: "tab_position n (tb_tabs tb) = Some i" "i < length (tb_tabs tb)"
      "te_child (tb_tabs tb ! i) = n"
      using tab_position_in [of n "tb_tabs tb"] n Tabs by auto
    let ?tb = "tb\<lparr>tb_tabs := vec_remove i (tb_tabs tb),
       tb_active := active_after_remove (tb_active tb) i (length (vec_remove i (tb_tabs tb)))\<rparr>"
    have "rekids pd (set (child_ids pd) - {n}) (Tabs ?tb)"
      using rekids_tabs_remove [of tb i n "tb_last_focused_descendant tb"] kids(1,4) i single Tabs by simp
    moreover have "remove_child p n s =
        (Ok (), s\<lparr>nodes := bt_insert n (node_set_parent None nd) (bt_insert p (Tabs ?tb) (nodes s))\<rparr>)"
      using pd nd Tabs i kids(3)
      by (simp add: remove_child_def bind_run step_run resume_run state_node_def put_node_run set_parent_def
          node_mut_run cong: run_congs)
    ultimately show ?thesis by blast
  qed (use n in simp)
qed

text \<open>Unlinking a child and removing its subtree.\<close>

lemma good_cut:
  assumes g: "good s" and pd: "bt_get (nodes s) p = Some pd" and n: "n \<in> set (child_ids pd)"
    and nd: "bt_get (nodes s) n = Some nd" and pd': "rekids pd (set (child_ids pd) - {n}) pd'"
    and t: "t = s\<lparr>nodes := bt_insert n (node_set_parent None nd) (bt_insert p pd' (nodes s))\<rparr>"
  shows "remove_subtree_nodes n t = (Ok (), prune (below (layout s) n) t)"
    and "good (prune (below (layout s) n) t)"
proof -
  note u = good_unlink [OF g pd nd n pd' t]
  have dom: "n \<in> dom (layout t)" using u(2) by (auto simp: parentless_def)
  show "remove_subtree_nodes n t = (Ok (), prune (below (layout s) n) t)"
    using remove_subtree_prune [OF goodD(3) [OF u(1)] goodD(4) [OF u(1)] dom] u(4) by simp
  show "good (prune (below (layout s) n) t)"
    using good_prune [OF u(1,2,3)] u(4) by simp
qed

section \<open>Removing a floating window\<close>

lemma session_root_not_floating:
  assumes "good s" and "bt_get (sessions s) sid = Some se" and "bt_get (floating s) fid = Some f"
  shows "se_root_node se \<noteq> fw_root_node f"
proof
  assume eq: "se_root_node se = fw_root_node f"
  obtain se' where se': "bt_get (sessions s) (fw_session_id f) = Some se'" "se_root_node se' \<noteq> fw_root_node f"
    using floating_okD(3) [OF goodD(7) [OF assms(1)] assms(3)] by blast
  obtain c where c: "layout s (fw_root_node f) = Some c" "ce_session c = fw_session_id f"
    using floating_okD(2) [OF goodD(7) [OF assms(1)] assms(3)] by blast
  have "ce_session c = sid" using sessions_okD(3) [OF goodD(6) [OF assms(1)] assms(2)] eq c(1) by auto
  then show False using c se' assms(2) eq by auto
qed

lemma remove_floating_run:
  assumes g: "good s" and f: "bt_get (floating s) fid = Some f"
  shows "\<exists>t. remove_floating_window fid s = (Ok f, t) \<and> good t \<and> nodes t = nodes s \<and> buffers t = buffers s \<and>
    parentless (layout t) (fw_root_node f) \<and> \<not> owner_root t (fw_root_node f) \<and>
    floating t = bt_remove fid (floating s) \<and> node_ids t = node_ids s \<and>
    (\<forall>sid. has_session sid t \<longleftrightarrow> has_session sid s) \<and>
    (\<forall>sid. map_option se_root_node (bt_get (sessions t) sid) = map_option se_root_node (bt_get (sessions s) sid))"
proof -
  define u where "u = (\<lambda>se :: session. se\<lparr>se_floating := filter (\<lambda>c. c \<noteq> fid) (se_floating se),
       se_focused_floating := (if se_focused_floating se = Some fid then None else se_focused_floating se)\<rparr>)"
  have u: "se_id (u x) = se_id x" "se_root_node (u x) = se_root_node x"
    "se_floating (u x) = filter (\<lambda>c. c \<noteq> fid) (se_floating x)"
    "se_focused_floating (u x) = (if se_focused_floating x = Some fid then None else se_focused_floating x)" for x
    by (simp_all add: u_def)
  define t where "t = s\<lparr>floating := bt_remove fid (floating s),
     sessions := bt_update (fw_session_id f) u (sessions s)\<rparr>"
  have run: "remove_floating_window fid s = (Ok f, t)"
    using f by (simp add: remove_floating_window_def bind_run step_run resume_run state_floating_def t_def u_def)
  have F: "bt_get (floating t) gid = (if gid = fid then None else bt_get (floating s) gid)" for gid
    by (simp add: t_def)
  have S: "bt_get (sessions t) sid =
      (if sid = fw_session_id f then map_option u (bt_get (sessions s) sid) else bt_get (sessions s) sid)" for sid
    by (simp add: t_def)
  have N: "nodes t = nodes s" "buffers t = buffers s" "node_ids t = node_ids s" "buffer_ids t = buffer_ids s"
    "session_ids t = session_ids s" "floating_ids t = floating_ids s" by (simp_all add: t_def)
  have L: "layout t = layout s" by (rule ext) (simp add: layout_def N)
  have v: "is_view t n = is_view s n" for n by (rule is_view_cong [OF L])
  have bwd: "\<exists>x. bt_get (sessions s) sid = Some x \<and> (x' = x \<or> sid = fw_session_id f \<and> x' = u x)"
    if "bt_get (sessions t) sid = Some x'" for sid x'
    using that by (auto simp: S split: if_splits)
  have "sessions_ok t"
    unfolding sessions_ok_def L
  proof (intro allI impI)
    fix sid x'
    assume "bt_get (sessions t) sid = Some x'"
    then obtain x where x: "bt_get (sessions s) sid = Some x" "se_id x' = se_id x" "se_root_node x' = se_root_node x"
      "distinct (se_floating x) \<longrightarrow> distinct (se_floating x')"
      "set (se_floating x') = set (se_floating x) - (if sid = fw_session_id f then {fid} else {})"
      by (fastforce simp: S u split: if_splits)
    note ok = sessions_okD [OF goodD(6) [OF g] x(1)]
    have "\<exists>h. bt_get (floating t) gid = Some h \<and> fw_session_id h = sid" if "gid \<in> set (se_floating x')" for gid
      using ok(4) [of gid] that f by (auto simp: x(5) F split: if_splits)
    then show "se_id x' = sid \<and> distinct (se_floating x') \<and>
        (\<exists>c. layout s (se_root_node x') = Some c \<and> ce_kind c = KTabs \<and> ce_parent c = None \<and> ce_session c = sid) \<and>
        (\<forall>gid \<in> set (se_floating x'). \<exists>h. bt_get (floating t) gid = Some h \<and> fw_session_id h = sid)"
      using ok(1,2,3) x(2,3,4) by simp
  qed
  moreover have "floating_ok t"
    unfolding floating_ok_def L
  proof (intro conjI allI impI)
    fix gid h
    assume "bt_get (floating t) gid = Some h"
    then have h: "bt_get (floating s) gid = Some h" "gid \<noteq> fid" by (simp_all add: F split: if_splits)
    note ok = floating_okD [OF goodD(7) [OF g] h(1)]
    show "fw_id h = gid" by (rule ok(1))
    show "\<exists>c. layout s (fw_root_node h) = Some c \<and> ce_parent c = None \<and> ce_session c = fw_session_id h" by (rule ok(2))
    show "\<exists>se. bt_get (sessions t) (fw_session_id h) = Some se \<and> gid \<in> set (se_floating se) \<and>
          se_root_node se \<noteq> fw_root_node h"
    proof -
      obtain x where x: "bt_get (sessions s) (fw_session_id h) = Some x" "gid \<in> set (se_floating x)"
        "se_root_node x \<noteq> fw_root_node h" using ok(3) by blast
      then show ?thesis
        using h(2) by (intro exI [of _ "if fw_session_id h = fw_session_id f then u x else x"]) (auto simp: S u)
    qed
  next
    fix gid h hid h'
    assume "bt_get (floating t) gid = Some h" "bt_get (floating t) hid = Some h'" "fw_root_node h = fw_root_node h'"
    then show "gid = hid" using floating_okD(4) [OF goodD(7) [OF g]] by (simp add: F split: if_splits)
  qed
  moreover have "lfd_ok t"
    using goodD(9) [OF g] unfolding lfd_ok_def L v N by (simp add: F)
  moreover have "ff_ok t"
    unfolding ff_ok_def
  proof (intro allI impI)
    fix sid x' gid h
    assume h: "bt_get (sessions t) sid = Some x'" "se_focused_floating x' = Some gid" "bt_get (floating t) gid = Some h"
    obtain x where "bt_get (sessions s) sid = Some x" "se_focused_floating x = Some gid"
      using bwd [OF h(1)] h(2) by (auto simp: u split: if_splits)
    moreover have "bt_get (floating s) gid = Some h" using h(3) by (simp add: F split: if_splits)
    ultimately show "fw_session_id h = sid" using goodD(10) [OF g] unfolding ff_ok_def by blast
  qed
  moreover have "ids_ok t"
  proof (rule ids_okI)
    note ids = idsD [OF goodD(13) [OF g]]
    show "sid < session_ids t" if "bt_get (sessions t) sid = Some x'" for sid x'
      using bwd [OF that] ids(5) N by auto
    show "gid < floating_ids t" if "bt_get (sessions t) sid = Some x'" "se_focused_floating x' = Some gid" for sid x' gid
      using bwd [OF that(1)] that(2) ids(7) N by (auto simp: u split: if_splits)
  qed (use idsD [OF goodD(13) [OF g]] N F in \<open>auto split: if_splits\<close>)
  ultimately have "good t"
    using goodD [OF g]
    by (simp add: good_def inv_def structure_ok_def attach_ok_def views_ok_def tabs_ok_def no_hollow_def
        shown_buffers_ok_def L N)
  moreover have "parentless (layout t) (fw_root_node f)"
    using owner_root_parentless [OF g owner_rootI(2) [OF f]] L by simp
  moreover have "\<not> owner_root t (fw_root_node f)"
  proof
    assume "owner_root t (fw_root_node f)"
    then consider sid x' where "bt_get (sessions t) sid = Some x'" "se_root_node x' = fw_root_node f"
      | gid h where "bt_get (floating t) gid = Some h" "fw_root_node h = fw_root_node f"
      by (auto simp: owner_root_def)
    then show False
    proof cases
      case 1
      obtain x where "bt_get (sessions s) sid = Some x" "se_root_node x = fw_root_node f"
        using bwd [OF 1(1)] 1(2) u(2) by auto
      then show False using session_root_not_floating [OF g _ f] by blast
    next
      case 2
      then show False using floating_okD(4) [OF goodD(7) [OF g] _ f] by (auto simp: F split: if_splits)
    qed
  qed
  moreover have "has_session sid t \<longleftrightarrow> has_session sid s" for sid
    by (simp add: has_session_def S)
  moreover have "map_option se_root_node (bt_get (sessions t) sid) = map_option se_root_node (bt_get (sessions s) sid)" for sid
    by (simp add: S option.map_comp comp_def u)
  moreover have "floating t = bt_remove fid (floating s)" by (simp add: t_def)
  ultimately show ?thesis using run N by blast
qed

section \<open>Collapsing\<close>

text \<open>What the panes of the layout show.\<close>

fun pane_of :: "node option \<Rightarrow> buffer_id option" where
  "pane_of (Some (BufferView v)) = Some (bv_buffer_id v)"
| "pane_of _ = None"

definition panes :: "server_state \<Rightarrow> node_id \<Rightarrow> buffer_id option" where
  "panes s n = pane_of (bt_get (nodes s) n)"

text \<open>Containers may go; panes and buffers stay.\<close>

definition shrinks :: "server_state \<Rightarrow> server_state \<Rightarrow> bool" where
  "shrinks s t \<longleftrightarrow>
     panes t = panes s \<and> dom (layout t) \<subseteq> dom (layout s) \<and>
     dom (bt_get (buffers t)) = dom (bt_get (buffers s))"

lemma shrinks_refl [simp]: "shrinks s s"
  by (simp add: shrinks_def)

lemma shrinks_trans: "shrinks s t \<Longrightarrow> shrinks t u \<Longrightarrow> shrinks s u"
  unfolding shrinks_def by (metis subset_trans)

lemma pane_of_kind: "same_kind nd nd' \<Longrightarrow> pane_of (Some nd') = pane_of (Some nd)"
  by (cases nd; cases nd') simp_all

lemma pane_of_kids: "child_ids nd \<noteq> [] \<Longrightarrow> pane_of (Some nd) = None" "is_tabs nd \<Longrightarrow> pane_of (Some nd) = None"
  by (cases nd; simp)+

lemma pane_of_view: "\<not> is_buffer_view nd \<Longrightarrow> pane_of (Some nd) = None"
  by (cases nd) simp_all

lemma shrinksI:
  assumes "\<And>m. pane_of (bt_get (nodes t) m) = pane_of (bt_get (nodes s) m)"
    and "\<And>m md'. bt_get (nodes t) m = Some md' \<Longrightarrow> bt_get (nodes s) m \<noteq> None"
    and "buffers t = buffers s"
  shows "shrinks s t"
  using assms by (auto simp: shrinks_def panes_def dom_layout)

lemma panes_layout:
  "panes s n = (case layout s n of
      None \<Rightarrow> None
    | Some c \<Rightarrow> (case ce_kind c of KView b \<Rightarrow> Some b | _ \<Rightarrow> None))"
  by (cases "bt_get (nodes s) n"; cases "the (bt_get (nodes s) n)") (auto simp: panes_def layout_def)

lemma quiet_shrinks:
  assumes "quiet t = quiet s"
  shows "shrinks s t"
proof -
  have "bt_get (buffers t) bid = None \<longleftrightarrow> bt_get (buffers s) bid = None" for bid
    using quiet_eqD(4) [OF assms, of bid] by (metis option.map_disc_iff)
  then have "dom (bt_get (buffers t)) = dom (bt_get (buffers s))" by (simp add: dom_def)
  moreover have "panes t = panes s" by (rule ext) (simp add: panes_layout quiet_eqD(1) [OF assms])
  ultimately show ?thesis using quiet_eqD(1) [OF assms] by (simp add: shrinks_def)
qed

text \<open>The rounds of normalisation left at a node: each one collapses a node or moves up.\<close>

definition rank :: "server_state \<Rightarrow> node_id option \<Rightarrow> nat" where
  "rank s cur =
     (case cur of
        None \<Rightarrow> 0
      | Some n \<Rightarrow> if bt_contains (nodes s) n then bt_len (nodes s) + card (above (layout s) n) else 0)"

lemma card_above_collapse:
  assumes "forest L" and "n \<in> dom L"
    and edges: "\<And>m q. (m, q) \<in> up L' \<Longrightarrow> m = k \<and> (n, q) \<in> up L \<or> m \<noteq> k \<and> (m, q) \<in> up L"
  shows "card (above L' k) \<le> card (above L n)"
proof -
  have "y = k \<or> (n, y) \<in> (up L)\<^sup>+" if "(k, y) \<in> (up L')\<^sup>*" for y
    using that
  proof (induction rule: rtrancl_induct)
    case (step y z)
    then show ?case using edges [OF step.hyps(2)] by (auto intro: trancl_into_trancl)
  qed simp
  then have sub: "above L' k \<subseteq> insert k {y. (n, y) \<in> (up L)\<^sup>+}" by (auto simp: above_def)
  have less: "{y. (n, y) \<in> (up L)\<^sup>+} \<subset> above L n"
    using forest_acyclic [OF assms(1)] by (auto simp: above_def acyclic_def)
  have fin: "finite (above L n)" by (rule finite_above [OF assms(1,2)])
  then have "card {y. (n, y) \<in> (up L)\<^sup>+} < card (above L n)" using less by (rule psubset_card_mono)
  moreover have "finite {y. (n, y) \<in> (up L)\<^sup>+}" using less fin finite_subset by blast
  then have "card (above L' k) \<le> Suc (card {y. (n, y) \<in> (up L)\<^sup>+})"
    using card_mono [OF _ sub] card_insert_le_m1 by (metis (no_types, lifting) card_insert_if finite_insert le_Suc_eq order.trans)
  ultimately show ?thesis by simp
qed

lemma set_update_child:
  assumes "distinct xs" and "i < length xs" and "k \<notin> set xs"
  shows "distinct (xs[i := k])" and "set (xs[i := k]) = insert k (set xs - {xs ! i})"
  using assms by (simp_all add: distinct_list_update set_update_distinct)

text \<open>The container \<open>pd\<close> with the child \<open>n\<close> replaced by \<open>k\<close>.\<close>

definition reseat :: "node_id \<Rightarrow> node_id \<Rightarrow> node \<Rightarrow> node \<Rightarrow> bool" where
  "reseat n k pd pd' \<longleftrightarrow>
     same_kind pd pd' \<and> node_id_of pd' = node_id_of pd \<and> node_session pd' = node_session pd \<and>
     node_par pd' = node_par pd \<and> distinct (child_ids pd') \<and>
     set (child_ids pd') = insert k (set (child_ids pd) - {n}) \<and>
     active_ok pd' \<and> memo pd' = memo pd"

lemma replace_child_run:
  assumes g: "good s" and pd: "bt_get (nodes s) p = Some pd" and n: "n \<in> set (child_ids pd)"
    and nd: "bt_get (nodes s) n = Some nd" and kd: "bt_get (nodes s) k = Some kd"
    and ses: "node_session kd = node_session pd" and k: "k \<notin> set (child_ids pd)" "k \<noteq> p" "k \<noteq> n"
  shows "\<exists>pd'. reseat n k pd pd' \<and>
    replace_child p n k s = (Ok (), s\<lparr>nodes := bt_insert k (node_set_parent (Some p) kd)
      (bt_insert n (node_set_parent None nd) (bt_insert p pd' (nodes s)))\<rparr>)"
proof -
  note kids = good_kids [OF g pd n]
  have nses: "node_session nd = node_session pd" using kids(2) nd by auto
  show ?thesis
  proof (cases pd)
    case (Split sp)
    obtain i where i: "child_position n (sp_children sp) = Some i" "i < length (sp_children sp)"
      "sp_children sp ! i = n"
      using position_in [of n "sp_children sp"] n Split by auto
    let ?sp = "sp\<lparr>sp_children := (sp_children sp)[i := k]\<rparr>"
    have "reseat n k pd (Split ?sp)"
      using Split kids(1) i k(1) set_update_child [of "sp_children sp" i k] by (simp add: reseat_def)
    moreover have "replace_child p n k s = (Ok (), s\<lparr>nodes := bt_insert k (node_set_parent (Some p) kd)
        (bt_insert n (node_set_parent None nd) (bt_insert p (Split ?sp) (nodes s)))\<rparr>)"
      using pd nd kd Split i kids(3) k ses nses
      by (simp add: replace_child_def bind_run step_run resume_run node_session_id_def ensure_node_belongs_to_def
          state_node_def put_node_run set_parent_def node_mut_run cong: run_congs)
    ultimately show ?thesis by blast
  next
    case (Tabs tb)
    obtain i where i: "tab_position n (tb_tabs tb) = Some i" "i < length (tb_tabs tb)"
      "te_child (tb_tabs tb ! i) = n"
      using tab_position_in [of n "tb_tabs tb"] n Tabs by auto
    let ?tb = "tb\<lparr>tb_tabs := (tb_tabs tb)[i := (tb_tabs tb ! i)\<lparr>te_child := k\<rparr>]\<rparr>"
    have map: "map te_child (tb_tabs ?tb) = (map te_child (tb_tabs tb))[i := k]"
      by (simp add: map_update)
    have "reseat n k pd (Tabs ?tb)"
      using Tabs kids(1,4) i k(1) set_update_child [of "map te_child (tb_tabs tb)" i k] map
      by (auto simp: reseat_def split: if_splits)
    moreover have "replace_child p n k s = (Ok (), s\<lparr>nodes := bt_insert k (node_set_parent (Some p) kd)
        (bt_insert n (node_set_parent None nd) (bt_insert p (Tabs ?tb) (nodes s)))\<rparr>)"
      using pd nd kd Tabs i kids(3) k ses nses
      by (simp add: replace_child_def bind_run step_run resume_run node_session_id_def ensure_node_belongs_to_def
          state_node_def put_node_run set_parent_def node_mut_run cong: run_congs)
    ultimately show ?thesis by blast
  qed (use n in simp)
qed

lemma is_session_root_iff: "is_session_root s n \<longleftrightarrow> (\<exists>sid se. bt_get (sessions s) sid = Some se \<and> se_root_node se = n)"
  by (simp add: is_session_root_def list_ex_iff Bex_def bt_values_iff) blast

lemma memo_set_lfd: "\<not> is_buffer_view nd \<Longrightarrow> memo (set_last_focused_descendant l nd) = l"
  "active_ok (set_last_focused_descendant l nd) = active_ok nd"
  "same_kind nd' (set_last_focused_descendant l nd) = same_kind nd' nd"
  by (cases nd; cases nd'; simp)+

text \<open>
  \<open>replace_node_in_owner\<close> followed by the removal of the old node, as both normalisation steps do it.
\<close>

abbreviation collapse :: "node_id \<Rightarrow> node_id \<Rightarrow> node_id option op" where
  "collapse n k \<equiv> pbind (replace_node_in_owner n k) (\<lambda>_. pbind (drop_node n) (\<lambda>_. ret (Some k)))"

lemma collapse_nested:
  assumes g: "good s" and nd: "bt_get (nodes s) n = Some nd" "child_ids nd = [k]" "node_par nd = Some p"
  shows "\<exists>t. collapse n k s = (Ok (Some k), t) \<and> good t \<and> shrinks s t \<and> rank t (Some k) < rank s (Some n)"
proof -
  note f = goodD(3) [OF g]
  have Ln: "layout s n = Some (cell_of nd)" using nd by (simp add: layout_def)
  obtain pd where pd: "bt_get (nodes s) p = Some pd" "n \<in> set (child_ids pd)"
    using forest_parentD [OF f Ln] nd(3) by (auto simp: layout_Some)
  have Lp: "layout s p = Some (cell_of pd)" using pd by (simp add: layout_def)
  obtain kd where kd: "bt_get (nodes s) k = Some kd" "node_par kd = Some n" "node_session kd = node_session nd"
    using good_kids(2) [OF g nd(1)] nd(2) by auto
  have ses: "node_session nd = node_session pd" using good_kids(2) [OF g pd] nd(1) by auto
  have kn: "k \<noteq> n" using good_kids(3) [OF g nd(1), of k] nd(2) by simp
  have np: "n \<noteq> p" using good_kids(3) [OF g pd] .
  have kp: "k \<noteq> p"
  proof
    assume "k = p"
    then have "(n, k) \<in> up (layout s)" using upI [where L = "layout s", OF Ln] nd(3) by simp
    moreover have "(k, n) \<in> up (layout s)" using forest_kid_up [OF f Ln, of k] nd(2) by simp
    ultimately show False using no_up_cycle [OF f] by blast
  qed
  have k_not: "k \<notin> set (child_ids pd)" using good_kids(2) [OF g pd(1), of k] kd(1,2) np by auto
  obtain x where x: "resolve_focus_candidate s k = Ok x" "leaf_result s k x"
    using resolve_focus_candidate_Ok [OF f goodD(8) [OF g] goodD(9) [OF g], of k] kd(1) by (auto simp: dom_layout)
  have "\<exists>b. rbind (state_node s p) (\<lambda>pd. case last_focused_descendant pd of
      Some leaf \<Rightarrow> if bt_contains (nodes s) leaf then subtree_contains s n leaf else Ok True
    | None \<Rightarrow> Ok False) = Ok b"
    using subtree_contains_Ok [OF f, of n] Ln pd by (auto simp: state_node_def split: option.split)
  then obtain b where b: "rbind (state_node s p) (\<lambda>pd. case last_focused_descendant pd of
      Some leaf \<Rightarrow> if bt_contains (nodes s) leaf then subtree_contains s n leaf else Ok True
    | None \<Rightarrow> Ok False) = Ok b" by blast
  obtain pd' where pd': "reseat n k pd pd'"
    "replace_child p n k s = (Ok (), s\<lparr>nodes := bt_insert k (node_set_parent (Some p) kd)
      (bt_insert n (node_set_parent None nd) (bt_insert p pd' (nodes s)))\<rparr>)"
    using replace_child_run [OF g pd nd(1) kd(1)] kd(3) ses k_not kp kn by auto
  let ?pd = "if b then set_last_focused_descendant x pd' else pd'"
  define t where "t = s\<lparr>nodes := bt_remove n (if b then bt_insert p ?pd (bt_insert k (node_set_parent (Some p) kd)
      (bt_insert n (node_set_parent None nd) (bt_insert p pd' (nodes s)))) else
      bt_insert k (node_set_parent (Some p) kd) (bt_insert n (node_set_parent None nd) (bt_insert p pd' (nodes s))))\<rparr>"
  have N: "bt_get (nodes t) m = (if m = n then None else if m = p then Some ?pd
      else if m = k then Some (node_set_parent (Some p) kd) else bt_get (nodes s) m)" for m
    using kn kp np by (simp add: t_def)
  have run: "collapse n k s = (Ok (Some k), t)"
    using nd kd pd x(1) b pd'(2) kp np
    by (simp add: replace_node_in_owner_def bind_run step_run resume_run node_session_id_def node_parent_def
        state_node_def drop_node_run node_mut_run t_def cong: run_congs)
  have view_pd: "\<not> is_buffer_view pd'" using pd(2) pd'(1) by (cases pd; cases pd') (auto simp: reseat_def)
  have "edited s p ?pd"
  proof -
    have "memo ?pd = memo pd \<or> memo ?pd = None \<or> (\<exists>l. memo ?pd = Some l \<and> is_view s l)"
      using pd'(1) x(2) memo_set_lfd(1) [OF view_pd]
      by (cases x) (auto simp: reseat_def leaf_result_def shown_leaf_def)
    moreover have "child_ids ?pd \<noteq> []" using pd'(1) by (auto simp: reseat_def)
    ultimately show ?thesis using pd(1) pd'(1) by (auto simp: edited_def reseat_def memo_set_lfd(2,3))
  qed
  then have "good t"
    by (rule good_collapse [OF g nd kd(1) pd(1)]) (use pd'(1) N in \<open>auto simp: reseat_def t_def\<close>)
  moreover have "dom (bt_get (nodes t)) = dom (bt_get (nodes s)) - {n}"
    using pd kd by (auto simp: N split: if_splits)
  then have "bt_len (nodes t) < bt_len (nodes s)"
    unfolding bt_len_card using nd(1) by (simp add: card_Diff1_less domI del: card_Diff_insert)
  moreover have "card (above (layout t) k) \<le> card (above (layout s) n)"
  proof (rule card_above_collapse [OF f])
    show "m = k \<and> (n, q) \<in> up (layout s) \<or> m \<noteq> k \<and> (m, q) \<in> up (layout s)" if "(m, q) \<in> up (layout t)" for m q
    proof -
      obtain md where md: "bt_get (nodes t) m = Some md" "node_par md = Some q"
        using \<open>(m, q) \<in> up (layout t)\<close> by (auto simp: up_def layout_Some)
      have "(n, p) \<in> up (layout s)" by (rule upI [where L = "layout s", OF Ln]) (simp add: nd(3))
      moreover have "(m, q) \<in> up (layout s)" if "bt_get (nodes s) m = Some xd" "node_par xd = Some q" for xd
        using that by (auto simp: up_def layout_Some)
      moreover have "node_par ?pd = node_par pd" using pd'(1) by (simp add: reseat_def)
      ultimately show ?thesis using md pd(1) kp by (auto simp: N split: if_splits)
    qed
  qed (simp add: Ln domI)
  moreover have "shrinks s t"
  proof (rule shrinksI)
    have kids_pd: "child_ids pd \<noteq> []" using pd(2) by auto
    show "pane_of (bt_get (nodes t) m) = pane_of (bt_get (nodes s) m)" for m
      using kd(1) pd(1) kids_pd nd view_pd pane_of_kids(1) [of nd] pane_of_kids(1) [of pd] pane_of_kind [of kd "node_set_parent (Some p) kd"]
        pane_of_view [of pd'] pane_of_view [of "set_last_focused_descendant x pd'"]
      by (cases pd') (auto simp: N)
    show "bt_get (nodes s) m \<noteq> None" if "bt_get (nodes t) m = Some md'" for m md'
      using that pd(1) kd(1) by (auto simp: N split: if_splits)
  qed (simp add: t_def)
  ultimately show ?thesis using run kn kp np kd nd(1) N by (auto simp: rank_def)
qed

lemma collapse_floating:
  assumes g: "good s" and nd: "bt_get (nodes s) n = Some nd" "child_ids nd = [k]" "node_par nd = None"
    and fl: "floating_id_by_root s n = Some fid"
  shows "\<exists>t. collapse n k s = (Ok (Some k), t) \<and> good t \<and> shrinks s t \<and> rank t (Some k) < rank s (Some n)"
proof -
  note f = goodD(3) [OF g]
  have Ln: "layout s n = Some (cell_of nd)" using nd by (simp add: layout_def)
  obtain kd where kd: "bt_get (nodes s) k = Some kd" "node_par kd = Some n" "node_session kd = node_session nd"
    using good_kids(2) [OF g nd(1)] nd(2) by auto
  have kn: "k \<noteq> n" using good_kids(3) [OF g nd(1), of k] nd(2) by simp
  obtain fw where fw: "bt_get (floating s) fid = Some fw" "fw_root_node fw = n"
    using floating_id_by_root_Some [OF goodD(7) [OF g]] fl by blast
  have root: "\<not> is_session_root s n"
    using session_root_not_floating [OF g _ fw(1)] fw(2) by (auto simp: is_session_root_iff)
  obtain x where x: "resolve_focus_candidate s k = Ok x"
    using resolve_focus_candidate_Ok [OF f goodD(8) [OF g] goodD(9) [OF g], of k] kd(1) by (auto simp: dom_layout)
  define t where "t = s\<lparr>floating := bt_insert fid (fw\<lparr>fw_root_node := k\<rparr>) (floating s),
      nodes := bt_remove n (bt_insert n (node_set_parent None nd) (bt_insert k (node_set_parent None kd) (nodes s)))\<rparr>"
  have N: "bt_get (nodes t) m = (if m = n then None
      else if m = k then Some (node_set_parent None kd) else bt_get (nodes s) m)" for m
    by (simp add: t_def)
  have run: "collapse n k s = (Ok (Some k), t)"
    using nd kd x fw(1) fl root kn
    by (simp add: replace_node_in_owner_def bind_run step_run resume_run node_session_id_def node_parent_def
        state_node_def drop_node_run node_mut_run floating_mut_run set_parent_def t_def cong: run_congs)
  have "good t"
    by (rule good_collapse_floating [OF g nd kd(1) fw N]) (simp_all add: t_def)
  moreover have "dom (bt_get (nodes t)) = dom (bt_get (nodes s)) - {n}"
    using kd by (auto simp: N split: if_splits)
  then have "bt_len (nodes t) < bt_len (nodes s)"
    unfolding bt_len_card using nd(1) by (simp add: card_Diff1_less domI del: card_Diff_insert)
  moreover have "card (above (layout t) k) \<le> card (above (layout s) n)"
    by (rule card_above_collapse [OF f])
      (use nd(1) in \<open>auto simp: up_def layout_Some N dom_layout split: if_splits\<close>)
  moreover have "shrinks s t"
  proof (rule shrinksI)
    show "pane_of (bt_get (nodes t) m) = pane_of (bt_get (nodes s) m)" for m
      using kd(1) nd pane_of_kids(1) [of nd] pane_of_kind [of kd "node_set_parent None kd"] by (simp add: N)
    show "bt_get (nodes s) m \<noteq> None" if "bt_get (nodes t) m = Some md'" for m md'
      using that kd(1) by (auto simp: N split: if_splits)
  qed (simp add: t_def)
  ultimately show ?thesis using run kn kd nd(1) N by (auto simp: rank_def)
qed

lemma collapse_detached:
  assumes g: "good s" and nd: "bt_get (nodes s) n = Some nd" "child_ids nd = [k]" "node_par nd = None"
    and "\<not> is_session_root s n" and "floating_id_by_root s n = None"
  shows "collapse n k s = (Err (Conflict (NoReplaceableOwner n)), s)"
proof -
  obtain kd where kd: "bt_get (nodes s) k = Some kd" using good_kids(2) [OF g nd(1)] nd(2) by auto
  obtain x where "resolve_focus_candidate s k = Ok x"
    using resolve_focus_candidate_Ok [OF goodD(3) [OF g] goodD(8) [OF g] goodD(9) [OF g], of k] kd
    by (auto simp: dom_layout)
  then show ?thesis
    using assms by (simp add: replace_node_in_owner_def bind_run step_run resume_run node_session_id_def
        node_parent_def state_node_def cong: run_congs)
qed

section \<open>Normalisation\<close>

text \<open>One round of the loop: it fails, or goes on with fewer rounds left.\<close>

definition advances :: "(node_id option) op \<Rightarrow> node_id \<Rightarrow> server_state \<Rightarrow> bool" where
  "advances m n s \<longleftrightarrow>
     (\<exists>r t. m s = (r, t) \<and> good t \<and> shrinks s t \<and>
        ((\<exists>e. r = Err e) \<or> (\<exists>cur. r = Ok cur \<and> rank t cur < rank s (Some n))))"

lemma advancesI:
  "m s = (Ok cur, t) \<Longrightarrow> good t \<Longrightarrow> shrinks s t \<Longrightarrow> rank t cur < rank s (Some n) \<Longrightarrow> advances m n s"
  "m s = (Err e, t) \<Longrightarrow> good t \<Longrightarrow> shrinks s t \<Longrightarrow> advances m n s"
  by (auto simp: advances_def)

lemma rank_parent:
  assumes "good s" and "bt_get (nodes s) n = Some nd"
    and "up (layout t) = up (layout s)" and "dom (layout t) = dom (layout s)"
  shows "rank t (node_par nd) < rank s (Some n)"
proof -
  have L: "layout s n = Some (cell_of nd)" using assms(2) by (simp add: layout_def)
  have n: "n \<in> dom (layout s)" using L by blast
  have len: "bt_len (nodes t) = bt_len (nodes s)" using assms(4) by (simp add: bt_len_card dom_layout)
  show ?thesis
  proof (cases "node_par nd")
    case None
    then show ?thesis using assms(2) card_above_pos [OF goodD(3) [OF assms(1)] n] by (simp add: rank_def)
  next
    case (Some p)
    then have up: "(n, p) \<in> up (layout s)" by (intro upI [where L = "layout s", OF L]) simp
    then show ?thesis
      using Some assms(2,3) len card_above_less [OF goodD(3) [OF assms(1)] up] by (simp add: rank_def above_def)
  qed
qed

lemma put_node_advances:
  assumes g: "good s" and nd: "bt_get (nodes s) n = Some nd"
    and nd': "alike nd nd'" "active_ok nd'" "memo nd' = memo nd \<or> memo nd' = None"
    and m: "m s = (Ok (node_par nd), s\<lparr>nodes := bt_insert n nd' (nodes s)\<rparr>)"
  shows "advances m n s"
proof (rule advancesI(1) [of m, OF m])
  let ?t = "s\<lparr>nodes := bt_insert n nd' (nodes s)\<rparr>"
  show "good ?t" by (rule good_node_insert [OF g nd]) (use nd' in auto)
  show "shrinks s ?t"
    by (rule shrinksI) (use nd pane_of_kind [of nd nd'] nd'(1) in \<open>auto simp: alike_def split: if_splits\<close>)
  have "layout ?t x = (if x = n then Some (cell_of nd') else layout s x)" for x by (simp add: layout_def)
  moreover have "layout s n = Some (cell_of nd)" using nd by (simp add: layout_def)
  moreover have "node_par nd' = node_par nd" using nd'(1) by (simp add: alike_def)
  ultimately have "up (layout ?t) = up (layout s)" "dom (layout ?t) = dom (layout s)"
    by (auto simp: up_def split: if_splits)
  then show "rank ?t (node_par nd) < rank s (Some n)" by (rule rank_parent [OF g nd])
qed

lemma parent_advances:
  assumes "good s" and "bt_get (nodes s) n = Some nd" and "m s = (Ok (node_par nd), s)"
  shows "advances m n s"
  by (rule advancesI(1) [of m, OF assms(3,1) shrinks_refl]) (rule rank_parent [OF assms(1,2) refl refl])

lemma collapse_advances:
  assumes g: "good s" and nd: "bt_get (nodes s) n = Some nd" "child_ids nd = [k]" and root: "\<not> is_session_root s n"
  shows "advances (collapse n k) n s"
proof (cases "node_par nd")
  case None
  show ?thesis
  proof (cases "floating_id_by_root s n")
    case N: None
    show ?thesis by (rule advancesI(2) [where m = "collapse n k", OF collapse_detached [OF g nd None root N] g shrinks_refl])
  next
    case (Some fid)
    then show ?thesis using collapse_floating [OF g nd None Some] by (auto intro: advancesI(1))
  qed
next
  case (Some p)
  then show ?thesis using collapse_nested [OF g nd Some] by (auto intro: advancesI(1))
qed

lemma session_root_tabs:
  assumes "good s" and "bt_get (nodes s) n = Some nd" and "is_session_root s n"
  shows "is_tabs nd"
proof -
  obtain sid se where "bt_get (sessions s) sid = Some se" "se_root_node se = n"
    using assms(3) by (auto simp: is_session_root_iff)
  then obtain c where "layout s n = Some c" "ce_kind c = KTabs"
    using sessions_okD(3) [OF goodD(6) [OF assms(1)], of sid se] by auto
  then show ?thesis using assms(2) by (cases nd) (auto simp: layout_Some)
qed

lemma normalize_split_advances:
  assumes g: "good s" and nd: "bt_get (nodes s) n = Some (Split sp)"
  shows "advances (normalize_split_node n) n s"
proof -
  have root: "\<not> is_session_root s n" using session_root_tabs [OF g nd] by auto
  have start: "normalize_split_node n s =
      (case sp_children sp of
         [] \<Rightarrow> raise (Conflict (SplitEmpty n))
       | [child] \<Rightarrow> collapse n child
       | _ \<Rightarrow>
           pbind (if length (sp_sizes sp) \<noteq> length (sp_children sp) \<or> 0 \<in> set (sp_sizes sp)
                  then put_node n (Split (sp\<lparr>sp_sizes := replicate (length (sp_children sp)) 1\<rparr>))
                  else ret ()) (\<lambda>_.
           ret (sp_parent sp))) s" (is "_ = ?m s")
    using nd by (simp add: normalize_split_node_def bind_run step_run resume_run state_node_def)
  have "advances ?m n s"
  proof (cases "sp_children sp" rule: remdups_adj.cases)
    case 1
    then show ?thesis using g by (auto simp: advances_def step_run)
  next
    case (2 child)
    then show ?thesis using collapse_advances [OF g nd _ root, of child] by simp
  next
    case (3 a b ks)
    show ?thesis
    proof (cases "length (sp_sizes sp) \<noteq> length (sp_children sp) \<or> 0 \<in> set (sp_sizes sp)")
      case True
      show ?thesis
        by (rule put_node_advances [OF g nd, of "Split (sp\<lparr>sp_sizes := replicate (length (sp_children sp)) 1\<rparr>)"])
          (use 3 True good_kids(1) [OF g nd, of a] in
            \<open>simp_all add: alike_def bind_run resume_run step_run put_node_run\<close>)
    next
      case False
      show ?thesis
        by (rule parent_advances [OF g nd]) (use 3 False in \<open>simp add: bind_run resume_run step_run\<close>)
    qed
  qed
  then show ?thesis by (simp add: advances_def start)
qed

lemma drop_empty:
  assumes g: "good s" and nd: "bt_get (nodes s) n = Some nd" "\<not> is_buffer_view nd" "child_ids nd = []" "node_par nd = None"
    and own: "\<not> owner_root s n"
  shows "good (s\<lparr>nodes := bt_remove n (nodes s)\<rparr>)"
proof -
  have L: "layout s n = Some (cell_of nd)" using nd(1) by (simp add: layout_def)
  have below: "below (layout s) n = {n}" using below_kids [OF goodD(3) [OF g] L] nd(3) by simp
  have "bt_filter_keys (\<lambda>m. m \<notin> {n}) (nodes s) = bt_remove n (nodes s)"
    by (rule bt.map_ext) auto
  moreover have "bt_map_values (detach_from {n}) (buffers s) = buffers s"
  proof (rule bt.map_ext)
    fix bid
    have "detach_from {n} b = b" if "bt_get (buffers s) bid = Some b" for b
      using goodD(4) [OF g] that nd(1,2)
      by (fastforce simp: detach_from_def attach_ok_def split: buffer_attachment.split)
    then show "bt_get (bt_map_values (detach_from {n}) (buffers s)) bid = bt_get (buffers s) bid"
      by (cases "bt_get (buffers s) bid") simp_all
  qed
  ultimately have "prune {n} s = s\<lparr>nodes := bt_remove n (nodes s)\<rparr>" by (simp add: prune_def)
  moreover have "parentless (layout s) n" using nd(1,4) by (simp add: parentless_cell)
  ultimately show ?thesis using good_prune [OF g _ own] below by metis
qed

lemma not_owner_root:
  assumes "good s" and "\<not> is_session_root s n" and "floating_id_by_root s n = None"
  shows "\<not> owner_root s n"
  using assms(2,3) floating_id_by_root_Some [OF goodD(7) [OF assms(1)], of n]
  by (auto simp: owner_root_def is_session_root_iff)

lemma rank_present: "good s \<Longrightarrow> bt_get (nodes s) n = Some nd \<Longrightarrow> rank t None < rank s (Some n)"
  using card_above_pos [OF goodD(3), of s n] domI [of "bt_get (nodes s)" n nd] by (auto simp: rank_def dom_layout)

lemma empty_tabs_advances:
  assumes g: "good s" and nd: "bt_get (nodes s) n = Some (Tabs tb)" and empty: "tb_tabs tb = []"
  shows "advances (normalize_tabs_node n) n s"
proof (cases "is_session_root s n")
  case True
  then have "normalize_tabs_node n s =
      (Ok (tb_parent tb), s\<lparr>nodes := bt_insert n (Tabs (tb\<lparr>tb_active := 0, tb_last_focused_descendant := None\<rparr>)) (nodes s)\<rparr>)"
    using nd empty by (simp add: normalize_tabs_node_def bind_run step_run resume_run state_node_def put_node_run
        cong: run_congs)
  then show ?thesis
    by (intro put_node_advances [OF g nd, of "Tabs (tb\<lparr>tb_active := 0, tb_last_focused_descendant := None\<rparr>)"])
      (simp_all add: alike_def empty)
next
  case False
  have par: "tb_parent tb = None"
  proof (rule ccontr)
    assume "tb_parent tb \<noteq> None"
    moreover have "layout s n = Some (cell_of (Tabs tb))" using nd by (simp add: layout_def)
    ultimately show False
      using goodD(12) [OF g, unfolded no_hollow_def, rule_format, of n "cell_of (Tabs tb)"] empty by simp
  qed
  show ?thesis
  proof (cases "floating_id_by_root s n")
    case None
    have "normalize_tabs_node n s = (Ok None, s\<lparr>nodes := bt_remove n (nodes s)\<rparr>)"
      using nd empty False None par
      by (simp add: normalize_tabs_node_def bind_run step_run resume_run state_node_def drop_node_run cong: run_congs)
    moreover have "good (s\<lparr>nodes := bt_remove n (nodes s)\<rparr>)"
      by (rule drop_empty [OF g nd]) (use empty par not_owner_root [OF g False None] in simp_all)
    moreover have "shrinks s (s\<lparr>nodes := bt_remove n (nodes s)\<rparr>)" by (rule shrinksI) (use nd in \<open>auto split: if_splits\<close>)
    ultimately show ?thesis using rank_present [OF g nd] by (rule advancesI(1))
  next
    case (Some fid)
    then obtain f where f: "bt_get (floating s) fid = Some f" "fw_root_node f = n"
      using floating_id_by_root_Some [OF goodD(7) [OF g]] by blast
    obtain t where t: "remove_floating_window fid s = (Ok f, t)" "good t" "nodes t = nodes s" "\<not> owner_root t n"
      "buffers t = buffers s"
      using remove_floating_run [OF g f(1)] f(2) by blast
    have "normalize_tabs_node n s = (Ok None, t\<lparr>nodes := bt_remove n (nodes t)\<rparr>)"
      using nd empty False Some t(1) f(2)
      by (simp add: normalize_tabs_node_def bind_run step_run resume_run state_node_def drop_node_run cong: run_congs)
    moreover have "good (t\<lparr>nodes := bt_remove n (nodes t)\<rparr>)"
      by (rule drop_empty [OF t(2) _ _ _ _ t(4), of "Tabs tb"]) (use nd t(3) empty par in simp_all)
    moreover have "shrinks s (t\<lparr>nodes := bt_remove n (nodes t)\<rparr>)" by (rule shrinksI) (use nd t in \<open>auto split: if_splits\<close>)
    ultimately show ?thesis using rank_present [OF g nd] by (rule advancesI(1))
  qed
qed

lemma normalize_tabs_advances:
  assumes g: "good s" and nd: "bt_get (nodes s) n = Some (Tabs tb)"
  shows "advances (normalize_tabs_node n) n s"
proof (cases "tb_tabs tb = []")
  case True
  then show ?thesis by (rule empty_tabs_advances [OF g nd])
next
  case False
  show ?thesis
  proof (cases "length (tb_tabs tb) = 1 \<and> floating_id_by_root s n = None \<and> \<not> is_session_root s n")
    case True
    then obtain e where e: "tb_tabs tb = [e]" by (auto simp: length_Suc_conv)
    have "normalize_tabs_node n s = collapse n (te_child e) s"
      using nd e True by (simp add: normalize_tabs_node_def bind_run [of "reads _"] bind_run [of "gets _"] step_run
          resume_run state_node_def Let_def)
    then show ?thesis
      using collapse_advances [OF g nd, of "te_child e"] e True by (simp add: advances_def)
  next
    case other: False
    have "active_ok (Tabs tb)" using goodD(8) [OF g] nd unfolding tabs_ok_def by blast
    then have "\<not> length (tb_tabs tb) \<le> tb_active tb" using False by simp
    then have "normalize_tabs_node n s = (Ok (node_par (Tabs tb)), s)"
      using nd False other
      by (auto simp: normalize_tabs_node_def bind_run step_run resume_run state_node_def)
    then show ?thesis by (rule parent_advances [OF g nd])
  qed
qed

text \<open>The loop ends, and keeps the invariant.\<close>

lemma normalize_up_from_good:
  assumes "good s" and "rank s cur < k"
  shows "\<exists>r t. normalize_up_from k cur s = (r, t) \<and> good t \<and> shrinks s t \<and> (r = Ok () \<or> (\<exists>e. r = Err e))"
  using assms
proof (induction k arbitrary: cur s)
  case (Suc k)
  show ?case
  proof (cases "\<exists>n nd. cur = Some n \<and> bt_get (nodes s) n = Some nd")
    case False
    then show ?thesis
      using Suc.prems(1) by (cases cur) (auto simp: step_run bind_run resume_run)
  next
    case True
    then obtain n nd where n: "cur = Some n" "bt_get (nodes s) n = Some nd" by blast
    let ?m = "case nd of
        BufferView v \<Rightarrow> reads (\<lambda>s. node_parent s n)
      | Split sp \<Rightarrow> normalize_split_node n
      | Tabs tb \<Rightarrow> normalize_tabs_node n"
    have run: "normalize_up_from (Suc k) cur s = resume (?m s) (normalize_up_from k)"
      using n by (simp add: bind_run step_run resume_run)
    have "advances ?m n s"
    proof (cases nd)
      case (BufferView v)
      then show ?thesis
        by (intro parent_advances [OF Suc.prems(1) n(2)]) (use n in \<open>simp add: step_run node_parent_def state_node_def\<close>)
    next
      case (Split sp)
      then show ?thesis using normalize_split_advances [OF Suc.prems(1)] n by simp
    next
      case (Tabs tb)
      then show ?thesis using normalize_tabs_advances [OF Suc.prems(1)] n by simp
    qed
    then obtain r t where t: "?m s = (r, t)" "good t" "shrinks s t" "(\<exists>e. r = Err e) \<or> (\<exists>cur'. r = Ok cur' \<and> rank t cur' < rank s cur)"
      unfolding advances_def using n(1) by blast
    from t(4) show ?thesis
    proof (elim disjE exE conjE)
      fix cur'
      assume "r = Ok cur'" "rank t cur' < rank s cur"
      then show ?thesis using Suc.IH [OF t(2), of cur'] Suc.prems(2) t(1) shrinks_trans [OF t(3)] unfolding run by (fastforce simp: resume_run)
    next
      fix e
      assume "r = Err e"
      then show ?thesis using t(1-3) unfolding run by (simp add: resume_run)
    qed
  qed
qed simp

lemma rank_bound: "good s \<Longrightarrow> rank s cur \<le> 2 * bt_len (nodes s)"
  using card_above [OF goodD(3), of s] by (auto simp: rank_def dom_layout bt_len_card split: option.split)

lemma normalize_upwards_good:
  assumes "good s"
  shows "\<exists>r t. normalize_upwards n s = (r, t) \<and> good t \<and> shrinks s t \<and> (r = Ok () \<or> (\<exists>e. r = Err e))"
  unfolding normalize_upwards_def with_fuel_def
  by (rule normalize_up_from_good [OF assms]) (use rank_bound [OF assms, of "Some n"] in \<open>simp add: fuel_def\<close>)

lemma preserves_normalize [frame]: "preserves good (normalize_upwards n)"
  unfolding preserves_def using normalize_upwards_good by (metis snd_conv)

end
