(* ===== verification/Server_Close.thy ===== *)
theory Server_Close
  imports Server_Normalize
begin

text \<open>
  The methods that close nodes, tabs, floating windows and sessions: they return, keep the invariant,
  take away exactly the panes below what is closed, and leave the session focused on a pane it shows.
\<close>

section \<open>Zoom and focus after a change\<close>

text \<open>A run that returns and leaves a good state, whatever its result.\<close>

abbreviation safe :: "'a op \<Rightarrow> server_state \<Rightarrow> bool" where
  "safe m s \<equiv> wp m (\<lambda>_. good) (\<lambda>_. good) s"

lemma shrinks_nodes: "nodes t = nodes s \<Longrightarrow> buffers t = buffers s \<Longrightarrow> shrinks s t"
  by (rule shrinksI) simp_all

text \<open>The root of every session and the session of every floating window.\<close>

definition owners :: "server_state \<Rightarrow> (session_id \<Rightarrow> node_id option) \<times> (floating_id \<Rightarrow> session_id option)" where
  "owners s = (\<lambda>sid. map_option se_root_node (bt_get (sessions s) sid),
     \<lambda>fid. map_option fw_session_id (bt_get (floating s) fid))"

lemma normalize_zoomed_Ok:
  assumes g: "good s" and "has_session sid s"
  shows "\<exists>t. normalize_zoomed_node sid s = (Ok (), t) \<and> good t \<and> nodes t = nodes s \<and> buffers t = buffers s \<and>
    has_session sid t \<and> owners t = owners s"
proof -
  obtain se where se: "bt_get (sessions s) sid = Some se" using assms(2) by (auto simp: has_session_def)
  have "\<exists>keep. (case se_zoomed_node se of
         None \<Rightarrow> Ok None
       | Some n \<Rightarrow>
           (case bt_get (nodes s) n of
              None \<Rightarrow> Ok None
            | Some nd \<Rightarrow>
                if node_session nd = sid
                then rbind (is_node_visible_in_session s sid n) (\<lambda>v. Ok (if v then Some n else None))
                else Ok None)) = Ok keep"
    using is_node_visible_in_session_Ok [OF goodD(2) [OF g] se] by (auto simp: layout_Some split: option.split)
  then obtain keep where keep: "(case se_zoomed_node se of
         None \<Rightarrow> Ok None
       | Some n \<Rightarrow>
           (case bt_get (nodes s) n of
              None \<Rightarrow> Ok None
            | Some nd \<Rightarrow>
                if node_session nd = sid
                then rbind (is_node_visible_in_session s sid n) (\<lambda>v. Ok (if v then Some n else None))
                else Ok None)) = (Ok keep :: node_id option res)" by blast
  let ?t = "s\<lparr>sessions := bt_insert sid (se\<lparr>se_zoomed_node := keep\<rparr>) (sessions s)\<rparr>"
  have run: "normalize_zoomed_node sid s = (Ok (), ?t)"
    using se keep by (simp add: normalize_zoomed_node_def bind_run step_run resume_run state_session_def session_mut_run)
  have "good ?t" by (rule good_session_insert [OF g se]) simp_all
  moreover have "owners ?t = owners s" using se by (auto simp: owners_def fun_eq_iff)
  ultimately show ?thesis using run by (simp add: has_session_def)
qed

lemma owners_quiet:
  assumes "quiet t = quiet s"
  shows "owners t = owners s"
proof -
  have "map_option se_root_node (bt_get (sessions t) sid) = map_option se_root_node (bt_get (sessions s) sid)" for sid
    using arg_cong [OF quiet_eqD(2) [OF assms, of sid], of "map_option se_root_node"]
    by (simp add: option.map_comp comp_def quiet_session_def)
  moreover have "map_option fw_session_id (bt_get (floating t) fid) = map_option fw_session_id (bt_get (floating s) fid)" for fid
    using arg_cong [OF quiet_eqD(3) [OF assms, of fid], of "map_option fw_session_id"]
    by (simp add: option.map_comp comp_def quiet_floating_def)
  ultimately show ?thesis by (simp add: owners_def fun_eq_iff)
qed

lemma heal_good:
  assumes "good s" and "has_session sid s"
  shows "\<exists>t. heal_focus sid s = (Ok (), t) \<and> good t \<and> shrinks s t \<and> healed sid t \<and> owners t = owners s"
proof -
  obtain t where t: "heal_focus sid s = (Ok (), t)" "quiet t = quiet s" "healed sid t"
    using heals_heal_focus [OF goodD(1) [OF assms(1)] assms(2)] by (auto simp: heals_def)
  moreover have "good t" using preserves_at [OF good_heal(1) assms(1), of sid] t(1) by simp
  ultimately show ?thesis using quiet_shrinks owners_quiet by blast
qed

lemma settle:
  assumes g: "good s"
  shows "wp (pbind (normalize_zoomed_node sid) (\<lambda>_. heal_focus sid))
    (\<lambda>_ t. good t \<and> shrinks s t \<and> healed sid t) (\<lambda>_ t. t = s) s"
proof (cases "has_session sid s")
  case True
  obtain t where t: "normalize_zoomed_node sid s = (Ok (), t)" "good t" "nodes t = nodes s" "buffers t = buffers s"
    "has_session sid t" using normalize_zoomed_Ok [OF g True] by blast
  obtain u where u: "heal_focus sid t = (Ok (), u)" "good u" "shrinks t u" "healed sid u"
    using heal_good [OF t(2,5)] by blast
  have "pbind (normalize_zoomed_node sid) (\<lambda>_. heal_focus sid) s = (Ok (), u)"
    using t(1) u(1) by (simp add: bind_run resume_run)
  then show ?thesis by (rule wp_OkI) (use u shrinks_trans [OF shrinks_nodes [OF t(3,4)]] in blast)
next
  case False
  then have "normalize_zoomed_node sid s = (Err (NotFound (UnknownSession sid)), s)"
    by (auto simp: normalize_zoomed_node_def bind_run step_run resume_run state_session_def has_session_def
        split: option.splits)
  then show ?thesis using g by (simp add: wp_def bind_run resume_run)
qed

section \<open>Panes taken away\<close>

definition removed :: "node_id set \<Rightarrow> server_state \<Rightarrow> server_state \<Rightarrow> bool" where
  "removed D s t \<longleftrightarrow>
     panes t = (\<lambda>m. if m \<in> D then None else panes s m) \<and> D \<inter> dom (layout t) = {} \<and>
     dom (bt_get (buffers t)) = dom (bt_get (buffers s))"

lemma removed_shrinks: "removed D s t \<Longrightarrow> shrinks t u \<Longrightarrow> removed D s u"
  unfolding removed_def shrinks_def by (elim conjE, intro conjI) (simp, blast, simp)

lemma removed_prune:
  assumes "panes t = panes s" and "dom (bt_get (buffers t)) = dom (bt_get (buffers s))"
  shows "removed D s (prune D t)"
proof -
  have "panes (prune D t) = (\<lambda>m. if m \<in> D then None else panes s m)"
    using assms(1) by (auto simp: panes_def fun_eq_iff)
  moreover have "dom (bt_get (buffers (prune D t))) = dom (bt_get (buffers s))"
    using assms(2) by (simp add: dom_def)
  ultimately show ?thesis by (auto simp: removed_def split: if_splits)
qed

lemma removed_cut:
  assumes pd: "bt_get (nodes s) p = Some pd" and nd: "bt_get (nodes s) n = Some nd" and pd': "rekids pd K pd'"
    and t: "t = s\<lparr>nodes := bt_insert n (node_set_parent None nd) (bt_insert p pd' (nodes s))\<rparr>"
  shows "removed D s (prune D t)"
proof (rule removed_prune)
  have "pane_of (bt_get (nodes t) m) = pane_of (bt_get (nodes s) m)" for m
    using pd nd pane_of_kind [of nd "node_set_parent None nd"] pane_of_kind [of pd pd'] pd'
    by (simp add: t rekids_def)
  then show "panes t = panes s" by (simp add: panes_def fun_eq_iff)
qed (simp add: t)

section \<open>Closing a node\<close>

text \<open>
  The request the code does not handle: the only tab of a tabs node inside another container, or inside
  a tabs node that is not an owner's root.
\<close>

definition closable :: "server_state \<Rightarrow> node_id \<Rightarrow> bool" where
  "closable s n \<longleftrightarrow>
     (\<forall>nd p pd. bt_get (nodes s) n = Some nd \<longrightarrow> node_par nd = Some p \<longrightarrow> bt_get (nodes s) p = Some pd \<longrightarrow>
        \<not> nested_single pd)"

lemma good_parent:
  assumes "good s" and "bt_get (nodes s) n = Some nd" and "node_par nd = Some p"
  obtains pd where "bt_get (nodes s) p = Some pd" "n \<in> set (child_ids pd)" "node_session pd = node_session nd"
proof -
  have "layout s n = Some (cell_of nd)" using assms(2) by (simp add: layout_def)
  then obtain d where d: "layout s p = Some d" "n \<in> set (ce_kids d)" "ce_session d = node_session nd"
    using forest_parent [OF goodD(3) [OF assms(1)]] assms(3) by (metis cell_of_simps(2,3))
  then show thesis using that by (auto simp: layout_Some)
qed

text \<open>Unlinking a node, removing its subtree and normalising its old parent.\<close>

lemma cut_child:
  assumes g: "good s" and nd: "bt_get (nodes s) n = Some nd" "node_par nd = Some p" and c: "closable s n"
  shows "wp (pbind (remove_child p n) (\<lambda>_. pbind (remove_subtree_nodes n) (\<lambda>_. normalize_upwards p)))
    (\<lambda>_ t. good t \<and> removed (below (layout s) n) s t) (\<lambda>_ t. good t \<and> removed (below (layout s) n) s t) s"
proof -
  obtain pd where pd: "bt_get (nodes s) p = Some pd" "n \<in> set (child_ids pd)"
    using good_parent [OF g nd] by blast
  have "\<not> nested_single pd" using c nd pd(1) by (auto simp: closable_def)
  then obtain pd' where pd': "rekids pd (set (child_ids pd) - {n}) pd'"
    "remove_child p n s = (Ok (), s\<lparr>nodes := bt_insert n (node_set_parent None nd) (bt_insert p pd' (nodes s))\<rparr>)"
    (is "_ = (_, ?t)")
    using remove_child_run [OF g pd nd(1)] by blast
  note cut = good_cut [OF g pd nd(1) pd'(1) refl]
  let ?u = "prune (below (layout s) n) ?t"
  obtain r t where t: "normalize_upwards p ?u = (r, t)" "good t" "shrinks ?u t" "r = Ok () \<or> (\<exists>e. r = Err e)"
    using normalize_upwards_good [OF cut(2)] by blast
  have "removed (below (layout s) n) s t"
    by (rule removed_shrinks [OF removed_cut [OF pd(1) nd(1) pd'(1) refl] t(3)])
  then show ?thesis
    using t cut(1) pd'(2) by (auto simp: wp_def bind_run resume_run)
qed

lemma wp_bindI: "wp m Q E s \<Longrightarrow> (\<And>x t. Q x t \<Longrightarrow> wp (f x) Q' E t) \<Longrightarrow> wp (pbind m f) Q' E s"
  unfolding wp_pbind by (rule wp_mono)

text \<open>A floating window goes with its tree.\<close>

lemma cut_floating:
  assumes g: "good s" and f: "bt_get (floating s) fid = Some f"
  shows "\<exists>t. pbind (remove_floating_window fid) (\<lambda>f. remove_subtree_nodes (fw_root_node f)) s = (Ok (), t) \<and> good t \<and>
    removed (below (layout s) (fw_root_node f)) s t \<and> (\<forall>sid. has_session sid t \<longleftrightarrow> has_session sid s) \<and>
    owners t = (fst (owners s), (snd (owners s))(fid := None))"
proof -
  obtain t where t: "remove_floating_window fid s = (Ok f, t)" "good t" "nodes t = nodes s" "buffers t = buffers s"
    "parentless (layout t) (fw_root_node f)" "\<not> owner_root t (fw_root_node f)" "floating t = bt_remove fid (floating s)"
    "\<forall>sid. has_session sid t \<longleftrightarrow> has_session sid s"
    "\<forall>sid. map_option se_root_node (bt_get (sessions t) sid) = map_option se_root_node (bt_get (sessions s) sid)"
    using remove_floating_run [OF g f] by blast
  let ?D = "below (layout t) (fw_root_node f)"
  have D: "below (layout s) (fw_root_node f) = ?D"
    using t(3) by (simp add: layout_def below_def up_def)
  have "fw_root_node f \<in> dom (layout t)" using t(5) by (auto simp: parentless_def)
  then have "remove_subtree_nodes (fw_root_node f) t = (Ok (), prune ?D t)"
    using remove_subtree_prune [OF goodD(3) [OF t(2)] goodD(4) [OF t(2)]] by blast
  moreover have "good (prune ?D t)" by (rule good_prune [OF t(2,5,6)])
  moreover have "removed ?D s (prune ?D t)" by (rule removed_prune) (simp_all add: panes_def t(3,4) fun_eq_iff)
  moreover have "has_session sid (prune ?D t) \<longleftrightarrow> has_session sid s" for sid
    using t(8) by (simp add: has_session_def)
  moreover have "owners (prune ?D t) = (fst (owners s), (snd (owners s))(fid := None))"
    using t(7,9) by (simp add: owners_def fun_eq_iff)
  ultimately show ?thesis using t(1) D by (simp add: bind_run resume_run)
qed

section \<open>New roots\<close>

lemma good_fresh_tabs:
  assumes g: "good s" and n: "n = node_ids s"
    and t: "t = s\<lparr>node_ids := Suc n, nodes := bt_insert n (empty_tabs n sid) (nodes s)\<rparr>"
  shows "good t" and "bt_get (nodes s) n = None" and "\<not> owner_root s n" and "\<not> owner_root t n"
proof -
  note ids = idsD [OF goodD(13) [OF g]]
  show fresh: "bt_get (nodes s) n = None" using ids(1) [of n] n by (cases "bt_get (nodes s) n") auto
  have Lt: "layout t m = (if m = n then Some (cell_of (empty_tabs n sid)) else layout s m)" for m
    by (simp add: t layout_def)
  have Ln: "layout s n = None" using fresh by (simp add: layout_def)
  show own: "\<not> owner_root s n"
    using owner_root_parentless [OF g, of n] Ln by (auto simp: parentless_def)
  have "owner_root t n \<longleftrightarrow> owner_root s n" by (rule owner_root_cong) (simp_all add: t)
  with own show "\<not> owner_root t n" by blast
  show "good t"
  proof (rule good_edit_links [OF g])
    show "forest (layout t)"
      by (rule forest_add [OF goodD(3) [OF g], where n = n and c = "cell_of (empty_tabs n sid)"])
        (simp_all add: Lt Ln domIff empty_tabs_def)
    show "edited s m md' \<and> m < node_ids t" if h: "bt_get (nodes t) m = Some md'" for m md'
    proof (cases "m = n")
      case True
      then show ?thesis using h fresh n by (auto simp: t edited_def empty_tabs_def)
    next
      case False
      then have "bt_get (nodes s) m = Some md'" using h by (simp add: t)
      then show ?thesis using edited_same [OF g] ids(1) n by (auto simp: t less_Suc_eq)
    qed
    show "parentless (layout t) r" if "owner_root s r" for r
      using owner_root_parentless [OF g that] own that by (auto simp: parentless_def Lt)
  qed (auto simp: t n is_view_def)
qed

lemma good_sessions:
  assumes g: "good s" and N: "nodes t = nodes s" "buffers t = buffers s" "floating t = floating s"
    and "sessions_ok t" "floating_ok t" "ff_ok t" "ids_ok t"
  shows "good t"
proof -
  have L: "layout t = layout s" by (rule ext) (simp add: N layout_def)
  have v: "is_view t n = is_view s n" for n by (rule is_view_cong [OF L])
  show ?thesis
    using goodD [OF g] assms(5-8)
    by (simp add: good_def inv_def structure_ok_def attach_ok_def views_ok_def tabs_ok_def no_hollow_def
        shown_buffers_ok_def lfd_ok_def L v N)
qed

lemma good_repoint:
  assumes g: "good s" and se: "bt_get (sessions s) sid = Some se"
    and r: "bt_get (nodes s) r = Some (Tabs tb)" "tb_parent tb = None" "tb_session_id tb = sid" and own: "\<not> owner_root s r"
    and se': "se_id se' = se_id se" "se_root_node se' = r" "se_floating se' = se_floating se"
      "se_focused_floating se' = se_focused_floating se"
    and t: "t = s\<lparr>sessions := bt_insert sid se' (sessions s)\<rparr>"
  shows "good t" and "\<not> owner_root t (se_root_node se)"
proof -
  have L: "layout t = layout s" by (rule ext) (simp add: t layout_def)
  have S: "bt_get (sessions t) a = (if a = sid then Some se' else bt_get (sessions s) a)" for a by (simp add: t)
  have Lr: "layout s r = Some (cell_of (Tabs tb))" using r(1) by (simp add: layout_def)
  have "sessions_ok t"
    unfolding sessions_ok_def L
  proof (intro allI impI)
    fix a x
    assume x: "bt_get (sessions t) a = Some x"
    have fl: "floating t = floating s" by (simp add: t)
    show "se_id x = a \<and> distinct (se_floating x) \<and>
        (\<exists>c. layout s (se_root_node x) = Some c \<and> ce_kind c = KTabs \<and> ce_parent c = None \<and> ce_session c = a) \<and>
        (\<forall>fid \<in> set (se_floating x). \<exists>f. bt_get (floating t) fid = Some f \<and> fw_session_id f = a)"
    proof (cases "a = sid")
      case True
      then have "x = se'" using x by (simp add: S)
      then show ?thesis
        using True sessions_okD [OF goodD(6) [OF g] se] se' Lr r(2,3) by (simp add: fl)
    next
      case False
      then have "bt_get (sessions s) a = Some x" using x by (simp add: S)
      then show ?thesis using sessions_okD [OF goodD(6) [OF g], of a x] by (simp add: fl)
    qed
  qed
  moreover have "floating_ok t"
  proof -
    have "\<exists>x. bt_get (sessions t) (fw_session_id f) = Some x \<and> fid \<in> set (se_floating x) \<and> se_root_node x \<noteq> fw_root_node f"
      if f: "bt_get (floating s) fid = Some f" for fid f
    proof -
      obtain x where x: "bt_get (sessions s) (fw_session_id f) = Some x" "fid \<in> set (se_floating x)" "se_root_node x \<noteq> fw_root_node f"
        using floating_okD(3) [OF goodD(7) [OF g] f] by blast
      moreover have "fw_root_node f \<noteq> r" using own owner_rootI(2) [OF f] by auto
      ultimately show ?thesis using se se' by (cases "fw_session_id f = sid") (auto simp: S)
    qed
    then show ?thesis
      using goodD(7) [OF g] unfolding floating_ok_def L by (simp add: t)
  qed
  moreover have "ff_ok t"
    using goodD(10) [OF g] se se'(4) unfolding ff_ok_def S by (auto simp: t split: if_splits)
  moreover have "ids_ok t"
    using goodD(13) [OF g] se se'(4) unfolding ids_ok_def S by (auto simp: t split: if_splits)
  ultimately show "good t" by (intro good_sessions [OF g]) (simp_all add: t)
  show "\<not> owner_root t (se_root_node se)"
  proof
    assume "owner_root t (se_root_node se)"
    then consider a x where "bt_get (sessions t) a = Some x" "se_root_node x = se_root_node se"
      | fid f where "bt_get (floating s) fid = Some f" "fw_root_node f = se_root_node se"
      by (auto simp: owner_root_def t)
    then show False
    proof cases
      case 1
      show False
      proof (cases "a = sid")
        case True
        then show False using 1 se'(2) own owner_rootI(1) [OF se] by (simp add: S)
      next
        case False
        then have x: "bt_get (sessions s) a = Some x" using 1 by (simp add: S)
        obtain c where "layout s (se_root_node se) = Some c" "ce_session c = sid"
          using sessions_okD(3) [OF goodD(6) [OF g] se] by blast
        moreover obtain c' where "layout s (se_root_node x) = Some c'" "ce_session c' = a"
          using sessions_okD(3) [OF goodD(6) [OF g] x] by blast
        ultimately show False using 1(2) False by simp
      qed
    next
      case 2
      then show False using session_root_not_floating [OF g se] by metis
    qed
  qed
qed

lemma insert_insert [simp]: "bt_insert k v (bt_insert k w m) = bt_insert k v m"
  by (rule bt.map_ext) simp

lemma clear_session_root_run:
  assumes g: "good s" and se: "bt_get (sessions s) sid = Some se" and room: "node_ids s < u64_max"
  shows "wp (clear_session_root sid) (\<lambda>_ t. good t \<and> removed (below (layout s) (se_root_node se)) s t \<and> healed sid t)
    (\<lambda>_ _. False) s"
proof -
  define n where "n = node_ids s"
  define s1 where "s1 = s\<lparr>node_ids := Suc n, nodes := bt_insert n (empty_tabs n sid) (nodes s)\<rparr>"
  define s2 where "s2 = s1\<lparr>sessions := bt_insert sid (se\<lparr>se_root_node := n, se_zoomed_node := None\<rparr>) (sessions s1)\<rparr>"
  note s1 = good_fresh_tabs [OF g n_def s1_def]
  have se1: "bt_get (sessions s1) sid = Some se" using se by (simp add: s1_def)
  have "bt_get (nodes s1) n = Some (empty_tabs n sid)" by (simp add: s1_def)
  note s2 = good_repoint [OF s1(1) se1 this [unfolded empty_tabs_def] _ _ s1(4) _ _ _ _ s2_def, simplified]
  let ?r = "se_root_node se" and ?D = "below (layout s) (se_root_node se)"
  have r: "parentless (layout s) ?r" by (rule owner_root_parentless [OF g owner_rootI(1) [OF se]])
  then have rn: "?r \<noteq> n" using s1(2) by (auto simp: parentless_cell)
  have L2: "layout s2 m = (if m = n then Some (cell_of (empty_tabs n sid)) else layout s m)" for m
    by (simp add: s2_def s1_def layout_def)
  have up2: "up (layout s2) = up (layout s)"
    using s1(2) by (auto simp: up_def L2 empty_tabs_def layout_Some split: if_splits)
  then have D2: "below (layout s2) ?r = ?D" by (simp add: below_def)
  have rdom: "?r \<in> dom (layout s)" using r by (auto simp: parentless_def)
  have nD: "n \<notin> ?D" using below_dom [OF goodD(3) [OF g] rdom] s1(2) by (auto simp: dom_layout)
  have gu: "good (prune ?D s2)"
    using good_prune [OF s2(1) _ s2(2)] r rn D2 by (simp add: parentless_def L2)
  have bufs: "buffers (prune ?D s2) = buffers (prune ?D s)" by (simp add: prune_def s2_def s1_def)
  have nods: "nodes (prune ?D s2) = bt_insert n (empty_tabs n sid) (nodes (prune ?D s))"
    by (rule bt.map_ext) (use nD in \<open>simp add: s2_def s1_def\<close>)
  have eq: "prune ?D s2 = (prune ?D s)\<lparr>node_ids := Suc n, nodes := bt_insert n (empty_tabs n sid) (nodes (prune ?D s)),
      sessions := bt_insert sid (se\<lparr>se_root_node := n, se_zoomed_node := None\<rparr>) (sessions s)\<rparr>"
    using nods by (simp add: prune_def s2_def s1_def)
  have rm: "remove_subtree_nodes ?r s = (Ok (), prune ?D s)"
    by (rule remove_subtree_prune [OF goodD(3) [OF g] goodD(4) [OF g] rdom])
  have run: "clear_session_root sid s = heal_focus sid (prune ?D s2)"
    using se rm room unfolding eq
    by (simp add: clear_session_root_def bind_run resume_run step_run root_node_def state_session_def next_node_id_def
        id_next_no_wrap n_def put_node_run session_mut_run cong: run_congs)
  have "removed ?D s (prune ?D s2)"
    by (rule removed_prune)
      (use s1(2) in \<open>auto simp: panes_def s2_def s1_def fun_eq_iff empty_tabs_def\<close>)
  moreover obtain t where "heal_focus sid (prune ?D s2) = (Ok (), t)" "good t" "shrinks (prune ?D s2) t" "healed sid t"
    using heal_good [OF gu, of sid] by (auto simp: has_session_def s2_def)
  ultimately show ?thesis using removed_shrinks by (intro wp_OkI [where x = "()" and t = t]) (simp_all add: run)
qed

section \<open>The closing methods\<close>

lemma close_node_run:
  assumes g: "good s" and nd: "bt_get (nodes s) n = Some nd" and c: "closable s n"
    and room: "is_session_root s n \<Longrightarrow> node_ids s < u64_max"
  shows "wp (close_node n) (\<lambda>_ t. good t \<and> removed (below (layout s) n) s t \<and> healed (node_session nd) t)
    (\<lambda>_ t. good t \<and> (removed (below (layout s) n) s t \<or> t = s \<and> node_par nd = None)) s"
proof (cases "is_session_root s n")
  case True
  then obtain sid se where se: "bt_get (sessions s) sid = Some se" "se_root_node se = n"
    by (auto simp: is_session_root_iff)
  have "node_session nd = sid"
    using sessions_okD(3) [OF goodD(6) [OF g] se(1)] se(2) nd by (auto simp: layout_Some)
  moreover have "close_node n s = clear_session_root (node_session nd) s"
    using nd True by (simp add: close_node_def bind_run step_run resume_run node_session_id_def state_node_def
        cong: run_congs)
  ultimately have "wp (close_node n) (\<lambda>_ t. good t \<and> removed (below (layout s) n) s t \<and> healed (node_session nd) t)
      (\<lambda>_ _. False) s"
    using clear_session_root_run [OF g se(1) room [OF True]] se(2) by (simp add: wp_def)
  then show ?thesis by (rule wp_mono) simp_all
next
  case False
  let ?sid = "node_session nd" and ?D = "below (layout s) n"
  let ?settle = "\<lambda>_. pbind (normalize_zoomed_node ?sid) (\<lambda>_. heal_focus ?sid)"
  let ?cut = "case node_par nd of
      Some parent \<Rightarrow>
        pbind (remove_child parent n) (\<lambda>_. pbind (remove_subtree_nodes n) (\<lambda>_. normalize_upwards parent))
    | None \<Rightarrow>
        pbind (gets (\<lambda>s. floating_id_by_root s n)) (\<lambda>fid.
        case fid of
          Some fid \<Rightarrow> pbind (remove_floating_window fid) (\<lambda>f. remove_subtree_nodes (fw_root_node f))
        | None \<Rightarrow> raise (InvalidInput (NoOwningContainer n)))"
  have run: "close_node n s = pbind ?cut ?settle s"
    using nd False by (simp add: close_node_def bind_run [of "reads _"] bind_run [of "gets _"] step_run resume_run
        node_session_id_def node_parent_def state_node_def cong: run_congs)
  let ?E = "\<lambda>_ t. good t \<and> (removed ?D s t \<or> t = s \<and> node_par nd = None)"
  have cut: "wp ?cut (\<lambda>_ t. good t \<and> removed ?D s t) ?E s"
  proof (cases "node_par nd")
    case (Some p)
    then show ?thesis using wp_mono [OF cut_child [OF g nd Some c], of _ ?E] by simp
  next
    case None
    show ?thesis
    proof (cases "floating_id_by_root s n")
      case N: None
      then show ?thesis using None g by (simp add: wp_pbind)
    next
      case (Some fid)
      then obtain f where f: "bt_get (floating s) fid = Some f" "fw_root_node f = n"
        using floating_id_by_root_Some [OF goodD(7) [OF g]] by blast
      then show ?thesis
        using cut_floating [OF g f(1)] None Some by (auto simp: wp_pbind [of "gets _"] intro: wp_OkI)
    qed
  qed
  have "wp (pbind ?cut ?settle) (\<lambda>_ t. good t \<and> removed ?D s t \<and> healed ?sid t) ?E s"
  proof (rule wp_bindI [OF cut])
    fix x t
    assume t: "good t \<and> removed ?D s t"
    show "wp (?settle x) (\<lambda>_ t. good t \<and> removed ?D s t \<and> healed ?sid t) ?E t"
      by (rule wp_mono [OF settle]) (use t removed_shrinks in blast)+
  qed
  then show ?thesis by (simp add: wp_def run)
qed

lemma close_tab_run:
  assumes g: "good s" and nd: "bt_get (nodes s) n = Some (Tabs tb)" and i: "i < length (tb_tabs tb)"
    and single: "\<not> nested_single (Tabs tb)"
  shows "wp (close_tab n i)
    (\<lambda>_ t. good t \<and> removed (below (layout s) (te_child (tb_tabs tb ! i))) s t \<and> healed (tb_session_id tb) t)
    (\<lambda>_. good) s"
proof -
  let ?k = "te_child (tb_tabs tb ! i)" and ?rest = "vec_remove i (tb_tabs tb)" and ?sid = "tb_session_id tb"
  let ?tb = "tb\<lparr>tb_tabs := ?rest, tb_active := active_after_remove (tb_active tb) i (length ?rest),
     tb_last_focused_descendant := (if ?rest = [] then None else tb_last_focused_descendant tb)\<rparr>"
  have kid: "?k \<in> set (child_ids (Tabs tb))" using i by simp
  note kids = good_kids [OF g nd kid]
  obtain kd where kd: "bt_get (nodes s) ?k = Some kd" using kids(2) by blast
  have pd': "rekids (Tabs tb) (set (child_ids (Tabs tb)) - {?k}) (Tabs ?tb)"
    using rekids_tabs_remove [OF _ i refl kids(4) single, of "tb_last_focused_descendant ?tb"] kids(1) by simp
  let ?t = "s\<lparr>nodes := bt_insert ?k (node_set_parent None kd) (bt_insert n (Tabs ?tb) (nodes s))\<rparr>"
  note cut = good_cut [OF g nd kid kd pd' refl]
  let ?D = "below (layout s) ?k"
  have rm: "removed ?D s (prune ?D ?t)" by (rule removed_cut [OF nd kd pd' refl])
  have run: "close_tab n i s = pbind (normalize_upwards n) (\<lambda>_.
      pbind (normalize_zoomed_node ?sid) (\<lambda>_. heal_focus ?sid)) (prune ?D ?t)"
    using nd i kd kids(3) cut(1)
    by (simp add: close_tab_def bind_run [of "reads _"] bind_run [of "put_node _ _"] bind_run [of "set_parent _ _"]
        bind_run [of "remove_subtree_nodes _"] step_run resume_run node_session_id_def state_node_def put_node_run
        set_parent_def node_mut_run Let_def cong: run_congs)
  obtain r t where t: "normalize_upwards n (prune ?D ?t) = (r, t)" "good t" "shrinks (prune ?D ?t) t"
    "r = Ok () \<or> (\<exists>e. r = Err e)" using normalize_upwards_good [OF cut(2)] by blast
  have up: "wp (normalize_upwards n) (\<lambda>_ t. good t \<and> removed ?D s t) (\<lambda>_. good) (prune ?D ?t)"
    using t removed_shrinks [OF rm] by (auto simp: wp_def)
  have "wp (pbind (normalize_upwards n) (\<lambda>_. pbind (normalize_zoomed_node ?sid) (\<lambda>_. heal_focus ?sid)))
      (\<lambda>_ t. good t \<and> removed ?D s t \<and> healed ?sid t) (\<lambda>_. good) (prune ?D ?t)"
  proof (rule wp_bindI [OF up])
    fix t
    assume t: "good t \<and> removed ?D s t"
    show "wp (pbind (normalize_zoomed_node ?sid) (\<lambda>_. heal_focus ?sid))
        (\<lambda>_ t. good t \<and> removed ?D s t \<and> healed ?sid t) (\<lambda>_. good) t"
      by (rule wp_mono [OF settle]) (use t removed_shrinks in blast)+
  qed
  then show ?thesis by (simp add: wp_def run)
qed

lemma close_floating_run:
  assumes g: "good s" and f: "bt_get (floating s) fid = Some f"
  shows "\<exists>t. close_floating fid s = (Ok (), t) \<and> good t \<and> removed (below (layout s) (fw_root_node f)) s t \<and>
    healed (fw_session_id f) t \<and> owners t = (fst (owners s), (snd (owners s))(fid := None))"
proof -
  obtain a where a: "pbind (remove_floating_window fid) (\<lambda>f. remove_subtree_nodes (fw_root_node f)) s = (Ok (), a)" "good a"
    "removed (below (layout s) (fw_root_node f)) s a" "\<forall>sid. has_session sid a \<longleftrightarrow> has_session sid s"
    "owners a = (fst (owners s), (snd (owners s))(fid := None))"
    using cut_floating [OF g f] by blast
  have "has_session (fw_session_id f) a"
    using a(4) floating_okD(3) [OF goodD(7) [OF g] f] by (auto simp: has_session_def)
  then obtain b where b: "normalize_zoomed_node (fw_session_id f) a = (Ok (), b)" "good b" "nodes b = nodes a"
    "buffers b = buffers a" "has_session (fw_session_id f) b" "owners b = owners a"
    using normalize_zoomed_Ok [OF a(2)] by blast
  obtain t where t: "heal_focus (fw_session_id f) b = (Ok (), t)" "good t" "shrinks b t" "healed (fw_session_id f) t"
    "owners t = owners b" using heal_good [OF b(2,5)] by blast
  obtain c where c: "remove_floating_window fid s = (Ok f, c)" using remove_floating_run [OF g f] by blast
  have "remove_subtree_nodes (fw_root_node f) c = (Ok (), a)" using a(1) c by (simp add: bind_run resume_run)
  then have "close_floating fid s = (Ok (), t)"
    using b(1) c t(1) by (simp add: close_floating_def bind_run resume_run)
  moreover have "removed (below (layout s) (fw_root_node f)) s t"
    by (rule removed_shrinks [OF a(3) shrinks_trans [OF shrinks_nodes [OF b(3,4)] t(3)]])
  ultimately show ?thesis using t a(5) b(6) by simp
qed

section \<open>Closing a session\<close>

lemma close_floatings_run:
  assumes "good s" and "distinct fids" and "\<And>fid. fid \<in> set fids \<Longrightarrow> bt_get (floating s) fid \<noteq> None"
  shows "\<exists>t. for_each fids close_floating s = (Ok (), t) \<and> good t \<and>
    owners t = (fst (owners s), \<lambda>fid. if fid \<in> set fids then None else snd (owners s) fid)"
  using assms
proof (induction fids arbitrary: s)
  case (Cons fid fids)
  obtain f where f: "bt_get (floating s) fid = Some f" using Cons.prems(3) by fastforce
  obtain a where a: "close_floating fid s = (Ok (), a)" "good a"
    "owners a = (fst (owners s), (snd (owners s))(fid := None))"
    using close_floating_run [OF Cons.prems(1) f] by blast
  have "bt_get (floating a) gid \<noteq> None" if "gid \<in> set fids" for gid
  proof -
    have "snd (owners a) gid = snd (owners s) gid" using a(3) that Cons.prems(2) by auto
    then show ?thesis using Cons.prems(3) [of gid] that by (auto simp: owners_def)
  qed
  then obtain t where "for_each fids close_floating a = (Ok (), t)" "good t"
    "owners t = (fst (owners a), \<lambda>fid. if fid \<in> set fids then None else snd (owners a) fid)"
    using Cons.IH [OF a(2)] Cons.prems(2) by auto
  then show ?case using a by (auto simp: bind_run resume_run fun_eq_iff)
qed (simp add: step_run owners_def)

lemma good_drop_session:
  assumes g: "good s" and se: "bt_get (sessions s) sid = Some se"
    and none: "\<And>fid f. bt_get (floating s) fid = Some f \<Longrightarrow> fw_session_id f \<noteq> sid"
    and t: "t = s\<lparr>sessions := bt_remove sid (sessions s)\<rparr>"
  shows "good t" and "\<not> owner_root t (se_root_node se)"
proof -
  have L: "layout t = layout s" by (rule ext) (simp add: t layout_def)
  have S: "bt_get (sessions t) a = (if a = sid then None else bt_get (sessions s) a)" for a by (simp add: t)
  have "sessions_ok t" using goodD(6) [OF g] unfolding sessions_ok_def L S by (simp add: t)
  moreover have "floating_ok t"
    using goodD(7) [OF g] none unfolding floating_ok_def L S by (simp add: t)
  moreover have "ff_ok t" using goodD(10) [OF g] unfolding ff_ok_def S by (simp add: t)
  moreover have "ids_ok t" using goodD(13) [OF g] unfolding ids_ok_def S by (simp add: t)
  ultimately show "good t" by (intro good_sessions [OF g]) (simp_all add: t)
  show "\<not> owner_root t (se_root_node se)"
  proof
    assume "owner_root t (se_root_node se)"
    then consider a x where "a \<noteq> sid" "bt_get (sessions s) a = Some x" "se_root_node x = se_root_node se"
      | fid f where "bt_get (floating s) fid = Some f" "fw_root_node f = se_root_node se"
      by (auto simp: owner_root_def t split: if_splits)
    then show False
    proof cases
      case 1
      then show False
        using sessions_okD(3) [OF goodD(6) [OF g] se] sessions_okD(3) [OF goodD(6) [OF g] 1(2)] by auto
    next
      case 2
      then show False using session_root_not_floating [OF g se] by metis
    qed
  qed
qed

lemma close_session_run:
  assumes g: "good s" and se: "bt_get (sessions s) sid = Some se"
  shows "\<exists>t. close_session sid s = (Ok (), t) \<and> good t \<and> bt_get (sessions t) sid = None \<and>
    (\<forall>fid f. bt_get (floating t) fid = Some f \<longrightarrow> fw_session_id f \<noteq> sid) \<and>
    (\<forall>a. a \<noteq> sid \<longrightarrow> has_session a t = has_session a s) \<and>
    bt_get (nodes t) (se_root_node se) = None"
proof -
  note ok = sessions_okD [OF goodD(6) [OF g] se]
  obtain a where a: "for_each (se_floating se) close_floating s = (Ok (), a)" "good a"
    "owners a = (fst (owners s), \<lambda>fid. if fid \<in> set (se_floating se) then None else snd (owners s) fid)"
    using close_floatings_run [OF g ok(2)] ok(4) by fastforce
  have roots: "map_option se_root_node (bt_get (sessions a) x) = map_option se_root_node (bt_get (sessions s) x)" for x
    using a(3) by (simp add: owners_def fun_eq_iff)
  obtain se' where se': "bt_get (sessions a) sid = Some se'" "se_root_node se' = se_root_node se"
    using roots [of sid] se by auto
  have none: "fw_session_id f \<noteq> sid" if f: "bt_get (floating a) fid = Some f" for fid f
  proof
    assume sid: "fw_session_id f = sid"
    have "snd (owners a) fid = Some sid" using f sid by (simp add: owners_def)
    then have "fid \<notin> set (se_floating se)" "snd (owners s) fid = Some sid"
      using a(3) by (auto split: if_splits)
    then obtain h where "bt_get (floating s) fid = Some h" "fw_session_id h = sid" by (auto simp: owners_def)
    then show False using floating_okD(3) [OF goodD(7) [OF g]] se \<open>fid \<notin> set (se_floating se)\<close> by fastforce
  qed
  let ?b = "a\<lparr>sessions := bt_remove sid (sessions a)\<rparr>" and ?r = "se_root_node se"
  have b: "good ?b" "\<not> owner_root ?b ?r" using good_drop_session [OF a(2) se'(1) none refl] se'(2) by auto
  let ?D = "below (layout a) ?r"
  have Lb: "layout ?b = layout a" by (rule ext) (simp add: layout_def)
  have r: "parentless (layout a) ?r" using owner_root_parentless [OF a(2) owner_rootI(1) [OF se'(1)]] se'(2) by simp
  then have "?r \<in> dom (layout a)" by (auto simp: parentless_def)
  then have "remove_subtree_nodes ?r a = (Ok (), prune ?D a)"
    by (rule remove_subtree_prune [OF goodD(3) [OF a(2)] goodD(4) [OF a(2)]])
  moreover have "(prune ?D a)\<lparr>sessions := bt_remove sid (sessions a)\<rparr> = prune ?D ?b" by (simp add: prune_def)
  ultimately have run: "close_session sid s = (Ok (), prune ?D ?b)"
    using se a(1) by (simp add: close_session_def bind_run step_run resume_run state_session_def)
  have "good (prune ?D ?b)" using good_prune [OF b(1) _ b(2)] r Lb by simp
  moreover have "has_session x (prune ?D ?b) = has_session x s" if "x \<noteq> sid" for x
    using roots [of x] that by (cases "bt_get (sessions a) x"; cases "bt_get (sessions s) x") (auto simp: has_session_def)
  ultimately show ?thesis using run none by (intro exI [of _ "prune ?D ?b"]) auto
qed

end
