(* ===== verification/Server_Grow.thy ===== *)
theory Server_Grow
  imports Server_Close
begin

text \<open>
  The methods that create: buffers, views, windows, panes, floating windows and sessions keep the
  invariant, and what they create is shown and focused.
\<close>

section \<open>Buffers\<close>

lemma shown_views: "shown_buffers_ok s \<Longrightarrow> views_ok s"
  unfolding shown_buffers_layout views_ok_def by blast

lemma good_buffers_if:
  assumes g: "good s" and N: "sessions t = sessions s" "nodes t = nodes s" "floating t = floating s"
    "session_ids t = session_ids s" "node_ids t = node_ids s" "floating_ids t = floating_ids s"
    and b: "attach_ok t" "shown_buffers_ok t" "\<And>bid b. bt_get (buffers t) bid = Some b \<Longrightarrow> bid < buffer_ids t"
  shows "good t"
proof -
  have L: "layout t = layout s" by (rule ext) (simp add: layout_def N)
  have v: "is_view t n = is_view s n" for n by (rule is_view_cong [OF L])
  have "ids_ok t" using goodD(13) [OF g] b(3) by (simp add: ids_ok_def N)
  then show ?thesis
    using goodD [OF g] b(1,2) shown_views [OF b(2)]
    by (simp add: good_def inv_def structure_ok_def sessions_ok_def floating_ok_def tabs_ok_def lfd_ok_def
        ff_ok_def no_hollow_def L v N)
qed

lemma good_new_buffer:
  assumes g: "good s" and "bid = buffer_ids s" and "bu_attachment b = Detached"
    and t: "t = s\<lparr>buffer_ids := Suc bid, buffers := bt_insert bid b (buffers s)\<rparr>"
  shows "good t"
proof (rule good_buffers_if [OF g])
  note ids = idsD(4) [OF goodD(13) [OF g]]
  have fresh: "bt_get (buffers s) bid = None" using ids [of bid] assms(2) by (cases "bt_get (buffers s) bid") auto
  have B: "bt_get (buffers t) a = (if a = bid then Some b else bt_get (buffers s) a)" for a by (simp add: t)
  show "attach_ok t"
    using goodD(4) [OF g] assms(3) unfolding attach_ok_def B by (auto simp: t split: if_splits)
  show "shown_buffers_ok t"
    using goodD(11) [OF g] fresh unfolding shown_buffers_ok_def B by (auto simp: t) (metis option.distinct(1))
  show "a < buffer_ids t" if "bt_get (buffers t) a = Some x" for a x
    using that ids [of a x] assms(2) by (auto simp: B t split: if_splits)
qed (simp_all add: t)

lemma good_drop_buffer:
  assumes g: "good s" and "bt_get (buffers s) bid = Some b" and "bu_attachment b = Detached"
    and t: "t = s\<lparr>buffers := bt_remove bid (buffers s)\<rparr>"
  shows "good t"
proof (rule good_buffers_if [OF g])
  have B: "bt_get (buffers t) a = (if a = bid then None else bt_get (buffers s) a)" for a by (simp add: t)
  show "attach_ok t" using goodD(4) [OF g] unfolding attach_ok_def B by (simp add: t)
  show "shown_buffers_ok t"
    unfolding shown_buffers_ok_def
  proof (intro allI impI)
    fix n v
    assume "bt_get (nodes t) n = Some (BufferView v)"
    then obtain x where x: "bt_get (buffers s) (bv_buffer_id v) = Some x" "bu_attachment x = Attached n"
      using goodD(11) [OF g] by (auto simp: shown_buffers_ok_def t)
    then have "bv_buffer_id v \<noteq> bid" using assms(2,3) by auto
    then show "\<exists>b. bt_get (buffers t) (bv_buffer_id v) = Some b \<and> bu_attachment b = Attached n" using x by (simp add: B)
  qed
  show "a < buffer_ids t" if "bt_get (buffers t) a = Some x" for a x
    using that idsD(4) [OF goodD(13) [OF g]] by (auto simp: B t split: if_splits)
qed (simp_all add: t)

lemma create_buffer_run:
  assumes g: "good s" and room: "buffer_ids s < u64_max"
  shows "\<exists>t. create_buffer_with_env title command cwd env now s = (Ok (buffer_ids s), t) \<and> good t \<and>
    bt_get (buffers s) (buffer_ids s) = None \<and>
    bt_get (buffers t) (buffer_ids s) = Some (buffer_new (buffer_ids s) title command cwd env now) \<and>
    t = s\<lparr>buffer_ids := Suc (buffer_ids s),
         buffers := bt_insert (buffer_ids s) (buffer_new (buffer_ids s) title command cwd env now) (buffers s)\<rparr>"
proof -
  let ?bid = "buffer_ids s" and ?b = "buffer_new (buffer_ids s) title command cwd env now"
  let ?t = "s\<lparr>buffer_ids := Suc ?bid, buffers := bt_insert ?bid ?b (buffers s)\<rparr>"
  have "create_buffer_with_env title command cwd env now s = (Ok ?bid, ?t)"
    using room by (simp add: create_buffer_with_env_def bind_run resume_run step_run next_buffer_id_def
        id_next_no_wrap put_buffer_def)
  moreover have "good ?t" by (rule good_new_buffer [OF g refl _ refl]) (simp add: buffer_new_def)
  moreover have "bt_get (buffers s) ?bid = None"
    using idsD(4) [OF goodD(13) [OF g], of ?bid] by (cases "bt_get (buffers s) ?bid") auto
  ultimately show ?thesis by simp
qed

lemma safe_remove_buffer:
  assumes "good s"
  shows "safe (remove_buffer bid) s"
proof (cases "bt_get (buffers s) bid")
  case None
  then show ?thesis using assms by (simp add: remove_buffer_def wp_simps state_buffer_def)
next
  case (Some b)
  then show ?thesis
    using assms good_drop_buffer [OF assms Some _ refl]
    by (simp add: remove_buffer_def wp_simps state_buffer_def)
qed

section \<open>Views\<close>

lemma below_childless:
  assumes "good s" and "bt_get (nodes s) n = Some nd" and "child_ids nd = []"
  shows "below (layout s) n = {n}"
  using below_kids [OF goodD(3) [OF assms(1)], of n "cell_of nd"] assms(2,3) by (simp add: layout_def)

lemma good_new_view:
  assumes g: "good s" and n: "n = node_ids s" and b: "bt_get (buffers s) bid = Some b" "bu_attachment b = Detached"
    and v: "bv_id v = n" "bv_parent v = None" "bv_buffer_id v = bid"
    and b': "bu_attachment b' = Attached n"
    and t: "t = s\<lparr>node_ids := Suc n, nodes := bt_insert n (BufferView v) (nodes s), buffers := bt_insert bid b' (buffers s)\<rparr>"
  shows "good t" and "bt_get (nodes s) n = None" and "\<not> owner_root s n"
proof -
  note ids = idsD [OF goodD(13) [OF g]]
  show fresh: "bt_get (nodes s) n = None" using ids(1) [of n] n by (cases "bt_get (nodes s) n") auto
  have Lt: "layout t m = (if m = n then Some (cell_of (BufferView v)) else layout s m)" for m
    by (simp add: t layout_def)
  have Ln: "layout s n = None" using fresh by (simp add: layout_def)
  have N: "bt_get (nodes t) m = (if m = n then Some (BufferView v) else bt_get (nodes s) m)" for m by (simp add: t)
  have B: "bt_get (buffers t) a = (if a = bid then Some b' else bt_get (buffers s) a)" for a by (simp add: t)
  have R: "sessions t = sessions s" "floating t = floating s" "session_ids t = session_ids s"
    "floating_ids t = floating_ids s" "buffer_ids t = buffer_ids s" "node_ids t = Suc n" by (simp_all add: t)
  show own: "\<not> owner_root s n"
    using owner_root_parentless [OF g, of n] Ln by (auto simp: parentless_def)
  have view: "is_view t m \<longleftrightarrow> m = n \<or> is_view s m" for m by (simp add: is_view_def N)
  have "forest (layout t)"
    by (rule forest_add [OF goodD(3) [OF g], where n = n and c = "cell_of (BufferView v)"])
      (use v in \<open>simp_all add: Lt Ln domIff\<close>)
  moreover have "attach_ok t"
    unfolding attach_ok_def
  proof (intro allI impI)
    fix a x m
    assume x: "bt_get (buffers t) a = Some x" "bu_attachment x = Attached m"
    show "\<exists>v. bt_get (nodes t) m = Some (BufferView v) \<and> bv_buffer_id v = a"
    proof (cases "a = bid")
      case True
      then have "m = n" using x b' by (simp add: B)
      then show ?thesis using True v(3) by (simp add: N)
    next
      case False
      then have "bt_get (buffers s) a = Some x" using x(1) by (simp add: B)
      then obtain w where w: "bt_get (nodes s) m = Some (BufferView w)" "bv_buffer_id w = a"
        using goodD(4) [OF g] x(2) unfolding attach_ok_def by blast
      then have "m \<noteq> n" using fresh by auto
      then show ?thesis using w by (simp add: N)
    qed
  qed
  moreover have shown: "shown_buffers_ok t"
    unfolding shown_buffers_ok_def
  proof (intro allI impI)
    fix m w
    assume w: "bt_get (nodes t) m = Some (BufferView w)"
    show "\<exists>x. bt_get (buffers t) (bv_buffer_id w) = Some x \<and> bu_attachment x = Attached m"
    proof (cases "m = n")
      case True
      then show ?thesis using w v(3) b' by (auto simp: N B)
    next
      case False
      then obtain x where x: "bt_get (buffers s) (bv_buffer_id w) = Some x" "bu_attachment x = Attached m"
        using goodD(11) [OF g] w unfolding shown_buffers_ok_def N by auto
      then have "bv_buffer_id w \<noteq> bid" using b by auto
      then show ?thesis using x by (simp add: B)
    qed
  qed
  moreover have "views_ok t" by (rule shown_views [OF shown])
  moreover have "sessions_ok t"
    unfolding sessions_ok_def R
  proof (intro allI impI)
    fix sid x
    assume x: "bt_get (sessions s) sid = Some x"
    have "se_root_node x \<noteq> n" using own owner_rootI(1) [OF x] by auto
    then show "se_id x = sid \<and> distinct (se_floating x) \<and>
        (\<exists>c. layout t (se_root_node x) = Some c \<and> ce_kind c = KTabs \<and> ce_parent c = None \<and> ce_session c = sid) \<and>
        (\<forall>fid \<in> set (se_floating x). \<exists>f. bt_get (floating s) fid = Some f \<and> fw_session_id f = sid)"
      using sessions_okD [OF goodD(6) [OF g] x] by (simp add: Lt)
  qed
  moreover have "floating_ok t"
    by (rule floating_ok_kept [OF goodD(7) [OF g] R(2,1)])
      (use floating_okD(2) [OF goodD(7) [OF g]] own owner_rootI(2) in \<open>auto simp: Lt\<close>)
  moreover have "tabs_ok t" using goodD(8) [OF g] by (auto simp: tabs_ok_def N)
  moreover have "lfd_ok t"
  proof -
    have new: "is_view t l" if "l < node_ids s" "l \<in> dom (layout t)" "l \<in> dom (layout s) \<longrightarrow> is_view s l" for l
      using that n by (auto simp: Lt view domIff split: if_splits)
    show ?thesis
      unfolding lfd_ok_def R N
      using new lfd_okD [OF goodD(9) [OF g]] ids(2,3) by (auto split: if_splits)
  qed
  moreover have "ff_ok t" using goodD(10) [OF g] by (simp add: ff_ok_def R)
  moreover have "no_hollow t" using goodD(12) [OF g] v(2) by (auto simp: no_hollow_def Lt split: if_splits)
  moreover have "ids_ok t"
  proof (rule ids_okI)
    show "m < node_ids t" if "bt_get (nodes t) m = Some md" for m md
      using that ids(1) n by (auto simp: N R less_Suc_eq split: if_splits)
    show "l < node_ids t" if "bt_get (nodes t) m = Some md" "memo md = Some l" for m md l
      using that ids(2) n by (auto simp: N R less_Suc_eq split: if_splits)
    show "l < node_ids t" if "bt_get (floating t) fid = Some f" "fw_last_focused_leaf f = Some l" for fid f l
      using that ids(3) n by (auto simp: R less_Suc_eq)
    show "a < buffer_ids t" if "bt_get (buffers t) a = Some x" for a x
      using that ids(4) b(1) by (auto simp: B R split: if_splits)
  qed (use ids(5,6,7) in \<open>auto simp: R\<close>)
  ultimately show "good t" by (simp add: good_def inv_def structure_ok_def)
qed

definition new_view :: "node_id \<Rightarrow> session_id \<Rightarrow> buffer_id \<Rightarrow> buffer \<Rightarrow> buffer_view_node" where
  "new_view n sid bid b =
     \<lparr>bv_id = n, bv_session_id = sid, bv_parent = None, bv_buffer_id = bid,
      bv_view = buffer_view_state_default\<lparr>vs_last_render_size := bu_pty_size b\<rparr>\<rparr>"

lemma good_bump: "good s \<Longrightarrow> good (s\<lparr>node_ids := Suc (node_ids s)\<rparr>)"
proof -
  assume g: "good s"
  let ?t = "s\<lparr>node_ids := Suc (node_ids s)\<rparr>"
  have L: "layout ?t = layout s" by (rule ext) (simp add: layout_def)
  have v: "is_view ?t n = is_view s n" for n by (rule is_view_cong [OF L])
  have "ids_ok ?t"
    by (rule ids_okI) (use idsD [OF goodD(13) [OF g]] in \<open>auto simp: less_Suc_eq\<close>)
  then show ?thesis
    using goodD [OF g]
    by (simp add: good_def inv_def structure_ok_def sessions_ok_def floating_ok_def tabs_ok_def lfd_ok_def
        ff_ok_def no_hollow_def attach_ok_def views_ok_def shown_buffers_ok_def L v)
qed

text \<open>
  A new view is made for a buffer that is shown nowhere; for a buffer shown elsewhere the record is
  taken back, and only the counter has moved.
\<close>

lemma create_buffer_view_run:
  assumes g: "good s" and room: "node_ids s < u64_max" and se: "has_session sid s"
    and b: "bt_get (buffers s) bid = Some b" "bu_attachment b = Detached"
  shows "\<exists>t. create_buffer_view sid bid s = (Ok (node_ids s), t) \<and> good t \<and> bt_get (nodes s) (node_ids s) = None \<and>
    \<not> owner_root t (node_ids s) \<and>
    t = s\<lparr>node_ids := Suc (node_ids s),
         nodes := bt_insert (node_ids s) (BufferView (new_view (node_ids s) sid bid b)) (nodes s),
         buffers := bt_insert bid (b\<lparr>bu_attachment := Attached (node_ids s), bu_ever_attached := True\<rparr>) (buffers s)\<rparr>"
proof -
  let ?n = "node_ids s"
  let ?t = "s\<lparr>node_ids := Suc ?n, nodes := bt_insert ?n (BufferView (new_view ?n sid bid b)) (nodes s),
     buffers := bt_insert bid (b\<lparr>bu_attachment := Attached ?n, bu_ever_attached := True\<rparr>) (buffers s)\<rparr>"
  note new = good_new_view [OF g refl b, of "new_view ?n sid bid b" "b\<lparr>bu_attachment := Attached ?n, bu_ever_attached := True\<rparr>" ?t]
  have "create_buffer_view sid bid s = (Ok ?n, ?t)"
    using b se room
    by (auto simp: create_buffer_view_def create_unattached_buffer_view_def attach_buffer_def bind_run step_run
        resume_run next_node_id_def id_next_no_wrap put_node_run state_buffer_def ensure_session_exists_def
        has_session_def state_session_def match_result_def buffer_view_buffer_id_def state_node_def new_view_def
        set_buffer_attached_def buffer_mut_run cong: run_congs)
  moreover have "good ?t" "bt_get (nodes s) ?n = None" "\<not> owner_root s ?n"
    by (rule new; simp add: new_view_def)+
  moreover have "owner_root ?t ?n \<longleftrightarrow> owner_root s ?n" by (rule owner_root_cong) simp_all
  ultimately show ?thesis by blast
qed

lemma create_buffer_view_fails:
  assumes g: "good s" and room: "node_ids s < u64_max"
    and no: "\<not> (has_session sid s \<and> (\<exists>b. bt_get (buffers s) bid = Some b \<and> bu_attachment b = Detached))"
  shows "wp (create_buffer_view sid bid) (\<lambda>_ _. False) (\<lambda>_ t. good t \<and> panes t = panes s) s"
proof (cases "has_session sid s \<and> (\<exists>b. bt_get (buffers s) bid = Some b)")
  case False
  then show ?thesis
    using g by (auto simp: create_buffer_view_def create_unattached_buffer_view_def wp_simps state_buffer_def
        ensure_session_exists_def has_session_def state_session_def split: option.splits)
next
  case True
  then obtain b where b: "bt_get (buffers s) bid = Some b" by blast
  then obtain m where Attached: "bu_attachment b = Attached m" using no True by (cases "bu_attachment b") auto
  let ?n = "node_ids s"
  have fresh: "bt_get (nodes s) ?n = None"
      using idsD(1) [OF goodD(13) [OF g], of ?n] by (cases "bt_get (nodes s) ?n") auto
  have "m \<noteq> ?n" using goodD(4) [OF g] b Attached fresh by (fastforce simp: attach_ok_def)
  moreover have "bt_remove ?n (bt_insert ?n x (nodes s)) = nodes s" for x
      by (rule bt.map_ext) (simp add: fresh)
  ultimately have "create_buffer_view sid bid s =
        (Err (Conflict (BufferAlreadyAttached bid m)), s\<lparr>node_ids := Suc ?n\<rparr>)"
      using b Attached True room
      by (auto simp: create_buffer_view_def create_unattached_buffer_view_def attach_buffer_def bind_run step_run
          resume_run next_node_id_def id_next_no_wrap put_node_run drop_node_run state_buffer_def
          ensure_session_exists_def has_session_def state_session_def match_result_def cong: run_congs)
  then show ?thesis using good_bump [OF g] by (simp add: wp_def panes_def fun_eq_iff)
qed

section \<open>Tabs\<close>

text \<open>The focus methods fail before they change anything.\<close>

lemma safe_focus_leaf:
  assumes g: "good s"
  shows "wp (focus_leaf sid l) (\<lambda>_ t. good t \<and> quiet t = quiet s) (\<lambda>_ t. t = s) s"
proof -
  have "good (snd (focus_leaf sid l s))" by (rule preserves_at [OF good_focus_leaf g])
  with focus_leaf_cases [OF goodD(1) [OF g], of sid l] focus_leaf_healed [OF goodD(1) [OF g], of sid _ l] g
  show ?thesis by (auto simp: wp_def)
qed

lemma safe_heal_focus:
  assumes g: "good s"
  shows "wp (heal_focus sid) (\<lambda>_ t. good t \<and> quiet t = quiet s) (\<lambda>_ t. t = s) s"
proof (cases "has_session sid s")
  case True
  then obtain t where t: "heal_focus sid s = (Ok (), t)" "good t" using heal_good [OF g True] by blast
  moreover have "quiet t = quiet s" using keeps_at [OF quiet_heal_focus, of sid s] t(1) by simp
  ultimately show ?thesis by (simp add: wp_def)
next
  case False
  then have "heal_focus sid s = (Err (NotFound (UnknownSession sid)), s)"
    by (auto simp: heal_focus_def bind_run step_run resume_run state_session_def has_session_def split: option.splits)
  then show ?thesis using g by (simp add: wp_def)
qed

lemma safe_candidate:
  assumes g: "good s"
  shows "wp (focus_candidate_or_heal sid n) (\<lambda>_ t. good t \<and> quiet t = quiet s) (\<lambda>_ t. t = s) s"
proof (cases "bt_get (nodes s) n")
  case None
  then have "resolve_focus_candidate s n = Err (NotFound (UnknownNode n))"
    by (simp add: resolve_focus_candidate_def fuel_def state_node_def)
  then show ?thesis using g by (simp add: focus_candidate_or_heal_def wp_simps)
next
  case (Some nd)
  then obtain x where "resolve_focus_candidate s n = Ok x"
    using resolve_focus_candidate_Ok [OF goodD(3) [OF g] goodD(8) [OF g] goodD(9) [OF g], of n] by (auto simp: dom_layout)
  then show ?thesis
    using safe_focus_leaf [OF g] safe_heal_focus [OF g]
    by (simp add: focus_candidate_or_heal_def wp_simps split: option.split)
qed

lemma owner_root_checks:
  assumes "good s"
  shows "owner_root s k \<longleftrightarrow> is_session_root s k \<or> floating_id_by_root s k \<noteq> None"
proof -
  have "floating_id_by_root s k \<noteq> None \<longleftrightarrow> (\<exists>fid f. bt_get (floating s) fid = Some f \<and> fw_root_node f = k)"
    using floating_id_by_root_Some [OF goodD(7) [OF assms], of k] by (metis not_None_eq)
  then show ?thesis unfolding owner_root_def is_session_root_iff by blast
qed

lemma vec_insert_not_Nil [simp]: "vec_insert i x xs \<noteq> []"
  by (simp add: vec_insert_def)

lemma rekids_insert_tab:
  assumes "distinct (child_ids (Tabs tb))" and "k \<notin> set (child_ids (Tabs tb))" and "i \<le> length (tb_tabs tb)"
  shows "rekids (Tabs tb) (insert k (set (child_ids (Tabs tb))))
    (Tabs (tb\<lparr>tb_tabs := vec_insert i (tab_entry_new title k) (tb_tabs tb), tb_active := i\<rparr>))"
proof -
  have m: "map te_child (vec_insert i (tab_entry_new title k) (tb_tabs tb)) = vec_insert i k (map te_child (tb_tabs tb))"
    by (simp add: map_vec_insert tab_entry_new_def)
  then show ?thesis using assms by (simp add: rekids_def)
qed

abbreviation with_tab :: "nat \<Rightarrow> rstring \<Rightarrow> node_id \<Rightarrow> tabs_node \<Rightarrow> node" where
  "with_tab i title k tb \<equiv> Tabs (tb\<lparr>tb_tabs := vec_insert i (tab_entry_new title k) (tb_tabs tb), tb_active := i\<rparr>)"

lemma good_add_tab:
  assumes g: "good s" and p: "bt_get (nodes s) p = Some (Tabs tb)" and k: "bt_get (nodes s) k = Some kd"
    and root: "node_par kd = None" "\<not> owner_root s k" "p \<notin> below (layout s) k"
    and ses: "node_session kd = tb_session_id tb" and hollow: "is_tabs kd \<Longrightarrow> child_ids kd \<noteq> []"
    and i: "i \<le> length (tb_tabs tb)"
    and t: "t = s\<lparr>nodes := bt_insert p (with_tab i title k tb) (bt_insert k (node_set_parent (Some p) kd) (nodes s))\<rparr>"
  shows "good t"
proof (rule good_link [OF g p k root _ hollow _ t])
  have L: "layout s p = Some (cell_of (Tabs tb))" using p by (simp add: layout_def)
  have "k \<notin> set (child_ids (Tabs tb))" using good_kids(2) [OF g p, of k] k root(1) by auto
  moreover have "distinct (child_ids (Tabs tb))" using forest_distinct [OF goodD(3) [OF g] L] by simp
  ultimately show "rekids (Tabs tb) (insert k (set (child_ids (Tabs tb)))) (with_tab i title k tb)"
    using rekids_insert_tab i by blast
qed (use ses in simp)

lemma add_tab_run:
  assumes g: "good s" and p: "bt_get (nodes s) p = Some (Tabs tb)" and k: "bt_get (nodes s) k = Some kd"
    and root: "node_par kd = None" "\<not> owner_root s k" "p \<noteq> k"
    and ses: "node_session kd = tb_session_id tb" and i: "i \<le> length (tb_tabs tb)"
    and t: "t = s\<lparr>nodes := bt_insert p (with_tab i title k tb) (bt_insert k (node_set_parent (Some p) kd) (nodes s))\<rparr>"
  shows "add_tab_sibling_at_with_focus p i title k do_focus s =
    (if do_focus then resume (focus_candidate_or_heal (tb_session_id tb) k t) (\<lambda>_. ret i) else (Ok i, t))"
proof -
  have own: "\<not> is_session_root s k" "floating_id_by_root s k = None"
    using root(2) owner_root_checks [OF g] by auto
  show ?thesis
    using p k root(1,3) own ses i unfolding t
    by (simp add: add_tab_sibling_at_with_focus_def insert_tab_def bind_run step_run resume_run node_session_id_def
        ensure_node_belongs_to_def state_node_def tabs_len_def node_parent_def set_parent_def node_mut_run
        put_node_run cong: run_congs)
qed

text \<open>
  What may become a tab of \<open>p\<close>: a node that \<open>p\<close> is not below, and that is not a tabs node without
  tabs. The code does not check either; the searches for a pane need both.
\<close>

definition placeable :: "server_state \<Rightarrow> node_id \<Rightarrow> node_id \<Rightarrow> bool" where
  "placeable s p k \<longleftrightarrow>
     p \<notin> below (layout s) k \<and> (\<forall>tb. bt_get (nodes s) k = Some (Tabs tb) \<longrightarrow> tb_tabs tb \<noteq> [])"

abbreviation linked :: "node_id \<Rightarrow> nat \<Rightarrow> rstring \<Rightarrow> node_id \<Rightarrow> tabs_node \<Rightarrow> node \<Rightarrow> server_state \<Rightarrow> server_state" where
  "linked p i title k tb kd s \<equiv>
     s\<lparr>nodes := bt_insert p (with_tab i title k tb) (bt_insert k (node_set_parent (Some p) kd) (nodes s))\<rparr>"

definition tab_fits :: "server_state \<Rightarrow> node_id \<Rightarrow> nat \<Rightarrow> node_id \<Rightarrow> tabs_node \<Rightarrow> node \<Rightarrow> bool" where
  "tab_fits s p i k tb kd \<longleftrightarrow>
     bt_get (nodes s) p = Some (Tabs tb) \<and> bt_get (nodes s) k = Some kd \<and>
     node_session kd = tb_session_id tb \<and> node_par kd = None \<and> \<not> owner_root s k \<and> i \<le> length (tb_tabs tb)"

lemma linked_good:
  assumes g: "good s" and pl: "placeable s p k" and fit: "tab_fits s p i k tb kd"
  shows "good (linked p i title k tb kd s)" and "panes (linked p i title k tb kd s) = panes s" and "p \<noteq> k"
proof -
  have below: "p \<notin> below (layout s) k" and hollow: "is_tabs kd \<Longrightarrow> child_ids kd \<noteq> []"
    using pl fit by (auto simp: placeable_def tab_fits_def is_tabs_iff)
  show "p \<noteq> k" using below by auto
  show "good (linked p i title k tb kd s)"
    by (rule good_add_tab [OF g _ _ _ _ below _ hollow _ refl]) (use fit in \<open>simp_all add: tab_fits_def\<close>)
  show "panes (linked p i title k tb kd s) = panes s"
    using fit pane_of_kind [of kd "node_set_parent (Some p) kd"] by (auto simp: panes_def fun_eq_iff tab_fits_def)
qed

lemma wp_run: "m s = m' t \<Longrightarrow> wp m' Q E t \<Longrightarrow> wp m Q E s"
  by (simp add: wp_def)

lemma add_tab_safe:
  assumes g: "good s" and pl: "placeable s p k"
  shows "wp (add_tab_sibling_at_with_focus p i title k do_focus) (\<lambda>_ t. good t \<and> panes t = panes s)
    (\<lambda>_ t. good t \<and> (t = s \<or> (\<exists>tb kd. tab_fits s p i k tb kd \<and> t = linked p i title k tb kd s))) s"
    (is "wp _ _ ?E s")
proof (cases "\<exists>tb kd. tab_fits s p i k tb kd")
  case True
  then obtain tb kd where fit: "tab_fits s p i k tb kd" by blast
  let ?t = "linked p i title k tb kd s"
  note t = linked_good [OF g pl fit]
  have "wp (if do_focus then focus_candidate_or_heal (tb_session_id tb) k else ret ())
      (\<lambda>_ u. good u \<and> quiet u = quiet ?t) (\<lambda>_ u. u = ?t) ?t"
    using safe_candidate [OF t(1), of "tb_session_id tb" k] t(1) [of title] by simp
  then have focus: "wp (if do_focus then focus_candidate_or_heal (tb_session_id tb) k else ret ())
      (\<lambda>_ u. good u \<and> panes u = panes s) ?E ?t"
  proof (rule wp_mono)
    show "good u \<and> panes u = panes s" if "good u \<and> quiet u = quiet ?t" for u
      using quiet_shrinks [OF conjunct2 [OF that]] that t(2) [of title] by (simp add: shrinks_def)
    show "?E e u" if "u = ?t" for e u using that fit t(1) [of title] by blast
  qed
  have "wp (pbind (if do_focus then focus_candidate_or_heal (tb_session_id tb) k else ret ()) (\<lambda>_. ret i))
      (\<lambda>_ u. good u \<and> panes u = panes s) ?E ?t" by (rule wp_bindI [OF focus]) simp
  moreover have "add_tab_sibling_at_with_focus p i title k do_focus s =
      pbind (if do_focus then focus_candidate_or_heal (tb_session_id tb) k else ret ()) (\<lambda>_. ret i) ?t"
    using add_tab_run [OF g _ _ _ _ t(3) _ _ refl, of tb kd i title do_focus] fit [unfolded tab_fits_def]
    by (cases do_focus) (simp_all add: bind_run step_run resume_run)
  ultimately show ?thesis by (rule wp_run [rotated])
next
  case False
  have "wp (add_tab_sibling_at_with_focus p i title k do_focus) (\<lambda>_ _. False) (\<lambda>_ t. t = s) s"
    using False unfolding tab_fits_def owner_root_checks [OF g]
    by (cases "bt_get (nodes s) p"; cases "the (bt_get (nodes s) p)"; cases "bt_get (nodes s) k")
      (auto simp: add_tab_sibling_at_with_focus_def wp_simps node_session_id_def ensure_node_belongs_to_def
        state_node_def tabs_len_def node_parent_def)
  then show ?thesis by (rule wp_mono) (use g in simp_all)
qed

text \<open>A view that was not placed is taken back with its attachment.\<close>

lemma discard_record_absent:
  "bt_get (nodes s) n = None \<Longrightarrow> discard_view_record n s = (Ok (), s)"
proof -
  assume none: "bt_get (nodes s) n = None"
  have "bt_remove n (nodes s) = nodes s" by (rule bt.map_ext) (simp add: none)
  then show ?thesis using none by (simp add: discard_view_record_def bind_run step_run resume_run drop_node_run)
qed

lemma discard_unplaced:
  assumes g: "good s" and v: "bt_get (nodes s) n = Some (BufferView v)" "bv_parent v = None" and own: "\<not> owner_root s n"
  shows "\<exists>t. discard_buffer_view n s = (Ok (), t) \<and> good t \<and> panes t = (panes s)(n := None)"
proof -
  have L: "layout s n = Some (cell_of (BufferView v))" using v(1) by (simp add: layout_def)
  have id: "bv_id v = n" using forest_id [OF goodD(3) [OF g] L] by simp
  obtain b where b: "bt_get (buffers s) (bv_buffer_id v) = Some b" "bu_attachment b = Attached n"
    using goodD(11) [OF g] v(1) unfolding shown_buffers_ok_def by blast
  let ?u = "s\<lparr>buffers := bt_insert (bv_buffer_id v) (b\<lparr>bu_attachment := Detached\<rparr>) (buffers s)\<rparr>"
  have d: "detach_buffer_if_attached_to (bv_buffer_id v) (bv_id v) s = (Ok (), ?u)"
    using b id by (simp add: detach_buffer_if_attached_to_def detach_buffer_raw_def bind_run step_run resume_run buffer_mut_run)
  have "pbind (detach_buffer_if_attached_to (bv_buffer_id v) (bv_id v)) (\<lambda>_. drop_node n) s = (Ok (), prune {n} s)"
    using detach_and_drop [OF goodD(4) [OF g] v(1), of "{}"] id by simp
  then have "drop_node n ?u = (Ok (), prune {n} s)" using d by (simp add: bind_run resume_run)
  then have "discard_buffer_view n s = (Ok (), prune {n} s)"
    using v d by (simp add: discard_buffer_view_def discard_view_record_def match_result_def bind_run step_run resume_run)
  moreover have "good (prune {n} s)"
    using good_prune [OF g _ own] below_childless [OF g v(1)] v by (simp add: parentless_cell)
  moreover have "panes (prune {n} s) = (panes s)(n := None)" by (auto simp: panes_def fun_eq_iff)
  ultimately show ?thesis by blast
qed

lemma discard_linked:
  assumes g: "good s" and v: "bt_get (nodes s) n = Some (BufferView v)" "bv_parent v = Some p" and c: "closable s n"
  shows "wp (discard_buffer_view n) (\<lambda>_ t. good t \<and> panes t = (panes s)(n := None)) (\<lambda>_ _. False) s"
proof -
  have below: "below (layout s) n = {n}" using below_childless [OF g v(1)] by simp
  have root: "\<not> is_session_root s n" using session_root_tabs [OF g v(1)] by auto
  have rm: "good t \<and> removed {n} s t \<Longrightarrow> good t \<and> panes t = (panes s)(n := None) \<and> bt_get (nodes t) n = None" for t
    by (auto simp: removed_def fun_eq_iff dom_layout)
  have "wp (close_node n) (\<lambda>_ t. good t \<and> removed {n} s t) (\<lambda>_ t. good t \<and> removed {n} s t) s"
    by (rule wp_mono [OF close_node_run [OF g v(1) c]]) (use v(2) root below in auto)
  then have "wp (match_result (close_node n) (\<lambda>_. ret ()) (\<lambda>_. discard_view_record n))
      (\<lambda>_ t. good t \<and> panes t = (panes s)(n := None)) (\<lambda>_ _. False) s"
    unfolding wp_match_result
  proof (rule wp_mono)
    show "wp (discard_view_record n) (\<lambda>_ t. good t \<and> panes t = (panes s)(n := None)) (\<lambda>_ _. False) t"
      if "good t \<and> removed {n} s t" for t
      using rm [OF that] by (simp add: wp_def discard_record_absent)
  qed (use rm in simp)
  then show ?thesis using v by (simp add: discard_buffer_view_def wp_pbind)
qed

section \<open>A new window\<close>

lemma root_tabs_good:
  assumes "good s" and "bt_get (sessions s) sid = Some se"
  shows "\<exists>tb. bt_get (nodes s) (se_root_node se) = Some (Tabs tb) \<and> tb_parent tb = None \<and> tb_session_id tb = sid \<and>
    root_tabs s sid = Ok (se_root_node se)"
proof -
  obtain c where "layout s (se_root_node se) = Some c" "ce_kind c = KTabs" "ce_parent c = None" "ce_session c = sid"
    using sessions_okD(3) [OF goodD(6) [OF assms(1)] assms(2)] by blast
  then obtain nd where "bt_get (nodes s) (se_root_node se) = Some nd" "kind_of nd = KTabs" "node_par nd = None" "node_session nd = sid"
    by (auto simp: layout_Some)
  then show ?thesis
    using assms(2) by (cases nd) (auto simp: root_tabs_def root_node_def state_session_def state_node_def)
qed

text \<open>The pane of a new window, or a new tab, is focused.\<close>

lemma focus_new_pane:
  assumes g: "good t" and se: "bt_get (sessions t) sid = Some se"
    and v: "bt_get (nodes t) n = Some (BufferView v)" "bv_session_id v = sid" and up: "(n, se_root_node se) \<in> (up (layout t))\<^sup>*"
  shows "\<exists>u se'. focus_candidate_or_heal sid n t = (Ok (), u) \<and> good u \<and> quiet u = quiet t \<and>
    bt_get (sessions u) sid = Some se' \<and> se_focused_leaf se' = Some n \<and> visible_in u sid n"
proof -
  have view: "is_view t n" using v by (simp add: is_view_def)
  have Ln: "layout t n = Some (cell_of (BufferView v))" using v by (simp add: layout_def)
  obtain c where c: "layout t (se_root_node se) = Some c" "ce_session c = sid"
    using sessions_okD(3) [OF goodD(6) [OF g] se] by blast
  have foc: "focusable t sid (se_root_node se) n"
    by (rule shown_focusable [OF goodD(2) [OF g] _ _ c view up]) (use se in \<open>auto simp: has_session_def pane_root_def\<close>)
  obtain x where x: "resolve_focus_candidate t n = Ok x" "leaf_result t n x"
    using resolve_focus_candidate_Ok [OF goodD(3) [OF g] goodD(8) [OF g] goodD(9) [OF g], of n] Ln by auto
  have "shown_leaf t n n" using view by (simp add: shown_leaf_def)
  moreover have "l = n" if "shown_leaf t n l" for l
  proof -
    have "l \<in> below (layout t) n" using that showing_star_up by (auto simp: shown_leaf_def below_def)
    then show ?thesis using below_childless [OF g v(1)] by simp
  qed
  ultimately have "x = Some n" using x(2) by (cases x) (auto simp: leaf_result_def)
  then have run: "focus_candidate_or_heal sid n t = focus_leaf sid n t"
    using x(1) by (simp add: focus_candidate_or_heal_def bind_run step_run resume_run)
  obtain u se' where u: "focus_leaf sid n t = (Ok (), u)" "quiet u = quiet t" "healed sid u"
    "bt_get (sessions u) sid = Some se'" "se_focused_leaf se' = Some n"
    using focus_leaf_healed [OF goodD(1) [OF g] foc] by blast
  have "good u" using preserves_at [OF good_focus_leaf g, of sid n] u(1) by simp
  moreover have "visible_in u sid n" using u(3,4,5) by (auto simp: healed_def)
  ultimately show ?thesis using run u by auto
qed

lemma add_root_tab_from_buffer_run:
  assumes g: "good s" and room: "node_ids s < u64_max" and se: "bt_get (sessions s) sid = Some se"
    and b: "bt_get (buffers s) bid = Some b" "bu_attachment b = Detached"
  shows "\<exists>i t se'. add_root_tab_from_buffer sid title bid s = (Ok i, t) \<and> good t \<and>
    panes t = (panes s)(node_ids s := Some bid) \<and>
    bt_get (sessions t) sid = Some se' \<and> se_focused_leaf se' = Some (node_ids s) \<and> visible_in t sid (node_ids s)"
proof -
  let ?n = "node_ids s" and ?r = "se_root_node se"
  obtain s1 where s1: "create_buffer_view sid bid s = (Ok ?n, s1)" "good s1" "bt_get (nodes s) ?n = None" "\<not> owner_root s1 ?n"
    "s1 = s\<lparr>node_ids := Suc ?n, nodes := bt_insert ?n (BufferView (new_view ?n sid bid b)) (nodes s),
         buffers := bt_insert bid (b\<lparr>bu_attachment := Attached ?n, bu_ever_attached := True\<rparr>) (buffers s)\<rparr>"
    using create_buffer_view_run [OF g room _ b] se by (auto simp: has_session_def)
  obtain tb where tb: "bt_get (nodes s) ?r = Some (Tabs tb)" "tb_session_id tb = sid" "root_tabs s sid = Ok ?r"
    using root_tabs_good [OF g se] by blast
  have rn: "?r \<noteq> ?n" using tb(1) s1(3) by auto
  have n1: "bt_get (nodes s1) ?n = Some (BufferView (new_view ?n sid bid b))" and r1: "bt_get (nodes s1) ?r = Some (Tabs tb)"
    using s1(5) tb(1) rn by simp_all
  have below: "?r \<notin> below (layout s1) ?n" using below_childless [OF s1(2) n1] rn by simp
  define t where "t = s1\<lparr>nodes := bt_insert ?r (with_tab (length (tb_tabs tb)) title ?n tb)
      (bt_insert ?n (node_set_parent (Some ?r) (BufferView (new_view ?n sid bid b))) (nodes s1))\<rparr>"
  have t: "good t"
    by (rule good_add_tab [OF s1(2) r1 n1 _ s1(4) below _ _ _ t_def]) (simp_all add: new_view_def tb(2))
  have N: "bt_get (nodes t) m = (if m = ?r then Some (with_tab (length (tb_tabs tb)) title ?n tb)
      else if m = ?n then Some (BufferView ((new_view ?n sid bid b)\<lparr>bv_parent := Some ?r\<rparr>)) else bt_get (nodes s) m)" for m
    using s1(5) by (simp add: t_def)
  have "(?n, ?r) \<in> up (layout t)" using rn by (auto simp: up_def layout_Some N)
  moreover have set: "bt_get (sessions t) sid = Some se" using se s1(5) by (simp add: t_def)
  ultimately obtain u se' where u: "focus_candidate_or_heal sid ?n t = (Ok (), u)" "good u" "quiet u = quiet t"
    "bt_get (sessions u) sid = Some se'" "se_focused_leaf se' = Some ?n" "visible_in u sid ?n"
    using focus_new_pane [OF t set, of ?n "(new_view ?n sid bid b)\<lparr>bv_parent := Some ?r\<rparr>"] rn
    by (auto simp: N new_view_def)
  have "add_tab_sibling ?r title ?n s1 = (Ok (length (tb_tabs tb)), u)"
    using r1 u(1) add_tab_run [OF s1(2) r1 n1 _ s1(4) rn _ order_refl t_def, where do_focus = True] tb(2)
    by (simp add: add_tab_sibling_def bind_run step_run resume_run tabs_len_def state_node_def new_view_def)
  then have "add_root_tab_from_buffer sid title bid s = (Ok (length (tb_tabs tb)), u)"
    using tb(3) s1(1) by (simp add: add_root_tab_from_buffer_def or_discard_view_def match_result_def bind_run step_run resume_run)
  moreover have "panes u = panes t" using quiet_shrinks [OF u(3)] by (simp add: shrinks_def)
  moreover have "panes t = (panes s)(?n := Some bid)"
    using tb(1) rn by (simp add: panes_def fun_eq_iff N new_view_def)
  ultimately show ?thesis using u by auto
qed

section \<open>A new tab\<close>

text \<open>Showing a buffer in a new tab succeeds, or takes everything back.\<close>

lemma add_tab_from_buffer_at_run:
  assumes g: "good s" and room: "node_ids s < u64_max"
  shows "wp (add_tab_from_buffer_at p i title bid)
    (\<lambda>_ t. good t \<and> panes t = (panes s)(node_ids s := Some bid))
    (\<lambda>_ t. good t \<and> panes t = panes s) s"
    (is "wp _ ?Q ?E s")
proof (cases "\<exists>tb b. bt_get (nodes s) p = Some (Tabs tb) \<and> has_session (tb_session_id tb) s \<and>
    bt_get (buffers s) bid = Some b \<and> bu_attachment b = Detached")
  case False
  show ?thesis
  proof (cases "\<exists>tb. bt_get (nodes s) p = Some (Tabs tb)")
    case True
    then obtain tb where tb: "bt_get (nodes s) p = Some (Tabs tb)" by blast
    have fails: "wp (create_buffer_view (tb_session_id tb) bid) (\<lambda>_ _. False) ?E s"
      by (rule create_buffer_view_fails [OF g room]) (use False tb in blast)
    have "add_tab_from_buffer_at p i title bid s = pbind (create_buffer_view (tb_session_id tb) bid)
        (\<lambda>child. or_discard_view child (add_tab_sibling_at p i title child)) s"
      using tb by (simp add: add_tab_from_buffer_at_def bind_run [of "reads _"] step_run resume_run tabs_len_def
          node_session_id_def state_node_def)
    then show ?thesis by (rule wp_run) (rule wp_bindI [OF fails], simp)
  next
    case none: False
    then have "\<exists>e. add_tab_from_buffer_at p i title bid s = (Err e, s)"
      by (cases "bt_get (nodes s) p"; cases "the (bt_get (nodes s) p)")
        (auto simp: add_tab_from_buffer_at_def bind_run step_run resume_run tabs_len_def state_node_def)
    then show ?thesis using g by (auto simp: wp_def)
  qed
next
  case True
  then obtain tb b where tb: "bt_get (nodes s) p = Some (Tabs tb)" "has_session (tb_session_id tb) s"
    and b: "bt_get (buffers s) bid = Some b" "bu_attachment b = Detached" by blast
  let ?n = "node_ids s" and ?sid = "tb_session_id tb"
  obtain s1 where s1: "create_buffer_view ?sid bid s = (Ok ?n, s1)" "good s1" "bt_get (nodes s) ?n = None" "\<not> owner_root s1 ?n"
    "s1 = s\<lparr>node_ids := Suc ?n, nodes := bt_insert ?n (BufferView (new_view ?n ?sid bid b)) (nodes s),
         buffers := bt_insert bid (b\<lparr>bu_attachment := Attached ?n, bu_ever_attached := True\<rparr>) (buffers s)\<rparr>"
    using create_buffer_view_run [OF g room tb(2) b] by blast
  have pn: "p \<noteq> ?n" using tb(1) s1(3) by auto
  have n1: "bt_get (nodes s1) ?n = Some (BufferView (new_view ?n ?sid bid b))" and p1: "bt_get (nodes s1) p = Some (Tabs tb)"
    using s1(5) tb(1) pn by simp_all
  have pl: "placeable s1 p ?n" using below_childless [OF s1(2) n1] pn n1 by (simp add: placeable_def)
  have P1: "panes s1 = (panes s)(?n := Some bid)" using s1(5) by (simp add: panes_def fun_eq_iff new_view_def)
  have restored: "((panes s)(?n := Some bid))(?n := None) = panes s" using s1(3) by (simp add: panes_def fun_eq_iff)
  have discard: "wp (discard_buffer_view ?n) (\<lambda>_ t. good t \<and> panes t = panes s) (\<lambda>_ _. False) t"
    if t: "t = s1 \<or> (\<exists>tb' kd. tab_fits s1 p i ?n tb' kd \<and> t = linked p i title ?n tb' kd s1)" for t
    using t
  proof (elim disjE exE conjE)
    assume "t = s1"
    then show ?thesis
      using discard_unplaced [OF s1(2) n1 _ s1(4)] P1 restored by (auto simp: new_view_def wp_def)
  next
    fix tb' kd
    assume fit: "tab_fits s1 p i ?n tb' kd" and tl: "t = linked p i title ?n tb' kd s1"
    have same: "tb' = tb" "kd = BufferView (new_view ?n ?sid bid b)" using fit p1 n1 by (auto simp: tab_fits_def)
    note gt = linked_good(1,2) [OF s1(2) pl fit, of title, folded tl]
    have n2: "bt_get (nodes t) ?n = Some (BufferView ((new_view ?n ?sid bid b)\<lparr>bv_parent := Some p\<rparr>))"
      and p2: "bt_get (nodes t) p = Some (with_tab i title ?n tb)"
      using tl same pn by simp_all
    have "\<not> nested_single (with_tab i title ?n tb)"
    proof
      assume ns: "nested_single (with_tab i title ?n tb)"
      have i: "i \<le> length (tb_tabs tb)" using fit same by (simp add: tab_fits_def)
      then have "tb_tabs tb = []" using ns by (auto simp: nested_single_def)
      moreover have "layout s1 p = Some (cell_of (Tabs tb))" using p1 by (simp add: layout_def)
      ultimately show False
        using ns goodD(12) [OF s1(2), unfolded no_hollow_def, rule_format, of p "cell_of (Tabs tb)"]
        by (auto simp: nested_single_def)
    qed
    then have "closable t ?n" using n2 p2 by (simp add: closable_def)
    then show ?thesis using discard_linked [OF gt(1) n2] gt(2) P1 restored by simp
  qed
  have add: "wp (add_tab_sibling_at_with_focus p i title ?n True) ?Q
      (\<lambda>_ t. t = s1 \<or> (\<exists>tb' kd. tab_fits s1 p i ?n tb' kd \<and> t = linked p i title ?n tb' kd s1)) s1"
    by (rule wp_mono [OF add_tab_safe [OF s1(2) pl]]) (use P1 in auto)
  have "wp (or_discard_view ?n (add_tab_sibling_at p i title ?n)) ?Q ?E s1"
    unfolding or_discard_view_def add_tab_sibling_at_def wp_match_result
  proof (rule wp_mono [OF add])
    show "wp (pbind (discard_buffer_view ?n) (\<lambda>_. raise e)) ?Q ?E t"
      if "t = s1 \<or> (\<exists>tb' kd. tab_fits s1 p i ?n tb' kd \<and> t = linked p i title ?n tb' kd s1)" for e t
      unfolding wp_pbind by (rule wp_mono [OF discard [OF that]]) simp_all
  qed simp
  moreover have "add_tab_from_buffer_at p i title bid s = or_discard_view ?n (add_tab_sibling_at p i title ?n) s1"
    using tb(1) s1(1)
    by (simp add: add_tab_from_buffer_at_def bind_run [of "reads _"] bind_run [of "create_buffer_view _ _"] step_run
        resume_run tabs_len_def node_session_id_def state_node_def)
  ultimately show ?thesis by (rule wp_run [rotated])
qed

section \<open>Wrapping a node\<close>

text \<open>
  The node \<open>k\<close> gets a new container \<open>w\<close> around it, which takes its place in the owner of \<open>k\<close>.
\<close>

definition wraps :: "server_state \<Rightarrow> node_id \<Rightarrow> node \<Rightarrow> node \<Rightarrow> server_state \<Rightarrow> bool" where
  "wraps s k wd pd' t \<longleftrightarrow>
     (\<exists>kd. bt_get (nodes s) k = Some kd \<and>
        node_id_of wd = node_ids s \<and> node_session wd = node_session kd \<and> node_par wd = node_par kd \<and>
        child_ids wd = [k] \<and> active_ok wd \<and> (\<forall>l. memo wd = Some l \<longrightarrow> is_view s l) \<and>
        (is_tabs kd \<longrightarrow> child_ids kd \<noteq> []) \<and>
        (\<forall>p pd. node_par kd = Some p \<longrightarrow> bt_get (nodes s) p = Some pd \<longrightarrow> reseat k (node_ids s) pd pd') \<and>
        (\<forall>m. bt_get (nodes t) m =
           (if m = node_ids s then Some wd else if m = k then Some (node_set_parent (Some (node_ids s)) kd)
            else if Some m = node_par kd then Some pd' else bt_get (nodes s) m)) \<and>
        buffers t = buffers s \<and> sessions t = sessions s \<and> node_ids t = Suc (node_ids s) \<and>
        buffer_ids t = buffer_ids s \<and> session_ids t = session_ids s \<and> floating_ids t = floating_ids s)"

lemma wraps_edit:
  assumes g: "good s" and w: "wraps s k wd pd' t"
  shows "forest (layout t)"
    and "\<And>m md'. bt_get (nodes t) m = Some md' \<Longrightarrow> edited s m md' \<and> m < node_ids t"
    and "\<And>m. is_view s m \<Longrightarrow> bt_get (nodes t) m \<noteq> None"
    and "\<And>r. owner_root s r \<Longrightarrow> r \<noteq> k \<Longrightarrow> parentless (layout t) r \<and> (\<exists>c d. layout s r = Some c \<and> layout t r = Some d \<and> ce_session d = ce_session c)"
    and "panes t = panes s"
proof -
  define n where "n = node_ids s"
  obtain kd where kd: "bt_get (nodes s) k = Some kd" and wd: "node_id_of wd = n" "node_session wd = node_session kd"
      "node_par wd = node_par kd" "child_ids wd = [k]" "active_ok wd" "\<And>l. memo wd = Some l \<Longrightarrow> is_view s l"
    and hollow: "is_tabs kd \<Longrightarrow> child_ids kd \<noteq> []"
    and re: "\<And>p pd. node_par kd = Some p \<Longrightarrow> bt_get (nodes s) p = Some pd \<Longrightarrow> reseat k n pd pd'"
    and N: "\<And>m. bt_get (nodes t) m = (if m = n then Some wd else if m = k then Some (node_set_parent (Some n) kd)
            else if Some m = node_par kd then Some pd' else bt_get (nodes s) m)"
    and ids': "node_ids t = Suc n"
    using w unfolding wraps_def n_def by blast
  note f = goodD(3) [OF g] and ids = idsD [OF goodD(13) [OF g]]
  have fresh: "bt_get (nodes s) n = None" using ids(1) [of n] n_def by (cases "bt_get (nodes s) n") auto
  then have nk: "n \<noteq> k" using kd by auto
  have Lk: "layout s k = Some (cell_of kd)" using kd by (simp add: layout_def)
  have par: "\<exists>pd. bt_get (nodes s) p = Some pd \<and> k \<in> set (child_ids pd) \<and> p \<noteq> k \<and> p \<noteq> n" if pp: "node_par kd = Some p" for p
  proof -
    obtain pd where "bt_get (nodes s) p = Some pd" "k \<in> set (child_ids pd)" using good_parent [OF g kd pp] by blast
    then show ?thesis using good_kids(3) [OF g] fresh by fastforce
  qed
  have Lt: "layout t m = (if m = n then Some (cell_of wd) else if m = k then Some ((cell_of kd)\<lparr>ce_parent := Some n\<rparr>)
      else if Some m = node_par kd then Some (cell_of pd') else layout s m)" for m
    by (simp add: layout_def N)
  show "forest (layout t)"
  proof (rule forest_wrap [OF f Lk])
    show "n \<notin> dom (layout s)" using fresh by (simp add: dom_layout domIff)
    show "layout t n = Some (cell_of wd)" by (simp add: Lt)
    show "layout t k = Some ((cell_of kd)\<lparr>ce_parent := Some n\<rparr>)" using nk by (simp add: Lt)
    show "\<exists>x'. layout t m = Some x' \<and> ce_id x' = m \<and> ce_session x' = ce_session x \<and> ce_parent x' = ce_parent x \<and>
        distinct (ce_kids x') \<and>
        set (ce_kids x') = (if k \<in> set (ce_kids x) then insert n (set (ce_kids x) - {k}) else set (ce_kids x))"
      if x: "layout s m = Some x" "m \<noteq> k" for m x
    proof -
      have mn: "m \<noteq> n" using x(1) fresh by (auto simp: layout_Some)
      show ?thesis
      proof (cases "Some m = node_par kd")
        case True
        then obtain pd where pd: "bt_get (nodes s) m = Some pd" "k \<in> set (child_ids pd)" using par [of m] by auto
        have "reseat k n pd pd'" by (rule re [OF True [symmetric] pd(1)])
        moreover have "x = cell_of pd" using x(1) pd(1) by (simp add: layout_def)
        ultimately show ?thesis
          using True mn x pd(2) forest_id [OF f x(1)] by (simp add: Lt reseat_def)
      next
        case False
        then have "k \<notin> set (ce_kids x)" using forest_kidD [OF f x(1), of k] Lk by auto
        then show ?thesis
          using False mn x forest_id [OF f x(1)] forest_distinct [OF f x(1)] by (simp add: Lt)
      qed
    qed
    show "m = n \<or> m \<in> dom (layout s)" if "layout t m = Some x'" for m x'
      using that kd par [of m] by (auto simp: layout_Some N dom_layout split: if_splits)
  qed (use wd in simp_all)
  show "edited s m md' \<and> m < node_ids t" if h: "bt_get (nodes t) m = Some md'" for m md'
  proof -
    have "m = n \<and> md' = wd \<or> m \<noteq> n \<and> m = k \<and> md' = node_set_parent (Some n) kd \<or>
        m \<noteq> n \<and> m \<noteq> k \<and> Some m = node_par kd \<and> md' = pd' \<or> m \<noteq> n \<and> bt_get (nodes s) m = Some md'"
      using h by (simp add: N split: if_splits)
    then consider "m = n" "md' = wd" | "m \<noteq> n" "m = k" "md' = node_set_parent (Some n) kd"
      | "m \<noteq> n" "m \<noteq> k" "Some m = node_par kd" "md' = pd'" | "m \<noteq> n" "bt_get (nodes s) m = Some md'"
      by blast
    then show ?thesis
    proof cases
      case 1
      then show ?thesis using fresh wd n_def ids' by (cases wd) (auto simp: edited_def)
    next
      case 2
      then show ?thesis using edited_same [OF g kd] kd hollow ids(1) [OF kd] n_def ids' by (auto simp: edited_def)
    next
      case 3
      then obtain pd where pd: "bt_get (nodes s) m = Some pd" using par [of m] by auto
      have "reseat k n pd pd'" by (rule re [OF 3(3) [symmetric] pd])
      then show ?thesis using pd 3 ids(1) [OF pd] n_def ids' by (auto simp: edited_def reseat_def)
    next
      case 4
      then show ?thesis using edited_same [OF g] ids(1) [OF 4(2)] n_def ids' by auto
    qed
  qed
  show "bt_get (nodes t) m \<noteq> None" if "is_view s m" for m
    using that by (auto simp: N is_view_def)
  show "parentless (layout t) r \<and> (\<exists>c d. layout s r = Some c \<and> layout t r = Some d \<and> ce_session d = ce_session c)"
    if r: "owner_root s r" "r \<noteq> k" for r
  proof -
    obtain c where c: "layout s r = Some c" "ce_parent c = None"
      using owner_root_parentless [OF g r(1)] by (auto simp: parentless_def)
    have rn: "r \<noteq> n" using c(1) fresh by (auto simp: layout_Some)
    show ?thesis
    proof (cases "Some r = node_par kd")
      case True
      then obtain pd where pd: "bt_get (nodes s) r = Some pd" using par [of r] by auto
      have "reseat k n pd pd'" by (rule re [OF True [symmetric] pd])
      moreover have "c = cell_of pd" using c(1) pd by (simp add: layout_def)
      ultimately show ?thesis using True rn r(2) c by (simp add: parentless_def Lt reseat_def)
    next
      case False
      then show ?thesis using rn r(2) c by (simp add: parentless_def Lt)
    qed
  qed
  show "panes t = panes s"
  proof
    fix m
    show "panes t m = panes s m"
    proof (cases "Some m = node_par kd")
      case True
      then obtain pd where pd: "bt_get (nodes s) m = Some pd" "m \<noteq> k" "m \<noteq> n" using par [of m] by auto
      have "same_kind pd pd'" using re [OF True [symmetric] pd(1)] by (simp add: reseat_def)
      then show ?thesis using True pd pane_of_kind by (simp add: panes_def N)
    next
      case False
      then show ?thesis
        using kd fresh wd(4) pane_of_kids(1) [of wd] pane_of_kind [of kd "node_set_parent (Some n) kd"]
        by (simp add: panes_def N)
    qed
  qed
qed

lemma good_wrap:
  assumes g: "good s" and w: "wraps s k wd pd' t" and own: "\<not> owner_root s k" and fl: "floating t = floating s"
  shows "good t"
proof -
  note e = wraps_edit [OF g w]
  show ?thesis
    by (rule good_edit_links [OF g e(1)]) (use w e(2,3,4) own fl in \<open>auto simp: wraps_def\<close>)
qed

text \<open>The links of the old layout go through the new container.\<close>

lemma wraps_up:
  assumes g: "good s" and w: "wraps s k wd pd' t"
  shows "(k, node_ids s) \<in> up (layout t)" and "(up (layout s))\<^sup>* \<subseteq> (up (layout t))\<^sup>*"
proof -
  obtain kd where kd: "bt_get (nodes s) k = Some kd" and wd: "node_par wd = node_par kd"
    and re: "\<And>p pd. node_par kd = Some p \<Longrightarrow> bt_get (nodes s) p = Some pd \<Longrightarrow> reseat k (node_ids s) pd pd'"
    and N: "\<And>m. bt_get (nodes t) m = (if m = node_ids s then Some wd else if m = k then Some (node_set_parent (Some (node_ids s)) kd)
            else if Some m = node_par kd then Some pd' else bt_get (nodes s) m)"
    using w unfolding wraps_def by blast
  have fresh: "bt_get (nodes s) (node_ids s) = None"
    using idsD(1) [OF goodD(13) [OF g], of "node_ids s"] by (cases "bt_get (nodes s) (node_ids s)") auto
  then have nk: "node_ids s \<noteq> k" using kd by auto
  have up: "(m, q) \<in> up (layout t) \<longleftrightarrow> (\<exists>md. bt_get (nodes t) m = Some md \<and> node_par md = Some q)" for m q
    by (auto simp: up_def layout_Some)
  show kw: "(k, node_ids s) \<in> up (layout t)" using nk by (simp add: up N)
  have "(m, q) \<in> (up (layout t))\<^sup>*" if mq: "(m, q) \<in> up (layout s)" for m q
  proof -
    obtain md where md: "bt_get (nodes s) m = Some md" "node_par md = Some q" using mq by (auto simp: up_def layout_Some)
    have mn: "m \<noteq> node_ids s" using md(1) fresh by auto
    show ?thesis
    proof (cases "m = k")
      case True
      then have "node_par wd = Some q" using md kd wd by simp
      then have "(node_ids s, q) \<in> up (layout t)" by (simp add: up N)
      then show ?thesis using kw True by (meson r_into_rtrancl rtrancl.rtrancl_into_rtrancl)
    next
      case False
      have "(m, q) \<in> up (layout t)"
      proof (cases "Some m = node_par kd")
        case True
        then have "node_par pd' = node_par md" using re [OF True [symmetric] md(1)] by (simp add: reseat_def)
        then show ?thesis using True md(2) mn False by (simp add: up N)
      next
        case other: False
        then show ?thesis using md mn False by (simp add: up N)
      qed
      then show ?thesis by blast
    qed
  qed
  then show "(up (layout s))\<^sup>* \<subseteq> (up (layout t))\<^sup>*" by (intro rtrancl_subset_rtrancl) auto
qed

lemma floating_ok_reroot:
  assumes g: "good s" and fw: "bt_get (floating s) fid = Some fw"
    and F: "floating t = bt_insert fid (fw\<lparr>fw_root_node := w\<rparr>) (floating s)" and S: "sessions t = sessions s"
    and w: "\<exists>c. layout t w = Some c \<and> ce_parent c = None \<and> ce_session c = fw_session_id fw" and new: "\<not> owner_root s w"
    and kept: "\<And>r. owner_root s r \<Longrightarrow> r \<noteq> fw_root_node fw \<Longrightarrow> parentless (layout t) r \<and>
      (\<exists>c d. layout s r = Some c \<and> layout t r = Some d \<and> ce_session d = ce_session c)"
  shows "floating_ok t"
  unfolding floating_ok_def
proof (intro conjI allI impI)
  note fok = goodD(7) [OF g]
  fix gid h
  assume "bt_get (floating t) gid = Some h"
  then have cases: "gid = fid \<and> h = fw\<lparr>fw_root_node := w\<rparr> \<or> gid \<noteq> fid \<and> bt_get (floating s) gid = Some h"
    by (simp add: F split: if_splits)
  then show "fw_id h = gid" using floating_okD(1) [OF fok] fw(1) by auto
  obtain se where se: "bt_get (sessions s) (fw_session_id fw) = Some se" "fid \<in> set (se_floating se)"
    using floating_okD(3) [OF fok fw] by blast
  have "se_root_node se \<noteq> w" using new owner_rootI(1) [OF se(1)] by auto
  then show "\<exists>se. bt_get (sessions t) (fw_session_id h) = Some se \<and> gid \<in> set (se_floating se) \<and>
        se_root_node se \<noteq> fw_root_node h"
    using cases se floating_okD(3) [OF fok] by (auto simp: S)
  show "\<exists>c. layout t (fw_root_node h) = Some c \<and> ce_parent c = None \<and> ce_session c = fw_session_id h"
    using cases
  proof (elim disjE conjE)
    assume h: "gid \<noteq> fid" "bt_get (floating s) gid = Some h"
    then have "fw_root_node h \<noteq> fw_root_node fw" using floating_okD(4) [OF fok h(2) fw] by auto
    then show ?thesis
      using kept [OF owner_rootI(2) [OF h(2)]] floating_okD(2) [OF fok h(2)] by (auto simp: parentless_def)
  qed (use w in auto)
next
  fix gid h hid h'
  assume a: "bt_get (floating t) gid = Some h" "bt_get (floating t) hid = Some h'" "fw_root_node h = fw_root_node h'"
  have root: "fw_root_node x \<noteq> w" if "bt_get (floating s) i = Some x" for i x
    using new owner_rootI(2) [OF that] by auto
  show "gid = hid"
  proof (cases "gid = fid \<or> hid = fid")
    case True
    then show ?thesis using a root [of gid h] root [of hid h'] by (auto simp: F split: if_splits)
  next
    case False
    then show ?thesis using a floating_okD(4) [OF goodD(7) [OF g]] by (simp add: F)
  qed
qed

lemma good_wrap_floating:
  assumes g: "good s" and w: "wraps s k wd pd' t" and fw: "bt_get (floating s) fid = Some fw" "fw_root_node fw = k"
    and F: "floating t = bt_insert fid (fw\<lparr>fw_root_node := node_ids s\<rparr>) (floating s)"
  shows "good t"
proof -
  note e = wraps_edit [OF g w]
  let ?n = "node_ids s"
  have fresh: "layout s ?n = None"
    using idsD(1) [OF goodD(13) [OF g], of ?n] by (cases "bt_get (nodes s) ?n") (auto simp: layout_def)
  have new: "\<not> owner_root s ?n" using owner_root_parentless [OF g, of ?n] fresh by (auto simp: parentless_def)
  have par: "node_par kd = None \<and> node_session kd = fw_session_id fw" if "bt_get (nodes s) k = Some kd" for kd
    using floating_okD(2) [OF goodD(7) [OF g] fw(1)] fw(2) that by (auto simp: layout_Some)
  show ?thesis
  proof (rule good_edit [OF g e(1)])
    show "parentless (layout t) (se_root_node se)" if "bt_get (sessions s) sid = Some se" for sid se
      using e(4) [OF owner_rootI(1) [OF that]] session_root_not_floating [OF g that fw(1)] fw(2) by simp
    show "\<exists>f. bt_get (floating s) gid = Some f \<and> fw_session_id f' = fw_session_id f \<and>
        fw_last_focused_leaf f' = fw_last_focused_leaf f" if "bt_get (floating t) gid = Some f'" for gid f'
      using that fw(1) by (auto simp: F split: if_splits)
    show "bt_get (floating t) gid \<noteq> None" if "bt_get (floating s) gid = Some f" for gid f
      using that by (simp add: F)
    show "floating_ok t"
    proof (rule floating_ok_reroot [OF g fw(1) F _ _ new])
      show "\<exists>c. layout t ?n = Some c \<and> ce_parent c = None \<and> ce_session c = fw_session_id fw"
        using w par by (auto simp: wraps_def layout_Some)
    qed (use w e(4) fw(2) in \<open>auto simp: wraps_def\<close>)
  qed (use w e(2,3) in \<open>auto simp: wraps_def\<close>)
qed

end
