(* ===== verification/Server_Open.thy ===== *)
theory Server_Open
  imports Server_Grow
begin

text \<open>
  Splitting a pane, opening a floating window and creating a session.
\<close>

section \<open>Splitting a pane\<close>

text \<open>The split around a pane and the new one, and the same split before the new pane is linked.\<close>

definition split_of :: "node_id \<Rightarrow> session_id \<Rightarrow> node_id option \<Rightarrow> split_direction \<Rightarrow> node_id list \<Rightarrow> node_id \<Rightarrow> split_node" where
  "split_of w sid p direction children new_leaf =
     \<lparr>sp_id = w, sp_session_id = sid, sp_parent = p, sp_direction = direction, sp_children = children,
      sp_sizes = replicate (length children) 1, sp_last_focused_descendant = Some new_leaf\<rparr>"

lemma split_linked:
  assumes g: "good s" and w: "wraps s k (Split (split_of (node_ids s) sid q direction [k] n)) pd' a" and ga: "good a"
    and n: "bt_get (nodes s) n = Some (BufferView v)" "bv_parent v = None" "bv_session_id v = sid" and own: "\<not> owner_root a n"
    and nk: "n \<noteq> k"
    and b: "b = a\<lparr>nodes := bt_insert (node_ids s) (Split (split_of (node_ids s) sid q direction [k, n] n))
      (bt_insert n (BufferView (v\<lparr>bv_parent := Some (node_ids s)\<rparr>)) (nodes a))\<rparr>"
  shows "good b" and "panes b = panes s" and "(n, node_ids s) \<in> up (layout b)" and "up (layout a) \<subseteq> up (layout b)"
proof -
  let ?w = "node_ids s"
  obtain kd where kd: "bt_get (nodes s) k = Some kd"
    and re: "\<And>p pd. node_par kd = Some p \<Longrightarrow> bt_get (nodes s) p = Some pd \<Longrightarrow> reseat k ?w pd pd'"
    and N: "\<And>m. bt_get (nodes a) m = (if m = ?w then Some (Split (split_of ?w sid q direction [k] n))
      else if m = k then Some (node_set_parent (Some ?w) kd)
      else if Some m = node_par kd then Some pd' else bt_get (nodes s) m)"
    using w unfolding wraps_def by blast
  have wn: "n \<noteq> ?w" using idsD(1) [OF goodD(13) [OF g] n(1)] by simp
  have "Some n \<noteq> node_par kd"
  proof
    assume h: "Some n = node_par kd"
    obtain pd where "bt_get (nodes s) n = Some pd" "k \<in> set (child_ids pd)"
      using good_parent [OF g kd h [symmetric]] by blast
    then show False using n(1) by auto
  qed
  then have na: "bt_get (nodes a) n = Some (BufferView v)" using n(1) nk wn by (simp add: N)
  have wa: "bt_get (nodes a) ?w = Some (Split (split_of ?w sid q direction [k] n))" by (simp add: N)
  have below: "?w \<notin> below (layout a) n" using below_childless [OF ga na] wn by simp
  have re': "rekids (Split (split_of ?w sid q direction [k] n)) (insert n (set (child_ids (Split (split_of ?w sid q direction [k] n)))))
      (Split (split_of ?w sid q direction [k, n] n))"
    using nk by (auto simp: rekids_def split_of_def)
  have b': "b = a\<lparr>nodes := bt_insert ?w (Split (split_of ?w sid q direction [k, n] n))
      (bt_insert n (node_set_parent (Some ?w) (BufferView v)) (nodes a))\<rparr>" using b by simp
  show "good b" by (rule good_link [OF ga wa na _ own below _ _ re' b']) (use n in \<open>simp_all add: split_of_def\<close>)
  have B: "bt_get (nodes b) m = (if m = ?w then Some (Split (split_of ?w sid q direction [k, n] n))
      else if m = n then Some (BufferView (v\<lparr>bv_parent := Some ?w\<rparr>)) else bt_get (nodes a) m)" for m
    by (simp add: b)
  have "panes b = panes a" by (rule ext) (simp add: panes_def B na wa)
  then show "panes b = panes s" using wraps_edit(5) [OF g w] by simp
  show "(n, ?w) \<in> up (layout b)" using wn by (simp add: up_def layout_Some B)
  show "up (layout a) \<subseteq> up (layout b)"
    using wn na wa n(2) by (auto simp: up_def layout_Some B split_of_def)
qed

lemma pane_root_owner: "pane_root s sid r \<Longrightarrow> owner_root s r"
  by (auto simp: pane_root_def owner_root_def)

text \<open>Updating a list without repetitions at an index replaces the element there.\<close>

lemma update_is_map:
  assumes "distinct xs" and "i < length xs"
  shows "xs[i := k] = map (\<lambda>x. if x = xs ! i then k else x) xs"
  by (rule nth_equalityI) (use assms in \<open>auto simp: nth_list_update nth_eq_iff_index_eq\<close>)

lemma reseat_kids:
  assumes "distinct (child_ids pd)" and "active_ok pd" and "n \<in> set (child_ids pd)" and "k \<notin> set (child_ids pd)"
    and "bt_get (nodes s) p = Some pd" and "bt_get (nodes s) k = Some kd" and "k \<noteq> p"
  shows "\<exists>pd'. reseat n k pd pd' \<and> child_ids pd' = map (\<lambda>c. if c = n then k else c) (child_ids pd) \<and>
    repoint_owner_reference sid (Some p) n k s =
      (Ok (), s\<lparr>nodes := bt_insert k (node_set_parent (Some p) kd) (bt_insert p pd' (nodes s))\<rparr>)"
proof (cases pd)
  case (Split sp)
  obtain i where i: "child_position n (sp_children sp) = Some i" "i < length (sp_children sp)" "sp_children sp ! i = n"
    using position_in [of n "sp_children sp"] assms(3) Split by auto
  let ?sp = "sp\<lparr>sp_children := (sp_children sp)[i := k]\<rparr>"
  have "reseat n k pd (Split ?sp)"
    using Split assms(1,4) i set_update_child [of "sp_children sp" i k] by (simp add: reseat_def)
  moreover have "child_ids (Split ?sp) = map (\<lambda>c. if c = n then k else c) (child_ids pd)"
    using Split assms(1) i update_is_map [of "sp_children sp" i k] by simp
  ultimately show ?thesis
    using assms(5-7) Split i by (intro exI [of _ "Split ?sp"])
      (simp add: repoint_owner_reference_def bind_run step_run resume_run state_node_def put_node_run set_parent_def
        node_mut_run cong: run_congs)
next
  case (Tabs tb)
  obtain i where i: "tab_position n (tb_tabs tb) = Some i" "i < length (tb_tabs tb)" "te_child (tb_tabs tb ! i) = n"
    using tab_position_in [of n "tb_tabs tb"] assms(3) Tabs by auto
  let ?tb = "tb\<lparr>tb_tabs := (tb_tabs tb)[i := (tb_tabs tb ! i)\<lparr>te_child := k\<rparr>]\<rparr>"
  have map: "map te_child (tb_tabs ?tb) = (map te_child (tb_tabs tb))[i := k]" by (simp add: map_update)
  have "reseat n k pd (Tabs ?tb)"
    using Tabs assms(1,2,4) i set_update_child [of "map te_child (tb_tabs tb)" i k] map
    by (auto simp: reseat_def split: if_splits)
  moreover have "child_ids (Tabs ?tb) = map (\<lambda>c. if c = n then k else c) (child_ids pd)"
    using Tabs assms(1) i map update_is_map [of "map te_child (tb_tabs tb)" i k] by simp
  ultimately show ?thesis
    using assms(5-7) Tabs i by (intro exI [of _ "Tabs ?tb"])
      (simp add: repoint_owner_reference_def bind_run step_run resume_run state_node_def put_node_run set_parent_def
        node_mut_run cong: run_congs)
qed (use assms(3) in simp)

text \<open>
  The node \<open>w\<close> takes the place of \<open>k\<close>: where its parent had \<open>k\<close>, at the same position, or as the root of the
  floating window that \<open>k\<close> was the root of.
\<close>

definition takes_place :: "server_state \<Rightarrow> node_id \<Rightarrow> node_id option \<Rightarrow> node_id \<Rightarrow> server_state \<Rightarrow> bool" where
  "takes_place s k q w t \<longleftrightarrow>
     (case q of
        Some p \<Rightarrow> \<exists>c d. layout s p = Some c \<and> layout t p = Some d \<and> k \<in> set (ce_kids c) \<and>
          ce_kids d = map (\<lambda>m. if m = k then w else m) (ce_kids c)
      | None \<Rightarrow> \<exists>fid f f'. bt_get (floating s) fid = Some f \<and> fw_root_node f = k \<and>
          bt_get (floating t) fid = Some f' \<and> fw_root_node f' = w)"

text \<open>
  What \<open>split_leaf_with_new_buffer\<close> does between creating the view and focusing it.
\<close>

lemma split_place:
  assumes g: "good s" and foc: "focusable s sid r k"
    and n: "bt_get (nodes s) n = Some (BufferView v)" "bv_parent v = None" "bv_session_id v = sid"
    and own: "\<not> owner_root s n" and nk: "n \<noteq> k" and kd: "bt_get (nodes s) k = Some kd"
    and c: "c = s\<lparr>node_ids := Suc (node_ids s),
      nodes := bt_insert n (BufferView (v\<lparr>bv_parent := Some (node_ids s)\<rparr>))
        (bt_insert k (node_set_parent (Some (node_ids s)) kd)
          (bt_insert (node_ids s) (Split (split_of (node_ids s) sid (node_par kd) direction [k, n] n)) (nodes s)))\<rparr>"
  shows "\<exists>b r'. repoint_owner_reference sid (node_par kd) k (node_ids s) c = (Ok (), b) \<and> good b \<and>
    panes b = panes s \<and> focusable b sid r' n \<and> takes_place s k (node_par kd) (node_ids s) b \<and>
    (\<forall>m. m \<noteq> n \<longrightarrow> m \<noteq> k \<longrightarrow> m \<noteq> node_ids s \<longrightarrow> node_par kd \<noteq> Some m \<longrightarrow> layout b m = layout s m) \<and>
    bt_get (nodes b) (node_ids s) = Some (Split (split_of (node_ids s) sid (node_par kd) direction [k, n] n))"
proof -
  let ?w = "node_ids s" and ?q = "node_par kd"
  let ?wd = "Split (split_of ?w sid ?q direction [k] n)"
  have ses: "node_session kd = sid" and view: "is_view s k" and has: "has_session sid s"
    and up: "(k, r) \<in> (up (layout s))\<^sup>*" "parentless (layout s) r" "pane_root s sid r"
    using foc kd by (auto simp: focusable_def layout_Some)
  have fresh: "bt_get (nodes s) ?w = None"
    using idsD(1) [OF goodD(13) [OF g], of ?w] by (cases "bt_get (nodes s) ?w") auto
  have wk: "?w \<noteq> k" and wn: "?w \<noteq> n" using fresh kd n(1) by auto
  have nview: "is_view s n" using n(1) by (simp add: is_view_def)
  show ?thesis
  proof (cases ?q)
    case (Some p)
    obtain pd where pd: "bt_get (nodes s) p = Some pd" "k \<in> set (child_ids pd)" using good_parent [OF g kd Some] by blast
    have pk: "p \<noteq> k" "p \<noteq> n" "p \<noteq> ?w" using good_kids(3) [OF g pd] pd n(1) fresh by auto
    have wp: "?w \<notin> set (child_ids pd)" using good_kids(2) [OF g pd(1), of ?w] fresh by auto
    have pc: "bt_get (nodes c) p = Some pd" and wc: "bt_get (nodes c) ?w = Some (Split (split_of ?w sid ?q direction [k, n] n))"
      using pd(1) pk wk wn by (simp_all add: c)
    obtain pd' where pd': "reseat k ?w pd pd'" "child_ids pd' = map (\<lambda>m. if m = k then ?w else m) (child_ids pd)" "repoint_owner_reference sid (Some p) k ?w c =
        (Ok (), c\<lparr>nodes := bt_insert ?w (node_set_parent (Some p) (Split (split_of ?w sid ?q direction [k, n] n))) (bt_insert p pd' (nodes c))\<rparr>)"
      (is "_ = (_, ?b)")
      using reseat_kids [OF good_kids(1,4) [OF g pd] pd(2) wp pc wc, of sid] pk by blast
    define a where "a = s\<lparr>node_ids := Suc ?w, nodes := bt_insert ?w ?wd (bt_insert k (node_set_parent (Some ?w) kd) (bt_insert p pd' (nodes s)))\<rparr>"
    have w: "wraps s k ?wd pd' a"
      unfolding wraps_def using kd ses nview view pd'(1) pd(1) Some wk
      by (auto simp: a_def split_of_def is_view_def)
    have own_k: "\<not> owner_root s k" using owner_root_parentless [OF g, of k] kd Some by (auto simp: parentless_cell)
    have ga: "good a" by (rule good_wrap [OF g w own_k]) (simp add: a_def)
    have own_a: "\<not> owner_root a n" using own owner_root_cong [of a s n] by (simp add: a_def)
    have b: "?b = a\<lparr>nodes := bt_insert ?w (Split (split_of ?w sid ?q direction [k, n] n))
        (bt_insert n (BufferView (v\<lparr>bv_parent := Some ?w\<rparr>)) (nodes a))\<rparr>"
    proof -
      have "nodes ?b = bt_insert ?w (Split (split_of ?w sid ?q direction [k, n] n))
          (bt_insert n (BufferView (v\<lparr>bv_parent := Some ?w\<rparr>)) (nodes a))"
        by (rule bt.map_ext) (use nk wk wn pk Some in \<open>simp add: a_def c split_of_def\<close>)
      then show ?thesis by (simp add: a_def c)
    qed
    note l = split_linked [OF g w ga n own_a nk b]
    have "(k, r) \<in> (up (layout a))\<^sup>*" using wraps_up(2) [OF g w] up(1) by blast
    moreover have "r \<noteq> k" using owner_root_parentless [OF g pane_root_owner [OF up(3)]] kd Some by (auto simp: parentless_cell)
    ultimately obtain x where x: "(k, x) \<in> up (layout a)" "(x, r) \<in> (up (layout a))\<^sup>*" by (metis converse_rtranclE)
    moreover have "x = ?w" using x(1) wraps_up(1) [OF g w] up_single_valued [of "layout a"] by (auto dest: single_valuedD)
    ultimately have "(?w, r) \<in> (up (layout ?b))\<^sup>*" using rtrancl_mono [OF l(4)] by blast
    then have nr: "(n, r) \<in> (up (layout ?b))\<^sup>*" using l(3) by (rule converse_rtrancl_into_rtrancl [rotated])
    have same: "sessions ?b = sessions s" "floating ?b = floating s" by (simp_all add: c)
    have "owner_root ?b r" using pane_root_owner [OF up(3)] owner_root_cong [OF same] by blast
    then have pr: "parentless (layout ?b) r" by (rule owner_root_parentless [OF l(1)])
    have "focusable ?b sid r n"
      unfolding focusable_def
    proof (intro conjI)
      have "bt_get (nodes ?b) n = Some (BufferView (v\<lparr>bv_parent := Some ?w\<rparr>))" using wn nk pk by (simp add: c)
      then show "is_view ?b n" "\<exists>c. layout ?b n = Some c \<and> ce_session c = sid"
        using n(3) by (auto simp: is_view_def layout_def)
      show "pane_root ?b sid r" using up(3) unfolding pane_root_def same .
      show "has_session sid ?b" using has unfolding has_session_def same .
    qed (use nr pr in auto)
    moreover have "takes_place s k ?q ?w ?b"
      using pd pd'(2) pk Some by (simp add: takes_place_def layout_def c)
    moreover have "layout ?b m = layout s m" if "m \<noteq> n" "m \<noteq> k" "m \<noteq> ?w" "?q \<noteq> Some m" for m
      using that Some by (auto simp: layout_def c)
    ultimately show ?thesis using l(1,2) pd'(3) Some b by auto
  next
    case None
    have rk: "r = k" using up(1) None kd by (auto simp: up_def layout_Some elim: converse_rtranclE)
    have "\<not> is_session_root s k" using session_root_tabs [OF g kd] view kd by (auto simp: is_view_def)
    then obtain fid fw where fw: "bt_get (floating s) fid = Some fw" "fw_root_node fw = k" "fw_visible fw"
      using up(3) rk by (auto simp: pane_root_def is_session_root_iff)
    have fid: "floating_id_by_root s k = Some fid" using floating_id_by_root_Some [OF goodD(7) [OF g]] fw by blast
    have cs: "sessions c = sessions s" "floating c = floating s" by (simp_all add: c)
    let ?b = "c\<lparr>floating := bt_insert fid (fw\<lparr>fw_root_node := ?w\<rparr>) (floating s),
       nodes := bt_insert ?w (Split (split_of ?w sid None direction [k, n] n)) (nodes c)\<rparr>"
    have run: "repoint_owner_reference sid None k ?w c = (Ok (), ?b)"
    proof -
      have "\<not> is_session_root c k" "floating_id_by_root c k = Some fid"
        using \<open>\<not> is_session_root s k\<close> fid by (simp_all add: is_session_root_def floating_id_by_root_def cs)
      moreover have "bt_get (nodes c) ?w = Some (Split (split_of ?w sid ?q direction [k, n] n))" using wk wn by (simp add: c)
      ultimately show ?thesis
        using fw(1) None by (simp add: repoint_owner_reference_def bind_run step_run resume_run floating_mut_run
            set_parent_def node_mut_run cs split_of_def cong: run_congs)
    qed
    define a where "a = s\<lparr>node_ids := Suc ?w, nodes := bt_insert ?w ?wd (bt_insert k (node_set_parent (Some ?w) kd) (nodes s)),
       floating := bt_insert fid (fw\<lparr>fw_root_node := ?w\<rparr>) (floating s)\<rparr>"
    have w: "wraps s k ?wd undefined a"
      unfolding wraps_def using kd ses nview view None wk by (auto simp: a_def split_of_def is_view_def)
    have ga: "good a" by (rule good_wrap_floating [OF g w fw(1,2)]) (simp add: a_def)
    have own_a: "\<not> owner_root a n"
      using own wn by (auto simp: owner_root_def a_def split: if_splits)
    have b: "?b = a\<lparr>nodes := bt_insert ?w (Split (split_of ?w sid ?q direction [k, n] n))
        (bt_insert n (BufferView (v\<lparr>bv_parent := Some ?w\<rparr>)) (nodes a))\<rparr>"
    proof -
      have "nodes ?b = bt_insert ?w (Split (split_of ?w sid ?q direction [k, n] n))
          (bt_insert n (BufferView (v\<lparr>bv_parent := Some ?w\<rparr>)) (nodes a))"
        by (rule bt.map_ext) (use nk wk wn None in \<open>simp add: a_def c split_of_def\<close>)
      then show ?thesis by (simp add: a_def c)
    qed
    note l = split_linked [OF g w ga n own_a nk b]
    have fb: "bt_get (floating ?b) fid = Some (fw\<lparr>fw_root_node := ?w\<rparr>)" by simp
    have pr: "parentless (layout ?b) ?w" using owner_root_parentless [OF l(1) owner_rootI(2) [OF fb]] by simp
    have "focusable ?b sid ?w n"
      unfolding focusable_def
    proof (intro conjI)
      have "bt_get (nodes ?b) n = Some (BufferView (v\<lparr>bv_parent := Some ?w\<rparr>))" using wn nk by (simp add: c)
      then show "is_view ?b n" "\<exists>c. layout ?b n = Some c \<and> ce_session c = sid"
        using n(3) by (auto simp: is_view_def layout_def)
      show "pane_root ?b sid ?w" unfolding pane_root_def using fb fw(3) by (intro disjI2 exI [of _ fid]) auto
      show "has_session sid ?b" using has by (simp add: has_session_def c)
    qed (use l(3) pr in auto)
    moreover have "takes_place s k ?q ?w ?b" using fw None by (auto simp: takes_place_def)
    moreover have "layout ?b m = layout s m" if "m \<noteq> n" "m \<noteq> k" "m \<noteq> ?w" for m
      using that by (auto simp: layout_def c)
    ultimately show ?thesis using l(1,2) run None by auto
  qed
qed

text \<open>Of a split, the focus methods change what it remembers of the focus.\<close>

lemma quiet_split:
  assumes "quiet t = quiet s" and "bt_get (nodes s) n = Some (Split sp)"
  obtains sp' where "bt_get (nodes t) n = Some (Split sp')" "sp_direction sp' = sp_direction sp"
    "sp_children sp' = sp_children sp" "sp_sizes sp' = sp_sizes sp" "sp_parent sp' = sp_parent sp"
proof -
  obtain nd where nd: "bt_get (nodes t) n = Some nd" "quiet_node nd = quiet_node (Split sp)"
    using quiet_eqD(5) [OF assms(1), of n] assms(2) by (cases "bt_get (nodes t) n") auto
  then obtain sp' where sp': "bt_get (nodes t) n = Some (Split sp')"
    and q: "sp'\<lparr>sp_last_focused_descendant := None\<rparr> = sp\<lparr>sp_last_focused_descendant := None\<rparr>"
    by (cases nd) simp_all
  show thesis
    by (rule that [OF sp']) (use arg_cong [OF q, of sp_direction] arg_cong [OF q, of sp_children]
        arg_cong [OF q, of sp_sizes] arg_cong [OF q, of sp_parent] in simp_all)
qed

lemma split_leaf_run:
  assumes g: "good s" and room: "Suc (node_ids s) < u64_max" and foc: "focusable s sid r leaf"
    and b: "bt_get (buffers s) bid = Some b" "bu_attachment b = Detached"
  shows "\<exists>t se sp c. split_leaf_with_new_buffer leaf direction bid s = (Ok (Suc (node_ids s)), t) \<and> good t \<and>
    panes t = (panes s)(node_ids s := Some bid) \<and>
    bt_get (nodes t) (Suc (node_ids s)) = Some (Split sp) \<and>
    sp_direction sp = direction \<and> sp_children sp = [leaf, node_ids s] \<and> sp_sizes sp = [1, 1] \<and>
    layout s leaf = Some c \<and> sp_parent sp = ce_parent c \<and> takes_place s leaf (ce_parent c) (Suc (node_ids s)) t \<and>
    (\<forall>m. m \<notin> {leaf, node_ids s, Suc (node_ids s)} \<longrightarrow> ce_parent c \<noteq> Some m \<longrightarrow> layout t m = layout s m) \<and>
    bt_get (sessions t) sid = Some se \<and> se_focused_leaf se = Some (node_ids s) \<and> visible_in t sid (node_ids s)"
proof -
  let ?n = "node_ids s" and ?w = "Suc (node_ids s)"
  have view: "is_view s leaf" and has: "has_session sid s" and ses: "\<exists>c. layout s leaf = Some c \<and> ce_session c = sid"
    and up: "(leaf, r) \<in> (up (layout s))\<^sup>*" "parentless (layout s) r" "pane_root s sid r"
    using foc by (auto simp: focusable_def)
  obtain lv where lv: "bt_get (nodes s) leaf = Some (BufferView lv)" using view by (auto simp: is_view_def)
  have lses: "bv_session_id lv = sid" using ses lv by (auto simp: layout_Some)
  have rm: "?n < u64_max" using room by simp
  obtain s1 where s1: "create_buffer_view sid bid s = (Ok ?n, s1)" "good s1" "bt_get (nodes s) ?n = None" "\<not> owner_root s1 ?n"
    "s1 = s\<lparr>node_ids := ?w, nodes := bt_insert ?n (BufferView (new_view ?n sid bid b)) (nodes s),
         buffers := bt_insert bid (b\<lparr>bu_attachment := Attached ?n, bu_ever_attached := True\<rparr>) (buffers s)\<rparr>"
    using create_buffer_view_run [OF g rm has b] by blast
  have nk: "?n \<noteq> leaf" using lv s1(3) by auto
  have n1: "bt_get (nodes s1) ?n = Some (BufferView (new_view ?n sid bid b))" and l1: "bt_get (nodes s1) leaf = Some (BufferView lv)"
    and w1: "node_ids s1 = ?w"
    using s1(5) lv nk by simp_all
  have L1: "layout s1 m = (if m = ?n then Some (cell_of (BufferView (new_view ?n sid bid b))) else layout s m)" for m
    using s1(5) by (simp add: layout_def)
  have up1: "up (layout s1) = up (layout s)"
    using s1(3) by (auto simp: up_def L1 layout_Some new_view_def split: if_splits)
  have same: "sessions s1 = sessions s" "floating s1 = floating s" using s1(5) by simp_all
  have foc1: "focusable s1 sid r leaf"
    unfolding focusable_def up1
  proof (intro conjI)
    show "parentless (layout s1) r" using up(2) s1(3) by (auto simp: parentless_def L1 layout_Some)
    show "pane_root s1 sid r" using up(3) unfolding pane_root_def same .
    show "has_session sid s1" using has unfolding has_session_def same .
    show "is_view s1 leaf" using l1 by (simp add: is_view_def)
    show "\<exists>c. layout s1 leaf = Some c \<and> ce_session c = sid" using ses nk by (simp add: L1)
  qed (rule up(1))
  define c where "c = s1\<lparr>node_ids := Suc (node_ids s1),
      nodes := bt_insert ?n (BufferView ((new_view ?n sid bid b)\<lparr>bv_parent := Some (node_ids s1)\<rparr>))
        (bt_insert leaf (node_set_parent (Some (node_ids s1)) (BufferView lv))
          (bt_insert (node_ids s1) (Split (split_of (node_ids s1) sid (node_par (BufferView lv)) direction [leaf, ?n] ?n)) (nodes s1)))\<rparr>"
  have nv: "bv_parent (new_view ?n sid bid b) = None" "bv_session_id (new_view ?n sid bid b) = sid" by (simp_all add: new_view_def)
  obtain d r' where d: "repoint_owner_reference sid (bv_parent lv) leaf ?w c = (Ok (), d)" "good d" "panes d = panes s1"
    "focusable d sid r' ?n" "takes_place s1 leaf (bv_parent lv) ?w d"
    "\<And>m. m \<noteq> ?n \<Longrightarrow> m \<noteq> leaf \<Longrightarrow> m \<noteq> ?w \<Longrightarrow> bv_parent lv \<noteq> Some m \<Longrightarrow> layout d m = layout s1 m"
    "bt_get (nodes d) ?w = Some (Split (split_of ?w sid (bv_parent lv) direction [leaf, ?n] ?n))"
    using split_place [OF s1(2) foc1 n1 nv s1(4) nk l1 c_def] w1 by auto
  obtain t se where t: "focus_leaf sid ?n d = (Ok (), t)" "quiet t = quiet d" "healed sid t"
    "bt_get (sessions t) sid = Some se" "se_focused_leaf se = Some ?n"
    using focus_leaf_healed [OF goodD(1) [OF d(2)] d(4)] by blast
  have "good t" using preserves_at [OF good_focus_leaf d(2), of sid ?n] t(1) by simp
  moreover have "split_leaf_with_new_buffer leaf direction bid s = (Ok ?w, t)"
    using lv lses s1(1) d(1) t(1) room w1 nk n1 l1 idsD(1) [OF goodD(13) [OF g] lv] unfolding c_def
    by (simp add: split_leaf_with_new_buffer_def bind_run step_run resume_run ensure_leaf_def state_node_def
        node_session_id_def node_parent_def next_node_id_def id_next_no_wrap put_node_run set_parent_def node_mut_run
        split_of_def cong: run_congs)
  moreover have "panes t = panes d" using quiet_shrinks [OF t(2)] by (simp add: shrinks_def)
  moreover have "panes s1 = (panes s)(?n := Some bid)" using s1(5) by (simp add: panes_def fun_eq_iff new_view_def)
  moreover have Lt: "layout t = layout d" by (rule quiet_eqD(1) [OF t(2)])
  moreover have "\<forall>m. m \<notin> {leaf, ?n, ?w} \<longrightarrow> bv_parent lv \<noteq> Some m \<longrightarrow> layout t m = layout s m"
    using d(6) by (simp add: Lt L1)
  moreover have "takes_place s leaf (bv_parent lv) ?w t"
  proof (cases "bv_parent lv")
    case (Some p)
    have "p \<noteq> ?n"
    proof
      assume "p = ?n"
      then show False using good_parent [OF g lv, of p] s1(3) Some by simp
    qed
    then show ?thesis using d(5) Some by (auto simp: takes_place_def Lt L1)
  next
    case None
    then obtain fid f f' where f: "bt_get (floating s) fid = Some f" "fw_root_node f = leaf"
      "bt_get (floating d) fid = Some f'" "fw_root_node f' = ?w"
      using d(5) by (auto simp: takes_place_def same)
    then obtain f'' where "bt_get (floating t) fid = Some f''" "fw_root_node f'' = ?w"
      using quiet_floating_D [OF t(2) [symmetric] f(3)] by auto
    then show ?thesis using f None by (auto simp: takes_place_def)
  qed
  moreover obtain sp where "bt_get (nodes t) ?w = Some (Split sp)" "sp_direction sp = direction" "sp_children sp = [leaf, ?n]"
    "sp_sizes sp = [1, 1]" "sp_parent sp = bv_parent lv"
    using quiet_split [OF t(2) d(7)] by (auto simp: split_of_def)
  moreover have "layout s leaf = Some (cell_of (BufferView lv))" using lv by (simp add: layout_def)
  moreover have "visible_in t sid ?n" using t(3-5) by (auto simp: healed_def)
  ultimately show ?thesis using d(3) t(4,5) 
    by (intro exI [of _ t] exI [of _ se] exI [of _ sp] exI [of _ "cell_of (BufferView lv)"] conjI) simp_all
qed

section \<open>Sessions\<close>

lemma good_new_session:
  assumes g: "good s" and sid: "sid = session_ids s"
    and r: "bt_get (nodes s) r = Some (Tabs tb)" "tb_parent tb = None" "tb_session_id tb = sid" and own: "\<not> owner_root s r"
    and se: "se_id se = sid" "se_root_node se = r" "se_floating se = []" "se_focused_floating se = None"
    and t: "t = s\<lparr>session_ids := Suc sid, sessions := bt_insert sid se (sessions s)\<rparr>"
  shows "good t"
proof (rule good_sessions [OF g])
  note ids = idsD [OF goodD(13) [OF g]]
  have fresh: "bt_get (sessions s) sid = None" using ids(5) [of sid] sid by (cases "bt_get (sessions s) sid") auto
  have L: "layout t = layout s" by (rule ext) (simp add: t layout_def)
  have S: "bt_get (sessions t) a = (if a = sid then Some se else bt_get (sessions s) a)" for a by (simp add: t)
  have Lr: "layout s r = Some (cell_of (Tabs tb))" using r(1) by (simp add: layout_def)
  show "sessions_ok t"
    unfolding sessions_ok_def L
  proof (intro allI impI)
    fix a x
    assume x: "bt_get (sessions t) a = Some x"
    show "se_id x = a \<and> distinct (se_floating x) \<and>
        (\<exists>c. layout s (se_root_node x) = Some c \<and> ce_kind c = KTabs \<and> ce_parent c = None \<and> ce_session c = a) \<and>
        (\<forall>fid \<in> set (se_floating x). \<exists>f. bt_get (floating t) fid = Some f \<and> fw_session_id f = a)"
    proof (cases "a = sid")
      case True
      then have "x = se" using x by (simp add: S)
      then show ?thesis using True se Lr r(2,3) by simp
    next
      case False
      then have "bt_get (sessions s) a = Some x" using x by (simp add: S)
      then show ?thesis using sessions_okD [OF goodD(6) [OF g], of a x] by (simp add: t)
    qed
  qed
  show "floating_ok t"
  proof -
    have "\<exists>x. bt_get (sessions t) (fw_session_id f) = Some x \<and> fid \<in> set (se_floating x) \<and> se_root_node x \<noteq> fw_root_node f"
      if f: "bt_get (floating s) fid = Some f" for fid f
    proof -
      obtain x where x: "bt_get (sessions s) (fw_session_id f) = Some x" "fid \<in> set (se_floating x)" "se_root_node x \<noteq> fw_root_node f"
        using floating_okD(3) [OF goodD(7) [OF g] f] by blast
      then have "fw_session_id f \<noteq> sid" using fresh by auto
      then show ?thesis using x by (simp add: S)
    qed
    then show ?thesis using goodD(7) [OF g] unfolding floating_ok_def L by (simp add: t)
  qed
  show "ff_ok t" using goodD(10) [OF g] se(4) unfolding ff_ok_def S by (simp add: t)
  show "ids_ok t"
  proof (rule ids_okI)
    show "a < session_ids t" if "bt_get (sessions t) a = Some x" for a x
      using that ids(5) sid by (auto simp: S t less_Suc_eq split: if_splits)
    show "fid < floating_ids t" if "bt_get (sessions t) a = Some x" "se_focused_floating x = Some fid" for a x fid
      using that ids(7) se(4) by (auto simp: S t split: if_splits)
  qed (use ids in \<open>auto simp: t\<close>)
qed (simp_all add: t)

lemma create_session_run:
  assumes g: "good s" and room: "session_ids s < u64_max" "node_ids s < u64_max"
  shows "\<exists>t se. create_session name now s = (Ok (session_ids s), t) \<and> good t \<and> panes t = panes s \<and>
    bt_get (sessions s) (session_ids s) = None \<and> bt_get (sessions t) (session_ids s) = Some se \<and>
    se_name se = name \<and> root_tabs t (session_ids s) = Ok (se_root_node se) \<and>
    se_floating se = [] \<and> se_focused_leaf se = None \<and> below (layout t) (se_root_node se) = {se_root_node se}"
proof -
  let ?sid = "session_ids s" and ?n = "node_ids s"
  define s1 where "s1 = s\<lparr>node_ids := Suc ?n, nodes := bt_insert ?n (empty_tabs ?n ?sid) (nodes s)\<rparr>"
  note s1 = good_fresh_tabs [OF g refl s1_def]
  let ?se = "\<lparr>se_id = ?sid, se_name = name, se_root_node = ?n, se_floating = [],
       se_focused_leaf = None, se_focused_floating = None, se_zoomed_node = None,
       se_viewport = last_viewport s, se_pane_titles = last_pane_titles s,
       se_base_index = last_base_index s, se_focus_history = [], se_created_at = now\<rparr>"
  define t where "t = s1\<lparr>session_ids := Suc ?sid, sessions := bt_insert ?sid ?se (sessions s1)\<rparr>"
  have n1: "bt_get (nodes s1) ?n = Some (empty_tabs ?n ?sid)" by (simp add: s1_def)
  have "good t"
    by (rule good_new_session [OF s1(1) _ n1 [unfolded empty_tabs_def] _ _ s1(4) _ _ _ _ t_def [simplified]])
      (simp_all add: s1_def)
  moreover have "create_session name now s = (Ok ?sid, t)"
    using room by (simp add: create_session_def bind_run step_run resume_run next_session_id_def next_node_id_def
        id_next_no_wrap put_node_run t_def s1_def cong: run_congs)
  moreover have "bt_get (sessions t) ?sid = Some ?se" by (simp add: t_def)
  moreover have "bt_get (sessions s) ?sid = None"
    using idsD(5) [OF goodD(13) [OF g], of ?sid] by (cases "bt_get (sessions s) ?sid") auto
  moreover have "panes t = panes s" using s1(2) by (simp add: panes_def fun_eq_iff t_def s1_def empty_tabs_def)
  moreover have "bt_get (nodes t) ?n = Some (empty_tabs ?n ?sid)" by (simp add: t_def s1_def)
  then have "below (layout t) ?n = {?n}"
    using below_childless [OF \<open>good t\<close>] by (simp add: empty_tabs_def)
  moreover have "root_tabs t ?sid = Ok ?n"
    by (simp add: root_tabs_def root_node_def state_session_def state_node_def t_def s1_def empty_tabs_def)
  ultimately show ?thesis by auto
qed

section \<open>Floating windows\<close>

definition new_floating :: "floating_id \<Rightarrow> session_id \<Rightarrow> node_id \<Rightarrow> float_geometry \<Rightarrow> rstring option \<Rightarrow> bool \<Rightarrow> floating_window" where
  "new_floating fid sid root geometry title close_on_empty =
     \<lparr>fw_id = fid, fw_session_id = sid, fw_root_node = root, fw_title = title, fw_geometry = geometry,
      fw_focused = False, fw_visible = True, fw_close_on_empty = close_on_empty, fw_border = True,
      fw_last_focused_leaf = None\<rparr>"

lemma good_bump_floating: "good s \<Longrightarrow> good (s\<lparr>floating_ids := Suc (floating_ids s)\<rparr>)"
proof -
  assume g: "good s"
  let ?t = "s\<lparr>floating_ids := Suc (floating_ids s)\<rparr>"
  have L: "layout ?t = layout s" by (rule ext) (simp add: layout_def)
  have "ids_ok ?t" by (rule ids_okI) (use idsD [OF goodD(13) [OF g]] in \<open>auto simp: less_Suc_eq\<close>)
  then show ?thesis
    using goodD(6,7,10) [OF g] by (intro good_sessions [OF g]) (simp_all add: sessions_ok_def floating_ok_def ff_ok_def L)
qed

lemma good_new_floating:
  assumes g: "good s" and fid: "fid = floating_ids s" and se: "bt_get (sessions s) sid = Some se"
    and r: "bt_get (nodes s) root = Some rd" "node_par rd = None" "node_session rd = sid" and own: "\<not> owner_root s root"
    and t: "t = s\<lparr>floating_ids := Suc fid,
      floating := bt_insert fid (new_floating fid sid root geometry title close_on_empty) (floating s),
      sessions := bt_insert sid (se\<lparr>se_floating := se_floating se @ [fid]\<rparr>) (sessions s)\<rparr>"
  shows "good t" and "bt_get (floating s) fid = None" and "fid \<notin> set (se_floating se)"
proof -
  note ids = idsD [OF goodD(13) [OF g]]
  let ?f = "new_floating fid sid root geometry title close_on_empty"
  show fresh: "bt_get (floating s) fid = None" using ids(6) [of fid] fid by (cases "bt_get (floating s) fid") auto
  show nin: "fid \<notin> set (se_floating se)" using sessions_okD(4) [OF goodD(6) [OF g] se, of fid] fresh by auto
  have L: "layout t = layout s" by (rule ext) (simp add: t layout_def)
  have v: "is_view t n = is_view s n" for n by (rule is_view_cong [OF L])
  have S: "bt_get (sessions t) a = (if a = sid then Some (se\<lparr>se_floating := se_floating se @ [fid]\<rparr>) else bt_get (sessions s) a)" for a
    by (simp add: t)
  have F: "bt_get (floating t) a = (if a = fid then Some ?f else bt_get (floating s) a)" for a by (simp add: t)
  have f: "fw_id ?f = fid" "fw_session_id ?f = sid" "fw_root_node ?f = root" "fw_last_focused_leaf ?f = None"
    by (simp_all add: new_floating_def)
  have "sessions_ok t"
    unfolding sessions_ok_def L
  proof (intro allI impI)
    fix a x'
    assume x': "bt_get (sessions t) a = Some x'"
    obtain x where x: "bt_get (sessions s) a = Some x" "se_id x' = se_id x" "se_root_node x' = se_root_node x"
      "se_floating x' = (if a = sid then se_floating x @ [fid] else se_floating x)"
      using x' se by (auto simp: S split: if_splits)
    note ok = sessions_okD [OF goodD(6) [OF g] x(1)]
    have "fid \<notin> set (se_floating x)" using ok(4) [of fid] fresh by auto
    moreover have "\<exists>h. bt_get (floating t) gid = Some h \<and> fw_session_id h = a" if gid: "gid \<in> set (se_floating x')" for gid
    proof (cases "gid = fid")
      case True
      then have "a = sid" using gid x(4) \<open>fid \<notin> set (se_floating x)\<close> by (auto split: if_splits)
      then show ?thesis using True f by (simp add: F)
    next
      case False
      then have "gid \<in> set (se_floating x)" using gid x(4) by (auto split: if_splits)
      then show ?thesis using ok(4) [of gid] False by (simp add: F)
    qed
    ultimately show "se_id x' = a \<and> distinct (se_floating x') \<and>
        (\<exists>c. layout s (se_root_node x') = Some c \<and> ce_kind c = KTabs \<and> ce_parent c = None \<and> ce_session c = a) \<and>
        (\<forall>gid \<in> set (se_floating x'). \<exists>h. bt_get (floating t) gid = Some h \<and> fw_session_id h = a)"
      using ok(1,2,3) x(2,3,4) by simp
  qed
  moreover have "floating_ok t"
    unfolding floating_ok_def L
  proof (intro conjI allI impI)
    fix gid h
    assume "bt_get (floating t) gid = Some h"
    then have cases: "gid = fid \<and> h = ?f \<or> gid \<noteq> fid \<and> bt_get (floating s) gid = Some h" by (simp add: F split: if_splits)
    show "fw_id h = gid" using cases f floating_okD(1) [OF goodD(7) [OF g]] by auto
    show "\<exists>c. layout s (fw_root_node h) = Some c \<and> ce_parent c = None \<and> ce_session c = fw_session_id h"
      using cases
    proof (elim disjE conjE)
      assume "h = ?f"
      then show ?thesis using r f by (simp add: layout_def)
    qed (use floating_okD(2) [OF goodD(7) [OF g]] in blast)
    show "\<exists>x. bt_get (sessions t) (fw_session_id h) = Some x \<and> gid \<in> set (se_floating x) \<and> se_root_node x \<noteq> fw_root_node h"
      using cases
    proof (elim disjE conjE)
      assume "gid = fid" "h = ?f"
      moreover have "se_root_node se \<noteq> root" using own owner_rootI(1) [OF se] by auto
      ultimately show ?thesis using f by (simp add: S)
    next
      assume "bt_get (floating s) gid = Some h"
      then obtain x where "bt_get (sessions s) (fw_session_id h) = Some x" "gid \<in> set (se_floating x)" "se_root_node x \<noteq> fw_root_node h"
        using floating_okD(3) [OF goodD(7) [OF g]] by blast
      then show ?thesis using se by (cases "fw_session_id h = sid") (auto simp: S)
    qed
  next
    fix gid h hid h'
    assume a: "bt_get (floating t) gid = Some h" "bt_get (floating t) hid = Some h'" "fw_root_node h = fw_root_node h'"
    have root: "fw_root_node x \<noteq> root" if "bt_get (floating s) i = Some x" for i x
      using own owner_rootI(2) [OF that] by auto
    show "gid = hid"
    proof (cases "gid = fid \<or> hid = fid")
      case True
      then show ?thesis using a f root [of gid h] root [of hid h'] by (auto simp: F split: if_splits)
    next
      case False
      then show ?thesis using a floating_okD(4) [OF goodD(7) [OF g]] by (simp add: F)
    qed
  qed
  moreover have "lfd_ok t"
  proof -
    have "is_view s l" if "bt_get (floating t) gid = Some h" "fw_last_focused_leaf h = Some l" "l \<in> dom (layout s)" for gid h l
      using that f lfd_okD(2) [OF goodD(9) [OF g]] by (auto simp: F split: if_splits)
    then show ?thesis unfolding lfd_ok_def L v using goodD(9) [OF g] by (simp add: lfd_ok_def t)
  qed
  moreover have "ff_ok t"
    unfolding ff_ok_def
  proof (intro allI impI)
    fix a x' gid h
    assume h: "bt_get (sessions t) a = Some x'" "se_focused_floating x' = Some gid" "bt_get (floating t) gid = Some h"
    obtain x where x: "bt_get (sessions s) a = Some x" "se_focused_floating x = Some gid"
      using h(1,2) se by (auto simp: S split: if_splits)
    then have "gid \<noteq> fid" using ids(7) fid by auto
    then have "bt_get (floating s) gid = Some h" using h(3) by (simp add: F)
    then show "fw_session_id h = a" using goodD(10) [OF g] x unfolding ff_ok_def by blast
  qed
  moreover have "ids_ok t"
  proof (rule ids_okI)
    show "l < node_ids t" if "bt_get (floating t) a = Some h" "fw_last_focused_leaf h = Some l" for a h l
      using that f ids(3) by (auto simp: F t split: if_splits)
    show "a < session_ids t" if "bt_get (sessions t) a = Some x" for a x
      using that ids(5) se by (auto simp: S t split: if_splits)
    show "a < floating_ids t" if "bt_get (floating t) a = Some h" for a h
      using that ids(6) fid by (auto simp: F t less_Suc_eq split: if_splits)
    show "a < floating_ids t" if "bt_get (sessions t) b = Some x" "se_focused_floating x = Some a" for b x a
      using that ids(7) se fid by (auto simp: S t less_Suc_eq split: if_splits)
  qed (use ids in \<open>auto simp: t\<close>)
  moreover have "nodes t = nodes s" "buffers t = buffers s" by (simp_all add: t)
  ultimately show "good t"
    using goodD [OF g]
    by (simp add: good_def inv_def structure_ok_def attach_ok_def views_ok_def tabs_ok_def no_hollow_def
        shown_buffers_ok_def L)
qed

lemma focus_floating_run:
  assumes g: "good s" and f: "bt_get (floating s) fid = Some f"
  shows "wp (focus_floating fid) (\<lambda>_ t. good t \<and> quiet t = quiet s \<and> healed (fw_session_id f) t) (\<lambda>_ t. t = s) s"
proof -
  obtain x where x: "resolve_floating_focus s fid = Ok x"
    "case x of Some l \<Rightarrow> fw_visible f \<and> shown_leaf s (fw_root_node f) l
     | None \<Rightarrow> fw_visible f \<longrightarrow> (\<forall>l. \<not> shown_leaf s (fw_root_node f) l)"
    using resolve_floating_focus_Ok [OF goodD(1) [OF g] f] by blast
  show ?thesis
  proof (cases x)
    case None
    then show ?thesis using x(1) f by (simp add: focus_floating_def wp_simps state_floating_def)
  next
    case (Some l)
    then have l: "fw_visible f" "is_view s l" "(l, fw_root_node f) \<in> (up (layout s))\<^sup>*"
      using x(2) showing_star_up by (auto simp: shown_leaf_def)
    obtain c where c: "layout s (fw_root_node f) = Some c" "ce_session c = fw_session_id f"
      using floating_okD(2) [OF goodD(7) [OF g] f] by blast
    have "focusable s (fw_session_id f) (fw_root_node f) l"
      by (rule shown_focusable [OF goodD(2) [OF g] _ _ c l(2,3)])
        (use f l(1) floating_okD(3) [OF goodD(7) [OF g] f] in \<open>auto simp: has_session_def pane_root_def\<close>)
    then obtain t where t: "focus_leaf (fw_session_id f) l s = (Ok (), t)" "quiet t = quiet s" "healed (fw_session_id f) t"
      using focus_leaf_healed [OF goodD(1) [OF g]] by blast
    have "good t" using preserves_at [OF good_focus_leaf g, of "fw_session_id f" l] t(1) by simp
    moreover have "focus_floating fid s = (Ok (), t)"
      using x(1) f Some t(1) by (simp add: focus_floating_def bind_run step_run resume_run state_floating_def)
    ultimately show ?thesis using t by (simp add: wp_def)
  qed
qed

text \<open>Opening a floating window on a tree succeeds, or leaves everything but the counter as it was.\<close>

lemma create_floating_run:
  assumes g: "good s" and room: "floating_ids s < u64_max"
  shows "wp (create_floating_window_with_options sid root geometry title focus close_on_empty)
    (\<lambda>fid t. good t \<and> panes t = panes s \<and> fid = floating_ids s \<and> (focus \<longrightarrow> healed sid t) \<and>
       (\<exists>f. bt_get (floating t) fid = Some f \<and> fw_root_node f = root \<and> fw_session_id f = sid))
    (\<lambda>_ t. t = s \<or> t = s\<lparr>floating_ids := Suc (floating_ids s)\<rparr>) s"
    (is "wp ?m ?Q ?E s")
proof (cases "\<exists>se rd. bt_get (sessions s) sid = Some se \<and> bt_get (nodes s) root = Some rd \<and> node_par rd = None \<and>
    node_session rd = sid \<and> \<not> owner_root s root")
  case False
  have "wp ?m (\<lambda>_ _. False) (\<lambda>_ t. t = s) s"
    using False unfolding owner_root_checks [OF g]
    by (cases "bt_get (sessions s) sid"; cases "bt_get (nodes s) root")
      (auto simp: create_floating_window_with_options_def wp_simps ensure_session_exists_def ensure_node_belongs_to_def
        state_session_def state_node_def node_parent_def)
  then show ?thesis by (rule wp_mono) simp_all
next
  case True
  then obtain se rd where se: "bt_get (sessions s) sid = Some se" and r: "bt_get (nodes s) root = Some rd" "node_par rd = None"
    "node_session rd = sid" and own: "\<not> owner_root s root" by blast
  let ?fid = "floating_ids s"
  let ?f = "new_floating ?fid sid root geometry title close_on_empty"
  define t where "t = s\<lparr>floating_ids := Suc ?fid, floating := bt_insert ?fid ?f (floating s),
      sessions := bt_insert sid (se\<lparr>se_floating := se_floating se @ [?fid]\<rparr>) (sessions s)\<rparr>"
  note t = good_new_floating [OF g refl se r own t_def]
  have own': "\<not> is_session_root s root" "floating_id_by_root s root = None" using own owner_root_checks [OF g] by auto
  have pan: "panes t = panes s" by (simp add: panes_def fun_eq_iff t_def)
  have ft: "bt_get (floating t) ?fid = Some ?f" by (simp add: t_def)
  let ?undo = "\<lambda>e. pbind (modify (\<lambda>s. s\<lparr>floating := bt_remove ?fid (floating s),
      sessions := bt_update sid (\<lambda>se. se\<lparr>se_floating := filter (\<lambda>c. c \<noteq> ?fid) (se_floating se)\<rparr>) (sessions s)\<rparr>)) (\<lambda>_. raise e)"
  have start: "?m s = (if focus then match_result (focus_floating ?fid) (\<lambda>_. ret ?fid) ?undo else ret ?fid) t"
    using se r own' room unfolding t_def
    by (simp add: create_floating_window_with_options_def bind_run step_run resume_run ensure_session_exists_def
        ensure_node_belongs_to_def state_session_def state_node_def node_parent_def next_floating_id_def id_next_no_wrap
        session_mut_run new_floating_def cong: run_congs)
  have restored: "t\<lparr>floating := bt_remove ?fid (floating t),
      sessions := bt_update sid (\<lambda>se. se\<lparr>se_floating := filter (\<lambda>c. c \<noteq> ?fid) (se_floating se)\<rparr>) (sessions t)\<rparr> =
      s\<lparr>floating_ids := Suc ?fid\<rparr>"
  proof -
    have "bt_remove ?fid (floating t) = floating s" by (rule bt.map_ext) (simp add: t_def t(2))
    moreover have "filter (\<lambda>c. c \<noteq> ?fid) (se_floating se) = se_floating se"
      using t(3) by (intro filter_True) auto
    then have "bt_update sid (\<lambda>se. se\<lparr>se_floating := filter (\<lambda>c. c \<noteq> ?fid) (se_floating se)\<rparr>) (sessions t) = sessions s"
      by (intro bt.map_ext) (auto simp: t_def se)
    ultimately show ?thesis by (simp add: t_def)
  qed
  have "wp (if focus then match_result (focus_floating ?fid) (\<lambda>_. ret ?fid) ?undo else ret ?fid) ?Q ?E t"
  proof (cases focus)
    case True
    have "wp (focus_floating ?fid) (\<lambda>_. wp (ret ?fid) ?Q ?E) (\<lambda>e. wp (?undo e) ?Q ?E) t"
    proof (rule wp_mono [OF focus_floating_run [OF t(1) ft]])
      fix x u
      assume u: "good u \<and> quiet u = quiet t \<and> healed (fw_session_id ?f) u"
      have "panes u = panes s" using quiet_shrinks [of u t] u pan by (simp add: shrinks_def)
      moreover have "\<exists>f. bt_get (floating u) ?fid = Some f \<and> fw_root_node f = root \<and> fw_session_id f = sid"
        using quiet_floating_D [of t u, OF _ ft] u by (auto simp: new_floating_def)
      ultimately show "wp (ret ?fid) ?Q ?E u" using u by (simp add: new_floating_def)
    next
      show "wp (?undo e) ?Q ?E u" if "u = t" for e u using that restored by (simp add: wp_pbind)
    qed
    then show ?thesis using True by (simp only: if_True wp_match_result)
  next
    case False
    then show ?thesis using t(1) pan ft by (simp add: new_floating_def)
  qed
  with start show ?thesis by (simp only: wp_def)
qed

lemma create_floating_from_buffer_run:
  assumes g: "good s" and room: "floating_ids s < u64_max" "node_ids s < u64_max"
  shows "wp (create_floating_from_buffer_with_options sid bid geometry title focus close_on_empty)
    (\<lambda>fid t. good t \<and> panes t = (panes s)(node_ids s := Some bid) \<and> (focus \<longrightarrow> healed sid t) \<and>
       (\<exists>f. bt_get (floating t) fid = Some f \<and> fw_root_node f = node_ids s \<and> fw_session_id f = sid))
    (\<lambda>_ t. good t \<and> panes t = panes s) s"
    (is "wp ?m ?Q ?E s")
proof (cases "has_session sid s \<and> (\<exists>b. bt_get (buffers s) bid = Some b \<and> bu_attachment b = Detached)")
  case False
  have fails: "wp (create_buffer_view sid bid) (\<lambda>_ _. False) ?E s"
    by (rule create_buffer_view_fails [OF g room(2) False])
  show ?thesis
    unfolding create_floating_from_buffer_with_options_def by (rule wp_bindI [OF fails]) simp
next
  case True
  then obtain b where has: "has_session sid s" and b: "bt_get (buffers s) bid = Some b" "bu_attachment b = Detached" by blast
  let ?n = "node_ids s"
  obtain s1 where s1: "create_buffer_view sid bid s = (Ok ?n, s1)" "good s1" "bt_get (nodes s) ?n = None" "\<not> owner_root s1 ?n"
    "s1 = s\<lparr>node_ids := Suc ?n, nodes := bt_insert ?n (BufferView (new_view ?n sid bid b)) (nodes s),
         buffers := bt_insert bid (b\<lparr>bu_attachment := Attached ?n, bu_ever_attached := True\<rparr>) (buffers s)\<rparr>"
    using create_buffer_view_run [OF g room(2) has b] by blast
  have n1: "bt_get (nodes s1) ?n = Some (BufferView (new_view ?n sid bid b))" using s1(5) by simp
  have P1: "panes s1 = (panes s)(?n := Some bid)" using s1(5) by (simp add: panes_def fun_eq_iff new_view_def)
  have old: "((panes s)(?n := Some bid))(?n := None) = panes s" using s1(3) by (simp add: panes_def fun_eq_iff)
  have room1: "floating_ids s1 < u64_max" using room(1) s1(5) by simp
  have discard: "wp (discard_buffer_view ?n) (\<lambda>_ u. good u \<and> panes u = panes s) (\<lambda>_ _. False) t"
    if t: "t = s1 \<or> t = s1\<lparr>floating_ids := Suc (floating_ids s1)\<rparr>" for t
  proof -
    have "good t" using t s1(2) good_bump_floating [OF s1(2)] by auto
    moreover have "bt_get (nodes t) ?n = Some (BufferView (new_view ?n sid bid b))" using t n1 by auto
    moreover have "\<not> owner_root t ?n" using t s1(4) by (auto simp: owner_root_def)
    moreover have "panes t = panes s1" using t by (auto simp: panes_def fun_eq_iff)
    ultimately show ?thesis using discard_unplaced [of t ?n "new_view ?n sid bid b"] P1 old by (auto simp: wp_def new_view_def)
  qed
  have opens: "wp (create_floating_window_with_options sid ?n geometry title focus close_on_empty) ?Q
      (\<lambda>_ t. t = s1 \<or> t = s1\<lparr>floating_ids := Suc (floating_ids s1)\<rparr>) s1"
    by (rule wp_mono [OF create_floating_run [OF s1(2) room1]]) (use P1 in auto)
  have "wp (or_discard_view ?n (create_floating_window_with_options sid ?n geometry title focus close_on_empty)) ?Q ?E s1"
    unfolding or_discard_view_def wp_match_result
  proof (rule wp_mono [OF opens])
    show "wp (pbind (discard_buffer_view ?n) (\<lambda>_. raise e)) ?Q ?E t"
      if "t = s1 \<or> t = s1\<lparr>floating_ids := Suc (floating_ids s1)\<rparr>" for e t
      unfolding wp_pbind by (rule wp_mono [OF discard [OF that]]) simp_all
  qed simp
  then show ?thesis
    unfolding create_floating_from_buffer_with_options_def wp_pbind
    using s1(1) by (simp only: wp_def [of "create_buffer_view sid bid"]) simp
qed



end
