(* ===== verification/Server_Safe.thy ===== *)
theory Server_Safe
  imports Server_Open
begin

text \<open>
  Methods of the server that return, with a result or an error, and keep the invariant, whatever the
  arguments of the request that called them.
\<close>

section \<open>Methods that return\<close>

named_theorems safe_intro \<open>runs that return and keep the invariant\<close>

text \<open>A read-only method that returns.\<close>

abbreviation answers :: "(mux_error, 'a) outcome \<Rightarrow> bool" where
  "answers r \<equiv> rwp r (\<lambda>_. True) (\<lambda>_. True)"

lemma safe_bind [safe_intro]:
  "safe m s \<Longrightarrow> (\<And>x t. good t \<Longrightarrow> safe (f x) t) \<Longrightarrow> safe (pbind m f) s"
  by (rule wp_bindI)

lemma safe_reads [safe_intro]: "good s \<Longrightarrow> answers (f s) \<Longrightarrow> safe (reads f) s"
  unfolding wp_reads by (rule rwp_mono)

lemma safe_base [safe_intro]: "good s \<Longrightarrow> safe (ret x) s" "good s \<Longrightarrow> safe (raise e) s" "good s \<Longrightarrow> safe (gets h) s"
  by simp_all

lemma safe_option [safe_intro]:
  "(z = None \<Longrightarrow> safe m s) \<Longrightarrow> (\<And>x. z = Some x \<Longrightarrow> safe (f x) s) \<Longrightarrow> safe (case z of None \<Rightarrow> m | Some x \<Rightarrow> f x) s"
  by (cases z) simp_all

lemma safe_if [safe_intro]:
  "(c \<Longrightarrow> safe m s) \<Longrightarrow> (\<not> c \<Longrightarrow> safe m' s) \<Longrightarrow> safe (if c then m else m') s"
  by simp

lemma answers_lookup [safe_intro]:
  "answers (state_session s sid)" "answers (state_node s n)" "answers (state_buffer s bid)" "answers (state_floating s fid)"
  "answers (node_session_id s n)" "answers (node_parent s n)" "answers (ensure_node_belongs_to s n sid)"
  "answers (root_tabs s sid)" "answers (ensure_session_exists s sid)" "answers (Ok x)" "answers (Err e)"
  by (simp_all add: state_session_def state_node_def state_buffer_def state_floating_def node_session_id_def
      node_parent_def ensure_node_belongs_to_def root_tabs_def root_node_def ensure_session_exists_def
      rwp_ok_or rwp_rbind rwp_if split: option.split)

lemma answers_candidate [safe_intro]:
  assumes "good s"
  shows "answers (resolve_focus_candidate s n)"
proof (cases "bt_get (nodes s) n")
  case None
  then show ?thesis by (simp add: resolve_focus_candidate_def fuel_def state_node_def)
next
  case (Some nd)
  then have "n \<in> dom (layout s)" by (auto simp: dom_layout)
  then obtain r where "resolve_focus_candidate s n = Ok r"
    using resolve_focus_candidate_Ok [OF goodD(3) [OF assms] goodD(8) [OF assms] goodD(9) [OF assms], of n] by blast
  then show ?thesis by simp
qed

lemma answers_visible [safe_intro]:
  assumes g: "good s"
  shows "answers (is_node_visible_in_session s sid n)"
proof (cases "\<exists>se c. bt_get (sessions s) sid = Some se \<and> layout s n = Some c")
  case True
  then show ?thesis using is_node_visible_in_session_Ok [OF goodD(2) [OF g]] by auto
next
  case False
  show ?thesis
  proof (cases "layout s n")
    case None
    then show ?thesis by (simp add: is_node_visible_in_session_def ensure_node_layout)
  next
    case (Some c)
    then have "bt_get (sessions s) sid = None" using False by auto
    moreover obtain r where "top_root_for_node s n = Ok r" using top_root_Ok [OF goodD(3) [OF g], of n] Some by blast
    ultimately show ?thesis
      using Some by (simp add: is_node_visible_in_session_def ensure_node_layout state_session_def)
  qed
qed

lemma answers_ensure_visible [safe_intro]: "good s \<Longrightarrow> answers (ensure_node_visible_in_session s sid n)"
  unfolding ensure_node_visible_in_session_def rwp_rbind by (rule rwp_mono [OF answers_visible]) simp_all

lemma answers_descendant [safe_intro]:
  assumes g: "good s"
  shows "answers (node_is_descendant_of s m n)"
proof (cases "m \<in> dom (layout s)")
  case True
  then show ?thesis using node_is_descendant_of_Ok [OF goodD(3) [OF g]] by simp
next
  case False
  then have "bt_get (nodes s) m = None" by (auto simp: dom_layout)
  then show ?thesis
    by (simp add: node_is_descendant_of_def fuel_def node_parent_def state_node_def)
qed

lemma safe_session_mut:
  assumes "preserves good (session_mut sid g)" and "good s"
  shows "safe (session_mut sid g) s"
  using preserves_at [OF assms] assms(2) by (simp add: session_mut_run wp_def split: option.splits)

lemma safe_focus [safe_intro]:
  assumes g: "good s"
  shows "safe (focus_leaf sid n) s" "safe (heal_focus sid) s" "safe (focus_candidate_or_heal sid n) s"
  by (rule wp_mono [OF safe_focus_leaf [OF g]] wp_mono [OF safe_heal_focus [OF g]] wp_mono [OF safe_candidate [OF g]];
      use g in simp)+

lemma safe_clear [safe_intro]:
  assumes g: "good s"
  shows "safe (clear_session_focus sid) s"
proof (cases "has_session sid s")
  case True
  obtain t where t: "clear_session_focus sid s = (Ok (), t)"
    using clear_session_focus_inv [OF goodD(1) [OF g] True] by blast
  then show ?thesis using preserves_at [OF good_clear g, of sid] by (simp add: wp_def)
next
  case False
  then have "clear_session_focus sid s = (Err (NotFound (UnknownSession sid)), s)"
    by (auto simp: clear_session_focus_def bind_run step_run resume_run state_session_def has_session_def
        split: option.splits)
  then show ?thesis using g by (simp add: wp_def)
qed

lemma safe_zoom [safe_intro]:
  assumes g: "good s"
  shows "safe (zoom_node n) s" "safe (toggle_zoom_node n) s" "safe (unzoom_session sid) s"
proof -
  have z: "safe (session_mut sid (\<lambda>se. se\<lparr>se_zoomed_node := x\<rparr>)) t" if "good t" for t sid x
    by (rule safe_session_mut [OF good_session_mut that]) simp_all
  have v: "safe (zoom_visible sid n) t" if t: "good t" for sid t
    unfolding zoom_visible_def refocus_zoomed_subtree_def
    by (intro safe_intro t z; (assumption | (auto intro!: safe_intro split: option.split)))
  show "safe (zoom_node n) s" "safe (toggle_zoom_node n) s" "safe (unzoom_session sid) s"
    unfolding zoom_node_def toggle_zoom_node_def unzoom_session_def by (intro safe_intro g z v; assumption)+
qed

section \<open>Requests that write one entry\<close>

lemma safe_buffer_mut:
  assumes "\<And>b. bu_attachment (g b) = bu_attachment b" and "good s"
  shows "safe (buffer_mut bid g) s"
  using preserves_at [OF good_buffer_mut assms(2), of g bid, OF assms(1)] assms(2)
  by (simp add: buffer_mut_run wp_def split: option.splits)

lemma safe_floating_mut:
  assumes "\<And>f. fw_id (g f) = fw_id f" "\<And>f. fw_root_node (g f) = fw_root_node f"
    "\<And>f. fw_session_id (g f) = fw_session_id f" "\<And>f. fw_last_focused_leaf (g f) = fw_last_focused_leaf f" and "good s"
  shows "safe (floating_mut fid g) s"
proof (cases "bt_get (floating s) fid")
  case (Some f)
  then show ?thesis
    using good_floating [OF assms(5) Some assms(1-4) [of f]] by (simp add: floating_mut_run wp_def)
qed (use assms(5) in \<open>simp add: floating_mut_run wp_def\<close>)

text \<open>A method that reads a node and goes on with it.\<close>

lemma safe_state_node:
  assumes "good s" and "\<And>nd. bt_get (nodes s) n = Some nd \<Longrightarrow> safe (f nd) s"
  shows "safe (pbind (reads (\<lambda>s. state_node s n)) f) s"
  using assms by (cases "bt_get (nodes s) n") (simp_all add: wp_simps state_node_def)

lemma safe_put_node:
  assumes "good s" and "bt_get (nodes s) n = Some nd" and "cell_of nd' = cell_of nd" and "same_kind nd nd'" and "active_ok nd'" and "memo nd' = memo nd"
  shows "safe (put_node n nd') s"
  using good_node_insert [OF assms(1,2) alike_refl [OF assms(1-4)] assms(5)] assms(6) by (simp add: put_node_run wp_def)

lemma safe_switch_tab [safe_intro]:
  assumes g: "good s"
  shows "safe (switch_tab n i) s"
  unfolding switch_tab_def
proof (rule safe_bind, intro safe_intro g, rule safe_state_node)
    fix sid t nd
    assume t: "good t" and nd: "bt_get (nodes t) n = Some nd"
    show "safe (case nd of
            BufferView v \<Rightarrow> raise (InvalidInput NotTabsContainer)
          | Split sp \<Rightarrow> raise (InvalidInput NotTabsContainer)
          | Tabs tb \<Rightarrow>
              if length (tb_tabs tb) \<le> i then raise (NotFound (TabIndexOutOfRange i n))
              else pbind (put_node n (Tabs (tb\<lparr>tb_active := i\<rparr>))) (\<lambda>_.
                   pbind (reads (\<lambda>s. is_node_visible_in_session s sid n)) (\<lambda>v.
                   if v then focus_candidate_or_heal sid (te_child (tb_tabs tb ! i)) else ret ()))) t"
    proof (cases nd)
      case (Tabs tb)
      have "safe (put_node n (Tabs (tb\<lparr>tb_active := i\<rparr>))) t" if "i < length (tb_tabs tb)"
        by (rule safe_put_node [OF t nd]) (use Tabs that in \<open>auto simp: cell_of_def\<close>)
      then show ?thesis
        unfolding Tabs node.case by (intro safe_intro t) (assumption | simp)+
    qed (use t in simp_all)
qed

lemma safe_names [safe_intro]:
  assumes g: "good s"
  shows "safe (rename_session sid name) s" "safe (set_session_base_index sid base) s"
    "safe (set_session_viewport sid sz titles) s" "safe (rename_tab n i title) s"
proof -
  have m: "safe (session_mut sid h) s"
    if "\<And>se. se_id (h se) = se_id se" "\<And>se. se_root_node (h se) = se_root_node se"
    "\<And>se. se_floating (h se) = se_floating se" "\<And>se. se_focused_floating (h se) = se_focused_floating se" for h
    by (rule safe_session_mut [OF good_session_mut g]) (simp_all add: that)
  have last: "good (t\<lparr>last_base_index := base\<rparr>)" "good (t\<lparr>last_viewport := v, last_pane_titles := titles\<rparr>)" if "good t" for t v
    by (rule good_buffers [OF that]; simp)+
  show "safe (rename_session sid name) s" using g m by (simp add: rename_session_def Let_def)
  show "safe (set_session_base_index sid base) s"
    unfolding set_session_base_index_def by (rule safe_bind [OF m]) (simp_all add: wp_simps last)
  show "safe (set_session_viewport sid sz titles) s"
    unfolding set_session_viewport_def by (rule safe_bind [OF m]) (simp_all add: wp_simps last)
  show "safe (rename_tab n i title) s"
    unfolding rename_tab_def
  proof (rule safe_state_node [OF g])
    fix nd
    assume nd: "bt_get (nodes s) n = Some nd"
    show "safe (case nd of
          BufferView v \<Rightarrow> raise (InvalidInput NotTabsContainer)
        | Split sp \<Rightarrow> raise (InvalidInput NotTabsContainer)
        | Tabs tb \<Rightarrow>
            if length (tb_tabs tb) \<le> i then raise (NotFound (TabIndexOutOfRange i n))
            else put_node n (Tabs (tb\<lparr>tb_tabs := (tb_tabs tb)[i := (tb_tabs tb ! i)\<lparr>te_title := title\<rparr>]\<rparr>))) s"
    proof (cases nd)
      case (Tabs tb)
      have act: "active_ok (Tabs tb)" using goodD(8) [OF g] nd Tabs unfolding tabs_ok_def by blast
      have "map te_child ((tb_tabs tb)[i := (tb_tabs tb ! i)\<lparr>te_title := title\<rparr>]) = map te_child (tb_tabs tb)"
        by (cases "i < length (tb_tabs tb)") (simp_all add: map_update list_update_same_conv list_update_beyond)
      then have "safe (put_node n (Tabs (tb\<lparr>tb_tabs := (tb_tabs tb)[i := (tb_tabs tb ! i)\<lparr>te_title := title\<rparr>]\<rparr>))) s"
        by (intro safe_put_node [OF g nd]) (use Tabs act in \<open>auto simp: cell_of_def\<close>)
      then show ?thesis using g Tabs by simp
    qed (use g in simp_all)
  qed
qed

lemma safe_resize [safe_intro]:
  assumes g: "good s"
  shows "safe (resize_split_children n sizes) s"
  unfolding resize_split_children_def
proof (rule safe_state_node [OF g])
  fix nd
  assume nd: "bt_get (nodes s) n = Some nd"
  have "safe (put_node n (Split (sp\<lparr>sp_sizes := sizes\<rparr>))) s" if "nd = Split sp" for sp
  proof -
    have "alike nd (Split (sp\<lparr>sp_sizes := sizes\<rparr>))"
      using alike_refl [OF g nd, of nd] that by (simp add: alike_def)
    then have "good (s\<lparr>nodes := bt_insert n (Split (sp\<lparr>sp_sizes := sizes\<rparr>)) (nodes s)\<rparr>)"
      by (rule good_node_insert [OF g nd]) (use that in simp_all)
    then show ?thesis by (simp add: put_node_run wp_def)
  qed
  then show "safe (case nd of
        BufferView v \<Rightarrow> raise (InvalidInput NotASplit)
      | Split sp \<Rightarrow>
          if length sizes \<noteq> length (sp_children sp)
          then raise (InvalidInput (SplitSizesMismatch n (length (sp_children sp)) (length sizes)))
          else if 0 \<in> set sizes then raise (InvalidInput SplitSizeZero)
          else put_node n (Split (sp\<lparr>sp_sizes := sizes\<rparr>))
      | Tabs tb \<Rightarrow> raise (InvalidInput NotASplit)) s"
    using g by (cases nd) simp_all
qed

lemma safe_floating_edits [safe_intro]:
  assumes "good s"
  shows "safe (move_floating fid geometry) s" "safe (set_floating_border fid border) s"
  unfolding move_floating_def set_floating_border_def by (rule safe_floating_mut; simp add: assms)+

lemma safe_buffer_edits [safe_intro]:
  assumes "good s"
  shows "safe (mark_buffer_running bid pid) s" "safe (mark_buffer_interrupted bid pid) s"
    "safe (mark_buffer_exited bid code now) s" "safe (set_buffer_size bid sz) s" "safe (set_buffer_title bid title) s"
proof -
  have m: "safe (buffer_mut bid h) t" if "\<And>b. bu_attachment (h b) = bu_attachment b" "good t" for h t
    by (rule safe_buffer_mut [OF that])
  show "safe (mark_buffer_running bid pid) s" "safe (mark_buffer_interrupted bid pid) s"
    unfolding mark_buffer_running_def mark_buffer_interrupted_def by (intro safe_intro m assms; simp)+
  show "safe (mark_buffer_exited bid code now) s" "safe (set_buffer_size bid sz) s" "safe (set_buffer_title bid title) s"
    unfolding mark_buffer_exited_def set_buffer_size_def set_buffer_title_def by (intro m assms; simp)+
qed

section \<open>Closing and opening, whatever the arguments\<close>

lemma safe_close_node:
  assumes g: "good s" and "closable s n" and "node_ids s < u64_max"
  shows "safe (close_node n) s"
proof (cases "bt_get (nodes s) n")
  case None
  then show ?thesis using g by (simp add: close_node_def wp_simps node_session_id_def state_node_def)
next
  case (Some nd)
  show ?thesis by (rule wp_mono [OF close_node_run [OF g Some assms(2,3)]]) auto
qed

lemma safe_close_tab:
  assumes g: "good s" and single: "\<And>tb. bt_get (nodes s) n = Some (Tabs tb) \<Longrightarrow> \<not> nested_single (Tabs tb)"
  shows "safe (close_tab n i) s"
proof (cases "\<exists>tb. bt_get (nodes s) n = Some (Tabs tb) \<and> i < length (tb_tabs tb)")
  case True
  then obtain tb where "bt_get (nodes s) n = Some (Tabs tb)" "i < length (tb_tabs tb)" by blast
  from close_tab_run [OF g this single [OF this(1)]] show ?thesis by (rule wp_mono) auto
next
  case False
  show ?thesis
  proof (cases "bt_get (nodes s) n")
    case (Some nd)
    then show ?thesis
      using g False by (cases nd) (simp_all add: close_tab_def wp_simps node_session_id_def state_node_def)
  qed (use g in \<open>simp add: close_tab_def wp_simps node_session_id_def state_node_def\<close>)
qed

lemma safe_close_floating [safe_intro]:
  assumes g: "good s"
  shows "safe (close_floating fid) s"
proof (cases "bt_get (floating s) fid")
  case None
  then show ?thesis
    using g by (simp add: close_floating_def remove_floating_window_def wp_simps state_floating_def)
next
  case (Some f)
  then show ?thesis using close_floating_run [OF g Some] by (auto simp: wp_def)
qed

lemma safe_close_session [safe_intro]:
  assumes g: "good s"
  shows "safe (close_session sid) s"
proof (cases "bt_get (sessions s) sid")
  case None
  then show ?thesis using g by (simp add: close_session_def wp_simps state_session_def)
next
  case (Some se)
  then show ?thesis using close_session_run [OF g Some] by (auto simp: wp_def)
qed

lemma safe_focus_floating [safe_intro]:
  assumes g: "good s"
  shows "safe (focus_floating fid) s"
proof (cases "bt_get (floating s) fid")
  case None
  then show ?thesis
    using g by (simp add: focus_floating_def resolve_floating_focus_def wp_simps state_floating_def)
next
  case (Some f)
  show ?thesis by (rule wp_mono [OF focus_floating_run [OF g Some]]) (use g in auto)
qed

lemma safe_new_window:
  assumes g: "good s" and room: "node_ids s < u64_max"
  shows "safe (add_root_tab_from_buffer sid title bid) s"
proof (cases "\<exists>se b. bt_get (sessions s) sid = Some se \<and> bt_get (buffers s) bid = Some b \<and> bu_attachment b = Detached")
  case True
  then obtain i t where "add_root_tab_from_buffer sid title bid s = (Ok i, t)" "good t"
    using add_root_tab_from_buffer_run [OF g room] by blast
  then show ?thesis by (simp add: wp_def)
next
  case False
  have "safe (pbind (create_buffer_view sid bid) (\<lambda>child. or_discard_view child (add_tab_sibling root title child))) s" for root
    unfolding wp_pbind
    by (rule wp_mono [OF create_buffer_view_fails [OF g room]]) (use False in \<open>auto simp: has_session_def\<close>)
  then show ?thesis
    unfolding add_root_tab_from_buffer_def wp_pbind wp_reads using g by (intro rwp_mono [OF answers_lookup(8)]) simp_all
qed

lemma safe_split:
  assumes g: "good s" and room: "Suc (node_ids s) < u64_max"
    and foc: "is_view s leaf \<Longrightarrow> \<exists>sid r. focusable s sid r leaf"
  shows "safe (split_leaf_with_new_buffer leaf direction bid) s"
proof (cases "is_view s leaf")
  case False
  then have "rwp (ensure_leaf s leaf) (\<lambda>_. False) (\<lambda>_. True)"
    by (auto simp: ensure_leaf_def state_node_def is_view_def wp_simps split: option.split) (metis is_buffer_view.elims(2))
  then show ?thesis
    unfolding split_leaf_with_new_buffer_def wp_pbind [of "reads (\<lambda>s. ensure_leaf s leaf)"] wp_reads
    by (rule rwp_mono) (use g in simp_all)
next
  case True
  then obtain sid r where f: "focusable s sid r leaf" using foc by blast
  show ?thesis
  proof (cases "\<exists>b. bt_get (buffers s) bid = Some b \<and> bu_attachment b = Detached")
    case True
    then obtain k t where "split_leaf_with_new_buffer leaf direction bid s = (Ok k, t)" "good t"
      using split_leaf_run [OF g room f] by blast
    then show ?thesis by (simp add: wp_def)
  next
    case False
    obtain lv where lv: "bt_get (nodes s) leaf = Some (BufferView lv)" using True by (auto simp: is_view_def)
    have "wp (pbind (create_buffer_view (bv_session_id lv) bid) K) (\<lambda>_. good) (\<lambda>_. good) s"
      for K :: "node_id \<Rightarrow> node_id op"
      unfolding wp_pbind by (rule wp_mono [OF create_buffer_view_fails [OF g]]) (use False room in auto)
    then show ?thesis
      using lv by (simp add: split_leaf_with_new_buffer_def wp_pbind [of "reads _"] wp_reads ensure_leaf_def state_node_def
          node_session_id_def node_parent_def)
  qed
qed

end
