(* ===== verification/Server_Sizes.thy ===== *)
theory Server_Sizes
  imports Server_Open
begin

text \<open>
  Every split has one size for each of its children: what the methods that swap and move siblings rely on
  when they index the sizes by the positions of the children.
\<close>

section \<open>The invariant\<close>

fun sized_node :: "node \<Rightarrow> bool" where
  "sized_node (Split sp) \<longleftrightarrow> length (sp_sizes sp) = length (sp_children sp)"
| "sized_node _ \<longleftrightarrow> True"

definition sized :: "server_state \<Rightarrow> bool" where
  "sized s \<longleftrightarrow> (\<forall>n nd. bt_get (nodes s) n = Some nd \<longrightarrow> sized_node nd)"

named_theorems sizes \<open>procedures that keep one size for each child\<close>

lemma sized_keeps: "keeps nodes m \<Longrightarrow> preserves sized m"
  by (simp add: keeps_def preserves_def sized_def)

lemma sized_put: "sized_node nd \<Longrightarrow> preserves sized (put_node n nd)"
  by (simp add: preserves_def sized_def put_node_run)

lemma sized_drop [sizes]: "preserves sized (drop_node n)"
  by (simp add: preserves_def sized_def drop_node_run)

lemma sized_mut:
  "(\<And>nd. sized_node nd \<Longrightarrow> sized_node (g nd)) \<Longrightarrow> preserves sized (node_mut n g)"
  by (auto simp: preserves_def sized_def node_mut_run split: option.split)

text \<open>What a method reads of the nodes is sized, and a branch knows which one it is.\<close>

lemma sized_read:
  assumes "\<And>nd. sized_node nd \<Longrightarrow> preserves sized (f nd)"
  shows "preserves sized (pbind (reads (\<lambda>s. state_node s n)) f)"
proof (rule preserves_state_node)
  fix s nd
  assume s: "sized s" and "bt_get (nodes s) n = Some nd"
  then have "sized_node nd" by (simp add: sized_def)
  then show "sized (snd (f nd s))" using assms s by (simp add: preserves_def)
qed

lemma sized_case_node:
  "(\<And>v. nd = BufferView v \<Longrightarrow> preserves sized (f v)) \<Longrightarrow> (\<And>sp. nd = Split sp \<Longrightarrow> preserves sized (g sp)) \<Longrightarrow>
   (\<And>tb. nd = Tabs tb \<Longrightarrow> preserves sized (h tb)) \<Longrightarrow>
   preserves sized (case nd of BufferView v \<Rightarrow> f v | Split sp \<Rightarrow> g sp | Tabs tb \<Rightarrow> h tb)"
  by (cases nd) simp_all

lemma sized_case_option:
  "(z = None \<Longrightarrow> preserves sized m) \<Longrightarrow> (\<And>x. z = Some x \<Longrightarrow> preserves sized (f x)) \<Longrightarrow>
   preserves sized (case z of None \<Rightarrow> m | Some x \<Rightarrow> f x)"
  by (cases z) simp_all

lemma sized_if:
  "(c \<Longrightarrow> preserves sized m) \<Longrightarrow> (\<not> c \<Longrightarrow> preserves sized m') \<Longrightarrow> preserves sized (if c then m else m')"
  by simp

lemma sized_case_list:
  "(xs = [] \<Longrightarrow> preserves sized m) \<Longrightarrow> (\<And>y ys. xs = y # ys \<Longrightarrow> preserves sized (f y ys)) \<Longrightarrow>
   preserves sized (case xs of [] \<Rightarrow> m | y # ys \<Rightarrow> f y ys)"
  by (cases xs) simp_all

lemma sized_set_parent [sizes]: "preserves sized (set_parent n p)"
  unfolding set_parent_def by (rule sized_mut) (auto elim: sized_node.elims)

lemma sized_base [sizes]:
  "preserves sized (ret x)" "preserves sized (raise e)" "preserves sized panic" "preserves sized diverge"
  "preserves sized (reads g)" "preserves sized (gets h)"
  "preserves sized (session_mut sid f)" "preserves sized (buffer_mut bid b)"
  by (intro frame sized_keeps)+

lemma sized_ids [sizes]:
  "preserves sized (floating_mut fid w)" "preserves sized next_node_id" "preserves sized next_session_id"
  "preserves sized next_buffer_id" "preserves sized next_floating_id"
  by (rule sized_keeps; auto simp: keeps_def floating_mut_run next_node_id_def next_session_id_def next_buffer_id_def
      next_floating_id_def split: option.split)+

lemma sized_modify: "(\<And>s. nodes (u s) = nodes s) \<Longrightarrow> preserves sized (modify u)"
  by (rule sized_keeps, rule keeps_modify)

lemmas sized_rules =
  sized_read sized_case_node sized_case_option sized_if sized_case_list
  preserves_pbind preserves_match preserves_with_fuel preserves_for_each preserves_fold_proc sized_put sized_modify

section \<open>Focus\<close>

lemma sized_focus_through [simp]: "sized_node nd \<Longrightarrow> sized_node (focus_through l c nd)"
  by (cases nd) simp_all

lemma sized_set_leaf_focus [sizes]: "preserves sized (set_leaf_focus l b)"
  unfolding set_leaf_focus_def by (intro sized_rules sizes; simp)

lemma sized_focus_parts [sizes]:
  "preserves sized (clear_session_focus sid)" "preserves sized (remember_focus sid l)"
  "preserves sized (mark_floating_focus l own fid)" "preserves sized (set_buffer_activity bid a)"
  "preserves sized (acknowledge_shown_activity sid)"
  unfolding clear_session_focus_def remember_focus_def mark_floating_focus_def set_buffer_activity_def
    acknowledge_shown_activity_def acknowledge_leaf_def
  by (intro sized_rules sizes; simp)+

lemma sized_ancestors [sizes]:
  "preserves sized (focus_ancestors_from k l c)" "preserves sized (select_ancestors_from k l w c)"
  by (induction k arbitrary: c) (auto intro!: sized_rules sizes sized_mut)

lemma sized_focus [sizes]:
  "preserves sized (focus_leaf sid l)" "preserves sized (heal_focus sid)" "preserves sized (focus_candidate_or_heal sid n)"
  "preserves sized (focus_floating fid)" "preserves sized (select_pane sid l)" "preserves sized (show_node sid n)"
  "preserves sized (focus_last_pane sid)"
  unfolding heal_focus_def heal_focus_root_def heal_focus_floating_def focus_candidate_or_heal_def focus_floating_def
    select_pane_def show_node_def focus_last_pane_def focus_leaf_def
  by (intro sized_rules sizes; simp)+

lemma sized_switch_tab [sizes]: "preserves sized (switch_tab n i)" "preserves sized (select_root_tab sid i)"
  unfolding switch_tab_def select_root_tab_def by (intro sized_rules sizes; simp)+

lemma sized_zoom [sizes]:
  "preserves sized (zoom_node n)" "preserves sized (toggle_zoom_node n)" "preserves sized (unzoom_session sid)"
  "preserves sized (normalize_zoomed_node sid)"
  unfolding zoom_node_def zoom_visible_def refocus_zoomed_subtree_def toggle_zoom_node_def unzoom_session_def
    normalize_zoomed_node_def
  by (intro sized_rules sizes; simp)+

section \<open>Links and removal\<close>

lemma sized_links [sizes]:
  "preserves sized (replace_child p a b)" "preserves sized (remove_child p c)"
  "preserves sized (repoint_owner_reference sid own a b)"
  unfolding replace_child_def remove_child_def repoint_owner_reference_def
  by (intro sized_rules sizes; auto dest!: position_SomeD)+

lemma sized_remembered [simp]: "sized_node nd \<Longrightarrow> sized_node (set_last_focused_descendant x nd)"
  by (cases nd) simp_all

lemma sized_replace_in_owner [sizes]: "preserves sized (replace_node_in_owner a b)"
  unfolding replace_node_in_owner_def by (intro sized_rules sizes sized_mut; simp)

lemma sized_remove_subtree [sizes]: "preserves sized (remove_subtree_nodes n)"
proof -
  have "preserves sized (remove_subtree_from k n)" for k n
    by (induction k arbitrary: n)
      (auto intro!: sized_rules sizes simp: detach_buffer_if_attached_to_def detach_buffer_raw_def)
  then show ?thesis unfolding remove_subtree_nodes_def by (rule preserves_with_fuel)
qed

lemma sized_remove_floating [sizes]: "preserves sized (remove_floating_window fid)"
  unfolding remove_floating_window_def by (intro sized_rules sizes; simp)

lemma sized_normalize [sizes]: "preserves sized (normalize_upwards n)"
proof -
  have s: "preserves sized (normalize_split_node m)" "preserves sized (normalize_tabs_node m)" for m
    unfolding normalize_split_node_def normalize_tabs_node_def Let_def by (intro sized_rules sizes; simp)+
  have "preserves sized (normalize_up_from k c)" for k c
    by (induction k arbitrary: c) (auto intro!: sized_rules sizes s)
  then show ?thesis unfolding normalize_upwards_def by (rule preserves_with_fuel)
qed

section \<open>Requests\<close>

lemma sized_close [sizes]:
  "preserves sized (close_node n)" "preserves sized (close_tab n i)" "preserves sized (close_root_tab sid i)"
  "preserves sized (close_floating fid)" "preserves sized (close_session sid)"
  unfolding close_node_def clear_session_root_def close_tab_def close_root_tab_def close_floating_def close_session_def
    Let_def empty_tabs_def
  by (intro sized_rules sizes; simp)+

lemma sized_views [sizes]: "preserves sized (create_buffer_view sid bid)"
  unfolding create_buffer_view_def create_unattached_buffer_view_def attach_buffer_def set_buffer_attached_def
  by (intro sized_rules sizes; simp)

lemma sized_discard [sizes]: "preserves sized m \<Longrightarrow> preserves sized (or_discard_view n m)"
  unfolding or_discard_view_def discard_buffer_view_def discard_view_record_def detach_buffer_if_attached_to_def
    detach_buffer_raw_def
  by (intro sized_rules sizes) (auto intro!: sized_rules sizes split: option.split node.split)

lemma sized_open [sizes]:
  "preserves sized (create_session name now)" "preserves sized (add_tab_sibling n title c)"
  "preserves sized (add_tab_sibling_at n i title c)" "preserves sized (add_root_tab_from_buffer sid title bid)"
  "preserves sized (add_tab_from_buffer_at n i title bid)" "preserves sized (split_leaf_with_new_buffer n d bid)"
  "preserves sized (create_floating_from_buffer_with_options sid bid g t f c')"
  unfolding create_session_def empty_tabs_def add_tab_sibling_def add_tab_sibling_at_def add_tab_sibling_at_with_focus_def
    insert_tab_def add_root_tab_from_buffer_def add_tab_from_buffer_at_def split_leaf_with_new_buffer_def
    create_floating_from_buffer_with_options_def create_floating_window_with_options_def
  by (intro sized_rules sizes; simp)+

lemma sized_edits [sizes]:
  "preserves sized (rename_session sid name)" "preserves sized (set_session_base_index sid base)"
  "preserves sized (set_session_viewport sid sz titles)" "preserves sized (rename_tab n i title)"
  "preserves sized (rename_root_tab sid i title)" "preserves sized (set_root_tab_synchronize_panes sid i on)"
  "preserves sized (resize_split_children n zs)" "preserves sized (move_floating fid geometry)"
  "preserves sized (set_floating_border fid border)"
  unfolding rename_session_def set_session_base_index_def set_session_viewport_def rename_tab_def rename_root_tab_def
    set_root_tab_synchronize_panes_def resize_split_children_def move_floating_def set_floating_border_def Let_def
  by (intro sized_rules sizes; simp)+

lemma sized_buffers [sizes]:
  "preserves sized (create_buffer_with_env title command cwd env now)" "preserves sized (remove_buffer bid)"
  "preserves sized (mark_buffer_running bid pid)" "preserves sized (mark_buffer_interrupted bid pid)"
  "preserves sized (mark_buffer_exited bid code now)" "preserves sized (set_buffer_size bid sz)"
  "preserves sized (set_buffer_title bid title)"
  unfolding create_buffer_with_env_def remove_buffer_def mark_buffer_running_def mark_buffer_interrupted_def
    mark_buffer_exited_def set_buffer_size_def set_buffer_title_def put_buffer_def Let_def
  by (intro sized_rules sizes; simp)+

lemma sized_siblings [sizes]:
  "preserves sized (swap_sibling_nodes a b)" "preserves sized (reorder_sibling_node a b first)"
  unfolding swap_sibling_nodes_def reorder_sibling_node_def Let_def
  by (intro sized_rules sizes; simp add: vec_remove_def vec_insert_def; fail)+

end
