(* ===== verification/Server_Arrange.thy ===== *)
theory Server_Arrange
  imports Server_Safe Server_Sizes
begin

text \<open>
  Selecting windows and panes, and swapping and moving siblings: these methods return, and keep the
  invariant. Swapping and moving index the sizes of a split by the positions of its children, which is
  within bounds because every split has one size for each child.
\<close>

section \<open>The windows of a session by their numbers\<close>

lemma safe_wp:
  assumes "preserves good m" and "good s" and "wp m (\<lambda>_ _. True) (\<lambda>_ _. True) s"
  shows "safe m s"
  by (rule wp_mono [OF wp_preserves [OF assms]]) auto

lemma safe_root_tab [safe_intro]:
  assumes g: "good s"
  shows "safe (select_root_tab sid i) s" "safe (rename_root_tab sid i title) s"
  unfolding select_root_tab_def rename_root_tab_def by (intro safe_intro g; assumption)+

lemma root_tabs_Ok:
  assumes "good s" and "bt_get (sessions s) sid = Some se"
  obtains tb where "root_tabs s sid = Ok (se_root_node se)" "bt_get (nodes s) (se_root_node se) = Some (Tabs tb)"
    "tb_parent tb = None"
proof -
  obtain c where c: "layout s (se_root_node se) = Some c" "ce_kind c = KTabs" "ce_parent c = None"
    using sessions_okD(3) [OF goodD(6) [OF assms(1)] assms(2)] by blast
  then obtain nd where nd: "bt_get (nodes s) (se_root_node se) = Some nd" "c = cell_of nd" by (auto simp: layout_Some)
  then obtain tb where "nd = Tabs tb" using c(2) by (cases nd) (simp_all add: cell_of_def)
  then show thesis
    using that [of tb] nd c(3) assms(2) by (simp add: root_tabs_def root_node_def state_session_def state_node_def)
qed

text \<open>The root of a session is no nested tabs node, so its last tab can be closed.\<close>

lemma safe_close_root_tab [safe_intro]:
  assumes g: "good s"
  shows "safe (close_root_tab sid i) s"
proof (cases "bt_get (sessions s) sid")
  case None
  then show ?thesis
    using g by (simp add: close_root_tab_def wp_simps root_tabs_def root_node_def state_session_def)
next
  case (Some se)
  obtain tb where tb: "root_tabs s sid = Ok (se_root_node se)" "bt_get (nodes s) (se_root_node se) = Some (Tabs tb)"
    "tb_parent tb = None" by (rule root_tabs_Ok [OF g Some])
  have "safe (close_tab (se_root_node se) i) s"
    by (rule safe_close_tab [OF g]) (use tb in \<open>simp add: nested_single_def\<close>)
  then show ?thesis using tb(1) by (simp add: close_root_tab_def wp_simps)
qed

lemma safe_synchronize [safe_intro]:
  assumes g: "good s"
  shows "safe (set_root_tab_synchronize_panes sid i on) s"
proof (cases "bt_get (sessions s) sid")
  case None
  then show ?thesis
    using g by (simp add: set_root_tab_synchronize_panes_def wp_simps root_tabs_def root_node_def state_session_def)
next
  case (Some se)
  let ?r = "se_root_node se"
  obtain tb where tb: "root_tabs s sid = Ok ?r" "bt_get (nodes s) ?r = Some (Tabs tb)"
    by (rule root_tabs_Ok [OF g Some])
  have act: "active_ok (Tabs tb)" using goodD(8) [OF g] tb(2) unfolding tabs_ok_def by blast
  have "safe (put_node ?r (Tabs (tb\<lparr>tb_tabs := (tb_tabs tb)[i := (tb_tabs tb ! i)\<lparr>te_synchronize_panes := b\<rparr>]\<rparr>))) s" for b
  proof -
    have "map te_child ((tb_tabs tb)[i := (tb_tabs tb ! i)\<lparr>te_synchronize_panes := b\<rparr>]) = map te_child (tb_tabs tb)"
      by (cases "i < length (tb_tabs tb)") (simp_all add: map_update list_update_same_conv list_update_beyond)
    then show ?thesis by (intro safe_put_node [OF g tb(2)]) (use act in \<open>auto simp: cell_of_def\<close>)
  qed
  then have "good (s\<lparr>nodes := bt_insert ?r (Tabs (tb\<lparr>tb_tabs := (tb_tabs tb)[i := (tb_tabs tb ! i)\<lparr>te_synchronize_panes := b\<rparr>]\<rparr>)) (nodes s)\<rparr>)" for b
    by (simp add: wp_def put_node_run)
  then show ?thesis
    using g tb by (simp add: set_root_tab_synchronize_panes_def put_node_def wp_simps state_node_def vec_get_def Let_def)
qed

section \<open>Selecting a pane\<close>

lemma answers_top_root:
  assumes "good s"
  shows "answers (top_root_for_node s n)"
proof (cases "n \<in> dom (layout s)")
  case True
  then obtain r where "top_root_for_node s n = Ok r" using top_root_Ok [OF goodD(3) [OF assms]] by blast
  then show ?thesis by simp
next
  case False
  then have "node_parent s n = Err (NotFound (UnknownNode n))" by (auto simp: node_parent_layout split: option.split)
  then show ?thesis by (simp add: top_root_for_node_def fuel_def)
qed

lemma answers_window [safe_intro]:
  assumes "good s"
  shows "answers (window_of_leaf s sid n)"
proof (cases "bt_get (sessions s) sid")
  case None
  then show ?thesis by (simp add: window_of_leaf_def state_session_def)
next
  case (Some se)
  show ?thesis
  proof (cases "n \<in> dom (layout s)")
    case True
    then show ?thesis using window_of_leaf_Ok [OF goodD(3) [OF assms] _ Some] by fastforce
  next
    case False
    then have "node_parent s n = Err (NotFound (UnknownNode n))" by (auto simp: node_parent_layout split: option.split)
    then show ?thesis by (simp add: window_of_leaf_def state_session_def Some fuel_def)
  qed
qed

lemma answers_focusable [safe_intro]: "good s \<Longrightarrow> answers (ensure_leaf_is_focusable s sid l)"
  unfolding ensure_leaf_is_focusable_def rwp_rbind
  by (rule rwp_mono [OF answers_top_root])
    (auto simp: state_session_def state_floating_def rwp_rbind rwp_ok_or split: option.split)

lemma answers_belongs [safe_intro]: "answers (ensure_leaf_belongs_to s l sid)"
  by (simp add: ensure_leaf_belongs_to_def ensure_node_belongs_to_def ensure_leaf_def state_node_def rwp_rbind rwp_ok_or
      split: option.split)

lemma answers_first_some: "(\<And>x. answers (f x)) \<Longrightarrow> answers (first_some f xs)"
  by (induction xs) (auto simp: rwp_rbind intro!: rwp_mono [where Q = "\<lambda>_. True" and E = "\<lambda>_. True"] split: option.split)

lemma answers_last_pane [safe_intro]:
  assumes "good s"
  shows "answers (last_pane s sid)"
proof -
  let ?f = "\<lambda>focused window candidate.
      if candidate = focused \<or> \<not> (case bt_get (nodes s) candidate of Some nd \<Rightarrow> is_buffer_view nd | None \<Rightarrow> False)
      then Ok None
      else rbind (window_of_leaf s sid candidate) (\<lambda>cw. Ok (if cw = Some window then Some candidate else None))"
  have "answers (first_some (?f focused window) xs)" for focused window xs
    by (rule answers_first_some) (auto simp: rwp_rbind intro!: rwp_mono [OF answers_window [OF assms]])
  then have "answers (case w of None \<Rightarrow> Ok None | Some window \<Rightarrow> first_some (?f focused window) xs)" for w focused xs
    by (cases w) simp_all
  then have "answers (rbind (window_of_leaf s sid focused)
      (\<lambda>w. case w of None \<Rightarrow> Ok None | Some window \<Rightarrow> first_some (?f focused window) xs))" for focused xs
    unfolding rwp_rbind [of "window_of_leaf s sid focused"] by (intro rwp_mono [OF answers_window [OF assms]])
  then show ?thesis
    by (cases "bt_get (sessions s) sid") (simp_all add: last_pane_def state_session_def split: option.split)
qed

text \<open>The walk of \<open>select_pane\<close> ends at the window or at a node without a parent.\<close>

lemma select_ancestors_returns:
  assumes "forest (layout s)" and "child \<in> dom (layout s)" and "card (above (layout s) child) \<le> k"
  shows "wp (select_ancestors_from k leaf window child) (\<lambda>_ _. True) (\<lambda>_ _. True) s"
  using assms
proof (induction k arbitrary: child s)
  case 0
  then show ?case using card_above_pos [of "layout s" child] by fastforce
next
  case (Suc k)
  obtain c where c: "layout s child = Some c" using Suc.prems(2) by auto
  show ?case
  proof (cases "child = window \<or> ce_parent c = None")
    case True
    then show ?thesis using c by (auto simp: wp_simps node_parent_layout)
  next
    case False
    then obtain p where p: "child \<noteq> window" "ce_parent c = Some p" by auto
    have up: "(child, p) \<in> up (layout s)" using upI c p(2) by blast
    obtain pd where pd: "bt_get (nodes s) p = Some pd"
      using up_dom [OF Suc.prems(1) up] by (auto simp: dom_layout)
    let ?s = "s\<lparr>nodes := bt_insert p (focus_through leaf child pd) (nodes s)\<rparr>"
    have L: "layout ?s = layout s" by (rule layout_insert_same [OF pd]) (rule focus_through_ok(2))
    have "wp (select_ancestors_from k leaf window p) (\<lambda>_ _. True) (\<lambda>_ _. True) ?s"
      by (rule Suc.IH; unfold L)
        (use up_dom [OF Suc.prems(1) up] card_above_less [OF Suc.prems(1) up] Suc.prems in auto)
    then show ?thesis using c p pd by (simp add: wp_simps node_parent_layout wp_def node_mut_run bind_run step_run resume_run)
  qed
qed

lemma safe_select_pane [safe_intro]:
  assumes g: "good s"
  shows "safe (select_pane sid l) s"
proof (rule safe_wp [OF good_select_pane g], cases "l \<in> dom (layout s)")
  case True
  let ?run = "\<lambda>m. wp m (\<lambda>_ _. True) (\<lambda>_ _. True) s"
  have focus: "?run (focus_leaf sid l)" by (rule wp_mono [OF safe_focus_leaf [OF g]]) simp_all
  have "?run (select_ancestors_from (fuel s) l window l)" for window
    by (rule select_ancestors_returns [OF goodD(3) [OF g] True])
      (use card_above [OF goodD(3) [OF g] True] in \<open>simp add: fuel_layout\<close>)
  then have walk: "?run (with_fuel (\<lambda>k. select_ancestors_from k l window l))" for window
    by (simp add: with_fuel_def wp_def)
  have shown: "answers (is_node_visible_from s (se_root_node se) window)" if "bt_get (sessions s) sid = Some se" for se window
  proof -
    have "se_root_node se \<in> dom (layout s)" using sessions_okD(3) [OF goodD(6) [OF g] that] by auto
    then show ?thesis using is_node_visible_from_Ok [OF goodD(3) [OF g]] by simp
  qed
  have body: "?run (case w of None \<Rightarrow> focus_leaf sid l
      | Some window \<Rightarrow>
          if window = se_root_node se then focus_leaf sid l
          else pbind (reads (\<lambda>s. is_node_visible_from s (se_root_node se) window)) (\<lambda>v.
               if v then focus_leaf sid l else with_fuel (\<lambda>k. select_ancestors_from k l window l)))"
    if se: "bt_get (sessions s) sid = Some se" for se w
  proof (cases w)
    case (Some window)
    have "?run (pbind (reads (\<lambda>s. is_node_visible_from s (se_root_node se) window)) (\<lambda>v.
               if v then focus_leaf sid l else with_fuel (\<lambda>k. select_ancestors_from k l window l)))"
      unfolding wp_pbind wp_reads by (rule rwp_mono [OF shown [OF se]]) (simp_all add: focus walk)
    then show ?thesis using Some focus by simp
  qed (simp add: focus)
  show "?run (select_pane sid l)"
    unfolding select_pane_def wp_pbind [of "reads _"] wp_reads
  proof (rule rwp_mono [OF answers_belongs], rule rwp_mono [OF answers_focusable [OF g]])
    show "rwp (state_session s sid) (\<lambda>se. rwp (window_of_leaf s sid l) (\<lambda>w. ?run (case w of None \<Rightarrow> focus_leaf sid l
      | Some window \<Rightarrow>
          if window = se_root_node se then focus_leaf sid l
          else pbind (reads (\<lambda>s. is_node_visible_from s (se_root_node se) window)) (\<lambda>v.
               if v then focus_leaf sid l else with_fuel (\<lambda>k. select_ancestors_from k l window l)))) (\<lambda>_. True)) (\<lambda>_. True)"
      by (cases "bt_get (sessions s) sid") (auto simp: state_session_def intro!: rwp_mono [OF answers_window [OF g]] body)
  qed simp_all
next
  case False
  then have "ensure_leaf_belongs_to s l sid = Err (NotFound (UnknownNode l))"
    by (auto simp: ensure_leaf_belongs_to_def ensure_node_layout split: option.split)
  then show "wp (select_pane sid l) (\<lambda>_ _. True) (\<lambda>_ _. True) s" by (simp add: select_pane_def wp_simps)
qed

lemma safe_select [safe_intro]:
  assumes g: "good s"
  shows "safe (focus_last_pane sid) s" "safe (show_node sid n) s"
proof -
  show "safe (focus_last_pane sid) s" unfolding focus_last_pane_def by (intro safe_intro g; assumption)
  have "answers (rbind (resolve_focus_candidate t n) (ok_or e))" if "good t" for t e
    unfolding rwp_rbind by (rule rwp_mono [OF answers_candidate [OF that]]) (simp_all add: rwp_ok_or split: option.split)
  then show "safe (show_node sid n) s"
    unfolding show_node_def using g by (intro safe_bind [OF safe_reads] safe_intro)
qed

section \<open>Siblings\<close>

text \<open>Writing a container with its children in another order.\<close>

lemma safe_rearrange:
  assumes g: "good s" and nd: "bt_get (nodes s) n = Some nd" and "same_kind nd nd'" and "node_id_of nd' = node_id_of nd"
    and "node_session nd' = node_session nd" and "node_par nd' = node_par nd" and "memo nd' = memo nd"
    and "distinct (child_ids nd')" and "set (child_ids nd') = set (child_ids nd)" and "active_ok nd'"
  shows "safe (put_node n nd') s"
proof -
  have "alike nd nd'" using assms by (simp add: alike_def)
  then have "good (s\<lparr>nodes := bt_insert n nd' (nodes s)\<rparr>)"
    by (rule good_node_insert [OF g nd]) (use assms in simp_all)
  then show ?thesis by (simp add: put_node_run wp_def)
qed

lemma answers_shared_parent [safe_intro]: "answers (shared_parent s a b)"
  by (simp add: shared_parent_def node_parent_def state_node_def rwp_rbind rwp_ok_or split: option.split)

lemma safe_case_node:
  "(\<And>v. nd = BufferView v \<Longrightarrow> safe (f v) s) \<Longrightarrow> (\<And>sp. nd = Split sp \<Longrightarrow> safe (g sp) s) \<Longrightarrow>
   (\<And>tb. nd = Tabs tb \<Longrightarrow> safe (h tb) s) \<Longrightarrow>
   safe (case nd of BufferView v \<Rightarrow> f v | Split sp \<Rightarrow> g sp | Tabs tb \<Rightarrow> h tb) s"
  by (cases nd) simp_all

text \<open>What a good and sized state says of a container, as the methods on siblings need it.\<close>

lemma split_children:
  assumes "good s" and "sized s" and "bt_get (nodes s) p = Some (Split sp)"
  shows "length (sp_sizes sp) = length (sp_children sp)" "distinct (sp_children sp)"
proof -
  have "sized_node (Split sp)" using assms(2,3) unfolding sized_def by blast
  then show "length (sp_sizes sp) = length (sp_children sp)" by simp
  show "distinct (sp_children sp)" using forest_distinct [OF goodD(3) [OF assms(1)], of p] assms(3) by (simp add: layout_def)
qed

lemma tabs_children:
  assumes "good s" and "bt_get (nodes s) p = Some (Tabs tb)"
  shows "distinct (map te_child (tb_tabs tb))" "active_ok (Tabs tb)"
  using forest_distinct [OF goodD(3) [OF assms(1)], of p] goodD(8) [OF assms(1)] assms(2)
  unfolding tabs_ok_def by (simp add: layout_def, blast)

lemma vec_swap_Nil [simp]: "vec_swap i j xs = [] \<longleftrightarrow> xs = []"
  by (simp add: vec_swap_def)

lemma safe_swap:
  assumes g: "good s" and z: "sized s"
  shows "safe (swap_sibling_nodes a b) s"
proof (cases "a = b")
  case False
  have split: "safe (put_node p (Split (sp\<lparr>sp_children := vec_swap i j (sp_children sp), sp_sizes := vec_swap i j (sp_sizes sp)\<rparr>))) s"
    if "bt_get (nodes s) p = Some (Split sp)" "i < length (sp_children sp)" "j < length (sp_children sp)" for p sp i j
    by (intro safe_rearrange [OF g that(1)]) (use that split_children [OF g z that(1)] in simp_all)
  have tabs: "safe (put_node p (Tabs (tb\<lparr>tb_tabs := vec_swap i j (tb_tabs tb),
        tb_active := (if tb_active tb = i then j else if tb_active tb = j then i else tb_active tb)\<rparr>))) s"
    if "bt_get (nodes s) p = Some (Tabs tb)" "i < length (tb_tabs tb)" "j < length (tb_tabs tb)" for p tb i j
    by (intro safe_rearrange [OF g that(1)]) (use that tabs_children [OF g that(1)] in \<open>auto simp: map_vec_swap split: if_splits\<close>)
  show ?thesis
    unfolding swap_sibling_nodes_def if_not_P [OF False] wp_pbind [of "reads (\<lambda>s. shared_parent s a b)"] wp_reads
    by (intro rwp_mono [OF answers_shared_parent] safe_state_node [OF g] safe_case_node safe_option safe_if split tabs)
      (use g in \<open>auto dest!: position_SomeD dest: split_children [OF g z]\<close>)
qed (use g in \<open>simp add: swap_sibling_nodes_def\<close>)

text \<open>Taking an element out and putting it in elsewhere keeps the elements.\<close>

lemma vec_move:
  assumes "distinct xs" and "i < length xs" and "j < length xs"
  shows "set (vec_insert j (xs ! i) (vec_remove i xs)) = set xs" "distinct (vec_insert j (xs ! i) (vec_remove i xs))"
  using assms by (simp_all add: set_vec_remove_distinct insert_absorb)

lemma insert_position_less: "i \<noteq> j \<Longrightarrow> i < n \<Longrightarrow> j < n \<Longrightarrow> insert_position i j first < n"
  by (auto simp: insert_position_def Let_def)

lemma active_after_move_less: "active < n \<Longrightarrow> i < n \<Longrightarrow> j < n \<Longrightarrow> active_after_move active i j < n"
  by (auto simp: active_after_move_def)

lemma position_differs: "position (\<lambda>x. f x = a) xs = Some i \<Longrightarrow> position (\<lambda>x. f x = b) xs = Some j \<Longrightarrow> a \<noteq> b \<Longrightarrow> i \<noteq> j"
  by (auto dest!: position_SomeD)

lemma sibling_positions:
  assumes "position (\<lambda>x. f x = a) xs = Some i" and "position (\<lambda>x. f x = b) xs = Some j" and "a \<noteq> b"
  shows "i < length xs" "insert_position i j first < length xs"
  using position_SomeD [OF assms(1)] position_SomeD [OF assms(2)] position_differs [OF assms] insert_position_less by auto

lemma safe_reorder:
  assumes g: "good s" and z: "sized s"
  shows "safe (reorder_sibling_node a b first) s"
proof (cases "a = b")
  case False
  have split: "safe (put_node p (Split (sp\<lparr>sp_children := vec_insert j (sp_children sp ! i) (vec_remove i (sp_children sp)),
      sp_sizes := vec_insert j (sp_sizes sp ! i) (vec_remove i (sp_sizes sp))\<rparr>))) s"
    if "bt_get (nodes s) p = Some (Split sp)" "i < length (sp_children sp)" "j < length (sp_children sp)" for p sp i j
    by (intro safe_rearrange [OF g that(1)]) (use that split_children [OF g z that(1)] vec_move [of "sp_children sp" i j] in simp_all)
  have tabs: "safe (put_node p (Tabs (tb\<lparr>tb_tabs := vec_insert j (tb_tabs tb ! i) (vec_remove i (tb_tabs tb)),
      tb_active := active_after_move (tb_active tb) i j\<rparr>))) s"
    if "bt_get (nodes s) p = Some (Tabs tb)" "i < length (tb_tabs tb)" "j < length (tb_tabs tb)" for p tb i j
  proof (intro safe_rearrange [OF g that(1)])
    note tb = tabs_children [OF g that(1)]
    let ?tb = "Tabs (tb\<lparr>tb_tabs := vec_insert j (tb_tabs tb ! i) (vec_remove i (tb_tabs tb)), tb_active := active_after_move (tb_active tb) i j\<rparr>)"
    have m: "child_ids ?tb = vec_insert j (map te_child (tb_tabs tb) ! i) (vec_remove i (map te_child (tb_tabs tb)))"
      using that by (simp add: map_vec_insert map_vec_remove)
    show "distinct (child_ids ?tb)" "set (child_ids ?tb) = set (child_ids (Tabs tb))"
      unfolding m using vec_move [OF tb(1)] that by simp_all
    have "tb_active tb < length (tb_tabs tb)" using tb(2) that by (auto split: if_splits)
    from active_after_move_less [OF this that(2,3)] show "active_ok ?tb" using that by (simp add: Suc_diff_Suc)
  qed simp_all
  have at: "i < length (sp_sizes sp) \<and> insert_position i j first \<le> length (sp_sizes sp) - 1"
      "i < length (sp_children sp)" "insert_position i j first < length (sp_children sp)"
    if "bt_get (nodes s) p = Some (Split sp)" "child_position a (sp_children sp) = Some i" "child_position b (sp_children sp) = Some j" for p sp i j
    using sibling_positions(1) [where f = "\<lambda>x. x", OF that(2,3) False]
      sibling_positions(2) [where f = "\<lambda>x. x" and first = first, OF that(2,3) False] split_children(1) [OF g z that(1)] by linarith+
  show ?thesis
    unfolding reorder_sibling_node_def if_not_P [OF False] Let_def wp_pbind [of "reads (\<lambda>s. shared_parent s a b)"] wp_reads
    by (intro rwp_mono [OF answers_shared_parent] safe_state_node [OF g] safe_case_node safe_option safe_if split tabs)
      (use g False in \<open>auto dest: at sibling_positions(1) sibling_positions(2) [where first = first]\<close>)
qed (use g in \<open>simp add: reorder_sibling_node_def\<close>)

end
