(* ===== verification/Service.thy ===== *)
theory Service
  imports Embers_Prelude
begin

text \<open>
  Components that carry out requests one after another on a state of their own: the states they reach, and
  the interface through which an invariant of their operations becomes one of every state they reach.
\<close>

inductive reaches :: "('r \<Rightarrow> ('s, 'e, 'a) proc) \<Rightarrow> ('r \<Rightarrow> 's \<Rightarrow> bool) \<Rightarrow> 's \<Rightarrow> 's \<Rightarrow> bool" for carry may start where
  start: "reaches carry may start start"
| request: "reaches carry may start s \<Longrightarrow> may r s \<Longrightarrow> reaches carry may start (snd (carry r s))"

inductive_cases reaches_cases: "reaches carry may start s"

text \<open>
  A service whose requests return and keep an invariant: the invariant holds of what it reaches, and every
  request that it may be sent there is answered.
\<close>

locale service =
  fixes init :: 's and carry :: "'r \<Rightarrow> ('s, 'e, 'a) proc" and may :: "'r \<Rightarrow> 's \<Rightarrow> bool" and ok :: "'s \<Rightarrow> bool"
  assumes ok_init: "ok init"
    and ok_carry: "ok s \<Longrightarrow> may r s \<Longrightarrow> wp (carry r) (\<lambda>_. ok) (\<lambda>_. ok) s"
begin

lemma answered:
  assumes "ok s" and "may r s"
  obtains x t where "carry r s = (Ok x, t)" "ok t" | e t where "carry r s = (Err e, t)" "ok t"
  using ok_carry [OF assms] that by (auto simp: wp_def split: prod.splits outcome.splits)

lemma reaches_ok: "reaches carry may init s \<Longrightarrow> ok s"
proof (induction rule: reaches.induct)
  case (request s r)
  then show ?case using answered [of s r] by (metis snd_conv)
qed (rule ok_init)

lemma reaches_answered:
  assumes "reaches carry may init s" and "may r s"
  shows "\<exists>t. ((\<exists>x. carry r s = (Ok x, t)) \<or> (\<exists>e. carry r s = (Err e, t))) \<and> reaches carry may init t"
  using answered [OF reaches_ok [OF assms(1)] assms(2)] reaches.request [OF assms] by (metis snd_conv)

end

end
