(* ===== verification/Server_Requests.thy ===== *)
theory Server_Requests
  imports Server_Arrange Server_Sample Service
begin

text \<open>
  Requests of a client as transitions of the server state: from the empty state every sequence of the
  requests of the type \<open>request\<close> keeps the invariant, and every one of them is answered.
\<close>

section \<open>Requests\<close>

text \<open>
  Requests of a client that reach the state, each with the method that carries it out. A caller sees
  whether the method returned, not the id it returned. The requests that build and move subtrees
  (\<open>CreateSplit\<close>, \<open>CreateTabs\<close>, \<open>ReplaceNode\<close>, \<open>WrapInSplit\<close>, \<open>WrapInTabs\<close>, \<open>MoveBufferToNode\<close>, \<open>BreakNode\<close>,
  \<open>JoinBufferAtNode\<close> of the protocol) are not among them: \<open>Server_Runs\<close> has runs of some that break the layout.
\<close>

datatype request =
    CreateSession rstring timestamp
  | CloseSession session_id
  | RenameSession session_id rstring
  | SetBaseIndex session_id "nat option"
  | SetViewport session_id size bool
  | CreateBuffer rstring "rstring list" "rstring option" string_map timestamp
  | RemoveBuffer buffer_id
  | BufferRunning buffer_id "nat option"
  | BufferInterrupted buffer_id "nat option"
  | BufferExited buffer_id "int option" timestamp
  | ResizeBuffer buffer_id pty_size
  | TitleBuffer buffer_id rstring
  | NewWindow session_id rstring buffer_id
  | NewTab node_id nat rstring buffer_id
  | SplitPane node_id split_direction buffer_id
  | OpenFloating session_id buffer_id float_geometry "rstring option" bool bool
  | MoveFloating floating_id float_geometry
  | BorderFloating floating_id bool
  | CloseNode node_id
  | CloseTab node_id nat
  | CloseFloating floating_id
  | FocusPane session_id node_id
  | FocusFloating floating_id
  | SelectTab node_id nat
  | RenameTab node_id nat rstring
  | ResizeSplit node_id "nat list"
  | ZoomNode node_id
  | ToggleZoom node_id
  | Unzoom session_id
  | SelectWindow session_id nat
  | RenameWindow session_id nat rstring
  | CloseWindow session_id nat
  | SynchronizePanes session_id nat "bool option"
  | SelectPane session_id node_id
  | FocusLast session_id
  | ShowNode session_id node_id
  | SwapSiblings node_id node_id
  | MoveBefore node_id node_id
  | MoveAfter node_id node_id

abbreviation quietly :: "'a op \<Rightarrow> unit op" where
  "quietly m \<equiv> pbind m (\<lambda>_. ret ())"

primrec perform :: "request \<Rightarrow> unit op" where
  "perform (CreateSession name now) = quietly (create_session name now)"
| "perform (CloseSession sid) = close_session sid"
| "perform (RenameSession sid name) = rename_session sid name"
| "perform (SetBaseIndex sid base) = set_session_base_index sid base"
| "perform (SetViewport sid sz titles) = set_session_viewport sid sz titles"
| "perform (CreateBuffer title command cwd env now) = quietly (create_buffer_with_env title command cwd env now)"
| "perform (RemoveBuffer bid) = quietly (remove_buffer bid)"
| "perform (BufferRunning bid pid) = mark_buffer_running bid pid"
| "perform (BufferInterrupted bid pid) = mark_buffer_interrupted bid pid"
| "perform (BufferExited bid code now) = mark_buffer_exited bid code now"
| "perform (ResizeBuffer bid sz) = set_buffer_size bid sz"
| "perform (TitleBuffer bid title) = set_buffer_title bid title"
| "perform (NewWindow sid title bid) = quietly (add_root_tab_from_buffer sid title bid)"
| "perform (NewTab n i title bid) = quietly (add_tab_from_buffer_at n i title bid)"
| "perform (SplitPane n direction bid) = quietly (split_leaf_with_new_buffer n direction bid)"
| "perform (OpenFloating sid bid geometry title focus close_on_empty) =
     quietly (create_floating_from_buffer_with_options sid bid geometry title focus close_on_empty)"
| "perform (MoveFloating fid geometry) = move_floating fid geometry"
| "perform (BorderFloating fid border) = set_floating_border fid border"
| "perform (CloseNode n) = close_node n"
| "perform (CloseTab n i) = close_tab n i"
| "perform (CloseFloating fid) = close_floating fid"
| "perform (FocusPane sid n) = focus_leaf sid n"
| "perform (FocusFloating fid) = focus_floating fid"
| "perform (SelectTab n i) = switch_tab n i"
| "perform (RenameTab n i title) = rename_tab n i title"
| "perform (ResizeSplit n sizes) = resize_split_children n sizes"
| "perform (ZoomNode n) = zoom_node n"
| "perform (ToggleZoom n) = toggle_zoom_node n"
| "perform (Unzoom sid) = unzoom_session sid"
| "perform (SelectWindow sid i) = select_root_tab sid i"
| "perform (RenameWindow sid i title) = rename_root_tab sid i title"
| "perform (CloseWindow sid i) = close_root_tab sid i"
| "perform (SynchronizePanes sid i on) = quietly (set_root_tab_synchronize_panes sid i on)"
| "perform (SelectPane sid n) = select_pane sid n"
| "perform (FocusLast sid) = focus_last_pane sid"
| "perform (ShowNode sid n) = show_node sid n"
| "perform (SwapSiblings a b) = swap_sibling_nodes a b"
| "perform (MoveBefore n sibling) = move_node_before n sibling"
| "perform (MoveAfter n sibling) = move_node_after n sibling"

text \<open>
  What a request needs: ids left to issue (the counters count to \<open>u64::MAX\<close>), a pane to split that some
  window holds, and, for a close, a container that does not become empty below another one.
\<close>

definition ids_left :: "server_state \<Rightarrow> bool" where
  "ids_left s \<longleftrightarrow>
     session_ids s < u64_max \<and> buffer_ids s < u64_max \<and> Suc (node_ids s) < u64_max \<and> floating_ids s < u64_max"

fun admissible :: "request \<Rightarrow> server_state \<Rightarrow> bool" where
  "admissible (SplitPane n _ _) s = (is_view s n \<longrightarrow> (\<exists>sid r. focusable s sid r n))"
| "admissible (CloseNode n) s = closable s n"
| "admissible (CloseTab n _) s =
     (case bt_get (nodes s) n of Some (Tabs tb) \<Rightarrow> \<not> nested_single (Tabs tb) | _ \<Rightarrow> True)"
| "admissible _ s = True"

lemma safe_quietly: "safe m s \<Longrightarrow> safe (quietly m) s"
  unfolding wp_pbind by (rule wp_mono) simp_all

lemma perform_safe:
  assumes g: "good s" and z: "sized s" and room: "ids_left s" and ok: "admissible r s"
  shows "safe (perform r) s"
proof -
  have n: "Suc (node_ids s) < u64_max" "node_ids s < u64_max" "session_ids s < u64_max" "buffer_ids s < u64_max"
    "floating_ids s < u64_max"
    using room by (simp_all add: ids_left_def)
  show ?thesis
  proof (cases r)
    case (CreateSession name now)
    obtain t where "create_session name now s = (Ok (session_ids s), t)" "good t"
      using create_session_run [OF g n(3,2)] by blast
    then have "safe (create_session name now) s" by (simp add: wp_def)
    then show ?thesis using CreateSession safe_quietly by simp
  next
    case (CreateBuffer title command cwd env now)
    obtain t where "create_buffer_with_env title command cwd env now s = (Ok (buffer_ids s), t)" "good t"
      using create_buffer_run [OF g n(4)] by blast
    then have "safe (create_buffer_with_env title command cwd env now) s" by (simp add: wp_def)
    then show ?thesis using CreateBuffer safe_quietly by simp
  next
    case (NewTab p i title bid)
    have "safe (add_tab_from_buffer_at p i title bid) s"
      by (rule wp_mono [OF add_tab_from_buffer_at_run [OF g n(2)]]) simp_all
    then show ?thesis using NewTab safe_quietly by simp
  next
    case (OpenFloating sid bid geometry title focus close_on_empty)
    have "safe (create_floating_from_buffer_with_options sid bid geometry title focus close_on_empty) s"
      by (rule wp_mono [OF create_floating_from_buffer_run [OF g n(5,2)]]) simp_all
    then show ?thesis using OpenFloating safe_quietly by simp
  next
    case (CloseTab p i)
    then have "\<not> nested_single (Tabs tb)" if "bt_get (nodes s) p = Some (Tabs tb)" for tb using ok that by simp
    then show ?thesis using safe_close_tab [OF g, of p i] CloseTab by simp
  qed (use ok in \<open>simp_all add: safe_intro g safe_close_node n safe_quietly safe_remove_buffer safe_new_window safe_split
      safe_swap [OF g z] safe_reorder [OF g z] move_node_before_def move_node_after_def\<close>)
qed

lemma perform_sized: "preserves sized (perform r)"
  by (cases r) (auto intro!: preserves_pbind sizes simp: move_node_before_def move_node_after_def)

section \<open>Reachable states\<close>

definition offered :: "request \<Rightarrow> server_state \<Rightarrow> bool" where
  "offered r s \<longleftrightarrow> ids_left s \<and> admissible r s"

lemma good_state_new: "good state_new"
  by (simp add: good_def inv_def structure_ok_def attach_ok_def views_ok_def sessions_ok_def floating_ok_def tabs_ok_def
      lfd_ok_def ff_ok_def shown_buffers_ok_def no_hollow_def ids_ok_def layout_def state_new_def forest_def up_def acyclic_def)

definition layout_ok :: "server_state \<Rightarrow> bool" where
  "layout_ok s \<longleftrightarrow> good s \<and> sized s"

interpretation mux: service state_new perform offered layout_ok
proof unfold_locales
  show "layout_ok state_new" using good_state_new by (simp add: layout_ok_def sized_def state_new_def)
  fix s r
  assume "layout_ok s" "offered r s"
  then have "safe (perform r) s" "sized s" by (simp_all add: layout_ok_def perform_safe offered_def)
  then show "wp (perform r) (\<lambda>_. layout_ok) (\<lambda>_. layout_ok) s"
    unfolding layout_ok_def by (intro wp_preserves [OF perform_sized])
qed

section \<open>The sample layout is reached\<close>

abbreviation reached :: "server_state \<Rightarrow> bool" where
  "reached \<equiv> reaches perform offered state_new"

definition sample_before_split :: server_state where
  "sample_before_split =
     fold (\<lambda>r s. snd (perform r s))
       [CreateSession [] 0, CreateBuffer [] [] None bt_empty 0, CreateBuffer [] [] None bt_empty 0,
        CreateBuffer [] [] None bt_empty 0, NewWindow 1 [] 1] state_new"

lemmas before_split_eval = sample_before_split_def create_buffer_def run_simps

lemma reached_fold:
  "reached s \<Longrightarrow> (\<And>i. i < length rs \<Longrightarrow> offered (rs ! i) (fold (\<lambda>r s. snd (perform r s)) (take i rs) s)) \<Longrightarrow>
   reached (fold (\<lambda>r s. snd (perform r s)) rs s)"
proof (induction rs arbitrary: s)
  case (Cons r rs)
  have "reached (snd (perform r s))" using reaches.request [OF Cons.prems(1)] Cons.prems(2) [of 0] by simp
  then show ?case using Cons.IH [of "snd (perform r s)"] Cons.prems(2) [of "Suc _"] by fastforce
qed simp

lemma before_split_reached: "reached sample_before_split"
  unfolding sample_before_split_def
proof (rule reached_fold [OF reaches.start])
  fix i :: nat
  let ?rs = "[CreateSession [] 0, CreateBuffer [] [] None bt_empty 0, CreateBuffer [] [] None bt_empty 0,
        CreateBuffer [] [] None bt_empty 0, NewWindow 1 [] 1]"
  assume "i < length ?rs"
  then have "i \<in> {0, 1, 2, 3, 4}" by auto
  then show "offered (?rs ! i) (fold (\<lambda>r s. snd (perform r s)) (take i ?rs) state_new)"
    by (elim insertE emptyE) (simp_all add: offered_def ids_left_def run_simps cong: run_congs)
qed

lemma before_split_good: "good sample_before_split"
  using mux.reaches_ok [OF before_split_reached] by (simp add: layout_ok_def)

lemma before_split_focusable: "focusable sample_before_split 1 1 2"
proof -
  have "has_session 1 sample_before_split" "pane_root sample_before_split 1 1"
    by (simp_all add: has_session_def pane_root_def before_split_eval cong: run_congs)
  moreover have "(2, 1) \<in> (up (layout sample_before_split))\<^sup>*" "is_view sample_before_split 2"
    "\<exists>c. layout sample_before_split 1 = Some c \<and> ce_session c = 1"
    by (auto intro!: r_into_rtrancl simp: up_def layout_def is_view_def before_split_eval cong: run_congs)
  moreover have "structure_ok sample_before_split" using goodD(1) [OF before_split_good] by (simp add: inv_def)
  ultimately show ?thesis using shown_focusable by blast
qed

lemma sample_reached: "reached sample_state"
proof -
  have "sample_state = snd (perform (SplitPane 2 Horizontal 2) sample_before_split)"
    by (simp add: before_split_eval sample_eval numeral_2_eq_2 numeral_3_eq_3 cong: run_congs)
  moreover have "offered (SplitPane 2 Horizontal 2) sample_before_split"
    using before_split_focusable
    by (auto simp: offered_def ids_left_def) (simp_all add: before_split_eval cong: run_congs)
  ultimately show ?thesis using reaches.request [OF before_split_reached, of "SplitPane 2 Horizontal 2"] by metis
qed

lemma sample_good: "good sample_state"
  using mux.reaches_ok [OF sample_reached] by (simp add: layout_ok_def)

lemma sample_ids: "session_ids sample_state = 2" "buffer_ids sample_state = 4" "node_ids sample_state = 5" "floating_ids sample_state = 1"
  by (simp_all add: sample_eval cong: run_congs)

lemma sample_ids_left: "ids_left sample_state"
  by (simp add: ids_left_def sample_ids u64_max_def)

lemma sample_detached: "\<exists>b. bt_get (buffers sample_state) 3 = Some b \<and> bu_attachment b = Detached"
  by (simp add: sample_eval cong: run_congs)

end
