(* ===== verification/Server_Persist.thy ===== *)
theory Server_Persist
  imports Server_Validate Server_Buffers
begin

text \<open>
  Workspace persistence (\<open>crates/embers-server/src/persist.rs\<close>, and \<open>to_persisted\<close> and \<open>from_persisted\<close> of
  \<open>state.rs\<close>): the saved workspace, the conversions of every record in both directions, the migration of
  earlier formats, and the comparison that decides whether a save is due. Reading and writing the file and
  its JSON form are code of the operating system and of a library.
\<close>

section \<open>The saved workspace\<close>

record persisted_session =
  ps_id :: nat
  ps_name :: rstring
  ps_root_node :: nat
  ps_floating :: "nat list"
  ps_focused_leaf :: "nat option"
  ps_focused_floating :: "nat option"
  ps_zoomed_node :: "nat option"
  ps_viewport :: "size option"
  ps_pane_titles :: bool
  ps_base_index :: "nat option"
  ps_created_at_ms :: nat

datatype persisted_helper_scope = PersistedFull | PersistedVisible

datatype persisted_buffer_kind =
    PersistedPty
  | PersistedHelper nat persisted_helper_scope "rstring list"

datatype persisted_buffer_state =
    PersistedCreated
  | PersistedRunning "nat option"
  | PersistedInterrupted "nat option"
  | PersistedExited "int option" nat

datatype persisted_attachment = PersistedAttached nat | PersistedDetached

datatype persisted_split_direction = PersistedHorizontal | PersistedVertical

datatype persisted_activity_state = PersistedIdle | PersistedActivity | PersistedBell

record persisted_remote_buffer =
  pr_host :: rstring
  pr_buffer_id :: "nat option"

text \<open>The legacy sequence number is always zero; the field carries no value.\<close>

record persisted_buffer =
  pb_id :: nat
  pb_title :: rstring
  pb_command :: "rstring list"
  pb_cwd :: "rstring option"
  pb_env :: string_map
  pb_user_options :: string_map
  pb_foreground_command :: "rstring list option"
  pb_runtime_socket_path :: "rstring option"
  pb_remote :: "persisted_remote_buffer option"
  pb_state :: persisted_buffer_state
  pb_attachment :: persisted_attachment
  pb_pty_size :: pty_size
  pb_activity :: persisted_activity_state
  pb_kind :: persisted_buffer_kind
  pb_created_at_ms :: nat

record persisted_tab_entry =
  pt_title :: rstring
  pt_child :: nat

text \<open>
  The fields in the order of the source: id, session, parent; then buffer, focused, zoomed, follow output
  and last size of a view, direction, children, sizes and memory of a split, tabs, active and memory of tabs.
\<close>

datatype persisted_node =
    PersistedView nat nat "nat option" nat bool bool bool pty_size
  | PersistedSplit nat nat "nat option" persisted_split_direction "nat list" "nat list" "nat option"
  | PersistedTabs nat nat "nat option" "persisted_tab_entry list" nat "nat option"

record persisted_floating_window =
  pf_id :: nat
  pf_session_id :: nat
  pf_root_node :: nat
  pf_title :: "rstring option"
  pf_geometry :: float_geometry
  pf_focused :: bool
  pf_visible :: bool
  pf_close_on_empty :: bool
  pf_border :: bool
  pf_last_focused_leaf :: "nat option"

record persisted_workspace =
  pw_format_version :: "nat option"
  pw_sessions :: "persisted_session list"
  pw_buffers :: "persisted_buffer list"
  pw_nodes :: "persisted_node list"
  pw_floating :: "persisted_floating_window list"
  pw_next_session_id :: nat
  pw_next_buffer_id :: nat
  pw_next_node_id :: nat
  pw_next_floating_id :: nat

definition legacy_format_version :: nat where "legacy_format_version = 0"
definition first_versioned_format_version :: nat where "first_versioned_format_version = 1"
definition current_format_version :: nat where "current_format_version = 2"

section \<open>Time\<close>

text \<open>
  Times before the epoch are saved as the epoch, and milliseconds are counted to \<open>u64::MAX\<close>. On Unix a
  \<open>SystemTime\<close> holds 63 bits of seconds.
\<close>

definition timestamp_to_millis :: "timestamp \<Rightarrow> nat" where
  "timestamp_to_millis t = min (nat (max t 0) div 1000000) u64_max"

definition timestamp_from_millis :: "nat \<Rightarrow> timestamp res" where
  "timestamp_from_millis millis =
     (if millis div 1000 < 2 ^ 63 then Ok (int millis * 1000000) else Err (Internal (TimestampOverflow millis)))"

section \<open>Conversions\<close>

definition persisted_session_of :: "session \<Rightarrow> persisted_session" where
  "persisted_session_of se =
     \<lparr>ps_id = se_id se, ps_name = se_name se, ps_root_node = se_root_node se, ps_floating = se_floating se,
      ps_focused_leaf = se_focused_leaf se, ps_focused_floating = se_focused_floating se,
      ps_zoomed_node = se_zoomed_node se, ps_viewport = se_viewport se, ps_pane_titles = se_pane_titles se,
      ps_base_index = se_base_index se, ps_created_at_ms = timestamp_to_millis (se_created_at se)\<rparr>"

definition restored_session :: "persisted_session \<Rightarrow> session res" where
  "restored_session ps =
     rbind (timestamp_from_millis (ps_created_at_ms ps)) (\<lambda>created.
     Ok \<lparr>se_id = ps_id ps, se_name = ps_name ps, se_root_node = ps_root_node ps, se_floating = ps_floating ps,
         se_focused_leaf = ps_focused_leaf ps, se_focused_floating = ps_focused_floating ps,
         se_zoomed_node = ps_zoomed_node ps, se_viewport = ps_viewport ps, se_pane_titles = ps_pane_titles ps,
         se_base_index = ps_base_index ps, se_focus_history = [], se_created_at = created\<rparr>)"

fun persisted_helper_scope_of :: "helper_buffer_scope \<Rightarrow> persisted_helper_scope" where
  "persisted_helper_scope_of Full = PersistedFull"
| "persisted_helper_scope_of Visible = PersistedVisible"

fun restored_helper_scope :: "persisted_helper_scope \<Rightarrow> helper_buffer_scope" where
  "restored_helper_scope PersistedFull = Full"
| "restored_helper_scope PersistedVisible = Visible"

text \<open>The lines of a helper buffer are not saved.\<close>

fun persisted_buffer_kind_of :: "buffer_kind \<Rightarrow> persisted_buffer_kind" where
  "persisted_buffer_kind_of Pty = PersistedPty"
| "persisted_buffer_kind_of (Helper h) =
     PersistedHelper (hb_source_buffer_id h) (persisted_helper_scope_of (hb_scope h)) []"

fun restored_buffer_kind :: "persisted_buffer_kind \<Rightarrow> buffer_kind" where
  "restored_buffer_kind PersistedPty = Pty"
| "restored_buffer_kind (PersistedHelper source scope lines) =
     Helper \<lparr>hb_source_buffer_id = source, hb_scope = restored_helper_scope scope, hb_lines = lines\<rparr>"

fun persisted_buffer_state_of :: "buffer_state \<Rightarrow> persisted_buffer_state" where
  "persisted_buffer_state_of Created = PersistedCreated"
| "persisted_buffer_state_of (Running pid) = PersistedRunning pid"
| "persisted_buffer_state_of (Interrupted pid) = PersistedInterrupted pid"
| "persisted_buffer_state_of (Exited code at) = PersistedExited code (timestamp_to_millis at)"

text \<open>A process the server ran before is interrupted until its keeper is found again.\<close>

fun restored_buffer_state :: "persisted_buffer_state \<Rightarrow> buffer_state res" where
  "restored_buffer_state PersistedCreated = Ok Created"
| "restored_buffer_state (PersistedRunning pid) = Ok (Interrupted pid)"
| "restored_buffer_state (PersistedInterrupted pid) = Ok (Interrupted pid)"
| "restored_buffer_state (PersistedExited code ms) =
     rbind (timestamp_from_millis ms) (\<lambda>at. Ok (Exited code at))"

fun persisted_buffer_attachment :: "buffer_attachment \<Rightarrow> persisted_attachment" where
  "persisted_buffer_attachment (Attached n) = PersistedAttached n"
| "persisted_buffer_attachment Detached = PersistedDetached"

fun restored_buffer_attachment :: "persisted_attachment \<Rightarrow> buffer_attachment" where
  "restored_buffer_attachment (PersistedAttached n) = Attached n"
| "restored_buffer_attachment PersistedDetached = Detached"

fun persisted_split_direction_of :: "split_direction \<Rightarrow> persisted_split_direction" where
  "persisted_split_direction_of Horizontal = PersistedHorizontal"
| "persisted_split_direction_of Vertical = PersistedVertical"

fun restored_split_direction :: "persisted_split_direction \<Rightarrow> split_direction" where
  "restored_split_direction PersistedHorizontal = Horizontal"
| "restored_split_direction PersistedVertical = Vertical"

fun persisted_activity_of :: "activity_state \<Rightarrow> persisted_activity_state" where
  "persisted_activity_of Idle = PersistedIdle"
| "persisted_activity_of Activity = PersistedActivity"
| "persisted_activity_of Bell = PersistedBell"

fun restored_activity :: "persisted_activity_state \<Rightarrow> activity_state" where
  "restored_activity PersistedIdle = Idle"
| "restored_activity PersistedActivity = Activity"
| "restored_activity PersistedBell = Bell"

definition persisted_buffer_of :: "buffer \<Rightarrow> persisted_buffer" where
  "persisted_buffer_of b =
     \<lparr>pb_id = bu_id b, pb_title = bu_title b, pb_command = bu_command b, pb_cwd = bu_cwd b, pb_env = bu_env b,
      pb_user_options = bu_user_options b, pb_foreground_command = bu_foreground_command b,
      pb_runtime_socket_path = placement_socket_path (bu_placement b),
      pb_remote = (case bu_placement b of
                     Local _ \<Rightarrow> None
                   | Remote host bid \<Rightarrow> Some \<lparr>pr_host = host, pr_buffer_id = bid\<rparr>),
      pb_state = persisted_buffer_state_of (bu_state b),
      pb_attachment = persisted_buffer_attachment (bu_attachment b), pb_pty_size = bu_pty_size b,
      pb_activity = persisted_activity_of (bu_activity b), pb_kind = persisted_buffer_kind_of (bu_kind b),
      pb_created_at_ms = timestamp_to_millis (bu_created_at b)\<rparr>"

text \<open>The clock that \<open>Buffer::new\<close> reads is overwritten with the saved time of creation.\<close>

definition restored_buffer :: "persisted_buffer \<Rightarrow> buffer res" where
  "restored_buffer p =
     rbind (restored_buffer_state (pb_state p)) (\<lambda>state.
     rbind (timestamp_from_millis (pb_created_at_ms p)) (\<lambda>created.
     Ok (set_placement
           (case pb_remote p of
              Some remote \<Rightarrow> Remote (pr_host remote) (pr_buffer_id remote)
            | None \<Rightarrow> Local (pb_runtime_socket_path p))
           ((buffer_new (pb_id p) (pb_title p) (pb_command p) (pb_cwd p) (pb_env p) 0)
              \<lparr>bu_user_options := pb_user_options p, bu_foreground_command := pb_foreground_command p\<rparr>)
         \<lparr>bu_state := state, bu_attachment := restored_buffer_attachment (pb_attachment p),
          bu_pty_size := pb_pty_size p, bu_activity := restored_activity (pb_activity p),
          bu_kind := restored_buffer_kind (pb_kind p), bu_created_at := created, bu_ever_attached := True\<rparr>)))"

fun persisted_node_of :: "node \<Rightarrow> persisted_node" where
  "persisted_node_of (BufferView v) =
     PersistedView (bv_id v) (bv_session_id v) (bv_parent v) (bv_buffer_id v) (vs_focused (bv_view v))
       (vs_zoomed (bv_view v)) (vs_follow_output (bv_view v)) (vs_last_render_size (bv_view v))"
| "persisted_node_of (Split sp) =
     PersistedSplit (sp_id sp) (sp_session_id sp) (sp_parent sp) (persisted_split_direction_of (sp_direction sp))
       (sp_children sp) (sp_sizes sp) (sp_last_focused_descendant sp)"
| "persisted_node_of (Tabs tb) =
     PersistedTabs (tb_id tb) (tb_session_id tb) (tb_parent tb)
       (map (\<lambda>t. \<lparr>pt_title = te_title t, pt_child = te_child t\<rparr>) (tb_tabs tb)) (tb_active tb)
       (tb_last_focused_descendant tb)"

fun restored_node :: "persisted_node \<Rightarrow> node" where
  "restored_node (PersistedView i sid p bid focused zoomed follow sz) =
     BufferView \<lparr>bv_id = i, bv_session_id = sid, bv_parent = p, bv_buffer_id = bid,
       bv_view = \<lparr>vs_focused = focused, vs_zoomed = zoomed, vs_follow_output = follow, vs_last_render_size = sz\<rparr>\<rparr>"
| "restored_node (PersistedSplit i sid p direction children sizes memo) =
     Split \<lparr>sp_id = i, sp_session_id = sid, sp_parent = p, sp_direction = restored_split_direction direction,
       sp_children = children, sp_sizes = sizes, sp_last_focused_descendant = memo\<rparr>"
| "restored_node (PersistedTabs i sid p tabs active memo) =
     Tabs \<lparr>tb_id = i, tb_session_id = sid, tb_parent = p,
       tb_tabs = map (\<lambda>t. tab_entry_new (pt_title t) (pt_child t)) tabs, tb_active = active,
       tb_last_focused_descendant = memo\<rparr>"

definition persisted_floating_of :: "floating_window \<Rightarrow> persisted_floating_window" where
  "persisted_floating_of f =
     \<lparr>pf_id = fw_id f, pf_session_id = fw_session_id f, pf_root_node = fw_root_node f, pf_title = fw_title f,
      pf_geometry = fw_geometry f, pf_focused = fw_focused f, pf_visible = fw_visible f,
      pf_close_on_empty = fw_close_on_empty f, pf_border = fw_border f,
      pf_last_focused_leaf = fw_last_focused_leaf f\<rparr>"

definition restored_floating :: "persisted_floating_window \<Rightarrow> floating_window" where
  "restored_floating p =
     \<lparr>fw_id = pf_id p, fw_session_id = pf_session_id p, fw_root_node = pf_root_node p, fw_title = pf_title p,
      fw_geometry = pf_geometry p, fw_focused = pf_focused p, fw_visible = pf_visible p,
      fw_close_on_empty = pf_close_on_empty p, fw_border = pf_border p,
      fw_last_focused_leaf = pf_last_focused_leaf p\<rparr>"

section \<open>Saving\<close>

definition next_id_after_max :: "nat list \<Rightarrow> nat option" where
  "next_id_after_max ids =
     (if ids = [] then Some 1
      else let m = foldr max ids 0 in if m < u64_max then Some (m + 1) else None)"

definition checked_next_id :: "nat list \<Rightarrow> entity_kind \<Rightarrow> nat res" where
  "checked_next_id ids kind = ok_or (Internal (IdSpaceExhausted kind)) (next_id_after_max ids)"

definition or_max :: "nat option \<Rightarrow> nat" where
  "or_max x = (case x of Some i \<Rightarrow> i | None \<Rightarrow> u64_max)"

definition to_persisted :: "server_state \<Rightarrow> persisted_workspace" where
  "to_persisted s =
     \<lparr>pw_format_version = Some current_format_version,
      pw_sessions = map persisted_session_of (bt_values (sessions s)),
      pw_buffers = map persisted_buffer_of (bt_values (buffers s)),
      pw_nodes = map persisted_node_of (bt_values (nodes s)),
      pw_floating = map persisted_floating_of (bt_values (floating s)),
      pw_next_session_id = or_max (next_id_after_max (bt_keys (sessions s))),
      pw_next_buffer_id = or_max (next_id_after_max (bt_keys (buffers s))),
      pw_next_node_id = or_max (next_id_after_max (bt_keys (nodes s))),
      pw_next_floating_id = or_max (next_id_after_max (bt_keys (floating s)))\<rparr>"

definition same_saved_state :: "persisted_workspace \<Rightarrow> persisted_workspace \<Rightarrow> bool" where
  "same_saved_state a b \<longleftrightarrow>
     pw_format_version a = pw_format_version b \<and> pw_sessions a = pw_sessions b \<and> pw_nodes a = pw_nodes b \<and>
     pw_floating a = pw_floating b \<and> pw_next_session_id a = pw_next_session_id b \<and>
     pw_next_buffer_id a = pw_next_buffer_id b \<and> pw_next_node_id a = pw_next_node_id b \<and>
     pw_next_floating_id a = pw_next_floating_id b \<and> length (pw_buffers a) = length (pw_buffers b) \<and>
     list_all (\<lambda>(x, y). x\<lparr>pb_activity := pb_activity y\<rparr> = y) (zip (pw_buffers a) (pw_buffers b))"

section \<open>Loading\<close>

text \<open>The loop that restores the records of one kind into a map, refusing a second record with an id.\<close>

definition restore_all :: "entity_kind \<Rightarrow> ('p \<Rightarrow> 'v res) \<Rightarrow> ('v \<Rightarrow> nat) \<Rightarrow> 'p list \<Rightarrow> (nat, 'v) btree_map res" where
  "restore_all kind restore id_of ps =
     fold_ok (\<lambda>p m. rbind (restore p) (\<lambda>v.
        if bt_contains m (id_of v) then Err (Internal (DuplicateId kind)) else Ok (bt_insert (id_of v) v m)))
       ps bt_empty"

definition check_floating_reference ::
  "(session_id, session) btree_map \<Rightarrow> floating_id \<times> floating_window \<Rightarrow> unit res" where
  "check_floating_reference sess e =
     (case e of (fid, f) \<Rightarrow>
        (case bt_get sess (fw_session_id f) of
           None \<Rightarrow> Err (Internal (FloatingUnknownSession fid (fw_session_id f)))
         | Some se \<Rightarrow>
             if fid \<in> set (se_floating se) then Ok ()
             else Err (Internal (FloatingUnreferenced fid (fw_session_id f)))))"

definition untabbed_roots :: "server_state \<Rightarrow> node_id list" where
  "untabbed_roots s =
     map se_root_node (filter (\<lambda>se.
       (case bt_get (nodes s) (se_root_node se) of Some nd \<Rightarrow> \<not> is_tabs nd | None \<Rightarrow> False)) (bt_values (sessions s)))"

definition wrap_untabbed_session_roots :: "unit op" where
  "wrap_untabbed_session_roots =
     pbind (gets untabbed_roots) (\<lambda>untabbed.
     for_each untabbed (\<lambda>root.
       pbind (reads (\<lambda>s. default_tab_title s root)) (\<lambda>title.
       pbind (wrap_node_in_tabs root title) (\<lambda>_. ret ()))))"

definition from_persisted :: "persisted_workspace \<Rightarrow> server_state res" where
  "from_persisted w =
     rbind (restore_all SessionEntity restored_session se_id (pw_sessions w)) (\<lambda>sess.
     rbind (restore_all BufferEntity restored_buffer bu_id (pw_buffers w)) (\<lambda>bufs.
     rbind (restore_all NodeEntity (\<lambda>p. Ok (restored_node p)) node_id_of (pw_nodes w)) (\<lambda>nods.
     rbind (restore_all FloatingEntity (\<lambda>p. Ok (restored_floating p)) fw_id (pw_floating w)) (\<lambda>floats.
     rbind (all_ok (check_floating_reference sess) (bt_entries floats)) (\<lambda>_.
     rbind (checked_next_id (bt_keys sess) SessionEntity) (\<lambda>safe_session.
     rbind (checked_next_id (bt_keys bufs) BufferEntity) (\<lambda>safe_buffer.
     rbind (checked_next_id (bt_keys nods) NodeEntity) (\<lambda>safe_node.
     rbind (checked_next_id (bt_keys floats) FloatingEntity) (\<lambda>safe_floating.
     let s = \<lparr>sessions = sess, buffers = bufs, nodes = nods, floating = floats,
              environment = environment_default, last_viewport = None, last_pane_titles = False,
              last_base_index = None, default_remain_on_exit = Off,
              session_ids = max (pw_next_session_id w) safe_session,
              buffer_ids = max (pw_next_buffer_id w) safe_buffer,
              node_ids = max (pw_next_node_id w) safe_node,
              floating_ids = max (pw_next_floating_id w) safe_floating\<rparr>
     in fst (pbind wrap_untabbed_session_roots (\<lambda>_.
             pbind (reads validate) (\<lambda>_. gets (\<lambda>s. s))) s))))))))))"

section \<open>Migration\<close>

definition legacy_zoomed_nodes :: "persisted_node list \<Rightarrow> nat \<Rightarrow> nat list" where
  "legacy_zoomed_nodes ns sid =
     concat (map (\<lambda>n. case n of PersistedView i s _ _ _ zoomed _ _ \<Rightarrow> if zoomed \<and> s = sid then [i] else [] | _ \<Rightarrow> []) ns)"

definition migrate_session :: "persisted_node list \<Rightarrow> persisted_session \<Rightarrow> persisted_session res" where
  "migrate_session ns se =
     (if ps_zoomed_node se \<noteq> None then Ok se
      else
        (case legacy_zoomed_nodes ns (ps_id se) of
           [] \<Rightarrow> Ok se
         | [n] \<Rightarrow> Ok (se\<lparr>ps_zoomed_node := Some n\<rparr>)
         | zoomed \<Rightarrow> Err (Internal (MultipleLegacyZoomed (ps_id se) zoomed))))"

definition migrate_workspace :: "persisted_workspace \<Rightarrow> nat \<Rightarrow> persisted_workspace res" where
  "migrate_workspace w version =
     (if version = legacy_format_version \<or> version = first_versioned_format_version
      then rbind (map_ok (migrate_session (pw_nodes w)) (pw_sessions w)) (\<lambda>ss.
           Ok (w\<lparr>pw_sessions := ss, pw_format_version := Some current_format_version\<rparr>))
      else Err (Internal (UnsupportedVersion version)))"

definition load_current_workspace :: "persisted_workspace \<Rightarrow> persisted_workspace res" where
  "load_current_workspace w =
     (let version = (case pw_format_version w of Some v \<Rightarrow> v | None \<Rightarrow> legacy_format_version) in
      if version \<noteq> current_format_version then migrate_workspace w version
      else Ok (w\<lparr>pw_format_version := Some current_format_version\<rparr>))"

text \<open>What \<open>load_workspace\<close> does with the workspace it has read.\<close>

definition load_persisted :: "persisted_workspace \<Rightarrow> server_state res" where
  "load_persisted w = rbind (load_current_workspace w) from_persisted"

end
