(* ===== verification/Persist_Roundtrip.thy ===== *)
theory Persist_Roundtrip
  imports Server_Persist Server_Requests
begin

text \<open>
  Saving and loading a workspace: a consistent state is loaded back as it was, apart from what a restart
  forgets; whatever loads is consistent and issues fresh ids only; and a save is skipped exactly when
  nothing but activity changed.
\<close>

section \<open>What a restart keeps\<close>

definition to_the_millisecond :: "timestamp \<Rightarrow> timestamp" where
  "to_the_millisecond t = int (timestamp_to_millis t) * 1000000"

definition reloaded_session :: "session \<Rightarrow> session" where
  "reloaded_session se = se\<lparr>se_focus_history := [], se_created_at := to_the_millisecond (se_created_at se)\<rparr>"

fun reloaded_state :: "buffer_state \<Rightarrow> buffer_state" where
  "reloaded_state (Running pid) = Interrupted pid"
| "reloaded_state (Exited code at) = Exited code (to_the_millisecond at)"
| "reloaded_state st = st"

fun reloaded_kind :: "buffer_kind \<Rightarrow> buffer_kind" where
  "reloaded_kind Pty = Pty"
| "reloaded_kind (Helper h) = Helper (h\<lparr>hb_lines := []\<rparr>)"

definition reloaded_buffer :: "buffer \<Rightarrow> buffer" where
  "reloaded_buffer b =
     b\<lparr>bu_state := reloaded_state (bu_state b), bu_last_snapshot_seq := 0, bu_kind := reloaded_kind (bu_kind b),
       bu_pipe := None, bu_created_at := to_the_millisecond (bu_created_at b), bu_ever_attached := True,
       bu_runtime_bell_sequence := 0, bu_watched := False\<rparr>"

fun reloaded_node :: "node \<Rightarrow> node" where
  "reloaded_node (Tabs tb) = Tabs (tb\<lparr>tb_tabs := map (\<lambda>t. t\<lparr>te_synchronize_panes := False\<rparr>) (tb_tabs tb)\<rparr>)"
| "reloaded_node nd = nd"

definition next_id :: "nat list \<Rightarrow> nat" where
  "next_id ids = (if ids = [] then 1 else foldr max ids 0 + 1)"

definition reloaded :: "server_state \<Rightarrow> server_state" where
  "reloaded s =
     \<lparr>sessions = bt_map_values reloaded_session (sessions s), buffers = bt_map_values reloaded_buffer (buffers s),
      nodes = bt_map_values reloaded_node (nodes s), floating = floating s, environment = environment_default,
      last_viewport = None, last_pane_titles = False, last_base_index = None, default_remain_on_exit = Off,
      session_ids = next_id (bt_keys (sessions s)), buffer_ids = next_id (bt_keys (buffers s)),
      node_ids = next_id (bt_keys (nodes s)), floating_ids = next_id (bt_keys (floating s))\<rparr>"

text \<open>What a state needs to be saved: its buffers stand under their ids, and the ids leave room.\<close>

definition storable :: "server_state \<Rightarrow> bool" where
  "storable s \<longleftrightarrow>
     (\<forall>bid b. bt_get (buffers s) bid = Some b \<longrightarrow> bu_id b = bid) \<and>
     (\<forall>i \<in> set (bt_keys (sessions s)) \<union> set (bt_keys (buffers s)) \<union> set (bt_keys (nodes s)) \<union> set (bt_keys (floating s)).
        i < u64_max)"

section \<open>Records\<close>

lemma millis_from: "timestamp_from_millis (timestamp_to_millis t) = Ok (to_the_millisecond t)"
proof -
  have "timestamp_to_millis t \<le> u64_max" by (simp add: timestamp_to_millis_def)
  then have "timestamp_to_millis t div 1000 \<le> u64_max div 1000" by (rule div_le_mono)
  also have "u64_max div 1000 < 2 ^ 63" by (simp add: u64_max_def)
  finally show ?thesis by (simp add: timestamp_from_millis_def to_the_millisecond_def)
qed

lemma session_roundtrip: "restored_session (persisted_session_of se) = Ok (reloaded_session se)"
  by (simp add: restored_session_def persisted_session_of_def millis_from reloaded_session_def)

lemma kind_roundtrip: "restored_buffer_kind (persisted_buffer_kind_of k) = reloaded_kind k"
proof (cases k)
  case (Helper h)
  then show ?thesis by (cases "hb_scope h") simp_all
qed simp

lemma state_roundtrip: "restored_buffer_state (persisted_buffer_state_of st) = Ok (reloaded_state st)"
  by (cases st) (simp_all add: millis_from)

lemma small_roundtrips [simp]:
  "restored_buffer_attachment (persisted_buffer_attachment a) = a"
  "restored_activity (persisted_activity_of act) = act"
  "restored_split_direction (persisted_split_direction_of d) = d"
  by (cases a; cases act; cases d; simp)+

lemma buffer_roundtrip: "restored_buffer (persisted_buffer_of b) = Ok (reloaded_buffer b)"
  by (cases "bu_placement b")
    (simp_all add: restored_buffer_def persisted_buffer_of_def state_roundtrip millis_from kind_roundtrip
      reloaded_buffer_def buffer_new_def set_placement_def)

lemma node_roundtrip: "restored_node (persisted_node_of nd) = reloaded_node nd"
  by (cases nd) (simp_all add: tab_entry_new_def o_def)

lemma floating_roundtrip: "restored_floating (persisted_floating_of f) = f"
  by (simp add: restored_floating_def persisted_floating_of_def)

section \<open>Maps\<close>

lemma restore_fold:
  assumes "\<And>k v. (k, v) \<in> set es \<Longrightarrow> restore (p v) = Ok (g v) \<and> id_of (g v) = k"
    and "distinct (map fst es)" and "\<And>k. k \<in> fst ` set es \<Longrightarrow> bt_get m k = None"
  shows "fold_ok (\<lambda>x m. rbind (restore x) (\<lambda>v.
        if bt_contains m (id_of v) then Err (Internal (DuplicateId kind)) else Ok (bt_insert (id_of v) v m)))
       (map (\<lambda>e. p (snd e)) es) m = Ok (fold (\<lambda>(k, v). bt_insert k v) (map (\<lambda>(k, v). (k, g v)) es) m)"
  using assms
proof (induction es arbitrary: m)
  case (Cons e es)
  obtain k v where e: "e = (k, v)" by (cases e)
  have "restore (p v) = Ok (g v)" "id_of (g v) = k" "bt_get m k = None" using Cons.prems e by auto
  moreover have "bt_get (bt_insert k (g v) m) k' = None" if "k' \<in> fst ` set es" for k'
  proof -
    have "k' \<noteq> k" using that Cons.prems(2) e by auto
    then show ?thesis using Cons.prems(3) [of k'] that by simp
  qed
  then have "fold_ok (\<lambda>x m. rbind (restore x) (\<lambda>v.
        if bt_contains m (id_of v) then Err (Internal (DuplicateId kind)) else Ok (bt_insert (id_of v) v m)))
       (map (\<lambda>e. p (snd e)) es) (bt_insert k (g v) m) =
      Ok (fold (\<lambda>(k, v). bt_insert k v) (map (\<lambda>(k, v). (k, g v)) es) (bt_insert k (g v) m))"
    by (intro Cons.IH) (use Cons.prems in auto)
  ultimately show ?case by (simp add: e)
qed simp

lemma restore_all_values:
  assumes "\<And>k v. bt_get m k = Some v \<Longrightarrow> restore (p v) = Ok (g v) \<and> id_of (g v) = k"
  shows "restore_all kind restore id_of (map p (bt_values m)) = Ok (bt_map_values g m)"
proof -
  have d: "distinct (map fst (bt_entries m))" by (rule bt.ents_distinct)
  have es: "restore (p v) = Ok (g v) \<and> id_of (g v) = k" if "(k, v) \<in> set (bt_entries m)" for k v
    by (rule assms) (use that in \<open>simp add: bt.in_ents_iff\<close>)
  have "restore_all kind restore id_of (map p (bt_values m)) =
      Ok (fold (\<lambda>(k, v). bt_insert k v) (map (\<lambda>(k, v). (k, g v)) (bt_entries m)) bt_empty)"
    using restore_fold [where es = "bt_entries m" and restore = restore and p = p and g = g and id_of = id_of
        and m = bt_empty and kind = kind, OF es d bt.get_emp]
    by (simp only: restore_all_def bt_values_def map_map o_def)
  moreover have "fold (\<lambda>(k, v). bt_insert k v) (map (\<lambda>(k, v). (k, g v)) (bt_entries m)) bt_empty = bt_map_values g m"
  proof (rule bt.map_ext)
    have "distinct (map fst (map (\<lambda>(k, v). (k, g v)) (bt_entries m)))" using d by (simp add: o_def case_prod_unfold)
    then show "bt_get (fold (\<lambda>(k, v). bt_insert k v) (map (\<lambda>(k, v). (k, g v)) (bt_entries m)) bt_empty) k =
        bt_get (bt_map_values g m) k" for k
      by (subst bt_extend_fold) (simp_all add: map_of_map_values bt.get_ents [of m, symmetric] split: option.split)
  qed
  ultimately show ?thesis by simp
qed

lemma keys_map_values [simp]: "bt_keys (bt_map_values f m) = bt_keys m"
proof -
  have "sorted_wrt (<) (bt_keys (bt_map_values f m))" "sorted_wrt (<) (bt_keys m)" by (rule bt_keys_sorted)+
  moreover have "set (bt_keys (bt_map_values f m)) = set (bt_keys m)" by auto
  ultimately show ?thesis by (metis strict_sorted_equal)
qed

lemma checked_next: "(\<And>i. i \<in> set ids \<Longrightarrow> i < u64_max) \<Longrightarrow> next_id_after_max ids = Some (next_id ids)"
proof -
  assume "\<And>i. i \<in> set ids \<Longrightarrow> i < u64_max"
  moreover have "0 < B \<Longrightarrow> (\<And>i. i \<in> set js \<Longrightarrow> i < B) \<Longrightarrow> foldr max js 0 < B" for js :: "nat list" and B
    by (induction js) auto
  moreover have "0 < u64_max" by (simp add: u64_max_def)
  ultimately have "foldr max ids 0 < u64_max" by blast
  then show ?thesis by (simp add: next_id_after_max_def next_id_def Let_def)
qed

section \<open>The loaded state is consistent\<close>

lemma reloaded_simps [simp]:
  "bt_get (nodes (reloaded s)) n = map_option reloaded_node (bt_get (nodes s) n)"
  "bt_get (sessions (reloaded s)) sid = map_option reloaded_session (bt_get (sessions s) sid)"
  "bt_get (buffers (reloaded s)) bid = map_option reloaded_buffer (bt_get (buffers s) bid)"
  "floating (reloaded s) = floating s"
  by (simp_all add: reloaded_def)

lemma reloaded_session_simps [simp]:
  "se_id (reloaded_session se) = se_id se" "se_root_node (reloaded_session se) = se_root_node se"
  "se_floating (reloaded_session se) = se_floating se" "se_focused_leaf (reloaded_session se) = se_focused_leaf se"
  "se_zoomed_node (reloaded_session se) = se_zoomed_node se" "bu_attachment (reloaded_buffer b) = bu_attachment b"
  "bu_id (reloaded_buffer b) = bu_id b"
  by (simp_all add: reloaded_session_def reloaded_buffer_def)

lemma reloaded_node_simps [simp]:
  "cell_of (reloaded_node nd) = cell_of nd" "node_id_of (reloaded_node nd) = node_id_of nd"
  "node_par (reloaded_node nd) = node_par nd" "well_shaped (reloaded_node nd) = well_shaped nd"
  "reloaded_node nd = BufferView v \<longleftrightarrow> nd = BufferView v" "is_tabs (reloaded_node nd) = is_tabs nd"
  by (cases nd; auto simp: cell_of_def)+

lemma reloaded_layout [simp]: "layout (reloaded s) = layout s"
  by (rule ext) (simp add: layout_def option.map_comp o_def)

lemma reloaded_views [simp]: "is_view (reloaded s) n = is_view s n"
  by (simp add: is_view_def)

lemma reloaded_showing [simp]: "showing (reloaded s) = showing s"
proof -
  have "(\<forall>tb. bt_get (nodes (reloaded s)) p = Some (Tabs tb) \<longrightarrow> active_child tb = Some n) \<longleftrightarrow>
      (\<forall>tb. bt_get (nodes s) p = Some (Tabs tb) \<longrightarrow> active_child tb = Some n)" for n p
  proof (cases "bt_get (nodes s) p")
    case (Some nd)
    then show ?thesis by (cases nd) (auto simp: active_child_def vec_get_def split: if_splits)
  qed simp
  then show ?thesis by (simp add: showing_def)
qed

lemma reloaded_owners [simp]: "owner_root (reloaded s) r = owner_root s r" "pane_root (reloaded s) sid r = pane_root s sid r"
  "owned (reloaded s) n = owned s n"
proof -
  show r: "owner_root (reloaded s) r = owner_root s r" for r
    unfolding owner_root_def by (simp, metis reloaded_session_simps(2))
  show "pane_root (reloaded s) sid r = pane_root s sid r" by (auto simp: pane_root_def)
  show "owned (reloaded s) n = owned s n" by (simp add: owned_def r)
qed

lemma reloaded_visible [simp]: "visible_in (reloaded s) sid n = visible_in s sid n"
  by (simp add: visible_in_def)

lemma reloaded_consistent: "consistent s \<Longrightarrow> consistent (reloaded s)"
  unfolding consistent_def structure_ok_def
proof (elim conjE, intro conjI)
  show "attach_ok s \<Longrightarrow> attach_ok (reloaded s)" by (auto simp: attach_ok_def)
  show "views_ok s \<Longrightarrow> views_ok (reloaded s)" by (fastforce simp: views_ok_def)
  show "sessions_ok s \<Longrightarrow> sessions_ok (reloaded s)" by (auto simp: sessions_ok_def)
  show "floating_ok s \<Longrightarrow> floating_ok (reloaded s)" by (fastforce simp: floating_ok_def)
  show "shapes_ok s \<Longrightarrow> shapes_ok (reloaded s)" by (auto simp: shapes_ok_def)
  show "shown_buffers_ok s \<Longrightarrow> shown_buffers_ok (reloaded s)" by (fastforce simp: shown_buffers_ok_def)
  show "attention_ok s \<Longrightarrow> attention_ok (reloaded s)" by (auto simp: attention_ok_def)
  show "strays_ok s \<Longrightarrow> strays_ok (reloaded s)"
    unfolding strays_ok_def
  proof (intro allI impI)
    fix n nd
    assume a: "\<forall>n nd. bt_get (nodes s) n = Some nd \<longrightarrow> node_par nd = None \<longrightarrow> \<not> owner_root s n \<longrightarrow> (\<exists>tb. nd = Tabs tb \<and> tb_tabs tb = [])"
      and n: "bt_get (nodes (reloaded s)) n = Some nd" "node_par nd = None" "\<not> owner_root (reloaded s) n"
    obtain md where md: "bt_get (nodes s) n = Some md" "nd = reloaded_node md" using n(1) by auto
    then obtain tb where "md = Tabs tb" "tb_tabs tb = []" using a n(2,3) by fastforce
    then show "\<exists>tb. nd = Tabs tb \<and> tb_tabs tb = []" using md(2) by simp
  qed
qed simp_all

lemma reloaded_keyed: "keyed s \<Longrightarrow> keyed (reloaded s)"
  by (fastforce simp: keyed_def)

section \<open>Round trip\<close>

lemma no_untabbed: "sessions_ok s \<Longrightarrow> untabbed_roots s = []"
  unfolding untabbed_roots_def
proof -
  assume ok: "sessions_ok s"
  have "\<not> (case bt_get (nodes s) (se_root_node se) of Some nd \<Rightarrow> \<not> is_tabs nd | None \<Rightarrow> False)" if "se \<in> set (bt_values (sessions s))" for se
  proof -
    obtain sid where "bt_get (sessions s) sid = Some se" using \<open>se \<in> _\<close> by (auto simp: bt_values_iff)
    then obtain c where "layout s (se_root_node se) = Some c" "ce_kind c = KTabs" using sessions_okD(3) [OF ok] by blast
    then obtain nd where "bt_get (nodes s) (se_root_node se) = Some nd" "kind_of nd = KTabs" by (auto simp: layout_Some cell_of_def)
    then show ?thesis by (cases nd) simp_all
  qed
  then show "map se_root_node (filter (\<lambda>se.
       (case bt_get (nodes s) (se_root_node se) of Some nd \<Rightarrow> \<not> is_tabs nd | None \<Rightarrow> False)) (bt_values (sessions s))) = []"
    by (simp add: filter_empty_conv)
qed

lemma floating_references:
  assumes "keyed s"
  shows "all_ok (check_floating_reference (bt_map_values reloaded_session (sessions s))) (bt_entries (floating s)) = Ok ()"
proof -
  have "check_floating_reference (bt_map_values reloaded_session (sessions s)) e = Ok ()" if "e \<in> set (bt_entries (floating s))" for e
  proof -
    obtain fid f where e: "e = (fid, f)" by (cases e)
    then have "bt_get (floating s) fid = Some f" using that by (simp add: bt.in_ents_iff)
    then obtain se where "bt_get (sessions s) (fw_session_id f) = Some se" "fid \<in> set (se_floating se)"
      using assms unfolding keyed_def by blast
    then show ?thesis using e by (simp add: check_floating_reference_def)
  qed
  moreover have "all_ok h xs = Ok ()" if "\<And>x. x \<in> set xs \<Longrightarrow> h x = Ok ()" for h :: "floating_id \<times> floating_window \<Rightarrow> unit res" and xs
    using that by (induction xs) simp_all
  ultimately show ?thesis by blast
qed

lemma map_values_same: "(\<And>v. g v = v) \<Longrightarrow> bt_map_values g m = m"
  by (rule bt.map_ext) (simp add: option.map_ident_strong)

lemma persist_roundtrip:
  assumes k: "keyed s" and v: "validate s = Ok ()" and st: "storable s"
  shows "load_persisted (to_persisted s) = Ok (reloaded s)"
proof -
  let ?w = "to_persisted s"
  have c: "consistent s" using validate_iff [OF k] v by simp
  have kd: "bt_get (nodes s) n = Some nd \<Longrightarrow> node_id_of nd = n" "bt_get (sessions s) sid = Some se \<Longrightarrow> se_id se = sid"
    "bt_get (floating s) fid = Some f \<Longrightarrow> fw_id f = fid" "bt_get (buffers s) bid = Some b \<Longrightarrow> bu_id b = bid" for n nd sid se fid f bid b
    using k st by (auto simp: keyed_def storable_def)
  have m: "restore_all SessionEntity restored_session se_id (pw_sessions ?w) = Ok (bt_map_values reloaded_session (sessions s))"
    "restore_all BufferEntity restored_buffer bu_id (pw_buffers ?w) = Ok (bt_map_values reloaded_buffer (buffers s))"
    "restore_all NodeEntity (\<lambda>p. Ok (restored_node p)) node_id_of (pw_nodes ?w) = Ok (bt_map_values reloaded_node (nodes s))"
    "restore_all FloatingEntity (\<lambda>p. Ok (restored_floating p)) fw_id (pw_floating ?w) = Ok (bt_map_values (\<lambda>f. f) (floating s))"
    unfolding to_persisted_def persisted_workspace.simps
    by (rule restore_all_values; simp add: session_roundtrip buffer_roundtrip node_roundtrip floating_roundtrip kd)+
  have ids: "next_id_after_max (bt_keys (sessions s)) = Some (next_id (bt_keys (sessions s)))"
    "next_id_after_max (bt_keys (buffers s)) = Some (next_id (bt_keys (buffers s)))"
    "next_id_after_max (bt_keys (nodes s)) = Some (next_id (bt_keys (nodes s)))"
    "next_id_after_max (bt_keys (floating s)) = Some (next_id (bt_keys (floating s)))"
    by (rule checked_next; use st in \<open>auto simp: storable_def\<close>)+
  have w: "pw_next_session_id ?w = next_id (bt_keys (sessions s))" "pw_next_buffer_id ?w = next_id (bt_keys (buffers s))"
    "pw_next_node_id ?w = next_id (bt_keys (nodes s))" "pw_next_floating_id ?w = next_id (bt_keys (floating s))"
    by (simp_all add: to_persisted_def ids or_max_def)
  have cr: "consistent (reloaded s)" by (rule reloaded_consistent [OF c])
  then have "sessions_ok (reloaded s)" by (simp add: consistent_def structure_ok_def)
  then have run: "wrap_untabbed_session_roots (reloaded s) = (Ok (), reloaded s)"
    by (simp add: wrap_untabbed_session_roots_def bind_run step_run resume_run no_untabbed)
  have "validate (reloaded s) = Ok ()" using validate_iff [OF reloaded_keyed [OF k]] cr by simp
  then have "fst (pbind wrap_untabbed_session_roots (\<lambda>_. pbind (reads validate) (\<lambda>_. gets (\<lambda>s. s))) (reloaded s)) = Ok (reloaded s)"
    by (simp add: bind_run run step_run resume_run)
  then have "from_persisted ?w = Ok (reloaded s)"
    unfolding from_persisted_def m map_values_same [of "\<lambda>f. f", OF refl] rbind.simps floating_references [OF k] checked_next_id_def keys_map_values ids ok_or.simps w
    by (simp add: reloaded_def Let_def)
  moreover have "load_current_workspace ?w = Ok ?w"
    by (simp add: load_current_workspace_def to_persisted_def)
  ultimately show ?thesis by (simp add: load_persisted_def)
qed

section \<open>Whatever loads is consistent\<close>

lemma rbind_OkE:
  assumes "rbind r f = Ok y"
  obtains x where "r = Ok x" "f x = Ok y"
  using assms by (cases r) simp_all

lemma restore_all_keyed:
  assumes "restore_all kind restore id_of ps = Ok m" and "bt_get m k = Some v"
  shows "id_of v = k"
proof -
  have "fold_ok (\<lambda>p m. rbind (restore p) (\<lambda>v.
        if bt_contains m (id_of v) then Err (Internal (DuplicateId kind)) else Ok (bt_insert (id_of v) v m))) ps a = Ok m \<Longrightarrow>
      (\<And>k v. bt_get a k = Some v \<Longrightarrow> id_of v = k) \<Longrightarrow> bt_get m k = Some v \<Longrightarrow> id_of v = k" for a
  proof (induction ps arbitrary: a)
    case (Cons p ps)
    from Cons.prems(1) obtain x where x: "restore p = Ok x" "bt_get a (id_of x) = None"
      "fold_ok (\<lambda>p m. rbind (restore p) (\<lambda>v.
        if bt_contains m (id_of v) then Err (Internal (DuplicateId kind)) else Ok (bt_insert (id_of v) v m))) ps (bt_insert (id_of x) x a) = Ok m"
      by (auto elim!: rbind_OkE split: if_splits)
    show ?case by (rule Cons.IH [OF x(3) _ Cons.prems(3)]) (use Cons.prems(2) in \<open>auto split: if_splits\<close>)
  qed simp
  from this [of bt_empty] show ?thesis using assms by (simp add: restore_all_def)
qed

lemma keyed_writes:
  assumes "keyed s"
  shows "node_id_of nd = n \<Longrightarrow> keyed (s\<lparr>nodes := bt_insert n nd (nodes s)\<rparr>)" "keyed (s\<lparr>node_ids := i\<rparr>)"
  using assms by (auto simp: keyed_def)

lemma keyed_put_node: "node_id_of nd = n \<Longrightarrow> preserves keyed (put_node n nd)"
  by (simp add: preserves_def put_node_run keyed_writes)

lemma keyed_steps [frame]:
  "preserves keyed (set_parent n p)" "preserves keyed next_node_id"
  "preserves keyed (session_mut sid (\<lambda>se. se\<lparr>se_root_node := r\<rparr>))" "preserves keyed (floating_mut fid (\<lambda>f. f\<lparr>fw_root_node := r\<rparr>))"
proof -
  show "preserves keyed (set_parent n p)"
    by (auto simp: preserves_def set_parent_def node_mut_run keyed_def split: option.split)
  show "preserves keyed next_node_id"
    by (simp add: preserves_def next_node_id_def keyed_writes)
  show "preserves keyed (session_mut sid (\<lambda>se. se\<lparr>se_root_node := r\<rparr>))"
    by (fastforce simp: preserves_def session_mut_run keyed_def split: option.split)
  show "preserves keyed (floating_mut fid (\<lambda>f. f\<lparr>fw_root_node := r\<rparr>))"
    by (auto simp: preserves_def floating_mut_run keyed_def split: option.split)
qed

lemma keyed_repoint [frame]: "preserves keyed (repoint_owner_reference sid owner old_node new_node)"
proof (cases owner)
  case (Some parent)
  show ?thesis
    unfolding repoint_owner_reference_def Some option.case
  proof (rule preserves_state_node)
    fix s nd
    assume k: "keyed s" and nd: "bt_get (nodes s) parent = Some nd"
    then have i: "node_id_of nd = parent" by (auto simp: keyed_def)
    show "keyed (snd (pbind (case nd of
              BufferView v \<Rightarrow> raise (InvalidInput ViewsCannotOwnChildren)
            | Split sp \<Rightarrow>
                (case child_position old_node (sp_children sp) of
                   None \<Rightarrow> raise (NotFound (NotChildOfSplit old_node parent))
                 | Some index \<Rightarrow> put_node parent (Split (sp\<lparr>sp_children := (sp_children sp)[index := new_node]\<rparr>)))
            | Tabs tb \<Rightarrow>
                (case tab_position old_node (tb_tabs tb) of
                   None \<Rightarrow> raise (NotFound (NotTabChildOf old_node parent))
                 | Some index \<Rightarrow>
                     put_node parent (Tabs (tb\<lparr>tb_tabs := (tb_tabs tb)[index := (tb_tabs tb ! index)\<lparr>te_child := new_node\<rparr>]\<rparr>))))
           (\<lambda>_. set_parent new_node (Some parent)) s))"
      by (rule preserves_at [where P = keyed and s = s, OF _ k]) (use i in \<open>cases nd; auto intro!: frame keyed_put_node\<close>)
  qed
next
  case None
  then show ?thesis unfolding repoint_owner_reference_def None option.case by (intro frame)
qed

lemma keyed_wrap [frame]: "preserves keyed wrap_untabbed_session_roots"
  unfolding wrap_untabbed_session_roots_def wrap_node_in_tabs_def
  by (intro frame keyed_put_node) simp

lemma from_persisted_consistent:
  assumes "from_persisted w = Ok s"
  shows "keyed s \<and> consistent s"
proof -
  from assms obtain a where a: "keyed a"
    "fst (pbind wrap_untabbed_session_roots (\<lambda>_. pbind (reads validate) (\<lambda>_. gets (\<lambda>s. s))) a) = Ok s"
    unfolding from_persisted_def
  proof (elim rbind_OkE)
    fix sess bufs nods floats i1 i2 i3 i4 and u :: unit
    assume sess: "restore_all SessionEntity restored_session se_id (pw_sessions w) = Ok sess"
      and nods: "restore_all NodeEntity (\<lambda>p. Ok (restored_node p)) node_id_of (pw_nodes w) = Ok nods"
      and floats: "restore_all FloatingEntity (\<lambda>p. Ok (restored_floating p)) fw_id (pw_floating w) = Ok floats"
      and refs: "all_ok (check_floating_reference sess) (bt_entries floats) = Ok u"
    let ?a = "\<lparr>sessions = sess, buffers = bufs, nodes = nods, floating = floats,
              environment = environment_default, last_viewport = None, last_pane_titles = False,
              last_base_index = None, default_remain_on_exit = Off,
              session_ids = max (pw_next_session_id w) i1, buffer_ids = max (pw_next_buffer_id w) i2,
              node_ids = max (pw_next_node_id w) i3, floating_ids = max (pw_next_floating_id w) i4\<rparr>"
    assume run: "(let s = ?a in fst (pbind wrap_untabbed_session_roots (\<lambda>_. pbind (reads validate) (\<lambda>_. gets (\<lambda>s. s))) s)) = Ok s"
    have all: "h x = Ok ()" if "all_ok h xs = Ok v" "x \<in> set xs" for h :: "floating_id \<times> floating_window \<Rightarrow> unit res" and xs x v
      using that by (induction xs) (auto elim!: rbind_OkE)
    have "\<exists>se. bt_get sess (fw_session_id f) = Some se \<and> fid \<in> set (se_floating se)" if "bt_get floats fid = Some f" for fid f
      using all [OF refs, of "(fid, f)"] that by (auto simp: bt.in_ents_iff check_floating_reference_def split: option.splits if_splits)
    then have "keyed ?a"
      using restore_all_keyed [OF sess] restore_all_keyed [OF nods] restore_all_keyed [OF floats] by (simp add: keyed_def)
    then show thesis using that [of ?a] run by (simp add: Let_def)
  qed
  obtain r t where r: "wrap_untabbed_session_roots a = (r, t)" by fastforce
  have k: "keyed t" using preserves_at [OF keyed_wrap a(1)] r by simp
  have "r = Ok () \<and> validate t = Ok () \<and> t = s"
    using a(2) r by (cases r; cases "validate t") (simp_all add: bind_run step_run resume_run)
  then show ?thesis using k validate_iff [OF k] by blast
qed

lemma load_persisted_consistent: "load_persisted w = Ok s \<Longrightarrow> keyed s \<and> consistent s"
  unfolding load_persisted_def by (elim rbind_OkE) (rule from_persisted_consistent)

section \<open>When a save is due\<close>

definition forget_activity :: "persisted_workspace \<Rightarrow> persisted_workspace" where
  "forget_activity w = w\<lparr>pw_buffers := map (\<lambda>b. b\<lparr>pb_activity := PersistedIdle\<rparr>) (pw_buffers w)\<rparr>"

lemma same_saved_state_iff: "same_saved_state a b \<longleftrightarrow> forget_activity a = forget_activity b"
proof -
  have one: "x\<lparr>pb_activity := pb_activity y\<rparr> = y \<longleftrightarrow> x\<lparr>pb_activity := PersistedIdle\<rparr> = y\<lparr>pb_activity := PersistedIdle\<rparr>"
    for x y :: persisted_buffer by (cases x; cases y) auto
  have "length xs = length ys \<and> list_all (\<lambda>(x, y). x\<lparr>pb_activity := pb_activity y\<rparr> = y) (zip xs ys) \<longleftrightarrow>
      map (\<lambda>b. b\<lparr>pb_activity := PersistedIdle\<rparr>) xs = map (\<lambda>b. b\<lparr>pb_activity := PersistedIdle\<rparr>) ys"
    for xs ys :: "persisted_buffer list"
    unfolding one by (induction xs ys rule: list_induct2') auto
  then show ?thesis
    by (cases a; cases b) (auto simp: same_saved_state_def forget_activity_def)
qed

text \<open>A newer format than the current one is refused; the current one is not migrated.\<close>

lemma load_newer: "pw_format_version w = Some v \<Longrightarrow> current_format_version < v \<Longrightarrow> load_persisted w = Err (Internal (UnsupportedVersion v))"
  by (simp add: load_persisted_def load_current_workspace_def migrate_workspace_def current_format_version_def
      legacy_format_version_def first_versioned_format_version_def)

lemma sample_storable: "storable sample_state"
proof -
  have "\<forall>bid b. bt_get (buffers sample_state) bid = Some b \<longrightarrow> bu_id b = bid"
    by (auto simp: sample_eval split: if_splits cong: run_congs)
  moreover have "i < u64_max" if "i \<in> set (bt_keys (sessions sample_state)) \<union> set (bt_keys (buffers sample_state)) \<union>
      set (bt_keys (nodes sample_state)) \<union> set (bt_keys (floating sample_state))" for i
  proof -
    have "i < max (max (session_ids sample_state) (buffer_ids sample_state)) (max (node_ids sample_state) (floating_ids sample_state))"
      using that idsD [OF goodD(13) [OF sample_good]] by (auto simp: less_max_iff_disj)
    then show ?thesis using sample_ids by (simp add: u64_max_def)
  qed
  ultimately show ?thesis unfolding storable_def by blast
qed

end
