(* ===== verification/Client_Keys.thy ===== *)
theory Client_Keys
  imports Embers_Prelude "HOL-Library.Word"
begin

text \<open>
  Keys of the client (\<open>crates/embers-client/src/input/encoding.rs\<close> and \<open>keyparse.rs\<close>): logical keys and
  modifiers, their encoding as the bytes a program reads, and the notation of key sequences in bindings.
  The lemmas show that the encodings are bytes, that a program that asked for every key as an escape
  sequence can tell the keys apart, and which key sequences the notation can express.
\<close>

unbundle bit_operations_syntax

section \<open>Characters\<close>

definition is_ascii :: "nat \<Rightarrow> bool" where
  "is_ascii c \<longleftrightarrow> c < 128"

definition is_ascii_uppercase :: "nat \<Rightarrow> bool" where
  "is_ascii_uppercase c \<longleftrightarrow> 65 \<le> c \<and> c \<le> 90"

definition is_ascii_lowercase :: "nat \<Rightarrow> bool" where
  "is_ascii_lowercase c \<longleftrightarrow> 97 \<le> c \<and> c \<le> 122"

definition char_lower :: "nat \<Rightarrow> nat" where
  "char_lower c = (if is_ascii_uppercase c then c + 32 else c)"

definition char_upper :: "nat \<Rightarrow> nat" where
  "char_upper c = (if is_ascii_lowercase c then c - 32 else c)"

text \<open>Unicode scalar values are below \<open>0x110000\<close>.\<close>

definition encode_utf8 :: "nat \<Rightarrow> nat list" where
  "encode_utf8 c =
     (if c < 128 then [c]
      else if c < 2048 then [192 + c div 64, 128 + c mod 64]
      else if c < 65536 then [224 + c div 4096, 128 + c div 64 mod 64, 128 + c mod 64]
      else [240 + c div 262144, 128 + c div 4096 mod 64, 128 + c div 64 mod 64, 128 + c mod 64])"

text \<open>Unsigned integers in decimal, as \<open>format!\<close> writes them.\<close>

fun decimal :: "nat \<Rightarrow> nat list" where
  "decimal n = (if n < 10 then [48 + n] else decimal (n div 10) @ [48 + n mod 10])"

declare decimal.simps [simp del]

section \<open>Keys and modifiers\<close>

record modifiers =
  shift :: bool
  alt :: bool
  ctrl :: bool
  super :: bool

definition mods_none :: modifiers where
  "mods_none = \<lparr>shift = False, alt = False, ctrl = False, super = False\<rparr>"

definition mods_is_empty :: "modifiers \<Rightarrow> bool" where
  "mods_is_empty m \<longleftrightarrow> \<not> shift m \<and> \<not> alt m \<and> \<not> ctrl m \<and> \<not> super m"

definition kitty_code :: "modifiers \<Rightarrow> nat" where
  "kitty_code m =
     (if shift m then 1 else 0) + (if alt m then 2 else 0) + (if ctrl m then 4 else 0) + (if super m then 8 else 0) + 1"

datatype key_code =
    KeyChar nat
  | KeyEnter
  | KeyTab
  | KeyBackspace
  | KeyEscape
  | KeyUp
  | KeyDown
  | KeyLeft
  | KeyRight
  | KeyHome
  | KeyEnd
  | KeyInsert
  | KeyDelete
  | KeyPageUp
  | KeyPageDown
  | KeyFunction nat

section \<open>Encoding\<close>

definition mode_disambiguates :: "8 word \<Rightarrow> bool" where
  "mode_disambiguates mode \<longleftrightarrow> mode AND 1 \<noteq> 0"

definition mode_reports_all_keys :: "8 word \<Rightarrow> bool" where
  "mode_reports_all_keys mode \<longleftrightarrow> mode AND 8 \<noteq> 0"

definition kitty_key_number :: "key_code \<Rightarrow> nat option" where
  "kitty_key_number code =
     (case code of
        KeyChar ch \<Rightarrow> Some ch
      | KeyEnter \<Rightarrow> Some 13
      | KeyTab \<Rightarrow> Some 9
      | KeyBackspace \<Rightarrow> Some 127
      | KeyEscape \<Rightarrow> Some 27
      | _ \<Rightarrow> None)"

text \<open>\<open>ESC [\<close>, the parameters and the final byte of a control sequence.\<close>

definition with_modifier :: "nat \<Rightarrow> nat \<Rightarrow> nat list" where
  "with_modifier modifier letter =
     (if modifier = 1 then [27, 91, letter] else [27, 91, 49, 59] @ decimal modifier @ [letter])"

definition tilde :: "nat \<Rightarrow> nat \<Rightarrow> nat list" where
  "tilde modifier number =
     (if modifier = 1 then [27, 91] @ decimal number @ [126]
      else [27, 91] @ decimal number @ [59] @ decimal modifier @ [126])"

definition function_key_csi :: "nat \<Rightarrow> nat \<Rightarrow> nat list option" where
  "function_key_csi n modifier =
     (if 1 \<le> n \<and> n \<le> 4 then
        let letter = [80, 81, 82, 83] ! (n - 1) in
        Some (if modifier = 1 then [27, 79, letter]
              else if n = 3 then [27, 91, 49, 51, 59] @ decimal modifier @ [126]
              else [27, 91, 49, 59] @ decimal modifier @ [letter])
      else if 5 \<le> n \<and> n \<le> 12 then
        Some (tilde modifier ([15, 17, 18, 19, 20, 21, 23, 24] ! (n - 5)))
      else None)"

definition functional_csi :: "key_code \<Rightarrow> modifiers \<Rightarrow> nat list option" where
  "functional_csi code mods =
     (let modifier = kitty_code mods in
      case code of
        KeyUp \<Rightarrow> Some (with_modifier modifier 65)
      | KeyDown \<Rightarrow> Some (with_modifier modifier 66)
      | KeyRight \<Rightarrow> Some (with_modifier modifier 67)
      | KeyLeft \<Rightarrow> Some (with_modifier modifier 68)
      | KeyHome \<Rightarrow> Some (with_modifier modifier 72)
      | KeyEnd \<Rightarrow> Some (with_modifier modifier 70)
      | KeyInsert \<Rightarrow> Some (tilde modifier 2)
      | KeyDelete \<Rightarrow> Some (tilde modifier 3)
      | KeyPageUp \<Rightarrow> Some (tilde modifier 5)
      | KeyPageDown \<Rightarrow> Some (tilde modifier 6)
      | KeyFunction n \<Rightarrow> function_key_csi n modifier
      | _ \<Rightarrow> None)"

text \<open>The low five bits of a letter or of one of \<open>[ \ ] ^ _\<close>; the fixed conventions for the rest.\<close>

definition ctrl_byte :: "nat \<Rightarrow> nat option" where
  "ctrl_byte ch =
     (if ch \<in> {32, 50, 64} then Some 0
      else if ch = 51 then Some 27
      else if ch = 52 then Some 28
      else if ch = 53 then Some 29
      else if ch = 54 then Some 30
      else if ch \<in> {55, 47, 45} then Some 31
      else if ch \<in> {56, 63} then Some 127
      else if is_ascii_lowercase ch \<or> is_ascii_uppercase ch \<or> ch \<in> {91, 92, 93, 94, 95}
      then Some (char_upper ch mod 32)
      else None)"

definition encode_legacy :: "key_code \<Rightarrow> modifiers \<Rightarrow> nat list" where
  "encode_legacy code mods =
     (case functional_csi code mods of
        Some sequence \<Rightarrow> sequence
      | None \<Rightarrow>
          (case code of
             KeyChar ch \<Rightarrow>
               let ch = (if shift mods then char_upper ch else ch);
                   body = (case (if ctrl mods then ctrl_byte ch else None) of
                             Some byte \<Rightarrow> [byte]
                           | None \<Rightarrow> encode_utf8 ch)
               in (if alt mods then [27] else []) @ body
           | KeyEnter \<Rightarrow> (if alt mods then [27] else []) @ [13]
           | KeyTab \<Rightarrow> (if alt mods then [27] else []) @ (if shift mods then [27, 91, 90] else [9])
           | KeyBackspace \<Rightarrow> (if alt mods then [27] else []) @ [127]
           | KeyEscape \<Rightarrow> (if alt mods then [27] else []) @ [27]
           | _ \<Rightarrow> []))"

fun is_char :: "key_code \<Rightarrow> bool" where
  "is_char (KeyChar _) = True"
| "is_char _ = False"

definition encode_kitty :: "key_code \<Rightarrow> modifiers \<Rightarrow> 8 word \<Rightarrow> nat list" where
  "encode_kitty code mods mode =
     (case functional_csi code mods of
        Some sequence \<Rightarrow> sequence
      | None \<Rightarrow>
          (case kitty_key_number code of
             None \<Rightarrow> encode_legacy code mods
           | Some number \<Rightarrow>
               let shift_only_text = is_char code \<and> mods = mods_none\<lparr>shift := True\<rparr> in
               if (mods_is_empty mods \<or> shift_only_text) \<and> \<not> mode_reports_all_keys mode
               then encode_legacy code mods
               else
                 let modifiers = kitty_code mods in
                 if modifiers = 1 then [27, 91] @ decimal number @ [117]
                 else [27, 91] @ decimal number @ [59] @ decimal modifiers @ [117]))"

definition encode_key :: "key_code \<Rightarrow> modifiers \<Rightarrow> 8 word \<Rightarrow> nat list" where
  "encode_key code mods mode =
     (if mode_disambiguates mode \<or> mode_reports_all_keys mode then encode_kitty code mods mode
      else encode_legacy code mods)"

section \<open>The encodings are bytes\<close>

lemma decimal_digits: "d \<in> set (decimal n) \<Longrightarrow> 48 \<le> d \<and> d \<le> 57"
  by (induction n rule: decimal.induct) (subst (asm) (2) decimal.simps, auto split: if_splits)

lemma decimal_bytes: "list_all (\<lambda>b. b < 256) (decimal n)"
  using decimal_digits [of _ n] by (fastforce simp: list_all_iff)

lemma utf8_bytes: "c < 1114112 \<Longrightarrow> list_all (\<lambda>b. b < 256) (encode_utf8 c)"
proof -
  assume c: "c < 1114112"
  have m: "x mod 64 < 128" for x :: nat by (rule less_trans [of _ 64]) simp_all
  have "c < 2048 \<Longrightarrow> c div 64 < 64" "c < 65536 \<Longrightarrow> c div 4096 < 32" "c div 262144 < 16"
    using c by (simp_all add: div_less_iff_less_mult)
  with m show ?thesis by (auto simp: encode_utf8_def)
qed

lemma kitty_code_range: "1 \<le> kitty_code m" "kitty_code m \<le> 16"
  by (simp_all add: kitty_code_def)

lemma functional_bytes: "functional_csi code mods = Some bs \<Longrightarrow> list_all (\<lambda>b. b < 256) bs"
  by (cases code)
    (auto simp: functional_csi_def Let_def with_modifier_def tilde_def function_key_csi_def decimal_bytes nth_Cons'
      split: if_splits)

lemma ctrl_byte_range: "ctrl_byte ch = Some b \<Longrightarrow> b < 32 \<or> b = 127"
  by (auto simp: ctrl_byte_def split: if_splits)

lemma legacy_bytes:
  assumes "\<And>ch. code = KeyChar ch \<Longrightarrow> ch < 1114112"
  shows "list_all (\<lambda>b. b < 256) (encode_legacy code mods)"
proof (cases "functional_csi code mods")
  case (Some bs)
  then show ?thesis using functional_bytes by (simp add: encode_legacy_def)
next
  case None
  have "list_all (\<lambda>b. b < 256) (case (if ctrl mods then ctrl_byte c else None) of Some byte \<Rightarrow> [byte] | None \<Rightarrow> encode_utf8 c)"
    if "c < 1114112" for c
    using utf8_bytes [OF that] ctrl_byte_range [of c] by (fastforce split: option.split)
  moreover have "char_upper c < 1114112" if "c < 1114112" for c using that by (auto simp: char_upper_def)
  ultimately show ?thesis using None assms by (cases code) (auto simp: encode_legacy_def Let_def)
qed

section \<open>Keys reported as escape sequences\<close>

text \<open>
  A control sequence: its introducer, its decimal parameters and its final byte. Only the characters that
  have a key of their own (tab, return, escape, delete) share a number with another key.
\<close>

fun params :: "nat list \<Rightarrow> nat list" where
  "params [] = []"
| "params [a] = decimal a"
| "params (a # b # ps) = decimal a @ 59 # params (b # ps)"

definition sequence_of :: "nat \<times> nat list \<times> nat \<Rightarrow> nat list" where
  "sequence_of f = (case f of (lead, ps, final) \<Rightarrow> 27 # lead # params ps @ [final])"

fun own_number :: "key_code \<Rightarrow> bool" where
  "own_number (KeyChar ch) = (ch \<notin> {9, 13, 27, 127})"
| "own_number (KeyFunction n) = (1 \<le> n \<and> n \<le> 12)"
| "own_number _ = True"

definition ps_with :: "nat \<Rightarrow> nat \<Rightarrow> nat list" where
  "ps_with n k = (if k = 1 then [n] else [n, k])"

definition form :: "key_code \<Rightarrow> nat \<Rightarrow> nat \<times> nat list \<times> nat" where
  "form code k =
     (let arrow = \<lambda>letter. (91, if k = 1 then [] else [1, k], letter);
          tild = \<lambda>n. (91, ps_with n k, 126);
          num = \<lambda>n. (91, ps_with n k, 117)
      in case code of
           KeyUp \<Rightarrow> arrow 65 | KeyDown \<Rightarrow> arrow 66 | KeyRight \<Rightarrow> arrow 67 | KeyLeft \<Rightarrow> arrow 68
         | KeyHome \<Rightarrow> arrow 72 | KeyEnd \<Rightarrow> arrow 70
         | KeyInsert \<Rightarrow> tild 2 | KeyDelete \<Rightarrow> tild 3 | KeyPageUp \<Rightarrow> tild 5 | KeyPageDown \<Rightarrow> tild 6
         | KeyEnter \<Rightarrow> num 13 | KeyTab \<Rightarrow> num 9 | KeyBackspace \<Rightarrow> num 127 | KeyEscape \<Rightarrow> num 27
         | KeyChar ch \<Rightarrow> num ch
         | KeyFunction n \<Rightarrow>
             if n \<le> 4 then
               let letter = [80, 81, 82, 83] ! (n - 1) in
               if k = 1 then (79, [], letter) else if n = 3 then tild 13 else (91, [1, k], letter)
             else tild ([15, 17, 18, 19, 20, 21, 23, 24] ! (n - 5)))"

lemma encode_form:
  assumes "mode_reports_all_keys mode" and "own_number code"
  shows "encode_key code mods mode = sequence_of (form code (kitty_code mods))"
proof -
  have d: "decimal 1 = [49]" "decimal (Suc 0) = [49]" "decimal 13 = [49, 51]" by (simp_all add: decimal.simps)
  note defs = encode_key_def encode_kitty_def functional_csi_def kitty_key_number_def Let_def form_def sequence_of_def
    with_modifier_def tilde_def function_key_csi_def ps_with_def
  show ?thesis using assms by (cases code) (simp_all add: defs d)
qed

lemma decimal_ne: "decimal n \<noteq> []"
  by (subst decimal.simps) simp

fun value_of :: "nat list \<Rightarrow> nat \<Rightarrow> nat" where
  "value_of [] acc = acc"
| "value_of (d # ds) acc = value_of ds (10 * acc + (d - 48))"

lemma value_of_append: "value_of (ds @ es) acc = value_of es (value_of ds acc)"
  by (induction ds acc rule: value_of.induct) simp_all

lemma value_of_decimal: "value_of (decimal n) 0 = n"
  by (induction n rule: decimal.induct) (subst decimal.simps, simp add: value_of_append)

lemma decimal_inject: "decimal a = decimal b \<Longrightarrow> a = b"
  by (metis value_of_decimal)

lemma no_separator: "59 \<notin> set (decimal n)"
  using decimal_digits [of 59 n] by auto

lemma separated: "takeWhile (\<lambda>x. x \<noteq> 59) (decimal a @ 59 # r) = decimal a" "dropWhile (\<lambda>x. x \<noteq> 59) (decimal a @ 59 # r) = 59 # r"
  using no_separator [of a] by (subst takeWhile_append2 dropWhile_append2; auto)+

lemma pair_inject:
  assumes "decimal a @ 59 # decimal b = decimal c @ 59 # decimal d"
  shows "a = c \<and> b = d"
proof -
  have "decimal a = decimal c" using arg_cong [OF assms, of "takeWhile (\<lambda>x. x \<noteq> 59)"] by (simp only: separated)
  moreover have "decimal b = decimal d" using arg_cong [OF assms, of "dropWhile (\<lambda>x. x \<noteq> 59)"] by (simp add: separated)
  ultimately show ?thesis using decimal_inject by blast
qed

lemma params_inject:
  assumes "length ps \<le> 2" and "length qs \<le> 2" and "params ps = params qs"
  shows "ps = qs"
proof -
  have mixed: "decimal a @ 59 # decimal b \<noteq> decimal c" for a b c
    using no_separator [of c] by (metis in_set_conv_decomp)
  have shape: "rs = [] \<or> (\<exists>a. rs = [a]) \<or> (\<exists>a b. rs = [a, b])" if "length rs \<le> 2" for rs :: "nat list"
    using that by (auto simp: le_Suc_eq length_Suc_conv numeral_2_eq_2)
  show ?thesis
    using shape [OF assms(1)] shape [OF assms(2)] assms(3)
    by (elim disjE exE) (auto simp: decimal_ne decimal_ne [symmetric] mixed mixed [symmetric] dest: decimal_inject pair_inject)
qed

lemma sequence_inject:
  assumes "sequence_of (l, ps, f) = sequence_of (l', ps', f')" and "length ps \<le> 2" "length ps' \<le> 2"
  shows "l = l' \<and> ps = ps' \<and> f = f'"
  using assms params_inject by (auto simp: sequence_of_def)

lemma kitty_code_inject: "kitty_code m = kitty_code m' \<Longrightarrow> m = m'"
  by (cases m; cases m') (auto simp: kitty_code_def split: if_splits)

text \<open>Reading a control sequence back.\<close>

definition unform :: "nat \<times> nat list \<times> nat \<Rightarrow> key_code \<times> nat" where
  "unform f =
     (case f of (lead, ps, final) \<Rightarrow>
        (let k = (if length ps = 2 then ps ! 1 else 1) in
         if final = 117 then
           (case ps ! 0 of n \<Rightarrow>
              (if n = 13 then KeyEnter else if n = 9 then KeyTab else if n = 127 then KeyBackspace
               else if n = 27 then KeyEscape else KeyChar n, k))
         else if final = 126 then
           (case map_of [(2, KeyInsert), (3, KeyDelete), (5, KeyPageUp), (6, KeyPageDown), (13, KeyFunction 3),
                (15, KeyFunction 5), (17, KeyFunction 6), (18, KeyFunction 7), (19, KeyFunction 8),
                (20, KeyFunction 9), (21, KeyFunction 10), (23, KeyFunction 11), (24, KeyFunction 12)] (ps ! 0) of
              Some c \<Rightarrow> (c, k) | None \<Rightarrow> (KeyEnter, 0))
         else
           (case map_of [(65, KeyUp), (66, KeyDown), (67, KeyRight), (68, KeyLeft), (72, KeyHome), (70, KeyEnd),
                (80, KeyFunction 1), (81, KeyFunction 2), (82, KeyFunction 3), (83, KeyFunction 4)] final of
              Some c \<Rightarrow> (c, k) | None \<Rightarrow> (KeyEnter, 0))))"

lemma unform_form:
  assumes "own_number code"
  shows "unform (form code k) = (code, k)"
proof (cases code)
  case (KeyFunction n)
  then have "n \<in> {1, 2, 3, 4, 5, 6, 7, 8, 9, 10, 11, 12}" using assms by (simp, presburger)
  then show ?thesis
    unfolding KeyFunction by (elim insertE emptyE) (simp_all add: form_def unform_def ps_with_def Let_def)
qed (use assms in \<open>simp_all add: form_def unform_def ps_with_def Let_def\<close>)

lemma form_params: "length (fst (snd (form code k))) \<le> 2"
  by (cases code) (simp_all add: form_def ps_with_def Let_def)

lemma encode_key_inject:
  assumes "mode_reports_all_keys mode" and "own_number code" and "own_number code'"
    and "encode_key code mods mode = encode_key code' mods' mode"
  shows "code = code' \<and> mods = mods'"
proof -
  let ?f = "form code (kitty_code mods)" and ?g = "form code' (kitty_code mods')"
  have "sequence_of ?f = sequence_of ?g" using encode_form assms by metis
  then have "?f = ?g"
    using sequence_inject [of "fst ?f" "fst (snd ?f)" "snd (snd ?f)" "fst ?g" "fst (snd ?g)" "snd (snd ?g)"] form_params
    by (simp add: prod_eq_iff)
  then have "(code, kitty_code mods) = (code', kitty_code mods')"
    using unform_form [OF assms(2), of "kitty_code mods"] unform_form [OF assms(3), of "kitty_code mods'"] by metis
  then show ?thesis using kitty_code_inject by simp
qed

section \<open>Key notation\<close>

datatype key_token =
    TokenChar nat
  | TokenCtrl nat
  | TokenAlt nat
  | TokenEnter
  | TokenEscape
  | TokenBackspace
  | TokenTab
  | TokenSpace
  | TokenLeader
  | TokenUp
  | TokenDown
  | TokenLeft
  | TokenRight
  | TokenHome
  | TokenEnd
  | TokenInsert
  | TokenDelete
  | TokenPageUp
  | TokenPageDown
  | TokenKey key_code modifiers

type_synonym key_sequence = "key_token list"

datatype key_parse_error =
    EmptySequence
  | InvalidToken rstring
  | InvalidModifier rstring
  | InvalidModifiedKey rstring
  | NonAsciiControl rstring
  | UnterminatedToken rstring
  | MissingLeader

text \<open>\<open>str::parse::<u8>\<close>: an optional plus sign, digits, and a value of at most 255.\<close>

fun digits_value :: "nat \<Rightarrow> rstring \<Rightarrow> nat option" where
  "digits_value acc [] = Some acc"
| "digits_value acc (d # ds) =
     (if 48 \<le> d \<and> d \<le> 57 \<and> 10 * acc + (d - 48) \<le> 255 then digits_value (10 * acc + (d - 48)) ds else None)"

definition parse_u8 :: "rstring \<Rightarrow> nat option" where
  "parse_u8 s =
     (case s of
        [] \<Rightarrow> None
      | c # cs \<Rightarrow>
          if c = 43 then (if cs = [] then None else digits_value 0 cs)
          else digits_value 0 s)"

definition single_char_token :: "rstring \<Rightarrow> nat option" where
  "single_char_token token = (case token of [ch] \<Rightarrow> Some ch | _ \<Rightarrow> None)"

definition base_key_names :: "(rstring \<times> key_code) list" where
  "base_key_names =
     [(str_lit ''enter'', KeyEnter), (str_lit ''return'', KeyEnter), (str_lit ''cr'', KeyEnter),
      (str_lit ''esc'', KeyEscape), (str_lit ''escape'', KeyEscape),
      (str_lit ''bs'', KeyBackspace), (str_lit ''backspace'', KeyBackspace),
      (str_lit ''tab'', KeyTab), (str_lit ''space'', KeyChar 32),
      (str_lit ''up'', KeyUp), (str_lit ''down'', KeyDown), (str_lit ''left'', KeyLeft), (str_lit ''right'', KeyRight),
      (str_lit ''home'', KeyHome), (str_lit ''end'', KeyEnd),
      (str_lit ''ins'', KeyInsert), (str_lit ''insert'', KeyInsert),
      (str_lit ''del'', KeyDelete), (str_lit ''delete'', KeyDelete),
      (str_lit ''pageup'', KeyPageUp), (str_lit ''pgup'', KeyPageUp),
      (str_lit ''pagedown'', KeyPageDown), (str_lit ''pgdown'', KeyPageDown), (str_lit ''pgdn'', KeyPageDown)]"

definition parse_base_key :: "rstring \<Rightarrow> key_code option" where
  "parse_base_key key =
     (let other = to_ascii_lowercase key in
      case map_of base_key_names other of
        Some code \<Rightarrow> Some code
      | None \<Rightarrow>
          (case (case other of c # stripped \<Rightarrow> if c = 102 then parse_u8 stripped else None | [] \<Rightarrow> None) of
             Some number \<Rightarrow>
               if 1 \<le> number \<and> number \<le> 12 then Some (KeyFunction number)
               else map_option KeyChar (single_char_token key)
           | None \<Rightarrow> map_option KeyChar (single_char_token key)))"

definition split_once :: "nat \<Rightarrow> rstring \<Rightarrow> (rstring \<times> rstring) option" where
  "split_once c s =
     (case dropWhile (\<lambda>x. x \<noteq> c) s of [] \<Rightarrow> None | _ # tail \<Rightarrow> Some (takeWhile (\<lambda>x. x \<noteq> c) s, tail))"

definition set_modifier :: "rstring \<Rightarrow> modifiers \<Rightarrow> modifiers option" where
  "set_modifier head mods =
     (let name = to_ascii_lowercase head in
      if name \<in> set (map str_lit [''c'', ''ctrl'']) then Some (mods\<lparr>ctrl := True\<rparr>)
      else if name \<in> set (map str_lit [''a'', ''alt'', ''m'']) then Some (mods\<lparr>alt := True\<rparr>)
      else if name \<in> set (map str_lit [''s'', ''shift'']) then Some (mods\<lparr>shift := True\<rparr>)
      else if name \<in> set (map str_lit [''d'', ''super'', ''cmd'', ''win'']) then Some (mods\<lparr>super := True\<rparr>)
      else None)"

lemma split_once_length: "split_once c s = Some (h, t) \<Longrightarrow> length t < length s"
proof -
  assume "split_once c s = Some (h, t)"
  then obtain d where "dropWhile (\<lambda>x. x \<noteq> c) s = d # t" by (auto simp: split_once_def split: list.splits)
  then have "length (d # t) \<le> length s" by (metis length_dropWhile_le)
  then show ?thesis by simp
qed

function strip_modifiers :: "rstring \<Rightarrow> rstring \<Rightarrow> modifiers \<Rightarrow> bool \<Rightarrow>
    (key_parse_error, modifiers \<times> bool \<times> rstring) outcome" where
  "strip_modifiers token key mods had =
     (case split_once 45 key of
        None \<Rightarrow> Ok (mods, had, key)
      | Some (head, tail) \<Rightarrow>
          if head = [] then Ok (mods, had, key)
          else
            (case set_modifier head mods of
               None \<Rightarrow> Err (InvalidModifier token)
             | Some mods' \<Rightarrow> strip_modifiers token tail mods' True))"
  by pat_completeness auto
termination
  by (relation "measure (\<lambda>(_, key, _). length key)") (auto dest: split_once_length)

declare strip_modifiers.simps [simp del]

definition modified_key :: "rstring \<Rightarrow> key_code \<Rightarrow> modifiers \<Rightarrow> bool \<Rightarrow> (key_parse_error, key_token) outcome" where
  "modified_key token code mods had =
     (if ctrl mods \<and> (case code of KeyChar ch \<Rightarrow> \<not> is_ascii ch | _ \<Rightarrow> False)
      then Err (NonAsciiControl token)
      else if \<not> had then
        Ok (case code of KeyChar ch \<Rightarrow> TokenChar ch | _ \<Rightarrow> TokenKey code mods_none)
      else
        (case code of
           KeyChar ch \<Rightarrow>
             (let only_ctrl = (mods = mods_none\<lparr>ctrl := True\<rparr>) in
              if only_ctrl \<and> \<not> is_ascii_uppercase ch then Ok (TokenCtrl ch)
              else
                let mods = (if only_ctrl then mods\<lparr>shift := True\<rparr> else mods);
                    only_alt = (mods = mods_none\<lparr>alt := True\<rparr>) in
                if only_alt \<and> \<not> is_ascii_uppercase ch then Ok (TokenAlt ch)
                else Ok (TokenKey (KeyChar (char_lower ch)) (if only_alt then mods\<lparr>shift := True\<rparr> else mods)))
         | _ \<Rightarrow> Ok (TokenKey code mods)))"

definition parse_modified_token :: "rstring \<Rightarrow> (key_parse_error, key_token) outcome" where
  "parse_modified_token token =
     rbind (strip_modifiers token token mods_none False) (\<lambda>(mods, had, key).
     rbind (ok_or (if had then InvalidModifiedKey token else InvalidToken token) (parse_base_key key)) (\<lambda>code.
     modified_key token code mods had))"

definition token_names :: "(rstring \<times> key_token) list" where
  "token_names =
     [(str_lit ''leader'', TokenLeader),
      (str_lit ''enter'', TokenEnter), (str_lit ''return'', TokenEnter), (str_lit ''cr'', TokenEnter),
      (str_lit ''esc'', TokenEscape), (str_lit ''escape'', TokenEscape),
      (str_lit ''bs'', TokenBackspace), (str_lit ''backspace'', TokenBackspace),
      (str_lit ''tab'', TokenTab), (str_lit ''space'', TokenSpace),
      (str_lit ''up'', TokenUp), (str_lit ''down'', TokenDown), (str_lit ''left'', TokenLeft), (str_lit ''right'', TokenRight),
      (str_lit ''home'', TokenHome), (str_lit ''end'', TokenEnd),
      (str_lit ''ins'', TokenInsert), (str_lit ''insert'', TokenInsert),
      (str_lit ''del'', TokenDelete), (str_lit ''delete'', TokenDelete),
      (str_lit ''pageup'', TokenPageUp), (str_lit ''pgup'', TokenPageUp),
      (str_lit ''pagedown'', TokenPageDown), (str_lit ''pgdown'', TokenPageDown), (str_lit ''pgdn'', TokenPageDown)]"

definition parse_token :: "rstring \<Rightarrow> (key_parse_error, key_token) outcome" where
  "parse_token token =
     (case map_of token_names (to_ascii_lowercase token) of
        Some t \<Rightarrow> Ok t
      | None \<Rightarrow> parse_modified_token token)"

text \<open>The loop over the notation: a token between \<open><\<close> and the next \<open>>\<close>, a space, or a plain character.\<close>

function parse_keys :: "rstring \<Rightarrow> rstring \<Rightarrow> (key_parse_error, key_sequence) outcome" where
  "parse_keys notation [] = Ok []"
| "parse_keys notation (c # cs) =
     (if c = 60 then
        (case dropWhile (\<lambda>x. x \<noteq> 62) cs of
           [] \<Rightarrow> Err (UnterminatedToken notation)
         | _ # rest \<Rightarrow>
             rbind (parse_token (takeWhile (\<lambda>x. x \<noteq> 62) cs)) (\<lambda>t.
             rbind (parse_keys notation rest) (\<lambda>ts. Ok (t # ts))))
      else if c = 32 then rbind (parse_keys notation cs) (\<lambda>ts. Ok (TokenSpace # ts))
      else rbind (parse_keys notation cs) (\<lambda>ts. Ok (TokenChar c # ts)))"
  by pat_completeness auto
termination
proof (relation "measure (\<lambda>(_, cs). length cs)"; simp)
  show "length rest < Suc (length cs)" if "dropWhile (\<lambda>x. x \<noteq> 62) cs = d # rest" for cs d and rest :: rstring
    using length_dropWhile_le [of "\<lambda>x. x \<noteq> 62" cs] that by simp
qed

declare parse_keys.simps(2) [simp del]

definition parse_key_sequence :: "rstring \<Rightarrow> (key_parse_error, key_sequence) outcome" where
  "parse_key_sequence notation = (if notation = [] then Err EmptySequence else parse_keys notation notation)"

primrec expand_leader :: "key_sequence \<Rightarrow> key_sequence \<Rightarrow> (key_parse_error, key_sequence) outcome" where
  "expand_leader [] leader = Ok []"
| "expand_leader (token # sequence) leader =
     (if token = TokenLeader then
        (if leader = [] then Err MissingLeader
         else rbind (expand_leader sequence leader) (\<lambda>rest. Ok (leader @ rest)))
      else rbind (expand_leader sequence leader) (\<lambda>rest. Ok (token # rest)))"

section \<open>What the notation can express\<close>

text \<open>A notation for every key the parser can produce: modifiers in the order ctrl, alt, shift, super.\<close>

definition modifier_prefix :: "modifiers \<Rightarrow> rstring" where
  "modifier_prefix m =
     (if ctrl m then str_lit ''C-'' else []) @ (if alt m then str_lit ''A-'' else []) @
     (if shift m then str_lit ''S-'' else []) @ (if super m then str_lit ''D-'' else [])"

fun base_name :: "key_code \<Rightarrow> rstring" where
  "base_name (KeyChar ch) = [ch]"
| "base_name KeyEnter = str_lit ''Enter''"
| "base_name KeyTab = str_lit ''Tab''"
| "base_name KeyBackspace = str_lit ''BS''"
| "base_name KeyEscape = str_lit ''Esc''"
| "base_name KeyUp = str_lit ''Up''"
| "base_name KeyDown = str_lit ''Down''"
| "base_name KeyLeft = str_lit ''Left''"
| "base_name KeyRight = str_lit ''Right''"
| "base_name KeyHome = str_lit ''Home''"
| "base_name KeyEnd = str_lit ''End''"
| "base_name KeyInsert = str_lit ''Insert''"
| "base_name KeyDelete = str_lit ''Delete''"
| "base_name KeyPageUp = str_lit ''PageUp''"
| "base_name KeyPageDown = str_lit ''PageDown''"
| "base_name (KeyFunction n) = 70 # decimal n"

fun token_body :: "key_token \<Rightarrow> rstring" where
  "token_body (TokenChar ch) = [ch]"
| "token_body (TokenCtrl ch) = str_lit ''C-'' @ [ch]"
| "token_body (TokenAlt ch) = str_lit ''A-'' @ [ch]"
| "token_body TokenEnter = str_lit ''Enter''"
| "token_body TokenEscape = str_lit ''Esc''"
| "token_body TokenBackspace = str_lit ''BS''"
| "token_body TokenTab = str_lit ''Tab''"
| "token_body TokenSpace = str_lit ''Space''"
| "token_body TokenLeader = str_lit ''leader''"
| "token_body TokenUp = str_lit ''Up''"
| "token_body TokenDown = str_lit ''Down''"
| "token_body TokenLeft = str_lit ''Left''"
| "token_body TokenRight = str_lit ''Right''"
| "token_body TokenHome = str_lit ''Home''"
| "token_body TokenEnd = str_lit ''End''"
| "token_body TokenInsert = str_lit ''Insert''"
| "token_body TokenDelete = str_lit ''Delete''"
| "token_body TokenPageUp = str_lit ''PageUp''"
| "token_body TokenPageDown = str_lit ''PageDown''"
| "token_body (TokenKey code mods) = modifier_prefix mods @ base_name code"

definition notation_of :: "key_token \<Rightarrow> rstring" where
  "notation_of t = (if t = TokenChar 62 then [62] else 60 # token_body t @ [62])"

text \<open>
  The tokens that have a notation. A key with a modifier and \<open>>\<close> has none, since \<open>>\<close> ends the token; a
  chord is stored with a lowercase letter; ctrl needs an ASCII character.
\<close>

fun writable :: "key_token \<Rightarrow> bool" where
  "writable (TokenCtrl ch) = (ch \<noteq> 62 \<and> is_ascii ch \<and> \<not> is_ascii_uppercase ch)"
| "writable (TokenAlt ch) = (ch \<noteq> 62 \<and> \<not> is_ascii_uppercase ch)"
| "writable (TokenKey (KeyChar ch) m) =
     (ch \<noteq> 62 \<and> \<not> is_ascii_uppercase ch \<and> m \<noteq> mods_none \<and> m \<noteq> mods_none\<lparr>ctrl := True\<rparr> \<and>
      m \<noteq> mods_none\<lparr>alt := True\<rparr> \<and> (ctrl m \<longrightarrow> is_ascii ch))"
| "writable (TokenKey (KeyFunction n) m) = (1 \<le> n \<and> n \<le> 12)"
| "writable (TokenKey _ m) = (m \<noteq> mods_none)"
| "writable _ = True"

lemma mods_cases:
  obtains s a c d where "m = \<lparr>shift = s, alt = a, ctrl = c, super = d\<rparr>"
  by (cases m) auto

lemma split_once_simps:
  "split_once c [] = None"
  "split_once c (x # xs) = (if x = c then Some ([], xs) else map_option (apfst (Cons x)) (split_once c xs))"
  by (simp_all add: split_once_def del: dropWhile_eq_Nil_conv split: list.split)

lemma strip_prefix:
  assumes "split_once 45 base = None \<or> (\<exists>t. split_once 45 base = Some ([], t))"
  shows "strip_modifiers token (modifier_prefix m @ base) mods_none False = Ok (m, m \<noteq> mods_none, base)"
proof -
  have finish: "strip_modifiers token base mods had = Ok (mods, had, base)" for mods had
    using assms by (subst strip_modifiers.simps) auto
  have step: "strip_modifiers token (x # 45 # rest) mods had =
      (case set_modifier [x] mods of None \<Rightarrow> Err (InvalidModifier token) | Some mods' \<Rightarrow> strip_modifiers token rest mods' True)"
    if "x \<noteq> 45" for x rest mods had
    using that by (subst strip_modifiers.simps) (simp add: split_once_simps)
  show ?thesis
    by (cases m rule: mods_cases)
      (simp add: modifier_prefix_def str_lit_def finish step set_modifier_def to_ascii_lowercase_def mods_none_def)
qed

lemma lower_length: "length (to_ascii_lowercase s) = length s"
  by (simp add: to_ascii_lowercase_def)

lemma names_no_hyphen: "45 \<in> set s \<Longrightarrow> map_of token_names (to_ascii_lowercase s) = None"
proof -
  assume "45 \<in> set s"
  then have "45 \<in> set (to_ascii_lowercase s)" by (force simp: to_ascii_lowercase_def)
  then show ?thesis by (auto simp: map_of_eq_None_iff token_names_def str_lit_def)
qed

lemma names_long: "map_of token_names (to_ascii_lowercase [c]) = None" "map_of base_key_names (to_ascii_lowercase [c]) = None"
  by (simp_all add: token_names_def base_key_names_def str_lit_def to_ascii_lowercase_def)

lemma parse_base_char: "parse_base_key [c] = Some (KeyChar c)"
  using names_long(2) [of c]
  by (simp add: parse_base_key_def Let_def single_char_token_def to_ascii_lowercase_def parse_u8_def)

lemma function_names:
  assumes "1 \<le> n" "n \<le> 12"
  shows "parse_base_key (70 # decimal n) = Some (KeyFunction n) \<and>
    map_of token_names (to_ascii_lowercase (70 # decimal n)) = None"
proof -
  have "n \<in> {1, 2, 3, 4, 5, 6, 7, 8, 9, 10, 11, 12}" using assms by (simp, presburger)
  then show ?thesis
    by (elim insertE emptyE)
      (simp_all add: decimal.simps parse_base_key_def base_key_names_def token_names_def str_lit_def to_ascii_lowercase_def
        parse_u8_def Let_def)
qed

lemma parse_base_name:
  assumes "\<And>n. code = KeyFunction n \<Longrightarrow> 1 \<le> n \<and> n \<le> 12"
  shows "parse_base_key (base_name code) = Some code"
  using assms function_names parse_base_char
  by (cases code) (simp_all add: parse_base_key_def base_key_names_def str_lit_def to_ascii_lowercase_def Let_def)

lemma base_name_hyphen: "split_once 45 (base_name code) = None \<or> (\<exists>t. split_once 45 (base_name code) = Some ([], t))"
proof (cases code)
  case (KeyFunction n)
  have "45 \<notin> set (decimal n)" using decimal_digits [of 45 n] by auto
  then have "dropWhile (\<lambda>x. x \<noteq> 45) (base_name code) = []" using KeyFunction by auto
  then show ?thesis by (simp only: split_once_def list.case simp_thms)
qed (simp_all add: split_once_simps str_lit_def)

lemma parse_modified_name:
  assumes "\<And>n. code = KeyFunction n \<Longrightarrow> 1 \<le> n \<and> n \<le> 12"
  shows "parse_modified_token (modifier_prefix m @ base_name code) =
    modified_key (modifier_prefix m @ base_name code) code m (m \<noteq> mods_none)"
  by (simp add: parse_modified_token_def strip_prefix [OF base_name_hyphen] parse_base_name [OF assms])

lemma prefix_hyphen: "m \<noteq> mods_none \<Longrightarrow> 45 \<in> set (modifier_prefix m)"
  by (cases m rule: mods_cases) (auto simp: modifier_prefix_def mods_none_def str_lit_def)

lemma single_prefixes: "str_lit ''C-'' = modifier_prefix (mods_none\<lparr>ctrl := True\<rparr>)"
  "str_lit ''A-'' = modifier_prefix (mods_none\<lparr>alt := True\<rparr>)"
  by (simp_all add: modifier_prefix_def mods_none_def)

lemma none_simps [simp]: "modifier_prefix mods_none = []" "\<not> ctrl mods_none"
  by (simp_all add: modifier_prefix_def mods_none_def)

lemma parse_token_modified:
  assumes "m \<noteq> mods_none" and "\<And>n. code = KeyFunction n \<Longrightarrow> 1 \<le> n \<and> n \<le> 12"
  shows "parse_token (modifier_prefix m @ base_name code) = modified_key (modifier_prefix m @ base_name code) code m True"
  using names_no_hyphen [of "modifier_prefix m @ base_name code"] prefix_hyphen [OF assms(1)] parse_modified_name [OF assms(2)]
    assms(1)
  by (simp add: parse_token_def)

lemma parse_token_body:
  assumes "writable t"
  shows "parse_token (token_body t) = Ok t"
proof (cases t)
  case (TokenChar ch)
  have "parse_modified_token [ch] = Ok (TokenChar ch)"
    using parse_modified_name [of "KeyChar ch" mods_none] by (simp add: modified_key_def)
  then show ?thesis using TokenChar names_long(1) by (simp add: parse_token_def)
next
  case (TokenCtrl ch)
  have "parse_token (str_lit ''C-'' @ base_name (KeyChar ch)) = Ok (TokenCtrl ch)"
    unfolding single_prefixes(1)
    by (subst parse_token_modified) (use assms TokenCtrl in \<open>simp_all add: modified_key_def mods_none_def\<close>)
  then show ?thesis using TokenCtrl by simp
next
  case (TokenAlt ch)
  have "parse_token (str_lit ''A-'' @ base_name (KeyChar ch)) = Ok (TokenAlt ch)"
    unfolding single_prefixes(2)
    by (subst parse_token_modified) (use assms TokenAlt in \<open>simp_all add: modified_key_def mods_none_def\<close>)
  then show ?thesis using TokenAlt by simp
next
  case (TokenKey code m)
  have fn: "1 \<le> n \<and> n \<le> 12" if "code = KeyFunction n" for n using assms TokenKey that by simp
  show ?thesis
  proof (cases "m = mods_none")
    case True
    then obtain n where n: "code = KeyFunction n" using assms TokenKey by (cases code) auto
    have "parse_modified_token (70 # decimal n) = Ok (TokenKey (KeyFunction n) mods_none)"
      using parse_modified_name [of code mods_none, OF fn] n
      by (simp add: modified_key_def)
    then show ?thesis
      using TokenKey True n function_names [of n] fn [of n] by (simp add: parse_token_def)
  next
    case False
    have "modified_key tok code m True = Ok (TokenKey code m)" for tok
      using assms TokenKey by (cases code) (auto simp: modified_key_def char_lower_def Let_def)
    then show ?thesis using parse_token_modified [OF False fn] TokenKey by simp
  qed
qed (simp_all add: parse_token_def token_names_def str_lit_def to_ascii_lowercase_def)

lemma body_closed: "writable t \<Longrightarrow> t \<noteq> TokenChar 62 \<Longrightarrow> 62 \<notin> set (token_body t)"
proof (cases t)
  case (TokenKey code m)
  assume w: "writable t"
  have "62 \<notin> set (modifier_prefix m)"
    by (cases m rule: mods_cases) (auto simp: modifier_prefix_def str_lit_def)
  moreover have "62 \<notin> set (base_name code)"
    using w TokenKey decimal_digits [of 62] by (cases code) (auto simp: str_lit_def)
  ultimately show ?thesis using TokenKey by simp
qed (auto simp: str_lit_def)

lemma parse_keys_notation:
  assumes "writable t"
  shows "parse_keys n (notation_of t @ rest) = rbind (parse_keys n rest) (\<lambda>ts. Ok (t # ts))"
proof (cases "t = TokenChar 62")
  case True
  then show ?thesis by (simp add: notation_of_def parse_keys.simps(2))
next
  case False
  have "takeWhile (\<lambda>x. x \<noteq> 62) (token_body t @ 62 # rest) = token_body t"
    "dropWhile (\<lambda>x. x \<noteq> 62) (token_body t @ 62 # rest) = 62 # rest"
    using body_closed [OF assms False] by (subst takeWhile_append2 dropWhile_append2; auto)+
  then show ?thesis using False by (simp add: notation_of_def parse_keys.simps(2) parse_token_body [OF assms])
qed

lemma parse_keys_notations: "list_all writable ts \<Longrightarrow> parse_keys n (concat (map notation_of ts)) = Ok ts"
  by (induction ts) (simp_all add: parse_keys_notation)

lemma rbind_Ok_iff: "rbind r f = Ok y \<longleftrightarrow> (\<exists>x. r = Ok x \<and> f x = Ok y)"
  by (cases r) simp_all

lemma ok_or_Ok_iff: "ok_or e x = Ok y \<longleftrightarrow> x = Some y"
  by (cases x) simp_all

lemma split_once_append: "split_once c s = Some (h, t) \<Longrightarrow> s = h @ c # t"
proof -
  assume "split_once c s = Some (h, t)"
  then obtain d where d: "dropWhile (\<lambda>x. x \<noteq> c) s = d # t" "h = takeWhile (\<lambda>x. x \<noteq> c) s"
    by (auto simp: split_once_def split: list.splits)
  then have "d = c" using hd_dropWhile [of "\<lambda>x. x \<noteq> c" s] by (metis list.distinct(1) list.sel(1))
  then show ?thesis using d takeWhile_dropWhile_id [of "\<lambda>x. x \<noteq> c" s] by simp
qed

lemma set_modifier_some: "set_modifier head mods = Some mods' \<Longrightarrow> mods' \<noteq> mods_none"
  by (cases mods rule: mods_cases) (auto simp: set_modifier_def Let_def mods_none_def split: if_splits)

lemma strip_result:
  "strip_modifiers token key mods had = Ok (m, had', base) \<Longrightarrow> (had \<longleftrightarrow> mods \<noteq> mods_none) \<Longrightarrow>
   set base \<subseteq> set key \<and> (had' \<longleftrightarrow> m \<noteq> mods_none) \<and> (had' \<or> base = key \<and> \<not> had)"
proof (induction token key mods had rule: strip_modifiers.induct)
  case (1 token key mods had)
  show ?case
  proof (cases "\<exists>h t mods'. split_once 45 key = Some (h, t) \<and> h \<noteq> [] \<and> set_modifier h mods = Some mods'")
    case True
    then obtain h t mods' where s: "split_once 45 key = Some (h, t)" "h \<noteq> []" "set_modifier h mods = Some mods'" by blast
    then have "strip_modifiers token t mods' True = Ok (m, had', base)"
      using 1(2) by (subst (asm) strip_modifiers.simps) simp
    then have "set base \<subseteq> set t \<and> (had' \<longleftrightarrow> m \<noteq> mods_none) \<and> had'"
      using 1(1) [OF s(1) refl s(2,3)] set_modifier_some [OF s(3)] by blast
    then show ?thesis using split_once_append [OF s(1)] by auto
  next
    case False
    then show ?thesis
      using 1(2,3) by (subst (asm) strip_modifiers.simps) (auto split: option.splits if_splits)
  qed
qed

lemma base_key_result:
  "parse_base_key key = Some code \<Longrightarrow>
   (case code of KeyChar ch \<Rightarrow> ch \<in> set key \<or> ch = 32 | KeyFunction n \<Rightarrow> 1 \<le> n \<and> n \<le> 12 | _ \<Rightarrow> True)"
proof -
  assume "parse_base_key key = Some code"
  then consider "map_of base_key_names (to_ascii_lowercase key) = Some code"
    | n where "code = KeyFunction n" "1 \<le> n" "n \<le> 12" | ch where "code = KeyChar ch" "single_char_token key = Some ch"
    by (auto simp: parse_base_key_def Let_def split: option.splits if_splits)
  then show ?thesis
  proof cases
    case 1
    then have "code \<in> snd ` set base_key_names" by (metis image_eqI map_of_SomeD snd_conv)
    then show ?thesis by (auto simp: base_key_names_def)
  next
    case (3 ch)
    then show ?thesis by (auto simp: single_char_token_def split: list.splits)
  qed auto
qed

text \<open>A name that stands for a key without modifiers is a token of its own.\<close>

lemma named_base:
  assumes "map_of token_names (to_ascii_lowercase key) = None" and "parse_base_key key = Some code"
  shows "is_char code \<or> (\<exists>n. code = KeyFunction n)"
proof -
  have sub: "fst ` set base_key_names \<subseteq> fst ` set token_names" by (simp add: base_key_names_def token_names_def)
  have "to_ascii_lowercase key \<notin> fst ` set token_names" using assms(1) by (simp add: map_of_eq_None_iff)
  then have "map_of base_key_names (to_ascii_lowercase key) = None" using sub by (metis map_of_eq_None_iff subsetD)
  then show ?thesis using assms(2) by (auto simp: parse_base_key_def Let_def split: option.splits if_splits)
qed

lemma char_lower_not_upper: "\<not> is_ascii_uppercase (char_lower ch)"
  by (simp add: char_lower_def is_ascii_uppercase_def)

lemma char_lower_eq: "ch \<noteq> 62 \<Longrightarrow> char_lower ch \<noteq> 62" "is_ascii (char_lower ch) \<longleftrightarrow> is_ascii ch"
  by (auto simp: char_lower_def is_ascii_uppercase_def is_ascii_def)

lemma parse_token_writable:
  assumes "parse_token token = Ok t" and "62 \<notin> set token"
  shows "writable t"
proof (cases "map_of token_names (to_ascii_lowercase token)")
  case (Some u)
  then have "t \<in> snd ` set token_names" using assms(1) map_of_SomeD [OF Some] by (force simp: parse_token_def)
  then show ?thesis by (auto simp: token_names_def)
next
  case None
  then have "parse_modified_token token = Ok t" using assms(1) by (simp add: parse_token_def)
  then obtain m had key code where r: "strip_modifiers token token mods_none False = Ok (m, had, key)"
    "parse_base_key key = Some code" "modified_key token code m had = Ok t"
    by (auto simp: parse_modified_token_def rbind_Ok_iff ok_or_Ok_iff)
  have k: "set key \<subseteq> set token" "had \<longleftrightarrow> m \<noteq> mods_none" "had \<or> key = token" using strip_result [OF r(1)] by auto
  show ?thesis
  proof (cases code)
    case (KeyChar ch)
    then have "ch \<noteq> 62" using base_key_result [OF r(2)] k(1) assms(2) by auto
    then show ?thesis
      using r(3) KeyChar k(2) char_lower_not_upper [of ch] char_lower_eq [of ch]
      by (cases m rule: mods_cases) (auto simp: modified_key_def Let_def mods_none_def split: if_splits)
  next
    case (KeyFunction n)
    then show ?thesis using r(3) base_key_result [OF r(2)] by (auto simp: modified_key_def split: if_splits)
  qed (use r(3) k(2,3) named_base [OF _ r(2)] None in \<open>auto simp: modified_key_def split: if_splits\<close>)
qed

lemma parse_keys_writable: "parse_keys n s = Ok ts \<Longrightarrow> list_all writable ts \<and> (ts = [] \<longrightarrow> s = [])"
proof (induction n s arbitrary: ts rule: parse_keys.induct)
  case (2 n c cs)
  show ?case
  proof (cases "c = 60")
    case True
    then obtain d rest t us where r: "dropWhile (\<lambda>x. x \<noteq> 62) cs = d # rest"
      "parse_token (takeWhile (\<lambda>x. x \<noteq> 62) cs) = Ok t" "parse_keys n rest = Ok us" "ts = t # us"
      using 2(4) by (auto simp: parse_keys.simps(2) rbind_Ok_iff split: list.splits)
    have "62 \<notin> set (takeWhile (\<lambda>x. x \<noteq> 62) cs)" by (auto dest: set_takeWhileD)
    then show ?thesis using parse_token_writable [OF r(2)] 2(1) [OF True r(1,3)] r(4) by simp
  next
    case False
    then obtain t us where r: "parse_keys n cs = Ok us" "ts = t # us" "t = TokenSpace \<or> t = TokenChar c"
      using 2(4) by (auto simp: parse_keys.simps(2) rbind_Ok_iff split: if_splits)
    have "list_all writable us" using 2(2,3) [OF False _ r(1)] by blast
    then show ?thesis using r(2,3) by auto
  qed
qed simp

lemma parse_key_sequence_image:
  "(\<exists>s. parse_key_sequence s = Ok ts) \<longleftrightarrow> ts \<noteq> [] \<and> list_all writable ts"
proof
  assume "\<exists>s. parse_key_sequence s = Ok ts"
  then show "ts \<noteq> [] \<and> list_all writable ts" using parse_keys_writable by (auto simp: parse_key_sequence_def split: if_splits)
next
  assume a: "ts \<noteq> [] \<and> list_all writable ts"
  then have "concat (map notation_of ts) \<noteq> []" by (cases ts) (simp_all add: notation_of_def)
  then have "parse_key_sequence (concat (map notation_of ts)) = Ok ts"
    using parse_keys_notations [of ts] a by (simp only: parse_key_sequence_def if_False)
  then show "\<exists>s. parse_key_sequence s = Ok ts" by blast
qed

end
