(* ===== verification/Client_Keymap.thy ===== *)
theory Client_Keymap
  imports Ordered_Map Client_Keys Service "HOL-Library.Sublist"
begin

text \<open>
  Key bindings of the client (\<open>crates/embers-client/src/input/modes.rs\<close> and \<open>keymap.rs\<close>): the input modes,
  the keys typed so far, and their resolution against the bindings of the mode. The lemmas show that no
  key is lost or invented, that the pending keys are always the start of a binding, and that a binding
  with a bound prefix never matches.
\<close>

section \<open>Modes\<close>

datatype fallback_policy = Passthrough | Ignore

record mode_spec =
  mo_name :: rstring
  mo_fallback_policy :: fallback_policy

definition normal_mode :: rstring where "normal_mode = str_lit ''normal''"
definition copy_mode_name :: rstring where "copy_mode_name = str_lit ''copy''"
definition search_mode :: rstring where "search_mode = str_lit ''search''"
definition select_mode :: rstring where "select_mode = str_lit ''select''"
definition hints_mode :: rstring where "hints_mode = str_lit ''hints''"
definition prompt_mode :: rstring where "prompt_mode = str_lit ''prompt''"
definition tree_mode :: rstring where "tree_mode = str_lit ''tree''"

definition mode_spec_new :: "rstring \<Rightarrow> fallback_policy \<Rightarrow> mode_spec" where
  "mode_spec_new name policy = \<lparr>mo_name = name, mo_fallback_policy = policy\<rparr>"

record input_state =
  current_mode :: rstring
  pending_sequence :: key_sequence

definition input_state_default :: input_state where
  "input_state_default = \<lparr>current_mode = normal_mode, pending_sequence = []\<rparr>"

definition set_mode :: "rstring \<Rightarrow> input_state \<Rightarrow> input_state" where
  "set_mode mode st =
     (if current_mode st \<noteq> mode then \<lparr>current_mode = mode, pending_sequence = []\<rparr> else st)"

definition clear_pending :: "input_state \<Rightarrow> input_state" where
  "clear_pending st = st\<lparr>pending_sequence := []\<rparr>"

definition push_pending :: "key_token \<Rightarrow> input_state \<Rightarrow> input_state" where
  "push_pending key st = st\<lparr>pending_sequence := pending_sequence st @ [key]\<rparr>"

definition builtin_modes :: "(rstring, mode_spec) btree_map" where
  "builtin_modes = fold (\<lambda>(name, spec). bt_insert name spec)
     [(normal_mode, mode_spec_new normal_mode Passthrough),
      (copy_mode_name, mode_spec_new copy_mode_name Ignore),
      (search_mode, mode_spec_new search_mode Ignore),
      (select_mode, mode_spec_new select_mode Ignore),
      (hints_mode, mode_spec_new hints_mode Ignore),
      (prompt_mode, mode_spec_new prompt_mode Ignore),
      (tree_mode, mode_spec_new tree_mode Ignore)] bt_empty"

section \<open>Bindings\<close>

record 'a binding_spec =
  bs_notation :: rstring
  bs_sequence :: key_sequence
  bs_target :: 'a

record 'a binding_match =
  bm_mode :: rstring
  bm_sequence :: key_sequence
  bm_target :: 'a

datatype 'a input_resolution =
    ExactMatch "'a binding_match"
  | PrefixMatch
  | Unmatched rstring key_sequence fallback_policy

type_synonym 'a bindings = "(rstring, 'a binding_spec list) btree_map"

definition mode_bindings :: "'a bindings \<Rightarrow> rstring \<Rightarrow> 'a binding_spec list" where
  "mode_bindings bindings mode = (case bt_get bindings mode of Some bs \<Rightarrow> bs | None \<Rightarrow> [])"

definition resolve_key ::
  "'a bindings \<Rightarrow> (rstring, mode_spec) btree_map \<Rightarrow> key_token \<Rightarrow> input_state \<Rightarrow> 'a input_resolution \<times> input_state" where
  "resolve_key bindings modes key st =
     (let st = push_pending key st;
          mode = current_mode st;
          pending = pending_sequence st;
          bs = mode_bindings bindings mode
      in case find (\<lambda>b. bs_sequence b = pending) bs of
           Some b \<Rightarrow>
             (ExactMatch \<lparr>bm_mode = mode, bm_sequence = bs_sequence b, bm_target = bs_target b\<rparr>, clear_pending st)
         | None \<Rightarrow>
             if \<exists>b \<in> set bs. prefix pending (bs_sequence b) then (PrefixMatch, st)
             else
               (Unmatched mode pending
                  (case bt_get modes mode of Some m \<Rightarrow> mo_fallback_policy m | None \<Rightarrow> Ignore),
                clear_pending st))"

section \<open>Typing\<close>

text \<open>What happens to the input state: a key is typed, a script switches the mode, or the pending keys are dropped.\<close>

datatype input_event = Typed key_token | SetMode rstring | ClearPending

fun handle_input ::
  "'a bindings \<Rightarrow> (rstring, mode_spec) btree_map \<Rightarrow> input_event \<Rightarrow> (input_state, unit, 'a input_resolution option) proc" where
  "handle_input bindings modes (Typed key) st = (case resolve_key bindings modes key st of (r, t) \<Rightarrow> (Ok (Some r), t))"
| "handle_input bindings modes (SetMode mode) st = (Ok None, set_mode mode st)"
| "handle_input bindings modes ClearPending st = (Ok None, clear_pending st)"

primrec type_keys ::
  "'a bindings \<Rightarrow> (rstring, mode_spec) btree_map \<Rightarrow> key_sequence \<Rightarrow> input_state \<Rightarrow> 'a input_resolution list \<times> input_state" where
  "type_keys bindings modes [] st = ([], st)"
| "type_keys bindings modes (k # ks) st =
     (case resolve_key bindings modes k st of (r, t) \<Rightarrow>
        (case type_keys bindings modes ks t of (rs, u) \<Rightarrow> (r # rs, u)))"

text \<open>The sequences bound in a mode, and the pending keys they allow.\<close>

definition bound :: "'a bindings \<Rightarrow> rstring \<Rightarrow> key_sequence set" where
  "bound bindings mode = bs_sequence ` set (mode_bindings bindings mode)"

definition pending_ok :: "'a bindings \<Rightarrow> input_state \<Rightarrow> bool" where
  "pending_ok bindings st \<longleftrightarrow>
     (pending_sequence st \<noteq> [] \<longrightarrow>
        (\<exists>b \<in> bound bindings (current_mode st). strict_prefix (pending_sequence st) b) \<and>
        (\<forall>p. p \<noteq> [] \<longrightarrow> prefix p (pending_sequence st) \<longrightarrow> p \<notin> bound bindings (current_mode st)))"

lemma find_bound: "find (\<lambda>b. bs_sequence b = p) (mode_bindings bindings mode) = None \<longleftrightarrow> p \<notin> bound bindings mode"
  by (auto simp: find_None_iff bound_def)

lemma bound_prefix:
  "(\<exists>b \<in> set (mode_bindings bindings mode). prefix p (bs_sequence b)) \<longleftrightarrow> (\<exists>q \<in> bound bindings mode. prefix p q)"
  by (auto simp: bound_def)

text \<open>The three answers to a key.\<close>

lemma resolve_key_cases:
  assumes "resolve_key bindings modes key st = (r, t)"
  obtains (exact) b where "r = ExactMatch \<lparr>bm_mode = current_mode st, bm_sequence = bs_sequence b, bm_target = bs_target b\<rparr>"
      "find (\<lambda>b. bs_sequence b = pending_sequence st @ [key]) (mode_bindings bindings (current_mode st)) = Some b"
      "bs_sequence b = pending_sequence st @ [key]"
      "t = clear_pending st"
  | (prefix) q where "r = PrefixMatch" "t = push_pending key st" "pending_sequence st @ [key] \<notin> bound bindings (current_mode st)"
      "q \<in> bound bindings (current_mode st)" "prefix (pending_sequence st @ [key]) q"
  | (unmatched) policy where "r = Unmatched (current_mode st) (pending_sequence st @ [key]) policy" "t = clear_pending st"
      "\<forall>q \<in> bound bindings (current_mode st). \<not> prefix (pending_sequence st @ [key]) q"
proof -
  let ?p = "pending_sequence st @ [key]" and ?bs = "mode_bindings bindings (current_mode st)"
  have [simp]: "clear_pending (push_pending key st) = clear_pending st" by (simp add: clear_pending_def push_pending_def)
  have [simp]: "current_mode (push_pending key st) = current_mode st" "pending_sequence (push_pending key st) = ?p"
    by (simp_all add: push_pending_def)
  show ?thesis
  proof (cases "find (\<lambda>b. bs_sequence b = ?p) ?bs")
    case (Some b)
    moreover have "bs_sequence b = ?p" using Some by (auto simp: find_Some_iff)
    ultimately show ?thesis using assms exact [of b] by (simp add: resolve_key_def Let_def)
  next
    case None
    then have no: "?p \<notin> bound bindings (current_mode st)" unfolding find_bound .
    show ?thesis
    proof (cases "\<exists>q \<in> bound bindings (current_mode st). Sublist.prefix ?p q")
      case True
      then have "r = PrefixMatch" "t = push_pending key st"
        using assms None by (simp_all add: resolve_key_def Let_def bound_prefix)
      then show ?thesis using True no prefix by blast
    next
      case False
      then show ?thesis using assms None unmatched by (auto simp: resolve_key_def Let_def bound_prefix)
    qed
  qed
qed

lemma resolve_key_pending:
  assumes ok: "pending_ok bindings st" and r: "resolve_key bindings modes key st = (r, t)"
  shows "pending_ok bindings t"
  using r
proof (cases rule: resolve_key_cases)
  case (prefix q)
  let ?p = "pending_sequence st @ [key]"
  have "strict_prefix ?p q" using prefix(3-5) by (metis prefix_order.dual_order.not_eq_order_implies_strict)
  moreover have "p \<notin> bound bindings (current_mode st)" if "p \<noteq> []" "Sublist.prefix p ?p" for p
  proof (cases "p = ?p")
    case False
    then have "Sublist.prefix p (pending_sequence st)" using that(2) by simp
    then show ?thesis using ok that(1) by (auto simp: pending_ok_def)
  qed (use prefix(3) in simp)
  ultimately show ?thesis using prefix(2,4) by (auto simp: pending_ok_def push_pending_def)
qed (simp_all add: pending_ok_def clear_pending_def)

fun consumed :: "'a input_resolution \<Rightarrow> key_sequence" where
  "consumed (ExactMatch m) = bm_sequence m"
| "consumed PrefixMatch = []"
| "consumed (Unmatched _ s _) = s"

lemma resolve_key_conserves:
  assumes "resolve_key bindings modes key st = (r, t)"
  shows "consumed r @ pending_sequence t = pending_sequence st @ [key] \<and> current_mode t = current_mode st"
  using assms by (cases rule: resolve_key_cases) (simp_all add: clear_pending_def push_pending_def)

lemma type_keys_conserves:
  "type_keys bindings modes ks st = (rs, t) \<Longrightarrow>
   concat (map consumed rs) @ pending_sequence t = pending_sequence st @ ks \<and> current_mode t = current_mode st \<and>
   length rs = length ks"
proof (induction ks arbitrary: st rs)
  case (Cons k ks)
  obtain r s qs where r: "resolve_key bindings modes k st = (r, s)" "type_keys bindings modes ks s = (qs, t)" "rs = r # qs"
    using Cons.prems by (auto split: prod.splits)
  then show ?case using Cons.IH [OF r(2)] resolve_key_conserves [OF r(1)] by simp
qed simp

lemma type_bound:
  assumes free: "\<And>p. p \<noteq> [] \<Longrightarrow> strict_prefix p q \<Longrightarrow> p \<notin> bound bindings (current_mode st)"
    and b: "find (\<lambda>b. bs_sequence b = q) (mode_bindings bindings (current_mode st)) = Some b"
    and "q = pending_sequence st @ ks" and "ks \<noteq> []"
  shows "type_keys bindings modes ks st =
    (replicate (length ks - 1) PrefixMatch @ [ExactMatch \<lparr>bm_mode = current_mode st, bm_sequence = q, bm_target = bs_target b\<rparr>],
     clear_pending st)"
  using assms
proof (induction ks arbitrary: st)
  case (Cons k ks)
  obtain r t where r: "resolve_key bindings modes k st = (r, t)" by fastforce
  have q: "q \<in> bound bindings (current_mode st)" using Cons.prems(2) find_bound by (metis option.distinct(1))
  have bq: "bs_sequence b = q" using Cons.prems(2) by (auto simp: find_Some_iff)
  show ?case
  proof (cases "ks = []")
    case True
    from r show ?thesis
    proof (cases rule: resolve_key_cases)
      case (exact c)
      then show ?thesis using True Cons.prems(2,3) r by simp
    qed (use True Cons.prems(3) q in auto)
  next
    case False
    have p: "strict_prefix (pending_sequence st @ [k]) q" using Cons.prems(3) False by (auto simp: strict_prefix_def)
    then have no: "pending_sequence st @ [k] \<notin> bound bindings (current_mode st)" using Cons.prems(1) by blast
    from r have "r = PrefixMatch \<and> t = push_pending k st"
    proof (cases rule: resolve_key_cases)
      case (exact c)
      then show ?thesis using no find_bound by (metis option.distinct(1))
    qed (use p q in \<open>auto simp: strict_prefix_def\<close>)
    moreover have "type_keys bindings modes ks (push_pending k st) =
      (replicate (length ks - 1) PrefixMatch @
        [ExactMatch \<lparr>bm_mode = current_mode (push_pending k st), bm_sequence = q, bm_target = bs_target b\<rparr>],
       clear_pending (push_pending k st))"
      by (rule Cons.IH) (use Cons.prems False in \<open>auto simp: push_pending_def\<close>)
    ultimately show ?thesis using r False by (cases ks) (simp_all add: push_pending_def clear_pending_def)
  qed
qed simp

interpretation keys: service input_state_default "handle_input bindings modes" "\<lambda>_ _. True" "pending_ok bindings"
  for bindings :: "'a bindings" and modes
proof unfold_locales
  show "pending_ok bindings input_state_default" by (simp add: pending_ok_def input_state_default_def)
  show "wp (handle_input bindings modes e) (\<lambda>_. pending_ok bindings) (\<lambda>_. pending_ok bindings) s"
    if ok: "pending_ok bindings s" for e s
  proof (cases e)
    case (Typed key)
    obtain r t where "resolve_key bindings modes key s = (r, t)" by fastforce
    then show ?thesis using resolve_key_pending [OF ok] Typed by (simp add: wp_def)
  qed (use ok in \<open>auto simp: wp_def set_mode_def clear_pending_def pending_ok_def\<close>)
qed

end
