(* ===== verification/Protocol_Framing.thy ===== *)
theory Protocol_Framing
  imports Embers_Prelude "HOL-Library.Word"
begin

text \<open>
  Frames of the client protocol (\<open>crates/embers-protocol/src/framing.rs\<close>): a header of 13 bytes (length,
  type, request id, little endian) and a payload. A connection is the bytes it still delivers before its
  end. The lemmas show that a reader gets back the frames a writer wrote, and what it makes of a stream
  that ends early.
\<close>

type_synonym bytes = "8 word list"

datatype protocol_error =
    InvalidFrameType "8 word"
  | FrameTooLarge nat
  | UnexpectedEof

definition max_frame_len :: nat where "max_frame_len = 8 * 1024 * 1024"
definition frame_header_len :: nat where "frame_header_len = 13"

datatype frame_type = Request | Response | Event

fun frame_type_code :: "frame_type \<Rightarrow> 8 word" where
  "frame_type_code Request = 1"
| "frame_type_code Response = 2"
| "frame_type_code Event = 3"

definition frame_type_try_from :: "8 word \<Rightarrow> (protocol_error, frame_type) outcome" where
  "frame_type_try_from b =
     (if b = 1 then Ok Request else if b = 2 then Ok Response else if b = 3 then Ok Event
      else Err (InvalidFrameType b))"

record raw_frame =
  rf_frame_type :: frame_type
  rf_request_id :: "64 word"
  rf_payload :: bytes

definition raw_frame_new :: "frame_type \<Rightarrow> 64 word \<Rightarrow> bytes \<Rightarrow> raw_frame" where
  "raw_frame_new ty request payload = \<lparr>rf_frame_type = ty, rf_request_id = request, rf_payload = payload\<rparr>"

section \<open>Little endian\<close>

primrec to_le_bytes :: "nat \<Rightarrow> nat \<Rightarrow> bytes" where
  "to_le_bytes 0 n = []"
| "to_le_bytes (Suc k) n = word_of_nat n # to_le_bytes k (n div 256)"

primrec from_le_bytes :: "bytes \<Rightarrow> nat" where
  "from_le_bytes [] = 0"
| "from_le_bytes (b # bs) = unat b + 256 * from_le_bytes bs"

section \<open>Reading and writing\<close>

text \<open>Reading past the end consumes what is left.\<close>

definition read_exact :: "nat \<Rightarrow> (bytes, protocol_error, bytes) proc" where
  "read_exact n = (\<lambda>s. if n \<le> length s then (Ok (take n s), drop n s) else (Err UnexpectedEof, []))"

definition read_body :: "bytes \<Rightarrow> (bytes, protocol_error, raw_frame option) proc" where
  "read_body header =
     (let len = from_le_bytes (take 4 header) in
      if len > max_frame_len then raise (FrameTooLarge len)
      else
        pbind (reads (\<lambda>_. frame_type_try_from (header ! 4))) (\<lambda>ty.
        let request = word_of_nat (from_le_bytes (drop 5 header)) in
        pbind (read_exact len) (\<lambda>payload.
        ret (Some (raw_frame_new ty request payload)))))"

definition read_frame :: "(bytes, protocol_error, raw_frame option) proc" where
  "read_frame =
     match_result (read_exact frame_header_len) read_body
       (\<lambda>e. if e = UnexpectedEof then ret None else raise e)"

definition write_all :: "bytes \<Rightarrow> (bytes, protocol_error, unit) proc" where
  "write_all bs = modify (\<lambda>s. s @ bs)"

text \<open>Flushing changes nothing in what has been written.\<close>

definition write_frame_inner :: "raw_frame \<Rightarrow> (bytes, protocol_error, unit) proc" where
  "write_frame_inner frame =
     (if length (rf_payload frame) > max_frame_len then raise (FrameTooLarge (length (rf_payload frame)))
      else
        pbind (write_all (to_le_bytes 4 (length (rf_payload frame)))) (\<lambda>_.
        pbind (write_all [frame_type_code (rf_frame_type frame)]) (\<lambda>_.
        pbind (write_all (to_le_bytes 8 (unat (rf_request_id frame)))) (\<lambda>_.
        write_all (rf_payload frame)))))"

definition write_frame :: "raw_frame \<Rightarrow> (bytes, protocol_error, unit) proc" where
  "write_frame frame = write_frame_inner frame"

text \<open>A connection read to its end.\<close>

function read_frames :: "bytes \<Rightarrow> (protocol_error, raw_frame list) outcome" where
  "read_frames s =
     (case read_frame s of
        (Ok None, _) \<Rightarrow> Ok []
      | (Ok (Some f), t) \<Rightarrow> if length t < length s then rbind (read_frames t) (\<lambda>fs. Ok (f # fs)) else Diverge
      | (Err e, _) \<Rightarrow> Err e
      | (Panic, _) \<Rightarrow> Panic
      | (Diverge, _) \<Rightarrow> Diverge)"
  by pat_completeness auto
termination
  by (relation "measure length") auto

declare read_frames.simps [simp del]

section \<open>Lemmas\<close>

lemma length_to_le [simp]: "length (to_le_bytes k n) = k"
  by (induction k arbitrary: n) simp_all

lemma from_to_le: "n < 256 ^ k \<Longrightarrow> from_le_bytes (to_le_bytes k n) = n"
proof (induction k arbitrary: n)
  case (Suc k)
  then have "n div 256 < 256 ^ k" by (simp add: div_less_iff_less_mult mult.commute)
  moreover have "unat (word_of_nat n :: 8 word) = n mod 256" by (simp add: unat_of_nat)
  ultimately show ?case using Suc.IH [of "n div 256"] by simp
qed simp

lemma frame_type_roundtrip [simp]: "frame_type_try_from (frame_type_code ty) = Ok ty"
  by (cases ty) (simp_all add: frame_type_try_from_def)

lemma frame_type_exact: "frame_type_try_from b = Ok ty \<longleftrightarrow> b = frame_type_code ty"
  by (cases ty) (auto simp: frame_type_try_from_def split: if_splits)

definition header_of :: "raw_frame \<Rightarrow> bytes" where
  "header_of f =
     to_le_bytes 4 (length (rf_payload f)) @ frame_type_code (rf_frame_type f) # to_le_bytes 8 (unat (rf_request_id f))"

abbreviation encoded :: "raw_frame \<Rightarrow> bytes" where
  "encoded f \<equiv> header_of f @ rf_payload f"

lemma write_frame_run:
  "write_frame f s =
     (if length (rf_payload f) \<le> max_frame_len then (Ok (), s @ encoded f)
      else (Err (FrameTooLarge (length (rf_payload f))), s))"
  by (simp add: write_frame_def write_frame_inner_def write_all_def pbind_def modify_def raise_def header_of_def)

lemma length_header [simp]: "length (header_of f) = frame_header_len"
  by (simp add: header_of_def frame_header_len_def)

lemma read_frame_encoded:
  assumes "length (rf_payload f) \<le> max_frame_len"
  shows "read_frame (encoded f @ rest) = (Ok (Some f), rest)"
proof -
  let ?h = "header_of f"
  have t: "take 4 ?h = to_le_bytes 4 (length (rf_payload f))" "?h ! 4 = frame_type_code (rf_frame_type f)"
    "drop 5 ?h = to_le_bytes 8 (unat (rf_request_id f))"
    by (simp_all add: header_of_def nth_append del: to_le_bytes.simps)
  have "from_le_bytes (take 4 ?h) = length (rf_payload f)"
    unfolding t(1) by (rule from_to_le) (use assms in \<open>simp add: max_frame_len_def\<close>)
  moreover have "from_le_bytes (drop 5 ?h) = unat (rf_request_id f)"
    unfolding t(3) by (rule from_to_le) (use unsigned_less [of "rf_request_id f", where 'a = nat] in simp)
  ultimately have "read_body ?h (rf_payload f @ rest) = (Ok (Some f), rest)"
    using assms t(2)
    by (simp add: read_body_def Let_def pbind_def reads_def read_exact_def ret_def raw_frame_new_def)
  then show ?thesis by (simp add: read_frame_def match_result_def read_exact_def)
qed

lemma read_frames_encoded:
  assumes "\<And>f. f \<in> set fs \<Longrightarrow> length (rf_payload f) \<le> max_frame_len"
  shows "read_frames (concat (map encoded fs)) = Ok fs"
  using assms
proof (induction fs)
  case Nil
  show ?case
    by (subst read_frames.simps) (simp add: read_frame_def match_result_def read_exact_def frame_header_len_def ret_def)
next
  case (Cons f fs)
  have "0 < length (header_of f)" by (simp add: frame_header_len_def)
  then show ?case
    using Cons read_frame_encoded [of f "concat (map encoded fs)"]
    by (subst read_frames.simps) simp
qed

lemma write_frames_run:
  assumes "\<And>f. f \<in> set fs \<Longrightarrow> length (rf_payload f) \<le> max_frame_len"
  shows "for_each fs write_frame s = (Ok (), s @ concat (map encoded fs))"
  using assms by (induction fs arbitrary: s) (simp_all add: ret_def pbind_def write_frame_run)

text \<open>
  A frame cut off in its payload is an error; one cut off in its header counts as the end of the
  connection, so the reader cannot tell it from an orderly close.
\<close>

lemma read_frame_cut:
  assumes "length (rf_payload f) \<le> max_frame_len" and "n < length (encoded f)"
  shows "fst (read_frame (take n (encoded f))) = (if n < frame_header_len then Ok None else Err UnexpectedEof)"
proof (cases "n < frame_header_len")
  case True
  then show ?thesis by (simp add: read_frame_def match_result_def read_exact_def ret_def)
next
  case False
  let ?h = "header_of f"
  have t: "take 4 ?h = to_le_bytes 4 (length (rf_payload f))" "?h ! 4 = frame_type_code (rf_frame_type f)"
    by (simp_all add: header_of_def nth_append del: to_le_bytes.simps)
  have l: "from_le_bytes (take 4 ?h) = length (rf_payload f)"
    unfolding t(1) by (rule from_to_le) (use assms in \<open>simp add: max_frame_len_def\<close>)
  have s: "take n (encoded f) = ?h @ take (n - frame_header_len) (rf_payload f)" using False by simp
  have "n - frame_header_len < length (rf_payload f)" using assms(2) False by simp
  then have "read_body ?h (take (n - frame_header_len) (rf_payload f)) = (Err UnexpectedEof, [])"
    using assms l t(2) False by (simp add: read_body_def Let_def pbind_def reads_def read_exact_def)
  then show ?thesis using False unfolding s by (simp add: read_frame_def match_result_def read_exact_def)
qed

end
