(* ===== verification/Reply_Hold.thy ===== *)
theory Reply_Hold
  imports Service Client_Keys
begin

text \<open>
  Holding back replies (\<open>crates/embers-server/src/reply_hold.rs\<close>): the emulator's replies that follow a
  forwarded graphics query wait for the host's answer, for a deadline or for too many of them. Bytes are
  natural numbers below 256 and times are in nanoseconds. The lemmas show that no reply is lost, reordered
  or repeated, that only a bounded number is held, and that nothing is held without a query that waits.
\<close>

definition reply_hold_timeout :: int where "reply_hold_timeout = 500 * 1000000"
definition max_held_reply_bytes :: nat where "max_held_reply_bytes = 64 * 1024"

datatype graphics_id = Image nat | Number nat

record reply_hold =
  rh_enabled :: bool
  rh_pending :: "graphics_id list"
  rh_deadline :: "int option"
  rh_held :: "nat list"

definition reply_hold_default :: reply_hold where
  "reply_hold_default = \<lparr>rh_enabled = False, rh_pending = [], rh_deadline = None, rh_held = []\<rparr>"

section \<open>Graphics commands\<close>

text \<open>The position of the first occurrence.\<close>

fun find_sub :: "nat list \<Rightarrow> nat list \<Rightarrow> nat option" where
  "find_sub [] needle = (if needle = [] then Some 0 else None)"
| "find_sub (b # bs) needle =
     (if take (length needle) (b # bs) = needle then Some 0 else map_option Suc (find_sub bs needle))"

definition before_byte :: "nat \<Rightarrow> nat list \<Rightarrow> nat list" where
  "before_byte c bs = takeWhile (\<lambda>b. b \<noteq> c) bs"

lemma find_sub_length: "find_sub bs needle = Some i \<Longrightarrow> i + length needle \<le> length bs"
  by (induction bs arbitrary: i) (auto split: if_splits dest: arg_cong [where f = length])

function graphics_commands :: "nat list \<Rightarrow> nat list list" where
  "graphics_commands bytes =
     (case find_sub bytes [27, 95, 71] of
        None \<Rightarrow> []
      | Some at \<Rightarrow>
          let start = at + 3 in
          (case find_sub (drop start bytes) [27, 92] of
             None \<Rightarrow> []
           | Some len \<Rightarrow>
               before_byte 59 (take len (drop start bytes)) # graphics_commands (drop (start + len + 2) bytes)))"
  by pat_completeness auto
termination
  by (relation "measure length") (auto dest!: find_sub_length)

declare graphics_commands.simps [simp del]

text \<open>\<open>split\<close> at every occurrence of a byte.\<close>

fun split_on :: "nat \<Rightarrow> nat list \<Rightarrow> nat list list" where
  "split_on c [] = [[]]"
| "split_on c (b # bs) =
     (if b = c then [] # split_on c bs
      else (case split_on c bs of [] \<Rightarrow> [[b]] | w # ws \<Rightarrow> (b # w) # ws))"

definition control_keys :: "nat list \<Rightarrow> (nat list \<times> nat list) list" where
  "control_keys control = List.map_filter (\<lambda>pair. split_once 61 pair) (split_on 44 control)"

fun answered_from :: "bool \<Rightarrow> (nat list \<times> nat list) list \<Rightarrow> bool" where
  "answered_from query [] = query"
| "answered_from query ((key, value) # ps) =
     (if key = [97] then answered_from (value = [113]) ps
      else if key = [113] \<and> value \<noteq> [48] then False
      else answered_from query ps)"

definition is_answered_query :: "nat list \<Rightarrow> bool" where
  "is_answered_query control = answered_from False (control_keys control)"

text \<open>\<open>str::parse::<u32>\<close> on the bytes of a value; digits are ASCII, so other bytes fail either way.\<close>

fun digits_u32 :: "nat \<Rightarrow> nat list \<Rightarrow> nat option" where
  "digits_u32 acc [] = Some acc"
| "digits_u32 acc (d # ds) =
     (if 48 \<le> d \<and> d \<le> 57 \<and> 10 * acc + (d - 48) \<le> 4294967295 then digits_u32 (10 * acc + (d - 48)) ds else None)"

definition parse_u32 :: "nat list \<Rightarrow> nat option" where
  "parse_u32 s =
     (case s of
        [] \<Rightarrow> None
      | c # cs \<Rightarrow> if c = 43 then (if cs = [] then None else digits_u32 0 cs) else digits_u32 0 s)"

definition graphics_ids :: "nat list \<Rightarrow> graphics_id list" where
  "graphics_ids control =
     List.map_filter (\<lambda>(key, value).
        if key = [105] then map_option Image (parse_u32 value)
        else if key = [73] then map_option Number (parse_u32 value)
        else None) (control_keys control)"

section \<open>Operations\<close>

text \<open>Each operation returns the bytes to write to the pane now.\<close>

definition release :: "reply_hold \<Rightarrow> nat list \<times> reply_hold" where
  "release h = (rh_held h, h\<lparr>rh_pending := [], rh_deadline := None, rh_held := []\<rparr>)"

definition set_enabled :: "bool \<Rightarrow> reply_hold \<Rightarrow> nat list \<times> reply_hold" where
  "set_enabled enabled h = (let h = h\<lparr>rh_enabled := enabled\<rparr> in if enabled then ([], h) else release h)"

definition forwarded_queries :: "nat list \<Rightarrow> graphics_id list" where
  "forwarded_queries write =
     List.map_filter (\<lambda>control. case graphics_ids control of [] \<Rightarrow> None | i # _ \<Rightarrow> Some i)
       (filter is_answered_query (graphics_commands write))"

definition forwarded :: "nat list \<Rightarrow> int \<Rightarrow> reply_hold \<Rightarrow> reply_hold" where
  "forwarded write now h =
     (if \<not> rh_enabled h then h
      else
        let queries = forwarded_queries write;
            h = h\<lparr>rh_pending := rh_pending h @ queries\<rparr>
        in if queries \<noteq> [] then h\<lparr>rh_deadline := Some (now + reply_hold_timeout)\<rparr> else h)"

definition replies :: "nat list \<Rightarrow> reply_hold \<Rightarrow> nat list \<times> reply_hold" where
  "replies bytes h =
     (if rh_pending h = [] then (bytes, h)
      else
        let h = h\<lparr>rh_held := rh_held h @ bytes\<rparr> in
        if length (rh_held h) > max_held_reply_bytes then release h else ([], h))"

definition pane_input :: "nat list \<Rightarrow> reply_hold \<Rightarrow> nat list \<times> reply_hold" where
  "pane_input bytes h =
     (if rh_pending h = [] then ([], h)
      else
        let h = h\<lparr>rh_pending := fold remove1 (concat (map graphics_ids (graphics_commands bytes))) (rh_pending h)\<rparr> in
        if rh_pending h = [] then release h else ([], h))"

definition expire :: "int \<Rightarrow> reply_hold \<Rightarrow> nat list \<times> reply_hold" where
  "expire now h =
     (case rh_deadline h of
        Some deadline \<Rightarrow> if now \<ge> deadline then release h else ([], h)
      | None \<Rightarrow> ([], h))"

section \<open>Invariant\<close>

definition hold_ok :: "reply_hold \<Rightarrow> bool" where
  "hold_ok h \<longleftrightarrow>
     (rh_deadline h = None \<longleftrightarrow> rh_pending h = []) \<and> (rh_held h \<noteq> [] \<longrightarrow> rh_pending h \<noteq> []) \<and>
     (rh_pending h \<noteq> [] \<longrightarrow> rh_enabled h) \<and> length (rh_held h) \<le> max_held_reply_bytes"

datatype hold_event =
    SetEnabled bool
  | Forwarded "nat list" int
  | Replies "nat list"
  | PaneInput "nat list"
  | Expire int

fun handle_hold :: "hold_event \<Rightarrow> (reply_hold, unit, nat list) proc" where
  "handle_hold (SetEnabled e) h = (case set_enabled e h of (out, t) \<Rightarrow> (Ok out, t))"
| "handle_hold (Forwarded w now) h = (Ok [], forwarded w now h)"
| "handle_hold (Replies bs) h = (case replies bs h of (out, t) \<Rightarrow> (Ok out, t))"
| "handle_hold (PaneInput bs) h = (case pane_input bs h of (out, t) \<Rightarrow> (Ok out, t))"
| "handle_hold (Expire now) h = (case expire now h of (out, t) \<Rightarrow> (Ok out, t))"

lemma hold_step_ok: "hold_ok h \<Longrightarrow> hold_ok (snd (handle_hold e h))"
proof (cases e)
  case (SetEnabled b)
  assume "hold_ok h"
  then show ?thesis using SetEnabled by (auto simp: set_enabled_def Let_def hold_ok_def release_def split: prod.split)
next
  case (Forwarded w now)
  assume "hold_ok h"
  then show ?thesis using Forwarded by (auto simp: forwarded_def Let_def hold_ok_def)
next
  case (Replies bs)
  assume "hold_ok h"
  then show ?thesis using Replies by (auto simp: replies_def Let_def hold_ok_def release_def split: prod.split)
next
  case (PaneInput bs)
  assume "hold_ok h"
  then show ?thesis using PaneInput by (auto simp: pane_input_def Let_def hold_ok_def release_def split: prod.split)
next
  case (Expire now)
  assume "hold_ok h"
  then show ?thesis using Expire by (auto simp: expire_def Let_def hold_ok_def release_def split: prod.split option.split)
qed

interpretation hold: service reply_hold_default handle_hold "\<lambda>_ _. True" hold_ok
proof unfold_locales
  show "hold_ok reply_hold_default" by (simp add: hold_ok_def reply_hold_default_def)
  show "wp (handle_hold e) (\<lambda>_. hold_ok) (\<lambda>_. hold_ok) h" if "hold_ok h" for h e
    using hold_step_ok [OF that, of e] by (cases e) (auto simp: wp_def split: prod.splits)
qed

section \<open>Order\<close>

text \<open>
  The specification: a queue of replies that have been given to the hold. Whatever an operation hands out
  comes from the front of the queue, and the rest is what is held.
\<close>

definition given :: "hold_event \<Rightarrow> nat list" where
  "given e = (case e of Replies bs \<Rightarrow> bs | _ \<Rightarrow> [])"

lemma hold_step_queue:
  assumes "hold_ok h" and "handle_hold e h = (Ok out, t)"
  shows "rh_held h @ given e = out @ rh_held t"
  using assms
  by (cases e)
    (auto simp: given_def set_enabled_def forwarded_def replies_def pane_input_def expire_def release_def Let_def hold_ok_def
      split: if_splits option.splits)

primrec run_hold :: "hold_event list \<Rightarrow> reply_hold \<Rightarrow> nat list \<times> reply_hold" where
  "run_hold [] h = ([], h)"
| "run_hold (e # es) h =
     (case handle_hold e h of
        (Ok out, t) \<Rightarrow> (case run_hold es t of (out', u) \<Rightarrow> (out @ out', u))
      | (_, t) \<Rightarrow> run_hold es t)"

lemma handle_hold_total: "\<exists>out t. handle_hold e h = (Ok out, t)"
  by (cases e) (auto split: prod.split)

lemma run_hold_queue:
  "hold_ok h \<Longrightarrow> run_hold es h = (out, t) \<Longrightarrow> rh_held h @ concat (map given es) = out @ rh_held t \<and> hold_ok t"
proof (induction es arbitrary: h out)
  case (Cons e es)
  obtain o1 h1 where 1: "handle_hold e h = (Ok o1, h1)" using handle_hold_total by blast
  obtain o2 where 2: "run_hold es h1 = (o2, t)" "out = o1 @ o2" using Cons.prems(2) 1 by (auto split: prod.splits)
  have "hold_ok h1" using hold_step_ok [OF Cons.prems(1), of e] 1 by simp
  then show ?case using Cons.IH [OF _ 2(1)] hold_step_queue [OF Cons.prems(1) 1] 2(2) by (metis append.assoc concat.simps(2) list.map(2))
qed simp

lemma expire_empties:
  assumes "hold_ok h" and "rh_deadline h = Some d" and "d \<le> now"
  shows "expire now h = (rh_held h, h\<lparr>rh_pending := [], rh_deadline := None, rh_held := []\<rparr>)"
  using assms by (simp add: expire_def release_def)

end
