(* ===== verification/Split_Resize.thy ===== *)
theory Split_Resize
  imports Embers_Prelude
begin

text \<open>
  Client layout arithmetic: moving the divider of a split (\<open>crates/embers-client/src/split_resize.rs\<close>),
  the numbers of windows (\<open>numbering.rs\<close>) and the labels of hints (\<open>hints.rs\<close>). The lemmas show that moving
  a divider keeps the total and the minimum sizes, that window numbers and positions correspond, and that
  no label is the start of another.
\<close>

section \<open>Dividers\<close>

definition min_len :: "nat list \<Rightarrow> nat \<Rightarrow> nat" where
  "min_len mins i = max (if i < length mins then mins ! i else 1) 1"

text \<open>One round of the loop over the donors: the state is the lengths, what is still needed and what was moved.\<close>

definition donate :: "nat list \<Rightarrow> nat \<Rightarrow> nat list \<times> nat \<times> nat \<Rightarrow> nat list \<times> nat \<times> nat" where
  "donate mins donor st =
     (case st of (lengths, needed, moved) \<Rightarrow>
        let spare = lengths ! donor - min_len mins donor;
            amount = min spare needed
        in (lengths[donor := lengths ! donor - amount], needed - amount, moved + amount))"

fun donate_all :: "nat list \<Rightarrow> nat list \<Rightarrow> nat list \<times> nat \<times> nat \<Rightarrow> nat list \<times> nat \<times> nat" where
  "donate_all mins [] st = st"
| "donate_all mins (d # ds) (lengths, needed, moved) =
     (if needed = 0 then (lengths, needed, moved) else donate_all mins ds (donate mins d (lengths, needed, moved)))"

definition move_divider :: "nat list \<Rightarrow> nat list \<Rightarrow> nat \<Rightarrow> int \<Rightarrow> nat list option" where
  "move_divider lengths mins index delta =
     (if index + 1 \<ge> length lengths \<or> delta = 0 then None
      else
        let needed = min (nat \<bar>delta\<bar>) u16_max;
            receiver = (if delta > 0 then index else index + 1);
            donors = (if delta > 0 then [index + 1..<length lengths] else rev [0..<index + 1])
        in (case donate_all mins donors (lengths, needed, 0) of (ls, _, moved) \<Rightarrow>
              if moved = 0 then None
              else Some (map (\<lambda>l. max l 1) (ls[receiver := min (ls ! receiver + moved) u16_max]))))"

lemma sum_list_update_le: "i < length xs \<Longrightarrow> v \<le> xs ! i \<Longrightarrow> sum_list (xs[i := xs ! i - v]) + v = sum_list (xs :: nat list)"
  by (induction xs arbitrary: i) (auto simp: nth_Cons split: nat.splits)

lemma sum_list_update_add: "i < length xs \<Longrightarrow> sum_list (xs[i := xs ! i + v]) = sum_list (xs :: nat list) + v"
  by (induction xs arbitrary: i) (auto simp: nth_Cons split: nat.splits)

text \<open>What the loop keeps: the total, what it did not touch, and the minimum sizes of what it did.\<close>

lemma donate_all_keeps:
  assumes "\<And>d. d \<in> set ds \<Longrightarrow> d < length lengths" and "distinct ds"
    and "donate_all mins ds (lengths, needed, moved) = (ls, needed', moved')"
  shows "length ls = length lengths \<and> sum_list ls + moved' = sum_list lengths + moved \<and>
    needed' + moved' = needed + moved \<and> moved \<le> moved' \<and>
    (\<forall>i. i \<notin> set ds \<longrightarrow> ls ! i = lengths ! i) \<and>
    (\<forall>i \<in> set ds. ls ! i \<le> lengths ! i \<and> min (lengths ! i) (min_len mins i) \<le> ls ! i)"
  using assms
proof (induction ds arbitrary: lengths needed moved)
  case (Cons d ds)
  show ?case
  proof (cases "needed = 0")
    case False
    let ?a = "min (lengths ! d - min_len mins d) needed"
    let ?l = "lengths[d := lengths ! d - ?a]"
    have d: "d < length lengths" using Cons.prems(1) by simp
    have run: "donate_all mins ds (?l, needed - ?a, moved + ?a) = (ls, needed', moved')"
      using Cons.prems(3) False by (simp add: donate_def Let_def)
    have sum: "sum_list ?l + ?a = sum_list lengths" by (rule sum_list_update_le [OF d]) simp
    have dl: "d' < length ?l" if "d' \<in> set ds" for d' using Cons.prems(1) that by simp
    have dd: "distinct ds" and nd: "d \<notin> set ds" using Cons.prems(2) by simp_all
    note ih = Cons.IH [OF dl dd run]
    have keep: "length ls = length lengths" "sum_list ls + moved' = sum_list ?l + (moved + ?a)" "needed' + moved' = needed - ?a + (moved + ?a)"
      "moved + ?a \<le> moved'" using ih by simp_all
    have free: "ls ! i = ?l ! i" if "i \<notin> set ds" for i using ih that by blast
    have low: "ls ! i \<le> ?l ! i" "min (?l ! i) (min_len mins i) \<le> ls ! i" if "i \<in> set ds" for i using ih that by blast+
    have at_d: "ls ! d = lengths ! d - ?a" using free [OF nd] d by simp
    have other: "?l ! i = lengths ! i" if "i \<noteq> d" for i using that by simp
    have low_d: "min (lengths ! d) (min_len mins d) \<le> ls ! d" unfolding at_d by simp
    show ?thesis
    proof (intro conjI allI impI ballI)
      fix i
      assume "i \<in> set (d # ds)"
      then show "ls ! i \<le> lengths ! i" using low(1) [of i] other [of i] at_d by (cases "i = d") auto
    next
      fix i
      assume "i \<in> set (d # ds)"
      then show "min (lengths ! i) (min_len mins i) \<le> ls ! i"
        using low(2) [of i] other [of i] low_d by (cases "i = d") auto
    next
      fix i
      assume "i \<notin> set (d # ds)"
      then show "ls ! i = lengths ! i" using free [of i] other [of i] by simp
    qed (use keep sum in simp_all)
  qed (use Cons.prems in auto)
qed auto

lemma move_divider_keeps:
  assumes "move_divider lengths mins index delta = Some sizes" and "\<And>l. l \<in> set lengths \<Longrightarrow> 1 \<le> l"
    and "sum_list lengths \<le> u16_max"
  shows "length sizes = length lengths \<and> sum_list sizes = sum_list lengths \<and>
    (\<forall>i < length lengths. min (lengths ! i) (min_len mins i) \<le> sizes ! i) \<and>
    (\<exists>moved. 0 < moved \<and> moved \<le> nat \<bar>delta\<bar> \<and>
       (if delta > 0 then sizes ! index = lengths ! index + moved else sizes ! (index + 1) = lengths ! (index + 1) + moved))"
proof -
  let ?needed = "min (nat \<bar>delta\<bar>) u16_max" and ?r = "if delta > 0 then index else index + 1"
  let ?donors = "if delta > 0 then [index + 1..<length lengths] else rev [0..<index + 1]"
  have i: "index + 1 < length lengths" using assms(1) by (auto simp: move_divider_def split: if_splits)
  obtain ls n' moved where run: "donate_all mins ?donors (lengths, ?needed, 0) = (ls, n', moved)"
    by (metis prod_cases3)
  have s: "moved \<noteq> 0" "sizes = map (\<lambda>l. max l 1) (ls[?r := min (ls ! ?r + moved) u16_max])"
    using assms(1) run by (auto simp: move_divider_def Let_def split: if_splits)
  have don: "d < length lengths" if "d \<in> set ?donors" for d using that i by (auto split: if_splits)
  have dist: "distinct ?donors" by simp
  note k = donate_all_keeps [OF don dist run]
  have len: "length ls = length lengths" using k by blast
  have low: "min (lengths ! j) (min_len mins j) \<le> ls ! j" for j
    using k by (cases "j \<in> set ?donors") (auto simp del: set_upt set_rev)
  have r: "?r < length lengths" "?r \<notin> set ?donors" using i by auto
  then have lr: "ls ! ?r = lengths ! ?r" using k by blast
  have tot: "sum_list ls + moved = sum_list lengths" using k by simp
  have "ls ! ?r \<le> sum_list ls" using r(1) k by (intro elem_le_sum_list) simp
  then have fit: "min (ls ! ?r + moved) u16_max = ls ! ?r + moved" using tot assms(3) by simp
  have pos: "1 \<le> ls ! j" if "j < length lengths" for j
  proof -
    have "1 \<le> lengths ! j" using assms(2) that by simp
    moreover have "1 \<le> min_len mins j" by (simp add: min_len_def)
    ultimately show ?thesis using low [of j] by simp
  qed
  have "1 \<le> x" if x: "x \<in> set (ls[?r := ls ! ?r + moved])" for x
  proof -
    have "x = ls ! ?r + moved \<or> x \<in> set ls" using set_update_subset_insert x by fastforce
    then show ?thesis using s(1) pos len by (metis One_nat_def Suc_leI add_gr_0 in_set_conv_nth not_gr_zero)
  qed
  then have "map (\<lambda>l. max l 1) (ls[?r := ls ! ?r + moved]) = ls[?r := ls ! ?r + moved]"
    by (intro map_idI max_absorb1)
  then have sz: "sizes = ls[?r := ls ! ?r + moved]" using s(2) fit by simp
  show ?thesis
  proof (intro conjI allI impI)
    show "length sizes = length lengths" using sz k by simp
    show "sum_list sizes = sum_list lengths" using sum_list_update_add [of ?r ls moved] sz tot r(1) len by metis
    show "min (lengths ! j) (min_len mins j) \<le> sizes ! j" if "j < length lengths" for j
    proof (cases "j = ?r")
      case True
      then show ?thesis using sz r k lr by simp
    next
      case False
      then have "sizes ! j = ls ! j" using sz by simp
      then show ?thesis using low [of j] by simp
    qed
    show "\<exists>moved. 0 < moved \<and> moved \<le> nat \<bar>delta\<bar> \<and>
        (if delta > 0 then sizes ! index = lengths ! index + moved else sizes ! (index + 1) = lengths ! (index + 1) + moved)"
    proof (intro exI [of _ moved] conjI)
      show "0 < moved" using s(1) by simp
      show "moved \<le> nat \<bar>delta\<bar>" using k by auto
      have "sizes ! ?r = lengths ! ?r + moved" using sz r k lr by simp
      then show "if delta > 0 then sizes ! index = lengths ! index + moved else sizes ! (index + 1) = lengths ! (index + 1) + moved"
        by (simp split: if_splits)
    qed
  qed
qed

section \<open>Window numbers\<close>

definition max_base_index :: nat where "max_base_index = 1000000"

definition window_number :: "nat \<Rightarrow> nat option \<Rightarrow> nat" where
  "window_number pos base = pos + (case base of Some b \<Rightarrow> b | None \<Rightarrow> 0)"

definition window_position :: "nat \<Rightarrow> nat \<Rightarrow> nat \<Rightarrow> nat option" where
  "window_position number count base =
     (if number < base then None else if number - base < count then Some (number - base) else None)"

lemma window_position_iff: "window_position n count base = Some p \<longleftrightarrow> p < count \<and> n = window_number p (Some base)"
  by (auto simp: window_position_def window_number_def)

section \<open>Hint labels\<close>

definition hint_alphabet :: rstring where
  "hint_alphabet = str_lit ''asdfghjkl;qwertyuiopzxcvbnm''"

definition label_pairs :: "rstring \<Rightarrow> rstring list" where
  "label_pairs alphabet = concat (map (\<lambda>first. map (\<lambda>second. [first, second]) alphabet) alphabet)"

definition assign_labels :: "nat \<Rightarrow> rstring list" where
  "assign_labels count =
     (if count \<le> length hint_alphabet then map (\<lambda>ch. [ch]) (take count hint_alphabet)
      else take count (label_pairs hint_alphabet))"

lemma alphabet_distinct: "distinct hint_alphabet" and alphabet_length: "length hint_alphabet = 27"
  by (simp_all add: hint_alphabet_def str_lit_def)

lemma pairs_distinct: "distinct xs \<Longrightarrow> distinct (label_pairs xs)"
  by (auto simp: label_pairs_def distinct_map inj_on_def intro!: distinct_concat)

lemma pairs_length: "length (label_pairs xs) = length xs * length xs"
  by (simp add: label_pairs_def length_concat o_def sum_list_triv)

lemma assign_labels_correct:
  "length (assign_labels count) = min count 729 \<and> distinct (assign_labels count) \<and>
   (\<forall>a \<in> set (assign_labels count). \<forall>b \<in> set (assign_labels count). length a = length b) \<and>
   (count \<le> 27 \<longrightarrow> (\<forall>a \<in> set (assign_labels count). length a = 1))"
proof -
  have two: "length a = 2" if "a \<in> set (label_pairs xs)" for a xs using that by (auto simp: label_pairs_def)
  then have "length a = length b" if "a \<in> set (take n (label_pairs xs))" "b \<in> set (take n (label_pairs xs))" for a b n xs
    using that by (metis in_set_takeD)
  note same = this
  show ?thesis
  proof (cases "count \<le> 27")
    case True
    then have "assign_labels count = map (\<lambda>ch. [ch]) (take count hint_alphabet)" by (simp add: assign_labels_def alphabet_length)
    then show ?thesis using True alphabet_distinct by (simp add: alphabet_length distinct_map inj_on_def distinct_take)
  next
    case False
    then have L: "assign_labels count = take count (label_pairs hint_alphabet)" by (simp add: assign_labels_def alphabet_length)
    show ?thesis
      unfolding L
    proof (intro conjI ballI)
      show "length (take count (label_pairs hint_alphabet)) = min count 729"
        by (simp add: pairs_length alphabet_length min.commute)
      show "distinct (take count (label_pairs hint_alphabet))" using pairs_distinct [OF alphabet_distinct] by (rule distinct_take)
    qed (use False same in blast)+
  qed
qed

end
