(* ===== verification/Restore.thy ===== *)
theory Restore
  imports Server_Model Reply_Hold
begin

text \<open>
  Restoring panes (\<open>crates/embers-server/src/restore.rs\<close>): which command a pane is restarted with, and the
  line typed into its shell to run the program it had in the foreground. Looking for a directory that still
  exists asks the file system and is an argument. The lemma shows that a shell reads the typed line back as
  the words of the program's command line.
\<close>

section \<open>Programs\<close>

definition known_shells :: "rstring list" where
  "known_shells =
     map str_lit [''sh'', ''bash'', ''zsh'', ''fish'', ''dash'', ''ksh'', ''mksh'', ''oksh'', ''yash'', ''tcsh'', ''csh'', ''nu'',
       ''elvish'', ''xonsh'', ''pwsh'']"

record restore_plan =
  rp_command :: "rstring list"
  rp_cwd :: "rstring option"
  rp_typed_command :: "rstring option"

text \<open>\<open>Path::file_name\<close>: the last component, unless there is none or it is the parent directory.\<close>

definition file_name :: "rstring \<Rightarrow> rstring option" where
  "file_name p =
     (let parts = filter (\<lambda>c. c \<noteq> [] \<and> c \<noteq> str_lit ''.'') (split_on 47 p) in
      if parts = [] \<or> last parts = str_lit ''..'' then None else Some (last parts))"

definition program_name :: "rstring list \<Rightarrow> rstring option" where
  "program_name argv =
     (case argv of
        [] \<Rightarrow> None
      | program # _ \<Rightarrow>
          let name = (case file_name program of Some n \<Rightarrow> n | None \<Rightarrow> program) in
          Some (case name of c # cs \<Rightarrow> if c = 45 then cs else name | [] \<Rightarrow> name))"

definition is_shell :: "rstring list \<Rightarrow> bool" where
  "is_shell argv = (case program_name argv of Some name \<Rightarrow> name \<in> set known_shells | None \<Rightarrow> False)"

definition is_allowlisted :: "rstring list \<Rightarrow> rstring list \<Rightarrow> bool" where
  "is_allowlisted argv commands = (case program_name argv of Some name \<Rightarrow> name \<in> set commands | None \<Rightarrow> False)"

section \<open>Command lines\<close>

definition is_plain_char :: "nat \<Rightarrow> bool" where
  "is_plain_char c \<longleftrightarrow>
     is_ascii_lowercase c \<or> is_ascii_uppercase c \<or> 48 \<le> c \<and> c \<le> 57 \<or> c \<in> set (str_lit ''_-./:=@%+,'')"

definition quoted_char :: "nat \<Rightarrow> rstring" where
  "quoted_char c = (if c = 39 then [39, 92, 39, 39] else if c = 92 then [39, 92, 92, 39] else [c])"

definition shell_word :: "rstring \<Rightarrow> rstring" where
  "shell_word arg =
     (if arg \<noteq> [] \<and> list_all is_plain_char arg then arg
      else 39 # concat (map quoted_char arg) @ [39])"

fun join_words :: "rstring list \<Rightarrow> rstring" where
  "join_words [] = []"
| "join_words [w] = w"
| "join_words (w # ws) = w @ 32 # join_words ws"

definition shell_command_line :: "rstring list \<Rightarrow> rstring" where
  "shell_command_line argv = join_words (map shell_word argv)"

definition plan_restore ::
  "(rstring \<Rightarrow> rstring option) \<Rightarrow> buffer \<Rightarrow> rstring list \<Rightarrow> rstring list \<Rightarrow> restore_plan" where
  "plan_restore nearest_existing_dir b commands default_shell =
     (let cwd = Option.bind (bu_cwd b) nearest_existing_dir;
          (command, typed) =
            (if is_shell (bu_command b) then
               (bu_command b,
                (case bu_foreground_command b of
                   Some argv \<Rightarrow> if is_allowlisted argv commands then Some (shell_command_line argv) else None
                 | None \<Rightarrow> None))
             else if is_allowlisted (bu_command b) commands then (bu_command b, None)
             else (default_shell, None))
      in \<lparr>rp_command = command, rp_cwd = cwd, rp_typed_command = typed\<rparr>)"

section \<open>What a shell reads\<close>

text \<open>
  Word splitting by a POSIX shell, on the part of its syntax that needs no interpretation: blanks between
  words, single quotes, a backslash before one character, and characters that stand for themselves. Any
  other character outside quotes would be interpreted, and is refused here. The first argument is the word
  read so far, the second whether a quote is open.
\<close>

fun shell_words :: "rstring option \<Rightarrow> bool \<Rightarrow> rstring \<Rightarrow> rstring list option" where
  "shell_words cur True [] = None"
| "shell_words cur False [] = Some (case cur of None \<Rightarrow> [] | Some w \<Rightarrow> [w])"
| "shell_words cur True (c # cs) =
     (if c = 39 then shell_words cur False cs else shell_words (Some (case_option [] (\<lambda>w. w) cur @ [c])) True cs)"
| "shell_words cur False [c] =
     (if c = 32 then Some (case cur of None \<Rightarrow> [] | Some w \<Rightarrow> [w])
      else if is_plain_char c then Some [case_option [] (\<lambda>w. w) cur @ [c]]
      else None)"
| "shell_words cur False (c # d # cs) =
     (if c = 32 then map_option (\<lambda>ws. (case cur of None \<Rightarrow> ws | Some w \<Rightarrow> w # ws)) (shell_words None False (d # cs))
      else if c = 39 then shell_words (Some (case_option [] (\<lambda>w. w) cur)) True (d # cs)
      else if c = 92 then shell_words (Some (case_option [] (\<lambda>w. w) cur @ [d])) False cs
      else if is_plain_char c then shell_words (Some (case_option [] (\<lambda>w. w) cur @ [c])) False (d # cs)
      else None)"

lemma plain_not_special: "is_plain_char c \<Longrightarrow> c \<noteq> 32 \<and> c \<noteq> 39 \<and> c \<noteq> 92"
  by (auto simp: is_plain_char_def is_ascii_lowercase_def is_ascii_uppercase_def str_lit_def)

lemma words_plain:
  assumes "is_plain_char c"
  shows "shell_words cur False (c # cs) = shell_words (Some (case_option [] (\<lambda>w. w) cur @ [c])) False cs"
  using assms plain_not_special [OF assms] by (cases cs) simp_all

lemma words_plain_word:
  "list_all is_plain_char arg \<Longrightarrow> arg \<noteq> [] \<Longrightarrow>
   shell_words cur False (arg @ rest) = shell_words (Some (case_option [] (\<lambda>w. w) cur @ arg)) False rest"
proof (induction arg arbitrary: cur)
  case (Cons c arg)
  then show ?case by (cases "arg = []") (simp_all add: words_plain del: shell_words.simps)
qed simp

lemma words_open: "shell_words (Some w) False (39 # cs) = shell_words (Some w) True cs"
  using plain_not_special [of 39] by (cases cs) auto

lemma words_escaped: "shell_words (Some w) False (92 # d # cs) = shell_words (Some (w @ [d])) False cs"
  by simp

lemma words_closing: "shell_words (Some w) True (39 # cs) = shell_words (Some w) False cs"
  "c \<noteq> 39 \<Longrightarrow> shell_words (Some w) True (c # cs) = shell_words (Some (w @ [c])) True cs"
  by simp_all

lemma words_quoted:
  "shell_words (Some w) True (concat (map quoted_char arg) @ 39 # rest) = shell_words (Some (w @ arg)) False rest"
proof (induction arg arbitrary: w)
  case (Cons c arg)
  then show ?case
    by (simp add: quoted_char_def words_open words_escaped words_closing del: shell_words.simps)
qed simp

lemma words_word: "shell_words None False (shell_word arg @ rest) = shell_words (Some arg) False rest"
proof (cases "arg \<noteq> [] \<and> list_all is_plain_char arg")
  case True
  then show ?thesis using words_plain_word [of arg None rest] by (simp add: shell_word_def)
next
  case False
  have "shell_words None False (39 # concat (map quoted_char arg) @ 39 # rest) =
      shell_words (Some []) True (concat (map quoted_char arg) @ 39 # rest)"
    by (cases "concat (map quoted_char arg) @ 39 # rest") simp_all
  then show ?thesis using False words_quoted [of "[]" arg rest] by (auto simp: shell_word_def)
qed

lemma words_blank: "rest \<noteq> [] \<Longrightarrow> shell_words (Some w) False (32 # rest) = map_option (Cons w) (shell_words None False rest)"
  by (cases rest) simp_all

lemma shell_word_ne: "shell_word arg \<noteq> []"
  by (simp add: shell_word_def)

lemma shell_words_line: "shell_words None False (shell_command_line argv) = Some argv"
  unfolding shell_command_line_def
proof (induction argv)
  case (Cons arg argv)
  show ?case
  proof (cases argv)
    case Nil
    then show ?thesis using words_word [of arg "[]"] by simp
  next
    case (Cons a as)
    have ne: "join_words (map shell_word argv) \<noteq> []" using Cons shell_word_ne by (cases as) simp_all
    have "join_words (map shell_word (arg # argv)) = shell_word arg @ 32 # join_words (map shell_word argv)"
      using Cons by simp
    then show ?thesis using words_word words_blank [OF ne] Cons.IH by simp
  qed
qed simp

end
