(* ===== verification/Pty_Sizes.thy ===== *)
theory Pty_Sizes
  imports Embers_Core Ordered_Map
begin

text \<open>
  Which PTYs a client resizes (\<open>crates/embers-client/src/pty_sizes.rs\<close>): the sizes it wants, the requests of
  the last round and the failed ones. Times are in nanoseconds. The lemmas give the requests of a round
  in closed form, and show that a client does not answer another client's resize with one of its own.
\<close>

record attempt =
  at_server_size :: pty_size
  at_planned_at :: int

record pty_size_sync =
  wanted :: "(buffer_id, pty_size) btree_map"
  reclaim :: bool
  planned :: "(buffer_id, attempt) btree_map"
  failed :: "(buffer_id, attempt) btree_map"

definition retry_interval :: int where "retry_interval = 1000000000"

definition pty_size_sync_default :: pty_size_sync where
  "pty_size_sync_default = \<lparr>wanted = bt_empty, reclaim = False, planned = bt_empty, failed = bt_empty\<rparr>"

definition note_user_activity :: "pty_size_sync \<Rightarrow> pty_size_sync" where
  "note_user_activity st = st\<lparr>reclaim := True\<rparr>"

definition resize_failed :: "buffer_id \<Rightarrow> pty_size_sync \<Rightarrow> pty_size_sync" where
  "resize_failed bid st =
     (case bt_get (planned st) bid of
        None \<Rightarrow> st
      | Some a \<Rightarrow> st\<lparr>planned := bt_remove bid (planned st), failed := bt_insert bid a (failed st)\<rparr>)"

definition matches_server :: "pty_size \<Rightarrow> pty_size \<Rightarrow> bool" where
  "matches_server current want =
     (if cell_size_of current = None then cols current = cols want \<and> rows current = rows want else current = want)"

text \<open>One target of the loop: the buffer, the wanted size and the size the server reports.\<close>

definition plan_target ::
  "bool \<Rightarrow> int \<Rightarrow> buffer_id \<times> pty_size \<times> pty_size \<Rightarrow> (buffer_id \<times> pty_size) list \<times> pty_size_sync \<Rightarrow>
   (buffer_id \<times> pty_size) list \<times> pty_size_sync" where
  "plan_target reclaiming now target acc =
     (case target of (bid, want, current) \<Rightarrow>
      case acc of (resizes, st) \<Rightarrow>
        let decide = (\<lambda>retry st.
              let changed = (case bt_get (wanted st) bid of
                               Some previous \<Rightarrow>
                                 if \<not> reclaiming \<and> \<not> retry then previous \<noteq> want else \<not> matches_server current want
                             | None \<Rightarrow> current \<noteq> want);
                  st = st\<lparr>wanted := bt_insert bid want (wanted st)\<rparr>
              in if changed
                 then (resizes @ [(bid, want)],
                       st\<lparr>planned := bt_insert bid \<lparr>at_server_size = current, at_planned_at = now\<rparr> (planned st)\<rparr>)
                 else (resizes, st))
        in (case bt_get (failed st) bid of
              None \<Rightarrow> decide False st
            | Some failure \<Rightarrow>
                if at_server_size failure \<noteq> current then decide False (st\<lparr>failed := bt_remove bid (failed st)\<rparr>)
                else if now - at_planned_at failure < retry_interval then (resizes, st)
                else decide True (st\<lparr>failed := bt_remove bid (failed st)\<rparr>)))"

definition plan_targets ::
  "(buffer_id \<times> pty_size \<times> pty_size) list \<Rightarrow> int \<Rightarrow> pty_size_sync \<Rightarrow> (buffer_id \<times> pty_size) list \<times> pty_size_sync" where
  "plan_targets targets now st =
     fold (plan_target (reclaim st) now) targets ([], st\<lparr>reclaim := False, planned := bt_empty\<rparr>)"

section \<open>The requests of a round\<close>

text \<open>Whether a buffer is resized, read off the state before the round.\<close>

definition due :: "pty_size_sync \<Rightarrow> int \<Rightarrow> buffer_id \<times> pty_size \<times> pty_size \<Rightarrow> bool" where
  "due st now target =
     (case target of (bid, want, current) \<Rightarrow>
        let decide = (\<lambda>retry. case bt_get (wanted st) bid of
                        Some previous \<Rightarrow>
                          if \<not> reclaim st \<and> \<not> retry then previous \<noteq> want else \<not> matches_server current want
                      | None \<Rightarrow> current \<noteq> want)
        in (case bt_get (failed st) bid of
              None \<Rightarrow> decide False
            | Some failure \<Rightarrow>
                if at_server_size failure \<noteq> current then decide False
                else now - at_planned_at failure \<ge> retry_interval \<and> decide True))"

definition waiting :: "pty_size_sync \<Rightarrow> int \<Rightarrow> buffer_id \<times> pty_size \<times> pty_size \<Rightarrow> bool" where
  "waiting st now target =
     (case target of (bid, want, current) \<Rightarrow>
        (case bt_get (failed st) bid of
           None \<Rightarrow> False
         | Some failure \<Rightarrow> at_server_size failure = current \<and> now - at_planned_at failure < retry_interval))"

lemma plan_target_run:
  assumes "plan_target reclaiming now (bid, want, current) (resizes, u) = (resizes', v)"
    and "bt_get (wanted u) bid = bt_get (wanted st) bid" "bt_get (failed u) bid = bt_get (failed st) bid"
    and "reclaiming = reclaim st"
  shows "resizes' = resizes @ (if due st now (bid, want, current) then [(bid, want)] else [])"
    and "bt_get (wanted v) b = (if b = bid \<and> \<not> waiting st now (bid, want, current) then Some want else bt_get (wanted u) b)"
    and "b \<noteq> bid \<Longrightarrow> bt_get (failed v) b = bt_get (failed u) b"
    and "bt_get (failed v) bid = (if waiting st now (bid, want, current) then bt_get (failed u) bid else None)"
    and "reclaim v = reclaim u"
  using assms
  by (auto simp: plan_target_def due_def waiting_def Let_def split: option.splits if_splits)

lemma plan_targets_fold:
  assumes "distinct (map fst targets)" and "reclaiming = reclaim st"
    and "\<And>b. b \<in> fst ` set targets \<Longrightarrow> bt_get (wanted u) b = bt_get (wanted st) b \<and> bt_get (failed u) b = bt_get (failed st) b"
    and "fold (plan_target reclaiming now) targets (resizes, u) = (resizes', v)"
  shows "resizes' = resizes @ map (\<lambda>(b, w, c). (b, w)) (filter (due st now) targets) \<and>
    (\<forall>b. bt_get (wanted v) b =
       (case map_of targets b of
          Some (w, c) \<Rightarrow> if waiting st now (b, w, c) then bt_get (wanted u) b else Some w
        | None \<Rightarrow> bt_get (wanted u) b)) \<and>
    (\<forall>b. bt_get (failed u) b = None \<longrightarrow> bt_get (failed v) b = None) \<and> reclaim v = reclaim u"
  using assms
proof (induction targets arbitrary: resizes u)
  case (Cons t targets)
  obtain bid want current where t: "t = (bid, want, current)" by (cases t)
  obtain r1 u1 where 1: "plan_target reclaiming now t (resizes, u) = (r1, u1)" by fastforce
  have at_bid: "bt_get (wanted u) bid = bt_get (wanted st) bid" "bt_get (failed u) bid = bt_get (failed st) bid"
    using Cons.prems(3) t by auto
  note run = plan_target_run [OF 1 [unfolded t] at_bid Cons.prems(2)]
  have fresh: "bid \<notin> fst ` set targets" "distinct (map fst targets)" using Cons.prems(1) t by auto
  have 2: "fold (plan_target reclaiming now) targets (r1, u1) = (resizes', v)" using Cons.prems(4) 1 by simp
  have same: "bt_get (wanted u1) b = bt_get (wanted st) b \<and> bt_get (failed u1) b = bt_get (failed st) b"
    if "b \<in> fst ` set targets" for b
    using Cons.prems(3) [of b] that fresh(1) run(2,3) by (cases "b = bid") auto
  note ih = Cons.IH [OF fresh(2) Cons.prems(2) same 2]
  have none: "map_of targets bid = None" using fresh(1) by (simp add: map_of_eq_None_iff)
  show ?case
  proof (intro conjI allI impI)
    show "resizes' = resizes @ map (\<lambda>(b, w, c). (b, w)) (filter (due st now) (t # targets))"
      using ih run(1) t by auto
    show "bt_get (wanted v) b = (case map_of (t # targets) b of
          Some (w, c) \<Rightarrow> if waiting st now (b, w, c) then bt_get (wanted u) b else Some w
        | None \<Rightarrow> bt_get (wanted u) b)" for b
      using ih run(2) t none by (cases "b = bid") (auto split: option.splits)
    show "bt_get (failed v) b = None" if "bt_get (failed u) b = None" for b
      using ih run(3,4) that by (cases "b = bid") (auto split: if_splits)
    show "reclaim v = reclaim u" using ih run(5) by simp
  qed
qed simp

lemma plan_targets_exact:
  assumes "distinct (map fst targets)" and "plan_targets targets now st = (resizes, v)"
  shows "resizes = map (\<lambda>(b, w, c). (b, w)) (filter (due st now) targets)"
    and "bt_get (failed st) b = None \<Longrightarrow> bt_get (failed v) b = None" and "\<not> reclaim v"
    and "(b, w, c) \<in> set targets \<Longrightarrow> bt_get (failed st) b = None \<Longrightarrow> bt_get (wanted v) b = Some w"
proof -
  let ?u = "st\<lparr>reclaim := False, planned := bt_empty\<rparr>"
  have W: "wanted ?u = wanted st" "failed ?u = failed st" "reclaim ?u = False" by simp_all
  have run: "fold (plan_target (reclaim st) now) targets ([], ?u) = (resizes, v)" using assms(2) by (simp add: plan_targets_def)
  note f = plan_targets_fold [OF assms(1) refl _ run, unfolded W]
  have g: "resizes = [] @ map (\<lambda>(b, w, c). (b, w)) (filter (due st now) targets) \<and>
    (\<forall>b. bt_get (wanted v) b =
       (case map_of targets b of
          Some (w, c) \<Rightarrow> if waiting st now (b, w, c) then bt_get (wanted st) b else Some w
        | None \<Rightarrow> bt_get (wanted st) b)) \<and>
    (\<forall>b. bt_get (failed st) b = None \<longrightarrow> bt_get (failed v) b = None) \<and> \<not> reclaim v"
    using f by simp
  then show "resizes = map (\<lambda>(b, w, c). (b, w)) (filter (due st now) targets)" "\<not> reclaim v"
    "bt_get (failed st) b = None \<Longrightarrow> bt_get (failed v) b = None" by auto
  show "bt_get (wanted v) b = Some w" if "(b, w, c) \<in> set targets" "bt_get (failed st) b = None"
  proof -
    have "map_of targets b = Some (w, c)" using that(1) assms(1) by (simp add: map_of_is_SomeI)
    then show ?thesis using g that(2) by (simp add: waiting_def)
  qed
qed

lemma plan_again:
  assumes "distinct (map fst targets)" and "plan_targets targets now st = (resizes, v)"
    and "map (\<lambda>(b, w, c). (b, w)) targets' = map (\<lambda>(b, w, c). (b, w)) targets"
    and "\<And>b. b \<in> fst ` set targets \<Longrightarrow> bt_get (failed st) b = None"
  shows "fst (plan_targets targets' now' v) = []"
proof -
  have ids: "map fst targets' = map fst targets"
    using arg_cong [OF assms(3), of "map fst"] by (simp add: o_def case_prod_unfold)
  obtain r u where r: "plan_targets targets' now' v = (r, u)" by fastforce
  have "\<not> due v now' t" if t: "t \<in> set targets'" for t
  proof -
    obtain b w c where bw: "t = (b, w, c)" by (cases t)
    then have "(b, w) \<in> set (map (\<lambda>(b, w, c). (b, w)) targets')" using t by (force simp: image_iff)
    then have "(b, w) \<in> set (map (\<lambda>(b, w, c). (b, w)) targets)" unfolding assms(3) .
    then obtain c' where c': "(b, w, c') \<in> set targets" by auto
    then have "bt_get (failed st) b = None" using assms(4) [of b] by force
    then show ?thesis
      using plan_targets_exact(2-4) [OF assms(1,2)] c' bw by (auto simp: due_def Let_def)
  qed
  then show ?thesis using plan_targets_exact(1) [OF _ r] ids assms(1) r by (simp add: filter_empty_conv)
qed

end
