(* ===== verification/Protocol_Records.thy ===== *)
theory Protocol_Records
  imports Server_Good
begin

text \<open>
  What the server tells a client about its state: the records of \<open>crates/embers-protocol/src/types.rs\<close> and
  their construction in \<open>crates/embers-server/src/protocol.rs\<close>. The lemmas show that a well-formed state has
  a snapshot of every session, what it lists, and that the records of buffers are valid.
\<close>

section \<open>Records\<close>

record session_rec =
  sr_id :: session_id
  sr_name :: rstring
  sr_root_node_id :: node_id
  sr_floating_ids :: "floating_id list"
  sr_focused_leaf_id :: "node_id option"
  sr_focused_floating_id :: "floating_id option"
  sr_zoomed_node_id :: "node_id option"
  sr_viewport :: "size option"
  sr_base_index :: "nat option"
  sr_pane_titles :: bool

datatype buffer_record_state = RecCreated | RecRunning | RecInterrupted | RecExited

datatype buffer_record_kind = RecPty | RecHelper

datatype buffer_history_scope = ScopeFull | ScopeVisible

datatype pipe_record_state = RecPipeRunning | RecPipeStopped

datatype pipe_record_stop_reason =
  RecRequested | RecPipeExited | RecWriteFailed | RecBufferExited | RecRuntimeInterrupted

record buffer_pipe_rec =
  bpr_command :: "rstring list"
  bpr_state :: pipe_record_state
  bpr_pid :: "nat option"
  bpr_exit_code :: "int option"
  bpr_stop_reason :: "pipe_record_stop_reason option"

record buffer_rec =
  br_id :: buffer_id
  br_title :: rstring
  br_command :: "rstring list"
  br_cwd :: "rstring option"
  br_pipe :: "buffer_pipe_rec option"
  br_kind :: buffer_record_kind
  br_state :: buffer_record_state
  br_pid :: "nat option"
  br_attachment_node_id :: "node_id option"
  br_read_only :: bool
  br_helper_source_buffer_id :: "buffer_id option"
  br_helper_scope :: "buffer_history_scope option"
  br_pty_size :: pty_size
  br_activity :: activity_state
  br_last_snapshot_seq :: nat
  br_exit_code :: "int option"
  br_env :: string_map
  br_user_options :: string_map
  br_foreground_command :: "rstring list option"
  br_bell_sequence :: nat
  br_host :: "rstring option"

datatype node_record_kind = KindBufferView | KindSplit | KindTabs

record buffer_view_rec =
  vr_buffer_id :: buffer_id
  vr_focused :: bool
  vr_zoomed :: bool
  vr_follow_output :: bool
  vr_last_render_size :: pty_size

record split_rec =
  spr_direction :: split_direction
  spr_child_ids :: "node_id list"
  spr_sizes :: "nat list"

record tab_rec =
  tr_title :: rstring
  tr_child_id :: node_id
  tr_synchronize_panes :: bool

record tabs_rec =
  tsr_active :: nat
  tsr_tabs :: "tab_rec list"

record node_rec =
  nr_id :: node_id
  nr_session_id :: session_id
  nr_parent_id :: "node_id option"
  nr_kind :: node_record_kind
  nr_buffer_view :: "buffer_view_rec option"
  nr_split :: "split_rec option"
  nr_tabs :: "tabs_rec option"
  nr_focus_leaf_id :: "node_id option"

record floating_rec =
  fr_id :: floating_id
  fr_session_id :: session_id
  fr_root_node_id :: node_id
  fr_title :: "rstring option"
  fr_geometry :: float_geometry
  fr_focused :: bool
  fr_visible :: bool
  fr_close_on_empty :: bool
  fr_border :: bool

record session_snap =
  ss_session :: session_rec
  ss_nodes :: "node_rec list"
  ss_buffers :: "buffer_rec list"
  ss_floating :: "floating_rec list"

section \<open>Validation of records\<close>

text \<open>The messages of \<open>validate\<close>, whose only use is to be shown.\<close>

datatype record_error =
    PipeCommandEmpty
  | PipeProgramEmpty
  | StopReasonOfRunningPipe
  | ExitCodeOfRunningPipe
  | NoStopReason
  | PtyWithHelperSource
  | PtyWithHelperScope
  | HelperWithPipe
  | HelperSourceWithoutScope

definition pipe_record_validate :: "buffer_pipe_rec \<Rightarrow> (record_error, unit) outcome" where
  "pipe_record_validate p =
     (case bpr_command p of
        [] \<Rightarrow> Err PipeCommandEmpty
      | program # _ \<Rightarrow>
          if program = [] then Err PipeProgramEmpty
          else
            (case bpr_state p of
               RecPipeRunning \<Rightarrow>
                 if bpr_stop_reason p \<noteq> None then Err StopReasonOfRunningPipe
                 else if bpr_exit_code p \<noteq> None then Err ExitCodeOfRunningPipe
                 else Ok ()
             | RecPipeStopped \<Rightarrow> if bpr_stop_reason p = None then Err NoStopReason else Ok ()))"

definition buffer_record_validate :: "buffer_rec \<Rightarrow> (record_error, unit) outcome" where
  "buffer_record_validate b =
     rbind (case br_pipe b of Some p \<Rightarrow> pipe_record_validate p | None \<Rightarrow> Ok ()) (\<lambda>_.
     case br_kind b of
       RecPty \<Rightarrow>
         if br_helper_source_buffer_id b \<noteq> None then Err PtyWithHelperSource
         else if br_helper_scope b \<noteq> None then Err PtyWithHelperScope
         else Ok ()
     | RecHelper \<Rightarrow>
         if br_pipe b \<noteq> None then Err HelperWithPipe
         else if (br_helper_source_buffer_id b \<noteq> None) \<noteq> (br_helper_scope b \<noteq> None) then Err HelperSourceWithoutScope
         else Ok ())"

section \<open>From the server's state\<close>

definition session_record :: "session \<Rightarrow> session_rec" where
  "session_record se =
     \<lparr>sr_id = se_id se, sr_name = se_name se, sr_root_node_id = se_root_node se,
      sr_floating_ids = se_floating se, sr_focused_leaf_id = se_focused_leaf se,
      sr_focused_floating_id = se_focused_floating se, sr_zoomed_node_id = se_zoomed_node se,
      sr_viewport = se_viewport se, sr_base_index = se_base_index se, sr_pane_titles = se_pane_titles se\<rparr>"

fun record_stop_reason :: "buffer_pipe_stop_reason \<Rightarrow> pipe_record_stop_reason" where
  "record_stop_reason Requested = RecRequested"
| "record_stop_reason PipeExited = RecPipeExited"
| "record_stop_reason WriteFailed = RecWriteFailed"
| "record_stop_reason BufferExited = RecBufferExited"
| "record_stop_reason RuntimeInterrupted = RecRuntimeInterrupted"

definition pipe_record :: "buffer_pipe \<Rightarrow> buffer_pipe_rec" where
  "pipe_record p =
     (case bp_state p of
        PipeRunning pid \<Rightarrow>
          \<lparr>bpr_command = bp_command p, bpr_state = RecPipeRunning, bpr_pid = pid, bpr_exit_code = None,
           bpr_stop_reason = None\<rparr>
      | PipeStopped code reason \<Rightarrow>
          \<lparr>bpr_command = bp_command p, bpr_state = RecPipeStopped, bpr_pid = None, bpr_exit_code = code,
           bpr_stop_reason = Some (record_stop_reason reason)\<rparr>)"

fun record_scope :: "helper_buffer_scope \<Rightarrow> buffer_history_scope" where
  "record_scope Full = ScopeFull"
| "record_scope Visible = ScopeVisible"

definition buffer_record :: "buffer \<Rightarrow> buffer_rec" where
  "buffer_record b =
     (case (case bu_state b of
              Created \<Rightarrow> (RecCreated, None, None)
            | Running pid \<Rightarrow> (RecRunning, pid, None)
            | Interrupted pid \<Rightarrow> (RecInterrupted, pid, None)
            | Exited code _ \<Rightarrow> (RecExited, None, code)) of (st, pid, exit_code) \<Rightarrow>
      case (case bu_kind b of
              Pty \<Rightarrow> (RecPty, False, None, None)
            | Helper h \<Rightarrow> (RecHelper, True, Some (hb_source_buffer_id h), Some (record_scope (hb_scope h))))
        of (kind, read_only, source, scope) \<Rightarrow>
      \<lparr>br_id = bu_id b, br_title = bu_title b, br_command = bu_command b, br_cwd = bu_cwd b,
       br_pipe = map_option pipe_record (bu_pipe b), br_kind = kind, br_state = st, br_pid = pid,
       br_attachment_node_id = (case bu_attachment b of Attached n \<Rightarrow> Some n | Detached \<Rightarrow> None),
       br_read_only = read_only, br_helper_source_buffer_id = source, br_helper_scope = scope,
       br_pty_size = bu_pty_size b, br_activity = bu_activity b, br_last_snapshot_seq = bu_last_snapshot_seq b,
       br_exit_code = exit_code, br_env = bu_env b, br_user_options = bu_user_options b,
       br_foreground_command = bu_foreground_command b, br_bell_sequence = bu_runtime_bell_sequence b,
       br_host = placement_host (bu_placement b)\<rparr>)"

text \<open>The index of the active tab has to fit 32 bits; the code panics otherwise.\<close>

fun node_record :: "node \<Rightarrow> node_id option \<Rightarrow> node_rec res" where
  "node_record (BufferView v) focus =
     Ok \<lparr>nr_id = bv_id v, nr_session_id = bv_session_id v, nr_parent_id = bv_parent v, nr_kind = KindBufferView,
         nr_buffer_view = Some \<lparr>vr_buffer_id = bv_buffer_id v, vr_focused = vs_focused (bv_view v),
           vr_zoomed = vs_zoomed (bv_view v), vr_follow_output = vs_follow_output (bv_view v),
           vr_last_render_size = vs_last_render_size (bv_view v)\<rparr>,
         nr_split = None, nr_tabs = None, nr_focus_leaf_id = focus\<rparr>"
| "node_record (Split sp) focus =
     Ok \<lparr>nr_id = sp_id sp, nr_session_id = sp_session_id sp, nr_parent_id = sp_parent sp, nr_kind = KindSplit,
         nr_buffer_view = None,
         nr_split = Some \<lparr>spr_direction = sp_direction sp, spr_child_ids = sp_children sp, spr_sizes = sp_sizes sp\<rparr>,
         nr_tabs = None, nr_focus_leaf_id = focus\<rparr>"
| "node_record (Tabs tb) focus =
     (if tb_active tb < 2 ^ 32
      then Ok \<lparr>nr_id = tb_id tb, nr_session_id = tb_session_id tb, nr_parent_id = tb_parent tb, nr_kind = KindTabs,
               nr_buffer_view = None, nr_split = None,
               nr_tabs = Some \<lparr>tsr_active = tb_active tb,
                 tsr_tabs = map (\<lambda>t. \<lparr>tr_title = te_title t, tr_child_id = te_child t,
                                     tr_synchronize_panes = te_synchronize_panes t\<rparr>) (tb_tabs tb)\<rparr>,
               nr_focus_leaf_id = focus\<rparr>
      else Panic)"

definition floating_record :: "floating_window \<Rightarrow> floating_rec" where
  "floating_record f =
     \<lparr>fr_id = fw_id f, fr_session_id = fw_session_id f, fr_root_node_id = fw_root_node f, fr_title = fw_title f,
      fr_geometry = fw_geometry f, fr_focused = fw_focused f, fr_visible = fw_visible f,
      fr_close_on_empty = fw_close_on_empty f, fr_border = fw_border f\<rparr>"

definition session_snapshot :: "server_state \<Rightarrow> session_id \<Rightarrow> session_snap res" where
  "session_snapshot s sid =
     rbind (state_session s sid) (\<lambda>se.
     rbind (rbind (session_node_ids s sid) (map_ok (\<lambda>n.
              rbind (state_node s n) (\<lambda>nd.
              rbind (resolve_focus_candidate s n) (\<lambda>focus. node_record nd focus))))) (\<lambda>ns.
     rbind (rbind (session_buffer_ids s sid) (map_ok (\<lambda>bid.
              rbind (state_buffer s bid) (\<lambda>b. Ok (buffer_record b))))) (\<lambda>bs.
     rbind (map_ok (\<lambda>fid. rbind (state_floating s fid) (\<lambda>f. Ok (floating_record f))) (se_floating se)) (\<lambda>fs.
     if \<not> list_ex (\<lambda>n. nr_id n = se_root_node se) ns
     then Err (Conflict (SnapshotMissingRoot sid (se_root_node se)))
     else Ok \<lparr>ss_session = session_record se, ss_nodes = ns, ss_buffers = bs, ss_floating = fs\<rparr>))))"

section \<open>Where a buffer is\<close>

datatype buffer_location_attachment =
    LocDetached
  | LocSession session_id node_id
  | LocFloating session_id node_id floating_id

record buffer_loc =
  bl_buffer_id :: buffer_id
  bl_attachment :: buffer_location_attachment

fun location_session_id :: "buffer_location_attachment \<Rightarrow> session_id option" where
  "location_session_id LocDetached = None"
| "location_session_id (LocSession sid _) = Some sid"
| "location_session_id (LocFloating sid _ _) = Some sid"

fun location_node_id :: "buffer_location_attachment \<Rightarrow> node_id option" where
  "location_node_id LocDetached = None"
| "location_node_id (LocSession _ n) = Some n"
| "location_node_id (LocFloating _ n _) = Some n"

fun location_floating_id :: "buffer_location_attachment \<Rightarrow> floating_id option" where
  "location_floating_id (LocFloating _ _ fid) = Some fid"
| "location_floating_id _ = None"

definition buffer_location :: "server_state \<Rightarrow> buffer_id \<Rightarrow> buffer_loc res" where
  "buffer_location s bid =
     rbind (state_buffer s bid) (\<lambda>b.
     case bu_attachment b of
       Detached \<Rightarrow> Ok \<lparr>bl_buffer_id = bid, bl_attachment = LocDetached\<rparr>
     | Attached n \<Rightarrow>
         rbind (state_node s n) (\<lambda>nd.
         rbind (floating_id_for_node s n) (\<lambda>fid.
         Ok \<lparr>bl_buffer_id = bid,
             bl_attachment = (case fid of
                                Some fid \<Rightarrow> LocFloating (node_session nd) n fid
                              | None \<Rightarrow> LocSession (node_session nd) n)\<rparr>)))"

section \<open>The nodes and buffers of a session\<close>

lemma map_ok_map: "(\<And>x. x \<in> set xs \<Longrightarrow> f x = Ok (g x)) \<Longrightarrow> map_ok f xs = Ok (map g xs)"
  by (induction xs) simp_all

lemma map_ok_exists:
  assumes "\<And>x. x \<in> set xs \<Longrightarrow> \<exists>y. f x = Ok y"
  shows "\<exists>ys. map_ok f xs = Ok ys \<and> (\<forall>y. y \<in> set ys \<longleftrightarrow> (\<exists>x \<in> set xs. f x = Ok y))"
proof -
  obtain g where g: "x \<in> set xs \<Longrightarrow> f x = Ok (g x)" for x using assms by metis
  have "map_ok f xs = Ok (map g xs)" by (rule map_ok_map) (rule g)
  moreover have "y \<in> set (map g xs) \<longleftrightarrow> (\<exists>x \<in> set xs. f x = Ok y)" for y using g by auto
  ultimately show ?thesis by blast
qed

text \<open>The trees of a session: of its root and of its floating windows, which are disjoint.\<close>

lemma session_floating_root:
  assumes "structure_ok s" and "bt_get (sessions s) sid = Some se" and "fid \<in> set (se_floating se)"
  obtains f where "bt_get (floating s) fid = Some f" "fw_session_id f = sid" "parentless (layout s) (fw_root_node f)"
    "fw_root_node f \<noteq> se_root_node se" "fw_id f = fid"
proof -
  obtain f where f: "bt_get (floating s) fid = Some f" "fw_session_id f = sid"
    using sessions_okD(4) [of s sid se fid] assms by (auto simp: structure_ok_def)
  have fl: "floating_ok s" using assms(1) by (simp add: structure_ok_def)
  then have "parentless (layout s) (fw_root_node f)" using floating_okD(2) [OF fl f(1)] by (auto simp: parentless_def)
  moreover have "fw_root_node f \<noteq> se_root_node se" "fw_id f = fid"
    using floating_okD(1,3) [OF fl f(1)] f(2) assms(2) by auto
  ultimately show thesis using that f by blast
qed

lemma session_root_parentless:
  assumes "structure_ok s" and "bt_get (sessions s) sid = Some se"
  shows "parentless (layout s) (se_root_node se)"
  using sessions_okD(3) [of s sid se] assms by (auto simp: structure_ok_def parentless_def)

lemma parentless_dom: "parentless L n \<Longrightarrow> n \<in> dom L"
  by (auto simp: parentless_def)

lemma session_node_ids_Ok:
  assumes st: "structure_ok s" and se: "bt_get (sessions s) sid = Some se"
  shows "\<exists>ns. session_node_ids s sid = Ok ns \<and> set ns = session_trees s se"
proof -
  let ?L = "layout s" and ?root = "se_root_node se"
  have f: "forest ?L" and fl: "floating_ok s" using st by (simp_all add: structure_ok_def)
  have root: "parentless ?L ?root" by (rule session_root_parentless [OF st se])
  obtain seen where seen: "collect_subtree_nodes s ?root bt_empty = Ok seen" "dom (bt_get seen) = below ?L ?root"
    using collect_subtree_Ok [OF f parentless_dom [OF root], of bt_empty] by (auto simp: dom_def)
  define D where "D fid = below ?L (fw_root_node (the (bt_get (floating s) fid)))" for fid
  have "\<exists>seen'. fold_ok (\<lambda>fid seen. rbind (state_floating s fid) (\<lambda>f. collect_subtree_nodes s (fw_root_node f) seen))
      (se_floating se) seen = Ok seen' \<and> dom (bt_get seen') = dom (bt_get seen) \<union> (\<Union>fid \<in> set (se_floating se). D fid)"
  proof (rule fold_seen_complete)
    fix fid and seen :: node_set
    assume fid: "fid \<in> set (se_floating se)" and d: "dom (bt_get seen) \<inter> D fid = {}"
    obtain fw where fw: "bt_get (floating s) fid = Some fw" "parentless ?L (fw_root_node fw)"
      using session_floating_root [OF st se fid] by metis
    then show "\<exists>seen'. rbind (state_floating s fid) (\<lambda>f. collect_subtree_nodes s (fw_root_node f) seen) = Ok seen' \<and>
        dom (bt_get seen') = dom (bt_get seen) \<union> D fid"
      using collect_subtree_Ok [OF f parentless_dom [OF fw(2)], of seen] d by (simp add: state_floating_def D_def)
  next
    show "distinct (se_floating se)" using sessions_okD(2) [of s sid se] st se by (simp add: structure_ok_def)
  next
    fix x y
    assume xy: "x \<in> set (se_floating se)" "y \<in> set (se_floating se)" "x \<noteq> y"
    obtain g h where g: "bt_get (floating s) x = Some g" "parentless ?L (fw_root_node g)"
      and h: "bt_get (floating s) y = Some h" "parentless ?L (fw_root_node h)"
      using session_floating_root [OF st se xy(1)] session_floating_root [OF st se xy(2)] by metis
    have "fw_root_node g \<noteq> fw_root_node h" using floating_okD(4) [OF fl g(1) h(1)] xy(3) by blast
    with g h show "D x \<inter> D y = {}" using roots_disjoint [OF g(2) h(2)] by (simp add: D_def)
  next
    fix fid
    assume fid: "fid \<in> set (se_floating se)"
    obtain g where g: "bt_get (floating s) fid = Some g" "parentless ?L (fw_root_node g)" "fw_root_node g \<noteq> ?root"
      using session_floating_root [OF st se fid] by metis
    with seen(2) show "dom (bt_get seen) \<inter> D fid = {}" using roots_disjoint [OF root g(2)] by (auto simp: D_def)
  qed
  then obtain seen' where "fold_ok (\<lambda>fid seen. rbind (state_floating s fid) (\<lambda>f. collect_subtree_nodes s (fw_root_node f) seen))
      (se_floating se) seen = Ok seen'" "dom (bt_get seen') = session_trees s se"
    unfolding seen(2) session_trees_def D_def by blast
  moreover have "set (bt_keys seen') = dom (bt_get seen')" by (auto simp: dom_def)
  ultimately show ?thesis using seen(1) se by (simp add: session_node_ids_def state_session_def)
qed

lemma session_trees_node:
  assumes st: "structure_ok s" and se: "bt_get (sessions s) sid = Some se" and n: "n \<in> session_trees s se"
  obtains nd where "bt_get (nodes s) n = Some nd" "node_id_of nd = n" "node_session nd = sid"
proof -
  let ?L = "layout s"
  have f: "forest ?L" using st by (simp add: structure_ok_def)
  obtain r where r: "n \<in> below ?L r" "\<exists>d. ?L r = Some d \<and> ce_session d = sid"
  proof (cases "n \<in> below ?L (se_root_node se)")
    case True
    then show ?thesis using that sessions_okD(3) [of s sid se] st se by (auto simp: structure_ok_def)
  next
    case False
    then obtain fid where fid: "fid \<in> set (se_floating se)" "n \<in> below ?L (fw_root_node (the (bt_get (floating s) fid)))"
      using n by (auto simp: session_trees_def)
    obtain g where g: "bt_get (floating s) fid = Some g" "fw_session_id g = sid"
      using session_floating_root [OF st se fid(1)] by metis
    have "\<exists>d. ?L (fw_root_node g) = Some d \<and> ce_session d = sid"
      using floating_okD(2) [of s fid g] st g by (auto simp: structure_ok_def)
    then show ?thesis using that fid(2) g(1) by simp
  qed
  have "n \<in> dom ?L" using r up_star_dom [OF f, of n r] by (auto simp: below_def)
  then obtain nd where nd: "bt_get (nodes s) n = Some nd" by (auto simp: dom_layout)
  then have c: "?L n = Some (cell_of nd)" by (simp add: layout_def)
  have "node_session nd = sid" using up_star_session [OF f _ c, of r] r by (auto simp: below_def)
  moreover have "node_id_of nd = n" using forest_id [OF f c] by simp
  ultimately show thesis using that nd by blast
qed

definition session_views :: "server_state \<Rightarrow> session \<Rightarrow> buffer_id set" where
  "session_views s se = {bv_buffer_id v | n v. n \<in> session_trees s se \<and> bt_get (nodes s) n = Some (BufferView v)}"

lemma collect_views_Ok:
  assumes "\<And>n. n \<in> set ns \<Longrightarrow> \<exists>nd. bt_get (nodes s) n = Some nd"
  shows "\<exists>acc'. fold_ok (\<lambda>n acc. rbind (state_node s n) (\<lambda>nd.
      Ok (case nd of BufferView v \<Rightarrow> bt_insert (bv_buffer_id v) () acc | _ \<Rightarrow> acc))) ns acc = Ok acc' \<and>
    dom (bt_get acc') = dom (bt_get acc) \<union> {bv_buffer_id v | n v. n \<in> set ns \<and> bt_get (nodes s) n = Some (BufferView v)}"
  using assms
proof (induction ns arbitrary: acc)
  case (Cons n ns)
  obtain nd where nd: "bt_get (nodes s) n = Some nd" using Cons.prems by auto
  let ?acc = "case nd of BufferView v \<Rightarrow> bt_insert (bv_buffer_id v) () acc | _ \<Rightarrow> acc"
  have IH: "\<exists>acc'. fold_ok (\<lambda>n acc. rbind (state_node s n) (\<lambda>nd.
      Ok (case nd of BufferView v \<Rightarrow> bt_insert (bv_buffer_id v) () acc | _ \<Rightarrow> acc))) ns ?acc = Ok acc' \<and>
    dom (bt_get acc') = dom (bt_get ?acc) \<union> {bv_buffer_id v | n v. n \<in> set ns \<and> bt_get (nodes s) n = Some (BufferView v)}"
    using Cons by auto
  have "dom (bt_get ?acc) = dom (bt_get acc) \<union> {bv_buffer_id v | v. nd = BufferView v}"
    by (cases nd) (auto simp: dom_def)
  with IH nd show ?case by (fastforce simp: state_node_def)
qed simp

lemma session_buffer_ids_Ok:
  assumes st: "structure_ok s" and se: "bt_get (sessions s) sid = Some se"
  shows "\<exists>bs. session_buffer_ids s sid = Ok bs \<and> set bs = session_views s se"
proof -
  obtain ns where ns: "session_node_ids s sid = Ok ns" "set ns = session_trees s se"
    using session_node_ids_Ok [OF assms] by blast
  have "\<exists>nd. bt_get (nodes s) n = Some nd" if "n \<in> set ns" for n
    using session_trees_node [OF st se, of n] that ns(2) by metis
  from collect_views_Ok [of ns s bt_empty, OF this] obtain acc where
    "fold_ok (\<lambda>n acc. rbind (state_node s n) (\<lambda>nd.
      Ok (case nd of BufferView v \<Rightarrow> bt_insert (bv_buffer_id v) () acc | _ \<Rightarrow> acc))) ns bt_empty = Ok acc"
    "dom (bt_get acc) = session_views s se"
    by (auto simp: session_views_def ns(2) dom_def)
  moreover have "set (bt_keys acc) = dom (bt_get acc)" by (auto simp: dom_def)
  ultimately show ?thesis using ns(1) by (simp add: session_buffer_ids_def)
qed

section \<open>The snapshot of a session\<close>

text \<open>What the server tells about a node: its record with the pane that focusing it lands on.\<close>

definition node_told :: "server_state \<Rightarrow> node_id \<Rightarrow> node_rec res" where
  "node_told s n = rbind (state_node s n) (\<lambda>nd. rbind (resolve_focus_candidate s n) (\<lambda>focus. node_record nd focus))"

definition tabs_fit :: "server_state \<Rightarrow> bool" where
  "tabs_fit s \<longleftrightarrow> (\<forall>n tb. bt_get (nodes s) n = Some (Tabs tb) \<longrightarrow> tb_active tb < 2 ^ 32)"

lemma node_record_Ok:
  assumes "node_record nd focus = Ok r"
  shows "nr_id r = node_id_of nd" "nr_session_id r = node_session nd" "nr_parent_id r = node_par nd"
  using assms by (cases nd; auto split: if_splits)+

lemma node_told_Ok:
  assumes "good s" and "tabs_fit s" and "bt_get (nodes s) n = Some nd"
  shows "\<exists>r. node_told s n = Ok r \<and> nr_id r = node_id_of nd \<and> nr_session_id r = node_session nd"
proof -
  have "n \<in> dom (layout s)" using assms(3) by (auto simp: dom_layout)
  then obtain focus where "resolve_focus_candidate s n = Ok focus"
    using resolve_focus_candidate_Ok [OF goodD(3,8,9) [OF assms(1)]] by blast
  moreover have "\<exists>r. node_record nd focus = Ok r"
    using assms(2,3) by (cases nd) (auto simp: tabs_fit_def)
  ultimately show ?thesis using assms(3) node_record_Ok by (fastforce simp: node_told_def state_node_def)
qed

lemma session_snapshot_Ok:
  assumes g: "good s" and fit: "tabs_fit s" and se: "bt_get (sessions s) sid = Some se"
  shows "\<exists>snap. session_snapshot s sid = Ok snap \<and> ss_session snap = session_record se \<and>
    (\<forall>r. r \<in> set (ss_nodes snap) \<longleftrightarrow> (\<exists>n \<in> session_trees s se. node_told s n = Ok r)) \<and>
    (\<forall>r. r \<in> set (ss_buffers snap) \<longleftrightarrow> (\<exists>bid \<in> session_views s se. \<exists>b. bt_get (buffers s) bid = Some b \<and> r = buffer_record b)) \<and>
    ss_floating snap = map (\<lambda>fid. floating_record (the (bt_get (floating s) fid))) (se_floating se)"
proof -
  have st: "structure_ok s" using goodD(2) [OF g] .
  obtain ns where ns: "session_node_ids s sid = Ok ns" "set ns = session_trees s se"
    using session_node_ids_Ok [OF st se] by blast
  have told: "\<exists>r. node_told s n = Ok r \<and> nr_id r = n" if "n \<in> set ns" for n
    using session_trees_node [OF st se, of n] node_told_Ok [OF g fit] that ns(2) by metis
  obtain rs where rs: "map_ok (node_told s) ns = Ok rs" "\<And>r. r \<in> set rs \<longleftrightarrow> (\<exists>n \<in> set ns. node_told s n = Ok r)"
    using map_ok_exists [of ns "node_told s"] told by blast
  obtain bs where bs: "session_buffer_ids s sid = Ok bs" "set bs = session_views s se"
    using session_buffer_ids_Ok [OF st se] by blast
  have "\<exists>b. bt_get (buffers s) bid = Some b" if "bid \<in> set bs" for bid
    using that bs(2) goodD(11) [OF g] by (fastforce simp: session_views_def shown_buffers_ok_def)
  then have "map_ok (\<lambda>bid. rbind (state_buffer s bid) (\<lambda>b. Ok (buffer_record b))) bs =
      Ok (map (\<lambda>bid. buffer_record (the (bt_get (buffers s) bid))) bs)"
    by (intro map_ok_map) (fastforce simp: state_buffer_def)
  moreover have "map_ok (\<lambda>fid. rbind (state_floating s fid) (\<lambda>f. Ok (floating_record f))) (se_floating se) =
      Ok (map (\<lambda>fid. floating_record (the (bt_get (floating s) fid))) (se_floating se))"
    by (rule map_ok_map) (auto simp: state_floating_def elim: session_floating_root [OF st se])
  moreover have "se_root_node se \<in> set ns" unfolding ns(2) session_trees_def by (simp add: below_def)
  then have "list_ex (\<lambda>n. nr_id n = se_root_node se) rs" using told rs(2) by (fastforce simp: list_ex_iff)
  moreover have "node_told s = (\<lambda>n. rbind (state_node s n) (\<lambda>nd. rbind (resolve_focus_candidate s n) (node_record nd)))"
    by (simp add: node_told_def fun_eq_iff)
  ultimately show ?thesis
    using ns rs bs se \<open>\<And>bid. bid \<in> set bs \<Longrightarrow> \<exists>b. bt_get (buffers s) bid = Some b\<close>
    by (auto simp: session_snapshot_def state_session_def) force+
qed

section \<open>Records and locations of buffers\<close>

text \<open>The record of a buffer is valid when only programs have pipes, and a pipe runs a program.\<close>

lemma buffer_record_valid:
  assumes "\<And>p. bu_pipe b = Some p \<Longrightarrow> bu_kind b = Pty \<and> (\<exists>program args. bp_command p = program # args \<and> program \<noteq> [])"
  shows "buffer_record_validate (buffer_record b) = Ok ()"
proof (cases "bu_pipe b")
  case None
  then show ?thesis
    by (cases "bu_kind b") (simp_all add: buffer_record_validate_def buffer_record_def split: buffer_state.split)
next
  case (Some p)
  then obtain program args where "bu_kind b = Pty" "bp_command p = program # args" "program \<noteq> []" using assms by blast
  then show ?thesis
    using Some
    by (simp add: buffer_record_validate_def buffer_record_def pipe_record_def pipe_record_validate_def
        split: buffer_state.split buffer_pipe_state.split)
qed

lemma buffer_location_Ok:
  assumes g: "good s" and b: "bt_get (buffers s) bid = Some b"
  shows "\<exists>a. buffer_location s bid = Ok \<lparr>bl_buffer_id = bid, bl_attachment = a\<rparr> \<and>
    (case a of
       LocDetached \<Rightarrow> bu_attachment b = Detached
     | LocSession sid n \<Rightarrow> bu_attachment b = Attached n \<and> (\<exists>c. layout s n = Some c \<and> ce_session c = sid) \<and>
         (\<forall>fid f. bt_get (floating s) fid = Some f \<longrightarrow> n \<notin> below (layout s) (fw_root_node f))
     | LocFloating sid n fid \<Rightarrow> bu_attachment b = Attached n \<and> (\<exists>c. layout s n = Some c \<and> ce_session c = sid) \<and>
         (\<exists>f. bt_get (floating s) fid = Some f \<and> n \<in> below (layout s) (fw_root_node f)))"
proof (cases "bu_attachment b")
  case Detached
  then show ?thesis using b by (simp add: buffer_location_def state_buffer_def)
next
  case (Attached n)
  note fl = goodD(7) [OF g] and f = goodD(3) [OF g]
  obtain v where v: "bt_get (nodes s) n = Some (BufferView v)"
    using goodD(4) [OF g] b Attached unfolding attach_ok_def by blast
  then have c: "layout s n = Some (cell_of (BufferView v))" and n: "n \<in> dom (layout s)"
    by (auto simp: layout_def dom_layout)
  obtain r where r: "top_root_for_node s n = Ok r" "(n, r) \<in> (up (layout s))\<^sup>*" "parentless (layout s) r"
    using top_root_Ok [OF f n] by blast
  have unique: "fw_root_node w = r" if "bt_get (floating s) fid = Some w" "n \<in> below (layout s) (fw_root_node w)" for fid w
    using root_unique [of n r "layout s" "fw_root_node w"] r floating_okD(2) [OF fl that(1)] that(2)
    by (auto simp: below_def parentless_def)
  show ?thesis
  proof (cases "floating_id_by_root s r")
    case None
    then have "n \<notin> below (layout s) (fw_root_node w)" if "bt_get (floating s) fid = Some w" for fid w
      using unique [OF that] that by (auto simp: floating_id_by_root_None)
    then show ?thesis
      using None Attached b v c r
      by (auto simp: buffer_location_def state_buffer_def state_node_def floating_id_for_node_def)
  next
    case (Some fid)
    then obtain w where "bt_get (floating s) fid = Some w" "fw_root_node w = r"
      using floating_id_by_root_Some [OF fl] by blast
    then show ?thesis
      using Some Attached b v c r
      by (auto simp: buffer_location_def state_buffer_def state_node_def floating_id_for_node_def below_def)
  qed
qed

end
