(* ===== verification/Client_State.thy ===== *)
theory Client_State
  imports Protocol_Records
begin

text \<open>
  The client's copy of the server's state (\<open>crates/embers-client/src/state.rs\<close>): the records it was sent, the
  last snapshot of each buffer, and how each pane is scrolled. The lemmas show what applying a session's
  snapshot does to the copy, and which invariants every update keeps.
\<close>

section \<open>Sets and maps of the source\<close>

text \<open>A \<open>BTreeSet\<close> is a map to \<open>unit\<close>; \<open>collect\<close> builds one from an iterator.\<close>

type_synonym 'k btree_set = "('k, unit) btree_map"

definition set_of_list :: "'k::linorder list \<Rightarrow> 'k btree_set" where
  "set_of_list xs = fold (\<lambda>x. bt_insert x ()) xs bt_empty"

definition bt_retain :: "('k::linorder \<Rightarrow> 'v \<Rightarrow> bool) \<Rightarrow> ('k, 'v) btree_map \<Rightarrow> ('k, 'v) btree_map" where
  "bt_retain p m = bt_filter_keys (\<lambda>k. case bt_get m k of Some v \<Rightarrow> p k v | None \<Rightarrow> False) m"

definition insert_all :: "('a \<Rightarrow> 'k::linorder) \<Rightarrow> 'a list \<Rightarrow> ('k, 'a) btree_map \<Rightarrow> ('k, 'a) btree_map" where
  "insert_all key xs m = fold (\<lambda>x. bt_insert (key x) x) xs m"

section \<open>Snapshots of buffers\<close>

datatype term_color = DefaultColor | Indexed nat | Rgb nat nat nat

record styled_run =
  ru_len :: nat
  ru_fg :: term_color
  ru_bg :: term_color
  ru_attrs :: nat
  ru_underline_color :: term_color
  ru_link :: nat

record hyperlink =
  hl_id :: "rstring option"
  hl_uri :: rstring

record cell_span =
  cs_len :: nat
  cs_width :: nat

record snapshot_line =
  sl_text :: rstring
  sl_runs :: "styled_run list"
  sl_links :: "hyperlink list"
  sl_cell_spans :: "cell_span list"

record cursor_position =
  cp_row :: nat
  cp_col :: nat

datatype cursor_shape = BlockCursor | UnderlineCursor | BeamCursor

record cursor_state =
  cu_position :: cursor_position
  cu_shape :: cursor_shape

record visible_snapshot =
  vn_request_id :: nat
  vn_buffer_id :: buffer_id
  vn_sequence :: nat
  vn_size :: pty_size
  vn_lines :: "snapshot_line list"
  vn_title :: "rstring option"
  vn_cwd :: "rstring option"
  vn_viewport_top_line :: nat
  vn_total_lines :: nat
  vn_alternate_screen :: bool
  vn_mouse_reporting :: bool
  vn_focus_reporting :: bool
  vn_bracketed_paste :: bool
  vn_keyboard_mode :: nat
  vn_cursor :: "cursor_state option"

section \<open>Views\<close>

record search_match =
  sm_line :: nat
  sm_start_column :: nat
  sm_end_column :: nat

record search_state =
  sq_query :: rstring
  sq_matches :: "search_match list"
  sq_active_match_index :: "nat option"

record hint_match =
  hm_label :: rstring
  hm_text :: rstring
  hm_line :: nat
  hm_start_col :: nat
  hm_end_col :: nat

record hints_state =
  hs_matches :: "hint_match list"
  hs_typed :: rstring
  hs_on_select :: "rstring option"

datatype selection_kind = Character | Line | Block

record selection_point =
  pt_line :: nat
  pt_column :: nat

record selection_state =
  ses_kind :: selection_kind
  ses_anchor :: selection_point
  ses_cursor :: selection_point

record client_view =
  cv_buffer_id :: buffer_id
  cv_follow_output :: bool
  cv_scroll_top_line :: nat
  cv_visible_line_count :: nat
  cv_total_line_count :: nat
  cv_alternate_screen :: bool
  cv_visible_lines :: "snapshot_line list"
  cv_search_state :: "search_state option"
  cv_selection_state :: "selection_state option"
  cv_hints_state :: "hints_state option"
  cv_copy_cursor :: "selection_point option"

record client_state =
  cl_sessions :: "(session_id, session_rec) btree_map"
  cl_buffers :: "(buffer_id, buffer_rec) btree_map"
  cl_nodes :: "(node_id, node_rec) btree_map"
  cl_floating :: "(floating_id, floating_rec) btree_map"
  cl_snapshots :: "(buffer_id, visible_snapshot) btree_map"
  cl_view_state :: "(node_id, client_view) btree_map"
  cl_dirty_sessions :: "session_id btree_set"
  cl_invalidated_buffers :: "buffer_id btree_set"
  cl_drawn_rows :: "(node_id, nat) btree_map"

definition client_state_default :: client_state where
  "client_state_default =
     \<lparr>cl_sessions = bt_empty, cl_buffers = bt_empty, cl_nodes = bt_empty, cl_floating = bt_empty,
      cl_snapshots = bt_empty, cl_view_state = bt_empty, cl_dirty_sessions = bt_empty,
      cl_invalidated_buffers = bt_empty, cl_drawn_rows = bt_empty\<rparr>"

section \<open>Scrolling\<close>

definition bottom_top_line :: "nat \<Rightarrow> nat \<Rightarrow> nat" where
  "bottom_top_line total_lines visible_rows = total_lines - visible_rows"

definition clamp_top_line :: "nat \<Rightarrow> nat \<Rightarrow> nat \<Rightarrow> nat" where
  "clamp_top_line top_line total_lines visible_rows = min top_line (bottom_top_line total_lines visible_rows)"

definition set_view_follow_output :: "node_id \<Rightarrow> bool \<Rightarrow> client_state \<Rightarrow> unit option \<times> client_state" where
  "set_view_follow_output n follow c =
     (case bt_get (cl_view_state c) n of
        None \<Rightarrow> (None, c)
      | Some v \<Rightarrow>
          let lines = (case bt_get (cl_snapshots c) (cv_buffer_id v) of Some sn \<Rightarrow> vn_lines sn | None \<Rightarrow> []);
              v = v\<lparr>cv_follow_output := follow\<rparr>;
              v = (if follow
                   then let v = v\<lparr>cv_scroll_top_line := bottom_top_line (cv_total_line_count v) (cv_visible_line_count v)\<rparr>
                        in if lines \<noteq> [] then v\<lparr>cv_visible_lines := lines\<rparr> else v
                   else v)
          in (Some (), c\<lparr>cl_view_state := bt_insert n v (cl_view_state c)\<rparr>))"

definition set_view_drawn_rows :: "node_id \<Rightarrow> nat \<Rightarrow> client_state \<Rightarrow> client_state" where
  "set_view_drawn_rows n n_rows c =
     (let c' = c\<lparr>cl_drawn_rows := bt_insert n n_rows (cl_drawn_rows c)\<rparr> in
      if bt_get (cl_drawn_rows c) n = Some n_rows then c'
      else
        (case bt_get (cl_view_state c') n of
           None \<Rightarrow> c'
         | Some v \<Rightarrow>
             let total_lines = max (cv_total_line_count v) n_rows;
                 top_line = (if cv_follow_output v then bottom_top_line total_lines n_rows
                        else clamp_top_line (cv_scroll_top_line v) total_lines n_rows)
             in c'\<lparr>cl_view_state := bt_insert n
                    (v\<lparr>cv_visible_line_count := n_rows, cv_total_line_count := total_lines, cv_scroll_top_line := top_line\<rparr>)
                    (cl_view_state c')\<rparr>))"

definition scrolled_to :: "nat \<Rightarrow> client_view \<Rightarrow> client_view" where
  "scrolled_to top_line v =
     (let top_line = clamp_top_line top_line (cv_total_line_count v) (cv_visible_line_count v)
      in v\<lparr>cv_scroll_top_line := top_line,
           cv_follow_output := (top_line = bottom_top_line (cv_total_line_count v) (cv_visible_line_count v))\<rparr>)"

definition set_view_scroll_top :: "node_id \<Rightarrow> nat \<Rightarrow> client_state \<Rightarrow> nat option \<times> client_state" where
  "set_view_scroll_top n top_line c =
     (case bt_get (cl_view_state c) n of
        None \<Rightarrow> (None, c)
      | Some v \<Rightarrow>
          (Some (cv_scroll_top_line (scrolled_to top_line v)),
           c\<lparr>cl_view_state := bt_insert n (scrolled_to top_line v) (cl_view_state c)\<rparr>))"

definition set_view_visible_lines :: "node_id \<Rightarrow> nat \<Rightarrow> snapshot_line list \<Rightarrow> client_state \<Rightarrow> unit option \<times> client_state" where
  "set_view_visible_lines n top_line lines c =
     (case bt_get (cl_view_state c) n of
        None \<Rightarrow> (None, c)
      | Some v \<Rightarrow>
          (Some (), c\<lparr>cl_view_state := bt_insert n ((scrolled_to top_line v)\<lparr>cv_visible_lines := lines\<rparr>) (cl_view_state c)\<rparr>))"

section \<open>Bringing the views up to date\<close>

definition fresh_view ::
  "buffer_view_rec \<Rightarrow> nat \<Rightarrow> nat \<Rightarrow> nat \<Rightarrow> bool \<Rightarrow> snapshot_line list \<Rightarrow> client_view" where
  "fresh_view bv top_line visible_rows total_lines alternate lines =
     \<lparr>cv_buffer_id = vr_buffer_id bv, cv_follow_output = vr_follow_output bv, cv_scroll_top_line = top_line,
      cv_visible_line_count = visible_rows, cv_total_line_count = total_lines, cv_alternate_screen = alternate,
      cv_visible_lines = lines, cv_search_state = None, cv_selection_state = None, cv_hints_state = None,
      cv_copy_cursor = None\<rparr>"

text \<open>A view that goes on showing the same buffer.\<close>

definition resynced_view ::
  "bool \<Rightarrow> visible_snapshot option \<Rightarrow> nat \<Rightarrow> nat \<Rightarrow> bool \<Rightarrow> snapshot_line list \<Rightarrow> client_view \<Rightarrow> client_view" where
  "resynced_view reset_hints snap visible_rows total_lines alternate lines v =
     (let v = (if reset_hints then v\<lparr>cv_hints_state := None\<rparr> else v);
          v = v\<lparr>cv_visible_line_count := visible_rows, cv_total_line_count := total_lines, cv_alternate_screen := alternate\<rparr>
      in if alternate then v\<lparr>cv_visible_lines := lines\<rparr>
         else
           let top_line = (if cv_follow_output v then bottom_top_line total_lines visible_rows
                      else clamp_top_line (cv_scroll_top_line v) total_lines visible_rows);
               live = (case snap of Some sn \<Rightarrow> vn_viewport_top_line sn | None \<Rightarrow> top_line)
           in v\<lparr>cv_scroll_top_line := top_line,
                cv_visible_lines := (if cv_follow_output v \<or> top_line = live \<or> cv_visible_lines v = [] then lines else [])\<rparr>)"

definition sync_view_state :: "bool \<Rightarrow> node_id \<Rightarrow> client_state \<Rightarrow> client_state" where
  "sync_view_state reset_hints n c =
     (case bt_get (cl_nodes c) n of
        None \<Rightarrow> c
      | Some nr \<Rightarrow>
          if nr_kind nr \<noteq> KindBufferView then c
          else
            (case nr_buffer_view nr of
               None \<Rightarrow> c
             | Some bv \<Rightarrow>
                 let snap = bt_get (cl_snapshots c) (vr_buffer_id bv);
                     visible_rows = (case bt_get (cl_drawn_rows c) n of Some n_rows \<Rightarrow> n_rows | None \<Rightarrow> rows (vr_last_render_size bv));
                     total_lines = (case snap of Some sn \<Rightarrow> max (vn_total_lines sn) visible_rows | None \<Rightarrow> visible_rows);
                     alternate = (case snap of Some sn \<Rightarrow> vn_alternate_screen sn | None \<Rightarrow> False);
                     top_line = (case snap of Some sn \<Rightarrow> vn_viewport_top_line sn | None \<Rightarrow> bottom_top_line total_lines visible_rows);
                     lines = (case snap of Some sn \<Rightarrow> vn_lines sn | None \<Rightarrow> []);
                     v = (case bt_get (cl_view_state c) n of
                            Some v \<Rightarrow>
                              if cv_buffer_id v = vr_buffer_id bv
                              then resynced_view reset_hints snap visible_rows total_lines alternate lines v
                              else fresh_view bv top_line visible_rows total_lines alternate lines
                          | None \<Rightarrow> fresh_view bv top_line visible_rows total_lines alternate lines)
                 in c\<lparr>cl_view_state := bt_insert n v (cl_view_state c)\<rparr>))"

definition sync_view_states_for_nodes :: "node_id btree_set \<Rightarrow> bool \<Rightarrow> client_state \<Rightarrow> client_state" where
  "sync_view_states_for_nodes ns reset_hints c = fold (sync_view_state reset_hints) (bt_keys ns) c"

definition sync_view_states_for_buffer :: "buffer_id \<Rightarrow> client_state \<Rightarrow> client_state" where
  "sync_view_states_for_buffer bid c =
     sync_view_states_for_nodes
       (set_of_list (map nr_id (filter (\<lambda>nr. nr_kind nr = KindBufferView \<and>
          (case nr_buffer_view nr of Some bv \<Rightarrow> vr_buffer_id bv = bid | None \<Rightarrow> False)) (bt_values (cl_nodes c)))))
       True c"

section \<open>What the server sent\<close>

definition client_session_node_ids :: "client_state \<Rightarrow> session_id \<Rightarrow> node_id btree_set" where
  "client_session_node_ids c sid =
     set_of_list (map nr_id (filter (\<lambda>nr. nr_session_id nr = sid) (bt_values (cl_nodes c))))"

definition attached_buffers_for_nodes :: "client_state \<Rightarrow> node_id btree_set \<Rightarrow> buffer_id btree_set" where
  "attached_buffers_for_nodes c ns =
     set_of_list (map br_id (filter (\<lambda>b. case br_attachment_node_id b of
        Some n \<Rightarrow> bt_contains ns n | None \<Rightarrow> False) (bt_values (cl_buffers c))))"

definition detach_record :: "node_id btree_set \<Rightarrow> buffer_rec \<Rightarrow> buffer_rec" where
  "detach_record ns b =
     (case br_attachment_node_id b of
        Some n \<Rightarrow> if bt_contains ns n then b\<lparr>br_attachment_node_id := None\<rparr> else b
      | None \<Rightarrow> b)"

definition detach_buffers_for_nodes :: "node_id btree_set \<Rightarrow> client_state \<Rightarrow> client_state" where
  "detach_buffers_for_nodes ns c = c\<lparr>cl_buffers := bt_map_values (detach_record ns) (cl_buffers c)\<rparr>"

definition apply_session_snapshot :: "session_snap \<Rightarrow> client_state \<Rightarrow> client_state" where
  "apply_session_snapshot snap c =
     (let sid = sr_id (ss_session snap);
          previous = client_session_node_ids c sid;
          previous_attached = attached_buffers_for_nodes c previous;
          current_nodes = set_of_list (map nr_id (ss_nodes snap));
          current_buffers = set_of_list (map br_id (ss_buffers snap));
          current_floating = set_of_list (map fr_id (ss_floating snap));
          kept = (\<lambda>n. \<not> bt_contains previous n \<or> bt_contains current_nodes n);
          c = c\<lparr>cl_sessions := bt_insert sid (ss_session snap) (cl_sessions c),
                cl_nodes := bt_retain (\<lambda>n nr. nr_session_id nr \<noteq> sid \<or> bt_contains current_nodes n) (cl_nodes c),
                cl_floating := bt_retain (\<lambda>f fr. fr_session_id fr \<noteq> sid \<or> bt_contains current_floating f) (cl_floating c),
                cl_view_state := bt_filter_keys kept (cl_view_state c),
                cl_drawn_rows := bt_filter_keys kept (cl_drawn_rows c)\<rparr>;
          c = c\<lparr>cl_nodes := insert_all nr_id (ss_nodes snap) (cl_nodes c),
                cl_buffers := insert_all br_id (ss_buffers snap) (cl_buffers c),
                cl_floating := insert_all fr_id (ss_floating snap) (cl_floating c)\<rparr>;
          c = c\<lparr>cl_buffers := fold (\<lambda>b. bt_update b (detach_record previous))
                  (filter (\<lambda>b. \<not> bt_contains current_buffers b) (bt_keys previous_attached)) (cl_buffers c)\<rparr>;
          c = sync_view_states_for_nodes current_nodes False c
      in c\<lparr>cl_dirty_sessions := bt_remove sid (cl_dirty_sessions c)\<rparr>)"

definition client_remove_buffer :: "buffer_id \<Rightarrow> client_state \<Rightarrow> client_state" where
  "client_remove_buffer bid c =
     c\<lparr>cl_buffers := bt_remove bid (cl_buffers c),
       cl_snapshots := bt_remove bid (cl_snapshots c),
       cl_view_state := bt_retain (\<lambda>_ v. cv_buffer_id v \<noteq> bid) (cl_view_state c),
       cl_invalidated_buffers := bt_remove bid (cl_invalidated_buffers c)\<rparr>"

definition apply_detached_buffers :: "buffer_rec list \<Rightarrow> client_state \<Rightarrow> client_state" where
  "apply_detached_buffers bs c =
     (let current = set_of_list (map br_id (filter (\<lambda>b. br_attachment_node_id b = None) (bt_values (cl_buffers c))));
          incoming = set_of_list (map br_id bs);
          c = fold client_remove_buffer (filter (\<lambda>b. \<not> bt_contains incoming b) (bt_keys current)) c
      in c\<lparr>cl_buffers := insert_all br_id bs (cl_buffers c)\<rparr>)"

definition apply_buffer_record :: "buffer_rec \<Rightarrow> client_state \<Rightarrow> client_state" where
  "apply_buffer_record b c = c\<lparr>cl_buffers := bt_insert (br_id b) b (cl_buffers c)\<rparr>"

definition apply_buffer_snapshot :: "visible_snapshot \<Rightarrow> client_state \<Rightarrow> client_state" where
  "apply_buffer_snapshot sn c =
     (let bid = vn_buffer_id sn;
          c = c\<lparr>cl_buffers := bt_update bid (\<lambda>b.
                  let b = b\<lparr>br_last_snapshot_seq := vn_sequence sn, br_pty_size := vn_size sn\<rparr>;
                      b = (case vn_title sn of Some title \<Rightarrow> b\<lparr>br_title := title\<rparr> | None \<Rightarrow> b)
                  in (case vn_cwd sn of Some cwd \<Rightarrow> b\<lparr>br_cwd := Some cwd\<rparr> | None \<Rightarrow> b)) (cl_buffers c),
                cl_invalidated_buffers := bt_remove bid (cl_invalidated_buffers c),
                cl_snapshots := bt_insert bid sn (cl_snapshots c)\<rparr>
      in sync_view_states_for_buffer bid c)"

definition client_remove_session :: "session_id \<Rightarrow> client_state \<Rightarrow> client_state" where
  "client_remove_session sid c =
     (let ns = client_session_node_ids c sid;
          c = c\<lparr>cl_sessions := bt_remove sid (cl_sessions c),
                cl_nodes := bt_retain (\<lambda>_ nr. nr_session_id nr \<noteq> sid) (cl_nodes c),
                cl_floating := bt_retain (\<lambda>_ fr. fr_session_id fr \<noteq> sid) (cl_floating c),
                cl_view_state := bt_filter_keys (\<lambda>n. \<not> bt_contains ns n) (cl_view_state c),
                cl_drawn_rows := bt_filter_keys (\<lambda>n. \<not> bt_contains ns n) (cl_drawn_rows c)\<rparr>;
          c = detach_buffers_for_nodes ns c
      in c\<lparr>cl_dirty_sessions := bt_remove sid (cl_dirty_sessions c)\<rparr>)"

section \<open>Events\<close>

record client_rec =
  cr_id :: nat
  cr_current_session_id :: "session_id option"
  cr_subscribed_all_sessions :: bool
  cr_subscribed_session_ids :: "session_id list"

datatype clipboard_selection = SystemClipboard | Primary

record passthrough_write =
  pw_bytes :: "nat list"
  pw_cursor :: cursor_position

datatype server_event =
    SessionCreated session_rec
  | SessionClosed session_id
  | SessionRenamed session_id rstring
  | BufferCreated buffer_rec
  | BufferPipeChanged "session_id option" buffer_rec
  | BufferDetached buffer_id
  | NodeChanged session_id
  | FloatingChanged session_id "floating_id option"
  | FocusChanged session_id "node_id option" "floating_id option"
  | RenderInvalidated buffer_id
  | ClientChanged client_rec "session_id option"
  | ClipboardWritten buffer_id clipboard_selection rstring
  | DisplayMessage rstring nat
  | Passthrough buffer_id "passthrough_write list"
  | ServerShutdown

definition mark_focus :: "floating_id option \<Rightarrow> floating_id \<Rightarrow> client_state \<Rightarrow> client_state" where
  "mark_focus focused f c =
     c\<lparr>cl_floating := bt_update f (\<lambda>fr. fr\<lparr>fr_focused := (Some f = focused)\<rparr>) (cl_floating c)\<rparr>"

fun apply_event :: "server_event \<Rightarrow> client_state \<Rightarrow> client_state" where
  "apply_event (SessionCreated sr) c =
     c\<lparr>cl_sessions := bt_insert (sr_id sr) sr (cl_sessions c),
       cl_dirty_sessions := bt_insert (sr_id sr) () (cl_dirty_sessions c)\<rparr>"
| "apply_event (SessionClosed sid) c = client_remove_session sid c"
| "apply_event (SessionRenamed sid name) c =
     (case bt_get (cl_sessions c) sid of
        Some sr \<Rightarrow> c\<lparr>cl_sessions := bt_insert sid (sr\<lparr>sr_name := name\<rparr>) (cl_sessions c)\<rparr>
      | None \<Rightarrow> c\<lparr>cl_dirty_sessions := bt_insert sid () (cl_dirty_sessions c)\<rparr>)"
| "apply_event (BufferCreated b) c = c\<lparr>cl_buffers := bt_insert (br_id b) b (cl_buffers c)\<rparr>"
| "apply_event (BufferPipeChanged _ b) c = c\<lparr>cl_buffers := bt_insert (br_id b) b (cl_buffers c)\<rparr>"
| "apply_event (BufferDetached bid) c =
     c\<lparr>cl_buffers := bt_update bid (\<lambda>b. b\<lparr>br_attachment_node_id := None\<rparr>) (cl_buffers c)\<rparr>"
| "apply_event (NodeChanged sid) c = c\<lparr>cl_dirty_sessions := bt_insert sid () (cl_dirty_sessions c)\<rparr>"
| "apply_event (FloatingChanged sid _) c = c\<lparr>cl_dirty_sessions := bt_insert sid () (cl_dirty_sessions c)\<rparr>"
| "apply_event (FocusChanged sid leaf focused) c =
     (case bt_get (cl_sessions c) sid of
        None \<Rightarrow> c
      | Some sr \<Rightarrow>
          fold (mark_focus focused) (sr_floating_ids sr)
            (c\<lparr>cl_sessions := bt_insert sid
                 (sr\<lparr>sr_focused_leaf_id := leaf, sr_focused_floating_id := focused\<rparr>) (cl_sessions c)\<rparr>))"
| "apply_event (RenderInvalidated bid) c =
     c\<lparr>cl_invalidated_buffers := bt_insert bid () (cl_invalidated_buffers c)\<rparr>"
| "apply_event (ClientChanged _ _) c = c"
| "apply_event (ClipboardWritten _ _ _) c = c"
| "apply_event (DisplayMessage _ _) c = c"
| "apply_event (Passthrough _ _) c = c"
| "apply_event ServerShutdown c = c"

section \<open>Laws of the sets and maps\<close>

lemma set_of_list_get [simp]: "bt_get (set_of_list xs) k = (if k \<in> set xs then Some () else None)"
proof -
  have "bt_get (fold (\<lambda>x. bt_insert x ()) xs m) k = (if k \<in> set xs then Some () else bt_get m k)" for m
    by (induction xs arbitrary: m) simp_all
  then show ?thesis by (simp add: set_of_list_def)
qed

lemma some_unit_iff [simp]: "(if P then Some () else None) = Some x \<longleftrightarrow> P"
  by simp

lemma bt_get_retain [simp]:
  "bt_get (bt_retain p m) k = (case bt_get m k of Some v \<Rightarrow> if p k v then Some v else None | None \<Rightarrow> None)"
  by (simp add: bt_retain_def split: option.split)

lemma insert_all_absent: "k \<notin> key ` set xs \<Longrightarrow> bt_get (insert_all key xs m) k = bt_get m k"
  unfolding insert_all_def by (induction xs arbitrary: m) auto

lemma insert_all_present: "k \<in> key ` set xs \<Longrightarrow> \<exists>x \<in> set xs. key x = k \<and> bt_get (insert_all key xs m) k = Some x"
proof (induction xs arbitrary: m)
  case (Cons x xs)
  have step: "insert_all key (x # xs) m = insert_all key xs (bt_insert (key x) x m)" by (simp add: insert_all_def)
  show ?case
  proof (cases "k \<in> key ` set xs")
    case True
    then show ?thesis using Cons.IH [of "bt_insert (key x) x m"] step by auto
  next
    case False
    then have "key x = k" using Cons.prems by auto
    then show ?thesis using insert_all_absent [OF False] step by simp
  qed
qed simp

lemma insert_all_Some:
  assumes "bt_get (insert_all key xs m) k = Some x"
  shows "x \<in> set xs \<and> key x = k \<or> k \<notin> key ` set xs \<and> bt_get m k = Some x"
  using assms insert_all_present [of k key xs m] insert_all_absent [of k key xs m] by (cases "k \<in> key ` set xs") auto

text \<open>Records with different keys all arrive.\<close>

definition unique_keys :: "('a \<Rightarrow> 'k) \<Rightarrow> 'a list \<Rightarrow> bool" where
  "unique_keys key xs \<longleftrightarrow> (\<forall>x \<in> set xs. \<forall>y \<in> set xs. key x = key y \<longrightarrow> x = y)"

lemma insert_all_unique:
  assumes "unique_keys key xs"
  shows "bt_get (insert_all key xs m) k = Some x \<longleftrightarrow>
    x \<in> set xs \<and> key x = k \<or> k \<notin> key ` set xs \<and> bt_get m k = Some x"
  using insert_all_Some [of key xs m k x] insert_all_present [of k key xs m] insert_all_absent [of k key xs m] assms
  unfolding unique_keys_def by (metis image_eqI option.inject)

section \<open>Which parts of the copy an update touches\<close>

lemma sync_view_state_parts [simp]:
  "cl_sessions (sync_view_state h n c) = cl_sessions c" "cl_buffers (sync_view_state h n c) = cl_buffers c"
  "cl_nodes (sync_view_state h n c) = cl_nodes c" "cl_floating (sync_view_state h n c) = cl_floating c"
  "cl_dirty_sessions (sync_view_state h n c) = cl_dirty_sessions c"
  by (simp_all add: sync_view_state_def Let_def split: option.split)

lemma sync_view_states_parts [simp]:
  "cl_sessions (sync_view_states_for_nodes ns h c) = cl_sessions c"
  "cl_buffers (sync_view_states_for_nodes ns h c) = cl_buffers c"
  "cl_nodes (sync_view_states_for_nodes ns h c) = cl_nodes c"
  "cl_floating (sync_view_states_for_nodes ns h c) = cl_floating c"
  "cl_dirty_sessions (sync_view_states_for_nodes ns h c) = cl_dirty_sessions c"
proof -
  have "cl_sessions (fold (sync_view_state h) xs c) = cl_sessions c \<and> cl_buffers (fold (sync_view_state h) xs c) = cl_buffers c \<and>
    cl_nodes (fold (sync_view_state h) xs c) = cl_nodes c \<and> cl_floating (fold (sync_view_state h) xs c) = cl_floating c \<and>
    cl_dirty_sessions (fold (sync_view_state h) xs c) = cl_dirty_sessions c" for xs
    by (induction xs arbitrary: c) simp_all
  then show "cl_sessions (sync_view_states_for_nodes ns h c) = cl_sessions c"
    "cl_buffers (sync_view_states_for_nodes ns h c) = cl_buffers c"
    "cl_nodes (sync_view_states_for_nodes ns h c) = cl_nodes c"
    "cl_floating (sync_view_states_for_nodes ns h c) = cl_floating c"
    "cl_dirty_sessions (sync_view_states_for_nodes ns h c) = cl_dirty_sessions c"
    by (simp_all add: sync_view_states_for_nodes_def)
qed

lemma snapshot_parts:
  "cl_sessions (apply_session_snapshot snap c) = bt_insert (sr_id (ss_session snap)) (ss_session snap) (cl_sessions c)"
  "cl_nodes (apply_session_snapshot snap c) =
     insert_all nr_id (ss_nodes snap) (bt_retain (\<lambda>n nr. nr_session_id nr \<noteq> sr_id (ss_session snap) \<or>
       n \<in> nr_id ` set (ss_nodes snap)) (cl_nodes c))"
  "cl_floating (apply_session_snapshot snap c) =
     insert_all fr_id (ss_floating snap) (bt_retain (\<lambda>f fr. fr_session_id fr \<noteq> sr_id (ss_session snap) \<or>
       f \<in> fr_id ` set (ss_floating snap)) (cl_floating c))"
  "cl_dirty_sessions (apply_session_snapshot snap c) = bt_remove (sr_id (ss_session snap)) (cl_dirty_sessions c)"
  by (simp_all add: apply_session_snapshot_def Let_def)

lemma snapshot_nodes:
  assumes "unique_keys nr_id (ss_nodes snap)"
  shows "bt_get (cl_nodes (apply_session_snapshot snap c)) n = Some r \<longleftrightarrow>
    r \<in> set (ss_nodes snap) \<and> nr_id r = n \<or>
    n \<notin> nr_id ` set (ss_nodes snap) \<and> bt_get (cl_nodes c) n = Some r \<and> nr_session_id r \<noteq> sr_id (ss_session snap)"
  unfolding snapshot_parts insert_all_unique [OF assms] by (auto split: option.splits if_splits)

lemma snapshot_floating:
  assumes "unique_keys fr_id (ss_floating snap)"
  shows "bt_get (cl_floating (apply_session_snapshot snap c)) f = Some r \<longleftrightarrow>
    r \<in> set (ss_floating snap) \<and> fr_id r = f \<or>
    f \<notin> fr_id ` set (ss_floating snap) \<and> bt_get (cl_floating c) f = Some r \<and> fr_session_id r \<noteq> sr_id (ss_session snap)"
  unfolding snapshot_parts insert_all_unique [OF assms] by (auto split: option.splits if_splits)

text \<open>
  The records of buffers: those sent are there, and the others stay unless they were attached to a node the
  session had before.
\<close>

lemma fold_bt_update_other: "k \<notin> set ks \<Longrightarrow> bt_get (fold (\<lambda>k. bt_update k f) ks m) k = bt_get m k"
  by (induction ks arbitrary: m) auto

lemma snapshot_buffers_sent:
  assumes "unique_keys br_id (ss_buffers snap)" and "b \<in> set (ss_buffers snap)"
  shows "bt_get (cl_buffers (apply_session_snapshot snap c)) (br_id b) = Some b"
proof -
  have "bt_get (insert_all br_id (ss_buffers snap) m) (br_id b) = Some b" for m
    using assms(2) by (simp add: insert_all_unique [OF assms(1)])
  then show ?thesis
    using assms(2) by (simp add: apply_session_snapshot_def Let_def fold_bt_update_other)
qed

lemma snapshot_buffers_kept:
  assumes "bid \<notin> br_id ` set (ss_buffers snap)" and "bt_get (cl_buffers c) bid = Some b"
    and "\<And>n. br_attachment_node_id b = Some n \<Longrightarrow> bt_get (client_session_node_ids c (sr_id (ss_session snap))) n = None"
    and "\<And>bid b. bt_get (cl_buffers c) bid = Some b \<Longrightarrow> br_id b = bid"
  shows "bt_get (cl_buffers (apply_session_snapshot snap c)) bid = Some b"
proof -
  have "bt_get (attached_buffers_for_nodes c (client_session_node_ids c (sr_id (ss_session snap)))) bid = None"
    using assms(2,3,4)
    by (fastforce simp: attached_buffers_for_nodes_def bt_values_iff simp del: bt_contains_iff simp: bt_contains_def
        split: option.splits)
  then show ?thesis
    using assms(1,2) by (simp add: apply_session_snapshot_def Let_def fold_bt_update_other insert_all_absent)
qed

end
