(* ===== verification/Client_Copy.thy ===== *)
theory Client_Copy
  imports Client_State Service
begin

text \<open>
  What stays true of the client's copy of the server's state, whatever well-formed snapshots and whatever
  other records and events it is sent: every record is filed under its id, nodes and floating windows belong
  to sessions the client knows, and every view belongs to a node it knows and shows that node's buffer.
\<close>

section \<open>The invariant\<close>

definition filed_ok :: "client_state \<Rightarrow> bool" where
  "filed_ok c \<longleftrightarrow>
     (\<forall>sid r. bt_get (cl_sessions c) sid = Some r \<longrightarrow> sr_id r = sid) \<and>
     (\<forall>n r. bt_get (cl_nodes c) n = Some r \<longrightarrow> nr_id r = n \<and> bt_get (cl_sessions c) (nr_session_id r) \<noteq> None) \<and>
     (\<forall>f r. bt_get (cl_floating c) f = Some r \<longrightarrow> fr_id r = f \<and> bt_get (cl_sessions c) (fr_session_id r) \<noteq> None) \<and>
     (\<forall>bid b. bt_get (cl_buffers c) bid = Some b \<longrightarrow> br_id b = bid)"

definition view_known :: "client_state \<Rightarrow> node_id \<Rightarrow> bool" where
  "view_known c n \<longleftrightarrow>
     (\<forall>v. bt_get (cl_view_state c) n = Some v \<longrightarrow>
        bt_get (cl_nodes c) n \<noteq> None \<and> cv_visible_line_count v \<le> cv_total_line_count v)"

definition view_fits :: "client_state \<Rightarrow> node_id \<Rightarrow> bool" where
  "view_fits c n \<longleftrightarrow>
     (\<forall>v r bv. bt_get (cl_view_state c) n = Some v \<longrightarrow> bt_get (cl_nodes c) n = Some r \<longrightarrow>
        nr_kind r = KindBufferView \<longrightarrow> nr_buffer_view r = Some bv \<longrightarrow> cv_buffer_id v = vr_buffer_id bv)"

definition copy_ok :: "client_state \<Rightarrow> bool" where
  "copy_ok c \<longleftrightarrow> filed_ok c \<and> (\<forall>n. view_known c n) \<and> (\<forall>n. view_fits c n)"

lemma copy_okD:
  assumes "copy_ok c"
  shows "filed_ok c" "view_known c n" "view_fits c n"
    "bt_get (cl_nodes c) n = Some r \<Longrightarrow> nr_id r = n" "bt_get (cl_buffers c) bid = Some b \<Longrightarrow> br_id b = bid"
    "bt_get (cl_floating c) f = Some w \<Longrightarrow> fr_id w = f"
    "bt_get (cl_sessions c) sid = Some sr \<Longrightarrow> sr_id sr = sid"
    "bt_get (cl_nodes c) n = Some r \<Longrightarrow> \<exists>sr. bt_get (cl_sessions c) (nr_session_id r) = Some sr"
    "bt_get (cl_floating c) f = Some w \<Longrightarrow> \<exists>sr. bt_get (cl_sessions c) (fr_session_id w) = Some sr"
  using assms unfolding copy_ok_def filed_ok_def by blast+

text \<open>The sessions of a snapshot's nodes and windows, and its ids, are those of one session.\<close>

definition snap_ok :: "session_snap \<Rightarrow> bool" where
  "snap_ok snap \<longleftrightarrow>
     unique_keys nr_id (ss_nodes snap) \<and> unique_keys fr_id (ss_floating snap) \<and> unique_keys br_id (ss_buffers snap) \<and>
     list_all (\<lambda>r. nr_session_id r = sr_id (ss_session snap)) (ss_nodes snap) \<and>
     list_all (\<lambda>r. fr_session_id r = sr_id (ss_session snap)) (ss_floating snap)"

section \<open>Views follow their nodes\<close>

lemma sync_view_state_other: "m \<noteq> n \<Longrightarrow> bt_get (cl_view_state (sync_view_state h n c)) m = bt_get (cl_view_state c) m"
  by (simp add: sync_view_state_def Let_def split: option.split)

lemma resynced_view_parts [simp]:
  "cv_buffer_id (resynced_view h snap s t a ls v) = cv_buffer_id v"
  "cv_visible_line_count (resynced_view h snap s t a ls v) = s" "cv_total_line_count (resynced_view h snap s t a ls v) = t"
  by (simp_all add: resynced_view_def Let_def)

lemma fresh_view_parts [simp]:
  "cv_buffer_id (fresh_view bv t s n a ls) = vr_buffer_id bv"
  "cv_visible_line_count (fresh_view bv t s n a ls) = s" "cv_total_line_count (fresh_view bv t s n a ls) = n"
  by (simp_all add: fresh_view_def)

lemma sync_view_state_known: "view_known c m \<Longrightarrow> view_known (sync_view_state h n c) m"
  by (cases "m = n")
    (auto simp: view_known_def sync_view_state_other sync_view_state_def Let_def split: option.splits if_splits)

lemma sync_view_state_fits: "view_fits (sync_view_state h n c) n"
  by (auto simp: view_fits_def sync_view_state_def Let_def split: option.splits if_splits)

lemma sync_view_state_keeps_fit: "view_fits c m \<Longrightarrow> view_fits (sync_view_state h n c) m"
proof (cases "m = n")
  case False
  assume "view_fits c m"
  with False show ?thesis by (simp add: view_fits_def sync_view_state_other)
qed (simp add: sync_view_state_fits)

lemma sync_view_states_views:
  assumes "\<And>m. view_known c m" and "\<And>m. m \<in> set (bt_keys ns) \<or> view_fits c m"
  shows "view_known (sync_view_states_for_nodes ns h c) m" "view_fits (sync_view_states_for_nodes ns h c) m"
proof -
  have "(\<forall>m. view_known (fold (sync_view_state h) xs c) m) \<and> (\<forall>m. view_fits (fold (sync_view_state h) xs c) m)"
    if "\<forall>m. view_known c m" "\<forall>m. m \<in> set xs \<or> view_fits c m" for xs c
    using that
  proof (induction xs arbitrary: c)
    case (Cons x xs)
    have "m \<in> set xs \<or> view_fits (sync_view_state h x c) m" for m
      using Cons.prems(2) sync_view_state_fits sync_view_state_keeps_fit by (metis set_ConsD)
    then show ?case using Cons sync_view_state_known by simp
  qed simp
  then show "view_known (sync_view_states_for_nodes ns h c) m" "view_fits (sync_view_states_for_nodes ns h c) m"
    using assms by (simp_all add: sync_view_states_for_nodes_def)
qed

lemma filed_ok_sync [simp]: "filed_ok (sync_view_states_for_nodes ns h c) = filed_ok c"
  by (simp add: filed_ok_def)

lemma filed_ok_parts:
  "cl_sessions c' = cl_sessions c \<Longrightarrow> cl_nodes c' = cl_nodes c \<Longrightarrow> cl_floating c' = cl_floating c \<Longrightarrow>
   (\<And>bid b. bt_get (cl_buffers c') bid = Some b \<Longrightarrow> br_id b = bid) \<Longrightarrow> filed_ok c \<Longrightarrow> filed_ok c'"
  by (simp add: filed_ok_def)

lemma views_parts:
  assumes "cl_view_state c' = cl_view_state c" and "cl_nodes c' = cl_nodes c"
  shows "view_known c' n = view_known c n" "view_fits c' n = view_fits c n"
  using assms by (simp_all add: view_known_def view_fits_def)

text \<open>Updates that touch neither nodes nor views, and updates of one view.\<close>

lemma copy_ok_records:
  assumes "copy_ok c" and "cl_sessions c' = cl_sessions c" and "cl_nodes c' = cl_nodes c" and "cl_floating c' = cl_floating c"
    and "cl_view_state c' = cl_view_state c" and "\<And>bid b. bt_get (cl_buffers c') bid = Some b \<Longrightarrow> br_id b = bid"
  shows "copy_ok c'"
  using assms filed_ok_parts [of c' c] views_parts [OF assms(5,3)] by (simp add: copy_ok_def)

lemma copy_ok_view:
  assumes "copy_ok c" and "bt_get (cl_view_state c) n = Some v" and "cv_buffer_id v' = cv_buffer_id v"
    and "cv_visible_line_count v' \<le> cv_total_line_count v'"
  shows "copy_ok (c\<lparr>cl_view_state := bt_insert n v' (cl_view_state c)\<rparr>)"
proof -
  have "view_known (c\<lparr>cl_view_state := bt_insert n v' (cl_view_state c)\<rparr>) m" for m
    using copy_okD(2) [OF assms(1), of m] assms(2,4) by (auto simp: view_known_def)
  moreover have "view_fits (c\<lparr>cl_view_state := bt_insert n v' (cl_view_state c)\<rparr>) m" for m
    using copy_okD(3) [OF assms(1), of m] assms(2,3) by (simp add: view_fits_def)
  moreover have "filed_ok (c\<lparr>cl_view_state := bt_insert n v' (cl_view_state c)\<rparr>)"
    using copy_okD(1) [OF assms(1)] by (simp add: filed_ok_def)
  ultimately show ?thesis by (simp add: copy_ok_def)
qed

section \<open>Every update keeps the invariant\<close>

lemma previous_nodes_iff:
  assumes "copy_ok c"
  shows "bt_get (client_session_node_ids c sid) n = Some () \<longleftrightarrow>
    (\<exists>r. bt_get (cl_nodes c) n = Some r \<and> nr_session_id r = sid)"
  using copy_okD(4) [OF assms] by (force simp: client_session_node_ids_def bt_values_iff)

lemma fold_bt_update_Some:
  assumes "bt_get (fold (\<lambda>k. bt_update k f) ks m) k = Some v"
  shows "\<exists>w i. bt_get m k = Some w \<and> v = (f ^^ i) w"
  using assms
proof (induction ks arbitrary: m)
  case Nil
  then show ?case by (metis fold_simps(1) funpow_0 id_apply)
next
  case (Cons a ks)
  obtain w i where w: "bt_get (bt_update a f m) k = Some w" "v = (f ^^ i) w" using Cons by fastforce
  show ?case
  proof (cases "k = a")
    case True
    then obtain u where "bt_get m k = Some u" "w = f u" using w(1) by auto
    then have "bt_get m k = Some u \<and> v = (f ^^ Suc i) u" using w(2) by (simp add: funpow_swap1)
    then show ?thesis by blast
  next
    case False
    then show ?thesis using w by auto
  qed
qed

lemma detach_record_id [simp]: "br_id (detach_record ns b) = br_id b"
  by (simp add: detach_record_def split: option.split)

lemma detach_records_id [simp]: "br_id ((detach_record ns ^^ i) b) = br_id b"
  by (induction i) simp_all

lemma snapshot_buffers_filed:
  assumes "copy_ok c" and "bt_get (cl_buffers (apply_session_snapshot snap c)) bid = Some b"
  shows "br_id b = bid"
proof -
  let ?m = "insert_all br_id (ss_buffers snap) (cl_buffers c)"
  obtain w i where w: "bt_get ?m bid = Some w" "b = (detach_record (client_session_node_ids c (sr_id (ss_session snap))) ^^ i) w"
    using assms(2) fold_bt_update_Some by (fastforce simp: apply_session_snapshot_def Let_def)
  then show ?thesis using insert_all_Some [OF w(1)] copy_okD(5) [OF assms(1)] by auto
qed

lemma copy_ok_snapshot:
  assumes ok: "copy_ok c" and snap: "snap_ok snap"
  shows "copy_ok (apply_session_snapshot snap c)"
proof -
  let ?c = "apply_session_snapshot snap c" and ?sid = "sr_id (ss_session snap)"
  have u: "unique_keys nr_id (ss_nodes snap)" "unique_keys fr_id (ss_floating snap)"
    and s: "\<And>r. r \<in> set (ss_nodes snap) \<Longrightarrow> nr_session_id r = ?sid"
      "\<And>r. r \<in> set (ss_floating snap) \<Longrightarrow> fr_session_id r = ?sid"
    using snap by (auto simp: snap_ok_def list_all_iff)
  have "filed_ok ?c"
    unfolding filed_ok_def snapshot_nodes [OF u(1)] snapshot_floating [OF u(2)] snapshot_parts(1)
    using copy_okD(4,6,7,8,9) [OF ok] s snapshot_buffers_filed [OF ok] by auto
  define views where "views =
      bt_filter_keys (\<lambda>n. \<not> (\<exists>r. bt_get (cl_nodes c) n = Some r \<and> nr_session_id r = ?sid) \<or> n \<in> nr_id ` set (ss_nodes snap))
        (cl_view_state c)"
  let ?sync = "sync_view_states_for_nodes (set_of_list (map nr_id (ss_nodes snap))) False"
  obtain base where c: "?c = (?sync base)\<lparr>cl_dirty_sessions := bt_remove ?sid (cl_dirty_sessions (?sync base))\<rparr>"
    and base: "cl_view_state base = views"
    by (rule that, unfold apply_session_snapshot_def Let_def, rule refl) (simp add: views_def previous_nodes_iff [OF ok])
  have nodes: "cl_nodes base = cl_nodes ?c" "cl_view_state ?c = cl_view_state (?sync base)" by (simp_all add: c)
  have old: "bt_get (cl_nodes ?c) n = bt_get (cl_nodes c) n"
    if "n \<notin> nr_id ` set (ss_nodes snap)" "bt_get views n \<noteq> None" for n
    using that copy_okD(2) [OF ok, of n]
    by (cases "bt_get (cl_nodes c) n") (auto simp: snapshot_parts insert_all_absent views_def view_known_def split: if_splits)
  have known: "view_known base n" for n
  proof (cases "n \<in> nr_id ` set (ss_nodes snap)")
    case True
    then have "bt_get (cl_nodes ?c) n \<noteq> None" using snapshot_nodes [OF u(1), of c n] by auto
    then show ?thesis
      using copy_okD(2) [OF ok, of n] unfolding view_known_def nodes(1) base by (auto simp: views_def split: if_splits)
  next
    case False
    then show ?thesis
      using copy_okD(2) [OF ok, of n] old [OF False] unfolding view_known_def nodes(1) base by (auto simp: views_def split: if_splits)
  qed
  have fits: "n \<in> set (bt_keys (set_of_list (map nr_id (ss_nodes snap)))) \<or> view_fits base n" for n
  proof (cases "n \<in> nr_id ` set (ss_nodes snap)")
    case False
    then show ?thesis
      using copy_okD(3) [OF ok, of n] old [OF False] unfolding view_fits_def nodes(1) base by (auto simp: views_def split: if_splits)
  qed simp
  have "view_known ?c n \<and> view_fits ?c n" for n
    using sync_view_states_views [OF known fits, where m = n and h = False] nodes by (simp add: view_known_def view_fits_def)
  with \<open>filed_ok ?c\<close> show ?thesis by (simp add: copy_ok_def)
qed

lemma copy_ok_remove_session:
  assumes ok: "copy_ok c"
  shows "copy_ok (client_remove_session sid c)"
proof -
  let ?c = "client_remove_session sid c"
  have parts: "cl_sessions ?c = bt_remove sid (cl_sessions c)"
    "cl_nodes ?c = bt_retain (\<lambda>_ nr. nr_session_id nr \<noteq> sid) (cl_nodes c)"
    "cl_floating ?c = bt_retain (\<lambda>_ fr. fr_session_id fr \<noteq> sid) (cl_floating c)"
    "cl_buffers ?c = bt_map_values (detach_record (client_session_node_ids c sid)) (cl_buffers c)"
    "cl_view_state ?c = bt_filter_keys (\<lambda>n. \<not> (\<exists>r. bt_get (cl_nodes c) n = Some r \<and> nr_session_id r = sid)) (cl_view_state c)"
    by (simp_all add: client_remove_session_def detach_buffers_for_nodes_def Let_def previous_nodes_iff [OF ok])
  have "filed_ok ?c"
    unfolding filed_ok_def parts using copy_okD(4-9) [OF ok] by (auto split: option.splits if_splits)
  moreover have "view_known ?c n" for n
    using copy_okD(2) [OF ok, of n] unfolding view_known_def parts by (auto split: option.splits if_splits)
  moreover have "view_fits ?c n" for n
    using copy_okD(3) [OF ok, of n] unfolding view_fits_def parts by (auto split: option.splits if_splits)
  ultimately show ?thesis by (simp add: copy_ok_def)
qed

lemma copy_ok_remove_buffer: "copy_ok c \<Longrightarrow> copy_ok (client_remove_buffer bid c)"
  by (auto simp: copy_ok_def filed_ok_def view_known_def view_fits_def client_remove_buffer_def split: option.splits if_splits)

lemma copy_ok_insert_buffers:
  assumes "copy_ok c"
  shows "copy_ok (c\<lparr>cl_buffers := insert_all br_id bs (cl_buffers c)\<rparr>)"
  by (rule copy_ok_records [OF assms]) (use insert_all_Some [of br_id] copy_okD(5) [OF assms] in force)+

lemma copy_ok_detached: "copy_ok c \<Longrightarrow> copy_ok (apply_detached_buffers bs c)"
proof -
  assume ok: "copy_ok c"
  have "copy_ok (fold client_remove_buffer xs c)" for xs
    using ok by (induction xs arbitrary: c) (simp_all add: copy_ok_remove_buffer)
  from copy_ok_insert_buffers [OF this] show ?thesis by (simp add: apply_detached_buffers_def Let_def)
qed

lemma copy_ok_buffer_record:
  assumes "copy_ok c"
  shows "copy_ok (apply_buffer_record b c)"
  by (rule copy_ok_records [OF assms]) (use copy_okD(5) [OF assms] in \<open>auto simp: apply_buffer_record_def split: if_splits\<close>)

lemma copy_ok_visible_snapshot:
  assumes ok: "copy_ok c"
  shows "copy_ok (apply_buffer_snapshot sn c)"
proof -
  define d where "d = c\<lparr>cl_buffers := bt_update (vn_buffer_id sn) (\<lambda>b.
                  let b = b\<lparr>br_last_snapshot_seq := vn_sequence sn, br_pty_size := vn_size sn\<rparr>;
                      b = (case vn_title sn of Some title \<Rightarrow> b\<lparr>br_title := title\<rparr> | None \<Rightarrow> b)
                  in (case vn_cwd sn of Some cwd \<Rightarrow> b\<lparr>br_cwd := Some cwd\<rparr> | None \<Rightarrow> b)) (cl_buffers c),
                cl_invalidated_buffers := bt_remove (vn_buffer_id sn) (cl_invalidated_buffers c),
                cl_snapshots := bt_insert (vn_buffer_id sn) sn (cl_snapshots c)\<rparr>"
  have "copy_ok d"
    by (rule copy_ok_records [OF ok])
      (use copy_okD(5) [OF ok] in \<open>auto simp: d_def Let_def split: if_splits option.splits\<close>)
  then have "copy_ok (sync_view_states_for_nodes ns True d)" for ns
    using sync_view_states_views [of d ns True] by (simp add: copy_ok_def)
  then show ?thesis by (simp add: apply_buffer_snapshot_def sync_view_states_for_buffer_def Let_def d_def)
qed

lemma mark_focus_parts [simp]:
  "cl_sessions (mark_focus w f c) = cl_sessions c" "cl_nodes (mark_focus w f c) = cl_nodes c"
  "cl_buffers (mark_focus w f c) = cl_buffers c" "cl_view_state (mark_focus w f c) = cl_view_state c"
  by (simp_all add: mark_focus_def)

lemma copy_ok_mark_focus: "copy_ok c \<Longrightarrow> copy_ok (fold (mark_focus w) fs c)"
proof (induction fs arbitrary: c)
  case (Cons f fs)
  have "copy_ok (mark_focus w f c)"
    using Cons.prems unfolding copy_ok_def
    by (auto simp: filed_ok_def view_known_def view_fits_def mark_focus_def split: if_splits)
  then show ?case using Cons.IH by simp
qed simp

lemma copy_ok_session:
  assumes "copy_ok c" and "sr_id sr = sid"
  shows "copy_ok (c\<lparr>cl_sessions := bt_insert sid sr (cl_sessions c)\<rparr>)"
  using assms by (simp add: copy_ok_def filed_ok_def view_known_def view_fits_def)

lemma copy_ok_dirty: "copy_ok (c\<lparr>cl_dirty_sessions := d\<rparr>) = copy_ok c" "copy_ok (c\<lparr>cl_invalidated_buffers := e\<rparr>) = copy_ok c"
  by (simp_all add: copy_ok_def filed_ok_def view_known_def view_fits_def)

lemma copy_ok_event:
  assumes ok: "copy_ok c"
  shows "copy_ok (apply_event e c)"
proof (cases e)
  case (SessionCreated sr)
  have "copy_ok ((c\<lparr>cl_sessions := bt_insert (sr_id sr) sr (cl_sessions c)\<rparr>)\<lparr>cl_dirty_sessions := d\<rparr>)" for d
    unfolding copy_ok_dirty by (rule copy_ok_session [OF ok refl])
  then show ?thesis by (simp add: SessionCreated)
next
  case (SessionRenamed sid name)
  then show ?thesis
    using ok copy_ok_session [OF ok, of "sr\<lparr>sr_name := name\<rparr>" sid for sr] copy_okD(7) [OF ok]
    by (auto simp: copy_ok_dirty split: option.split)
next
  case (FocusChanged sid leaf focused)
  then show ?thesis
    using ok copy_ok_session [OF ok, of "sr\<lparr>sr_focused_leaf_id := leaf, sr_focused_floating_id := focused\<rparr>" sid for sr]
      copy_okD(7) [OF ok]
    by (auto intro: copy_ok_mark_focus split: option.split)
next
  case (BufferCreated b)
  then show ?thesis using copy_ok_buffer_record [OF ok, of b] by (simp add: apply_buffer_record_def)
next
  case (BufferPipeChanged sid b)
  then show ?thesis using copy_ok_buffer_record [OF ok, of b] by (simp add: apply_buffer_record_def)
next
  case (BufferDetached bid)
  have "copy_ok (c\<lparr>cl_buffers := bt_update bid (\<lambda>b. b\<lparr>br_attachment_node_id := None\<rparr>) (cl_buffers c)\<rparr>)"
    by (rule copy_ok_records [OF ok]) (use copy_okD(5) [OF ok] in \<open>auto split: if_splits\<close>)
  then show ?thesis by (simp add: BufferDetached)
qed (simp_all add: ok copy_ok_dirty copy_ok_remove_session)

lemma copy_ok_follow: "copy_ok c \<Longrightarrow> copy_ok (snd (set_view_follow_output n f c))"
  using copy_okD(2) [of c n]
  by (auto simp: set_view_follow_output_def Let_def view_known_def intro: copy_ok_view split: option.split)

lemma scrolled_to_parts [simp]:
  "cv_buffer_id (scrolled_to t v) = cv_buffer_id v" "cv_visible_line_count (scrolled_to t v) = cv_visible_line_count v"
  "cv_total_line_count (scrolled_to t v) = cv_total_line_count v"
  by (simp_all add: scrolled_to_def Let_def)

lemma copy_ok_scroll: "copy_ok c \<Longrightarrow> copy_ok (snd (set_view_scroll_top n t c))"
  using copy_okD(2) [of c n]
  by (auto simp: set_view_scroll_top_def view_known_def intro: copy_ok_view split: option.split)

lemma copy_ok_visible_lines: "copy_ok c \<Longrightarrow> copy_ok (snd (set_view_visible_lines n t ls c))"
  using copy_okD(2) [of c n]
  by (auto simp: set_view_visible_lines_def view_known_def intro: copy_ok_view split: option.split)

lemma copy_ok_drawn_rows:
  assumes "copy_ok c"
  shows "copy_ok (set_view_drawn_rows n k c)"
proof -
  have d: "copy_ok (c\<lparr>cl_drawn_rows := m\<rparr>)" for m
    using assms by (simp add: copy_ok_def filed_ok_def view_known_def view_fits_def)
  show ?thesis
    using copy_ok_view [OF d] d by (auto simp: set_view_drawn_rows_def Let_def split: option.split)
qed

section \<open>All updates\<close>

datatype client_update =
    ApplySnapshot session_snap
  | ApplyDetached "buffer_rec list"
  | ApplyBuffer buffer_rec
  | ApplyVisible visible_snapshot
  | ApplyEvent server_event
  | ForgetBuffer buffer_id
  | ForgetSession session_id
  | FollowOutput node_id bool
  | DrawnRows node_id nat
  | ScrollTop node_id nat
  | VisibleLines node_id nat "snapshot_line list"

primrec update :: "client_update \<Rightarrow> (client_state, mux_error, unit) proc" where
  "update (ApplySnapshot snap) = modify (apply_session_snapshot snap)"
| "update (ApplyDetached bs) = modify (apply_detached_buffers bs)"
| "update (ApplyBuffer b) = modify (apply_buffer_record b)"
| "update (ApplyVisible sn) = modify (apply_buffer_snapshot sn)"
| "update (ApplyEvent e) = modify (apply_event e)"
| "update (ForgetBuffer bid) = modify (client_remove_buffer bid)"
| "update (ForgetSession sid) = modify (client_remove_session sid)"
| "update (FollowOutput n f) = modify (\<lambda>c. snd (set_view_follow_output n f c))"
| "update (DrawnRows n k) = modify (set_view_drawn_rows n k)"
| "update (ScrollTop n t) = modify (\<lambda>c. snd (set_view_scroll_top n t c))"
| "update (VisibleLines n t ls) = modify (\<lambda>c. snd (set_view_visible_lines n t ls c))"

definition sendable :: "client_update \<Rightarrow> client_state \<Rightarrow> bool" where
  "sendable u c = (case u of ApplySnapshot snap \<Rightarrow> snap_ok snap | _ \<Rightarrow> True)"

lemmas copy_ok_updates = copy_ok_snapshot copy_ok_detached copy_ok_buffer_record copy_ok_visible_snapshot copy_ok_event
  copy_ok_remove_buffer copy_ok_remove_session copy_ok_follow copy_ok_drawn_rows copy_ok_scroll copy_ok_visible_lines

lemma copy_ok_default: "copy_ok client_state_default"
  by (simp add: copy_ok_def filed_ok_def view_known_def view_fits_def client_state_default_def)

interpretation copy: service client_state_default update sendable copy_ok
proof unfold_locales
  fix c u
  assume "copy_ok c" "sendable u c"
  then show "wp (update u) (\<lambda>_. copy_ok) (\<lambda>_. copy_ok) c"
    by (cases u) (simp_all add: copy_ok_updates sendable_def)
qed (rule copy_ok_default)

section \<open>Scrolling\<close>

lemma scroll_top_bounds:
  assumes "set_view_scroll_top n t c = (Some t', c')"
  shows "\<exists>v. bt_get (cl_view_state c') n = Some v \<and> cv_scroll_top_line v = t' \<and> t' \<le> t \<and>
    t' + cv_visible_line_count v \<le> max (cv_total_line_count v) (cv_visible_line_count v) \<and>
    (cv_follow_output v \<longleftrightarrow> cv_total_line_count v \<le> t' + cv_visible_line_count v)"
  using assms
  by (auto simp: set_view_scroll_top_def scrolled_to_def clamp_top_line_def bottom_top_line_def Let_def split: option.splits)

end
