(* ===== verification/Client_Sync.thy ===== *)
theory Client_Sync
  imports Client_Copy Server_Requests Client_Keys
begin

text \<open>
  Keeping the client's copy in step with the server (\<open>crates/embers-client/src/client.rs\<close>), and the requests of
  \<open>crates/embers-server/src/server.rs\<close> that it is built on: listing sessions and buffers and describing a
  session. What the client asks for is an argument of its methods, the answers; the locale \<open>transport\<close> says
  what they have to tell of the server's state, and is interpreted on the server's own answers.
\<close>

section \<open>What the server answers\<close>

definition buffers_response_budget :: nat where
  "buffers_response_budget = 7 * 1024 * 1024"

definition utf8_len :: "rstring \<Rightarrow> nat" where
  "utf8_len s = sum_list (map (\<lambda>c. length (encode_utf8 c)) s)"

definition estimated_buffer_record_size :: "buffer_rec \<Rightarrow> nat" where
  "estimated_buffer_record_size b =
     256 + (utf8_len (br_title b) + 16) + ((case br_cwd b of Some cwd \<Rightarrow> utf8_len cwd | None \<Rightarrow> 0) + 16) +
     sum_list (map (\<lambda>arg. utf8_len arg + 16) (br_command b)) +
     (case br_pipe b of Some p \<Rightarrow> sum_list (map (\<lambda>arg. utf8_len arg + 16) (bpr_command p)) | None \<Rightarrow> 0) +
     sum_list (map (\<lambda>(k, v). utf8_len k + utf8_len v + 32) (bt_entries (br_env b))) +
     sum_list (map (\<lambda>(k, v). utf8_len k + utf8_len v + 32) (bt_entries (br_user_options b)))"

text \<open>The records that fit the budget, and always the first.\<close>

fun within_budget :: "bool \<Rightarrow> nat \<Rightarrow> buffer_rec list \<Rightarrow> buffer_rec list" where
  "within_budget first budget [] = []"
| "within_budget first budget (b # bs) =
     (let size = estimated_buffer_record_size b
      in if \<not> first \<and> budget + size > buffers_response_budget then []
         else b # within_budget False (budget + size) bs)"

definition list_detached_buffers :: "server_state \<Rightarrow> buffer_rec list" where
  "list_detached_buffers s =
     within_budget True 0 (map buffer_record (filter (\<lambda>b. bu_attachment b = Detached) (bt_values (buffers s))))"

definition list_sessions :: "server_state \<Rightarrow> session_rec list" where
  "list_sessions s = map session_record (bt_values (sessions s))"

definition get_buffer :: "server_state \<Rightarrow> buffer_id \<Rightarrow> buffer_rec res" where
  "get_buffer s bid = rbind (state_buffer s bid) (\<lambda>b. Ok (buffer_record b))"

text \<open>
  The answers a client gets, each after \<open>expect_response\<close> and the match on the kind of response. Visible
  snapshots come from the buffer's runtime, and the client's own id from its connection.
\<close>

record answers =
  an_session :: "session_id \<Rightarrow> session_snap res"
  an_sessions :: "session_rec list res"
  an_detached :: "buffer_rec list res"
  an_buffer :: "buffer_id \<Rightarrow> buffer_rec res"
  an_visible :: "buffer_id \<Rightarrow> visible_snapshot res"
  an_client :: "nat res"

definition server_answers :: "(buffer_id \<Rightarrow> visible_snapshot res) \<Rightarrow> nat \<Rightarrow> server_state \<Rightarrow> answers" where
  "server_answers visible client s =
     \<lparr>an_session = session_snapshot s, an_sessions = Ok (list_sessions s), an_detached = Ok (list_detached_buffers s),
      an_buffer = get_buffer s, an_visible = visible, an_client = Ok client\<rparr>"

section \<open>The client\<close>

record mux_client =
  mc_client_id :: "nat option"
  mc_state :: client_state

definition mux_client_new :: mux_client where
  "mux_client_new = \<lparr>mc_client_id = None, mc_state = client_state_default\<rparr>"

type_synonym 'a client_op = "(mux_client, mux_error, 'a) proc"

definition on_copy :: "(client_state \<Rightarrow> client_state) \<Rightarrow> unit client_op" where
  "on_copy f = modify (\<lambda>m. m\<lparr>mc_state := f (mc_state m)\<rparr>)"

text \<open>A request whose answer \<open>not found\<close> is handled; other errors are the caller's.\<close>

definition ask :: "'a res \<Rightarrow> ('a \<Rightarrow> unit client_op) \<Rightarrow> unit client_op \<Rightarrow> unit client_op" where
  "ask answer found missing =
     (\<lambda>m. case answer of
            Ok x \<Rightarrow> found x m
          | Err e \<Rightarrow> if is_not_found e then missing m else (Err e, m)
          | Panic \<Rightarrow> (Panic, m)
          | Diverge \<Rightarrow> (Diverge, m))"

definition resync_session :: "answers \<Rightarrow> session_id \<Rightarrow> unit client_op" where
  "resync_session an sid =
     ask (an_session an sid) (\<lambda>snap. on_copy (apply_session_snapshot snap)) (on_copy (client_remove_session sid))"

definition sessions_showing :: "client_state \<Rightarrow> buffer_id \<Rightarrow> session_id btree_set" where
  "sessions_showing c bid =
     set_of_list (map nr_session_id (filter (\<lambda>nr.
       case nr_buffer_view nr of Some bv \<Rightarrow> vr_buffer_id bv = bid | None \<Rightarrow> False) (bt_values (cl_nodes c))))"

definition forget_buffer :: "answers \<Rightarrow> buffer_id \<Rightarrow> unit client_op" where
  "forget_buffer an bid =
     pbind (gets (\<lambda>m. bt_keys (sessions_showing (mc_state m) bid))) (\<lambda>sids.
     pbind (for_each sids (resync_session an)) (\<lambda>_.
     on_copy (client_remove_buffer bid)))"

definition refresh_buffer_snapshot :: "answers \<Rightarrow> buffer_id \<Rightarrow> unit client_op" where
  "refresh_buffer_snapshot an bid =
     ask (an_visible an bid) (\<lambda>sn. on_copy (apply_buffer_snapshot sn)) (forget_buffer an bid)"

definition refresh_buffer_record :: "answers \<Rightarrow> buffer_id \<Rightarrow> unit client_op" where
  "refresh_buffer_record an bid =
     ask (an_buffer an bid) (\<lambda>b. on_copy (apply_buffer_record b)) (forget_buffer an bid)"

definition resync_dirty_sessions :: "answers \<Rightarrow> unit client_op" where
  "resync_dirty_sessions an =
     pbind (gets (\<lambda>m. bt_keys (cl_dirty_sessions (mc_state m)))) (\<lambda>sids. for_each sids (resync_session an))"

definition resync_detached_buffers :: "answers \<Rightarrow> unit client_op" where
  "resync_detached_buffers an =
     pbind (reads (\<lambda>_. an_detached an)) (\<lambda>bs. on_copy (apply_detached_buffers bs))"

definition resync_all_sessions :: "answers \<Rightarrow> unit client_op" where
  "resync_all_sessions an =
     pbind (reads (\<lambda>_. an_sessions an)) (\<lambda>live.
     pbind (gets (\<lambda>m. bt_keys (cl_sessions (mc_state m)))) (\<lambda>known.
     pbind (for_each known (\<lambda>sid. if sid \<in> set (map sr_id live) then ret () else on_copy (client_remove_session sid))) (\<lambda>_.
     pbind (for_each live (\<lambda>sr.
              pbind (on_copy (\<lambda>c. c\<lparr>cl_dirty_sessions := bt_insert (sr_id sr) () (cl_dirty_sessions c)\<rparr>)) (\<lambda>_.
              resync_session an (sr_id sr)))) (\<lambda>_.
     resync_detached_buffers an))))"

definition own_client_id :: "answers \<Rightarrow> nat client_op" where
  "own_client_id an =
     (\<lambda>m. case mc_client_id m of
            Some i \<Rightarrow> (Ok i, m)
          | None \<Rightarrow> pbind (reads (\<lambda>_. an_client an)) (\<lambda>i. pbind (modify (\<lambda>m. m\<lparr>mc_client_id := Some i\<rparr>)) (\<lambda>_. ret i)) m)"

fun resync_for_event :: "answers \<Rightarrow> server_event \<Rightarrow> unit client_op" where
  "resync_for_event an (SessionCreated sr) = resync_session an (sr_id sr)"
| "resync_for_event an (NodeChanged sid) = pbind (resync_session an sid) (\<lambda>_. resync_detached_buffers an)"
| "resync_for_event an (FloatingChanged sid _) = pbind (resync_session an sid) (\<lambda>_. resync_detached_buffers an)"
| "resync_for_event an (SessionClosed _) = resync_detached_buffers an"
| "resync_for_event an (SessionRenamed sid name) =
     pbind (on_copy (apply_event (SessionRenamed sid name))) (\<lambda>_. resync_session an sid)"
| "resync_for_event an (ClientChanged cr _) =
     pbind (own_client_id an) (\<lambda>i.
     if cr_id cr \<noteq> i then ret ()
     else (case cr_current_session_id cr of Some sid \<Rightarrow> resync_session an sid | None \<Rightarrow> ret ()))"
| "resync_for_event an (RenderInvalidated bid) = refresh_buffer_record an bid"
| "resync_for_event an (BufferPipeChanged _ _) = ret ()"
| "resync_for_event an (ClipboardWritten _ _ _) = ret ()"
| "resync_for_event an (DisplayMessage _ _) = ret ()"
| "resync_for_event an (Passthrough _ _) = ret ()"
| "resync_for_event an ServerShutdown = ret ()"
| "resync_for_event an (BufferCreated _) = ret ()"
| "resync_for_event an (BufferDetached _) = ret ()"
| "resync_for_event an (FocusChanged _ _ _) = ret ()"

definition handle_event :: "answers \<Rightarrow> server_event \<Rightarrow> unit client_op" where
  "handle_event an e = pbind (on_copy (apply_event e)) (\<lambda>_. resync_for_event an e)"

section \<open>A loop that has done part of its work\<close>

lemma wp_for_each_done:
  assumes "I [] s" and "\<And>ys x t. I ys t \<Longrightarrow> wp (f x) (\<lambda>_. I (ys @ [x])) E t"
  shows "wp (for_each xs f) (\<lambda>_. I xs) E s"
proof -
  have "wp (for_each xs f) (\<lambda>_. I (ys @ xs)) E t" if "I ys t" for ys t
    using that
  proof (induction xs arbitrary: ys t)
    case (Cons x xs)
    have "wp (f x) (\<lambda>_. wp (for_each xs f) (\<lambda>_. I ((ys @ [x]) @ xs)) E) E t"
      by (rule wp_mono [OF assms(2) [OF Cons.prems]]) (rule Cons.IH)
    then show ?case by (simp add: wp_pbind)
  qed simp
  from this [of "[]"] assms(1) show ?thesis by simp
qed

section \<open>A copy that mirrors the server\<close>

text \<open>
  The copy agrees with the server on a session: it has the session's record, exactly its nodes and floating
  windows with the records of the moment, and the records of the buffers it shows; of a session the server
  does not have it has nothing.
\<close>

definition mirrors :: "server_state \<Rightarrow> session_id \<Rightarrow> client_state \<Rightarrow> bool" where
  "mirrors s sid c \<longleftrightarrow>
     (case bt_get (sessions s) sid of
        Some se \<Rightarrow>
          bt_get (cl_sessions c) sid = Some (session_record se) \<and>
          (\<forall>n r. bt_get (cl_nodes c) n = Some r \<and> nr_session_id r = sid \<longleftrightarrow> n \<in> session_trees s se \<and> node_told s n = Ok r) \<and>
          (\<forall>f r. bt_get (cl_floating c) f = Some r \<and> fr_session_id r = sid \<longleftrightarrow>
             f \<in> set (se_floating se) \<and> (\<exists>w. bt_get (floating s) f = Some w \<and> r = floating_record w)) \<and>
          (\<forall>bid \<in> session_views s se. \<exists>b. bt_get (buffers s) bid = Some b \<and> bt_get (cl_buffers c) bid = Some (buffer_record b)) \<and>
          bt_get (cl_dirty_sessions c) sid = None
      | None \<Rightarrow>
          bt_get (cl_sessions c) sid = None \<and>
          (\<forall>n r. bt_get (cl_nodes c) n = Some r \<longrightarrow> nr_session_id r \<noteq> sid) \<and>
          (\<forall>f r. bt_get (cl_floating c) f = Some r \<longrightarrow> fr_session_id r \<noteq> sid))"

text \<open>The states the server can describe.\<close>

definition tellable :: "server_state \<Rightarrow> bool" where
  "tellable s \<longleftrightarrow> good s \<and> tabs_fit s \<and> (\<forall>bid b. bt_get (buffers s) bid = Some b \<longrightarrow> bu_id b = bid)"

text \<open>A snapshot that describes a session as it is.\<close>

definition describes :: "server_state \<Rightarrow> session \<Rightarrow> session_snap \<Rightarrow> bool" where
  "describes s se snap \<longleftrightarrow>
     ss_session snap = session_record se \<and>
     (\<forall>r. r \<in> set (ss_nodes snap) \<longleftrightarrow> (\<exists>n \<in> session_trees s se. node_told s n = Ok r)) \<and>
     (\<forall>r. r \<in> set (ss_buffers snap) \<longleftrightarrow> (\<exists>bid \<in> session_views s se. \<exists>b. bt_get (buffers s) bid = Some b \<and> r = buffer_record b)) \<and>
     (\<forall>r. r \<in> set (ss_floating snap) \<longleftrightarrow> (\<exists>fid \<in> set (se_floating se). \<exists>w. bt_get (floating s) fid = Some w \<and> r = floating_record w))"

lemma session_record_id [simp]: "sr_id (session_record se) = se_id se"
  by (simp add: session_record_def)

lemma floating_record_parts [simp]: "fr_id (floating_record w) = fw_id w" "fr_session_id (floating_record w) = fw_session_id w"
  by (simp_all add: floating_record_def)

lemma buffer_record_parts [simp]:
  "br_id (buffer_record b) = bu_id b"
  "br_attachment_node_id (buffer_record b) = (case bu_attachment b of Attached n \<Rightarrow> Some n | Detached \<Rightarrow> None)"
  by (simp_all add: buffer_record_def split: buffer_state.split buffer_kind.split)

lemma tellableD:
  assumes "tellable s"
  shows "good s" "structure_ok s" "tabs_fit s" "bt_get (buffers s) bid = Some b \<Longrightarrow> bu_id b = bid"
    "bt_get (sessions s) sid = Some se \<Longrightarrow> se_id se = sid"
  using assms goodD(2) [of s] goodD(6) [of s] sessions_okD(1) [of s sid se] by (auto simp: tellable_def)

lemma told_node:
  assumes "tellable s" and "bt_get (sessions s) sid = Some se" and "n \<in> session_trees s se"
  shows "\<exists>r. node_told s n = Ok r" "node_told s n = Ok r \<Longrightarrow> nr_id r = n \<and> nr_session_id r = sid"
proof -
  obtain nd where nd: "bt_get (nodes s) n = Some nd" "node_id_of nd = n" "node_session nd = sid"
    using session_trees_node [OF tellableD(2) [OF assms(1)] assms(2,3)] by blast
  from node_told_Ok [OF tellableD(1,3) [OF assms(1)] nd(1)] nd(2,3)
  show "\<exists>r. node_told s n = Ok r" "node_told s n = Ok r \<Longrightarrow> nr_id r = n \<and> nr_session_id r = sid" by auto
qed

lemma shown_buffer:
  assumes "tellable s" and "bid \<in> session_views s se"
  obtains b n where "bt_get (buffers s) bid = Some b" "bu_attachment b = Attached n" "n \<in> session_trees s se"
  using assms(2) goodD(11) [OF tellableD(1) [OF assms(1)]] unfolding session_views_def shown_buffers_ok_def by blast

lemma session_floating:
  assumes "tellable s" and "bt_get (sessions s) sid = Some se" and "fid \<in> set (se_floating se)"
  obtains w where "bt_get (floating s) fid = Some w" "fw_id w = fid" "fw_session_id w = sid"
  using session_floating_root [OF tellableD(2) [OF assms(1)] assms(2,3)] by blast

lemma describes_ok:
  assumes tell: "tellable s" and se: "bt_get (sessions s) sid = Some se" and d: "describes s se snap"
  shows "snap_ok snap" "sr_id (ss_session snap) = sid"
    "n \<in> nr_id ` set (ss_nodes snap) \<longleftrightarrow> n \<in> session_trees s se"
    "bid \<in> br_id ` set (ss_buffers snap) \<longleftrightarrow> bid \<in> session_views s se"
    "f \<in> fr_id ` set (ss_floating snap) \<longleftrightarrow> f \<in> set (se_floating se)"
proof -
  show sid: "sr_id (ss_session snap) = sid" using d tellableD(5) [OF tell se] by (simp add: describes_def)
  have nodes: "r \<in> set (ss_nodes snap) \<longleftrightarrow> nr_id r \<in> session_trees s se \<and> node_told s (nr_id r) = Ok r" for r
    using d told_node(2) [OF tell se] unfolding describes_def by metis
  have bufs: "r \<in> set (ss_buffers snap) \<Longrightarrow> \<exists>b. br_id r \<in> session_views s se \<and> bt_get (buffers s) (br_id r) = Some b \<and> r = buffer_record b" for r
    using d tellableD(4) [OF tell] unfolding describes_def by fastforce
  have floats: "r \<in> set (ss_floating snap) \<Longrightarrow>
      \<exists>w. fr_id r \<in> set (se_floating se) \<and> fr_session_id r = sid \<and> bt_get (floating s) (fr_id r) = Some w \<and> r = floating_record w" for r
    using d session_floating [OF tell se] unfolding describes_def by (metis floating_record_parts option.inject)
  show "n \<in> nr_id ` set (ss_nodes snap) \<longleftrightarrow> n \<in> session_trees s se"
    using nodes told_node [OF tell se, of n] by (metis imageE image_eqI)
  show "bid \<in> br_id ` set (ss_buffers snap) \<longleftrightarrow> bid \<in> session_views s se"
    using bufs d shown_buffer [OF tell, of bid se] tellableD(4) [OF tell] unfolding describes_def
    by (metis (no_types, lifting) buffer_record_parts(1) imageE image_eqI)
  show "f \<in> fr_id ` set (ss_floating snap) \<longleftrightarrow> f \<in> set (se_floating se)"
    using floats d session_floating [OF tell se, of f] unfolding describes_def
    by (metis (no_types, lifting) floating_record_parts(1) imageE image_eqI)
  have "nr_session_id r = sid" if "r \<in> set (ss_nodes snap)" for r
    using nodes [of r] that told_node(2) [OF tell se] by blast
  moreover have "unique_keys nr_id (ss_nodes snap)" using nodes unfolding unique_keys_def by (metis outcome.inject(1))
  moreover have "unique_keys br_id (ss_buffers snap)" using bufs unfolding unique_keys_def by (metis option.inject)
  moreover have "unique_keys fr_id (ss_floating snap)" using floats unfolding unique_keys_def by (metis option.inject)
  ultimately show "snap_ok snap" using floats by (auto simp: snap_ok_def list_all_iff sid)
qed

lemma describes_nodes:
  assumes "tellable s" and "bt_get (sessions s) sid = Some se" and "describes s se snap"
  shows "r \<in> set (ss_nodes snap) \<and> nr_id r = n \<longleftrightarrow> n \<in> session_trees s se \<and> node_told s n = Ok r"
  using assms(3) told_node(2) [OF assms(1,2)] unfolding describes_def by metis

lemma describes_floating:
  assumes "tellable s" and "bt_get (sessions s) sid = Some se" and "describes s se snap"
  shows "r \<in> set (ss_floating snap) \<and> fr_id r = f \<longleftrightarrow>
    f \<in> set (se_floating se) \<and> (\<exists>w. bt_get (floating s) f = Some w \<and> r = floating_record w)"
proof -
  have "fw_id w = fid" if "fid \<in> set (se_floating se)" "bt_get (floating s) fid = Some w" for fid w
    using session_floating [OF assms(1,2) that(1)] that(2) by (metis option.inject)
  moreover have d: "r \<in> set (ss_floating snap) \<longleftrightarrow> (\<exists>fid \<in> set (se_floating se). \<exists>w. bt_get (floating s) fid = Some w \<and> r = floating_record w)"
    using assms(3) unfolding describes_def by blast
  ultimately show ?thesis unfolding d by fastforce
qed

section \<open>Applying what the server tells\<close>

lemma mirrors_snapshot:
  assumes tell: "tellable s" and se: "bt_get (sessions s) sid = Some se" and d: "describes s se snap"
  shows "mirrors s sid (apply_session_snapshot snap c)"
proof -
  note d' = describes_ok [OF tell se d]
  have u: "unique_keys nr_id (ss_nodes snap)" "unique_keys fr_id (ss_floating snap)" "unique_keys br_id (ss_buffers snap)"
    using d'(1) by (simp_all add: snap_ok_def)
  have s: "r \<in> set (ss_nodes snap) \<Longrightarrow> nr_session_id r = sid" "w \<in> set (ss_floating snap) \<Longrightarrow> fr_session_id w = sid" for r w
    using d'(1,2) by (auto simp: snap_ok_def list_all_iff)
  have "bt_get (cl_nodes (apply_session_snapshot snap c)) n = Some r \<and> nr_session_id r = sid \<longleftrightarrow>
      n \<in> session_trees s se \<and> node_told s n = Ok r" for n r
    unfolding snapshot_nodes [OF u(1)] d'(2) describes_nodes [OF tell se d, symmetric] using s(1) by blast
  moreover have "bt_get (cl_floating (apply_session_snapshot snap c)) f = Some r \<and> fr_session_id r = sid \<longleftrightarrow>
      f \<in> set (se_floating se) \<and> (\<exists>w. bt_get (floating s) f = Some w \<and> r = floating_record w)" for f r
    unfolding snapshot_floating [OF u(2)] d'(2) describes_floating [OF tell se d, symmetric] using s(2) by blast
  moreover have "\<exists>b. bt_get (buffers s) bid = Some b \<and> bt_get (cl_buffers (apply_session_snapshot snap c)) bid = Some (buffer_record b)"
    if bid: "bid \<in> session_views s se" for bid
  proof -
    obtain b where b: "bt_get (buffers s) bid = Some b" using shown_buffer [OF tell bid] by blast
    then have "buffer_record b \<in> set (ss_buffers snap)" using d bid unfolding describes_def by blast
    from snapshot_buffers_sent [OF u(3) this, of c] b tellableD(4) [OF tell b] show ?thesis by simp
  qed
  ultimately show ?thesis
    using se d d'(2) by (simp add: mirrors_def snapshot_parts(1,4) describes_def)
qed

text \<open>A node of a mirrored session is known to be one of it.\<close>

lemma mirrored_node:
  assumes "tellable s" and "mirrors s sid c" and "bt_get (sessions s) sid = Some se" and "n \<in> session_trees s se"
  shows "\<exists>r. bt_get (cl_nodes c) n = Some r \<and> nr_session_id r = sid"
  using assms(2,3) told_node(1) [OF assms(1,3,4)] assms(4) unfolding mirrors_def by auto

lemma mirrors_snapshot_other:
  assumes tell: "tellable s" and ok: "copy_ok c" and se: "bt_get (sessions s) sid = Some se" and d: "describes s se snap"
    and m: "mirrors s sid' c" and ne: "sid' \<noteq> sid"
  shows "mirrors s sid' (apply_session_snapshot snap c)"
proof (cases "bt_get (sessions s) sid'")
  case None
  note d' = describes_ok [OF tell se d]
  have u: "unique_keys nr_id (ss_nodes snap)" "unique_keys fr_id (ss_floating snap)"
    "\<And>r. r \<in> set (ss_nodes snap) \<Longrightarrow> nr_session_id r = sid" "\<And>r. r \<in> set (ss_floating snap) \<Longrightarrow> fr_session_id r = sid"
    using d'(1,2) by (auto simp: snap_ok_def list_all_iff)
  show ?thesis
    using None m ne u(3,4) d'(2)
    by (auto simp: mirrors_def snapshot_nodes [OF u(1)] snapshot_floating [OF u(2)] snapshot_parts(1))
next
  case (Some se')
  note d' = describes_ok [OF tell se d]
  have u: "unique_keys nr_id (ss_nodes snap)" "unique_keys fr_id (ss_floating snap)"
    "\<And>r. r \<in> set (ss_nodes snap) \<Longrightarrow> nr_session_id r = sid" "\<And>r. r \<in> set (ss_floating snap) \<Longrightarrow> fr_session_id r = sid"
    using d'(1,2) by (auto simp: snap_ok_def list_all_iff)
  have disj: "n \<in> session_trees s se' \<Longrightarrow> n \<notin> session_trees s se" for n
    using session_trees_disjoint [OF tellableD(2) [OF tell] Some se ne] by blast
  have fdisj: "f \<in> set (se_floating se') \<Longrightarrow> f \<notin> set (se_floating se)" for f
    using session_floating [OF tell se] session_floating [OF tell Some] ne by (metis option.inject)
  have mn: "n \<in> session_trees s se'" if "bt_get (cl_nodes c) n = Some r \<and> nr_session_id r = sid'" for n r
    using m Some that by (simp add: mirrors_def)
  have mf: "f \<in> set (se_floating se')" if "bt_get (cl_floating c) f = Some r \<and> fr_session_id r = sid'" for f r
    using m Some that by (simp add: mirrors_def)
  have N: "bt_get (cl_nodes (apply_session_snapshot snap c)) n = Some r \<and> nr_session_id r = sid' \<longleftrightarrow>
      bt_get (cl_nodes c) n = Some r \<and> nr_session_id r = sid'" for n r
    unfolding snapshot_nodes [OF u(1)] d'(2,3) using u(3) ne disj [OF mn] by blast
  have F: "bt_get (cl_floating (apply_session_snapshot snap c)) f = Some r \<and> fr_session_id r = sid' \<longleftrightarrow>
      bt_get (cl_floating c) f = Some r \<and> fr_session_id r = sid'" for f r
    unfolding snapshot_floating [OF u(2)] d'(2,5) using u(4) ne fdisj [OF mf] by blast
  have B: "bt_get (cl_buffers (apply_session_snapshot snap c)) bid = bt_get (cl_buffers c) bid" if bid: "bid \<in> session_views s se'" for bid
  proof -
    obtain b n where b: "bt_get (buffers s) bid = Some b" "bu_attachment b = Attached n" "n \<in> session_trees s se'"
      using shown_buffer [OF tell bid] by blast
    have "bid \<notin> session_views s se" using shown_buffer [OF tell, of bid se] b disj by (metis buffer_attachment.inject option.inject)
    moreover have "bt_get (cl_buffers c) bid = Some (buffer_record b)" using m Some bid b(1) unfolding mirrors_def by auto
    moreover have "bt_get (client_session_node_ids c sid) n = None"
      using mirrored_node [OF tell m Some b(3)] ne previous_nodes_iff [OF ok, of sid n]
      by (cases "bt_get (client_session_node_ids c sid) n") auto
    ultimately show ?thesis
      using snapshot_buffers_kept [of bid snap c "buffer_record b"] b(2) d'(2,4) copy_okD(5) [OF ok] by auto
  qed
  show ?thesis using m Some ne d'(2) N F B unfolding mirrors_def by (simp add: snapshot_parts(1,4))
qed

lemma mirrors_removed:
  assumes "copy_ok c" and "bt_get (sessions s) sid = None"
  shows "mirrors s sid (client_remove_session sid c)"
  using assms(2)
  by (auto simp: mirrors_def client_remove_session_def detach_buffers_for_nodes_def Let_def split: option.splits if_splits)

lemma mirrors_removed_other:
  assumes tell: "tellable s" and ok: "copy_ok c" and m: "mirrors s sid' c" and ne: "sid' \<noteq> sid"
  shows "mirrors s sid' (client_remove_session sid c)"
proof (cases "bt_get (sessions s) sid'")
  case None
  then show ?thesis
    using m ne by (auto simp: mirrors_def client_remove_session_def detach_buffers_for_nodes_def Let_def split: option.splits if_splits)
next
  case (Some se')
  have B: "map_option (detach_record (client_session_node_ids c sid)) (bt_get (cl_buffers c) bid) = bt_get (cl_buffers c) bid"
    if bid: "bid \<in> session_views s se'" for bid
  proof -
    obtain b n where b: "bt_get (buffers s) bid = Some b" "bu_attachment b = Attached n" "n \<in> session_trees s se'"
      using shown_buffer [OF tell bid] by blast
    have "bt_get (cl_buffers c) bid = Some (buffer_record b)" using m Some bid b(1) unfolding mirrors_def by auto
    moreover have "bt_get (client_session_node_ids c sid) n \<noteq> Some ()"
      using mirrored_node [OF tell m Some b(3)] ne unfolding previous_nodes_iff [OF ok] by auto
    ultimately show ?thesis using b(2) by (simp add: detach_record_def)
  qed
  have N: "bt_get (cl_nodes (client_remove_session sid c)) n = Some r \<and> nr_session_id r = sid' \<longleftrightarrow>
      bt_get (cl_nodes c) n = Some r \<and> nr_session_id r = sid'" for n r
    using ne by (auto simp: client_remove_session_def detach_buffers_for_nodes_def Let_def split: option.splits)
  have F: "bt_get (cl_floating (client_remove_session sid c)) f = Some r \<and> fr_session_id r = sid' \<longleftrightarrow>
      bt_get (cl_floating c) f = Some r \<and> fr_session_id r = sid'" for f r
    using ne by (auto simp: client_remove_session_def detach_buffers_for_nodes_def Let_def split: option.splits)
  show ?thesis
    using m Some ne N F B unfolding mirrors_def
    by (simp add: client_remove_session_def detach_buffers_for_nodes_def Let_def)
qed

lemma mirrors_detached:
  assumes tell: "tellable s" and ok: "copy_ok c" and m: "mirrors s sid c"
    and det: "\<And>r. r \<in> set bs \<Longrightarrow> \<exists>b. bt_get (buffers s) (br_id r) = Some b \<and> bu_attachment b = Detached"
  shows "mirrors s sid (apply_detached_buffers bs c)"
proof -
  have removed: "cl_sessions (fold client_remove_buffer xs c) = cl_sessions c \<and> cl_nodes (fold client_remove_buffer xs c) = cl_nodes c \<and>
      cl_floating (fold client_remove_buffer xs c) = cl_floating c \<and> cl_dirty_sessions (fold client_remove_buffer xs c) = cl_dirty_sessions c \<and>
      (bid \<notin> set xs \<longrightarrow> bt_get (cl_buffers (fold client_remove_buffer xs c)) bid = bt_get (cl_buffers c) bid)" for xs bid
    by (induction xs arbitrary: c) (simp_all add: client_remove_buffer_def)
  have parts: "cl_sessions (apply_detached_buffers bs c) = cl_sessions c" "cl_nodes (apply_detached_buffers bs c) = cl_nodes c"
    "cl_floating (apply_detached_buffers bs c) = cl_floating c" "cl_dirty_sessions (apply_detached_buffers bs c) = cl_dirty_sessions c"
    using removed by (simp_all add: apply_detached_buffers_def Let_def)
  have B: "bt_get (cl_buffers (apply_detached_buffers bs c)) bid = bt_get (cl_buffers c) bid"
    if se: "bt_get (sessions s) sid = Some se" and bid: "bid \<in> session_views s se" for bid se
  proof -
    obtain b n where b: "bt_get (buffers s) bid = Some b" "bu_attachment b = Attached n" using shown_buffer [OF tell bid] by blast
    have "bt_get (cl_buffers c) bid = Some (buffer_record b)" using m se bid b(1) unfolding mirrors_def by auto
    then have "bid \<notin> br_id ` {r. r \<in> set (bt_values (cl_buffers c)) \<and> br_attachment_node_id r = None}"
      using b(2) copy_okD(5) [OF ok] by (force simp: bt_values_iff)
    moreover have "bid \<notin> br_id ` set bs" using det b by fastforce
    ultimately show ?thesis
      using removed by (simp add: apply_detached_buffers_def Let_def insert_all_absent)
  qed
  show ?thesis using m B by (auto simp: mirrors_def parts split: option.splits)
qed

section \<open>What the client relies on\<close>

text \<open>
  The contract of the transport: in a state the server can describe, asking for a session gives a snapshot
  that describes it, or the error that it does not exist; the list of sessions is complete, and what is
  listed as detached is detached.
\<close>

locale transport =
  fixes answers_of :: "server_state \<Rightarrow> answers"
  assumes told: "tellable s \<Longrightarrow> bt_get (sessions s) sid = Some se \<Longrightarrow>
      \<exists>snap. an_session (answers_of s) sid = Ok snap \<and> describes s se snap"
    and gone: "bt_get (sessions s) sid = None \<Longrightarrow> \<exists>e. an_session (answers_of s) sid = Err e \<and> is_not_found e"
    and listed: "tellable s \<Longrightarrow> \<exists>rs. an_sessions (answers_of s) = Ok rs \<and> sr_id ` set rs = dom (bt_get (sessions s))"
    and detached: "tellable s \<Longrightarrow> \<exists>bs. an_detached (answers_of s) = Ok bs \<and>
      (\<forall>r \<in> set bs. \<exists>b. bt_get (buffers s) (br_id r) = Some b \<and> bu_attachment b = Detached)"
begin

lemma resync_session_mirrors:
  assumes tell: "tellable s" and ok: "copy_ok (mc_state m)"
  shows "wp (resync_session (answers_of s) sid)
    (\<lambda>_ m'. copy_ok (mc_state m') \<and> mirrors s sid (mc_state m') \<and>
       (\<forall>sid'. sid' \<noteq> sid \<longrightarrow> mirrors s sid' (mc_state m) \<longrightarrow> mirrors s sid' (mc_state m')))
    (\<lambda>_ _. False) m"
proof (cases "bt_get (sessions s) sid")
  case None
  obtain e where "an_session (answers_of s) sid = Err e" "is_not_found e" using gone [OF None] by blast
  then show ?thesis
    using copy_ok_remove_session [OF ok] mirrors_removed [OF ok None] mirrors_removed_other [OF tell ok]
    by (simp add: wp_def resync_session_def ask_def on_copy_def modify_def)
next
  case (Some se)
  obtain snap where "an_session (answers_of s) sid = Ok snap" and d: "describes s se snap" using told [OF tell Some] by blast
  then show ?thesis
    using copy_ok_snapshot [OF ok describes_ok(1) [OF tell Some d]] mirrors_snapshot [OF tell Some d]
      mirrors_snapshot_other [OF tell ok Some d]
    by (simp add: wp_def resync_session_def ask_def on_copy_def modify_def)
qed

lemma resync_detached_mirrors:
  assumes tell: "tellable s" and ok: "copy_ok (mc_state m)"
  shows "wp (resync_detached_buffers (answers_of s))
    (\<lambda>_ m'. copy_ok (mc_state m') \<and> (\<forall>sid. mirrors s sid (mc_state m) \<longrightarrow> mirrors s sid (mc_state m'))) (\<lambda>_ _. False) m"
proof -
  obtain bs where bs: "an_detached (answers_of s) = Ok bs"
    "\<And>r. r \<in> set bs \<Longrightarrow> \<exists>b. bt_get (buffers s) (br_id r) = Some b \<and> bu_attachment b = Detached"
    using detached [OF tell] by blast
  then show ?thesis
    using copy_ok_detached [OF ok] mirrors_detached [OF tell ok _ bs(2)]
    by (simp add: resync_detached_buffers_def wp_pbind wp_reads on_copy_def)
qed

text \<open>Sessions that are gone are dropped, and then nothing of them is left.\<close>

lemma drop_gone_sessions:
  assumes tell: "tellable s" and ok: "copy_ok (mc_state m)" and live: "live = dom (bt_get (sessions s))"
  shows "wp (for_each (bt_keys (cl_sessions (mc_state m)))
      (\<lambda>sid. if sid \<in> live then ret () else on_copy (client_remove_session sid)))
    (\<lambda>_ m'. copy_ok (mc_state m') \<and> (\<forall>sid. sid \<notin> live \<longrightarrow> mirrors s sid (mc_state m'))) (\<lambda>_ _. False) m"
proof -
  let ?I = "\<lambda>done (m' :: mux_client). copy_ok (mc_state m') \<and>
      (\<forall>sid. sid \<notin> live \<longrightarrow> sid \<in> set done \<or> bt_get (cl_sessions (mc_state m)) sid = None \<longrightarrow> mirrors s sid (mc_state m'))"
  have "mirrors s sid (mc_state m)" if "sid \<notin> live" "bt_get (cl_sessions (mc_state m)) sid = None" for sid
  proof -
    have "bt_get (sessions s) sid = None" using that(1) by (auto simp: live)
    then show ?thesis using that(2) by (auto simp: mirrors_def dest!: copy_okD(8,9) [OF ok])
  qed
  then have "?I [] m" using ok by simp
  then have "wp (for_each (bt_keys (cl_sessions (mc_state m)))
      (\<lambda>sid. if sid \<in> live then ret () else on_copy (client_remove_session sid)))
      (\<lambda>_. ?I (bt_keys (cl_sessions (mc_state m)))) (\<lambda>_ _. False) m"
  proof (rule wp_for_each_done [where I = ?I])
    fix ys x m'
    assume I: "?I ys m'"
    show "wp (if x \<in> live then ret () else on_copy (client_remove_session x)) (\<lambda>_. ?I (ys @ [x])) (\<lambda>_ _. False) m'"
    proof (cases "x \<in> live")
      case False
      have "mirrors s sid (client_remove_session x (mc_state m'))"
        if "sid \<notin> live" "sid \<in> set (ys @ [x]) \<or> bt_get (cl_sessions (mc_state m)) sid = None" for sid
        using mirrors_removed [of "mc_state m'" s sid] mirrors_removed_other [OF tell, of "mc_state m'" sid x] I that
        unfolding live by (cases "sid = x") auto
      then show ?thesis using False I copy_ok_remove_session by (simp add: on_copy_def)
    qed (use I in auto)
  qed
  then show ?thesis by (rule wp_mono) auto
qed

lemma resync_all_mirrors:
  assumes tell: "tellable s" and ok: "copy_ok (mc_state m)"
  shows "wp (resync_all_sessions (answers_of s)) (\<lambda>_ m'. copy_ok (mc_state m') \<and> (\<forall>sid. mirrors s sid (mc_state m'))) (\<lambda>_ _. False) m"
proof -
  obtain rs where rs: "an_sessions (answers_of s) = Ok rs" "sr_id ` set rs = dom (bt_get (sessions s))"
    using listed [OF tell] by blast
  let ?live = "set (map sr_id rs)"
  let ?I = "\<lambda>(done :: session_rec list) (m' :: mux_client). copy_ok (mc_state m') \<and> (\<forall>sid. sid \<notin> ?live \<or> sid \<in> sr_id ` set done \<longrightarrow> mirrors s sid (mc_state m'))"
  let ?mark = "\<lambda>sid. on_copy (\<lambda>c. c\<lparr>cl_dirty_sessions := bt_insert sid () (cl_dirty_sessions c)\<rparr>)"
  have loop: "wp (for_each rs (\<lambda>sr. pbind (?mark (sr_id sr)) (\<lambda>_. resync_session (answers_of s) (sr_id sr))))
      (\<lambda>_. ?I rs) (\<lambda>_ _. False) m'" if "?I [] m'" for m'
    using that
  proof (rule wp_for_each_done [where I = ?I])
    fix ys m' and x :: session_rec
    assume I: "?I ys m'"
    let ?c = "(mc_state m')\<lparr>cl_dirty_sessions := bt_insert (sr_id x) () (cl_dirty_sessions (mc_state m'))\<rparr>"
    have ok': "copy_ok ?c" using I by (simp add: copy_ok_dirty)
    have keep: "mirrors s sid ?c" if "mirrors s sid (mc_state m')" "sid \<noteq> sr_id x" for sid
      using that by (cases "bt_get (sessions s) sid") (simp_all add: mirrors_def)
    have "wp (resync_session (answers_of s) (sr_id x)) (\<lambda>_. ?I (ys @ [x])) (\<lambda>_ _. False) (m'\<lparr>mc_state := ?c\<rparr>)"
    proof (rule wp_mono [OF resync_session_mirrors [OF tell]])
      fix u :: unit and t :: mux_client
      assume t: "copy_ok (mc_state t) \<and> mirrors s (sr_id x) (mc_state t) \<and>
        (\<forall>sid'. sid' \<noteq> sr_id x \<longrightarrow> mirrors s sid' (mc_state (m'\<lparr>mc_state := ?c\<rparr>)) \<longrightarrow> mirrors s sid' (mc_state t))"
      have "mirrors s sid (mc_state t)" if "sid \<notin> ?live \<or> sid \<in> sr_id ` set (ys @ [x])" for sid
        using t keep [of sid] I that by (cases "sid = sr_id x") auto
      then show "?I (ys @ [x]) t" using t by simp
    qed (use ok' in auto)
    then show "wp (pbind (?mark (sr_id x)) (\<lambda>_. resync_session (answers_of s) (sr_id x))) (\<lambda>_. ?I (ys @ [x])) (\<lambda>_ _. False) m'"
      by (simp add: wp_pbind on_copy_def)
  qed
  have "wp (resync_detached_buffers (answers_of s)) (\<lambda>_ m'. copy_ok (mc_state m') \<and> (\<forall>sid. mirrors s sid (mc_state m'))) (\<lambda>_ _. False) m'"
    if "?I rs m'" for m'
    by (rule wp_mono [OF resync_detached_mirrors [OF tell]]) (use that in auto)
  then have rest: "wp (pbind (for_each rs (\<lambda>sr. pbind (?mark (sr_id sr)) (\<lambda>_. resync_session (answers_of s) (sr_id sr)))) (\<lambda>_.
      resync_detached_buffers (answers_of s))) (\<lambda>_ m'. copy_ok (mc_state m') \<and> (\<forall>sid. mirrors s sid (mc_state m'))) (\<lambda>_ _. False) m'"
    if "?I [] m'" for m'
    unfolding wp_pbind [of "for_each rs _"] by (rule wp_mono [OF loop [OF that]]) auto
  have "wp (for_each (bt_keys (cl_sessions (mc_state m)))
      (\<lambda>sid. if sid \<in> ?live then ret () else on_copy (client_remove_session sid))) (\<lambda>_. ?I []) (\<lambda>_ _. False) m"
    by (rule wp_mono [OF drop_gone_sessions [OF tell ok, of ?live]]) (use rs in auto)
  then have "wp (for_each (bt_keys (cl_sessions (mc_state m)))
      (\<lambda>sid. if sid \<in> ?live then ret () else on_copy (client_remove_session sid)))
      (\<lambda>_. wp (pbind (for_each rs (\<lambda>sr. pbind (?mark (sr_id sr)) (\<lambda>_. resync_session (answers_of s) (sr_id sr)))) (\<lambda>_.
         resync_detached_buffers (answers_of s))) (\<lambda>_ m'. copy_ok (mc_state m') \<and> (\<forall>sid. mirrors s sid (mc_state m'))) (\<lambda>_ _. False))
      (\<lambda>_ _. False) m"
    by (rule wp_mono) (rule rest, assumption, assumption)
  then show ?thesis
    unfolding resync_all_sessions_def wp_pbind [of "reads _"] wp_pbind [of "gets _"] wp_pbind [of "for_each (bt_keys _) _"]
    by (simp add: wp_reads rs(1) wp_pbind)
qed

end

section \<open>The server's answers\<close>

lemma within_budget_subset: "r \<in> set (within_budget first budget bs) \<Longrightarrow> r \<in> set bs"
  by (induction first budget bs rule: within_budget.induct) (auto simp: Let_def split: if_splits)

lemma session_snapshot_describes:
  assumes tell: "tellable s" and se: "bt_get (sessions s) sid = Some se"
  shows "\<exists>snap. session_snapshot s sid = Ok snap \<and> describes s se snap"
proof -
  obtain snap where snap: "session_snapshot s sid = Ok snap" "ss_session snap = session_record se"
    "\<And>r. r \<in> set (ss_nodes snap) \<longleftrightarrow> (\<exists>n \<in> session_trees s se. node_told s n = Ok r)"
    "\<And>r. r \<in> set (ss_buffers snap) \<longleftrightarrow> (\<exists>bid \<in> session_views s se. \<exists>b. bt_get (buffers s) bid = Some b \<and> r = buffer_record b)"
    "ss_floating snap = map (\<lambda>fid. floating_record (the (bt_get (floating s) fid))) (se_floating se)"
    using session_snapshot_Ok [OF tellableD(1,3) [OF tell] se] by blast
  have "r \<in> set (ss_floating snap) \<longleftrightarrow> (\<exists>fid \<in> set (se_floating se). \<exists>w. bt_get (floating s) fid = Some w \<and> r = floating_record w)" for r
  proof -
    have "\<exists>w. bt_get (floating s) fid = Some w" if "fid \<in> set (se_floating se)" for fid
      using session_floating [OF tell se that] by blast
    then show ?thesis unfolding snap(5) by force
  qed
  with snap show ?thesis by (auto simp: describes_def)
qed

interpretation server: transport "server_answers visible client"
proof unfold_locales
  fix s :: server_state and sid :: session_id and se :: session
  show "\<exists>snap. an_session (server_answers visible client s) sid = Ok snap \<and> describes s se snap"
    if "tellable s" "bt_get (sessions s) sid = Some se"
    using session_snapshot_describes [OF that] by (simp add: server_answers_def)
  show "\<exists>e. an_session (server_answers visible client s) sid = Err e \<and> is_not_found e" if "bt_get (sessions s) sid = None"
    using that by (simp add: server_answers_def session_snapshot_def state_session_def)
  show "\<exists>rs. an_sessions (server_answers visible client s) = Ok rs \<and> sr_id ` set rs = dom (bt_get (sessions s))" if "tellable s"
  proof -
    have "se_id ` set (bt_values (sessions s)) = dom (bt_get (sessions s))"
      using tellableD(5) [OF that] by (force simp: bt_values_iff)
    then show ?thesis by (simp add: server_answers_def list_sessions_def image_image)
  qed
  show "\<exists>bs. an_detached (server_answers visible client s) = Ok bs \<and>
      (\<forall>r \<in> set bs. \<exists>b. bt_get (buffers s) (br_id r) = Some b \<and> bu_attachment b = Detached)" if "tellable s"
    using tellableD(4) [OF that]
    by (fastforce simp: server_answers_def list_detached_buffers_def bt_values_iff dest: within_budget_subset)
qed

section \<open>Detached buffers that are not listed\<close>

text \<open>
  The list of detached buffers stops at the budget, but the client takes it for complete: a detached buffer
  that is not in it is forgotten, although the server has it.
\<close>

lemma within_budget_stops:
  "estimated_buffer_record_size a + estimated_buffer_record_size b > buffers_response_budget \<Longrightarrow> within_budget True 0 (a # b # bs) = [a]"
  by (simp add: Let_def)

lemma client_remove_buffers_buffers:
  "bt_get (cl_buffers (fold client_remove_buffer xs c)) bid = (if bid \<in> set xs then None else bt_get (cl_buffers c) bid)"
  by (induction xs arbitrary: c) (simp_all add: client_remove_buffer_def)

lemma unlisted_forgotten:
  assumes "bt_get (cl_buffers c) (br_id r) = Some r" and "br_attachment_node_id r = None" and "br_id r \<notin> br_id ` set bs"
  shows "bt_get (cl_buffers (apply_detached_buffers bs c)) (br_id r) = None"
proof -
  have "r \<in> set (bt_values (cl_buffers c))" using assms(1) by (auto simp: bt_values_iff)
  then show ?thesis
    using assms by (auto simp: apply_detached_buffers_def Let_def insert_all_absent client_remove_buffers_buffers)
qed

definition big_buffer :: "buffer_id \<Rightarrow> buffer" where
  "big_buffer bid = buffer_new bid (replicate buffers_response_budget 97) [] None bt_empty 0"

definition two_big :: server_state where
  "two_big = state_new\<lparr>buffers := bt_insert 2 (big_buffer 2) (bt_insert 1 (big_buffer 1) bt_empty)\<rparr>"

definition knows_both :: mux_client where
  "knows_both = mux_client_new\<lparr>mc_state := client_state_default\<lparr>cl_buffers :=
     bt_insert 2 (buffer_record (big_buffer 2)) (bt_insert 1 (buffer_record (big_buffer 1)) bt_empty)\<rparr>\<rparr>"

lemma big_buffer_size: "buffers_response_budget < estimated_buffer_record_size (buffer_record (big_buffer bid))"
  by (simp add: big_buffer_def buffer_new_def buffer_record_def estimated_buffer_record_size_def utf8_len_def encode_utf8_def sum_list_replicate)

lemma two_big_listed: "list_detached_buffers two_big = [buffer_record (big_buffer 1)]"
proof -
  have "bt_values (buffers two_big) = [big_buffer 1, big_buffer 2]" by (simp add: two_big_def bt_values_def bt_entries_insert)
  then show ?thesis
    using big_buffer_size [of 1] within_budget_stops [of "buffer_record (big_buffer 1)" "buffer_record (big_buffer 2)" "[]"]
    by (simp add: list_detached_buffers_def big_buffer_def buffer_new_def)
qed

theorem detached_forgotten:
  "bt_get (buffers two_big) 2 = Some (big_buffer 2) \<and> bu_attachment (big_buffer 2) = Detached \<and>
   bt_get (cl_buffers (mc_state knows_both)) 2 = Some (buffer_record (big_buffer 2)) \<and>
   (\<exists>m. resync_detached_buffers (server_answers visible client two_big) knows_both = (Ok (), m) \<and> bt_get (cl_buffers (mc_state m)) 2 = None)"
proof -
  let ?r = "buffer_record (big_buffer 2)"
  have r: "br_id ?r = 2" "br_attachment_node_id ?r = None" and b: "br_id (buffer_record (big_buffer 1)) = 1"
    by (simp_all add: buffer_record_def big_buffer_def buffer_new_def)
  have known: "bt_get (cl_buffers (mc_state knows_both)) 2 = Some ?r" by (simp add: knows_both_def)
  have "bt_get (cl_buffers (apply_detached_buffers [buffer_record (big_buffer 1)] (mc_state knows_both))) 2 = None"
    using unlisted_forgotten [of "mc_state knows_both" ?r "[buffer_record (big_buffer 1)]"] r b known by simp
  then have "\<exists>m. resync_detached_buffers (server_answers visible client two_big) knows_both = (Ok (), m) \<and> bt_get (cl_buffers (mc_state m)) 2 = None"
    by (simp add: resync_detached_buffers_def server_answers_def two_big_listed pbind_def reads_def on_copy_def modify_def)
  then show ?thesis using known by (simp add: two_big_def big_buffer_def buffer_new_def)
qed

end
