(* ===== verification/Command_Prompt.thy ===== *)
theory Command_Prompt
  imports Client_Keymap Embers_Core Service
begin

text \<open>
  The command prompt (\<open>crates/embers-client/src/command_prompt.rs\<close>, and the prompt's keys in
  \<open>configured_client.rs\<close>): editing a line with emacs and vi keys, and its history. The line is edited as the
  text before and the text after the cursor; the lemmas show that every key refines that, that no key
  panics, and that browsing the history back and forth restores the line.
  Which characters are alphanumeric is Unicode data, an argument \<open>alnum\<close> of the vi motions; the quoting of a
  word is a library's, an argument of \<open>command_line\<close>.
\<close>

section \<open>Characters\<close>

text \<open>\<open>char::is_control\<close>: the category Cc.\<close>

definition is_control :: "nat \<Rightarrow> bool" where
  "is_control c \<longleftrightarrow> c < 32 \<or> 127 \<le> c \<and> c < 160"

text \<open>
  \<open>String::from_utf8_lossy\<close>: a scalar value for each well-formed sequence, and U+FFFD for each longest start
  of one that goes wrong.
\<close>

definition continuation :: "nat \<Rightarrow> bool" where
  "continuation b \<longleftrightarrow> 128 \<le> b \<and> b < 192"

definition second_of_three :: "nat \<Rightarrow> nat \<Rightarrow> bool" where
  "second_of_three a b \<longleftrightarrow>
     (if a = 224 then 160 \<le> b \<and> b < 192 else if a = 237 then 128 \<le> b \<and> b < 160 else continuation b)"

definition second_of_four :: "nat \<Rightarrow> nat \<Rightarrow> bool" where
  "second_of_four a b \<longleftrightarrow>
     (if a = 240 then 144 \<le> b \<and> b < 192 else if a = 244 then 128 \<le> b \<and> b < 144 else continuation b)"

definition utf8_step :: "nat \<Rightarrow> nat list \<Rightarrow> nat \<times> nat list" where
  "utf8_step a bs =
     (if a < 128 then (a, bs)
      else if 194 \<le> a \<and> a < 224 then
        (case bs of b # cs \<Rightarrow> if continuation b then ((a - 192) * 64 + (b - 128), cs) else (65533, bs) | [] \<Rightarrow> (65533, bs))
      else if 224 \<le> a \<and> a < 240 then
        (case bs of
           b # cs \<Rightarrow>
             if second_of_three a b then
               (case cs of
                  c # ds \<Rightarrow>
                    if continuation c then ((a - 224) * 4096 + (b - 128) * 64 + (c - 128), ds) else (65533, cs)
                | [] \<Rightarrow> (65533, cs))
             else (65533, bs)
         | [] \<Rightarrow> (65533, bs))
      else if 240 \<le> a \<and> a < 245 then
        (case bs of
           b # cs \<Rightarrow>
             if second_of_four a b then
               (case cs of
                  c # ds \<Rightarrow>
                    if continuation c then
                      (case ds of
                         d # es \<Rightarrow>
                           if continuation d
                           then ((a - 240) * 262144 + (b - 128) * 4096 + (c - 128) * 64 + (d - 128), es)
                           else (65533, ds)
                       | [] \<Rightarrow> (65533, ds))
                    else (65533, cs)
                | [] \<Rightarrow> (65533, cs))
             else (65533, bs)
         | [] \<Rightarrow> (65533, bs))
      else (65533, bs))"

lemma utf8_step_length: "length (snd (utf8_step a bs)) \<le> length bs"
  by (auto simp: utf8_step_def split: list.split)

function from_utf8_lossy :: "nat list \<Rightarrow> rstring" where
  "from_utf8_lossy [] = []"
| "from_utf8_lossy (a # bs) = fst (utf8_step a bs) # from_utf8_lossy (snd (utf8_step a bs))"
  by pat_completeness auto
termination
  by (relation "measure length") (simp_all add: utf8_step_length less_Suc_eq_le)

section \<open>The prompt\<close>

definition prompt_history_limit :: nat where
  "prompt_history_limit = 100"

datatype status_keys = Emacs | Vi

definition status_keys_parse :: "rstring \<Rightarrow> status_keys option" where
  "status_keys_parse value =
     (if value = str_lit ''emacs'' then Some Emacs else if value = str_lit ''vi'' then Some Vi else None)"

datatype vi_mode = Insert | Normal

record vi_state =
  vi_mode_of :: vi_mode
  vi_pending :: "nat option"

datatype prompt_char_class = BlankChar | WordChar | Punctuation

definition char_class :: "(nat \<Rightarrow> bool) \<Rightarrow> nat \<Rightarrow> prompt_char_class" where
  "char_class alnum ch =
     (if is_whitespace ch then BlankChar else if alnum ch \<or> ch = 95 then WordChar else Punctuation)"

record command_prompt =
  cpr_label :: rstring
  cpr_input :: rstring
  cpr_cursor :: nat
  cpr_template :: "rstring option"
  cpr_return_mode :: rstring
  cpr_history_index :: "nat option"
  cpr_draft :: rstring
  cpr_vi :: "vi_state option"

definition command_prompt_new :: "rstring \<Rightarrow> rstring \<Rightarrow> rstring option \<Rightarrow> rstring \<Rightarrow> command_prompt" where
  "command_prompt_new label initial template return_mode =
     \<lparr>cpr_label = label, cpr_input = initial, cpr_cursor = length initial, cpr_template = template,
      cpr_return_mode = return_mode, cpr_history_index = None, cpr_draft = [], cpr_vi = None\<rparr>"

definition with_vi_keys :: "command_prompt \<Rightarrow> command_prompt" where
  "with_vi_keys p = p\<lparr>cpr_vi := Some \<lparr>vi_mode_of = Insert, vi_pending = None\<rparr>\<rparr>"

definition prompt_vi_mode :: "command_prompt \<Rightarrow> vi_mode option" where
  "prompt_vi_mode p = map_option vi_mode_of (cpr_vi p)"

definition set_vi :: "vi_mode \<Rightarrow> command_prompt \<Rightarrow> command_prompt" where
  "set_vi mode p = p\<lparr>cpr_vi := Some \<lparr>vi_mode_of = mode, vi_pending = None\<rparr>\<rparr>"

section \<open>Editing\<close>

text \<open>
  The source keeps the cursor in characters and turns it into a byte position for each edit, the end of the
  line for a cursor past it. The model counts characters all along. \<open>String::replace_range\<close> panics on a range
  that ends before it starts or past the end of the string; \<open>insert_str\<close> and \<open>truncate\<close> are only called at a
  position that \<open>byte_index\<close> gave, where they cannot panic.
\<close>

definition byte_index :: "nat \<Rightarrow> command_prompt \<Rightarrow> nat" where
  "byte_index chars p = (if chars < length (cpr_input p) then chars else length (cpr_input p))"

definition replace_range :: "nat \<Rightarrow> nat \<Rightarrow> command_prompt \<Rightarrow> (mux_error, command_prompt) outcome" where
  "replace_range from to p =
     (if from \<le> to \<and> to \<le> length (cpr_input p)
      then Ok (p\<lparr>cpr_input := take from (cpr_input p) @ drop to (cpr_input p)\<rparr>) else Panic)"

definition prompt_insert :: "rstring \<Rightarrow> command_prompt \<Rightarrow> command_prompt" where
  "prompt_insert text p =
     (let at = byte_index (cpr_cursor p) p;
          text = map (\<lambda>ch. if is_control ch then 32 else ch) text
      in p\<lparr>cpr_input := take at (cpr_input p) @ text @ drop at (cpr_input p),
           cpr_cursor := cpr_cursor p + length text\<rparr>)"

definition backspace :: "command_prompt \<Rightarrow> (mux_error, command_prompt) outcome" where
  "backspace p =
     (if cpr_cursor p = 0 then Ok p
      else
        rbind (replace_range (byte_index (cpr_cursor p - 1) p) (byte_index (cpr_cursor p) p) p) (\<lambda>p.
        Ok (p\<lparr>cpr_cursor := cpr_cursor p - 1\<rparr>)))"

definition prompt_delete :: "command_prompt \<Rightarrow> (mux_error, command_prompt) outcome" where
  "prompt_delete p =
     (if cpr_cursor p \<ge> length (cpr_input p) then Ok p
      else replace_range (byte_index (cpr_cursor p) p) (byte_index (cpr_cursor p + 1) p) p)"

definition cursor_left :: "command_prompt \<Rightarrow> command_prompt" where
  "cursor_left p = p\<lparr>cpr_cursor := cpr_cursor p - 1\<rparr>"

definition cursor_right :: "command_prompt \<Rightarrow> command_prompt" where
  "cursor_right p = p\<lparr>cpr_cursor := min (cpr_cursor p + 1) (length (cpr_input p))\<rparr>"

definition cursor_home :: "command_prompt \<Rightarrow> command_prompt" where
  "cursor_home p = p\<lparr>cpr_cursor := 0\<rparr>"

definition cursor_end :: "command_prompt \<Rightarrow> command_prompt" where
  "cursor_end p = p\<lparr>cpr_cursor := length (cpr_input p)\<rparr>"

definition kill_to_start :: "command_prompt \<Rightarrow> (mux_error, command_prompt) outcome" where
  "kill_to_start p =
     rbind (replace_range 0 (byte_index (cpr_cursor p) p) p) (\<lambda>p. Ok (p\<lparr>cpr_cursor := 0\<rparr>))"

definition kill_to_end :: "command_prompt \<Rightarrow> command_prompt" where
  "kill_to_end p = p\<lparr>cpr_input := take (byte_index (cpr_cursor p) p) (cpr_input p)\<rparr>"

text \<open>The loops that move an index back or forth while the character there is of some kind.\<close>

fun back_while :: "(nat \<Rightarrow> bool) \<Rightarrow> rstring \<Rightarrow> nat \<Rightarrow> nat" where
  "back_while q chars 0 = 0"
| "back_while q chars (Suc i) = (if q (chars ! i) then back_while q chars i else Suc i)"

function forth_while :: "(nat \<Rightarrow> bool) \<Rightarrow> rstring \<Rightarrow> nat \<Rightarrow> nat" where
  "forth_while q chars i = (if i < length chars \<and> q (chars ! i) then forth_while q chars (Suc i) else i)"
  by pat_completeness auto
termination
  by (relation "measure (\<lambda>(q, chars, i). length chars - i)") auto

declare forth_while.simps [simp del]

text \<open>\<open>delete_word\<close> indexes the characters before the cursor, and panics when the cursor is past the end.\<close>

definition delete_word :: "command_prompt \<Rightarrow> (mux_error, command_prompt) outcome" where
  "delete_word p =
     (if cpr_cursor p > length (cpr_input p) then Panic
      else
        let start = back_while is_whitespace (cpr_input p) (cpr_cursor p);
            start = back_while (\<lambda>c. \<not> is_whitespace c) (cpr_input p) start
        in rbind (replace_range (byte_index start p) (byte_index (cpr_cursor p) p) p) (\<lambda>p.
           Ok (p\<lparr>cpr_cursor := start\<rparr>)))"

section \<open>History\<close>

definition set_input :: "rstring \<Rightarrow> command_prompt \<Rightarrow> command_prompt" where
  "set_input input p = p\<lparr>cpr_cursor := length input, cpr_input := input\<rparr>"

definition history_up :: "rstring list \<Rightarrow> command_prompt \<Rightarrow> (mux_error, command_prompt) outcome" where
  "history_up history p =
     (let show_entry = (\<lambda>next p.
            if next < length history
            then Ok (set_input (history ! next) (p\<lparr>cpr_history_index := Some next\<rparr>))
            else Panic)
      in case cpr_history_index p of
           None \<Rightarrow> if history = [] then Ok p else show_entry (length history - 1) (p\<lparr>cpr_draft := cpr_input p\<rparr>)
         | Some 0 \<Rightarrow> Ok p
         | Some (Suc index) \<Rightarrow> show_entry index p)"

definition history_down :: "rstring list \<Rightarrow> command_prompt \<Rightarrow> command_prompt" where
  "history_down history p =
     (case cpr_history_index p of
        None \<Rightarrow> p
      | Some index \<Rightarrow>
          if index + 1 < length history
          then set_input (history ! (index + 1)) (p\<lparr>cpr_history_index := Some (index + 1)\<rparr>)
          else set_input (cpr_draft p) (p\<lparr>cpr_history_index := None, cpr_draft := []\<rparr>))"

definition record_history :: "rstring list \<Rightarrow> rstring \<Rightarrow> rstring list" where
  "record_history history line =
     (if trim line = [] \<or> (history \<noteq> [] \<and> last history = line) then history
      else drop (length history + 1 - prompt_history_limit) (history @ [line]))"

section \<open>Vi keys\<close>

definition next_word_start :: "(nat \<Rightarrow> bool) \<Rightarrow> command_prompt \<Rightarrow> nat" where
  "next_word_start alnum p =
     (let chars = cpr_input p; index = cpr_cursor p;
          index = (if index < length chars \<and> char_class alnum (chars ! index) \<noteq> BlankChar
                   then forth_while (\<lambda>c. char_class alnum c = char_class alnum (chars ! index)) chars index
                   else index)
      in forth_while (\<lambda>c. char_class alnum c = BlankChar) chars index)"

definition previous_word_start :: "(nat \<Rightarrow> bool) \<Rightarrow> command_prompt \<Rightarrow> nat" where
  "previous_word_start alnum p =
     (let chars = cpr_input p;
          index = back_while (\<lambda>c. char_class alnum c = BlankChar) chars (min (cpr_cursor p) (length chars))
      in case index of
           0 \<Rightarrow> 0
         | Suc i \<Rightarrow> back_while (\<lambda>c. char_class alnum c = char_class alnum (chars ! i)) chars index)"

definition word_end_from :: "(nat \<Rightarrow> bool) \<Rightarrow> command_prompt \<Rightarrow> nat \<Rightarrow> nat" where
  "word_end_from alnum p index =
     (let chars = cpr_input p
      in if index < length chars
         then forth_while (\<lambda>c. char_class alnum c = char_class alnum (chars ! index)) chars (Suc index) - 1
         else index)"

definition next_word_end :: "(nat \<Rightarrow> bool) \<Rightarrow> command_prompt \<Rightarrow> nat" where
  "next_word_end alnum p =
     (let chars = cpr_input p;
          index = forth_while (\<lambda>c. char_class alnum c = BlankChar) chars (cpr_cursor p + 1)
      in if index \<ge> length chars then length chars - 1 else word_end_from alnum p index)"

definition vi_command :: "(nat \<Rightarrow> bool) \<Rightarrow> nat \<Rightarrow> rstring list \<Rightarrow> command_prompt \<Rightarrow> (mux_error, command_prompt) outcome" where
  "vi_command alnum ch history p =
     (if [ch] = str_lit ''h'' then Ok (cursor_left p)
      else if [ch] = str_lit ''l'' then Ok (cursor_right p)
      else if [ch] = str_lit ''0'' then Ok (cursor_home p)
      else if [ch] = str_lit ''$'' then Ok (cursor_end p)
      else if [ch] = str_lit ''w'' then Ok (p\<lparr>cpr_cursor := next_word_start alnum p\<rparr>)
      else if [ch] = str_lit ''b'' then Ok (p\<lparr>cpr_cursor := previous_word_start alnum p\<rparr>)
      else if [ch] = str_lit ''e'' then Ok (p\<lparr>cpr_cursor := next_word_end alnum p\<rparr>)
      else if [ch] = str_lit ''x'' then prompt_delete p
      else if [ch] = str_lit ''D'' then Ok (kill_to_end p)
      else if [ch] = str_lit ''C'' then Ok (set_vi Insert (kill_to_end p))
      else if [ch] = str_lit ''i'' then Ok (set_vi Insert p)
      else if [ch] = str_lit ''a'' then Ok (set_vi Insert (cursor_right p))
      else if [ch] = str_lit ''A'' then Ok (set_vi Insert (cursor_end p))
      else if [ch] = str_lit ''I'' then Ok (set_vi Insert (cursor_home p))
      else if [ch] = str_lit ''k'' then history_up history p
      else if [ch] = str_lit ''j'' then Ok (history_down history p)
      else if [ch] = str_lit ''d'' \<or> [ch] = str_lit ''c''
      then Ok (p\<lparr>cpr_vi := Some \<lparr>vi_mode_of = Normal, vi_pending = Some ch\<rparr>\<rparr>)
      else Ok p)"

definition vi_operator :: "(nat \<Rightarrow> bool) \<Rightarrow> nat \<Rightarrow> nat \<Rightarrow> command_prompt \<Rightarrow> (mux_error, command_prompt) outcome" where
  "vi_operator alnum operator motion p =
     (let p = set_vi Normal p
      in if [motion] \<noteq> str_lit ''w'' then Ok p
         else
           let change = ([operator] = str_lit ''c'');
               stop = (if change \<and> cpr_cursor p < length (cpr_input p) \<and> \<not> is_whitespace (cpr_input p ! cpr_cursor p)
                       then word_end_from alnum p (cpr_cursor p) + 1
                       else next_word_start alnum p)
           in rbind (replace_range (byte_index (cpr_cursor p) p) (byte_index stop p) p) (\<lambda>p.
              Ok (if change then set_vi Insert p else p)))"

definition clamp_normal_cursor :: "command_prompt \<Rightarrow> command_prompt" where
  "clamp_normal_cursor p =
     (if prompt_vi_mode p = Some Normal then p\<lparr>cpr_cursor := min (cpr_cursor p) (length (cpr_input p) - 1)\<rparr> else p)"

datatype key_event =
    EventChar nat
  | EventBytes "nat list"
  | EventEnter
  | EventTab
  | EventBackspace
  | EventEscape
  | EventCtrl nat
  | EventAlt nat
  | EventUp
  | EventDown
  | EventLeft
  | EventRight
  | EventHome
  | EventEnd
  | EventInsert
  | EventDelete
  | EventPageUp
  | EventPageDown
  | EventKey key_code modifiers

text \<open>The keys that normal mode leaves to the default keys of the prompt.\<close>

fun normal_leaves :: "key_event \<Rightarrow> bool" where
  "normal_leaves EventEnter = True"
| "normal_leaves EventEscape = True"
| "normal_leaves (EventCtrl ch) = ([ch] = str_lit ''c'' \<or> [ch] = str_lit ''g'')"
| "normal_leaves EventLeft = True"
| "normal_leaves EventRight = True"
| "normal_leaves EventUp = True"
| "normal_leaves EventDown = True"
| "normal_leaves EventHome = True"
| "normal_leaves EventEnd = True"
| "normal_leaves EventBackspace = True"
| "normal_leaves EventDelete = True"
| "normal_leaves _ = False"

definition vi_key :: "(nat \<Rightarrow> bool) \<Rightarrow> key_event \<Rightarrow> rstring list \<Rightarrow> command_prompt \<Rightarrow> (mux_error, bool \<times> command_prompt) outcome" where
  "vi_key alnum key history p =
     (case cpr_vi p of
        None \<Rightarrow> Ok (False, p)
      | Some vi \<Rightarrow>
          (case vi_mode_of vi of
             Insert \<Rightarrow>
               if key = EventEscape then Ok (True, cursor_left (set_vi Normal p)) else Ok (False, p)
           | Normal \<Rightarrow>
               (case key of
                  EventChar ch \<Rightarrow>
                    rbind (case vi_pending vi of
                             Some operator \<Rightarrow> vi_operator alnum operator ch p
                           | None \<Rightarrow> vi_command alnum ch history p) (\<lambda>p.
                    Ok (True, clamp_normal_cursor p))
                | _ \<Rightarrow> Ok (\<not> normal_leaves key, set_vi Normal p))))"

section \<open>Showing and running the line\<close>

definition prompt_display :: "command_prompt \<Rightarrow> rstring" where
  "prompt_display p = cpr_label p @ cpr_input p"

definition cursor_column :: "(rstring \<Rightarrow> nat) \<Rightarrow> command_prompt \<Rightarrow> nat" where
  "cursor_column width_of p = width_of (cpr_label p) + width_of (take (cpr_cursor p) (cpr_input p))"

text \<open>\<open>str::replace\<close> of the two characters \<open>%%\<close>, from the left.\<close>

fun replace_percents :: "rstring \<Rightarrow> rstring \<Rightarrow> rstring" where
  "replace_percents new (a # b # s) =
     (if a = 37 \<and> b = 37 then new @ replace_percents new s else a # replace_percents new (b # s))"
| "replace_percents new s = s"

definition command_line :: "(rstring \<Rightarrow> rstring) \<Rightarrow> command_prompt \<Rightarrow> rstring" where
  "command_line quote p =
     (case cpr_template p of
        Some template \<Rightarrow> replace_percents (quote (cpr_input p)) template
      | None \<Rightarrow> cpr_input p)"

section \<open>The keys of the prompt\<close>

text \<open>
  The part of the client that the prompt's keys read and write: the open prompt, the history and the input
  mode. A key may leave a line for the client to run.
\<close>

record prompt_client =
  pc_prompt :: "command_prompt option"
  pc_history :: "rstring list"
  pc_input :: input_state

definition open_prompt :: "status_keys \<Rightarrow> rstring \<Rightarrow> rstring \<Rightarrow> rstring option \<Rightarrow> prompt_client \<Rightarrow> prompt_client" where
  "open_prompt keys label initial template c =
     (let mode = current_mode (pc_input c);
          return_mode = (if mode = search_mode \<or> mode = hints_mode \<or> mode = prompt_mode then normal_mode else mode);
          p = command_prompt_new label initial template return_mode
      in c\<lparr>pc_prompt := Some (case keys of Vi \<Rightarrow> with_vi_keys p | Emacs \<Rightarrow> p),
           pc_input := set_mode prompt_mode (pc_input c)\<rparr>)"

definition commit_command_prompt :: "(rstring \<Rightarrow> rstring) \<Rightarrow> command_prompt \<Rightarrow> prompt_client \<Rightarrow> rstring option \<times> prompt_client" where
  "commit_command_prompt quote p c =
     (Some (command_line quote p),
      c\<lparr>pc_prompt := None, pc_input := set_mode (cpr_return_mode p) (pc_input c),
        pc_history := (if cpr_template p = None then record_history (pc_history c) (cpr_input p) else pc_history c)\<rparr>)"

text \<open>The keys that edit the line; the other keys do nothing.\<close>

definition edit_key :: "key_event \<Rightarrow> rstring list \<Rightarrow> command_prompt \<Rightarrow> (mux_error, command_prompt) outcome" where
  "edit_key key history p =
     (case key of
        EventChar ch \<Rightarrow> Ok (prompt_insert [ch] p)
      | EventBytes bytes \<Rightarrow> Ok (prompt_insert (from_utf8_lossy bytes) p)
      | EventBackspace \<Rightarrow> backspace p
      | EventDelete \<Rightarrow> prompt_delete p
      | EventLeft \<Rightarrow> Ok (cursor_left p)
      | EventRight \<Rightarrow> Ok (cursor_right p)
      | EventHome \<Rightarrow> Ok (cursor_home p)
      | EventEnd \<Rightarrow> Ok (cursor_end p)
      | EventUp \<Rightarrow> history_up history p
      | EventDown \<Rightarrow> Ok (history_down history p)
      | EventCtrl ch \<Rightarrow>
          if [ch] = str_lit ''h'' then backspace p
          else if [ch] = str_lit ''d'' then prompt_delete p
          else if [ch] = str_lit ''b'' then Ok (cursor_left p)
          else if [ch] = str_lit ''f'' then Ok (cursor_right p)
          else if [ch] = str_lit ''a'' then Ok (cursor_home p)
          else if [ch] = str_lit ''e'' then Ok (cursor_end p)
          else if [ch] = str_lit ''u'' then kill_to_start p
          else if [ch] = str_lit ''k'' then Ok (kill_to_end p)
          else if [ch] = str_lit ''w'' then delete_word p
          else if [ch] = str_lit ''p'' then history_up history p
          else if [ch] = str_lit ''n'' then Ok (history_down history p)
          else Ok p
      | _ \<Rightarrow> Ok p)"

definition is_cancel :: "key_event \<Rightarrow> bool" where
  "is_cancel key \<longleftrightarrow>
     key = EventEscape \<or> (case key of EventCtrl ch \<Rightarrow> [ch] = str_lit ''c'' \<or> [ch] = str_lit ''g'' | _ \<Rightarrow> False)"

definition handle_prompt_key ::
  "(nat \<Rightarrow> bool) \<Rightarrow> (rstring \<Rightarrow> rstring) \<Rightarrow> key_event \<Rightarrow> (prompt_client, mux_error, rstring option) proc" where
  "handle_prompt_key alnum quote key c =
     (case pc_prompt c of
        None \<Rightarrow> (Ok None, c\<lparr>pc_input := set_mode normal_mode (pc_input c)\<rparr>)
      | Some p \<Rightarrow>
          (case vi_key alnum key (pc_history c) p of
             Ok (True, p) \<Rightarrow> (Ok None, c\<lparr>pc_prompt := Some p\<rparr>)
           | Ok (False, p) \<Rightarrow>
               if key = EventEnter
               then (case commit_command_prompt quote p c of (line, c) \<Rightarrow> (Ok line, c))
               else if is_cancel key
               then (Ok None, c\<lparr>pc_prompt := None, pc_input := set_mode (cpr_return_mode p) (pc_input c)\<rparr>)
               else
                 (case edit_key key (pc_history c) p of
                    Ok p \<Rightarrow> (Ok None, c\<lparr>pc_prompt := Some p\<rparr>)
                  | Err e \<Rightarrow> (Err e, c) | Panic \<Rightarrow> (Panic, c) | Diverge \<Rightarrow> (Diverge, c))
           | Err e \<Rightarrow> (Err e, c) | Panic \<Rightarrow> (Panic, c) | Diverge \<Rightarrow> (Diverge, c)))"

definition paste_into_prompt :: "nat list \<Rightarrow> prompt_client \<Rightarrow> prompt_client" where
  "paste_into_prompt bytes c =
     (if current_mode (pc_input c) = prompt_mode
      then c\<lparr>pc_prompt := map_option (prompt_insert (from_utf8_lossy bytes)) (pc_prompt c)\<rparr>
      else c)"

section \<open>Loops over the line\<close>

lemma back_while_le: "back_while q chars i \<le> i"
  by (induction q chars i rule: back_while.induct) auto

lemma forth_while_ge: "i \<le> forth_while q chars i"
  by (induction q chars i rule: forth_while.induct) (subst forth_while.simps, auto)

lemma forth_while_le: "i \<le> length chars \<Longrightarrow> forth_while q chars i \<le> length chars"
  by (induction q chars i rule: forth_while.induct) (subst forth_while.simps, auto)

text \<open>They stop at the start, respectively the end, of the run the index is in.\<close>

lemma back_while_run:
  "(\<forall>j. back_while q chars i \<le> j \<longrightarrow> j < i \<longrightarrow> q (chars ! j)) \<and>
   (0 < back_while q chars i \<longrightarrow> \<not> q (chars ! (back_while q chars i - 1)))"
  by (induction q chars i rule: back_while.induct) (auto simp: less_Suc_eq)

lemma forth_while_run:
  "(\<forall>j. i \<le> j \<longrightarrow> j < forth_while q chars i \<longrightarrow> q (chars ! j)) \<and>
   (forth_while q chars i < length chars \<longrightarrow> \<not> q (chars ! forth_while q chars i))"
proof (induction q chars i rule: forth_while.induct)
  case (1 q chars i)
  show ?case
  proof (cases "i < length chars \<and> q (chars ! i)")
    case True
    then have f: "forth_while q chars i = forth_while q chars (Suc i)" by (subst forth_while.simps) simp
    have "q (chars ! j)" if "i \<le> j" "j < forth_while q chars (Suc i)" for j
      using 1 [OF True] True that by (cases "j = i") auto
    then show ?thesis using 1 [OF True] by (simp add: f)
  next
    case False
    then have "forth_while q chars i = i" by (subst forth_while.simps) auto
    then show ?thesis using False by auto
  qed
qed

lemma next_word_start_bounds:
  assumes "cpr_cursor p \<le> length (cpr_input p)"
  shows "cpr_cursor p \<le> next_word_start alnum p" "next_word_start alnum p \<le> length (cpr_input p)"
proof -
  let ?i = "if cpr_cursor p < length (cpr_input p) \<and> char_class alnum (cpr_input p ! cpr_cursor p) \<noteq> BlankChar
    then forth_while (\<lambda>c. char_class alnum c = char_class alnum (cpr_input p ! cpr_cursor p)) (cpr_input p) (cpr_cursor p)
    else cpr_cursor p"
  have i: "cpr_cursor p \<le> ?i" "?i \<le> length (cpr_input p)"
    using assms forth_while_ge forth_while_le by simp_all
  have "next_word_start alnum p = forth_while (\<lambda>c. char_class alnum c = BlankChar) (cpr_input p) ?i"
    by (simp add: next_word_start_def Let_def)
  then show "cpr_cursor p \<le> next_word_start alnum p" "next_word_start alnum p \<le> length (cpr_input p)"
    using order_trans [OF i(1) forth_while_ge] forth_while_le [OF i(2)] by simp_all
qed

lemma previous_word_start_le: "previous_word_start alnum p \<le> min (cpr_cursor p) (length (cpr_input p))"
proof -
  let ?b = "back_while (\<lambda>c. char_class alnum c = BlankChar) (cpr_input p) (min (cpr_cursor p) (length (cpr_input p)))"
  have b: "?b \<le> min (cpr_cursor p) (length (cpr_input p))" by (rule back_while_le)
  show ?thesis
  proof (cases ?b)
    case 0
    then show ?thesis by (simp add: previous_word_start_def Let_def)
  next
    case (Suc i)
    then have "previous_word_start alnum p =
        back_while (\<lambda>c. char_class alnum c = char_class alnum (cpr_input p ! i)) (cpr_input p) ?b"
      by (simp add: previous_word_start_def Let_def)
    also have "\<dots> \<le> ?b" by (rule back_while_le)
    finally show ?thesis using b by simp
  qed
qed

lemma word_end_from_bounds:
  assumes "index < length (cpr_input p)"
  shows "index \<le> word_end_from alnum p index" "word_end_from alnum p index < length (cpr_input p)"
proof -
  let ?f = "forth_while (\<lambda>c. char_class alnum c = char_class alnum (cpr_input p ! index)) (cpr_input p) (Suc index)"
  have "Suc index \<le> ?f" by (rule forth_while_ge)
  moreover have "?f \<le> length (cpr_input p)" by (rule forth_while_le) (use assms in simp)
  moreover have "word_end_from alnum p index = ?f - 1" using assms by (simp add: word_end_from_def Let_def)
  ultimately show "index \<le> word_end_from alnum p index" "word_end_from alnum p index < length (cpr_input p)" by linarith+
qed

lemma next_word_end_le: "next_word_end alnum p \<le> length (cpr_input p) - 1"
proof -
  let ?i = "forth_while (\<lambda>c. char_class alnum c = BlankChar) (cpr_input p) (cpr_cursor p + 1)"
  show ?thesis
    using word_end_from_bounds(2) [of ?i p alnum] by (cases "?i < length (cpr_input p)") (simp_all add: next_word_end_def Let_def)
qed

section \<open>The cursor stays in the line\<close>

text \<open>
  What every key keeps: the cursor is within the line, and the history entry shown exists.
\<close>

definition prompt_ok :: "rstring list \<Rightarrow> command_prompt \<Rightarrow> bool" where
  "prompt_ok history p \<longleftrightarrow>
     cpr_cursor p \<le> length (cpr_input p) \<and> (\<forall>i. cpr_history_index p = Some i \<longrightarrow> i < length history)"

lemma prompt_ok_edits:
  assumes "prompt_ok h p"
  shows "prompt_ok h (prompt_insert s p)" "prompt_ok h (cursor_left p)" "prompt_ok h (cursor_right p)"
    "prompt_ok h (cursor_home p)" "prompt_ok h (cursor_end p)" "prompt_ok h (kill_to_end p)" "prompt_ok h (set_vi m p)"
    "prompt_ok h (history_down h p)" "prompt_ok h (clamp_normal_cursor p)" "prompt_ok h (p\<lparr>cpr_vi := v\<rparr>)"
    "prompt_ok h (p\<lparr>cpr_cursor := next_word_start alnum p\<rparr>)" "prompt_ok h (p\<lparr>cpr_cursor := previous_word_start alnum p\<rparr>)"
    "prompt_ok h (p\<lparr>cpr_cursor := next_word_end alnum p\<rparr>)"
  using assms next_word_start_bounds [of p alnum] previous_word_start_le [of alnum p] next_word_end_le [of alnum p]
  by (auto simp: prompt_ok_def prompt_insert_def byte_index_def cursor_left_def cursor_right_def
      cursor_home_def cursor_end_def kill_to_end_def set_vi_def history_down_def set_input_def
      clamp_normal_cursor_def Let_def split: option.splits)

text \<open>A range between two positions in order is cut out.\<close>

lemma replace_between:
  assumes "i \<le> j" and "j \<le> length (cpr_input p)"
  shows "replace_range (byte_index i p) (byte_index j p) p =
    Ok (p\<lparr>cpr_input := take i (cpr_input p) @ drop j (cpr_input p)\<rparr>)"
  using assms by (auto simp: replace_range_def byte_index_def)

lemma deletions_run:
  assumes "cpr_cursor p \<le> length (cpr_input p)"
  shows "backspace p =
      Ok (p\<lparr>cpr_input := take (cpr_cursor p - 1) (cpr_input p) @ drop (cpr_cursor p) (cpr_input p), cpr_cursor := cpr_cursor p - 1\<rparr>)"
    "prompt_delete p = Ok (p\<lparr>cpr_input := take (cpr_cursor p) (cpr_input p) @ drop (cpr_cursor p + 1) (cpr_input p)\<rparr>)"
    "kill_to_start p = Ok (p\<lparr>cpr_input := drop (cpr_cursor p) (cpr_input p), cpr_cursor := 0\<rparr>)"
proof -
  show "backspace p =
      Ok (p\<lparr>cpr_input := take (cpr_cursor p - 1) (cpr_input p) @ drop (cpr_cursor p) (cpr_input p), cpr_cursor := cpr_cursor p - 1\<rparr>)"
    using assms replace_between [of "cpr_cursor p - 1" "cpr_cursor p" p] by (simp add: backspace_def)
  show "prompt_delete p = Ok (p\<lparr>cpr_input := take (cpr_cursor p) (cpr_input p) @ drop (cpr_cursor p + 1) (cpr_input p)\<rparr>)"
    using assms replace_between [of "cpr_cursor p" "cpr_cursor p + 1" p] by (simp add: prompt_delete_def)
  show "kill_to_start p = Ok (p\<lparr>cpr_input := drop (cpr_cursor p) (cpr_input p), cpr_cursor := 0\<rparr>)"
    using assms by (auto simp: kill_to_start_def replace_range_def byte_index_def)
qed

lemma prompt_ok_deletions:
  assumes "prompt_ok h p"
  shows "\<exists>p'. backspace p = Ok p' \<and> prompt_ok h p'" "\<exists>p'. prompt_delete p = Ok p' \<and> prompt_ok h p'"
    "\<exists>p'. kill_to_start p = Ok p' \<and> prompt_ok h p'"
  using assms by (auto simp: prompt_ok_def deletions_run)

lemma prompt_ok_history_up: "prompt_ok h p \<Longrightarrow> \<exists>p'. history_up h p = Ok p' \<and> prompt_ok h p'"
  by (cases "cpr_history_index p"; cases "the (cpr_history_index p)"; cases h)
    (auto simp: history_up_def prompt_ok_def set_input_def Let_def)

lemma delete_word_run:
  assumes "cpr_cursor p \<le> length (cpr_input p)"
  defines "start \<equiv> back_while (\<lambda>c. \<not> is_whitespace c) (cpr_input p) (back_while is_whitespace (cpr_input p) (cpr_cursor p))"
  shows "start \<le> cpr_cursor p"
    "delete_word p = Ok (p\<lparr>cpr_input := take start (cpr_input p) @ drop (cpr_cursor p) (cpr_input p), cpr_cursor := start\<rparr>)"
proof -
  show start: "start \<le> cpr_cursor p" unfolding start_def using back_while_le order_trans by blast
  show "delete_word p = Ok (p\<lparr>cpr_input := take start (cpr_input p) @ drop (cpr_cursor p) (cpr_input p), cpr_cursor := start\<rparr>)"
    using assms(1) replace_between [OF start assms(1)] by (simp add: delete_word_def Let_def start_def)
qed

lemma prompt_ok_delete_word:
  assumes "prompt_ok h p"
  shows "\<exists>p'. delete_word p = Ok p' \<and> prompt_ok h p'"
  using assms delete_word_run [of p] by (auto simp: prompt_ok_def)

text \<open>\<open>dw\<close> and \<open>cw\<close> cut from the cursor to a position behind it and within the line.\<close>

lemma vi_operator_run:
  assumes "cpr_cursor p \<le> length (cpr_input p)" and "[motion] = str_lit ''w''"
  shows "\<exists>stop v. cpr_cursor p \<le> stop \<and> stop \<le> length (cpr_input p) \<and>
    vi_operator alnum operator motion p = Ok (p\<lparr>cpr_input := take (cpr_cursor p) (cpr_input p) @ drop stop (cpr_input p), cpr_vi := v\<rparr>)"
proof -
  let ?p = "set_vi Normal p"
  let ?c = "[operator] = str_lit ''c'' \<and> cpr_cursor ?p < length (cpr_input ?p) \<and> \<not> is_whitespace (cpr_input ?p ! cpr_cursor ?p)"
  let ?s = "if ?c then word_end_from alnum ?p (cpr_cursor ?p) + 1 else next_word_start alnum ?p"
  have p: "cpr_cursor ?p = cpr_cursor p" "cpr_input ?p = cpr_input p" by (simp_all add: set_vi_def)
  have s: "cpr_cursor ?p \<le> ?s" "?s \<le> length (cpr_input ?p)"
    using word_end_from_bounds [of "cpr_cursor ?p" ?p alnum] next_word_start_bounds [of ?p alnum] assms(1) p by auto
  have "vi_operator alnum operator motion p =
      Ok (let q = ?p\<lparr>cpr_input := take (cpr_cursor ?p) (cpr_input ?p) @ drop ?s (cpr_input ?p)\<rparr>
          in if [operator] = str_lit ''c'' then set_vi Insert q else q)"
    using assms(2) unfolding vi_operator_def Let_def replace_between [OF s] by simp
  then show ?thesis
    using s p by (intro exI [of _ ?s] exI [of _ "Some \<lparr>vi_mode_of = if [operator] = str_lit ''c'' then Insert else Normal, vi_pending = None\<rparr>"])
      (simp add: set_vi_def Let_def)
qed

lemma prompt_ok_operator:
  assumes "prompt_ok h p"
  shows "\<exists>p'. vi_operator alnum operator motion p = Ok p' \<and> prompt_ok h p'"
proof (cases "[motion] = str_lit ''w''")
  case True
  then show ?thesis using assms vi_operator_run [of p motion alnum operator] by (auto simp: prompt_ok_def)
next
  case False
  then show ?thesis using assms by (simp add: vi_operator_def prompt_ok_edits)
qed

lemma prompt_ok_command: "prompt_ok h p \<Longrightarrow> \<exists>p'. vi_command alnum ch h p = Ok p' \<and> prompt_ok h p'"
  using prompt_ok_history_up [of h p] prompt_ok_deletions [of h p] by (simp add: vi_command_def prompt_ok_edits)

lemma prompt_ok_vi_key:
  assumes "prompt_ok h p"
  shows "\<exists>b p'. vi_key alnum key h p = Ok (b, p') \<and> prompt_ok h p'"
proof (cases "\<exists>vi ch. cpr_vi p = Some vi \<and> vi_mode_of vi = Normal \<and> key = EventChar ch")
  case True
  then obtain vi ch where k: "cpr_vi p = Some vi" "vi_mode_of vi = Normal" "key = EventChar ch" by blast
  obtain p' where "(case vi_pending vi of Some operator \<Rightarrow> vi_operator alnum operator ch p | None \<Rightarrow> vi_command alnum ch h p) = Ok p'"
    "prompt_ok h p'"
    using prompt_ok_command [OF assms] prompt_ok_operator [OF assms] by (cases "vi_pending vi") fastforce+
  then show ?thesis using k by (auto simp: vi_key_def prompt_ok_edits)
next
  case False
  then show ?thesis
    using assms by (cases key) (auto simp: vi_key_def prompt_ok_edits split: option.split vi_mode.split)
qed

lemma prompt_ok_edit_key:
  assumes "prompt_ok h p"
  shows "\<exists>p'. edit_key key h p = Ok p' \<and> prompt_ok h p'"
  using prompt_ok_history_up [OF assms] prompt_ok_delete_word [OF assms] prompt_ok_deletions [OF assms] assms
  by (cases key) (simp_all add: edit_key_def prompt_ok_edits)

section \<open>The line as the text around the cursor\<close>

text \<open>The abstract line: the text before the cursor and the text after it, and what each key does to it.\<close>

definition text_of :: "command_prompt \<Rightarrow> rstring \<times> rstring" where
  "text_of p = (take (cpr_cursor p) (cpr_input p), drop (cpr_cursor p) (cpr_input p))"

definition typed :: "rstring \<Rightarrow> rstring" where
  "typed s = map (\<lambda>ch. if is_control ch then 32 else ch) s"

definition drop_last_word :: "rstring \<Rightarrow> rstring" where
  "drop_last_word s = rev (dropWhile (\<lambda>c. \<not> is_whitespace c) (dropWhile is_whitespace (rev s)))"

fun edited_text :: "key_event \<Rightarrow> rstring \<times> rstring \<Rightarrow> rstring \<times> rstring" where
  "edited_text (EventChar ch) (l, r) = (l @ typed [ch], r)"
| "edited_text (EventBytes bytes) (l, r) = (l @ typed (from_utf8_lossy bytes), r)"
| "edited_text EventBackspace (l, r) = (butlast l, r)"
| "edited_text EventDelete (l, r) = (l, tl r)"
| "edited_text EventLeft (l, r) = (if l = [] then (l, r) else (butlast l, last l # r))"
| "edited_text EventRight (l, r) = (if r = [] then (l, r) else (l @ [hd r], tl r))"
| "edited_text EventHome (l, r) = ([], l @ r)"
| "edited_text EventEnd (l, r) = (l @ r, [])"
| "edited_text (EventCtrl ch) (l, r) =
     (if [ch] = str_lit ''h'' then (butlast l, r)
      else if [ch] = str_lit ''d'' then (l, tl r)
      else if [ch] = str_lit ''b'' then (if l = [] then (l, r) else (butlast l, last l # r))
      else if [ch] = str_lit ''f'' then (if r = [] then (l, r) else (l @ [hd r], tl r))
      else if [ch] = str_lit ''a'' then ([], l @ r)
      else if [ch] = str_lit ''e'' then (l @ r, [])
      else if [ch] = str_lit ''u'' then ([], r)
      else if [ch] = str_lit ''k'' then (l, [])
      else if [ch] = str_lit ''w'' then (drop_last_word l, r)
      else (l, r))"
| "edited_text _ (l, r) = (l, r)"

definition browses :: "key_event \<Rightarrow> bool" where
  "browses key \<longleftrightarrow>
     key = EventUp \<or> key = EventDown \<or>
     (case key of EventCtrl ch \<Rightarrow> [ch] = str_lit ''p'' \<or> [ch] = str_lit ''n'' | _ \<Rightarrow> False)"

lemma take_back_while:
  "i \<le> length chars \<Longrightarrow> take (back_while q chars i) chars = rev (dropWhile q (rev (take i chars)))"
proof (induction i)
  case (Suc i)
  then have "take (Suc i) chars = take i chars @ [chars ! i]" by (simp add: take_Suc_conv_app_nth)
  with Suc show ?case by simp
qed simp

lemma text_of_moves:
  assumes "cpr_cursor p \<le> length (cpr_input p)" and "text_of p = (l, r)"
  shows "text_of (prompt_insert s p) = (l @ typed s, r)"
    "text_of (cursor_left p) = (if l = [] then (l, r) else (butlast l, last l # r))"
    "text_of (cursor_right p) = (if r = [] then (l, r) else (l @ [hd r], tl r))"
    "text_of (cursor_home p) = ([], l @ r)" "text_of (cursor_end p) = (l @ r, [])" "text_of (kill_to_end p) = (l, [])"
    "\<exists>p'. backspace p = Ok p' \<and> text_of p' = (butlast l, r)" "\<exists>p'. prompt_delete p = Ok p' \<and> text_of p' = (l, tl r)"
    "\<exists>p'. kill_to_start p = Ok p' \<and> text_of p' = ([], r)"
proof -
  have p: "cpr_input p = l @ r" "cpr_cursor p = length l"
    using assms by (auto simp: text_of_def)
  show "text_of (prompt_insert s p) = (l @ typed s, r)"
    "text_of (cursor_right p) = (if r = [] then (l, r) else (l @ [hd r], tl r))"
    "text_of (cursor_home p) = ([], l @ r)" "text_of (cursor_end p) = (l @ r, [])" "text_of (kill_to_end p) = (l, [])"
    by (cases r; auto simp: text_of_def p prompt_insert_def typed_def byte_index_def cursor_right_def
        cursor_home_def cursor_end_def kill_to_end_def Let_def)+
  show "text_of (cursor_left p) = (if l = [] then (l, r) else (butlast l, last l # r))"
    by (cases l rule: rev_cases) (simp_all add: text_of_def p cursor_left_def)
  show "\<exists>p'. backspace p = Ok p' \<and> text_of p' = (butlast l, r)" "\<exists>p'. prompt_delete p = Ok p' \<and> text_of p' = (l, tl r)"
    "\<exists>p'. kill_to_start p = Ok p' \<and> text_of p' = ([], r)"
    using deletions_run [OF assms(1)] by (auto simp: text_of_def p butlast_conv_take drop_Suc)
qed

lemma text_of_delete_word:
  assumes "cpr_cursor p \<le> length (cpr_input p)" and "text_of p = (l, r)"
  shows "\<exists>p'. delete_word p = Ok p' \<and> text_of p' = (drop_last_word l, r)"
proof -
  have p: "cpr_input p = l @ r" "cpr_cursor p = length l" using assms by (auto simp: text_of_def)
  let ?a = "back_while is_whitespace (l @ r) (length l)"
  let ?b = "back_while (\<lambda>c. \<not> is_whitespace c) (l @ r) ?a"
  have "?a \<le> length (l @ r)" using back_while_le [of is_whitespace "l @ r" "length l"] by simp
  then have "take ?b (l @ r) = rev (dropWhile (\<lambda>c. \<not> is_whitespace c) (rev (take ?a (l @ r))))"
    by (rule take_back_while)
  also have "take ?a (l @ r) = rev (dropWhile is_whitespace (rev (take (length l) (l @ r))))"
    by (rule take_back_while) simp
  finally have t: "take ?b (l @ r) = drop_last_word l" by (simp add: drop_last_word_def)
  have "?b \<le> length l" using delete_word_run(1) [OF assms(1)] by (simp add: p)
  then have len: "?b = length (drop_last_word l)" using t by (metis length_take min.absorb2 le_add1 length_append order_trans)
  from delete_word_run(2) [OF assms(1), unfolded p t] show ?thesis by (simp add: text_of_def len)
qed

lemma edit_key_refines:
  assumes ok: "prompt_ok h p" and "\<not> browses key"
  shows "\<exists>p'. edit_key key h p = Ok p' \<and> prompt_ok h p' \<and> text_of p' = edited_text key (text_of p)"
proof -
  obtain l r where t: "text_of p = (l, r)" by fastforce
  have c: "cpr_cursor p \<le> length (cpr_input p)" using ok by (simp add: prompt_ok_def)
  have "\<exists>p'. edit_key key h p = Ok p' \<and> text_of p' = edited_text key (l, r)"
    using assms(2) text_of_moves(7-9) [OF c t] text_of_delete_word [OF c t]
    by (cases key) (simp_all add: edit_key_def browses_def text_of_moves(1-6) [OF c t] t)
  then show ?thesis using prompt_ok_edit_key [OF ok, of key] t by auto
qed

section \<open>History\<close>

primrec history_ups :: "rstring list \<Rightarrow> nat \<Rightarrow> command_prompt \<Rightarrow> (mux_error, command_prompt) outcome" where
  "history_ups h 0 p = Ok p"
| "history_ups h (Suc k) p = rbind (history_ups h k p) (history_up h)"

lemma history_ups_run:
  assumes "cpr_history_index p = None" and "Suc k \<le> length h"
  shows "history_ups h (Suc k) p =
    Ok (set_input (h ! (length h - Suc k)) (p\<lparr>cpr_draft := cpr_input p, cpr_history_index := Some (length h - Suc k)\<rparr>))"
  using assms(2)
proof (induction k)
  case 0
  then show ?case using assms(1) by (cases h) (simp_all add: history_up_def Let_def)
next
  case (Suc k)
  then have "length h - Suc k = Suc (length h - Suc (Suc k))" by simp
  with Suc show ?case by (simp add: history_up_def set_input_def Let_def)
qed

lemma history_downs_run:
  assumes "Suc k \<le> length h"
  shows "(history_down h ^^ Suc k) (set_input x (p\<lparr>cpr_draft := d, cpr_history_index := Some (length h - Suc k)\<rparr>)) =
    set_input d (p\<lparr>cpr_draft := [], cpr_history_index := None\<rparr>)"
  using assms
proof (induction k arbitrary: x)
  case 0
  then show ?case by (simp add: history_down_def set_input_def)
next
  case (Suc k)
  then have "length h - Suc (Suc k) + 1 = length h - Suc k" "length h - Suc (Suc k) + 1 < length h" by simp_all
  then have "history_down h (set_input x (p\<lparr>cpr_draft := d, cpr_history_index := Some (length h - Suc (Suc k))\<rparr>)) =
      set_input (h ! (length h - Suc k)) (p\<lparr>cpr_draft := d, cpr_history_index := Some (length h - Suc k)\<rparr>)"
    by (simp add: history_down_def set_input_def)
  with Suc show ?case by (simp add: funpow_swap1 del: funpow.simps(2) add: funpow_Suc_right)
qed

text \<open>The lines remembered: at most the limit, none blank, no line twice in a row.\<close>

definition history_ok :: "rstring list \<Rightarrow> bool" where
  "history_ok h \<longleftrightarrow> length h \<le> prompt_history_limit \<and> list_all (\<lambda>l. trim l \<noteq> []) h \<and> successively (\<noteq>) h"

lemma record_history_ok:
  assumes "history_ok h"
  shows "history_ok (record_history h line)"
proof (cases "trim line = [] \<or> (h \<noteq> [] \<and> last h = line)")
  case True
  then show ?thesis using assms by (simp add: record_history_def)
next
  case False
  have "successively (\<noteq>) (h @ [line])" using assms False by (auto simp: history_ok_def successively_append_iff)
  then have "successively (\<noteq>) (drop n (h @ [line]))" for n
    by (metis append_take_drop_id successively_append_iff)
  then show ?thesis
    using assms False set_drop_subset [of _ "h @ [line]"] unfolding record_history_def history_ok_def list_all_iff
    by (auto simp: prompt_history_limit_def simp del: drop_append)
qed

section \<open>Every key is handled\<close>

datatype prompt_request =
    OpenPrompt status_keys rstring rstring "rstring option"
  | PromptKey key_event
  | PastePrompt "nat list"

primrec prompt_step ::
  "(nat \<Rightarrow> bool) \<Rightarrow> (rstring \<Rightarrow> rstring) \<Rightarrow> prompt_request \<Rightarrow> (prompt_client, mux_error, rstring option) proc" where
  "prompt_step alnum quote (OpenPrompt keys label initial template) =
     (\<lambda>c. (Ok None, open_prompt keys label initial template c))"
| "prompt_step alnum quote (PromptKey key) = handle_prompt_key alnum quote key"
| "prompt_step alnum quote (PastePrompt bytes) = (\<lambda>c. (Ok None, paste_into_prompt bytes c))"

definition prompt_client_default :: prompt_client where
  "prompt_client_default = \<lparr>pc_prompt = None, pc_history = [], pc_input = input_state_default\<rparr>"

definition prompt_client_ok :: "prompt_client \<Rightarrow> bool" where
  "prompt_client_ok c \<longleftrightarrow> history_ok (pc_history c) \<and> (\<forall>p. pc_prompt c = Some p \<longrightarrow> prompt_ok (pc_history c) p)"

lemma handle_prompt_key_ok:
  assumes "prompt_client_ok c"
  shows "wp (handle_prompt_key alnum quote key) (\<lambda>_. prompt_client_ok) (\<lambda>_ _. False) c"
proof (cases "pc_prompt c")
  case None
  then show ?thesis using assms by (simp add: wp_def handle_prompt_key_def prompt_client_ok_def)
next
  case (Some p)
  have ok: "prompt_ok (pc_history c) p" "history_ok (pc_history c)" using assms Some by (simp_all add: prompt_client_ok_def)
  obtain b q where q: "vi_key alnum key (pc_history c) p = Ok (b, q)" "prompt_ok (pc_history c) q"
    using prompt_ok_vi_key [OF ok(1)] by blast
  obtain r where r: "edit_key key (pc_history c) q = Ok r" "prompt_ok (pc_history c) r"
    using prompt_ok_edit_key [OF q(2)] by blast
  show ?thesis
    using Some ok(2) q r
    by (cases b) (auto simp: wp_def handle_prompt_key_def prompt_client_ok_def commit_command_prompt_def record_history_ok)
qed

interpretation prompt: service prompt_client_default "prompt_step alnum quote" "\<lambda>_ _. True" prompt_client_ok
proof unfold_locales
  show "prompt_client_ok prompt_client_default"
    by (simp add: prompt_client_ok_def prompt_client_default_def history_ok_def)
  fix c r
  assume ok: "prompt_client_ok c"
  show "wp (prompt_step alnum quote r) (\<lambda>_. prompt_client_ok) (\<lambda>_. prompt_client_ok) c"
  proof (cases r)
    case (OpenPrompt keys label initial template)
    then show ?thesis
      using ok by (auto simp: wp_def prompt_client_ok_def open_prompt_def prompt_ok_def command_prompt_new_def with_vi_keys_def
          Let_def split: status_keys.split)
  next
    case (PromptKey key)
    have "wp (handle_prompt_key alnum quote key) (\<lambda>_. prompt_client_ok) (\<lambda>_. prompt_client_ok) c"
      by (rule wp_mono [OF handle_prompt_key_ok [OF ok]]) simp_all
    then show ?thesis using PromptKey by simp
  next
    case (PastePrompt bytes)
    then show ?thesis
      using ok by (auto simp: wp_def prompt_client_ok_def paste_into_prompt_def prompt_ok_edits)
  qed
qed

section \<open>Pasted text\<close>

text \<open>Decoding gives back the text that was encoded, whatever scalar values it holds.\<close>

definition scalar :: "nat \<Rightarrow> bool" where
  "scalar c \<longleftrightarrow> c < 55296 \<or> 57344 \<le> c \<and> c < 1114112"

lemma utf8_step_encode:
  assumes "scalar c"
  shows "\<exists>a bs. encode_utf8 c = a # bs \<and> (\<forall>rest. utf8_step a (bs @ rest) = (c, rest))"
proof -
  define x y u v i j where d: "x = c div 64" "y = c mod 64" "u = x div 64" "v = x mod 64" "i = u div 64" "j = u mod 64"
  have c: "c = 64 * x + y" "x = 64 * u + v" "u = 64 * i + j" "y < 64" "v < 64" "j < 64"
    by (simp_all add: d)
  have e: "c div 64 = x" "c mod 64 = y" "c div 4096 = u" "x mod 64 = v" "c div 262144 = i" "u mod 64 = j"
    using div_mult2_eq [of c 64 64] div_mult2_eq [of c 64 4096] div_mult2_eq [of x 64 64] by (simp_all add: d)
  consider "c < 128" | "128 \<le> c" "c < 2048" | "2048 \<le> c" "c < 65536" | "65536 \<le> c" by linarith
  then show ?thesis
  proof cases
    case 1
    then show ?thesis by (simp add: encode_utf8_def utf8_step_def)
  next
    case 2
    then have r: "2 \<le> x" "x < 32" using c by linarith+
    have "encode_utf8 c = [192 + x, 128 + y]" using 2 by (simp add: encode_utf8_def e)
    moreover have "utf8_step (192 + x) ([128 + y] @ rest) = (x * 64 + y, rest)" for rest
      using r c(4) by (simp add: utf8_step_def continuation_def)
    ultimately show ?thesis using c(1) by (simp add: mult.commute)
  next
    case 3
    then have u: "u < 16" and z: "u = 0 \<Longrightarrow> 32 \<le> v" and s: "u = 13 \<Longrightarrow> v < 32"
      using c assms unfolding scalar_def by linarith+
    then have "second_of_three (224 + u) (128 + v)" using c(5) by (auto simp: second_of_three_def continuation_def)
    then have "utf8_step (224 + u) ([128 + v, 128 + y] @ rest) = (u * 4096 + v * 64 + y, rest)" for rest
      using u c(4) by (simp add: utf8_step_def continuation_def)
    moreover have "encode_utf8 c = [224 + u, 128 + v, 128 + y]" using 3 by (simp add: encode_utf8_def e)
    moreover have "u * 4096 + v * 64 + y = c" using c(1,2) by simp
    ultimately show ?thesis by simp
  next
    case 4
    then have i: "i < 5" and z: "i = 0 \<Longrightarrow> 16 \<le> j" and s: "i = 4 \<Longrightarrow> j < 16"
      using c assms unfolding scalar_def by linarith+
    then have "second_of_four (240 + i) (128 + j)" using c(6) by (auto simp: second_of_four_def continuation_def)
    then have "utf8_step (240 + i) ([128 + j, 128 + v, 128 + y] @ rest) = (i * 262144 + j * 4096 + v * 64 + y, rest)" for rest
      using i c(4,5) by (simp add: utf8_step_def continuation_def)
    moreover have "encode_utf8 c = [240 + i, 128 + j, 128 + v, 128 + y]" using 4 by (simp add: encode_utf8_def e)
    moreover have "i * 262144 + j * 4096 + v * 64 + y = c" using c(1,2,3) by simp
    ultimately show ?thesis by simp
  qed
qed

lemma from_utf8_lossy_encode:
  assumes "list_all scalar s"
  shows "from_utf8_lossy (concat (map encode_utf8 s)) = s"
  using assms
proof (induction s)
  case (Cons c s)
  obtain a bs where "encode_utf8 c = a # bs" "\<And>rest. utf8_step a (bs @ rest) = (c, rest)"
    using utf8_step_encode [of c] Cons.prems by auto
  with Cons show ?case by simp
qed simp

end
