(* ===== verification/Copy_Mode.thy ===== *)
theory Copy_Mode
  imports Client_State "HOL-Library.Product_Lexorder"
begin

text \<open>
  Copy mode (\<open>crates/embers-client/src/copy_mode.rs\<close>, and the loops of \<open>configured_client.rs\<close> that run it):
  motions of a cursor over the captured text of a buffer, jumps to a character, the word under a click, the
  next search match, and counting clicks and digits.
  How a line splits into grapheme clusters and how wide each is displayed come from the crates
  \<open>unicode-segmentation\<close> and \<open>unicode-width\<close>: they are an argument \<open>u\<close> of the definitions.
\<close>

record unicode_lib =
  graphemes :: "rstring \<Rightarrow> rstring list"
  display_width :: "rstring \<Rightarrow> nat"

definition u32_max :: nat where "u32_max = 4294967295"

definition max_count :: nat where "max_count = 99999"

definition multi_click_interval :: nat where "multi_click_interval = 300000000"

datatype copy_motion =
    MoveLeft | MoveRight | MoveUp | MoveDown
  | NextWord | PreviousWord | NextWordEnd | NextSpace | PreviousSpace | NextSpaceEnd
  | StartOfLine | BackToIndentation | EndOfLine
  | HistoryTop | HistoryBottom | TopLine | MiddleLine | BottomLine
  | PreviousParagraph | NextParagraph
  | HalfPageUp | HalfPageDown | PageUp | PageDown

definition needs_text :: "copy_motion \<Rightarrow> bool" where
  "needs_text motion \<longleftrightarrow>
     motion \<in> {NextWord, PreviousWord, NextWordEnd, NextSpace, PreviousSpace, NextSpaceEnd, BackToIndentation, EndOfLine,
       PreviousParagraph, NextParagraph}"

definition motion_repeats :: "copy_motion \<Rightarrow> bool" where
  "motion_repeats motion \<longleftrightarrow>
     motion \<notin> {StartOfLine, BackToIndentation, EndOfLine, HistoryTop, HistoryBottom, TopLine, MiddleLine, BottomLine}"

datatype jump_kind = JumpForward | JumpBackward | ToForward | ToBackward

fun jump_reversed :: "jump_kind \<Rightarrow> jump_kind" where
  "jump_reversed JumpForward = JumpBackward"
| "jump_reversed JumpBackward = JumpForward"
| "jump_reversed ToForward = ToBackward"
| "jump_reversed ToBackward = ToForward"

record copy_viewport =
  vp_top :: nat
  vp_rows :: nat
  vp_total :: nat
  vp_cols :: nat

definition vp_last_line :: "copy_viewport \<Rightarrow> nat" where
  "vp_last_line vp = vp_total vp - 1"

definition bottom_top :: "copy_viewport \<Rightarrow> nat" where
  "bottom_top vp = vp_total vp - vp_rows vp"

definition reveal :: "copy_viewport \<Rightarrow> nat \<Rightarrow> nat \<Rightarrow> nat" where
  "reveal vp t line =
     (let rs = max (vp_rows vp) 1;
          t = (if line < t then line else if line \<ge> sat_add u64_max t rs then line - (rs - 1) else t)
      in min t (bottom_top vp))"

record motion_outcome =
  mo_cursor :: selection_point
  mo_top :: nat

section \<open>Lines as cells\<close>

record text_cell =
  ce_column :: nat
  ce_width :: nat
  ce_text :: rstring

definition line_text :: "rstring list \<Rightarrow> nat \<Rightarrow> rstring" where
  "line_text ls line = (if line < length ls then ls ! line else [])"

fun cells_from :: "unicode_lib \<Rightarrow> nat \<Rightarrow> rstring list \<Rightarrow> text_cell list" where
  "cells_from u column [] = []"
| "cells_from u column (t # ts) =
     (let w = max (min (display_width u t) u16_max) 1
      in \<lparr>ce_column = column, ce_width = w, ce_text = t\<rparr> # cells_from u (sat_add u16_max column w) ts)"

definition cells :: "unicode_lib \<Rightarrow> rstring \<Rightarrow> text_cell list" where
  "cells u line = cells_from u 0 (graphemes u line)"

text \<open>\<open>Iterator::position\<close>, or the length when nothing is found.\<close>

fun find_index :: "('a \<Rightarrow> bool) \<Rightarrow> 'a list \<Rightarrow> nat" where
  "find_index p [] = 0"
| "find_index p (x # xs) = (if p x then 0 else Suc (find_index p xs))"

definition cell_index :: "text_cell list \<Rightarrow> nat \<Rightarrow> nat" where
  "cell_index cs column = find_index (\<lambda>c. column < sat_add u16_max (ce_column c) (ce_width c)) cs"

datatype copy_class = BlankCell | SeparatorCell | WordCell

definition is_ascii_punctuation :: "nat \<Rightarrow> bool" where
  "is_ascii_punctuation c \<longleftrightarrow>
     33 \<le> c \<and> c \<le> 47 \<or> 58 \<le> c \<and> c \<le> 64 \<or> 91 \<le> c \<and> c \<le> 96 \<or> 123 \<le> c \<and> c \<le> 126"

definition class_of :: "rstring \<Rightarrow> bool \<Rightarrow> copy_class" where
  "class_of t space_separated =
     (case t of
        [] \<Rightarrow> BlankCell
      | ch # _ \<Rightarrow>
          if is_whitespace ch then BlankCell
          else if \<not> space_separated \<and> is_ascii_punctuation ch \<and> ch \<noteq> 95 then SeparatorCell
          else WordCell)"

definition last_column :: "text_cell list \<Rightarrow> nat" where
  "last_column cs = (if cs = [] then 0 else ce_column (last cs))"

section \<open>Walking the text\<close>

record walker =
  wk_lines :: "rstring list"
  wk_last_line :: nat
  wk_space :: bool
  wk_line :: nat
  wk_cells :: "text_cell list"
  wk_index :: nat

definition walker_new :: "unicode_lib \<Rightarrow> rstring list \<Rightarrow> nat \<Rightarrow> selection_point \<Rightarrow> bool \<Rightarrow> walker" where
  "walker_new u ls last_line at space =
     (let line = min (pt_line at) last_line;
          cs = cells u (line_text ls line)
      in \<lparr>wk_lines = ls, wk_last_line = last_line, wk_space = space, wk_line = line, wk_cells = cs,
          wk_index = cell_index cs (pt_column at)\<rparr>)"

definition class_at :: "walker \<Rightarrow> nat \<Rightarrow> copy_class" where
  "class_at w i = (if i < length (wk_cells w) then class_of (ce_text (wk_cells w ! i)) (wk_space w) else BlankCell)"

definition walker_class :: "walker \<Rightarrow> copy_class" where
  "walker_class w = class_at w (wk_index w)"

definition on_empty_line :: "walker \<Rightarrow> bool" where
  "on_empty_line w \<longleftrightarrow> wk_cells w = []"

definition walker_load :: "unicode_lib \<Rightarrow> nat \<Rightarrow> walker \<Rightarrow> walker" where
  "walker_load u line w = w\<lparr>wk_line := line, wk_cells := cells u (line_text (wk_lines w) line)\<rparr>"

definition forward :: "unicode_lib \<Rightarrow> walker \<Rightarrow> walker option" where
  "forward u w =
     (if wk_index w < length (wk_cells w) then Some (w\<lparr>wk_index := wk_index w + 1\<rparr>)
      else if wk_line w < wk_last_line w then Some ((walker_load u (wk_line w + 1) w)\<lparr>wk_index := 0\<rparr>)
      else None)"

definition backward :: "unicode_lib \<Rightarrow> walker \<Rightarrow> walker option" where
  "backward u w =
     (if wk_index w > 0 then Some (w\<lparr>wk_index := wk_index w - 1\<rparr>)
      else if wk_line w > 0 then
        let w' = walker_load u (wk_line w - 1) w in Some (w'\<lparr>wk_index := length (wk_cells w')\<rparr>)
      else None)"

definition walker_point :: "walker \<Rightarrow> selection_point" where
  "walker_point w =
     (let i = min (wk_index w) (length (wk_cells w) - 1)
      in \<lparr>pt_line = wk_line w, pt_column = (if i < length (wk_cells w) then ce_column (wk_cells w ! i) else 0)\<rparr>)"

text \<open>The loops that go on while a condition holds; they report whether it failed before the text ended.\<close>

function forward_while :: "unicode_lib \<Rightarrow> (walker \<Rightarrow> bool) \<Rightarrow> walker \<Rightarrow> bool \<times> walker" where
  "forward_while u p w =
     (if p w then case forward u w of None \<Rightarrow> (False, w) | Some w' \<Rightarrow> forward_while u p w' else (True, w))"
  by pat_completeness auto
termination
  by (relation "inv_image (less_than <*lex*> less_than) (\<lambda>(u, p, w). (wk_last_line w - wk_line w, length (wk_cells w) - wk_index w))")
    (auto simp: forward_def walker_load_def split: if_splits)

function backward_while :: "unicode_lib \<Rightarrow> (walker \<Rightarrow> bool) \<Rightarrow> walker \<Rightarrow> bool \<times> walker" where
  "backward_while u p w =
     (if p w then case backward u w of None \<Rightarrow> (False, w) | Some w' \<Rightarrow> backward_while u p w' else (True, w))"
  by pat_completeness auto
termination
  by (relation "inv_image (less_than <*lex*> less_than) (\<lambda>(u, p, w). (wk_line w, wk_index w))")
    (auto simp: backward_def walker_load_def Let_def split: if_splits)

declare forward_while.simps [simp del] backward_while.simps [simp del]

definition copy_next_word_start :: "unicode_lib \<Rightarrow> rstring list \<Rightarrow> nat \<Rightarrow> selection_point \<Rightarrow> bool \<Rightarrow> selection_point" where
  "copy_next_word_start u ls last_line at space =
     (let w = walker_new u ls last_line at space;
          start = walker_class w
      in case forward u w of
           None \<Rightarrow> walker_point w
         | Some w1 \<Rightarrow>
             let (going, w2) = (if start \<noteq> BlankCell then forward_while u (\<lambda>w. walker_class w = start) w1 else (True, w1))
             in if \<not> going then walker_point w2
                else walker_point (snd (forward_while u (\<lambda>w. walker_class w = BlankCell \<and> \<not> on_empty_line w) w2)))"

text \<open>The loop of \<open>next_word_end\<close> within a line, which ends only because the class it follows is not blank.\<close>

partial_function (option) word_end_index :: "walker \<Rightarrow> copy_class \<Rightarrow> nat \<Rightarrow> nat option" where
  "word_end_index w c i = (if class_at w (i + 1) = c then word_end_index w c (i + 1) else Some i)"

definition copy_next_word_end :: "unicode_lib \<Rightarrow> rstring list \<Rightarrow> nat \<Rightarrow> selection_point \<Rightarrow> bool \<Rightarrow> selection_point option" where
  "copy_next_word_end u ls last_line at space =
     (let w = walker_new u ls last_line at space
      in case forward u w of
           None \<Rightarrow> Some (walker_point w)
         | Some w1 \<Rightarrow>
             let (going, w2) = forward_while u (\<lambda>w. walker_class w = BlankCell) w1
             in if \<not> going then Some (walker_point w2)
                else map_option (\<lambda>i. walker_point (w2\<lparr>wk_index := i\<rparr>)) (word_end_index w2 (walker_class w2) (wk_index w2)))"

fun word_start_index :: "walker \<Rightarrow> copy_class \<Rightarrow> nat \<Rightarrow> nat" where
  "word_start_index w c 0 = 0"
| "word_start_index w c (Suc i) = (if class_at w i = c then word_start_index w c i else Suc i)"

definition copy_previous_word_start :: "unicode_lib \<Rightarrow> rstring list \<Rightarrow> nat \<Rightarrow> selection_point \<Rightarrow> bool \<Rightarrow> selection_point" where
  "copy_previous_word_start u ls last_line at space =
     (let w = walker_new u ls last_line at space
      in case backward u w of
           None \<Rightarrow> walker_point w
         | Some w1 \<Rightarrow>
             let (going, w2) = backward_while u (\<lambda>w. walker_class w = BlankCell \<and> \<not> on_empty_line w) w1
             in if \<not> going then walker_point w2
                else if on_empty_line w2 then walker_point w2
                else walker_point (w2\<lparr>wk_index := word_start_index w2 (walker_class w2) (wk_index w2)\<rparr>))"

section \<open>Paragraphs\<close>

definition is_blank_line :: "rstring list \<Rightarrow> nat \<Rightarrow> bool" where
  "is_blank_line ls line \<longleftrightarrow> trim (line_text ls line) = []"

fun up_while :: "(nat \<Rightarrow> bool) \<Rightarrow> nat \<Rightarrow> nat" where
  "up_while p 0 = 0"
| "up_while p (Suc line) = (if p (Suc line) then up_while p line else Suc line)"

fun find_above :: "(nat \<Rightarrow> bool) \<Rightarrow> nat \<Rightarrow> nat option" where
  "find_above p 0 = None"
| "find_above p (Suc line) = (if p line then Some line else find_above p line)"

definition previous_paragraph :: "rstring list \<Rightarrow> selection_point \<Rightarrow> selection_point" where
  "previous_paragraph ls cursor =
     (case find_above (is_blank_line ls) (up_while (is_blank_line ls) (pt_line cursor)) of
        Some line \<Rightarrow> \<lparr>pt_line = line, pt_column = 0\<rparr>
      | None \<Rightarrow> \<lparr>pt_line = 0, pt_column = 0\<rparr>)"

function down_while :: "(nat \<Rightarrow> bool) \<Rightarrow> nat \<Rightarrow> nat \<Rightarrow> nat" where
  "down_while p last_line line = (if line < last_line \<and> p line then down_while p last_line (line + 1) else line)"
  by pat_completeness auto
termination by (relation "measure (\<lambda>(p, last_line, line). last_line - line)") auto

function find_below :: "(nat \<Rightarrow> bool) \<Rightarrow> nat \<Rightarrow> nat \<Rightarrow> nat option" where
  "find_below p last_line line =
     (if line < last_line then if p (line + 1) then Some (line + 1) else find_below p last_line (line + 1) else None)"
  by pat_completeness auto
termination by (relation "measure (\<lambda>(p, last_line, line). last_line - line)") auto

declare down_while.simps [simp del] find_below.simps [simp del]

definition next_paragraph :: "unicode_lib \<Rightarrow> rstring list \<Rightarrow> nat \<Rightarrow> selection_point \<Rightarrow> selection_point" where
  "next_paragraph u ls last_line cursor =
     (case find_below (is_blank_line ls) last_line (down_while (is_blank_line ls) last_line (pt_line cursor)) of
        Some line \<Rightarrow> \<lparr>pt_line = line, pt_column = 0\<rparr>
      | None \<Rightarrow> \<lparr>pt_line = last_line, pt_column = last_column (cells u (line_text ls last_line))\<rparr>)"

section \<open>Motions\<close>

definition page_delta :: "copy_motion \<Rightarrow> nat \<Rightarrow> nat" where
  "page_delta motion rs =
     (let rs = max rs 1 in if motion = HalfPageUp \<or> motion = HalfPageDown then max (rs div 2) 1 else rs)"

definition indentation :: "text_cell list \<Rightarrow> nat" where
  "indentation cs = (case find (\<lambda>c. class_of (ce_text c) True \<noteq> BlankCell) cs of Some c \<Rightarrow> ce_column c | None \<Rightarrow> 0)"

text \<open>The cursor and the scroll position before the view is moved to show the cursor.\<close>

definition moved :: "unicode_lib \<Rightarrow> copy_motion \<Rightarrow> selection_point \<Rightarrow> copy_viewport \<Rightarrow> rstring list \<Rightarrow> (selection_point \<times> nat) option" where
  "moved u motion cursor vp ls =
     (let last_line = vp_last_line vp;
          t = vp_top vp;
          delta = page_delta motion (vp_rows vp)
      in case motion of
           MoveLeft \<Rightarrow> Some (cursor\<lparr>pt_column := pt_column cursor - 1\<rparr>, t)
         | MoveRight \<Rightarrow> Some (cursor\<lparr>pt_column := min (sat_add u16_max (pt_column cursor) 1) (vp_cols vp - 1)\<rparr>, t)
         | MoveUp \<Rightarrow> Some (cursor\<lparr>pt_line := pt_line cursor - 1\<rparr>, t)
         | MoveDown \<Rightarrow> Some (cursor\<lparr>pt_line := min (sat_add u64_max (pt_line cursor) 1) last_line\<rparr>, t)
         | NextWord \<Rightarrow> Some (copy_next_word_start u ls last_line cursor False, t)
         | NextSpace \<Rightarrow> Some (copy_next_word_start u ls last_line cursor True, t)
         | PreviousWord \<Rightarrow> Some (copy_previous_word_start u ls last_line cursor False, t)
         | PreviousSpace \<Rightarrow> Some (copy_previous_word_start u ls last_line cursor True, t)
         | NextWordEnd \<Rightarrow> map_option (\<lambda>c. (c, t)) (copy_next_word_end u ls last_line cursor False)
         | NextSpaceEnd \<Rightarrow> map_option (\<lambda>c. (c, t)) (copy_next_word_end u ls last_line cursor True)
         | StartOfLine \<Rightarrow> Some (cursor\<lparr>pt_column := 0\<rparr>, t)
         | BackToIndentation \<Rightarrow> Some (cursor\<lparr>pt_column := indentation (cells u (line_text ls (pt_line cursor)))\<rparr>, t)
         | EndOfLine \<Rightarrow> Some (cursor\<lparr>pt_column := last_column (cells u (line_text ls (pt_line cursor)))\<rparr>, t)
         | HistoryTop \<Rightarrow> Some (\<lparr>pt_line = 0, pt_column = 0\<rparr>, t)
         | HistoryBottom \<Rightarrow> Some (\<lparr>pt_line = last_line, pt_column = 0\<rparr>, t)
         | TopLine \<Rightarrow> Some (\<lparr>pt_line = t, pt_column = 0\<rparr>, t)
         | MiddleLine \<Rightarrow>
             Some (\<lparr>pt_line = min (sat_add u64_max t ((max (vp_rows vp) 1 - 1) div 2)) last_line, pt_column = 0\<rparr>, t)
         | BottomLine \<Rightarrow>
             Some (\<lparr>pt_line = min (sat_add u64_max t (max (vp_rows vp) 1 - 1)) last_line, pt_column = 0\<rparr>, t)
         | PreviousParagraph \<Rightarrow> Some (previous_paragraph ls cursor, t)
         | NextParagraph \<Rightarrow> Some (next_paragraph u ls last_line cursor, t)
         | HalfPageUp \<Rightarrow> Some (cursor\<lparr>pt_line := pt_line cursor - delta\<rparr>, t - delta)
         | PageUp \<Rightarrow> Some (cursor\<lparr>pt_line := pt_line cursor - delta\<rparr>, t - delta)
         | HalfPageDown \<Rightarrow>
             Some (cursor\<lparr>pt_line := min (sat_add u64_max (pt_line cursor) delta) last_line\<rparr>, min (sat_add u64_max t delta) (bottom_top vp))
         | PageDown \<Rightarrow>
             Some (cursor\<lparr>pt_line := min (sat_add u64_max (pt_line cursor) delta) last_line\<rparr>, min (sat_add u64_max t delta) (bottom_top vp)))"

definition apply_motion :: "unicode_lib \<Rightarrow> copy_motion \<Rightarrow> selection_point \<Rightarrow> copy_viewport \<Rightarrow> rstring list \<Rightarrow> motion_outcome option" where
  "apply_motion u motion cursor vp ls =
     map_option (\<lambda>(c, t). \<lparr>mo_cursor = c, mo_top = reveal vp t (pt_line c)\<rparr>) (moved u motion cursor vp ls)"

text \<open>The loop of \<open>copy_motion\<close>: a counted motion, which stops once it changes nothing.\<close>

primrec repeat_motion :: "unicode_lib \<Rightarrow> copy_motion \<Rightarrow> copy_viewport \<Rightarrow> rstring list \<Rightarrow> nat \<Rightarrow> motion_outcome \<Rightarrow> motion_outcome option" where
  "repeat_motion u motion vp ls 0 out = Some out"
| "repeat_motion u motion vp ls (Suc n) out =
     (case apply_motion u motion (mo_cursor out) (vp\<lparr>vp_top := mo_top out\<rparr>) ls of
        None \<Rightarrow> None
      | Some out' \<Rightarrow> if out' = out then Some out else repeat_motion u motion vp ls n out')"

definition counted_motion :: "unicode_lib \<Rightarrow> copy_motion \<Rightarrow> nat \<Rightarrow> selection_point \<Rightarrow> copy_viewport \<Rightarrow> rstring list \<Rightarrow> motion_outcome option" where
  "counted_motion u motion count cursor vp ls =
     repeat_motion u motion vp ls (if motion_repeats motion then max count 1 else 1) \<lparr>mo_cursor = cursor, mo_top = vp_top vp\<rparr>"

section \<open>Jumps, words under a click, and search matches\<close>

definition find_from :: "nat \<Rightarrow> nat \<Rightarrow> (nat \<Rightarrow> bool) \<Rightarrow> nat option" where
  "find_from a b p = find p [a..<b]"

definition find_back :: "nat \<Rightarrow> (nat \<Rightarrow> bool) \<Rightarrow> nat option" where
  "find_back b p = find p (rev [0..<b])"

text \<open>Indexing the cells panics out of their range.\<close>

definition jump :: "unicode_lib \<Rightarrow> jump_kind \<Rightarrow> nat \<Rightarrow> selection_point \<Rightarrow> rstring \<Rightarrow> bool \<Rightarrow> nat option res" where
  "jump u kind target cursor line repeat =
     (let cs = cells u line;
          index = min (cell_index cs (pt_column cursor)) (length cs);
          skip = (if repeat then 1 else 0);
          is_target = (\<lambda>i. ce_text (cs ! i) = [target]);
          found = (case kind of
             JumpForward \<Rightarrow> find_from (index + 1) (length cs) is_target
           | ToForward \<Rightarrow> map_option (\<lambda>i. i - 1) (find_from (index + 1 + skip) (length cs) is_target)
           | JumpBackward \<Rightarrow> find_back index is_target
           | ToBackward \<Rightarrow> map_option (\<lambda>i. i + 1) (find_back (index - skip) is_target))
      in case found of
           None \<Rightarrow> Ok None
         | Some i \<Rightarrow> if i < length cs then Ok (Some (ce_column (cs ! i))) else Panic)"

text \<open>The loop of \<open>copy_jump\<close>.\<close>

primrec repeat_jump :: "unicode_lib \<Rightarrow> jump_kind \<Rightarrow> nat \<Rightarrow> selection_point \<Rightarrow> rstring \<Rightarrow> nat \<Rightarrow> bool \<Rightarrow> nat \<Rightarrow> nat res" where
  "repeat_jump u kind target cursor line 0 repeat column = Ok column"
| "repeat_jump u kind target cursor line (Suc n) repeat column =
     rbind (jump u kind target (cursor\<lparr>pt_column := column\<rparr>) line repeat) (\<lambda>next.
       case next of None \<Rightarrow> Ok column | Some column' \<Rightarrow> repeat_jump u kind target cursor line n True column')"

definition counted_jump :: "unicode_lib \<Rightarrow> jump_kind \<Rightarrow> nat \<Rightarrow> nat \<Rightarrow> selection_point \<Rightarrow> rstring \<Rightarrow> bool \<Rightarrow> selection_point res" where
  "counted_jump u kind target count cursor line repeat =
     rbind (repeat_jump u kind target cursor line (max count 1) repeat (pt_column cursor)) (\<lambda>column.
       Ok (cursor\<lparr>pt_column := column\<rparr>))"

fun run_start :: "(nat \<Rightarrow> bool) \<Rightarrow> nat \<Rightarrow> nat" where
  "run_start p 0 = 0"
| "run_start p (Suc i) = (if p i then run_start p i else Suc i)"

function run_end :: "(nat \<Rightarrow> bool) \<Rightarrow> nat \<Rightarrow> nat \<Rightarrow> nat" where
  "run_end p len i = (if i + 1 < len \<and> p (i + 1) then run_end p len (i + 1) else i)"
  by pat_completeness auto
termination by (relation "measure (\<lambda>(p, len, i). len - i)") auto

declare run_end.simps [simp del]

definition word_bounds :: "unicode_lib \<Rightarrow> rstring \<Rightarrow> nat \<Rightarrow> (nat \<times> nat) option" where
  "word_bounds u line column =
     (let cs = cells u line;
          index = cell_index cs column
      in if index < length cs then
           let c = class_of (ce_text (cs ! index)) False;
               p = (\<lambda>i. class_of (ce_text (cs ! i)) False = c)
           in Some (ce_column (cs ! run_start p index), ce_column (cs ! run_end p (length cs) index))
         else None)"

definition match_position :: "search_match \<Rightarrow> nat \<times> nat" where
  "match_position m = (sm_line m, sm_start_column m)"

definition next_match_index :: "search_match list \<Rightarrow> selection_point \<Rightarrow> bool \<Rightarrow> nat option" where
  "next_match_index ms cursor fwd =
     (let at = (pt_line cursor, pt_column cursor)
      in if ms = [] then None
         else if fwd then
           Some (case find_from 0 (length ms) (\<lambda>i. at < match_position (ms ! i)) of Some i \<Rightarrow> i | None \<Rightarrow> 0)
         else
           Some (case find_back (length ms) (\<lambda>i. match_position (ms ! i) < at) of Some i \<Rightarrow> i | None \<Rightarrow> length ms - 1))"

text \<open>The loop of \<open>navigate_search\<close>: from the cursor in copy mode, otherwise from the active match.\<close>

definition next_match :: "search_match list \<Rightarrow> bool \<Rightarrow> selection_point option \<times> nat option \<Rightarrow> selection_point option \<times> nat option" where
  "next_match ms fwd st =
     (let next = (case fst st of
            Some at \<Rightarrow> (case next_match_index ms at fwd of Some i \<Rightarrow> i | None \<Rightarrow> 0)
          | None \<Rightarrow>
              let current = (case snd st of Some i \<Rightarrow> i | None \<Rightarrow> 0)
              in if fwd then (current + 1) mod length ms
                 else if current = 0 then length ms - 1
                 else current - 1)
      in (map_option (\<lambda>_. \<lparr>pt_line = sm_line (ms ! next), pt_column = sm_start_column (ms ! next)\<rparr>) (fst st), Some next))"

definition navigate_search :: "search_match list \<Rightarrow> bool \<Rightarrow> nat \<Rightarrow> selection_point option \<Rightarrow> nat option \<Rightarrow> nat option" where
  "navigate_search ms fwd count cursor active =
     (if ms = [] then None
      else snd ((next_match ms fwd ^^ ((max count 1 - 1) mod length ms + 1)) (cursor, active)))"

section \<open>Clicks and counts\<close>

text \<open>An \<open>Instant\<close> is a number of nanoseconds.\<close>

type_synonym click = "node_id \<times> selection_point \<times> nat \<times> nat"

definition press :: "click option \<Rightarrow> node_id \<Rightarrow> selection_point \<Rightarrow> nat \<Rightarrow> nat \<times> click option" where
  "press lst node point now =
     (let count = (case lst of
            Some (last_node, last_point, at, count) \<Rightarrow>
              if last_node = node \<and> last_point = point \<and> count < 3 \<and> now - at \<le> multi_click_interval then count + 1 else 1
          | None \<Rightarrow> 1)
      in (count, Some (node, point, now, count)))"

record captured_text =
  ct_buffer_id :: buffer_id
  ct_sequence :: nat
  ct_lines :: "rstring list"

record mouse_selection =
  ms_node_id :: node_id
  ms_anchor :: selection_point
  ms_dragging :: bool

record copy_mode_state =
  cm_pending_count :: "nat option"
  cm_active_count :: "nat option"
  cm_pending_jump :: "(jump_kind \<times> nat) option"
  cm_last_jump :: "(jump_kind \<times> nat) option"
  cm_search_backward :: bool
  cm_text :: "captured_text option"
  cm_clicks :: "click option"
  cm_mouse :: "mouse_selection option"
  cm_exit_at_bottom :: bool

definition push_count_digit :: "nat \<Rightarrow> copy_mode_state \<Rightarrow> copy_mode_state" where
  "push_count_digit digit st =
     (let count = sat_add u32_max (sat_mul u32_max (case cm_pending_count st of Some n \<Rightarrow> n | None \<Rightarrow> 0) 10) digit
      in st\<lparr>cm_pending_count := Some (min count max_count)\<rparr>)"

definition take_count :: "copy_mode_state \<Rightarrow> nat \<times> copy_mode_state" where
  "take_count st = (max (case cm_active_count st of Some n \<Rightarrow> n | None \<Rightarrow> 1) 1, st\<lparr>cm_active_count := None\<rparr>)"

definition copy_clear_pending :: "copy_mode_state \<Rightarrow> copy_mode_state" where
  "copy_clear_pending st = st\<lparr>cm_pending_count := None, cm_active_count := None, cm_pending_jump := None\<rparr>"

end
