(* ===== verification/Copy_Motions.thy ===== *)
theory Copy_Motions
  imports Copy_Mode
begin

text \<open>
  What copy mode's motions do. The word motions are specified on the places of the text, in reading order:
  \<open>w\<close> goes to the first start of a word after the cursor, \<open>e\<close> to the first end, \<open>b\<close> to the last start before
  it. Every motion keeps the cursor in the buffer and the view on the cursor.
\<close>

section \<open>Walking in one direction\<close>

text \<open>
  The interface of a walk over an ordered set of places: a step to the next place, and a loop that steps on
  while a condition holds. The loop stops at the first place where the condition fails, or at the last.
\<close>

locale walk =
  fixes step :: "'w \<Rightarrow> 'w option" and valid :: "'w \<Rightarrow> bool" and before :: "'w \<Rightarrow> 'w \<Rightarrow> bool"
    and walk_while :: "('w \<Rightarrow> bool) \<Rightarrow> 'w \<Rightarrow> bool \<times> 'w"
  assumes steps_end: "wf {(w', w). step w = Some w'}"
    and walk_while: "walk_while p w =
      (if p w then case step w of None \<Rightarrow> (False, w) | Some w' \<Rightarrow> walk_while p w' else (True, w))"
    and step_valid: "valid w \<Longrightarrow> step w = Some w' \<Longrightarrow> valid w'"
    and step_before: "valid w \<Longrightarrow> step w = Some w' \<Longrightarrow> before w w'"
    and step_next: "valid w \<Longrightarrow> step w = Some w' \<Longrightarrow> valid v \<Longrightarrow> before w v \<Longrightarrow> v = w' \<or> before w' v"
    and step_last: "valid w \<Longrightarrow> step w = None \<Longrightarrow> valid v \<Longrightarrow> \<not> before w v"
    and before_trans: "before a b \<Longrightarrow> before b c \<Longrightarrow> before a c"
    and before_irrefl: "\<not> before w w"
begin

lemma walk_while_first:
  assumes "valid w" and "walk_while p w = (going, w')"
  shows "valid w' \<and> (w' = w \<or> before w w') \<and> (\<forall>v. valid v \<longrightarrow> v = w \<or> before w v \<longrightarrow> before v w' \<longrightarrow> p v) \<and>
    (if going then \<not> p w' else p w' \<and> (\<forall>v. valid v \<longrightarrow> \<not> before w' v))"
  using assms
proof (induction w rule: wf_induct_rule [OF steps_end])
  case (1 w)
  show ?case
  proof (cases "p w")
    case False
    then show ?thesis using "1.prems" walk_while [of p w] before_irrefl before_trans by auto
  next
    case True
    show ?thesis
    proof (cases "step w")
      case None
      then show ?thesis using True "1.prems" walk_while [of p w] before_irrefl before_trans step_last [of w] by auto
    next
      case (Some w1)
      have IH: "valid w' \<and> (w' = w1 \<or> before w1 w') \<and> (\<forall>v. valid v \<longrightarrow> v = w1 \<or> before w1 v \<longrightarrow> before v w' \<longrightarrow> p v) \<and>
          (if going then \<not> p w' else p w' \<and> (\<forall>v. valid v \<longrightarrow> \<not> before w' v))"
        using "1.IH" [of w1] Some True "1.prems" walk_while [of p w] step_valid by auto
      have "before w w'" using IH step_before [OF "1.prems"(1) Some] before_trans by blast
      moreover have "p v" if "valid v" "v = w \<or> before w v" "before v w'" for v
        using IH True step_next [OF "1.prems"(1) Some that(1)] that by blast
      ultimately show ?thesis using IH by blast
    qed
  qed
qed

end

section \<open>The places of the text\<close>

definition walker_ok :: "unicode_lib \<Rightarrow> rstring list \<Rightarrow> nat \<Rightarrow> bool \<Rightarrow> walker \<Rightarrow> bool" where
  "walker_ok u ls last_line space w \<longleftrightarrow>
     wk_lines w = ls \<and> wk_last_line w = last_line \<and> wk_space w = space \<and> wk_line w \<le> last_line \<and>
     wk_cells w = cells u (line_text ls (wk_line w)) \<and> wk_index w \<le> length (wk_cells w)"

definition place :: "walker \<Rightarrow> nat \<times> nat" where
  "place w = (wk_line w, wk_index w)"

definition walker_before :: "walker \<Rightarrow> walker \<Rightarrow> bool" where
  "walker_before v w \<longleftrightarrow> place v < place w"

lemma walker_before_irrefl [simp]: "\<not> walker_before w w"
  by (simp add: walker_before_def)

lemma walker_before_trans: "walker_before a b \<Longrightarrow> walker_before b c \<Longrightarrow> walker_before a c"
  unfolding walker_before_def by (rule less_trans)

lemma walker_before_asym: "walker_before a b \<Longrightarrow> walker_before b a \<Longrightarrow> False"
  unfolding walker_before_def by (rule less_asym)

lemma walker_ok_eq:
  assumes "walker_ok u ls ll sp v" and "walker_ok u ls ll sp w" and "place v = place w"
  shows "v = w"
  using assms by (auto simp: walker_ok_def place_def)

lemma find_index_le: "find_index p xs \<le> length xs"
  by (induction xs) auto

lemma walker_new_ok: "walker_ok u ls ll sp (walker_new u ls ll at sp)"
  by (simp add: walker_ok_def walker_new_def Let_def cell_index_def find_index_le)

lemma walker_ok_index: "walker_ok u ls ll sp w \<Longrightarrow> i \<le> length (wk_cells w) \<Longrightarrow> walker_ok u ls ll sp (w\<lparr>wk_index := i\<rparr>)"
  by (simp add: walker_ok_def)

text \<open>The place past the end of the line above.\<close>

definition line_end_above :: "unicode_lib \<Rightarrow> walker \<Rightarrow> walker" where
  "line_end_above u w = (let w' = walker_load u (wk_line w - 1) w in w'\<lparr>wk_index := length (wk_cells w')\<rparr>)"

lemma line_end_above_ok: "walker_ok u ls ll sp w \<Longrightarrow> walker_ok u ls ll sp (line_end_above u w)"
  by (auto simp: line_end_above_def walker_ok_def walker_load_def Let_def)

lemma class_at_moved [simp]:
  "class_at (w\<lparr>wk_index := j\<rparr>) i = class_at w i" "walker_class (w\<lparr>wk_index := j\<rparr>) = class_at w j"
  "on_empty_line (w\<lparr>wk_index := j\<rparr>) = on_empty_line w"
  by (simp_all add: class_at_def walker_class_def on_empty_line_def)

lemma not_blank_index: "class_at w i \<noteq> BlankCell \<Longrightarrow> i < length (wk_cells w)"
  by (auto simp: class_at_def split: if_splits)

lemma line_end_above_blank: "walker_class (line_end_above u w) = BlankCell"
  by (simp add: line_end_above_def walker_class_def class_at_def Let_def)

lemma forward_Some:
  "forward u w = Some w' \<longleftrightarrow>
     wk_index w < length (wk_cells w) \<and> w' = w\<lparr>wk_index := wk_index w + 1\<rparr> \<or>
     length (wk_cells w) \<le> wk_index w \<and> wk_line w < wk_last_line w \<and> w' = (walker_load u (wk_line w + 1) w)\<lparr>wk_index := 0\<rparr>"
  by (auto simp: forward_def)

lemma backward_Some:
  "backward u w = Some w' \<longleftrightarrow>
     wk_index w > 0 \<and> w' = w\<lparr>wk_index := wk_index w - 1\<rparr> \<or> wk_index w = 0 \<and> wk_line w > 0 \<and> w' = line_end_above u w"
  by (auto simp: backward_def line_end_above_def Let_def)

lemma forward_wf: "wf {(w', w). forward u w = Some w'}"
  by (rule wf_subset [OF wf_inv_image [OF wf_lex_prod [OF wf_less_than wf_less_than],
        of "\<lambda>w. (wk_last_line w - wk_line w, length (wk_cells w) - wk_index w)"]])
    (auto simp: forward_Some walker_load_def)

lemma backward_wf: "wf {(w', w). backward u w = Some w'}"
  by (rule wf_subset [OF wf_inv_image [OF wf_lex_prod [OF wf_less_than wf_less_than], of "\<lambda>w. (wk_line w, wk_index w)"]])
    (auto simp: backward_Some line_end_above_def walker_load_def Let_def)

lemma forward_ok: "walker_ok u ls ll sp w \<Longrightarrow> forward u w = Some w' \<Longrightarrow> walker_ok u ls ll sp w'"
  by (auto simp: forward_def walker_ok_def walker_load_def split: if_splits)

lemma backward_ok: "walker_ok u ls ll sp w \<Longrightarrow> backward u w = Some w' \<Longrightarrow> walker_ok u ls ll sp w'"
  by (auto simp: backward_def walker_ok_def walker_load_def Let_def split: if_splits)

lemma forward_next:
  assumes "walker_ok u ls ll sp w" and "forward u w = Some w'" and "walker_ok u ls ll sp v" and "walker_before w v"
  shows "v = w' \<or> walker_before w' v"
proof -
  have "\<not> place v < place w'"
    using assms by (cases "wk_line v = wk_line w") (auto simp: forward_Some walker_before_def place_def walker_load_def walker_ok_def)
  then show ?thesis
    using walker_ok_eq [OF assms(3) forward_ok [OF assms(1,2)]] not_less_iff_gr_or_eq
    unfolding walker_before_def by blast
qed

lemma backward_next:
  assumes "walker_ok u ls ll sp w" and "backward u w = Some w'" and "walker_ok u ls ll sp v" and "walker_before v w"
  shows "v = w' \<or> walker_before v w'"
proof -
  have "\<not> place w' < place v"
  proof (cases "wk_index w")
    case 0
    then have w': "wk_line w > 0" "w' = line_end_above u w" using assms(2) by (auto simp: backward_Some)
    have "wk_line v < wk_line w" using assms(4) 0 by (auto simp: walker_before_def place_def)
    moreover have "wk_index v \<le> length (cells u (line_text ls (wk_line v)))" "wk_lines w = ls"
      using assms(1,3) by (auto simp: walker_ok_def)
    ultimately show ?thesis
      using w' by (cases "wk_line v = wk_line w - 1") (auto simp: place_def line_end_above_def walker_load_def Let_def)
  next
    case (Suc i)
    then show ?thesis using assms(2,4) by (auto simp: backward_Some place_def walker_before_def)
  qed
  then show ?thesis
    using walker_ok_eq [OF assms(3) backward_ok [OF assms(1,2)]] not_less_iff_gr_or_eq
    unfolding walker_before_def by blast
qed

interpretation fwd: walk "forward u" "walker_ok u ls ll sp" walker_before "forward_while u"
proof
  fix p w w' v a b c
  show "wf {(w', w). forward u w = Some w'}" by (rule forward_wf)
  show "forward_while u p w = (if p w then case forward u w of None \<Rightarrow> (False, w) | Some w' \<Rightarrow> forward_while u p w' else (True, w))"
    by (rule forward_while.simps)
  show "walker_before w w'" if "walker_ok u ls ll sp w" "forward u w = Some w'"
    using that by (auto simp: forward_def walker_before_def place_def walker_load_def split: if_splits)
  show "\<not> walker_before w v" if "walker_ok u ls ll sp w" "forward u w = None" "walker_ok u ls ll sp v"
    using that by (auto simp: forward_def walker_ok_def walker_before_def place_def split: if_splits)
qed (fact forward_ok forward_next | simp | erule (1) walker_before_trans)+

interpretation bwd: walk "backward u" "walker_ok u ls ll sp" "\<lambda>v w. walker_before w v" "backward_while u"
proof
  fix p w w' v a b c
  show "wf {(w', w). backward u w = Some w'}" by (rule backward_wf)
  show "backward_while u p w = (if p w then case backward u w of None \<Rightarrow> (False, w) | Some w' \<Rightarrow> backward_while u p w' else (True, w))"
    by (rule backward_while.simps)
  show "walker_before w' w" if "walker_ok u ls ll sp w" "backward u w = Some w'"
    using that by (auto simp: backward_def walker_before_def place_def walker_load_def Let_def split: if_splits)
  show "\<not> walker_before v w" if "walker_ok u ls ll sp w" "backward u w = None" "walker_ok u ls ll sp v"
    using that by (auto simp: backward_def walker_ok_def walker_before_def place_def Let_def split: if_splits)
qed (fact backward_ok backward_next | simp | erule (1) walker_before_trans [rotated])+

section \<open>Word motions\<close>

text \<open>An empty line is a word of its own.\<close>

definition word_starts :: "walker \<Rightarrow> bool" where
  "word_starts w \<longleftrightarrow>
     on_empty_line w \<or>
     walker_class w \<noteq> BlankCell \<and> (wk_index w = 0 \<or> class_at w (wk_index w - 1) \<noteq> walker_class w)"

definition word_ends :: "walker \<Rightarrow> bool" where
  "word_ends w \<longleftrightarrow> walker_class w \<noteq> BlankCell \<and> class_at w (wk_index w + 1) \<noteq> walker_class w"

text \<open>\<open>v\<close> is the first place after \<open>w\<close> that satisfies \<open>q\<close>, or the last place of the text when there is none.\<close>

definition first_after :: "(walker \<Rightarrow> bool) \<Rightarrow> (walker \<Rightarrow> bool) \<Rightarrow> walker \<Rightarrow> walker \<Rightarrow> bool" where
  "first_after valid q w v \<longleftrightarrow>
     valid v \<and> (\<forall>x. valid x \<longrightarrow> walker_before w x \<longrightarrow> walker_before x v \<longrightarrow> \<not> q x) \<and>
     (walker_before w v \<and> q v \<or> (\<forall>x. valid x \<longrightarrow> \<not> walker_before v x) \<and> (walker_before w v \<longrightarrow> \<not> q v))"

definition last_before :: "(walker \<Rightarrow> bool) \<Rightarrow> (walker \<Rightarrow> bool) \<Rightarrow> walker \<Rightarrow> walker \<Rightarrow> bool" where
  "last_before valid q w v \<longleftrightarrow>
     valid v \<and> (\<forall>x. valid x \<longrightarrow> walker_before v x \<longrightarrow> walker_before x w \<longrightarrow> \<not> q x) \<and>
     (walker_before v w \<and> q v \<or> (\<forall>x. valid x \<longrightarrow> \<not> walker_before x v) \<and> (walker_before v w \<longrightarrow> \<not> q v))"

text \<open>A place whose word began before it is no start.\<close>

lemma inside_word:
  assumes w: "walker_ok u ls ll sp w" and x: "walker_ok u ls ll sp x" and wx: "walker_before w x"
    and c: "c \<noteq> BlankCell" "walker_class x = c"
    and run: "\<And>y. walker_ok u ls ll sp y \<Longrightarrow> y = w \<or> walker_before w y \<Longrightarrow> walker_before y x \<Longrightarrow> walker_class y = c"
  shows "\<not> word_starts x"
proof -
  obtain y where y: "backward u x = Some y" using bwd.step_last [OF x _ w] wx by (cases "backward u x") auto
  have "walker_class y = c"
    using run backward_ok [OF x y] bwd.step_before [OF x y] backward_next [OF x y w wx] by blast
  moreover have "wk_cells x \<noteq> []" using c by (auto simp: walker_class_def class_at_def)
  ultimately show ?thesis
    using y c line_end_above_blank [of u x]
    by (auto simp: backward_Some word_starts_def on_empty_line_def)
qed

text \<open>The first walk of \<open>next_word_start\<close>: past the word under the cursor.\<close>

lemma past_word:
  assumes w: "walker_ok u ls ll sp w" and w1: "forward u w = Some w1"
    and w2: "(if walker_class w \<noteq> BlankCell then forward_while u (\<lambda>v. walker_class v = walker_class w) w1 else (True, w1)) = (going, w2)"
  shows "walker_ok u ls ll sp w2" "walker_before w w2"
    "\<And>x. walker_ok u ls ll sp x \<Longrightarrow> walker_before w x \<Longrightarrow> walker_before x w2 \<Longrightarrow> walker_class x = walker_class w \<and> walker_class w \<noteq> BlankCell"
    "going \<Longrightarrow> walker_class w = BlankCell \<or> walker_class w2 \<noteq> walker_class w"
    "\<not> going \<Longrightarrow> walker_class w \<noteq> BlankCell \<and> walker_class w2 = walker_class w \<and> (\<forall>x. walker_ok u ls ll sp x \<longrightarrow> \<not> walker_before w2 x)"
proof -
  note ok1 = fwd.step_valid [OF w w1] and b1 = fwd.step_before [OF w w1]
  have next1: "x = w1 \<or> walker_before w1 x" if "walker_ok u ls ll sp x" "walker_before w x" for x
    using fwd.step_next [OF w w1 that] .
  have all: "walker_ok u ls ll sp w2 \<and> (w2 = w1 \<or> walker_before w1 w2) \<and>
      (\<forall>x. walker_ok u ls ll sp x \<longrightarrow> x = w1 \<or> walker_before w1 x \<longrightarrow> walker_before x w2 \<longrightarrow> walker_class x = walker_class w \<and> walker_class w \<noteq> BlankCell) \<and>
      (if going then walker_class w = BlankCell \<or> walker_class w2 \<noteq> walker_class w
       else walker_class w \<noteq> BlankCell \<and> walker_class w2 = walker_class w \<and> (\<forall>x. walker_ok u ls ll sp x \<longrightarrow> \<not> walker_before w2 x))"
  proof (cases "walker_class w = BlankCell")
    case True
    then have "going" "w2 = w1" using w2 by simp_all
    moreover have "walker_before w1 x \<longrightarrow> \<not> walker_before x w1" for x using walker_before_asym by blast
    ultimately show ?thesis using True ok1 by simp
  next
    case False
    then have "forward_while u (\<lambda>v. walker_class v = walker_class w) w1 = (going, w2)" using w2 by simp
    from fwd.walk_while_first [OF ok1 this] False show ?thesis by (cases going; simp only: if_True if_False; blast)
  qed
  then show "walker_ok u ls ll sp w2" by blast
  show "walker_before w w2" using all b1 walker_before_trans by blast
  show "walker_class x = walker_class w \<and> walker_class w \<noteq> BlankCell"
    if "walker_ok u ls ll sp x" "walker_before w x" "walker_before x w2" for x
    using all next1 that by blast
  show "walker_class w = BlankCell \<or> walker_class w2 \<noteq> walker_class w" if going using all that by simp
  show "walker_class w \<noteq> BlankCell \<and> walker_class w2 = walker_class w \<and> (\<forall>x. walker_ok u ls ll sp x \<longrightarrow> \<not> walker_before w2 x)"
    if "\<not> going" using all that by simp
qed

lemma before_linear:
  assumes "walker_ok u ls ll sp v" and "walker_ok u ls ll sp w"
  shows "walker_before v w \<or> v = w \<or> walker_before w v"
  using walker_ok_eq [OF assms] less_linear unfolding walker_before_def by blast

lemma next_word_start_first:
  "\<exists>v. first_after (walker_ok u ls ll sp) word_starts (walker_new u ls ll at sp) v \<and>
     copy_next_word_start u ls ll at sp = walker_point v"
proof -
  let ?ok = "walker_ok u ls ll sp"
  let ?w = "walker_new u ls ll at sp"
  have w: "?ok ?w" by (rule walker_new_ok)
  show ?thesis
  proof (cases "forward u ?w")
    case None
    then have "first_after ?ok word_starts ?w ?w" using w fwd.step_last [OF w None] by (auto simp: first_after_def)
    then show ?thesis using None by (auto simp: copy_next_word_start_def Let_def)
  next
    case (Some w1)
    obtain going w2 where w2: "(if walker_class ?w \<noteq> BlankCell then forward_while u (\<lambda>v. walker_class v = walker_class ?w) w1 else (True, w1)) = (going, w2)"
      by fastforce
    note P = past_word [OF w Some w2]
    have no: "\<not> word_starts x" if "?ok x" "walker_before ?w x" "x = w2 \<and> \<not> going \<or> walker_before x w2" for x
    proof (rule inside_word [OF w that(1,2)])
      show "walker_class ?w \<noteq> BlankCell" "walker_class x = walker_class ?w" using P(3,5) that by blast+
      show "walker_class y = walker_class ?w" if "?ok y" "y = ?w \<or> walker_before ?w y" "walker_before y x" for y
        using P(3) [OF that(1)] that walker_before_trans [OF that(3), of w2] \<open>x = w2 \<and> \<not> going \<or> walker_before x w2\<close> by blast
    qed
    show ?thesis
    proof (cases going)
      case False
      then have "first_after ?ok word_starts ?w w2" using P no by (auto simp: first_after_def)
      then show ?thesis using False Some w2 by (auto simp: copy_next_word_start_def Let_def split: prod.split)
    next
      case True
      let ?blank = "\<lambda>v. walker_class v = BlankCell \<and> \<not> on_empty_line v"
      obtain going' w3 where w3: "forward_while u ?blank w2 = (going', w3)" by fastforce
      note Q = fwd.walk_while_first [OF P(1) w3]
      have blank: "\<not> word_starts x" if "?blank x" for x using that by (simp add: word_starts_def)
      have b3: "walker_before ?w w3" using Q P(2) walker_before_trans by blast
      have mid: "\<not> word_starts x" if "?ok x" "walker_before ?w x" "walker_before x w3" for x
        using before_linear [OF that(1) P(1)] no that Q blank by blast
      have "word_starts w3" if going'
      proof (cases "on_empty_line w3 \<or> wk_index w3 = 0")
        case True
        then show ?thesis using Q that by (auto simp: word_starts_def)
      next
        case False
        then have c3: "walker_class w3 \<noteq> BlankCell" using Q that by auto
        obtain y where y: "backward u w3 = Some y" using False by (auto simp: backward_def)
        then have y': "y = w3\<lparr>wk_index := wk_index w3 - 1\<rparr>" using False by (auto simp: backward_Some)
        have Y: "?ok y" "walker_before y w3" using Q backward_ok [OF _ y] bwd.step_before [OF _ y] by auto
        have "walker_class y \<noteq> walker_class w3"
        proof (cases "walker_before y w2")
          case True
          then have "w2 = w3" using Q backward_next [OF _ y P(1)] walker_before_asym by blast
          moreover have "y = ?w \<or> walker_before ?w y" using backward_next [OF _ y w b3] Q by blast
          then have "walker_class y = walker_class ?w" using P(3) [OF Y(1)] True by blast
          ultimately show ?thesis using P(4) [OF \<open>going\<close>] c3 by auto
        next
          case False
          then have "?blank y" using Q Y before_linear [OF Y(1) P(1)] by blast
          then show ?thesis using c3 by auto
        qed
        then show ?thesis using c3 y' by (simp add: word_starts_def)
      qed
      then have "first_after ?ok word_starts ?w w3" using Q mid b3 blank by (auto simp: first_after_def split: if_splits)
      then show ?thesis using True Some w2 w3 by (auto simp: copy_next_word_start_def Let_def split: prod.split)
    qed
  qed
qed

text \<open>The end of a word is found because the place past the last cell is blank.\<close>

lemma word_end_index_run:
  assumes "class_at w i = c" and "c \<noteq> BlankCell"
  obtains j where "word_end_index w c i = Some j" "i \<le> j" "class_at w (j + 1) \<noteq> c" "\<And>k. i \<le> k \<Longrightarrow> k \<le> j \<Longrightarrow> class_at w k = c"
  using assms
proof (induction "length (wk_cells w) - i" arbitrary: i thesis rule: less_induct)
  case less
  have i: "i < length (wk_cells w)" using not_blank_index less.prems by blast
  show ?case
  proof (cases "class_at w (i + 1) = c")
    case False
    then have "word_end_index w c i = Some i" by (simp add: word_end_index.simps)
    then show ?thesis using less.prems False by (metis le_antisym order_refl)
  next
    case True
    have "length (wk_cells w) - (i + 1) < length (wk_cells w) - i" using i by simp
    then obtain j where j: "word_end_index w c (i + 1) = Some j" "i + 1 \<le> j" "class_at w (j + 1) \<noteq> c"
      "\<And>k. i + 1 \<le> k \<Longrightarrow> k \<le> j \<Longrightarrow> class_at w k = c"
      using less.hyps [of "i + 1"] True less.prems(3) by blast
    have "word_end_index w c i = Some j" using True j(1) by (simp add: word_end_index.simps [of w c i])
    moreover have "class_at w k = c" if "i \<le> k" "k \<le> j" for k using less.prems(2) j(4) that by (cases "k = i") auto
    ultimately show ?thesis using less.prems(1) j(2,3) by force
  qed
qed

lemma word_start_index_run:
  assumes "class_at w i = c"
  shows "word_start_index w c i \<le> i" "word_start_index w c i = 0 \<or> class_at w (word_start_index w c i - 1) \<noteq> c"
    "word_start_index w c i \<le> k \<Longrightarrow> k \<le> i \<Longrightarrow> class_at w k = c"
  using assms by (induction i) (auto simp: le_Suc_eq split: if_splits)

text \<open>The places between two of one line are on that line.\<close>

lemma between_on_line:
  assumes "walker_ok u ls ll sp x" and "walker_ok u ls ll sp w"
    and "x = w\<lparr>wk_index := a\<rparr> \<or> walker_before (w\<lparr>wk_index := a\<rparr>) x" and "x = w\<lparr>wk_index := b\<rparr> \<or> walker_before x (w\<lparr>wk_index := b\<rparr>)"
  shows "x = w\<lparr>wk_index := wk_index x\<rparr>" "a \<le> wk_index x" "wk_index x \<le> b"
proof -
  have "wk_line x = wk_line w \<and> a \<le> wk_index x \<and> wk_index x \<le> b"
  proof -
    have "place (w\<lparr>wk_index := a\<rparr>) \<le> place x" "place x \<le> place (w\<lparr>wk_index := b\<rparr>)"
      using assms(3,4) unfolding walker_before_def by (metis order_refl less_imp_le)+
    then show ?thesis by (auto simp: place_def)
  qed
  then show "x = w\<lparr>wk_index := wk_index x\<rparr>" "a \<le> wk_index x" "wk_index x \<le> b"
    using assms(1,2) by (auto simp: walker_ok_def)
qed

lemma next_word_end_first:
  "\<exists>v. first_after (walker_ok u ls ll sp) word_ends (walker_new u ls ll at sp) v \<and>
     copy_next_word_end u ls ll at sp = Some (walker_point v)"
proof -
  let ?ok = "walker_ok u ls ll sp"
  let ?w = "walker_new u ls ll at sp"
  let ?blank = "\<lambda>v. walker_class v = BlankCell"
  have w: "?ok ?w" by (rule walker_new_ok)
  have blank: "\<not> word_ends x" if "?blank x" for x using that by (simp add: word_ends_def)
  show ?thesis
  proof (cases "forward u ?w")
    case None
    then have "first_after ?ok word_ends ?w ?w" using w fwd.step_last [OF w None] by (auto simp: first_after_def)
    then show ?thesis using None by (auto simp: copy_next_word_end_def Let_def)
  next
    case (Some w1)
    obtain going w2 where w2: "forward_while u ?blank w1 = (going, w2)" by fastforce
    note Q = fwd.walk_while_first [OF fwd.step_valid [OF w Some] w2]
    have b2: "walker_before ?w w2" using Q fwd.step_before [OF w Some] walker_before_trans by blast
    have no: "\<not> word_ends x" if "?ok x" "walker_before ?w x" "walker_before x w2" for x
      using Q fwd.step_next [OF w Some that(1,2)] that blank by blast
    show ?thesis
    proof (cases going)
      case False
      then have "first_after ?ok word_ends ?w w2" using Q no blank unfolding first_after_def by simp
      then show ?thesis using False Some w2 by (auto simp: copy_next_word_end_def Let_def)
    next
      case True
      let ?c = "walker_class w2"
      have c: "?c \<noteq> BlankCell" using Q True by simp
      obtain j where j: "word_end_index w2 ?c (wk_index w2) = Some j" "wk_index w2 \<le> j" "class_at w2 (j + 1) \<noteq> ?c"
        "\<And>k. wk_index w2 \<le> k \<Longrightarrow> k \<le> j \<Longrightarrow> class_at w2 k = ?c"
        using word_end_index_run [OF walker_class_def [symmetric] c] by blast
      let ?v = "w2\<lparr>wk_index := j\<rparr>"
      have v: "?ok ?v" using Q not_blank_index [of w2 j] j(2,4) c by (intro walker_ok_index) force+
      have ends: "word_ends ?v" using j(2-4) c by (simp add: word_ends_def)
      have bv: "walker_before ?w ?v"
        using b2 j(2) by (cases "wk_index w2 = j") (auto simp: walker_before_def place_def)
      have "\<not> word_ends x" if "?ok x" "walker_before ?w x" "walker_before x ?v" for x
      proof (cases "walker_before x w2")
        case False
        have ok2: "?ok w2" using Q by blast
        have "x = w2\<lparr>wk_index := wk_index w2\<rparr> \<or> walker_before (w2\<lparr>wk_index := wk_index w2\<rparr>) x"
          using before_linear [OF that(1) ok2] False by auto
        note L = between_on_line [OF that(1) ok2 this disjI2 [OF that(3)]]
        have "wk_index x \<noteq> j" using L(1) that(3) by (metis walker_before_irrefl)
        then have "class_at w2 (wk_index x) = ?c" "class_at w2 (wk_index x + 1) = ?c" using L(2,3) j(4) by simp_all
        then show ?thesis by (subst L(1)) (simp add: word_ends_def)
      qed (use no that in blast)
      then have "first_after ?ok word_ends ?w ?v" using v ends bv unfolding first_after_def by blast
      then show ?thesis using True Some w2 j(1) by (auto simp: copy_next_word_end_def Let_def)
    qed
  qed
qed

lemma previous_word_start_last:
  "\<exists>v. last_before (walker_ok u ls ll sp) word_starts (walker_new u ls ll at sp) v \<and>
     copy_previous_word_start u ls ll at sp = walker_point v"
proof -
  let ?ok = "walker_ok u ls ll sp"
  let ?w = "walker_new u ls ll at sp"
  let ?blank = "\<lambda>v. walker_class v = BlankCell \<and> \<not> on_empty_line v"
  have w: "?ok ?w" by (rule walker_new_ok)
  have blank: "\<not> word_starts x" if "?blank x" for x using that by (simp add: word_starts_def)
  show ?thesis
  proof (cases "backward u ?w")
    case None
    then have "last_before ?ok word_starts ?w ?w" using w bwd.step_last [OF w None] by (auto simp: last_before_def)
    then show ?thesis using None by (auto simp: copy_previous_word_start_def Let_def)
  next
    case (Some w1)
    obtain going w2 where w2: "backward_while u ?blank w1 = (going, w2)" by fastforce
    note Q = bwd.walk_while_first [OF bwd.step_valid [OF w Some] w2]
    have b2: "walker_before w2 ?w" using Q bwd.step_before [OF w Some] walker_before_trans by blast
    have no: "\<not> word_starts x" if "?ok x" "walker_before x ?w" "walker_before w2 x" for x
      using Q bwd.step_next [OF w Some that(1,2)] that blank by blast
    consider "\<not> going" | "going" "on_empty_line w2" | "going" "\<not> on_empty_line w2" by blast
    then show ?thesis
    proof cases
      case 1
      then have "last_before ?ok word_starts ?w w2" using Q no blank unfolding last_before_def by simp
      then show ?thesis using 1 Some w2 by (auto simp: copy_previous_word_start_def Let_def)
    next
      case 2
      then have "last_before ?ok word_starts ?w w2" using Q no b2 unfolding last_before_def by (auto simp: word_starts_def)
      then show ?thesis using 2 Some w2 by (auto simp: copy_previous_word_start_def Let_def)
    next
      case 3
      let ?c = "walker_class w2"
      let ?i = "word_start_index w2 ?c (wk_index w2)"
      let ?v = "w2\<lparr>wk_index := ?i\<rparr>"
      have c: "?c \<noteq> BlankCell" using Q 3 by simp
      have ok2: "?ok w2" using Q by blast
      note R = word_start_index_run [of w2 "wk_index w2" ?c, OF walker_class_def [symmetric]]
      have v: "?ok ?v" using ok2 R(1) by (intro walker_ok_index) (auto simp: walker_ok_def)
      have starts: "word_starts ?v" using R(2) R(3) [of ?i] R(1) c by (auto simp: word_starts_def)
      have bv: "walker_before ?v ?w"
        using b2 R(1) by (cases "wk_index w2 = ?i") (auto simp: walker_before_def place_def)
      have "\<not> word_starts x" if "?ok x" "walker_before x ?w" "walker_before ?v x" for x
      proof (cases "walker_before w2 x")
        case False
        have "x = w2\<lparr>wk_index := wk_index w2\<rparr> \<or> walker_before x (w2\<lparr>wk_index := wk_index w2\<rparr>)"
          using before_linear [OF that(1) ok2] False by auto
        note L = between_on_line [OF that(1) ok2 disjI2 [OF that(3)] this]
        have "wk_index x \<noteq> ?i" using L(1) that(3) by (metis walker_before_irrefl)
        then have "class_at w2 (wk_index x) = ?c" "class_at w2 (wk_index x - 1) = ?c" "wk_index x \<noteq> 0"
          using L(2,3) R(3) by simp_all
        then show ?thesis using 3 by (subst L(1)) (simp add: word_starts_def)
      qed (use no that in blast)
      then have "last_before ?ok word_starts ?w ?v" using v starts bv unfolding last_before_def by blast
      then show ?thesis using 3 Some w2 by (auto simp: copy_previous_word_start_def Let_def)
    qed
  qed
qed

section \<open>Staying in the buffer and in view\<close>

lemma walker_point_line: "walker_ok u ls ll sp w \<Longrightarrow> pt_line (walker_point w) \<le> ll"
  by (simp add: walker_point_def walker_ok_def Let_def)

lemma word_motion_lines:
  "pt_line (copy_next_word_start u ls ll at sp) \<le> ll" "pt_line (copy_previous_word_start u ls ll at sp) \<le> ll"
  "\<exists>c. copy_next_word_end u ls ll at sp = Some c \<and> pt_line c \<le> ll"
  using next_word_start_first [of u ls ll sp at] previous_word_start_last [of u ls ll sp at] next_word_end_first [of u ls ll sp at]
    walker_point_line unfolding first_after_def last_before_def by metis+

lemma up_while_le: "up_while p line \<le> line"
  by (induction line) auto

lemma find_above_less: "find_above p line = Some l \<Longrightarrow> l < line \<and> p l \<and> (\<forall>k. l < k \<longrightarrow> k < line \<longrightarrow> \<not> p k)"
  by (induction line) (auto simp: less_Suc_eq split: if_splits)

lemma previous_paragraph_line: "pt_line (previous_paragraph ls cursor) \<le> pt_line cursor"
  using up_while_le [of "is_blank_line ls" "pt_line cursor"]
  by (auto simp: previous_paragraph_def split: option.split dest!: find_above_less)

lemma find_below_le: "find_below p ll line = Some l \<Longrightarrow> line < l \<and> l \<le> ll \<and> p l \<and> (\<forall>k. line < k \<longrightarrow> k < l \<longrightarrow> \<not> p k)"
proof (induction p ll line rule: find_below.induct)
  case (1 p ll line)
  then show ?case by (subst (asm) find_below.simps) (auto split: if_splits, metis Suc_lessI)
qed

lemma next_paragraph_line: "pt_line (next_paragraph u ls ll cursor) \<le> ll"
  by (auto simp: next_paragraph_def split: option.split dest: find_below_le)

lemma moved_in_buffer:
  assumes "pt_line cursor < vp_total vp" and "vp_top vp < vp_total vp"
  shows "\<exists>c t. moved u motion cursor vp ls = Some (c, t) \<and> pt_line c < vp_total vp"
proof -
  have "l < vp_total vp" if "l \<le> vp_last_line vp" for l using that assms(1) by (auto simp: vp_last_line_def)
  then show ?thesis
    using assms word_motion_lines [of u ls "vp_last_line vp" cursor] previous_paragraph_line [of ls cursor]
      next_paragraph_line [of u ls "vp_last_line vp" cursor]
    by (cases motion) (fastforce simp: moved_def Let_def)+
qed

text \<open>The scroll position that \<open>reveal\<close> gives shows the line, and scrolls no further than the last page.\<close>

lemma reveal_shows:
  assumes "line < vp_total vp" and "vp_total vp \<le> u64_max"
  shows "reveal vp t line \<le> line" "line < reveal vp t line + max (vp_rows vp) 1" "reveal vp t line \<le> bottom_top vp"
  using assms by (auto simp: reveal_def bottom_top_def sat_add_def Let_def min_def max_def)

definition in_view :: "copy_viewport \<Rightarrow> motion_outcome \<Rightarrow> bool" where
  "in_view vp out \<longleftrightarrow>
     pt_line (mo_cursor out) < vp_total vp \<and> mo_top out \<le> pt_line (mo_cursor out) \<and>
     pt_line (mo_cursor out) < mo_top out + max (vp_rows vp) 1 \<and> mo_top out \<le> bottom_top vp"

lemma apply_motion_in_view:
  assumes "pt_line cursor < vp_total vp" and "vp_top vp < vp_total vp" and "vp_total vp \<le> u64_max"
  shows "\<exists>out. apply_motion u motion cursor vp ls = Some out \<and> in_view vp out"
  using moved_in_buffer [OF assms(1,2), of u motion ls] reveal_shows [OF _ assms(3)]
  by (auto simp: apply_motion_def in_view_def)

lemma in_view_top [simp]: "in_view (vp\<lparr>vp_top := t\<rparr>) out = in_view vp out"
  by (simp add: in_view_def bottom_top_def)

text \<open>A count stops early only where the motion changes nothing any more.\<close>

definition one_motion :: "unicode_lib \<Rightarrow> copy_motion \<Rightarrow> copy_viewport \<Rightarrow> rstring list \<Rightarrow> motion_outcome \<Rightarrow> motion_outcome" where
  "one_motion u motion vp ls out = the (apply_motion u motion (mo_cursor out) (vp\<lparr>vp_top := mo_top out\<rparr>) ls)"

lemma one_motion_in_view:
  assumes "pt_line (mo_cursor out) < vp_total vp" and "mo_top out < vp_total vp" and "vp_total vp \<le> u64_max"
  shows "apply_motion u motion (mo_cursor out) (vp\<lparr>vp_top := mo_top out\<rparr>) ls = Some (one_motion u motion vp ls out)"
    "in_view vp (one_motion u motion vp ls out)"
proof -
  obtain out' where out': "apply_motion u motion (mo_cursor out) (vp\<lparr>vp_top := mo_top out\<rparr>) ls = Some out'" "in_view vp out'"
    using apply_motion_in_view [of "mo_cursor out" "vp\<lparr>vp_top := mo_top out\<rparr>" u motion ls] assms by auto
  then show "apply_motion u motion (mo_cursor out) (vp\<lparr>vp_top := mo_top out\<rparr>) ls = Some (one_motion u motion vp ls out)"
    "in_view vp (one_motion u motion vp ls out)"
    by (simp_all add: one_motion_def)
qed

lemma funpow_fixed: "f x = x \<Longrightarrow> (f ^^ n) x = x"
  by (induction n) auto

lemma repeat_motion_iterates:
  assumes "pt_line (mo_cursor out) < vp_total vp" and "mo_top out < vp_total vp" and "vp_total vp \<le> u64_max"
  shows "repeat_motion u motion vp ls n out = Some ((one_motion u motion vp ls ^^ n) out)"
  using assms
proof (induction n arbitrary: out)
  case (Suc n)
  let ?out' = "one_motion u motion vp ls out"
  note one = one_motion_in_view [OF Suc.prems, of u motion ls]
  have "pt_line (mo_cursor ?out') < vp_total vp" "mo_top ?out' < vp_total vp" using one(2) by (auto simp: in_view_def)
  then have "repeat_motion u motion vp ls n ?out' = Some ((one_motion u motion vp ls ^^ n) ?out')"
    using Suc.IH Suc.prems(3) by blast
  then show ?case
    using one(1) funpow_fixed [of "one_motion u motion vp ls" out n] by (auto simp: funpow_swap1)
qed simp

lemma counted_motion_iterates:
  assumes "pt_line cursor < vp_total vp" and "vp_top vp < vp_total vp" and "vp_total vp \<le> u64_max"
  shows "counted_motion u motion count cursor vp ls =
      Some ((one_motion u motion vp ls ^^ (if motion_repeats motion then max count 1 else 1)) \<lparr>mo_cursor = cursor, mo_top = vp_top vp\<rparr>)"
  using repeat_motion_iterates [of "\<lparr>mo_cursor = cursor, mo_top = vp_top vp\<rparr>"] assms by (simp add: counted_motion_def)

lemma iterated_in_view:
  assumes "pt_line (mo_cursor out) < vp_total vp" and "mo_top out < vp_total vp" and "vp_total vp \<le> u64_max" and "n > 0"
  shows "in_view vp ((one_motion u motion vp ls ^^ n) out)"
  using assms(4)
proof (induction n)
  case (Suc n)
  let ?o = "(one_motion u motion vp ls ^^ n) out"
  have "pt_line (mo_cursor ?o) < vp_total vp \<and> mo_top ?o < vp_total vp"
    using Suc.IH assms(1,2) by (cases n) (auto simp: in_view_def)
  then show ?case using one_motion_in_view(2) assms(3) by simp
qed simp

end
