(* ===== verification/Copy_Jumps.thy ===== *)
theory Copy_Jumps
  imports Copy_Mode
begin

text \<open>
  What copy mode's jumps, clicks, counts and search steps do: where a jump lands and when it goes out of the
  line's range, which run of cells a double click selects, that counting search matches by laps is counting
  them one by one, and that digits and clicks count as they should.
\<close>

section \<open>Finding the first and the last\<close>

lemma find_from_Some: "find_from a b p = Some i \<longleftrightarrow> a \<le> i \<and> i < b \<and> p i \<and> (\<forall>k. a \<le> k \<longrightarrow> k < i \<longrightarrow> \<not> p k)"
proof (induction "b - a" arbitrary: a)
  case 0
  then show ?case by (simp add: find_from_def)
next
  case (Suc n)
  have unfold: "find_from a b p = (if p a then Some a else find_from (Suc a) b p)" and "a < b"
    using Suc.hyps(2) by (simp_all add: find_from_def upt_conv_Cons)
  show ?case
  proof (cases "p a")
    case True
    have "(a \<le> i \<and> i < b \<and> p i \<and> (\<forall>k. a \<le> k \<longrightarrow> k < i \<longrightarrow> \<not> p k)) \<longleftrightarrow> i = a"
      using True \<open>a < b\<close> by (metis le_neq_implies_less not_le order_refl)
    then show ?thesis unfolding unfold using True by (simp add: eq_commute)
  next
    case False
    have "find_from (Suc a) b p = Some i \<longleftrightarrow> Suc a \<le> i \<and> i < b \<and> p i \<and> (\<forall>k. Suc a \<le> k \<longrightarrow> k < i \<longrightarrow> \<not> p k)"
      using Suc.hyps by simp
    then show ?thesis unfolding unfold using False by (metis Suc_leD le_neq_implies_less Suc_leI)
  qed
qed

lemma find_from_None: "find_from a b p = None \<longleftrightarrow> (\<forall>k. a \<le> k \<longrightarrow> k < b \<longrightarrow> \<not> p k)"
  by (auto simp: find_from_def find_None_iff)

lemma find_back_Some: "find_back b p = Some i \<longleftrightarrow> i < b \<and> p i \<and> (\<forall>k. i < k \<longrightarrow> k < b \<longrightarrow> \<not> p k)"
proof (induction b)
  case 0
  then show ?case by (simp add: find_back_def)
next
  case (Suc b)
  have "find_back (Suc b) p = (if p b then Some b else find_back b p)" by (simp add: find_back_def)
  then show ?case using Suc.IH by (auto simp: less_Suc_eq)
qed

lemma find_back_None: "find_back b p = None \<longleftrightarrow> (\<forall>k < b. \<not> p k)"
  by (auto simp: find_back_def find_None_iff)

section \<open>Jumps\<close>

lemma jump_reversed_twice: "jump_reversed (jump_reversed k) = k"
  by (cases k) simp_all

lemma cell_index_le: "cell_index cs col \<le> length cs"
  unfolding cell_index_def by (induction cs) auto

text \<open>
  \<open>F\<close> and \<open>f\<close> land on the nearest occurrence on their side of the cursor.
\<close>

lemma jump_onto:
  fixes u line cursor kind
  assumes "kind = JumpForward \<or> kind = JumpBackward"
  defines "cs \<equiv> cells u line" and "at \<equiv> cell_index (cells u line) (pt_column cursor)"
  defines "side \<equiv> \<lambda>i. i < length cs \<and> (if kind = JumpForward then at < i else i < at)"
    and "nearer \<equiv> \<lambda>k i. if kind = JumpForward then k < i else i < k"
  shows "jump u kind target cursor line repeat = Ok None \<and> (\<forall>i. side i \<longrightarrow> ce_text (cs ! i) \<noteq> [target]) \<or>
    (\<exists>i. jump u kind target cursor line repeat = Ok (Some (ce_column (cs ! i))) \<and> side i \<and> ce_text (cs ! i) = [target] \<and>
       (\<forall>k. side k \<longrightarrow> nearer k i \<longrightarrow> ce_text (cs ! k) \<noteq> [target]))"
proof -
  let ?t = "\<lambda>i. ce_text (cs ! i) = [target]"
  have at: "min at (length cs) = at" using cell_index_le [of cs "pt_column cursor"] by (simp add: at_def cs_def)
  show ?thesis
  proof (cases "kind = JumpForward")
    case True
    have J: "jump u kind target cursor line repeat = (case find_from (at + 1) (length cs) ?t of None \<Rightarrow> Ok None
        | Some i \<Rightarrow> if i < length cs then Ok (Some (ce_column (cs ! i))) else Panic)"
      using True at unfolding cs_def at_def by (simp add: jump_def Let_def)
    show ?thesis
    proof (cases "find_from (at + 1) (length cs) ?t")
      case None
      then show ?thesis using True J find_from_None [THEN iffD1, OF None] by (auto simp: side_def)
    next
      case (Some i)
      then show ?thesis using True J find_from_Some [THEN iffD1, OF Some] by (auto simp: side_def nearer_def)
    qed
  next
    case False
    have J: "jump u kind target cursor line repeat = (case find_back at ?t of None \<Rightarrow> Ok None
        | Some i \<Rightarrow> if i < length cs then Ok (Some (ce_column (cs ! i))) else Panic)"
      using False assms(1) at unfolding cs_def at_def by (auto simp: jump_def Let_def)
    show ?thesis
    proof (cases "find_back at ?t")
      case None
      then show ?thesis using False J find_back_None [THEN iffD1, OF None] by (auto simp: side_def)
    next
      case (Some i)
      moreover have "i < length cs" using find_back_Some [THEN iffD1, OF Some] at by auto
      ultimately show ?thesis using False J find_back_Some [THEN iffD1, OF Some] by (auto simp: side_def nearer_def)
    qed
  qed
qed

text \<open>
  A jump goes out of the line's range in one case: \<open>T\<close> with the cursor past the end of the line, and the
  target at the end.
\<close>

lemma jump_panics_iff:
  "jump u kind target cursor line repeat = Panic \<longleftrightarrow>
     kind = ToBackward \<and> \<not> repeat \<and> cells u line \<noteq> [] \<and> cell_index (cells u line) (pt_column cursor) = length (cells u line) \<and>
     ce_text (last (cells u line)) = [target]"
proof -
  let ?cs = "cells u line"
  let ?at = "cell_index ?cs (pt_column cursor)"
  have at: "?at \<le> length ?cs" by (rule cell_index_le)
  show ?thesis
  proof (cases kind)
    case JumpForward
    then show ?thesis by (auto simp: jump_def Let_def find_from_Some split: option.splits)
  next
    case JumpBackward
    then show ?thesis using at by (auto simp: jump_def Let_def find_back_Some split: option.splits)
  next
    case ToForward
    then show ?thesis by (auto simp: jump_def Let_def find_from_Some split: option.splits)
  next
    case ToBackward
    have "jump u kind target cursor line repeat = Panic \<longleftrightarrow>
        (\<exists>i. find_back (?at - (if repeat then 1 else 0)) (\<lambda>i. ce_text (?cs ! i) = [target]) = Some i \<and> length ?cs \<le> i + 1)"
      using ToBackward at by (auto simp: jump_def Let_def min_def split: option.splits)
    also have "\<dots> \<longleftrightarrow> \<not> repeat \<and> ?cs \<noteq> [] \<and> ?at = length ?cs \<and> ce_text (last ?cs) = [target]"
    proof
      assume "\<exists>i. find_back (?at - (if repeat then 1 else 0)) (\<lambda>i. ce_text (?cs ! i) = [target]) = Some i \<and> length ?cs \<le> i + 1"
      then obtain i where i: "i < ?at - (if repeat then 1 else 0)" "ce_text (?cs ! i) = [target]" "length ?cs \<le> i + 1"
        by (auto simp: find_back_Some)
      then have "\<not> repeat" "?at = length ?cs" "i = length ?cs - 1" using at by (auto split: if_splits)
      moreover then have "?cs \<noteq> []" using i(1) by auto
      ultimately show "\<not> repeat \<and> ?cs \<noteq> [] \<and> ?at = length ?cs \<and> ce_text (last ?cs) = [target]"
        using i(2) by (simp add: last_conv_nth)
    next
      assume *: "\<not> repeat \<and> ?cs \<noteq> [] \<and> ?at = length ?cs \<and> ce_text (last ?cs) = [target]"
      then have "find_back (length ?cs) (\<lambda>i. ce_text (?cs ! i) = [target]) = Some (length ?cs - 1)"
        by (auto simp: find_back_Some last_conv_nth)
      with * show "\<exists>i. find_back (?at - (if repeat then 1 else 0)) (\<lambda>i. ce_text (?cs ! i) = [target]) = Some i \<and> length ?cs \<le> i + 1"
        by auto
    qed
    finally show ?thesis using ToBackward by simp
  qed
qed

section \<open>The word under a click\<close>

lemma run_start_run:
  assumes "p i"
  shows "run_start p i \<le> i" "p (run_start p i)" "run_start p i = 0 \<or> \<not> p (run_start p i - 1)"
    "run_start p i \<le> k \<Longrightarrow> k \<le> i \<Longrightarrow> p k"
  using assms by (induction i) (auto simp: le_Suc_eq split: if_splits)

lemma run_end_run:
  assumes "p i" and "i < len"
  shows "i \<le> run_end p len i \<and> run_end p len i < len \<and> p (run_end p len i) \<and>
    (run_end p len i + 1 = len \<or> \<not> p (run_end p len i + 1)) \<and> (\<forall>k. i \<le> k \<longrightarrow> k \<le> run_end p len i \<longrightarrow> p k)"
  using assms
proof (induction p len i rule: run_end.induct)
  case (1 p len i)
  show ?case
  proof (cases "i + 1 < len \<and> p (i + 1)")
    case True
    then have "run_end p len i = run_end p len (i + 1)" by (simp add: run_end.simps [of p len i])
    moreover have "p k" if "i \<le> k" "k \<le> run_end p len (i + 1)" for k
      using "1.IH" [OF True] True "1.prems" that by (cases "k = i") auto
    ultimately show ?thesis using "1.IH" [OF True] True by auto
  next
    case False
    then have "run_end p len i = i" by (subst run_end.simps) (rule if_not_P)
    then show ?thesis using False "1.prems" by auto
  qed
qed

text \<open>A double click selects the longest run of cells of one class around the one under the pointer.\<close>

lemma word_bounds_run:
  fixes u line
  defines "cs \<equiv> cells u line" and "cl \<equiv> \<lambda>i. class_of (ce_text (cells u line ! i)) False"
  shows "word_bounds u line column = None \<and> cell_index cs column = length cs \<or>
    (\<exists>a b. word_bounds u line column = Some (ce_column (cs ! a), ce_column (cs ! b)) \<and>
       a \<le> cell_index cs column \<and> cell_index cs column \<le> b \<and> b < length cs \<and>
       (\<forall>i. a \<le> i \<longrightarrow> i \<le> b \<longrightarrow> cl i = cl (cell_index cs column)) \<and>
       (a = 0 \<or> cl (a - 1) \<noteq> cl a) \<and> (b + 1 = length cs \<or> cl (b + 1) \<noteq> cl b))"
proof (cases "cell_index cs column < length cs")
  case False
  then show ?thesis using cell_index_le [of "cs" column] by (auto simp: word_bounds_def cs_def)
next
  case True
  let ?i = "cell_index cs column"
  let ?p = "\<lambda>i. cl i = cl ?i"
  let ?a = "run_start ?p ?i" and ?b = "run_end ?p (length cs) ?i"
  have W: "word_bounds u line column = Some (ce_column (cs ! ?a), ce_column (cs ! ?b))"
    using True by (simp add: word_bounds_def cs_def cl_def Let_def)
  have P: "?p k" if "?a \<le> k" "k \<le> ?b" for k
  proof (cases "k \<le> ?i")
    case True
    then show ?thesis by (rule run_start_run(4) [of ?p ?i, OF refl that(1)])
  next
    case False
    then show ?thesis using run_end_run [of ?p ?i, OF refl \<open>?i < length cs\<close>] that(2) nat_le_linear by blast
  qed
  have S: "?a = 0 \<or> cl (?a - 1) \<noteq> cl ?a" using run_start_run(2,3) [of ?p ?i, OF refl] by metis
  have E: "?b + 1 = length cs \<or> cl (?b + 1) \<noteq> cl ?b" using run_end_run [of ?p ?i, OF refl True] by metis
  have B: "?a \<le> ?i" "?i \<le> ?b" "?b < length cs"
    using run_start_run(1) [of ?p ?i, OF refl] run_end_run [of ?p ?i, OF refl True] by blast+
  show ?thesis
    by (rule disjI2, rule exI [of _ ?a], rule exI [of _ ?b], intro conjI allI impI) (fact W B S E | rule P, assumption+)+
qed

section \<open>Search matches\<close>

definition matches_sorted :: "search_match list \<Rightarrow> bool" where
  "matches_sorted ms \<longleftrightarrow> sorted_wrt (<) (map match_position ms)"

definition at_match :: "search_match list \<Rightarrow> nat \<Rightarrow> selection_point" where
  "at_match ms i = \<lparr>pt_line = sm_line (ms ! i), pt_column = sm_start_column (ms ! i)\<rparr>"

text \<open>The match one further, and one back, with the list closed to a circle.\<close>

definition around :: "nat \<Rightarrow> bool \<Rightarrow> nat \<Rightarrow> nat" where
  "around n fwd i = (if fwd then (i + 1) mod n else if i = 0 then n - 1 else i - 1)"

lemma around_less: "i < n \<Longrightarrow> around n fwd i < n"
  by (auto simp: around_def)

lemma matches_sortedD: "matches_sorted ms \<Longrightarrow> i < length ms \<Longrightarrow> j < length ms \<Longrightarrow> match_position (ms ! i) < match_position (ms ! j) \<longleftrightarrow> i < j"
proof -
  assume s: "matches_sorted ms" and i: "i < length ms" and j: "j < length ms"
  have *: "match_position (ms ! a) < match_position (ms ! b)" if "a < b" "b < length ms" for a b
    using s that by (simp add: matches_sorted_def sorted_wrt_iff_nth_less)
  show ?thesis using * [of i j] * [of j i] i j by (cases i j rule: linorder_cases) auto
qed

lemma next_match_index_at:
  assumes s: "matches_sorted ms" and i: "i < length ms"
  shows "next_match_index ms (at_match ms i) fwd = Some (around (length ms) fwd i)"
proof -
  have at: "(pt_line (at_match ms i), pt_column (at_match ms i)) = match_position (ms ! i)" by (simp add: at_match_def match_position_def)
  have ne: "ms \<noteq> []" using i by auto
  show ?thesis
  proof (cases fwd)
    case True
    let ?f = "find_from 0 (length ms) (\<lambda>k. match_position (ms ! i) < match_position (ms ! k))"
    have "?f = (if i + 1 < length ms then Some (i + 1) else None)"
      using matches_sortedD [OF s i] i by (auto simp: find_from_Some find_from_None)
    moreover have "i + 1 < length ms \<or> i + 1 = length ms" using i by linarith
    ultimately show ?thesis using True ne unfolding next_match_index_def at by (auto simp: around_def Let_def)
  next
    case False
    let ?f = "find_back (length ms) (\<lambda>k. match_position (ms ! k) < match_position (ms ! i))"
    have "?f = (if i = 0 then None else Some (i - 1))"
      using matches_sortedD [OF s _ i] i by (auto simp: find_back_Some find_back_None)
    then show ?thesis using False ne unfolding next_match_index_def at by (auto simp: around_def Let_def)
  qed
qed

lemma next_match_index_less: "ms \<noteq> [] \<Longrightarrow> \<exists>i < length ms. next_match_index ms cursor fwd = Some i"
  by (auto simp: next_match_index_def Let_def find_from_Some find_back_Some split: option.split)

text \<open>After one step the cursor, if there is one, is on the active match, and steps go around.\<close>

lemma next_match_around:
  assumes "matches_sorted ms" and "i < length ms"
  shows "next_match ms fwd (map_option (\<lambda>_. at_match ms i) c, Some i) =
    (map_option (\<lambda>_. at_match ms (around (length ms) fwd i)) c, Some (around (length ms) fwd i))"
  using next_match_index_at [OF assms] by (cases c) (simp_all add: next_match_def Let_def around_def at_match_def)

lemma next_matches_around:
  assumes "matches_sorted ms" and "i < length ms"
  shows "(next_match ms fwd ^^ k) (map_option (\<lambda>_. at_match ms i) c, Some i) =
      (map_option (\<lambda>_. at_match ms ((around (length ms) fwd ^^ k) i)) c, Some ((around (length ms) fwd ^^ k) i))"
    and "(around (length ms) fwd ^^ k) i < length ms"
proof (induction k)
  case (Suc k)
  case 1
  show ?case using Suc next_match_around [OF assms(1) Suc(2), of fwd c] by simp
next
  case (Suc k)
  case 2
  show ?case using Suc around_less by simp
qed (use assms(2) in simp_all)

lemma first_match:
  assumes "ms \<noteq> []" and "\<And>i. active = Some i \<Longrightarrow> i < length ms"
  obtains i where "i < length ms" "next_match ms fwd (cursor, active) = (map_option (\<lambda>_. at_match ms i) cursor, Some i)"
proof (cases cursor)
  case None
  have "around (length ms) fwd (case active of Some i \<Rightarrow> i | None \<Rightarrow> 0) < length ms"
    using assms by (intro around_less) (auto split: option.split)
  then show ?thesis using that None by (force simp: next_match_def around_def Let_def)
next
  case (Some at)
  obtain i where "i < length ms" "next_match_index ms at fwd = Some i" using next_match_index_less [OF assms(1)] by blast
  then show ?thesis using that Some by (simp add: next_match_def at_match_def Let_def)
qed

lemma around_lap: "i < n \<Longrightarrow> (around n fwd ^^ n) i = i"
proof (cases fwd)
  case True
  assume i: "i < n"
  have "(around n fwd ^^ k) i = (i + k) mod n" for k
    using i True by (induction k) (auto simp: around_def mod_Suc_eq)
  then show ?thesis using i by simp
next
  case False
  assume i: "i < n"
  have "k \<le> n \<Longrightarrow> (around n fwd ^^ k) i = (i + (n - k)) mod n" for k
  proof (induction k)
    case (Suc k)
    then have k: "(around n fwd ^^ k) i = (i + (n - k)) mod n" "k < n" by simp_all
    have "(around n fwd ^^ Suc k) i = around n fwd ((i + (n - k)) mod n)" using k(1) by simp
    also have "\<dots> = (i + (n - Suc k)) mod n"
    proof (cases "i + (n - k) < n")
      case True
      then show ?thesis using False k(2) by (auto simp: around_def)
    next
      case ge: False
      then have "(i + (n - k)) mod n = i - k" "k \<le> i" using i k(2) by (auto simp: mod_if)
      then show ?thesis using False i k(2) ge by (auto simp: around_def mod_if)
    qed
    finally show ?case .
  qed (use i in simp)
  then show ?thesis using i by simp
qed

text \<open>Leaving out full laps changes nothing: \<open>count\<close> steps are taken.\<close>

lemma navigate_search_counts:
  assumes s: "matches_sorted ms" and ne: "ms \<noteq> []" and act: "\<And>i. active = Some i \<Longrightarrow> i < length ms"
  shows "navigate_search ms fwd count cursor active = snd ((next_match ms fwd ^^ max count 1) (cursor, active))"
proof -
  obtain i where i: "i < length ms" "next_match ms fwd (cursor, active) = (map_option (\<lambda>_. at_match ms i) cursor, Some i)"
    using first_match [OF ne act] by blast
  have all: "snd ((next_match ms fwd ^^ Suc k) (cursor, active)) = Some ((around (length ms) fwd ^^ k) i)" for k
    using next_matches_around(1) [OF s i(1), where fwd = fwd and k = k and c = cursor] i(2) by (simp add: funpow_swap1)
  have laps: "(around (length ms) fwd ^^ (n * length ms)) i = i" for n
    by (induction n) (use around_lap [OF i(1)] in \<open>simp_all add: funpow_add\<close>)
  have "(around (length ms) fwd ^^ k) i = (around (length ms) fwd ^^ (k mod length ms)) i" for k
  proof -
    have "(around (length ms) fwd ^^ (k mod length ms + k div length ms * length ms)) i = (around (length ms) fwd ^^ (k mod length ms)) i"
      unfolding funpow_add using laps by simp
    then show ?thesis by simp
  qed
  then show ?thesis using all [of "(max count 1 - 1) mod length ms"] all [of "max count 1 - 1"] ne
    by (simp add: navigate_search_def)
qed

section \<open>Clicks and counts\<close>

text \<open>Quick presses on one cell count 1, 2, 3, 1, 2, 3, and so on.\<close>

primrec presses :: "click option \<Rightarrow> node_id \<Rightarrow> selection_point \<Rightarrow> nat list \<Rightarrow> nat list" where
  "presses lst node point [] = []"
| "presses lst node point (now # nows) = fst (press lst node point now) # presses (snd (press lst node point now)) node point nows"

lemma presses_cycle:
  assumes "successively (\<lambda>a b. b - a \<le> multi_click_interval) (at # nows)" and "1 \<le> count" "count \<le> 3" and "k < length nows"
  shows "presses (Some (node, point, at, count)) node point nows ! k = (count + k) mod 3 + 1"
  using assms
proof (induction nows arbitrary: at count k)
  case (Cons now nows)
  have p: "press (Some (node, point, at, count)) node point now = (count mod 3 + 1, Some (node, point, now, count mod 3 + 1))"
    using Cons.prems(1-3) by (cases "count = 3") (auto simp: press_def Let_def)
  show ?case
  proof (cases k)
    case (Suc k')
    have "presses (Some (node, point, now, count mod 3 + 1)) node point nows ! k' = (count mod 3 + 1 + k') mod 3 + 1"
      by (rule Cons.IH) (use Cons.prems Suc in auto)
    moreover have "(count mod 3 + (1 + k')) mod 3 = (count + (1 + k')) mod 3" by (rule mod_add_left_eq)
    ultimately show ?thesis using p Suc by simp
  qed (use p in simp)
qed simp

text \<open>The count that typing digits gives: their value, up to the largest count.\<close>

definition count_value :: "nat list \<Rightarrow> nat" where
  "count_value ds = fold (\<lambda>d n. 10 * n + d) ds 0"

lemma push_digits:
  assumes "\<forall>d \<in> set ds. d < 10" and "ds \<noteq> []" and "cm_pending_count st = None"
  shows "cm_pending_count (fold push_count_digit ds st) = Some (min (count_value ds) max_count)"
proof -
  have step: "cm_pending_count (fold push_count_digit ds st) = Some (min (fold (\<lambda>d n. 10 * n + d) ds n) max_count)"
    if "\<forall>d \<in> set ds. d < 10" "cm_pending_count st = Some (min n max_count)" for ds st n
    using that
  proof (induction ds arbitrary: st n)
    case (Cons d ds)
    have "cm_pending_count (push_count_digit d st) = Some (min (10 * n + d) max_count)"
      using Cons.prems by (auto simp: push_count_digit_def sat_add_def sat_mul_def u32_max_def max_count_def Let_def min_def)
    then show ?case using Cons.IH Cons.prems(1) by simp
  qed simp
  obtain d ds' where ds: "ds = d # ds'" using assms(2) by (cases ds) auto
  have "cm_pending_count (push_count_digit d st) = Some (min d max_count)"
    using assms(1,3) ds by (simp add: push_count_digit_def sat_add_def sat_mul_def u32_max_def max_count_def Let_def)
  then show ?thesis using step [of ds' "push_count_digit d st" d] assms(1) ds by (simp add: count_value_def)
qed

end
