(* ===== verification/Spec2Isabelle.thy ===== *)
theory Spec2Isabelle
  imports Server_Runs Server_Focus_Correct Server_Sample Server_Requests Persist_Roundtrip Client_Keymap Protocol_Framing
    Reply_Hold Split_Resize Restore Pty_Sizes Client_Sync Command_Prompt Copy_Motions Copy_Jumps
begin

text \<open>
  Embers is a terminal multiplexer. A server keeps sessions, the layout of their windows and panes and
  the buffers (programs) shown in them; clients draw the layout, translate keys and send requests. This
  development models the server's state with all its methods, the workspace it saves, the records it sends,
  the client's copy of them, its key input, command prompt and copy mode, and parts of the protocol, and
  proves what makes them correct. File names below are under \<open>src/crates\<close>.

  \<^bold>\<open>How the parts interact.\<close> \<open>embers-server/src/state.rs\<close> is the core: \<open>ServerState\<close> holds ordered maps of
  sessions, buffers, nodes and floating windows, and every request of a client ends in one of its
  methods. \<open>persist.rs\<close> saves that state and loads it after a restart; \<open>restore.rs\<close> decides what restarts in
  each pane. \<open>reply_hold.rs\<close> orders the answers written to a pane. Frames (\<open>embers-protocol/src/framing.rs\<close>)
  carry requests, and \<open>protocol.rs\<close> turns the state into the records of the answers. In a client, \<open>client.rs\<close>
  asks for those records when events tell of changes, and \<open>state.rs\<close> files them; \<open>input/\<close> turns keys into tokens,
  bindings and bytes, \<open>command_prompt.rs\<close> and \<open>copy_mode.rs\<close> handle the keys of their modes, and
  \<open>split_resize.rs\<close>, \<open>numbering.rs\<close>, \<open>hints.rs\<close> and \<open>pty_sizes.rs\<close> compute what it draws and asks for.

  \<^bold>\<open>Conventions.\<close> A Rust call has an \<open>outcome\<close>: \<open>Ok\<close>, \<open>Err\<close> with the error value, \<open>Panic\<close>, or \<open>Diverge\<close> when a
  walk runs out of fuel. A method that borrows \<open>self\<close> mutably is an \<open>op\<close>, a function from the state to an
  outcome and the state left behind, also when it fails. Error texts are constructors with the values the
  text mentions. Ids are natural numbers, and their allocator wraps at \<open>2 ^ 64\<close>; 16-bit sizes saturate
  where the code saturates. A Rust \<open>String\<close> is the list of its code points. The clock is an argument, and so
  is what third-party crates and Unicode tables provide: \<open>unicode_lib\<close> (grapheme clusters and their widths,
  \<open>unicode-segmentation\<close> and \<open>unicode-width\<close>), \<open>alnum\<close> (the alphanumeric characters), \<open>quote\<close> (\<open>shell_words\<close>), and
  \<open>visible\<close> (the screen of a buffer). Nothing is assumed of them.

  \<^bold>\<open>Theories that model code.\<close>
  \<^item> \<open>Embers_Prelude\<close>, \<open>Ordered_Map\<close>, \<open>Service\<close>: outcomes and state passing with their weakest preconditions
    (\<open>wp\<close>); \<open>BTreeMap\<close> behind the locale \<open>ordered_map\<close>; components that answer requests behind the locale
    \<open>service\<close>, interpreted for the server, for key input, for reply holding, for the client's copy of the
    state and for the command prompt.
  \<^item> \<open>Embers_Core\<close> (\<open>embers-core\<close>: \<open>ids.rs\<close>, \<open>geometry.rs\<close>, \<open>metadata.rs\<close>, \<open>error.rs\<close>), with the locale \<open>id_source\<close>
    of allocators; \<open>Environment\<close> (\<open>environment.rs\<close>); \<open>Server_Model\<close> (\<open>model.rs\<close>).
  \<^item> \<open>Server_State\<close>, \<open>Server_Focus\<close>, \<open>Server_Layout\<close>, \<open>Server_Buffers\<close>, \<open>Server_Restructure\<close>, \<open>Server_Validate\<close>:
    the methods of \<open>state.rs\<close>, one definition each, grouped as lookups and walks, focus and zoom, layout,
    buffers, break and join, and \<open>validate\<close>.
  \<^item> \<open>Server_Persist\<close> (\<open>persist.rs\<close> and the conversions of \<open>state.rs\<close>), \<open>Restore\<close> (\<open>restore.rs\<close>), \<open>Reply_Hold\<close>
    (\<open>reply_hold.rs\<close>), \<open>Protocol_Framing\<close> (\<open>framing.rs\<close>).
  \<^item> \<open>Protocol_Records\<close> (\<open>embers-server/src/protocol.rs\<close>, the records of \<open>embers-protocol/src/types.rs\<close>),
    \<open>Client_State\<close> (\<open>embers-client/src/state.rs\<close>), \<open>Client_Sync\<close> (\<open>client.rs\<close>, and the answers of \<open>server.rs\<close> it
    relies on).
  \<^item> \<open>Command_Prompt\<close> (\<open>command_prompt.rs\<close>) and \<open>Copy_Mode\<close> (\<open>copy_mode.rs\<close>), each with the functions of
    \<open>configured_client.rs\<close> that drive it.
  \<^item> \<open>Client_Keys\<close> (\<open>input/encoding.rs\<close>, \<open>input/keyparse.rs\<close>), \<open>Client_Keymap\<close> (\<open>input/modes.rs\<close>,
    \<open>input/keymap.rs\<close>), \<open>Split_Resize\<close> (\<open>split_resize.rs\<close>, \<open>numbering.rs\<close>, \<open>hints.rs\<close>), \<open>Pty_Sizes\<close>
    (\<open>pty_sizes.rs\<close>).

  \<^bold>\<open>Theories of proofs.\<close>
  \<^item> \<open>Server_Forest\<close>, \<open>Server_Walks\<close>, \<open>Server_Collect\<close>: the layout as a forest, and that each walk along its links
    computes the relation it is meant to. \<open>Server_Consistent\<close>: \<open>validate\<close> accepts exactly the consistent states.
  \<^item> \<open>Server_Frame\<close>, \<open>Server_Invariant\<close>, \<open>Server_Focus_Correct\<close>, \<open>Server_Heal\<close>: what an operation leaves alone;
    focusing, selecting and healing succeed where they should and show what they focus.
  \<^item> \<open>Server_Links\<close>, \<open>Server_Edits\<close>, \<open>Server_Removal\<close>, \<open>Server_Good\<close>, \<open>Server_Normalize\<close>, \<open>Server_Close\<close>,
    \<open>Server_Grow\<close>, \<open>Server_Open\<close>: edits of a forest, and on top of them every method that opens or closes
    something keeps the invariant \<open>good\<close>, does exactly its work on the panes, and leaves the focus on a
    shown pane.
  \<^item> \<open>Server_Safe\<close>, \<open>Server_Sizes\<close>, \<open>Server_Arrange\<close>: methods that return whatever their arguments; every split has
    one size for each child (\<open>sized\<close>), so that swapping and moving siblings stays within the sizes.
    \<open>Server_Requests\<close>: requests as transitions; \<open>good\<close> and \<open>sized\<close> hold in all states that the requests of the type
    \<open>request\<close> reach, and each of them that is \<open>offered\<close> returns.
  \<^item> \<open>Client_Copy\<close>: the invariant of the client's copy. \<open>Client_Sync\<close>: the locale \<open>transport\<close> states what a client
    relies on, and in it a resynchronisation makes the copy mirror the server; it is interpreted for the
    server's answers, which therefore describe every session of a good state.
  \<^item> \<open>Copy_Motions\<close>: the locale \<open>walk\<close> of steps over ordered places, interpreted for both directions, and on it the
    specification of the word motions; motions stay in the buffer and in view. \<open>Copy_Jumps\<close>: jumps, double
    clicks, search steps, clicks and counts.
  \<^item> \<open>Persist_Roundtrip\<close>: saving and loading. \<open>Server_Eval\<close>, \<open>Server_Sample\<close>, \<open>Server_Runs\<close>: evaluation of concrete
    runs, among them the runs that leave the consistent states.

  \<^bold>\<open>Fuel.\<close> A walk along parent or child links takes fuel, one more than the number of nodes (two more where
  the loop starts at an option). In a forest a path visits no node twice, so the fuel is never used up;
  the lemmas state \<open>Ok\<close> and thereby that the walk returns. \<open>normalize_upwards\<close> takes twice that much: each of
  its steps goes up to the parent, collapses a container or stops. On a cyclic layout the code does not
  return, and the model says \<open>Diverge\<close> (\<open>tabs_cycle_diverges\<close>).

  \<^bold>\<open>Hypotheses.\<close> The request theorems ask (\<open>offered\<close>) for ids left to issue, that a pane to be split hangs in a
  window, and that a close does not empty a tabs node nested below another container: there the code breaks
  the layout (\<open>wrap_then_close_invalid\<close>). \<open>workspace_roundtrip\<close> asks for ids and counters in range. A state is
  \<open>tellable\<close> when it is good, its buffers are filed under their ids and the index of every active tab fits the
  32 bits of the record; the theorem on the client takes the server to stay in that state while the client
  asks. The motion theorems ask for a cursor and a scroll position inside the buffer.

  \<^bold>\<open>Defects shown.\<close> Besides the runs of \<open>Server_Runs\<close>: a jump with \<open>T\<close> from past the end of a line panics when
  the line ends in its target (\<open>jump_panics_exactly\<close>), and a client forgets detached buffers that the server left
  out of a long list (\<open>detached_forgotten\<close>).

  \<^bold>\<open>Not covered by the request theorems.\<close> The requests that create detached splits and tabs, replace or wrap
  nodes, move a buffer to a pane, break a node out or join a buffer are modelled but not of the type \<open>request\<close>:
  some of them reach states that \<open>validate\<close> rejects or a cycle (\<open>Server_Runs\<close>), the others need layouts that the
  requests of the type do not build. Zooming before switching tabs keeps \<open>good\<close> but not what \<open>validate\<close> asks of
  the zoomed node (\<open>zoom_then_switch_invalid\<close>).

  \<^bold>\<open>Not modelled.\<close> Sockets, tasks and processes (\<open>server.rs\<close>, \<open>buffer_runtime.rs\<close>, \<open>remote.rs\<close>), the terminal
  emulator and its generated bindings, the FlatBuffers codec, JSON and the file system below \<open>persist.rs\<close>
  (the file is the value it decodes to), the search for an existing directory in \<open>restore.rs\<close> (an argument),
  the script engine, rendering, and the command line's argument parser: they are input and output, foreign
  or generated code, or read the whole client at once. Of \<open>configured_client.rs\<close> only what drives the prompt,
  copy mode and the search is modelled; of \<open>server.rs\<close> only the answers a client resynchronises from.
\<close>

section \<open>A binding of two keys\<close>

definition sample_bindings :: "nat bindings" where
  "sample_bindings = bt_insert normal_mode
     [\<lparr>bs_notation = [], bs_sequence = [TokenCtrl 97, TokenChar 99], bs_target = 7\<rparr>] bt_empty"

section \<open>Two windows\<close>

definition sample_windows :: server_state where
  "sample_windows = snd (add_root_tab_from_buffer 1 [] 3 sample_state)"

lemma sample_windows_root:
  "\<exists>tb. bt_get (nodes sample_windows) 1 = Some (Tabs tb) \<and> tb_session_id tb = 1 \<and> length (tb_tabs tb) = 2 \<and> tb_active tb = 1"
  by (simp add: sample_windows_def sample_eval cong: run_congs)

lemma sample_windows_inv: "inv sample_windows" and sample_windows_session: "has_session 1 sample_windows"
proof -
  obtain se b where h: "bt_get (sessions sample_state) 1 = Some se" "bt_get (buffers sample_state) 3 = Some b"
    "bu_attachment b = Detached"
    using sample_session sample_detached by blast
  have "node_ids sample_state < u64_max" using sample_ids_left by (simp add: ids_left_def)
  then show "inv sample_windows" "has_session 1 sample_windows"
    using add_root_tab_from_buffer_run [OF sample_good _ h, of "[]"] goodD(1)
    unfolding sample_windows_def has_session_def by (metis snd_conv)+
qed

section \<open>Consistency\<close>



text \<open>
  C19. The searches of the layout find what the links say: a node is reported visible from \<open>n\<close> iff a chain
  of shown links leads from it to \<open>n\<close>, the visible leaves are the views with such a chain, a subtree
  contains the nodes with a chain of parent links, and so does the test for descendants. All of them
  return, in every state whose layout is a forest.
\<close>

theorem visibility_exact:
  assumes "structure_ok s" and "tabs_ok s" and "bt_get (nodes s) n = Some nd" and "bt_get (nodes s) m = Some md"
  shows "is_node_visible_from s n m = Ok ((m, n) \<in> (showing s)\<^sup>*) \<and>
    (\<exists>xs. visible_leaf_ids s n = Ok xs \<and> set xs = {l. is_view s l \<and> (l, n) \<in> (showing s)\<^sup>*}) \<and>
    subtree_contains s n m = Ok (m \<in> below (layout s) n) \<and>
    node_is_descendant_of s m n = Ok (m \<in> below (layout s) n)"
proof -
  have f: "forest (layout s)" and n: "n \<in> dom (layout s)" and m: "m \<in> dom (layout s)"
    using assms(1,3,4) by (auto simp: structure_ok_def dom_layout)
  have "\<exists>xs. visible_leaf_ids s n = Ok xs \<and> set xs = {l. is_view s l \<and> (l, n) \<in> (showing s)\<^sup>*}"
    using visible_leaf_ids_Ok [OF f assms(2) n] by (simp add: shown_leaf_def)
  then show ?thesis
    by (simp add: is_node_visible_from_Ok [OF f n] subtree_contains_Ok [OF f n] node_is_descendant_of_Ok [OF f m])
qed

theorem visibility_exact_witness:
  "subtree_contains sample_state 1 2 = Ok (2 \<in> below (layout sample_state) 1)"
proof -
  have "tabs_ok sample_state" using sample_inv by (simp add: inv_def)
  moreover obtain nd md where "bt_get (nodes sample_state) 1 = Some nd" "bt_get (nodes sample_state) 2 = Some md"
    using sample_root sample_views by (auto simp: is_view_def)
  ultimately show ?thesis using visibility_exact [OF sample_structure] by blast
qed

text \<open>
  C16. Removing a subtree removes exactly the nodes below its root, whatever their number and depth, and
  detaches exactly the buffers those nodes showed; no other node, buffer, session or floating window
  changes.
\<close>

theorem remove_subtree_exact:
  assumes "structure_ok s" and "bt_get (nodes s) n = Some nd"
  shows "\<exists>t. remove_subtree_nodes n s = (Ok (), t) \<and>
    (\<forall>m. bt_get (nodes t) m = (if m \<in> below (layout s) n then None else bt_get (nodes s) m)) \<and>
    (\<forall>bid. bt_get (buffers t) bid = map_option (detach_from (below (layout s) n)) (bt_get (buffers s) bid)) \<and>
    sessions t = sessions s \<and> floating t = floating s"
proof -
  have "n \<in> dom (layout s)" using assms(2) by (simp add: dom_layout domI)
  then have "remove_subtree_nodes n s = (Ok (), prune (below (layout s) n) s)"
    using remove_subtree_prune assms(1) by (simp add: structure_ok_def)
  then show ?thesis by simp
qed

theorem remove_subtree_exact_witness:
  "\<exists>t. remove_subtree_nodes 4 sample_state = (Ok (), t) \<and>
     bt_get (nodes t) 2 = None \<and> bt_get (nodes t) 3 = None \<and> bt_get (nodes t) 4 = None"
proof -
  obtain nd where "bt_get (nodes sample_state) 4 = Some nd" using sample_kids(2) by auto
  from remove_subtree_exact [OF sample_structure this]
  obtain t where "remove_subtree_nodes 4 sample_state = (Ok (), t)"
    "\<forall>m. bt_get (nodes t) m = (if m \<in> below (layout sample_state) 4 then None else bt_get (nodes sample_state) m)"
    by blast
  moreover have "{2, 3, 4} \<subseteq> below (layout sample_state) 4" using sample_up by (auto simp: below_def)
  ultimately show ?thesis by auto
qed

section \<open>Focus\<close>

text \<open>
  C14. Focusing a pane of a shown window succeeds, changes nothing but focus, keeps the invariant, and
  leaves the pane focused and visible: the active tabs on the way to it are switched.
\<close>

theorem focus_leaf_correct:
  assumes "inv s" and "focusable s sid r leaf"
  shows "\<exists>t se. focus_leaf sid leaf s = (Ok (), t) \<and> quiet t = quiet s \<and> inv t \<and>
    bt_get (sessions t) sid = Some se \<and> se_focused_leaf se = Some leaf \<and>
    is_view t leaf \<and> visible_in t sid leaf"
proof -
  obtain t se where t: "focus_leaf sid leaf s = (Ok (), t)" "quiet t = quiet s" "inv t" "healed sid t"
    "bt_get (sessions t) sid = Some se" "se_focused_leaf se = Some leaf"
    using focus_leaf_healed [OF assms] by blast
  then show ?thesis by (auto simp: healed_def)
qed

theorem focus_leaf_correct_witness:
  "\<exists>t se. focus_leaf 1 2 sample_state = (Ok (), t) \<and> quiet t = quiet sample_state \<and> inv t \<and>
    bt_get (sessions t) 1 = Some se \<and> se_focused_leaf se = Some 2 \<and> is_view t 2 \<and> visible_in t 1 2"
  by (rule focus_leaf_correct [OF sample_inv sample_focusable])

text \<open>
  C15. \<open>heal_focus\<close> succeeds for every session, changes nothing but focus, and afterwards the session
  focuses a visible pane whenever it shows one, and none otherwise.
\<close>

theorem heal_focus_correct:
  assumes "inv s" and "has_session sid s"
  shows "\<exists>t se. heal_focus sid s = (Ok (), t) \<and> quiet t = quiet s \<and> inv t \<and>
    bt_get (sessions t) sid = Some se \<and>
    (case se_focused_leaf se of
       Some l \<Rightarrow> is_view t l \<and> visible_in t sid l
     | None \<Rightarrow> \<forall>l. is_view t l \<longrightarrow> \<not> visible_in t sid l)"
  using heals_heal_focus [OF assms] unfolding heals_def healed_def by blast

theorem heal_focus_correct_witness:
  "\<exists>t se. heal_focus 1 sample_state = (Ok (), t) \<and> inv t \<and> bt_get (sessions t) 1 = Some se"
  using heal_focus_correct [OF sample_inv sample_has_session] by blast

text \<open>
  C17. Switching a tabs node to one of its tabs succeeds and keeps the invariant: that tab is the active one
  then, no other tabs node switches, and nothing but focus and active tabs changes. If the tabs node was
  visible, the focus of its session is healed to what is now shown.
\<close>

theorem switch_tab_correct:
  assumes "inv s" and "bt_get (nodes s) n = Some (Tabs tb)" and "i < length (tb_tabs tb)"
    and "has_session (tb_session_id tb) s"
  shows "\<exists>t tb'. switch_tab n i s = (Ok (), t) \<and> quiet t = quiet s \<and> inv t \<and>
    bt_get (nodes t) n = Some (Tabs tb') \<and> tb_tabs tb' = tb_tabs tb \<and> tb_active tb' = i \<and>
    (\<forall>m tm. m \<noteq> n \<longrightarrow> bt_get (nodes s) m = Some (Tabs tm) \<longrightarrow>
       (\<exists>tm'. bt_get (nodes t) m = Some (Tabs tm') \<and> tb_active tm' = tb_active tm)) \<and>
    (visible_in s (tb_session_id tb) n \<longrightarrow> healed (tb_session_id tb) t)"
  by (rule switch_tab_Ok [OF assms])

theorem switch_tab_correct_witness:
  "\<exists>t tb. switch_tab 1 0 sample_windows = (Ok (), t) \<and> bt_get (nodes t) 1 = Some (Tabs tb) \<and> tb_active tb = 0 \<and> inv t"
proof -
  obtain tb where "bt_get (nodes sample_windows) 1 = Some (Tabs tb)" "tb_session_id tb = 1" "length (tb_tabs tb) = 2"
    "tb_active tb = 1" using sample_windows_root by blast
  then show ?thesis
    using switch_tab_correct [OF sample_windows_inv, of 1 tb 0] sample_windows_session by auto
qed

text \<open>
  C18. Zooming a visible node succeeds: it becomes the zoomed node of its session, stays visible, and
  the focus moves inside it, to a visible pane if the node shows one.
\<close>

theorem zoom_node_correct:
  assumes "inv s" and "healed sid s" and "visible_in s sid n"
  shows "\<exists>t se. zoom_node n s = (Ok (), t) \<and> inv t \<and> visible_in t sid n \<and>
    bt_get (sessions t) sid = Some se \<and> se_zoomed_node se = Some n \<and>
    (case se_focused_leaf se of
       Some l \<Rightarrow> is_view t l \<and> l \<in> below (layout t) n \<and> visible_in t sid l
     | None \<Rightarrow> \<forall>l. \<not> shown_leaf t n l)"
  using zoom_node_Ok [OF assms] unfolding focus_inside_def by (metis option.inject)

theorem zoom_node_correct_witness:
  "\<exists>t se. zoom_node 2 sample_state = (Ok (), t) \<and> visible_in t 1 2 \<and>
     bt_get (sessions t) 1 = Some se \<and> se_zoomed_node se = Some 2"
  using zoom_node_correct [OF sample_inv sample_healed sample_visible(2)] by blast

text \<open>
  C20. The methods that move the focus (\<open>focus_leaf\<close>, \<open>select_pane\<close>, \<open>switch_tab\<close>, \<open>heal_focus\<close>,
  \<open>focus_floating\<close>, \<open>show_node\<close>, \<open>focus_last_pane\<close>) change nothing but focus, in every state and also
  when they fail: erasing the focused panes and windows, the focus memories and histories, the active
  tabs and the activity flags from the states before and after gives the same state.
\<close>

theorem focus_changes_only_focus:
  "quiet (snd (focus_leaf sid leaf s)) = quiet s \<and>
   quiet (snd (select_pane sid leaf s)) = quiet s \<and>
   quiet (snd (switch_tab n i s)) = quiet s \<and>
   quiet (snd (heal_focus sid s)) = quiet s \<and>
   quiet (snd (focus_floating fid s)) = quiet s \<and>
   quiet (snd (show_node sid n s)) = quiet s \<and>
   quiet (snd (focus_last_pane sid s)) = quiet s"
  using quiet_focus_leaf quiet_select_pane quiet_switch_tab quiet_heal_focus quiet_focus_wrappers
  unfolding keeps_def by blast

section \<open>Requests\<close>

text \<open>
  C1. From the empty state, after any sequence of the requests of the type \<open>request\<close>, each sent while it is
  \<open>offered\<close>, and whichever of them failed, the server's state satisfies the invariant: the links of the
  layout form a forest with matching sessions, every view shows a buffer attached to it, every root is where
  its owner expects it, active tabs are in range, every id in use has been issued, and every split has one
  size for each child. The requests create, rename and close sessions, windows, tabs and floating windows,
  create, update and remove buffers, split, resize, swap, reorder, focus, select, zoom and close panes. A
  request is offered while ids are left, a pane is split only when some window holds it, and no close empties
  a nested tabs node, which the code does not survive. The requests that build and move subtrees (create
  split or tabs, replace, wrap, move a buffer to a pane, break, join) are not of this type.
\<close>

theorem reached_good:
  assumes "reaches perform offered state_new s"
  shows "good s \<and> sized s"
  using mux.reaches_ok [OF assms] unfolding layout_ok_def .

theorem reached_good_witness: "good sample_state \<and> sized sample_state"
  by (rule reached_good [OF sample_reached])

text \<open>
  C2. In a state reached by such requests, each further request of the type \<open>request\<close> that is offered returns,
  with a result or an error, without a panic and without a walk that does not end; what it leaves behind is
  reached again, so the next offered request is answered too.
\<close>

theorem requests_answered:
  assumes "reaches perform offered state_new s" and "offered r s"
  shows "\<exists>t. (perform r s = (Ok (), t) \<or> (\<exists>e. perform r s = (Err e, t))) \<and> reaches perform offered state_new t"
  using mux.reaches_answered [OF assms] by simp

theorem requests_answered_witness:
  "\<exists>t. (perform (SwapSiblings 2 3) sample_state = (Ok (), t) \<or> (\<exists>e. perform (SwapSiblings 2 3) sample_state = (Err e, t))) \<and>
     reaches perform offered state_new t"
  by (rule requests_answered [OF sample_reached]) (simp add: offered_def sample_ids_left)

section \<open>Closing\<close>

text \<open>
  C3. Closing a node removes exactly the panes below it, whatever containers collapse on the way up: the
  panes that are left show what they showed, no node below the closed one is left, every buffer is still
  there, and the focus of the session is healed. When it fails, the node had no owner, and nothing
  changed, or the panes are gone all the same.
\<close>

theorem close_node_correct:
  assumes "good s" and "bt_get (nodes s) n = Some nd" and "closable s n" and "is_session_root s n \<Longrightarrow> node_ids s < u64_max"
  shows "wp (close_node n)
    (\<lambda>_ t. good t \<and> removed (below (layout s) n) s t \<and> healed (node_session nd) t)
    (\<lambda>_ t. good t \<and> (removed (below (layout s) n) s t \<or> t = s \<and> node_par nd = None)) s"
  by (rule close_node_run [OF assms])

theorem close_node_correct_witness:
  "wp (close_node 2) (\<lambda>_ t. removed (below (layout sample_state) 2) sample_state t) (\<lambda>_ _. True) sample_state"
proof -
  obtain v where v: "bt_get (nodes sample_state) 2 = Some (BufferView v)" using sample_views by (auto simp: is_view_def)
  have "closable sample_state 2" by (simp add: closable_def nested_single_def sample_eval cong: run_congs)
  moreover have "node_ids sample_state < u64_max" using sample_ids_left by (simp add: ids_left_def)
  ultimately show ?thesis by (intro wp_mono [OF close_node_correct [OF sample_good v]]) auto
qed

text \<open>
  C4. Normalising the containers above a closed node ends, although each round may replace the node it
  started from: in a state with the invariant it returns, keeps the invariant, removes no pane and adds
  no node. The fuel of the loop is twice one more than the number of nodes.
\<close>

theorem normalize_upwards_ends:
  assumes "good s"
  shows "\<exists>r t. normalize_upwards n s = (r, t) \<and> good t \<and> shrinks s t \<and> (r = Ok () \<or> (\<exists>e. r = Err e))"
  by (rule normalize_upwards_good [OF assms])

theorem normalize_upwards_ends_witness:
  "\<exists>r t. normalize_upwards 4 sample_state = (r, t) \<and> good t \<and> shrinks sample_state t \<and> (r = Ok () \<or> (\<exists>e. r = Err e))"
  by (rule normalize_upwards_ends [OF sample_good])

text \<open>
  C9. Closing a session succeeds and takes its root and all its floating windows with it; the other
  sessions stay.
\<close>

theorem close_session_correct:
  assumes "good s" and "bt_get (sessions s) sid = Some se"
  shows "\<exists>t. close_session sid s = (Ok (), t) \<and> good t \<and> bt_get (sessions t) sid = None \<and>
    (\<forall>fid f. bt_get (floating t) fid = Some f \<longrightarrow> fw_session_id f \<noteq> sid) \<and>
    (\<forall>a. a \<noteq> sid \<longrightarrow> has_session a t = has_session a s) \<and>
    bt_get (nodes t) (se_root_node se) = None"
  by (rule close_session_run [OF assms])

theorem close_session_correct_witness:
  "\<exists>t. close_session 1 sample_state = (Ok (), t) \<and> good t \<and> bt_get (sessions t) 1 = None"
  using sample_session close_session_correct [OF sample_good, of 1] by blast

section \<open>Opening\<close>

text \<open>
  C6. Opening a window on a detached buffer adds one pane, which shows that buffer, and focuses it; every
  other pane shows what it showed.
\<close>

theorem new_window_correct:
  assumes "good s" and "node_ids s < u64_max" and "bt_get (sessions s) sid = Some se"
    and "bt_get (buffers s) bid = Some b" and "bu_attachment b = Detached"
  shows "\<exists>i t se'. add_root_tab_from_buffer sid title bid s = (Ok i, t) \<and> good t \<and>
    panes t = (panes s)(node_ids s := Some bid) \<and>
    bt_get (sessions t) sid = Some se' \<and> se_focused_leaf se' = Some (node_ids s) \<and> visible_in t sid (node_ids s)"
  by (rule add_root_tab_from_buffer_run [OF assms])

theorem new_window_correct_witness:
  "\<exists>i t. add_root_tab_from_buffer 1 [] 3 sample_state = (Ok i, t) \<and> panes t = (panes sample_state)(5 := Some 3)"
proof -
  obtain se b where "bt_get (sessions sample_state) 1 = Some se" "bt_get (buffers sample_state) 3 = Some b"
    "bu_attachment b = Detached"
    using sample_session sample_detached by blast
  moreover have "node_ids sample_state < u64_max" using sample_ids_left by (simp add: ids_left_def)
  ultimately obtain i t where "add_root_tab_from_buffer 1 [] 3 sample_state = (Ok i, t)"
    "panes t = (panes sample_state)(node_ids sample_state := Some 3)"
    using new_window_correct [OF sample_good, of 1 se 3 b "[]"] by blast
  then show ?thesis by (simp add: sample_ids)
qed

text \<open>
  C7. A tab for a buffer is added completely or not at all: on success there is one new pane, on every
  error (no such tabs node, an index out of range, an unknown or attached buffer) the panes are the old
  ones, the view created on the way is discarded, and the invariant holds in both cases.
\<close>

theorem new_tab_all_or_nothing:
  assumes "good s" and "node_ids s < u64_max"
  shows "wp (add_tab_from_buffer_at n i title bid)
    (\<lambda>_ t. good t \<and> panes t = (panes s)(node_ids s := Some bid)) (\<lambda>_ t. good t \<and> panes t = panes s) s"
  by (rule add_tab_from_buffer_at_run [OF assms])

theorem new_tab_all_or_nothing_witness:
  "wp (add_tab_from_buffer_at 1 7 [] 3) (\<lambda>_ t. good t \<and> panes t = (panes sample_state)(5 := Some 3))
     (\<lambda>_ t. good t \<and> panes t = panes sample_state) sample_state"
proof -
  have "node_ids sample_state < u64_max" using sample_ids_left by (simp add: ids_left_def)
  from new_tab_all_or_nothing [OF sample_good this, of 1 7 "[]" 3] show ?thesis unfolding sample_ids .
qed

text \<open>
  C5. Splitting a pane puts a new split of the given direction in its place, with the pane and a new pane on
  the given buffer as its children, in that order and with equal sizes: the parent of the pane has the split
  where it had the pane, or the floating window whose root the pane was has the split as its root; the rest
  of the layout is as it was, every other pane shows what it showed, and the new pane is focused and visible.
\<close>

theorem split_pane_correct:
  assumes "good s" and "Suc (node_ids s) < u64_max" and "focusable s sid r leaf"
    and "bt_get (buffers s) bid = Some b" and "bu_attachment b = Detached"
  shows "\<exists>t se sp c. split_leaf_with_new_buffer leaf direction bid s = (Ok (Suc (node_ids s)), t) \<and> good t \<and>
    panes t = (panes s)(node_ids s := Some bid) \<and>
    bt_get (nodes t) (Suc (node_ids s)) = Some (Split sp) \<and>
    sp_direction sp = direction \<and> sp_children sp = [leaf, node_ids s] \<and> sp_sizes sp = [1, 1] \<and>
    layout s leaf = Some c \<and> sp_parent sp = ce_parent c \<and> takes_place s leaf (ce_parent c) (Suc (node_ids s)) t \<and>
    (\<forall>m. m \<notin> {leaf, node_ids s, Suc (node_ids s)} \<longrightarrow> ce_parent c \<noteq> Some m \<longrightarrow> layout t m = layout s m) \<and>
    bt_get (sessions t) sid = Some se \<and> se_focused_leaf se = Some (node_ids s) \<and> visible_in t sid (node_ids s)"
  by (rule split_leaf_run [OF assms])

theorem split_pane_correct_witness:
  "\<exists>t sp. split_leaf_with_new_buffer 2 Vertical 3 sample_state = (Ok 6, t) \<and> panes t = (panes sample_state)(5 := Some 3) \<and>
     bt_get (nodes t) 6 = Some (Split sp) \<and> sp_direction sp = Vertical \<and> sp_children sp = [2, 5] \<and>
     takes_place sample_state 2 (sp_parent sp) 6 t"
proof -
  obtain b where "bt_get (buffers sample_state) 3 = Some b" "bu_attachment b = Detached" using sample_detached by blast
  moreover have "Suc (node_ids sample_state) < u64_max" using sample_ids_left by (simp add: ids_left_def)
  ultimately obtain t sp where "split_leaf_with_new_buffer 2 Vertical 3 sample_state = (Ok (Suc (node_ids sample_state)), t)"
    "panes t = (panes sample_state)(node_ids sample_state := Some 3)"
    "bt_get (nodes t) (Suc (node_ids sample_state)) = Some (Split sp)" "sp_direction sp = Vertical"
    "sp_children sp = [2, node_ids sample_state]" "takes_place sample_state 2 (sp_parent sp) (Suc (node_ids sample_state)) t"
    using split_pane_correct [OF sample_good _ sample_focusable] by metis
  then show ?thesis by (auto simp: sample_ids)
qed

text \<open>
  C8. Opening a floating window on a buffer adds one pane, the root of the new window, and heals the
  focus when asked to take it; on every error the panes are the old ones.
\<close>

theorem new_floating_correct:
  assumes "good s" and "floating_ids s < u64_max" and "node_ids s < u64_max"
  shows "wp (create_floating_from_buffer_with_options sid bid geometry title focus close_on_empty)
    (\<lambda>fid t. good t \<and> panes t = (panes s)(node_ids s := Some bid) \<and> (focus \<longrightarrow> healed sid t) \<and>
       (\<exists>f. bt_get (floating t) fid = Some f \<and> fw_root_node f = node_ids s \<and> fw_session_id f = sid))
    (\<lambda>_ t. good t \<and> panes t = panes s) s"
  by (rule create_floating_from_buffer_run [OF assms])

theorem new_floating_correct_witness:
  "wp (create_floating_from_buffer_with_options 1 3 \<lparr>fg_x = 0, fg_y = 0, fg_width = 10, fg_height = 5\<rparr> None True True)
    (\<lambda>_ t. panes t = (panes sample_state)(5 := Some 3) \<and> healed 1 t) (\<lambda>_ t. panes t = panes sample_state) sample_state"
proof -
  have "floating_ids sample_state < u64_max" "node_ids sample_state < u64_max"
    using sample_ids_left by (simp_all add: ids_left_def)
  from new_floating_correct [OF sample_good this] show ?thesis by (rule wp_mono) (auto simp: sample_ids)
qed

section \<open>Persistence\<close>

text \<open>
  C10. A consistent state that is saved and loaded comes back as it was, apart from what a restart forgets:
  running processes are interrupted, times are cut to the millisecond, and the focus histories, the lines
  of helper buffers, pipes, synchronised panes and the environment are gone. The id counters restart just
  above the ids in use.
\<close>

theorem workspace_roundtrip:
  assumes "keyed s" and "validate s = Ok ()" and "storable s"
  shows "load_persisted (to_persisted s) = Ok (reloaded s)"
  by (rule persist_roundtrip [OF assms])

theorem workspace_roundtrip_witness: "load_persisted (to_persisted sample_state) = Ok (reloaded sample_state)"
proof -
  have "validate sample_state = Ok ()" by (simp add: sample_eval cong: run_congs)
  then show ?thesis using workspace_roundtrip [OF sample_keyed _ sample_storable] by blast
qed

text \<open>
  C11. Whatever workspace file is loaded, of this format or of an earlier one, well formed or not: a state
  that loads is consistent. Duplicate ids, dangling references, wrong links, unsupported versions and id
  spaces without room are errors.
\<close>

theorem loaded_consistent:
  assumes "load_persisted w = Ok s"
  shows "keyed s \<and> consistent s"
  by (rule load_persisted_consistent [OF assms])

theorem loaded_consistent_witness: "keyed (reloaded sample_state) \<and> consistent (reloaded sample_state)"
proof -
  have "validate sample_state = Ok ()" by (simp add: sample_eval cong: run_congs)
  then have "load_persisted (to_persisted sample_state) = Ok (reloaded sample_state)"
    using persist_roundtrip [OF sample_keyed _ sample_storable] by blast
  then show ?thesis by (rule loaded_consistent)
qed

section \<open>Client input\<close>

text \<open>
  C26. A program that asked for every key as an escape sequence can tell all keys and modifiers apart:
  different keys have different encodings, except for the four control characters that are keys of their
  own.
\<close>

theorem keys_told_apart:
  assumes "mode_reports_all_keys mode" and "own_number code" and "own_number code'"
    and "encode_key code mods mode = encode_key code' mods' mode"
  shows "code = code' \<and> mods = mods'"
  by (rule encode_key_inject [OF assms])

theorem keys_told_apart_witness: "encode_key (KeyChar 97) mods_none 8 \<noteq> encode_key KeyUp mods_none 8"
proof
  assume e: "encode_key (KeyChar 97) mods_none 8 = encode_key KeyUp mods_none 8"
  have "mode_reports_all_keys 8" by (simp add: mode_reports_all_keys_def)
  then have "KeyChar 97 = KeyUp \<and> mods_none = mods_none" by (rule keys_told_apart) (simp_all add: e)
  then show False by simp
qed

text \<open>
  C25. The key sequences a notation can express are exactly the nonempty sequences of writable tokens:
  every notation that parses yields one, and every such sequence has a notation that parses back to it.
\<close>

theorem notation_image: "(\<exists>s. parse_key_sequence s = Ok ts) \<longleftrightarrow> ts \<noteq> [] \<and> list_all writable ts"
  by (rule parse_key_sequence_image)

text \<open>
  C22. No typed key is lost, repeated or reordered by the resolution of bindings: the keys that were
  pending, followed by the typed ones, are the keys handed to bindings and to the fallback, in order,
  followed by the keys still pending.
\<close>

theorem typed_keys_conserved:
  assumes "type_keys bindings modes ks st = (rs, t)"
  shows "concat (map consumed rs) @ pending_sequence t = pending_sequence st @ ks"
  using type_keys_conserves [OF assms] by blast

theorem typed_keys_conserved_witness:
  "concat (map consumed (fst (type_keys sample_bindings builtin_modes [TokenEnter, TokenTab] input_state_default))) @
     pending_sequence (snd (type_keys sample_bindings builtin_modes [TokenEnter, TokenTab] input_state_default)) =
   pending_sequence input_state_default @ [TokenEnter, TokenTab]"
  by (rule typed_keys_conserved [OF surjective_pairing])

text \<open>
  C23. In every state the input reaches, whatever was typed and whichever mode a script set, the pending
  keys are the proper start of a binding of the mode, and no part of them from the start is bound: they
  wait for something, and what is bound fires at once.
\<close>

theorem pending_keys_wait:
  assumes "reaches (handle_input bindings modes) (\<lambda>_ _. True) input_state_default st" and "pending_sequence st \<noteq> []"
  shows "(\<exists>b \<in> bound bindings (current_mode st). strict_prefix (pending_sequence st) b) \<and>
    (\<forall>p. p \<noteq> [] \<longrightarrow> prefix p (pending_sequence st) \<longrightarrow> p \<notin> bound bindings (current_mode st))"
  using keys.reaches_ok [OF assms(1)] assms(2) unfolding pending_ok_def by blast

theorem pending_keys_wait_witness:
  "\<exists>b \<in> bound sample_bindings normal_mode. strict_prefix [TokenCtrl 97] b"
proof -
  let ?st = "snd (handle_input sample_bindings builtin_modes (Typed (TokenCtrl 97)) input_state_default)"
  have r: "reaches (handle_input sample_bindings builtin_modes) (\<lambda>_ _. True) input_state_default ?st"
    by (rule reaches.request [OF reaches.start]) simp
  have st: "pending_sequence ?st = [TokenCtrl 97]" "current_mode ?st = normal_mode"
    by (simp_all add: sample_bindings_def resolve_key_def mode_bindings_def push_pending_def input_state_default_def Let_def)
  have "pending_sequence ?st \<noteq> []" unfolding st by simp
  from pending_keys_wait [OF r this] show ?thesis unfolding st by blast
qed

text \<open>
  C24. A binding fires: when no proper start of it is bound in the mode, typing its keys reports a partial
  match for each key but the last, and then the first binding of that sequence, and nothing stays pending.
\<close>

theorem binding_fires:
  assumes "\<And>p. p \<noteq> [] \<Longrightarrow> strict_prefix p ks \<Longrightarrow> p \<notin> bound bindings (current_mode st)"
    and "find (\<lambda>b. bs_sequence b = ks) (mode_bindings bindings (current_mode st)) = Some b"
    and "pending_sequence st = []" and "ks \<noteq> []"
  shows "type_keys bindings modes ks st =
    (replicate (length ks - 1) PrefixMatch @ [ExactMatch \<lparr>bm_mode = current_mode st, bm_sequence = ks, bm_target = bs_target b\<rparr>],
     st)"
  using type_bound [OF assms(1,2), of ks modes] assms(3,4) by (simp add: clear_pending_def)

theorem binding_fires_witness:
  "type_keys sample_bindings builtin_modes [TokenCtrl 97, TokenChar 99] input_state_default =
    ([PrefixMatch, ExactMatch \<lparr>bm_mode = normal_mode, bm_sequence = [TokenCtrl 97, TokenChar 99], bm_target = 7\<rparr>],
     input_state_default)"
proof -
  let ?b = "\<lparr>bs_notation = [], bs_sequence = [TokenCtrl 97, TokenChar 99], bs_target = 7\<rparr> :: nat binding_spec"
  have m: "mode_bindings sample_bindings normal_mode = [?b]" by (simp add: mode_bindings_def sample_bindings_def)
  have c: "current_mode input_state_default = normal_mode" "pending_sequence input_state_default = []"
    by (simp_all add: input_state_default_def)
  have "type_keys sample_bindings builtin_modes [TokenCtrl 97, TokenChar 99] input_state_default =
    (replicate (length [TokenCtrl 97, TokenChar 99] - 1) PrefixMatch @
      [ExactMatch \<lparr>bm_mode = current_mode input_state_default, bm_sequence = [TokenCtrl 97, TokenChar 99], bm_target = bs_target ?b\<rparr>],
     input_state_default)"
    by (rule binding_fires) (auto simp: c m bound_def strict_prefix_def)
  then show ?thesis by (simp add: c)
qed

section \<open>The client's copy of the server's state\<close>

lemma sample_tellable: "tellable sample_state"
proof -
  have "list_all (\<lambda>nd. case nd of Tabs tb \<Rightarrow> tb_active tb < 2 ^ 32 | _ \<Rightarrow> True) (bt_values (nodes sample_state))"
    by (simp add: sample_eval cong: run_congs)
  then have "tabs_fit sample_state" by (force simp: tabs_fit_def list_all_iff bt_values_iff)
  moreover have "list_all (\<lambda>(bid, b). bu_id b = bid) (bt_entries (buffers sample_state))"
    by (simp add: sample_eval cong: run_congs)
  then have "bu_id b = bid" if "bt_get (buffers sample_state) bid = Some b" for bid b
    using that by (force simp: list_all_iff bt.in_ents_iff)
  ultimately show ?thesis using sample_good by (simp add: tellable_def)
qed

text \<open>
  C12. A full resynchronisation makes the client's copy a refinement of the server's state: it succeeds, and
  afterwards the client knows of every session exactly the session, nodes and floating windows the server
  has and the buffers shown in them, and nothing is left of sessions that are gone. The server's state is
  taken not to change between the requests of one resynchronisation.
\<close>

theorem client_mirrors_server:
  assumes "tellable s" and "copy_ok (mc_state m)"
  shows "\<exists>m'. resync_all_sessions (server_answers visible client s) m = (Ok (), m') \<and>
    copy_ok (mc_state m') \<and> (\<forall>sid. mirrors s sid (mc_state m'))"
  using server.resync_all_mirrors [OF assms, of visible client]
  by (auto simp: wp_def split: prod.splits outcome.splits)

theorem client_mirrors_server_witness:
  "\<exists>m'. resync_all_sessions (server_answers (\<lambda>_. Panic) 1 sample_state) mux_client_new = (Ok (), m') \<and>
    mirrors sample_state 1 (mc_state m')"
  using client_mirrors_server [OF sample_tellable, of mux_client_new "\<lambda>_. Panic" 1] copy_ok_default
  by (auto simp: mux_client_new_def)

text \<open>
  C27. Whatever the server sends and the user scrolls, in any order: in the client's copy every record is
  filed under its own id and belongs to a known session, every scroll state belongs to a known node and
  shows no more lines than there are, and a view's scroll state is for the buffer the view shows.
\<close>

theorem client_copy_kept:
  assumes "reaches update sendable client_state_default c"
  shows "copy_ok c"
  by (rule copy.reaches_ok [OF assms])

theorem client_copy_kept_witness:
  "\<exists>snap. session_snapshot sample_state 1 = Ok snap \<and>
     copy_ok (snd (update (ScrollTop 2 5) (snd (update (ForgetBuffer 2) (snd (update (ApplySnapshot snap) client_state_default))))))"
proof -
  obtain se where se: "bt_get (sessions sample_state) 1 = Some se" using sample_session by blast
  obtain snap where snap: "session_snapshot sample_state 1 = Ok snap" "describes sample_state se snap"
    using session_snapshot_describes [OF sample_tellable se] by blast
  have "snap_ok snap" by (rule describes_ok(1) [OF sample_tellable se snap(2)])
  then have "copy_ok (snd (update (ScrollTop 2 5) (snd (update (ForgetBuffer 2) (snd (update (ApplySnapshot snap) client_state_default))))))"
    by (intro client_copy_kept reaches.request reaches.start) (simp_all add: sendable_def)
  then show ?thesis using snap(1) by blast
qed

text \<open>
  C28. The location the server reports of a buffer is where the buffer is: detached exactly when it is not
  attached, and otherwise the view it is attached to with that view's session, and with a floating window
  exactly when the view hangs below that window's root.
\<close>

theorem buffer_location_exact:
  assumes "good s" and "bt_get (buffers s) bid = Some b"
  shows "\<exists>a. buffer_location s bid = Ok \<lparr>bl_buffer_id = bid, bl_attachment = a\<rparr> \<and>
    (case a of
       LocDetached \<Rightarrow> bu_attachment b = Detached
     | LocSession sid n \<Rightarrow> bu_attachment b = Attached n \<and> (\<exists>c. layout s n = Some c \<and> ce_session c = sid) \<and>
         (\<forall>fid f. bt_get (floating s) fid = Some f \<longrightarrow> n \<notin> below (layout s) (fw_root_node f))
     | LocFloating sid n fid \<Rightarrow> bu_attachment b = Attached n \<and> (\<exists>c. layout s n = Some c \<and> ce_session c = sid) \<and>
         (\<exists>f. bt_get (floating s) fid = Some f \<and> n \<in> below (layout s) (fw_root_node f)))"
  by (rule buffer_location_Ok [OF assms])

theorem buffer_location_exact_witness:
  "\<exists>sid. buffer_location sample_state 1 = Ok \<lparr>bl_buffer_id = 1, bl_attachment = LocSession sid 2\<rparr>"
proof -
  obtain b where b: "bt_get (buffers sample_state) 1 = Some b" "bu_attachment b = Attached 2"
    by (simp add: sample_eval cong: run_congs)
  have none: "bt_get (floating sample_state) fid = None" for fid by (simp add: sample_eval cong: run_congs)
  from buffer_location_exact [OF sample_good b(1)]
  obtain a where "buffer_location sample_state 1 = Ok \<lparr>bl_buffer_id = 1, bl_attachment = a\<rparr>"
    "case a of
       LocDetached \<Rightarrow> bu_attachment b = Detached
     | LocSession sid n \<Rightarrow> bu_attachment b = Attached n \<and> (\<exists>c. layout sample_state n = Some c \<and> ce_session c = sid) \<and>
         (\<forall>fid f. bt_get (floating sample_state) fid = Some f \<longrightarrow> n \<notin> below (layout sample_state) (fw_root_node f))
     | LocFloating sid n fid \<Rightarrow> bu_attachment b = Attached n \<and> (\<exists>c. layout sample_state n = Some c \<and> ce_session c = sid) \<and>
         (\<exists>f. bt_get (floating sample_state) fid = Some f \<and> n \<in> below (layout sample_state) (fw_root_node f))"
    by blast
  then show ?thesis using b(2) none by (cases a) simp_all
qed

section \<open>The command prompt\<close>

text \<open>
  C29. Editing the prompt's line refines editing the text before and the text after the cursor: every key
  that does not browse the history succeeds, and does to the two texts what \<open>edited_text\<close> says.
\<close>

theorem prompt_key_refines:
  assumes "prompt_ok h p" and "\<not> browses key"
  shows "\<exists>p'. edit_key key h p = Ok p' \<and> prompt_ok h p' \<and> text_of p' = edited_text key (text_of p)"
  by (rule edit_key_refines [OF assms])

theorem prompt_key_refines_witness:
  "\<exists>p'. edit_key (EventChar 97) [] (command_prompt_new [58] [98] None normal_mode) = Ok p' \<and> text_of p' = ([98, 97], [])"
proof -
  let ?p = "command_prompt_new [58] [98] None normal_mode"
  have "prompt_ok [] ?p" by (simp add: prompt_ok_def command_prompt_new_def)
  moreover have "\<not> browses (EventChar 97)" by (simp add: browses_def)
  ultimately obtain p' where "edit_key (EventChar 97) [] ?p = Ok p'" "text_of p' = edited_text (EventChar 97) (text_of ?p)"
    using prompt_key_refines by blast
  moreover have "text_of ?p = ([98], [])" by (simp add: text_of_def command_prompt_new_def)
  ultimately show ?thesis by (simp add: typed_def is_control_def)
qed

text \<open>
  C30. Whatever prompts were opened and whatever was typed and pasted into them, with emacs or vi keys: the
  next key is handled without an error or a panic (no range that is cut out of the line ends before it starts
  or beyond the line, and no index is out of range), the history is bounded and holds no blank line and no
  line twice in a row.
\<close>

theorem prompt_keys_handled:
  assumes "reaches (prompt_step alnum quote) (\<lambda>_ _. True) prompt_client_default c"
  shows "(\<exists>line c'. handle_prompt_key alnum quote key c = (Ok line, c')) \<and>
    length (pc_history c) \<le> prompt_history_limit \<and> list_all (\<lambda>l. trim l \<noteq> []) (pc_history c) \<and> successively (\<noteq>) (pc_history c)"
  using prompt.reaches_ok [OF assms] handle_prompt_key_ok [of c alnum quote key]
  by (auto simp: prompt_client_ok_def history_ok_def wp_def split: prod.splits outcome.splits)

theorem prompt_keys_handled_witness:
  "\<exists>line c'. handle_prompt_key (\<lambda>_. True) (\<lambda>s. s) EventEnter
     (snd (prompt_step (\<lambda>_. True) (\<lambda>s. s) (OpenPrompt Vi [58] [97] None) prompt_client_default)) = (Ok line, c')"
  using prompt_keys_handled [OF reaches.request [OF reaches.start, of "\<lambda>_ _. True"]] by blast

text \<open>
  C31. Browsing the history back by some lines and forth again gives the line that was being typed, with the
  cursor at its end.
\<close>

theorem history_roundtrip:
  assumes "cpr_history_index p = None" and "Suc k \<le> length h"
  shows "\<exists>q. history_ups h (Suc k) p = Ok q \<and> cpr_input q = h ! (length h - Suc k) \<and>
    (history_down h ^^ Suc k) q = p\<lparr>cpr_cursor := length (cpr_input p), cpr_draft := [], cpr_history_index := None\<rparr>"
  using history_ups_run [OF assms] history_downs_run [OF assms(2), where x = "h ! (length h - Suc k)" and p = p and d = "cpr_input p"]
  by (simp add: set_input_def)

theorem history_roundtrip_witness:
  "\<exists>q. history_ups [[97], [98]] 2 (command_prompt_new [] [99] None normal_mode) = Ok q \<and> cpr_input q = [97] \<and>
     cpr_input ((history_down [[97], [98]] ^^ 2) q) = [99]"
proof -
  let ?p = "command_prompt_new [] [99] None normal_mode" and ?h = "[[97], [98]] :: rstring list"
  have "cpr_history_index ?p = None" "Suc 1 \<le> length ?h" by (simp_all add: command_prompt_new_def)
  from history_roundtrip [OF this] obtain q where q: "history_ups ?h (Suc 1) ?p = Ok q" "cpr_input q = ?h ! (length ?h - Suc 1)"
    "(history_down ?h ^^ Suc 1) q = ?p\<lparr>cpr_cursor := length (cpr_input ?p), cpr_draft := [], cpr_history_index := None\<rparr>"
    by blast
  have "cpr_input ((history_down ?h ^^ Suc 1) q) = [99]" unfolding q(3) by (simp add: command_prompt_new_def)
  then show ?thesis using q(1,2) by (simp add: numeral_2_eq_2)
qed

section \<open>Copy mode\<close>

definition ascii_lib :: unicode_lib where
  "ascii_lib = \<lparr>graphemes = map (\<lambda>c. [c]), display_width = length\<rparr>"

text \<open>
  C32. The word motions are what they are documented to be, on every text and from every cursor: \<open>w\<close> goes to
  the first place after the cursor where a word starts, \<open>e\<close> to the first where one ends, \<open>b\<close> to the last place
  before it where one starts, an empty line being a word of its own, and to the end or the start of the
  text when there is none. In particular they return. The same holds for the motions over words separated
  by blanks.
\<close>

theorem word_motions_exact:
  "(\<exists>v. first_after (walker_ok u ls ll space) word_starts (walker_new u ls ll cursor space) v \<and>
      copy_next_word_start u ls ll cursor space = walker_point v) \<and>
   (\<exists>v. first_after (walker_ok u ls ll space) word_ends (walker_new u ls ll cursor space) v \<and>
      copy_next_word_end u ls ll cursor space = Some (walker_point v)) \<and>
   (\<exists>v. last_before (walker_ok u ls ll space) word_starts (walker_new u ls ll cursor space) v \<and>
      copy_previous_word_start u ls ll cursor space = walker_point v)"
  using next_word_start_first next_word_end_first previous_word_start_last by blast

text \<open>
  C33. A counted motion of the copy-mode cursor returns, whichever motion and count: it is the motion that
  many times over, the cursor stays in the buffer, and the view shows the cursor and scrolls no further
  than the last page.
\<close>

theorem counted_motion_in_view:
  assumes "pt_line cursor < vp_total vp" and "vp_top vp < vp_total vp" and "vp_total vp \<le> u64_max"
  shows "\<exists>out. counted_motion u motion count cursor vp ls = Some out \<and> in_view vp out \<and>
    out = (one_motion u motion vp ls ^^ (if motion_repeats motion then max count 1 else 1)) \<lparr>mo_cursor = cursor, mo_top = vp_top vp\<rparr>"
proof (intro exI conjI)
  let ?n = "if motion_repeats motion then max count 1 else 1"
  show "counted_motion u motion count cursor vp ls = Some ((one_motion u motion vp ls ^^ ?n) \<lparr>mo_cursor = cursor, mo_top = vp_top vp\<rparr>)"
    by (rule counted_motion_iterates [OF assms])
  show "in_view vp ((one_motion u motion vp ls ^^ ?n) \<lparr>mo_cursor = cursor, mo_top = vp_top vp\<rparr>)"
    by (rule iterated_in_view) (use assms in auto)
qed (rule refl)

theorem counted_motion_in_view_witness:
  "\<exists>out. counted_motion ascii_lib NextWord 2 \<lparr>pt_line = 0, pt_column = 0\<rparr> \<lparr>vp_top = 0, vp_rows = 1, vp_total = 2, vp_cols = 80\<rparr>
     [[97, 32, 98], [99]] = Some out \<and> in_view \<lparr>vp_top = 0, vp_rows = 1, vp_total = 2, vp_cols = 80\<rparr> out"
  using counted_motion_in_view [of "\<lparr>pt_line = 0, pt_column = 0\<rparr>" "\<lparr>vp_top = 0, vp_rows = 1, vp_total = 2, vp_cols = 80\<rparr>"
      ascii_lib NextWord 2 "[[97, 32, 98], [99]]"]
  by (simp add: u64_max_def)

text \<open>
  C34. Leaving out whole laps when a count moves through the search matches changes nothing: the match
  reached is the one reached by that many single steps, in both directions, from the cursor or from the
  active match.
\<close>

theorem search_laps:
  assumes "matches_sorted ms" and "ms \<noteq> []" and "\<And>i. active = Some i \<Longrightarrow> i < length ms"
  shows "navigate_search ms fwd count cursor active = snd ((next_match ms fwd ^^ max count 1) (cursor, active))"
  by (rule navigate_search_counts [OF assms])

theorem search_laps_witness:
  "navigate_search [\<lparr>sm_line = 0, sm_start_column = 1, sm_end_column = 2\<rparr>, \<lparr>sm_line = 3, sm_start_column = 0, sm_end_column = 1\<rparr>] True 7 None (Some 1) =
   snd ((next_match [\<lparr>sm_line = 0, sm_start_column = 1, sm_end_column = 2\<rparr>, \<lparr>sm_line = 3, sm_start_column = 0, sm_end_column = 1\<rparr>] True ^^ max 7 1) (None, Some 1))"
  by (rule search_laps) (simp_all add: matches_sorted_def match_position_def)

section \<open>Protocol, panes and layout\<close>

text \<open>
  C40. A jump to a character of the cursor's line (\<open>f\<close>, \<open>F\<close>, \<open>t\<close>, \<open>T\<close> and their repetitions) returns, with or
  without a column, in all cases but one, in which it panics: \<open>T\<close>, not repeated, from a cursor past the end of
  a line that ends in the character.
\<close>

theorem jump_panics_exactly:
  "(jump u kind target cursor line repeat = Panic \<or> (\<exists>found. jump u kind target cursor line repeat = Ok found)) \<and>
   (jump u kind target cursor line repeat = Panic \<longleftrightarrow>
     kind = ToBackward \<and> \<not> repeat \<and> cells u line \<noteq> [] \<and> cell_index (cells u line) (pt_column cursor) = length (cells u line) \<and>
     ce_text (last (cells u line)) = [target])"
  unfolding jump_panics_iff [symmetric] by (auto simp: jump_def Let_def split: option.split)

text \<open>
  C36. A connection delivers the frames that were written to it: whatever frames are written, in order, a
  reader of the bytes reads exactly them, and then the end of the connection.
\<close>

theorem frames_roundtrip:
  assumes "\<And>f. f \<in> set fs \<Longrightarrow> length (rf_payload f) \<le> max_frame_len"
  shows "\<exists>bs. for_each fs write_frame [] = (Ok (), bs) \<and> read_frames bs = Ok fs"
  using write_frames_run [of fs "[]", OF assms] read_frames_encoded [of fs, OF assms] by simp

theorem frames_roundtrip_witness:
  "\<exists>bs. for_each [raw_frame_new Request 7 [1, 2]] write_frame [] = (Ok (), bs) \<and> read_frames bs = Ok [raw_frame_new Request 7 [1, 2]]"
  by (rule frames_roundtrip) (simp add: raw_frame_new_def max_frame_len_def)

text \<open>
  C35. Holding back replies implements a queue: over any sequence of queries, replies, input, deadlines and
  settings, what was held, followed by the replies given, is what was written to the pane followed by what
  is held now. No reply is lost, repeated or overtaken, at most 64 KiB wait, and none waits without a
  graphics query that waits for its answer and a deadline.
\<close>

theorem reply_hold_queue:
  assumes "run_hold es reply_hold_default = (out, t)"
  shows "concat (map given es) = out @ rh_held t \<and> length (rh_held t) \<le> max_held_reply_bytes \<and>
    (rh_held t \<noteq> [] \<longrightarrow> rh_pending t \<noteq> [] \<and> rh_deadline t \<noteq> None)"
proof -
  have "hold_ok reply_hold_default" "rh_held reply_hold_default = []" by (simp_all add: hold_ok_def reply_hold_default_def)
  then show ?thesis using run_hold_queue [OF _ assms] by (auto simp: hold_ok_def)
qed

theorem reply_hold_queue_witness:
  "concat (map given [SetEnabled True, Replies [1, 2]]) =
     fst (run_hold [SetEnabled True, Replies [1, 2]] reply_hold_default) @
     rh_held (snd (run_hold [SetEnabled True, Replies [1, 2]] reply_hold_default))"
  using reply_hold_queue [OF prod.collapse [symmetric], of "[SetEnabled True, Replies [1, 2]]"] by blast

text \<open>
  C38. When every pane of a split has a size of at least 1 and the sizes add up to at most the largest 16-bit
  number, moving a divider keeps the total size of the split, takes no pane below its minimum (or its size, if
  that is smaller already), and moves the divider by no more than was asked for, but by something.
\<close>

theorem divider_moves:
  assumes "move_divider lengths mins index delta = Some sizes" and "\<And>l. l \<in> set lengths \<Longrightarrow> 1 \<le> l"
    and "sum_list lengths \<le> u16_max"
  shows "length sizes = length lengths \<and> sum_list sizes = sum_list lengths \<and>
    (\<forall>i < length lengths. min (lengths ! i) (min_len mins i) \<le> sizes ! i) \<and>
    (\<exists>moved. 0 < moved \<and> moved \<le> nat \<bar>delta\<bar> \<and>
       (if delta > 0 then sizes ! index = lengths ! index + moved else sizes ! (index + 1) = lengths ! (index + 1) + moved))"
  by (rule move_divider_keeps [OF assms])

theorem divider_moves_witness:
  "move_divider [10, 5, 20] [3, 3, 3] 0 9 = Some [19, 3, 13] \<and>
   length [19 :: nat, 3, 13] = length [10 :: nat, 5, 20] \<and> sum_list [19 :: nat, 3, 13] = sum_list [10, 5, 20] \<and>
   min ([10, 5, 20] ! 0) (min_len [3, 3, 3] 0) \<le> [19, 3, 13] ! 0 \<and>
   min ([10, 5, 20] ! 1) (min_len [3, 3, 3] 1) \<le> [19, 3, 13] ! 1 \<and>
   min ([10, 5, 20] ! 2) (min_len [3, 3, 3] 2) \<le> [19, 3, 13] ! 2 \<and>
   (\<exists>moved. 0 < moved \<and> moved \<le> nat \<bar>9\<bar> \<and> [19, 3, 13] ! 0 = [10, 5, 20] ! 0 + moved)"
proof -
  have run: "move_divider [10, 5, 20] [3, 3, 3] 0 9 = Some [19, 3, 13]"
    by (simp add: move_divider_def donate_def min_len_def Let_def upt_rec u16_max_def)
  have ones: "1 \<le> l" if "l \<in> set [10 :: nat, 5, 20]" for l using that by auto
  have total: "sum_list [10 :: nat, 5, 20] \<le> u16_max" by (simp add: u16_max_def)
  have i: "0 < length [10 :: nat, 5, 20]" "1 < length [10 :: nat, 5, 20]" "2 < length [10 :: nat, 5, 20]" by simp_all
  show ?thesis using run i divider_moves [OF run ones total] unfolding if_P [OF zero_less_numeral] by blast
qed


text \<open>
  C39. Two clients do not fight over the size of a pane: a client whose last requests went through, that
  draws the same sizes again without input of its user in between, requests nothing, whatever sizes the
  server reports by then.
\<close>

theorem no_resize_fight:
  assumes "distinct (map fst targets)" and "plan_targets targets now st = (resizes, v)"
    and "map (\<lambda>(b, w, c). (b, w)) targets' = map (\<lambda>(b, w, c). (b, w)) targets"
    and "\<And>b. b \<in> fst ` set targets \<Longrightarrow> bt_get (failed st) b = None"
  shows "fst (plan_targets targets' now' v) = []"
  by (rule plan_again [OF assms])

theorem no_resize_fight_witness:
  "fst (plan_targets [(1, pty_size_new 80 24, pty_size_new 40 12)] 9
     (snd (plan_targets [(1, pty_size_new 80 24, pty_size_new 90 30)] 5 pty_size_sync_default))) = []"
  by (rule no_resize_fight [OF _ prod.collapse [symmetric]]) (simp_all add: pty_size_sync_default_def)

end
